(* ===== verification/Prelude.thy ===== *)
theory Prelude
  imports Main "HOL-Library.Word" "HOL-Library.Monad_Syntax"
begin

unbundle bit_operations_syntax

text \<open>
  The vocabulary shared by the component theories of the Etch C runtime model.

  \<^item> Machine integers: \<open>byte\<close>, \<open>short\<close>, \<open>int\<close> and \<open>int64\<close> of the C sources are words of
    8, 16, 32 and 64 bits; \<open>size_t\<close> is a \<open>nat\<close> whose arithmetic writes out the wrap-around
    at \<open>2 ^ 64\<close> (\<open>sz_add\<close>, \<open>sz_sub\<close>).
  \<^item> Memory: a block of allocated bytes is a \<open>byte list\<close>; \<open>mem_read\<close> and \<open>mem_write\<close> return
    \<open>None\<close> when any touched byte lies outside the block, which is undefined behaviour in C.
    An operation that touches memory lives in the \<open>option\<close> monad: the outer \<open>None\<close> is always
    an out-of-bounds access, never an error code of the program.
  \<^item> Generic lemmas on these, collected in \<open>mem_simps\<close>, \<open>sz_simps\<close> and \<open>bytes_simps\<close>.
\<close>

named_theorems sz_simps \<open>wrap-free size arithmetic\<close>
named_theorems mem_simps \<open>reading and writing blocks of bytes\<close>
named_theorems bytes_simps \<open>big-endian and little-endian byte strings of words\<close>

type_synonym byte = "8 word"
type_synonym int16 = "16 word"
type_synonym int32 = "32 word"
type_synonym int64 = "64 word"

section \<open>size_t\<close>

definition SIZE_MOD :: nat where
  "SIZE_MOD = 18446744073709551616"

definition sz_add :: "nat \<Rightarrow> nat \<Rightarrow> nat" where
  "sz_add a b = (a + b) mod SIZE_MOD"

definition sz_sub :: "nat \<Rightarrow> nat \<Rightarrow> nat" where
  "sz_sub a b = (a + SIZE_MOD - b) mod SIZE_MOD"

text \<open>An \<open>int\<close> converted to \<open>size_t\<close>: sign-extended, then read as unsigned.\<close>

definition sz_of_int :: "int \<Rightarrow> nat" where
  "sz_of_int i = nat (i mod 18446744073709551616)"

lemma sz_add_small [sz_simps]: "a + b < SIZE_MOD \<Longrightarrow> sz_add a b = a + b"
  by (simp add: sz_add_def)

lemma sz_sub_small [sz_simps]:
  assumes "b \<le> a" and "a < SIZE_MOD"
  shows "sz_sub a b = a - b"
proof -
  have eq: "a + SIZE_MOD - b = (a - b) + SIZE_MOD" using assms by simp
  have "a - b < SIZE_MOD" using assms by simp
  then show ?thesis unfolding sz_sub_def eq by simp
qed

text \<open>No C object is larger than \<open>PTRDIFF_MAX\<close>, so two in-object offsets never wrap when added.\<close>

definition OBJ_MAX :: nat where
  "OBJ_MAX = 9223372036854775807"

lemma OBJ_MAX_SIZE_MOD [sz_simps]: "a \<le> OBJ_MAX \<Longrightarrow> a < SIZE_MOD"
  by (simp add: OBJ_MAX_def SIZE_MOD_def)

lemma OBJ_MAX_add [sz_simps]: "a \<le> OBJ_MAX \<Longrightarrow> b \<le> OBJ_MAX \<Longrightarrow> a + b < SIZE_MOD"
  by (simp add: OBJ_MAX_def SIZE_MOD_def)

lemma OBJ_MAX_large [sz_simps]: "n \<le> 1073741824 \<Longrightarrow> n \<le> OBJ_MAX"
  by (simp add: OBJ_MAX_def)

lemma sz_of_int_nonneg [sz_simps]:
  "0 \<le> i \<Longrightarrow> i < 18446744073709551616 \<Longrightarrow> sz_of_int i = nat i"
  by (simp add: sz_of_int_def)

lemma sz_of_int_minus_one: "sz_of_int (- 1) = SIZE_MOD - 1"
  by (simp add: sz_of_int_def SIZE_MOD_def)

section \<open>Blocks of memory\<close>

definition mem_read :: "byte list \<Rightarrow> nat \<Rightarrow> nat \<Rightarrow> byte list option" where
  "mem_read m off n = (if off + n \<le> length m then Some (take n (drop off m)) else None)"

definition mem_write :: "byte list \<Rightarrow> nat \<Rightarrow> byte list \<Rightarrow> byte list option" where
  "mem_write m off bs =
     (if off + length bs \<le> length m
      then Some (take off m @ bs @ drop (off + length bs) m) else None)"

definition mem_get :: "byte list \<Rightarrow> nat \<Rightarrow> byte option" where
  "mem_get m i = (if i < length m then Some (m ! i) else None)"

lemma mem_read_Some [mem_simps]:
  "off + n \<le> length m \<Longrightarrow> mem_read m off n = Some (take n (drop off m))"
  by (simp add: mem_read_def)

lemma mem_write_Some [mem_simps]:
  "off + length bs \<le> length m \<Longrightarrow>
     mem_write m off bs = Some (take off m @ bs @ drop (off + length bs) m)"
  by (simp add: mem_write_def)

lemma mem_get_Some [mem_simps]: "i < length m \<Longrightarrow> mem_get m i = Some (m ! i)"
  by (simp add: mem_get_def)

lemma mem_read_eq_Some: "mem_read m off n = Some bs \<Longrightarrow> length bs = n"
  by (auto simp: mem_read_def split: if_splits)

lemma mem_write_length: "mem_write m off bs = Some m' \<Longrightarrow> length m' = length m"
  by (auto simp: mem_write_def split: if_splits)

section \<open>Lists\<close>

lemma take_drop_append: "take a xs @ take b (drop a xs) = take (a + b) xs"
  by (simp add: take_add)

lemma take_4_drop:
  assumes "i + 4 \<le> length xs"
  shows "take 4 (drop i xs) = [xs ! i, xs ! (i + 1), xs ! (i + 2), xs ! (i + 3)]"
  using assms by (simp add: numeral_eq_Suc take_Suc_conv_app_nth)

lemma take_2_drop:
  assumes "i + 2 \<le> length xs"
  shows "take 2 (drop i xs) = [xs ! i, xs ! (i + 1)]"
  using assms by (simp add: numeral_eq_Suc take_Suc_conv_app_nth)

lemma take_8_drop:
  assumes "i + 8 \<le> length xs"
  shows "take 8 (drop i xs) = [xs ! i, xs ! (i + 1), xs ! (i + 2), xs ! (i + 3),
     xs ! (i + 4), xs ! (i + 5), xs ! (i + 6), xs ! (i + 7)]"
  using assms by (simp add: numeral_eq_Suc take_Suc_conv_app_nth)

section \<open>Results\<close>

text \<open>The result of a loop with fuel: the fuel ran out, undefined behaviour, or a value.\<close>

datatype 'a outcome = Diverges | Fault | Returns 'a

text \<open>An \<open>apr_status_t\<close>; the codes are those of APR on a POSIX system.\<close>

datatype apr_status = APR_SUCCESS | APR_EOF | APR_ERROR int

definition APR_EINTR :: apr_status where "APR_EINTR = APR_ERROR 4"
definition APR_EAGAIN :: apr_status where "APR_EAGAIN = APR_ERROR 11"
definition APR_TIMEUP :: apr_status where "APR_TIMEUP = APR_ERROR 70007"

lemmas apr_codes = APR_EINTR_def APR_EAGAIN_def APR_TIMEUP_def

end
