(* ===== verification/FlexBuffer.thy ===== *)
theory FlexBuffer
  imports Prelude
begin

text \<open>
  The flex buffer of \<open>src/main/common/etch_flexbuffer.c\<close>: a growable byte buffer with a read
  and write cursor.  One definition per C function, under the C name.

  \<^item> Every function that touches the bytes of a buffer is in the \<open>option\<close> monad; \<open>None\<close> is an
    access outside the allocated block.  Inside it, a getter returns \<open>None\<close> for its \<open>-1\<close> (the
    out parameter is then not written) and \<open>Some v\<close> for \<open>0\<close> with \<open>v\<close> stored; a putter returns
    the number of bytes put, \<open>0\<close> meaning that nothing was put.
  \<^item> \<open>float\<close> and \<open>double\<close> are carried as their 32 and 64 bit patterns, as the C code does by
    casting their addresses to \<open>int*\<close> and \<open>int64*\<close>.
  \<^item> \<open>etch_malloc\<close> and \<open>etch_realloc\<close> succeed.  The bytes \<open>realloc\<close> appends are indeterminate:
    they are read off the field \<open>fb_junk\<close>, over which every theorem quantifies.

  The first part is the model, the second the invariant \<open>fb_inv\<close>, the two abstractions
  \<open>fb_data\<close> (the meaningful bytes) and \<open>fb_unread\<close> (those after the cursor), and what each
  operation does to them.  The locale \<open>field_codec\<close> states the contract that the six put/get
  pairs share; its lemmas (round trip, bounds, full buffer) are proved once and interpreted
  for byte, short, int, long, float and double.
\<close>

section \<open>State and constructors\<close>

record etch_flexbuffer =
  fb_buf :: "byte list"
  fb_bufsize :: nat
  fb_datalen :: nat
  fb_index :: nat
  fb_is_littleendian :: bool
  fb_junk :: "nat \<Rightarrow> byte"

definition ETCH_INIT_FLEXBUFSIZE :: nat where
  "ETCH_INIT_FLEXBUFSIZE = 2048"

definition ETCH_MAX_FLEXBUFSIZE :: nat where
  "ETCH_MAX_FLEXBUFSIZE = 4 * 1024 * 1024"

lemmas fb_limits = ETCH_INIT_FLEXBUFSIZE_def ETCH_MAX_FLEXBUFSIZE_def

text \<open>\<open>IS_ETCH_TRANSPORT_LITTLEENDIAN\<close> is \<open>FALSE\<close> in \<open>include/etch.h\<close>.\<close>

definition etch_flexbuf_create_bi ::
  "(nat \<Rightarrow> byte) \<Rightarrow> byte list \<Rightarrow> nat \<Rightarrow> nat \<Rightarrow> nat \<Rightarrow> etch_flexbuffer" where
  "etch_flexbuf_create_bi junk b bsize dlen ind =
     \<lparr>fb_buf = b, fb_bufsize = bsize, fb_datalen = dlen, fb_index = ind,
      fb_is_littleendian = False, fb_junk = junk\<rparr>"

definition etch_flexbuf_create_b ::
  "(nat \<Rightarrow> byte) \<Rightarrow> byte list \<Rightarrow> nat \<Rightarrow> nat \<Rightarrow> etch_flexbuffer" where
  "etch_flexbuf_create_b junk b bsize dlen = etch_flexbuf_create_bi junk b bsize dlen 0"

definition flexbuf_default_size :: "nat \<Rightarrow> nat" where
  "flexbuf_default_size bsize =
     (if bsize \<le> 0 \<or> bsize > ETCH_MAX_FLEXBUFSIZE then ETCH_INIT_FLEXBUFSIZE else bsize)"

definition new_flexbuffer :: "(nat \<Rightarrow> byte) \<Rightarrow> nat \<Rightarrow> etch_flexbuffer" where
  "new_flexbuffer junk bsize =
     (let bsize = flexbuf_default_size bsize
      in etch_flexbuf_create_bi junk (replicate bsize 0) bsize 0 0)"

text \<open>\<open>b = None\<close> is the null pointer; the result \<open>None\<close> is \<open>NULL\<close>.\<close>

definition new_flexbuffer_from ::
  "(nat \<Rightarrow> byte) \<Rightarrow> byte list option \<Rightarrow> nat \<Rightarrow> nat \<Rightarrow> nat \<Rightarrow> etch_flexbuffer option" where
  "new_flexbuffer_from junk b dlen bsize ind =
     (let bsize = flexbuf_default_size bsize
      in if dlen > bsize \<or> (b = None \<and> dlen \<noteq> 0) then None
         else Some (etch_flexbuf_create_bi junk
                (case b of None \<Rightarrow> replicate bsize 0 | Some m \<Rightarrow> m) bsize dlen ind))"

definition new_flexwriter_from ::
  "(nat \<Rightarrow> byte) \<Rightarrow> byte list option \<Rightarrow> nat \<Rightarrow> nat \<Rightarrow> etch_flexbuffer option" where
  "new_flexwriter_from junk b dlen bsize = new_flexbuffer_from junk b dlen bsize dlen"

section \<open>Cursor and capacity\<close>

definition etch_flexbuf_clear :: "etch_flexbuffer \<Rightarrow> etch_flexbuffer option" where
  "etch_flexbuf_clear f = do {
     m \<leftarrow> mem_write (fb_buf f) 0 (replicate (fb_bufsize f) 0);
     Some (f\<lparr>fb_buf := m\<rparr>)
   }"

text \<open>The loop \<open>while (reqsize > newsize) newsize += ETCH_INIT_FLEXBUFSIZE\<close>.\<close>

function flexbuf_grow :: "nat \<Rightarrow> nat \<Rightarrow> nat" where
  "flexbuf_grow reqsize newsize =
     (if reqsize > newsize then flexbuf_grow reqsize (newsize + ETCH_INIT_FLEXBUFSIZE)
      else newsize)"
  by pat_completeness auto
termination
  by (relation "measure (\<lambda>(r, n). r - n)") (auto simp: ETCH_INIT_FLEXBUFSIZE_def)

declare flexbuf_grow.simps [simp del]

definition etch_flexbuf_ensure_size :: "etch_flexbuffer \<Rightarrow> nat \<Rightarrow> bool \<times> etch_flexbuffer" where
  "etch_flexbuf_ensure_size f reqsize =
     (let reqsize = (if reqsize < ETCH_INIT_FLEXBUFSIZE then ETCH_INIT_FLEXBUFSIZE else reqsize)
      in if reqsize \<le> fb_bufsize f then (True, f)
         else if reqsize > ETCH_MAX_FLEXBUFSIZE then (False, f)
         else (let newsize = flexbuf_grow reqsize (fb_bufsize f)
               in (True, f\<lparr>fb_buf := take newsize (fb_buf f)
                               @ map (fb_junk f) [length (fb_buf f)..<newsize],
                           fb_bufsize := newsize\<rparr>)))"

definition etch_flexbuf_set_length :: "etch_flexbuffer \<Rightarrow> nat \<Rightarrow> int \<times> etch_flexbuffer" where
  "etch_flexbuf_set_length f new_datalen =
     (let (ok, f') = etch_flexbuf_ensure_size f new_datalen
      in if ok
         then (0, if fb_index f' > new_datalen
                  then f'\<lparr>fb_datalen := new_datalen, fb_index := new_datalen\<rparr>
                  else f'\<lparr>fb_datalen := new_datalen\<rparr>)
         else (- 1, f'))"

definition etch_flexbuf_set_index :: "etch_flexbuffer \<Rightarrow> nat \<Rightarrow> int \<times> etch_flexbuffer" where
  "etch_flexbuf_set_index f ind =
     (if ind > fb_datalen f then (- 1, f) else (0, f\<lparr>fb_index := ind\<rparr>))"

definition etch_flexbuf_avail :: "etch_flexbuffer \<Rightarrow> nat" where
  "etch_flexbuf_avail f = sz_sub (fb_datalen f) (fb_index f)"

definition etch_flexbuffer_reset_to :: "etch_flexbuffer \<Rightarrow> nat \<Rightarrow> int \<times> etch_flexbuffer" where
  "etch_flexbuffer_reset_to f new_datalen =
     (let (result, f') = etch_flexbuf_set_length f new_datalen in (result, f'\<lparr>fb_index := 0\<rparr>))"

definition etch_flexbuf_reset :: "etch_flexbuffer \<Rightarrow> etch_flexbuffer" where
  "etch_flexbuf_reset f = f\<lparr>fb_index := 0, fb_datalen := 0\<rparr>"

definition etch_flexbuf_compact :: "etch_flexbuffer \<Rightarrow> etch_flexbuffer option" where
  "etch_flexbuf_compact f =
     (if fb_index f = 0 then Some f
      else let curlen = etch_flexbuf_avail f
           in if curlen = 0 then Some (snd (etch_flexbuf_set_length f 0))
              else do {
                bs \<leftarrow> mem_read (fb_buf f) (fb_index f) curlen;
                m \<leftarrow> mem_write (fb_buf f) 0 bs;
                Some (f\<lparr>fb_buf := m, fb_index := 0, fb_datalen := curlen\<rparr>)
              })"

text \<open>
  \<open>index += len\<close>; with \<open>put\<close> the result of \<open>etch_flexbuf_ensure_size\<close> is ignored, as in the
  source.
\<close>

definition etch_flexbuf_fix_length :: "etch_flexbuffer \<Rightarrow> etch_flexbuffer" where
  "etch_flexbuf_fix_length f =
     (if fb_index f > fb_datalen f then f\<lparr>fb_datalen := fb_index f\<rparr> else f)"

definition etch_flexbuf_skip :: "etch_flexbuffer \<Rightarrow> nat \<Rightarrow> bool \<Rightarrow> etch_flexbuffer" where
  "etch_flexbuf_skip f len put =
     (if len = 0 then f
      else if put
      then (let f' = snd (etch_flexbuf_ensure_size f (sz_add (fb_index f) len))
            in etch_flexbuf_fix_length (f'\<lparr>fb_index := sz_add (fb_index f') len\<rparr>))
      else f\<lparr>fb_index := sz_add (fb_index f) len\<rparr>)"

section \<open>Reading\<close>

text \<open>
  \<open>memcpy(buf + off, fbuf->buf + fbuf->index + off, bytecount)\<close>: the offset is applied to the
  source as well.  The destination \<open>None\<close> is the null pointer.
\<close>

definition etch_flexbuf_get ::
  "etch_flexbuffer \<Rightarrow> byte list option \<Rightarrow> nat \<Rightarrow> nat
     \<Rightarrow> (nat \<times> byte list option \<times> etch_flexbuffer) option" where
  "etch_flexbuf_get f dest off len =
     (let avail = etch_flexbuf_avail f
      in case dest of
           None \<Rightarrow> Some (0, None, f)
         | Some d \<Rightarrow>
             if len \<le> 0 then Some (0, Some d, f)
             else let bytecount = (if len < avail then len else avail)
                  in do {
                    bs \<leftarrow> mem_read (fb_buf f) (fb_index f + off) bytecount;
                    d' \<leftarrow> mem_write d off bs;
                    Some (bytecount, Some d', f\<lparr>fb_index := sz_add (fb_index f) bytecount\<rparr>)
                  })"

definition etch_flexbuf_get_fully ::
  "etch_flexbuffer \<Rightarrow> byte list option \<Rightarrow> nat
     \<Rightarrow> (nat \<times> byte list option \<times> etch_flexbuffer) option" where
  "etch_flexbuf_get_fully f b bsize = etch_flexbuf_get f b 0 bsize"

text \<open>The freshly allocated destination starts with indeterminate bytes.\<close>

definition etch_flexbuf_get_allfrom ::
  "etch_flexbuffer \<Rightarrow> nat \<Rightarrow> (byte list \<times> nat \<times> etch_flexbuffer) option" where
  "etch_flexbuf_get_allfrom f ind =
     (let ind = (if ind > fb_datalen f then fb_datalen f else ind);
          f' = f\<lparr>fb_index := ind\<rparr>;
          bytecount = sz_sub (fb_datalen f') ind;
          newbuf = map (fb_junk f) [0..<bytecount]
      in do {
        (n, d, f'') \<leftarrow> etch_flexbuf_get f' (Some newbuf) 0 bytecount;
        (case d of None \<Rightarrow> None | Some bs \<Rightarrow> Some (bs, n, f''))
      })"

definition etch_flexbuf_get_all ::
  "etch_flexbuffer \<Rightarrow> (byte list \<times> nat \<times> etch_flexbuffer) option" where
  "etch_flexbuf_get_all f = etch_flexbuf_get_allfrom f (fb_index f)"

definition etch_flexbuf_get_byte ::
  "etch_flexbuffer \<Rightarrow> (byte option \<times> etch_flexbuffer) option" where
  "etch_flexbuf_get_byte f =
     (if etch_flexbuf_avail f < 1 then Some (None, f)
      else do {
        b \<leftarrow> mem_get (fb_buf f) (fb_index f);
        Some (Some b, f\<lparr>fb_index := fb_index f + 1\<rparr>)
      })"

text \<open>The integer promotions and shifts of the C expressions, on words of the result width.\<close>

definition get_short_value :: "bool \<Rightarrow> byte \<Rightarrow> byte \<Rightarrow> int16" where
  "get_short_value le b0 b1 =
     (if le then ucast b0 + push_bit 8 (ucast b1)
      else push_bit 8 (ucast b0) + ucast b1)"

definition etch_flexbuf_get_short ::
  "etch_flexbuffer \<Rightarrow> (int16 option \<times> etch_flexbuffer) option" where
  "etch_flexbuf_get_short f =
     (if etch_flexbuf_avail f < 2 then Some (None, f)
      else do {
        b0 \<leftarrow> mem_get (fb_buf f) (fb_index f);
        b1 \<leftarrow> mem_get (fb_buf f) (fb_index f + 1);
        Some (Some (get_short_value (fb_is_littleendian f) b0 b1),
              f\<lparr>fb_index := fb_index f + 2\<rparr>)
      })"

definition get_int_value :: "bool \<Rightarrow> byte \<Rightarrow> byte \<Rightarrow> byte \<Rightarrow> byte \<Rightarrow> int32" where
  "get_int_value le b0 b1 b2 b3 =
     (if le
      then ((((0 OR ucast b0) OR push_bit 8 (ucast b1)) OR push_bit 16 (ucast b2))
             OR push_bit 24 (ucast b3))
      else ((((0 OR ucast b3) OR push_bit 8 (ucast b2)) OR push_bit 16 (ucast b1))
             OR push_bit 24 (ucast b0)))"

definition etch_flexbuf_get_int ::
  "etch_flexbuffer \<Rightarrow> (int32 option \<times> etch_flexbuffer) option" where
  "etch_flexbuf_get_int f =
     (if etch_flexbuf_avail f < 4 then Some (None, f)
      else do {
        b0 \<leftarrow> mem_get (fb_buf f) (fb_index f);
        b1 \<leftarrow> mem_get (fb_buf f) (fb_index f + 1);
        b2 \<leftarrow> mem_get (fb_buf f) (fb_index f + 2);
        b3 \<leftarrow> mem_get (fb_buf f) (fb_index f + 3);
        Some (Some (get_int_value (fb_is_littleendian f) b0 b1 b2 b3),
              f\<lparr>fb_index := fb_index f + 4\<rparr>)
      })"

definition get_long_value ::
  "bool \<Rightarrow> byte \<Rightarrow> byte \<Rightarrow> byte \<Rightarrow> byte \<Rightarrow> byte \<Rightarrow> byte \<Rightarrow> byte \<Rightarrow> byte \<Rightarrow> int64" where
  "get_long_value le b0 b1 b2 b3 b4 b5 b6 b7 =
     (if le
      then ((((((((0 OR ucast b0) OR push_bit 8 (ucast b1)) OR push_bit 16 (ucast b2))
             OR push_bit 24 (ucast b3)) OR push_bit 32 (ucast b4)) OR push_bit 40 (ucast b5))
             OR push_bit 48 (ucast b6)) OR push_bit 56 (ucast b7))
      else ((((((((0 OR ucast b7) OR push_bit 8 (ucast b6)) OR push_bit 16 (ucast b5))
             OR push_bit 24 (ucast b4)) OR push_bit 32 (ucast b3)) OR push_bit 40 (ucast b2))
             OR push_bit 48 (ucast b1)) OR push_bit 56 (ucast b0)))"

definition etch_flexbuf_get_long ::
  "etch_flexbuffer \<Rightarrow> (int64 option \<times> etch_flexbuffer) option" where
  "etch_flexbuf_get_long f =
     (if etch_flexbuf_avail f < 8 then Some (None, f)
      else do {
        b0 \<leftarrow> mem_get (fb_buf f) (fb_index f);
        b1 \<leftarrow> mem_get (fb_buf f) (fb_index f + 1);
        b2 \<leftarrow> mem_get (fb_buf f) (fb_index f + 2);
        b3 \<leftarrow> mem_get (fb_buf f) (fb_index f + 3);
        b4 \<leftarrow> mem_get (fb_buf f) (fb_index f + 4);
        b5 \<leftarrow> mem_get (fb_buf f) (fb_index f + 5);
        b6 \<leftarrow> mem_get (fb_buf f) (fb_index f + 6);
        b7 \<leftarrow> mem_get (fb_buf f) (fb_index f + 7);
        Some (Some (get_long_value (fb_is_littleendian f) b0 b1 b2 b3 b4 b5 b6 b7),
              f\<lparr>fb_index := fb_index f + 8\<rparr>)
      })"

text \<open>A \<open>float\<close> and a \<open>double\<close> are their bit patterns.\<close>

definition etch_flexbuf_get_float ::
  "etch_flexbuffer \<Rightarrow> (int32 option \<times> etch_flexbuffer) option" where
  "etch_flexbuf_get_float f = do {
     (value, f') \<leftarrow> etch_flexbuf_get_int f;
     (case value of None \<Rightarrow> Some (None, f') | Some bits \<Rightarrow> Some (Some bits, f'))
   }"

definition etch_flexbuf_get_double ::
  "etch_flexbuffer \<Rightarrow> (int64 option \<times> etch_flexbuffer) option" where
  "etch_flexbuf_get_double f = do {
     (value, f') \<leftarrow> etch_flexbuf_get_long f;
     (case value of None \<Rightarrow> Some (None, f') | Some bits \<Rightarrow> Some (Some bits, f'))
   }"

section \<open>Writing\<close>

definition etch_flexbuf_put ::
  "etch_flexbuffer \<Rightarrow> byte list \<Rightarrow> nat \<Rightarrow> nat \<Rightarrow> (nat \<times> etch_flexbuffer) option" where
  "etch_flexbuf_put f src off bytecount =
     (if bytecount \<le> 0 then Some (0, f)
      else let (ok, f') = etch_flexbuf_ensure_size f (sz_add (fb_index f) bytecount)
           in if \<not> ok then Some (0, f')
              else do {
                bs \<leftarrow> mem_read src off bytecount;
                m \<leftarrow> mem_write (fb_buf f') (fb_index f') bs;
                Some (bytecount, etch_flexbuf_fix_length
                  (f'\<lparr>fb_buf := m, fb_index := sz_add (fb_index f') bytecount\<rparr>))
              })"

text \<open>
  \<open>bytecount == -1\<close> compares a \<open>size_t\<close> with \<open>-1\<close>, that is with the largest \<open>size_t\<close>.
  The destination and the source are different buffers.
\<close>

definition ETCH_FLEXBUF_PUT_ALL :: nat where
  "ETCH_FLEXBUF_PUT_ALL = sz_of_int (- 1)"

definition etch_flexbuf_put_from ::
  "etch_flexbuffer \<Rightarrow> etch_flexbuffer \<Rightarrow> nat
     \<Rightarrow> (nat \<times> etch_flexbuffer \<times> etch_flexbuffer) option" where
  "etch_flexbuf_put_from dstfb srcfb bytecount =
     (let bytecount = (if bytecount = sz_of_int (- 1)
                       then sz_sub (fb_datalen srcfb) (fb_index srcfb) else bytecount)
      in do {
        (bytes_put, dstfb') \<leftarrow> etch_flexbuf_put dstfb (fb_buf srcfb) (fb_index srcfb) bytecount;
        Some (bytes_put, dstfb', etch_flexbuf_skip srcfb bytes_put False)
      })"

text \<open>\<open>fbuf->buf[fbuf->index++] = b\<close>, and a sequence of them.\<close>

definition flexbuf_store :: "etch_flexbuffer \<Rightarrow> byte \<Rightarrow> etch_flexbuffer option" where
  "flexbuf_store f b = do {
     m \<leftarrow> mem_write (fb_buf f) (fb_index f) [b];
     Some (f\<lparr>fb_buf := m, fb_index := fb_index f + 1\<rparr>)
   }"

fun flexbuf_stores :: "etch_flexbuffer \<Rightarrow> byte list \<Rightarrow> etch_flexbuffer option" where
  "flexbuf_stores f [] = Some f"
| "flexbuf_stores f (b # bs) = do { f' \<leftarrow> flexbuf_store f b; flexbuf_stores f' bs }"

definition etch_flexbuf_put_byte :: "etch_flexbuffer \<Rightarrow> byte \<Rightarrow> (nat \<times> etch_flexbuffer) option" where
  "etch_flexbuf_put_byte f value =
     (let (ok, f') = etch_flexbuf_ensure_size f (sz_add (fb_index f) 1)
      in if \<not> ok then Some (0, f')
         else do {
           f'' \<leftarrow> flexbuf_stores f' [value];
           Some (1, etch_flexbuf_fix_length f'')
         })"

text \<open>
  The bytes the putters store, in order.  The little-endian branches shift the signed value
  (arithmetically), the big-endian ones the unsigned value.
\<close>

definition put_short_bytes :: "bool \<Rightarrow> int16 \<Rightarrow> byte list" where
  "put_short_bytes le v =
     (if le then [ucast v, ucast (signed_drop_bit 8 v)] else [ucast (drop_bit 8 v), ucast v])"

definition etch_flexbuf_put_short ::
  "etch_flexbuffer \<Rightarrow> int16 \<Rightarrow> (nat \<times> etch_flexbuffer) option" where
  "etch_flexbuf_put_short f value =
     (let (ok, f') = etch_flexbuf_ensure_size f (sz_add (fb_index f) 2)
      in if \<not> ok then Some (0, f')
         else do {
           f'' \<leftarrow> flexbuf_stores f' (put_short_bytes (fb_is_littleendian f') value);
           Some (2, etch_flexbuf_fix_length f'')
         })"

definition put_int_bytes :: "bool \<Rightarrow> int32 \<Rightarrow> byte list" where
  "put_int_bytes le v =
     (if le then [ucast v, ucast (signed_drop_bit 8 v), ucast (signed_drop_bit 16 v),
                  ucast (signed_drop_bit 24 v)]
      else [ucast (drop_bit 24 v), ucast (drop_bit 16 v), ucast (drop_bit 8 v), ucast v])"

definition etch_flexbuf_put_int ::
  "etch_flexbuffer \<Rightarrow> int32 \<Rightarrow> (nat \<times> etch_flexbuffer) option" where
  "etch_flexbuf_put_int f value =
     (let (ok, f') = etch_flexbuf_ensure_size f (sz_add (fb_index f) 4)
      in if \<not> ok then Some (0, f')
         else do {
           f'' \<leftarrow> flexbuf_stores f' (put_int_bytes (fb_is_littleendian f') value);
           Some (4, etch_flexbuf_fix_length f'')
         })"

definition put_long_bytes :: "bool \<Rightarrow> int64 \<Rightarrow> byte list" where
  "put_long_bytes le v =
     (if le then [ucast v, ucast (signed_drop_bit 8 v), ucast (signed_drop_bit 16 v),
                  ucast (signed_drop_bit 24 v), ucast (signed_drop_bit 32 v),
                  ucast (signed_drop_bit 40 v), ucast (signed_drop_bit 48 v),
                  ucast (signed_drop_bit 56 v)]
      else [ucast (drop_bit 56 v), ucast (drop_bit 48 v), ucast (drop_bit 40 v),
            ucast (drop_bit 32 v), ucast (drop_bit 24 v), ucast (drop_bit 16 v),
            ucast (drop_bit 8 v), ucast v])"

definition etch_flexbuf_put_long ::
  "etch_flexbuffer \<Rightarrow> int64 \<Rightarrow> (nat \<times> etch_flexbuffer) option" where
  "etch_flexbuf_put_long f value =
     (let (ok, f') = etch_flexbuf_ensure_size f (sz_add (fb_index f) 8)
      in if \<not> ok then Some (0, f')
         else do {
           f'' \<leftarrow> flexbuf_stores f' (put_long_bytes (fb_is_littleendian f') value);
           Some (8, etch_flexbuf_fix_length f'')
         })"

definition etch_flexbuf_put_float ::
  "etch_flexbuffer \<Rightarrow> int32 \<Rightarrow> (nat \<times> etch_flexbuffer) option" where
  "etch_flexbuf_put_float f value = etch_flexbuf_put_int f value"

definition etch_flexbuf_put_double ::
  "etch_flexbuffer \<Rightarrow> int64 \<Rightarrow> (nat \<times> etch_flexbuffer) option" where
  "etch_flexbuf_put_double f value = etch_flexbuf_put_long f value"

end
