(* ===== verification/TagData.thy ===== *)
theory TagData
  imports FlexBuffer
begin

text \<open>
  Tagged data: the objects that are serialized, their type codes on the wire, and the conversions
  between numbers, from \<open>src/main/bindings/msg/etch_tagdata.c\<close>, \<open>include/etch_tagged_data.h\<close>,
  \<open>include/etch_objecttypes.h\<close> and \<open>include/etch_object.h\<close>.

  \<^item> An \<open>etch_object*\<close> is a value of the type \<open>etch_object\<close>: \<open>ENull\<close> is the null pointer,
    \<open>ENullObj\<close> the object that stands for a logical null, \<open>EEod\<close> the end-of-data mark.
    Wrapped numbers hold their words; a float or double is its bit pattern.
  \<^item> Strings are of a parameter type \<open>'s\<close>: their encodings are converted by the APR iconv library.
    Objects of user classes are of a parameter type \<open>'c\<close>; what the code asks of both is in the
    environment record \<open>etch_env\<close>, as is the arithmetic on IEEE numbers.
  \<^item> \<open>EBytes\<close> is an \<open>etch_nativearray\<close> of bytes with one dimension, \<open>EArray\<close> an
    \<open>etch_arrayvalue\<close> with its elements,
    \<open>EStruct\<close> an \<open>etch_structvalue\<close>: the id of its type and its items in the order of the
    iterator of the backing hash table.
\<close>

section \<open>Type codes and ranges\<close>

definition ETCH_XTRNL_TYPECODE_NULL :: byte where "ETCH_XTRNL_TYPECODE_NULL = - 128"
definition ETCH_XTRNL_TYPECODE_NONE :: byte where "ETCH_XTRNL_TYPECODE_NONE = - 127"
definition ETCH_XTRNL_TYPECODE_BOOLEAN_FALSE :: byte where "ETCH_XTRNL_TYPECODE_BOOLEAN_FALSE = - 126"
definition ETCH_XTRNL_TYPECODE_BOOLEAN_TRUE :: byte where "ETCH_XTRNL_TYPECODE_BOOLEAN_TRUE = - 125"
definition ETCH_XTRNL_TYPECODE_BYTE :: byte where "ETCH_XTRNL_TYPECODE_BYTE = - 124"
definition ETCH_XTRNL_TYPECODE_SHORT :: byte where "ETCH_XTRNL_TYPECODE_SHORT = - 123"
definition ETCH_XTRNL_TYPECODE_INT :: byte where "ETCH_XTRNL_TYPECODE_INT = - 122"
definition ETCH_XTRNL_TYPECODE_LONG :: byte where "ETCH_XTRNL_TYPECODE_LONG = - 121"
definition ETCH_XTRNL_TYPECODE_FLOAT :: byte where "ETCH_XTRNL_TYPECODE_FLOAT = - 120"
definition ETCH_XTRNL_TYPECODE_DOUBLE :: byte where "ETCH_XTRNL_TYPECODE_DOUBLE = - 119"
definition ETCH_XTRNL_TYPECODE_BYTES :: byte where "ETCH_XTRNL_TYPECODE_BYTES = - 117"
definition ETCH_XTRNL_TYPECODE_ARRAY :: byte where "ETCH_XTRNL_TYPECODE_ARRAY = - 111"
definition ETCH_XTRNL_TYPECODE_EMPTY_STRING :: byte where "ETCH_XTRNL_TYPECODE_EMPTY_STRING = - 110"
definition ETCH_XTRNL_TYPECODE_STRING :: byte where "ETCH_XTRNL_TYPECODE_STRING = - 109"
definition ETCH_XTRNL_TYPECODE_STRUCT :: byte where "ETCH_XTRNL_TYPECODE_STRUCT = - 108"
definition ETCH_XTRNL_TYPECODE_CUSTOM :: byte where "ETCH_XTRNL_TYPECODE_CUSTOM = - 107"
definition ETCH_XTRNL_TYPECODE_ANY :: byte where "ETCH_XTRNL_TYPECODE_ANY = - 106"

lemmas typecode_defs = ETCH_XTRNL_TYPECODE_NULL_def ETCH_XTRNL_TYPECODE_NONE_def
  ETCH_XTRNL_TYPECODE_BOOLEAN_FALSE_def ETCH_XTRNL_TYPECODE_BOOLEAN_TRUE_def
  ETCH_XTRNL_TYPECODE_BYTE_def ETCH_XTRNL_TYPECODE_SHORT_def ETCH_XTRNL_TYPECODE_INT_def
  ETCH_XTRNL_TYPECODE_LONG_def ETCH_XTRNL_TYPECODE_FLOAT_def ETCH_XTRNL_TYPECODE_DOUBLE_def
  ETCH_XTRNL_TYPECODE_BYTES_def ETCH_XTRNL_TYPECODE_ARRAY_def ETCH_XTRNL_TYPECODE_EMPTY_STRING_def
  ETCH_XTRNL_TYPECODE_STRING_def ETCH_XTRNL_TYPECODE_STRUCT_def ETCH_XTRNL_TYPECODE_CUSTOM_def
  ETCH_XTRNL_TYPECODE_ANY_def

definition is_inrange_bool :: "int \<Rightarrow> bool" where
  "is_inrange_bool n = (n = 0 \<or> n = 1)"

definition is_inrange_tiny :: "int \<Rightarrow> bool" where
  "is_inrange_tiny n = (- 64 \<le> n \<and> n \<le> 127)"

definition is_inrange_tiny_for_signed_chars :: "byte \<Rightarrow> bool" where
  "is_inrange_tiny_for_signed_chars n = (- 64 \<le> sint n)"

definition is_inrange_byte :: "int \<Rightarrow> bool" where
  "is_inrange_byte n = (- 128 \<le> n \<and> n \<le> 127)"

definition is_inrange_int16 :: "int \<Rightarrow> bool" where
  "is_inrange_int16 n = (- 32768 \<le> n \<and> n \<le> 32767)"

definition is_inrange_int32 :: "int \<Rightarrow> bool" where
  "is_inrange_int32 n = (- 2147483648 \<le> n \<and> n \<le> 2147483647)"

definition etchtagdata_check_byte :: "byte \<Rightarrow> byte" where
  "etchtagdata_check_byte val =
     (if is_inrange_tiny_for_signed_chars val then val else ETCH_XTRNL_TYPECODE_BYTE)"

definition etchtagdata_check_short :: "int16 \<Rightarrow> byte" where
  "etchtagdata_check_short val =
     (if is_inrange_byte (sint val) then etchtagdata_check_byte (ucast val)
      else ETCH_XTRNL_TYPECODE_SHORT)"

definition etchtagdata_check_integer :: "int32 \<Rightarrow> byte" where
  "etchtagdata_check_integer val =
     (if is_inrange_int16 (sint val) then etchtagdata_check_short (ucast val)
      else ETCH_XTRNL_TYPECODE_INT)"

definition etchtagdata_check_long :: "int64 \<Rightarrow> byte" where
  "etchtagdata_check_long val =
     (if is_inrange_int32 (sint val) then etchtagdata_check_integer (ucast val)
      else ETCH_XTRNL_TYPECODE_LONG)"

section \<open>Objects\<close>

record etch_field =
  fld_id :: int32
  fld_name :: string

text \<open>The header of an \<open>etch_arrayvalue\<close>; \<open>av_natarray\<close> is the native array it was built from, if any.\<close>

record etch_arrayvalue =
  av_class_id :: nat
  av_content_obj_type :: nat
  av_content_class_id :: nat
  av_dim :: int
  av_type_code :: byte
  av_custom_struct_type :: "int32 option"
  av_natarray :: "byte list option"

datatype ('c, 's) etch_object =
    ENull
  | ENullObj
  | EEod
  | EByte byte
  | EBool byte
  | EInt8 byte
  | EInt16 int16
  | EInt32 int32
  | EInt64 int64
  | EFloat int32
  | EDouble int64
  | EString 's
  | EBytes "byte list"
  | EArray etch_arrayvalue "('c, 's) etch_object list"
  | EStruct int32 "(etch_field \<times> ('c, 's) etch_object) list"
  | ECustom 'c

text \<open>
  Parameters.  \<open>ev_wire_bytes\<close> is the byte vector of a string in the encoding of the wire, with its
  terminator; \<open>ev_string_of\<close> builds a string from such a vector.  \<open>ev_export\<close> and \<open>ev_import\<close> are
  the value factory's hooks for custom values; \<open>ev_parents\<close> are the classes a custom object
  inherits from.  The remaining components are the conversions between IEEE numbers and integers.
\<close>

record ('c, 's) etch_env =
  ev_char_count :: "'s \<Rightarrow> nat"
  ev_empty_string :: 's
  ev_wire_bytes :: "'s \<Rightarrow> byte list"
  ev_string_of :: "byte list \<Rightarrow> 's"
  ev_terminator :: nat
  ev_obj_type :: "'c \<Rightarrow> nat"
  ev_class_id :: "'c \<Rightarrow> nat"
  ev_parents :: "'c \<Rightarrow> nat list"
  ev_export :: "('c, 's) etch_object \<Rightarrow> (int32 \<times> (etch_field \<times> ('c, 's) etch_object) list) option"
  ev_import :: "int32 \<Rightarrow> (etch_field \<times> ('c, 's) etch_object) list \<Rightarrow> ('c, 's) etch_object option"
  ev_is_exception :: "'c \<Rightarrow> bool"
  ev_int64_of_float :: "int32 \<Rightarrow> int64"
  ev_int64_of_double :: "int64 \<Rightarrow> int64"
  ev_double_of_float :: "int32 \<Rightarrow> int64"
  ev_float_of_double :: "int64 \<Rightarrow> int32"
  ev_double_of_int64 :: "int64 \<Rightarrow> int64"
  ev_float_of_int64 :: "int64 \<Rightarrow> int32"

text \<open>The two halves of an object's class; \<open>ENull\<close> has none and gets the zeros the code uses.\<close>

definition CLASSID_OBJECT :: nat where "CLASSID_OBJECT = 0xf"
definition CLASSID_STRUCTVALUE :: nat where "CLASSID_STRUCTVALUE = 0x30"
definition CLASSID_EXCEPTION :: nat where "CLASSID_EXCEPTION = 0x36"
definition CLASSID_STRING :: nat where "CLASSID_STRING = 0x9"
definition CLASSID_ARRAY_OBJECT :: nat where "CLASSID_ARRAY_OBJECT = 0x50"
definition CLASSID_ARRAY_BYTE :: nat where "CLASSID_ARRAY_BYTE = 0x51"

definition ETCHTYPEB_BYTE :: nat where "ETCHTYPEB_BYTE = 0x1"
definition ETCHTYPEB_ETCHOBJECT :: nat where "ETCHTYPEB_ETCHOBJECT = 0xe"
definition ETCHTYPEB_STRUCTVAL :: nat where "ETCHTYPEB_STRUCTVAL = 0x17"
definition ETCHTYPEB_ARRAYVAL :: nat where "ETCHTYPEB_ARRAYVAL = 0x18"
definition ETCHTYPEB_PRIMITIVE :: nat where "ETCHTYPEB_PRIMITIVE = 0x29"
definition ETCHTYPEB_ARRAYLIST :: nat where "ETCHTYPEB_ARRAYLIST = 0x33"
definition ETCHTYPEB_NATIVEARRAY :: nat where "ETCHTYPEB_NATIVEARRAY = 0x3a"
definition ETCHTYPEB_EODMARK :: nat where "ETCHTYPEB_EODMARK = 0x7f"

fun obj_type_of :: "('c, 's) etch_env \<Rightarrow> ('c, 's) etch_object \<Rightarrow> nat" where
  "obj_type_of ev ENull = 0"
| "obj_type_of ev ENullObj = ETCHTYPEB_ETCHOBJECT"
| "obj_type_of ev EEod = ETCHTYPEB_EODMARK"
| "obj_type_of ev (EBytes bs) = ETCHTYPEB_NATIVEARRAY"
| "obj_type_of ev (EArray a xs) = ETCHTYPEB_ARRAYVAL"
| "obj_type_of ev (EStruct t kvs) = ETCHTYPEB_STRUCTVAL"
| "obj_type_of ev (ECustom c) = ev_obj_type ev c"
| "obj_type_of ev _ = ETCHTYPEB_PRIMITIVE"

fun class_id_of :: "('c, 's) etch_env \<Rightarrow> ('c, 's) etch_object \<Rightarrow> nat" where
  "class_id_of ev (EByte v) = 1"
| "class_id_of ev (EBool v) = 2"
| "class_id_of ev (EInt8 v) = 3"
| "class_id_of ev (EInt16 v) = 4"
| "class_id_of ev (EInt32 v) = 5"
| "class_id_of ev (EInt64 v) = 6"
| "class_id_of ev (EFloat v) = 7"
| "class_id_of ev (EDouble v) = 8"
| "class_id_of ev (EString s) = CLASSID_STRING"
| "class_id_of ev (EBytes bs) = CLASSID_ARRAY_BYTE"
| "class_id_of ev (EArray a xs) = av_class_id a"
| "class_id_of ev (EStruct t kvs) = CLASSID_STRUCTVALUE"
| "class_id_of ev (ECustom c) = ev_class_id ev c"
| "class_id_of ev _ = 0"

fun etchtagdata_is_eod :: "('c, 's) etch_object \<Rightarrow> bool" where
  "etchtagdata_is_eod EEod = True"
| "etchtagdata_is_eod _ = False"

fun etchtagdata_is_null :: "('c, 's) etch_object \<Rightarrow> bool" where
  "etchtagdata_is_null ENull = True"
| "etchtagdata_is_null ENullObj = True"
| "etchtagdata_is_null _ = False"

section \<open>Numbers\<close>

text \<open>\<open>None\<close> is the return code -1.\<close>

fun etchtagdata_get_number :: "('c, 's) etch_env \<Rightarrow> ('c, 's) etch_object \<Rightarrow> int64 option" where
  "etchtagdata_get_number ev (EInt32 v) = Some (scast v)"
| "etchtagdata_get_number ev (EInt64 v) = Some v"
| "etchtagdata_get_number ev (EByte v) = Some (scast v)"
| "etchtagdata_get_number ev (EBool v) = Some (scast v)"
| "etchtagdata_get_number ev (EInt8 v) = Some (scast v)"
| "etchtagdata_get_number ev (EInt16 v) = Some (scast v)"
| "etchtagdata_get_number ev (EDouble v) = Some (ev_int64_of_double ev v)"
| "etchtagdata_get_number ev (EFloat v) = Some (ev_int64_of_float ev v)"
| "etchtagdata_get_number ev _ = None"

definition etchtagdata_double_value :: "('c, 's) etch_env \<Rightarrow> ('c, 's) etch_object \<Rightarrow> int64 option" where
  "etchtagdata_double_value ev x =
     map_option (\<lambda>longval. case x of
         EDouble v \<Rightarrow> v
       | EFloat v \<Rightarrow> ev_double_of_float ev v
       | _ \<Rightarrow> ev_double_of_int64 ev longval)
     (etchtagdata_get_number ev x)"

definition etchtagdata_float_value :: "('c, 's) etch_env \<Rightarrow> ('c, 's) etch_object \<Rightarrow> int32 option" where
  "etchtagdata_float_value ev x =
     map_option (\<lambda>longval. case x of
         EDouble v \<Rightarrow> ev_float_of_double ev v
       | EFloat v \<Rightarrow> v
       | _ \<Rightarrow> ev_float_of_int64 ev longval)
     (etchtagdata_get_number ev x)"

definition etchtagdata_byte_value :: "('c, 's) etch_env \<Rightarrow> ('c, 's) etch_object \<Rightarrow> byte option" where
  "etchtagdata_byte_value ev x = map_option (\<lambda>n. ucast n) (etchtagdata_get_number ev x)"

definition etchtagdata_bool_value :: "('c, 's) etch_env \<Rightarrow> ('c, 's) etch_object \<Rightarrow> byte option" where
  "etchtagdata_bool_value ev x =
     map_option (\<lambda>n. if n \<noteq> 1 then 1 else 0) (etchtagdata_get_number ev x)"

definition etchtagdata_int16_value :: "('c, 's) etch_env \<Rightarrow> ('c, 's) etch_object \<Rightarrow> int16 option" where
  "etchtagdata_int16_value ev x = map_option (\<lambda>n. ucast n) (etchtagdata_get_number ev x)"

definition etchtagdata_int32_value :: "('c, 's) etch_env \<Rightarrow> ('c, 's) etch_object \<Rightarrow> int32 option" where
  "etchtagdata_int32_value ev x = map_option (\<lambda>n. ucast n) (etchtagdata_get_number ev x)"

definition etchtagdata_int64_value :: "('c, 's) etch_env \<Rightarrow> ('c, 's) etch_object \<Rightarrow> int64 option" where
  "etchtagdata_int64_value ev x = etchtagdata_get_number ev x"

definition etchtagdata_adjust_tiny_int ::
  "('c, 's) etch_env \<Rightarrow> byte \<Rightarrow> ('c, 's) etch_object \<Rightarrow> int \<times> byte" where
  "etchtagdata_adjust_tiny_int ev target_type valobj =
     (if target_type = ETCH_XTRNL_TYPECODE_BYTE
      then (case etchtagdata_byte_value ev valobj of
              None \<Rightarrow> (- 1, target_type)
            | Some byteval \<Rightarrow>
                (0, if is_inrange_tiny_for_signed_chars byteval then byteval else target_type))
      else (0, target_type))"

text \<open>The type code of an object.\<close>

fun etchtagdata_check_value :: "('c, 's) etch_env \<Rightarrow> ('c, 's) etch_object \<Rightarrow> byte" where
  "etchtagdata_check_value ev ENull = ETCH_XTRNL_TYPECODE_NULL"
| "etchtagdata_check_value ev EEod = ETCH_XTRNL_TYPECODE_NONE"
| "etchtagdata_check_value ev (EInt32 v) = etchtagdata_check_integer v"
| "etchtagdata_check_value ev (EInt16 v) = etchtagdata_check_short v"
| "etchtagdata_check_value ev (EInt64 v) = etchtagdata_check_long v"
| "etchtagdata_check_value ev (EByte v) = etchtagdata_check_byte v"
| "etchtagdata_check_value ev (EInt8 v) = etchtagdata_check_byte v"
| "etchtagdata_check_value ev (EDouble v) = ETCH_XTRNL_TYPECODE_DOUBLE"
| "etchtagdata_check_value ev (EFloat v) = ETCH_XTRNL_TYPECODE_FLOAT"
| "etchtagdata_check_value ev (EBool v) =
     (if v \<noteq> 0 then ETCH_XTRNL_TYPECODE_BOOLEAN_TRUE else ETCH_XTRNL_TYPECODE_BOOLEAN_FALSE)"
| "etchtagdata_check_value ev (EString s) =
     (if ev_char_count ev s = 0 then ETCH_XTRNL_TYPECODE_EMPTY_STRING else ETCH_XTRNL_TYPECODE_STRING)"
| "etchtagdata_check_value ev (EStruct t kvs) = ETCH_XTRNL_TYPECODE_CUSTOM"
| "etchtagdata_check_value ev (EArray a xs) =
     (if av_content_obj_type a = ETCHTYPEB_BYTE
      then ETCH_XTRNL_TYPECODE_BYTES else ETCH_XTRNL_TYPECODE_ARRAY)"
| "etchtagdata_check_value ev (EBytes bs) = ETCH_XTRNL_TYPECODE_BYTES"
| "etchtagdata_check_value ev (ECustom c) = ETCH_XTRNL_TYPECODE_CUSTOM"
| "etchtagdata_check_value ev ENullObj = ETCH_XTRNL_TYPECODE_CUSTOM"

end
