(* ===== verification/Validator.thy ===== *)
theory Validator
  imports TagData
begin

text \<open>
  The validators of \<open>src/main/bindings/msg/etch_validator.c\<close>: which objects a field of a declared
  type accepts, the conversion of a number to the declared width, and the type code it is sent
  with.  A validator is a value of the type \<open>etch_validator\<close>; its virtual functions are functions
  that select the override by constructor, as the constructors of the C code do.  The validator
  cache returns the same validator for the same class and dimensions and is not modelled.
\<close>

definition ETCHVTOR_MAX_NDIMS :: int where
  "ETCHVTOR_MAX_NDIMS = 3"

text \<open>
  The argument is \<open>numdimensions\<close>; a struct validator has the id of its type, a custom validator
  its expected class and the id of its type.
\<close>

datatype etch_validator =
    VBool int | VByte int | VInt8 int | VInt16 int | VInt32 int | VInt64 int
  | VFloat int | VDouble int | VString int | VObject int | VException | VEod
  | VStruct int32 int | VCustom nat int32 int
  | VCombo etch_validator etch_validator

fun numdimensions :: "etch_validator \<Rightarrow> int" where
  "numdimensions (VBool n) = n"
| "numdimensions (VByte n) = n"
| "numdimensions (VInt8 n) = n"
| "numdimensions (VInt16 n) = n"
| "numdimensions (VInt32 n) = n"
| "numdimensions (VInt64 n) = n"
| "numdimensions (VFloat n) = n"
| "numdimensions (VDouble n) = n"
| "numdimensions (VString n) = n"
| "numdimensions (VObject n) = n"
| "numdimensions (VStruct t n) = n"
| "numdimensions (VCustom c t n) = n"
| "numdimensions _ = 0"

text \<open>\<open>newvtor->expected_class_id = ndims? array_classid: scalar_classid\<close>\<close>

fun expected_class_id :: "etch_validator \<Rightarrow> nat" where
  "expected_class_id (VBool n) = (if n \<noteq> 0 then 0x52 else 2)"
| "expected_class_id (VByte n) = (if n \<noteq> 0 then CLASSID_ARRAY_BYTE else 1)"
| "expected_class_id (VInt8 n) = (if n \<noteq> 0 then 0x53 else 3)"
| "expected_class_id (VInt16 n) = (if n \<noteq> 0 then 0x54 else 4)"
| "expected_class_id (VInt32 n) = (if n \<noteq> 0 then 0x55 else 5)"
| "expected_class_id (VInt64 n) = (if n \<noteq> 0 then 0x56 else 6)"
| "expected_class_id (VFloat n) = (if n \<noteq> 0 then 0x57 else 7)"
| "expected_class_id (VDouble n) = (if n \<noteq> 0 then 0x58 else 8)"
| "expected_class_id (VString n) = (if n \<noteq> 0 then 0x59 else CLASSID_STRING)"
| "expected_class_id (VObject n) = (if n \<noteq> 0 then CLASSID_ARRAY_OBJECT else CLASSID_OBJECT)"
| "expected_class_id VException = CLASSID_EXCEPTION"
| "expected_class_id (VStruct t n) = (if n \<noteq> 0 then CLASSID_ARRAY_OBJECT else CLASSID_STRUCTVALUE)"
| "expected_class_id (VCustom c t n) = (if n \<noteq> 0 then CLASSID_ARRAY_OBJECT else c)"
| "expected_class_id _ = 0"

section \<open>Getting a validator\<close>

definition etchvtor_check_dimensions :: "int \<Rightarrow> int" where
  "etchvtor_check_dimensions ndims = (if ndims < 0 \<or> ndims > ETCHVTOR_MAX_NDIMS then - 1 else 0)"

definition vtor_get :: "(int \<Rightarrow> etch_validator) \<Rightarrow> int \<Rightarrow> etch_validator option" where
  "vtor_get vtor ndims =
     (if etchvtor_check_dimensions ndims = - 1 then None else Some (vtor ndims))"

definition etchvtor_boolean_get :: "int \<Rightarrow> etch_validator option" where
  "etchvtor_boolean_get = vtor_get VBool"

definition etchvtor_byte_get :: "int \<Rightarrow> etch_validator option" where
  "etchvtor_byte_get = vtor_get VByte"

definition etchvtor_int8_get :: "int \<Rightarrow> etch_validator option" where
  "etchvtor_int8_get = vtor_get VInt8"

definition etchvtor_int16_get :: "int \<Rightarrow> etch_validator option" where
  "etchvtor_int16_get = vtor_get VInt16"

definition etchvtor_int32_get :: "int \<Rightarrow> etch_validator option" where
  "etchvtor_int32_get = vtor_get VInt32"

definition etchvtor_int64_get :: "int \<Rightarrow> etch_validator option" where
  "etchvtor_int64_get = vtor_get VInt64"

definition etchvtor_float_get :: "int \<Rightarrow> etch_validator option" where
  "etchvtor_float_get = vtor_get VFloat"

definition etchvtor_double_get :: "int \<Rightarrow> etch_validator option" where
  "etchvtor_double_get = vtor_get VDouble"

definition etchvtor_string_get :: "int \<Rightarrow> etch_validator option" where
  "etchvtor_string_get = vtor_get VString"

definition etchvtor_object_get :: "int \<Rightarrow> etch_validator option" where
  "etchvtor_object_get = vtor_get VObject"


text \<open>
  The validator of an element.  An \<open>int8\<close> array has the element validator of \<open>byte\<close>; a custom
  array passes on its own expected class.
\<close>

fun element_validator :: "etch_validator \<Rightarrow> etch_validator option" where
  "element_validator (VBool n) = etchvtor_boolean_get (n - 1)"
| "element_validator (VByte n) = etchvtor_byte_get (n - 1)"
| "element_validator (VInt8 n) = etchvtor_byte_get (n - 1)"
| "element_validator (VInt16 n) = etchvtor_int16_get (n - 1)"
| "element_validator (VInt32 n) = etchvtor_int32_get (n - 1)"
| "element_validator (VInt64 n) = etchvtor_int64_get (n - 1)"
| "element_validator (VFloat n) = etchvtor_float_get (n - 1)"
| "element_validator (VDouble n) = etchvtor_double_get (n - 1)"
| "element_validator (VString n) = etchvtor_string_get (n - 1)"
| "element_validator (VObject n) = (if n \<noteq> 0 then etchvtor_object_get (n - 1) else Some (VObject n))"
| "element_validator VException = Some VException"
| "element_validator VEod = None"
| "element_validator (VStruct t n) = Some (VStruct t (n - 1))"
| "element_validator (VCustom c t n) = Some (VCustom (expected_class_id (VCustom c t n)) t (n - 1))"
| "element_validator (VCombo a b) =
     (case (element_validator a, element_validator b) of
        (None, None) \<Rightarrow> None
      | (None, Some eb) \<Rightarrow> Some eb
      | (Some ea, None) \<Rightarrow> Some ea
      | (Some ea, Some eb) \<Rightarrow> Some (VCombo ea eb))"

section \<open>Assignability\<close>

definition source_numdims :: "('c, 's) etch_env \<Rightarrow> ('c, 's) etch_object \<Rightarrow> int" where
  "source_numdims ev x =
     (case x of
        EBytes bs \<Rightarrow> 1
      | EArray a xs \<Rightarrow> av_dim a
      | ECustom c \<Rightarrow> (if ev_obj_type ev c = ETCHTYPEB_ARRAYLIST then 1 else 0)
      | _ \<Rightarrow> 0)"

definition parents_of :: "('c, 's) etch_env \<Rightarrow> ('c, 's) etch_object \<Rightarrow> nat list" where
  "parents_of ev x = (case x of ECustom c \<Rightarrow> ev_parents ev c | _ \<Rightarrow> [])"

text \<open>
  \<open>etchobj_is_assignable_from\<close> for the target that \<open>etchvtor_set_classparams\<close> builds: no constructor
  of a validator sets \<open>expected_obj_type\<close>, so the object type of the target is 0, and so is its
  content type.
\<close>

definition etchobj_is_assignable_from ::
  "('c, 's) etch_env \<Rightarrow> nat \<Rightarrow> int \<Rightarrow> ('c, 's) etch_object \<Rightarrow> bool" where
  "etchobj_is_assignable_from ev target_class_id target_numdims x =
     (if class_id_of ev x = target_class_id \<and> source_numdims ev x = 0 then True
      else if target_class_id = CLASSID_OBJECT then True
      else if obj_type_of ev x = ETCHTYPEB_PRIMITIVE then False
      else if target_class_id = CLASSID_ARRAY_OBJECT then target_numdims = source_numdims ev x
      else target_class_id \<in> set (parents_of ev x))"

section \<open>Validating\<close>

text \<open>\<open>True\<close> is the return code 0.\<close>

definition etch_typevtor_validate ::
  "('c, 's) etch_env \<Rightarrow> etch_validator \<Rightarrow> ('c, 's) etch_object \<Rightarrow> bool" where
  "etch_typevtor_validate ev vtor value \<longleftrightarrow>
     (if value = ENull then False
      else if obj_type_of ev value = ETCHTYPEB_ETCHOBJECT \<or> class_id_of ev value = CLASSID_OBJECT
      then True
      else if source_numdims ev value \<noteq> numdimensions vtor then False
      else if class_id_of ev value \<noteq> expected_class_id vtor
      then etchobj_is_assignable_from ev (expected_class_id vtor) (numdimensions vtor) value
      else True)"

definition etchvtor_byte_validate ::
  "('c, 's) etch_env \<Rightarrow> etch_validator \<Rightarrow> ('c, 's) etch_object \<Rightarrow> bool" where
  "etchvtor_byte_validate ev vtor value \<longleftrightarrow>
     (if numdimensions vtor > 0 then etch_typevtor_validate ev vtor value
      else case value of
             EByte v \<Rightarrow> True
           | EInt32 v \<Rightarrow> is_inrange_byte (sint v)
           | EInt64 v \<Rightarrow> is_inrange_byte (sint v)
           | EInt16 v \<Rightarrow> is_inrange_byte (sint v)
           | EBool v \<Rightarrow> is_inrange_bool (uint v)
           | EInt8 v \<Rightarrow> True
           | _ \<Rightarrow> False)"

definition etchvtor_int16_validate ::
  "('c, 's) etch_env \<Rightarrow> etch_validator \<Rightarrow> ('c, 's) etch_object \<Rightarrow> bool" where
  "etchvtor_int16_validate ev vtor value \<longleftrightarrow>
     (if numdimensions vtor > 0 then etch_typevtor_validate ev vtor value
      else case value of
             EByte v \<Rightarrow> True
           | EInt8 v \<Rightarrow> True
           | EInt16 v \<Rightarrow> True
           | EInt32 v \<Rightarrow> is_inrange_int16 (sint v)
           | EInt64 v \<Rightarrow> is_inrange_int16 (sint v)
           | _ \<Rightarrow> False)"

definition etchvtor_int32_validate ::
  "('c, 's) etch_env \<Rightarrow> etch_validator \<Rightarrow> ('c, 's) etch_object \<Rightarrow> bool" where
  "etchvtor_int32_validate ev vtor value \<longleftrightarrow>
     (if numdimensions vtor > 0 then etch_typevtor_validate ev vtor value
      else case value of
             EByte v \<Rightarrow> True
           | EInt8 v \<Rightarrow> True
           | EInt16 v \<Rightarrow> True
           | EInt32 v \<Rightarrow> True
           | EInt64 v \<Rightarrow> is_inrange_int32 (sint v)
           | _ \<Rightarrow> False)"

definition etchvtor_int64_validate ::
  "('c, 's) etch_env \<Rightarrow> etch_validator \<Rightarrow> ('c, 's) etch_object \<Rightarrow> bool" where
  "etchvtor_int64_validate ev vtor value \<longleftrightarrow>
     (if numdimensions vtor > 0 then etch_typevtor_validate ev vtor value
      else case value of
             EByte v \<Rightarrow> True
           | EInt8 v \<Rightarrow> True
           | EInt16 v \<Rightarrow> True
           | EInt32 v \<Rightarrow> True
           | EInt64 v \<Rightarrow> True
           | _ \<Rightarrow> False)"

definition etchvtor_struct_validate ::
  "('c, 's) etch_env \<Rightarrow> etch_validator \<Rightarrow> int32 \<Rightarrow> ('c, 's) etch_object \<Rightarrow> bool" where
  "etchvtor_struct_validate ev vtor struct_type value \<longleftrightarrow>
     etch_typevtor_validate ev vtor value
     \<and> (if numdimensions vtor \<noteq> 0
        then obj_type_of ev value = ETCHTYPEB_NATIVEARRAY
        else case value of EStruct t kvs \<Rightarrow> t = struct_type | _ \<Rightarrow> False)"

definition etchvtor_object_validate :: "('c, 's) etch_object \<Rightarrow> bool" where
  "etchvtor_object_validate value \<longleftrightarrow> value \<noteq> ENull"

fun vtor_validate :: "('c, 's) etch_env \<Rightarrow> etch_validator \<Rightarrow> ('c, 's) etch_object \<Rightarrow> bool" where
  "vtor_validate ev (VByte n) x = etchvtor_byte_validate ev (VByte n) x"
| "vtor_validate ev (VInt8 n) x = etchvtor_byte_validate ev (VInt8 n) x"
| "vtor_validate ev (VInt16 n) x = etchvtor_int16_validate ev (VInt16 n) x"
| "vtor_validate ev (VInt32 n) x = etchvtor_int32_validate ev (VInt32 n) x"
| "vtor_validate ev (VInt64 n) x = etchvtor_int64_validate ev (VInt64 n) x"
| "vtor_validate ev (VObject n) x = etchvtor_object_validate x"
| "vtor_validate ev VEod x = etchtagdata_is_eod x"
| "vtor_validate ev (VStruct t n) x = etchvtor_struct_validate ev (VStruct t n) t x"
| "vtor_validate ev (VCombo a b) x = (vtor_validate ev a x \<or> vtor_validate ev b x)"
| "vtor_validate ev v x = etch_typevtor_validate ev v x"

section \<open>Validating and converting\<close>

text \<open>
  \<open>validate_value\<close>: the object to use in place of the argument, which is the argument itself or a
  number converted to the width of the validator; \<open>None\<close> is the null result.
\<close>

definition etch_typevtor_validate_value ::
  "('c, 's) etch_env \<Rightarrow> etch_validator \<Rightarrow> ('c, 's) etch_object \<Rightarrow> ('c, 's) etch_object option" where
  "etch_typevtor_validate_value ev vtor value =
     (if vtor_validate ev vtor value then Some value else None)"

definition etchvtor_byte_validate_value ::
  "('c, 's) etch_env \<Rightarrow> etch_validator \<Rightarrow> ('c, 's) etch_object \<Rightarrow> ('c, 's) etch_object option" where
  "etchvtor_byte_validate_value ev vtor value =
     (case etch_typevtor_validate_value ev vtor value of
        None \<Rightarrow> None
      | Some valobj \<Rightarrow>
          if numdimensions vtor > 0 \<or> class_id_of ev value = 1 then Some value
          else map_option EByte (etchtagdata_byte_value ev value))"

definition etchvtor_int16_validate_value ::
  "('c, 's) etch_env \<Rightarrow> etch_validator \<Rightarrow> ('c, 's) etch_object \<Rightarrow> ('c, 's) etch_object option" where
  "etchvtor_int16_validate_value ev vtor value =
     (case etch_typevtor_validate_value ev vtor value of
        None \<Rightarrow> None
      | Some valobj \<Rightarrow>
          if numdimensions vtor > 0 \<or> class_id_of ev value = 4 then Some value
          else map_option EInt16 (etchtagdata_int16_value ev value))"

definition etchvtor_int32_validate_value ::
  "('c, 's) etch_env \<Rightarrow> etch_validator \<Rightarrow> ('c, 's) etch_object \<Rightarrow> ('c, 's) etch_object option" where
  "etchvtor_int32_validate_value ev vtor value =
     (case etch_typevtor_validate_value ev vtor value of
        None \<Rightarrow> None
      | Some valobj \<Rightarrow>
          if numdimensions vtor > 0 \<or> class_id_of ev value = 5 then Some value
          else map_option EInt32 (etchtagdata_int32_value ev value))"

definition etchvtor_int64_validate_value ::
  "('c, 's) etch_env \<Rightarrow> etch_validator \<Rightarrow> ('c, 's) etch_object \<Rightarrow> ('c, 's) etch_object option" where
  "etchvtor_int64_validate_value ev vtor value =
     (case etch_typevtor_validate_value ev vtor value of
        None \<Rightarrow> None
      | Some valobj \<Rightarrow>
          if numdimensions vtor > 0 \<or> class_id_of ev value = 6 then Some value
          else map_option EInt64 (etchtagdata_int64_value ev value))"

fun vtor_validate_value ::
  "('c, 's) etch_env \<Rightarrow> etch_validator \<Rightarrow> ('c, 's) etch_object \<Rightarrow> ('c, 's) etch_object option" where
  "vtor_validate_value ev (VByte n) x = etchvtor_byte_validate_value ev (VByte n) x"
| "vtor_validate_value ev (VInt8 n) x = etchvtor_byte_validate_value ev (VInt8 n) x"
| "vtor_validate_value ev (VInt16 n) x = etchvtor_int16_validate_value ev (VInt16 n) x"
| "vtor_validate_value ev (VInt32 n) x = etchvtor_int32_validate_value ev (VInt32 n) x"
| "vtor_validate_value ev (VInt64 n) x = etchvtor_int64_validate_value ev (VInt64 n) x"
| "vtor_validate_value ev (VCombo a b) x =
     (case vtor_validate_value ev a x of
        None \<Rightarrow> vtor_validate_value ev b x
      | Some y \<Rightarrow> Some y)"
| "vtor_validate_value ev v x = etch_typevtor_validate_value ev v x"

section \<open>Type codes\<close>

text \<open>
  \<open>check_value\<close>: the type code, or \<open>None\<close> for the return code -1.  A null object passes the default
  validation of every class; the boolean and string overrides then read a field that the null
  object does not have, which the model leaves out by the result \<open>None\<close>.
\<close>

definition array_or :: "etch_validator \<Rightarrow> byte \<Rightarrow> byte" where
  "array_or vtor tc = (if numdimensions vtor \<noteq> 0 then ETCH_XTRNL_TYPECODE_ARRAY else tc)"

definition etchvtor_boolean_check_value ::
  "('c, 's) etch_env \<Rightarrow> etch_validator \<Rightarrow> ('c, 's) etch_object \<Rightarrow> byte option" where
  "etchvtor_boolean_check_value ev vtor value =
     (if \<not> vtor_validate ev vtor value then None
      else if numdimensions vtor > 0 then Some ETCH_XTRNL_TYPECODE_ARRAY
      else case value of
             EBool v \<Rightarrow> Some (if v \<noteq> 0 then ETCH_XTRNL_TYPECODE_BOOLEAN_TRUE
                              else ETCH_XTRNL_TYPECODE_BOOLEAN_FALSE)
           | _ \<Rightarrow> None)"

definition etchvtor_byte_check_value ::
  "('c, 's) etch_env \<Rightarrow> etch_validator \<Rightarrow> ('c, 's) etch_object \<Rightarrow> byte option" where
  "etchvtor_byte_check_value ev vtor value =
     (if \<not> vtor_validate ev vtor value then None
      else Some (if numdimensions vtor = 0 then ETCH_XTRNL_TYPECODE_BYTE
                 else if numdimensions vtor = 1 then ETCH_XTRNL_TYPECODE_BYTES
                 else ETCH_XTRNL_TYPECODE_ARRAY))"

definition etchvtor_int16_check_value ::
  "('c, 's) etch_env \<Rightarrow> etch_validator \<Rightarrow> ('c, 's) etch_object \<Rightarrow> byte option" where
  "etchvtor_int16_check_value ev vtor value =
     (if \<not> vtor_validate ev vtor value then None
      else if numdimensions vtor \<noteq> 0 then Some ETCH_XTRNL_TYPECODE_ARRAY
      else map_option (\<lambda>shortval. if is_inrange_byte (sint shortval) then ETCH_XTRNL_TYPECODE_BYTE
                                   else ETCH_XTRNL_TYPECODE_SHORT)
             (etchtagdata_int16_value ev value))"

definition etchvtor_int32_check_value ::
  "('c, 's) etch_env \<Rightarrow> etch_validator \<Rightarrow> ('c, 's) etch_object \<Rightarrow> byte option" where
  "etchvtor_int32_check_value ev vtor value =
     (if \<not> vtor_validate ev vtor value then None
      else if numdimensions vtor \<noteq> 0 then Some ETCH_XTRNL_TYPECODE_ARRAY
      else map_option (\<lambda>intval. if is_inrange_byte (sint intval) then ETCH_XTRNL_TYPECODE_BYTE
                                 else if is_inrange_int16 (sint intval) then ETCH_XTRNL_TYPECODE_SHORT
                                 else ETCH_XTRNL_TYPECODE_INT)
             (etchtagdata_int32_value ev value))"

definition etchvtor_int64_check_value ::
  "('c, 's) etch_env \<Rightarrow> etch_validator \<Rightarrow> ('c, 's) etch_object \<Rightarrow> byte option" where
  "etchvtor_int64_check_value ev vtor value =
     (if \<not> vtor_validate ev vtor value then None
      else if numdimensions vtor \<noteq> 0 then Some ETCH_XTRNL_TYPECODE_ARRAY
      else map_option (\<lambda>longval. if is_inrange_byte (sint longval) then ETCH_XTRNL_TYPECODE_BYTE
                                  else if is_inrange_int16 (sint longval) then ETCH_XTRNL_TYPECODE_SHORT
                                  else if is_inrange_int32 (sint longval) then ETCH_XTRNL_TYPECODE_INT
                                  else ETCH_XTRNL_TYPECODE_LONG)
             (etchtagdata_int64_value ev value))"

definition etchvtor_string_check_value ::
  "('c, 's) etch_env \<Rightarrow> etch_validator \<Rightarrow> ('c, 's) etch_object \<Rightarrow> byte option" where
  "etchvtor_string_check_value ev vtor value =
     (if \<not> vtor_validate ev vtor value then None
      else if numdimensions vtor \<noteq> 0 then Some ETCH_XTRNL_TYPECODE_ARRAY
      else case value of
             EString s \<Rightarrow> Some (if ev_char_count ev s \<noteq> 0 then ETCH_XTRNL_TYPECODE_STRING
                                else ETCH_XTRNL_TYPECODE_EMPTY_STRING)
           | _ \<Rightarrow> None)"

definition etchvtor_simple_check_value ::
  "byte \<Rightarrow> ('c, 's) etch_env \<Rightarrow> etch_validator \<Rightarrow> ('c, 's) etch_object \<Rightarrow> byte option" where
  "etchvtor_simple_check_value tc ev vtor value =
     (if \<not> vtor_validate ev vtor value then None else Some (array_or vtor tc))"

fun vtor_check_value ::
  "('c, 's) etch_env \<Rightarrow> etch_validator \<Rightarrow> ('c, 's) etch_object \<Rightarrow> byte option" where
  "vtor_check_value ev (VBool n) x = etchvtor_boolean_check_value ev (VBool n) x"
| "vtor_check_value ev (VByte n) x = etchvtor_byte_check_value ev (VByte n) x"
| "vtor_check_value ev (VInt8 n) x = etchvtor_byte_check_value ev (VInt8 n) x"
| "vtor_check_value ev (VInt16 n) x = etchvtor_int16_check_value ev (VInt16 n) x"
| "vtor_check_value ev (VInt32 n) x = etchvtor_int32_check_value ev (VInt32 n) x"
| "vtor_check_value ev (VInt64 n) x = etchvtor_int64_check_value ev (VInt64 n) x"
| "vtor_check_value ev (VFloat n) x = etchvtor_simple_check_value ETCH_XTRNL_TYPECODE_FLOAT ev (VFloat n) x"
| "vtor_check_value ev (VDouble n) x = etchvtor_simple_check_value ETCH_XTRNL_TYPECODE_DOUBLE ev (VDouble n) x"
| "vtor_check_value ev (VString n) x = etchvtor_string_check_value ev (VString n) x"
| "vtor_check_value ev (VObject n) x = etchvtor_simple_check_value ETCH_XTRNL_TYPECODE_ANY ev (VObject n) x"
| "vtor_check_value ev VException x = etchvtor_simple_check_value ETCH_XTRNL_TYPECODE_CUSTOM ev VException x"
| "vtor_check_value ev VEod x = None"
| "vtor_check_value ev (VStruct t n) x =
     etchvtor_simple_check_value ETCH_XTRNL_TYPECODE_CUSTOM ev (VStruct t n) x"
| "vtor_check_value ev (VCustom c t n) x =
     etchvtor_simple_check_value ETCH_XTRNL_TYPECODE_CUSTOM ev (VCustom c t n) x"
| "vtor_check_value ev (VCombo a b) x =
     (case vtor_check_value ev a x of
        None \<Rightarrow> vtor_check_value ev b x
      | Some tc \<Rightarrow> Some tc)"

text \<open>
  \<open>etchtagdata_validate_value\<close>: the type code by the validator, shortened for tiny integers.
\<close>

definition etchtagdata_validate_value ::
  "('c, 's) etch_env \<Rightarrow> ('c, 's) etch_object \<Rightarrow> etch_validator \<Rightarrow> int \<times> byte" where
  "etchtagdata_validate_value ev valobj vtor =
     (if valobj = ENull then (0, ETCH_XTRNL_TYPECODE_NULL)
      else if etchtagdata_is_eod valobj then (0, ETCH_XTRNL_TYPECODE_NONE)
      else case vtor_check_value ev vtor valobj of
             None \<Rightarrow> (- 1, 0)
           | Some xtype \<Rightarrow> etchtagdata_adjust_tiny_int ev xtype valobj)"

section \<open>Types\<close>

text \<open>
  The part of an \<open>etch_type\<close> (\<open>src/main/bindings/msg/etch_type.c\<close>) that serialization uses: its id,
  its fields in the order of the iterator of the field map, and the validators by field name.
  The id-to-type map of the value factory is a function.
\<close>

record etch_type =
  ty_id :: int32
  ty_fields :: "etch_field list"
  ty_vtors :: "(string \<times> etch_validator) list"

fun etchtype_get_field_by_id :: "etch_field list \<Rightarrow> int32 \<Rightarrow> etch_field option" where
  "etchtype_get_field_by_id [] i = None"
| "etchtype_get_field_by_id (f # fs) i =
     (if fld_id f = i then Some f else etchtype_get_field_by_id fs i)"

definition etchtype_get_validator_by_name :: "etch_type \<Rightarrow> string \<Rightarrow> etch_validator option" where
  "etchtype_get_validator_by_name type name = map_of (ty_vtors type) name"

text \<open>
  Putting a value into a struct.  The hash table refuses a key that is present (\<open>haddx\<close> of the hash
  library); a null value removes the key.
\<close>

definition structvalue_get :: "(etch_field \<times> 'v) list \<Rightarrow> etch_field \<Rightarrow> 'v option" where
  "structvalue_get items key = map_of (map (\<lambda>(k, v). (fld_name k, v)) items) (fld_name key)"

definition structvalue_put ::
  "('c, 's) etch_env \<Rightarrow> bool \<Rightarrow> etch_type option \<Rightarrow> (etch_field \<times> ('c, 's) etch_object) list
     \<Rightarrow> etch_field \<Rightarrow> ('c, 's) etch_object
     \<Rightarrow> int \<times> (etch_field \<times> ('c, 's) etch_object) list" where
  "structvalue_put ev validate_write type items key value =
     (if value = ENull
      then (if structvalue_get items key = None then (- 1, items)
            else (0, filter (\<lambda>(k, v). fld_name k \<noteq> fld_name key) items))
      else if validate_write
              \<and> (case Option.bind type (\<lambda>ty. etchtype_get_validator_by_name ty (fld_name key)) of
                    None \<Rightarrow> True
                  | Some vtor \<Rightarrow> \<not> vtor_validate ev vtor value)
      then (- 1, items)
      else if structvalue_get items key \<noteq> None then (- 1, items)
      else (0, items @ [(key, value)]))"

end
