(* ===== verification/BinaryTdo.thy ===== *)
theory BinaryTdo
  imports Validator
begin

text \<open>
  The serializer, \<open>src/main/bindings/msg/etch_binary_tdo.c\<close>: every function gets the flex buffer it
  writes to and returns its C result with the buffer; \<open>None\<close> is an access outside a block, a failed
  \<open>ETCH_ASSERT\<close> or a null pointer dereference.

  \<^item> \<open>types\<close> is the value factory's map from type ids to types, \<open>validate_write\<close> the configuration
    property \<open>etch.validate.write\<close>.
  \<^item> The C functions call each other through \<open>bintdo_write_value\<close>; the helpers take it as the
    argument \<open>write_value\<close>, and \<open>bintdo_write_value\<close> itself carries fuel for the nesting depth of
    the value (a custom value is exported to a struct by a hook, so its depth is not bounded by
    the size of the object).
  \<^item> Not modelled: native arrays other than byte vectors of one dimension, which the code first
    converts to an \<open>etch_arrayvalue\<close>, and the construction of the objects around the buffer.
\<close>

definition ETCH_BINTAGDATA_CURRENT_VERSION :: byte where
  "ETCH_BINTAGDATA_CURRENT_VERSION = 3"

type_synonym ('c, 's) value_writer =
  "etch_validator option \<Rightarrow> ('c, 's) etch_object \<Rightarrow> etch_flexbuffer \<Rightarrow> (int \<times> etch_flexbuffer) option"

section \<open>Integers, byte vectors, strings\<close>

definition bintdo_write_value_rawint :: "etch_flexbuffer \<Rightarrow> int32 \<Rightarrow> (int \<times> etch_flexbuffer) option" where
  "bintdo_write_value_rawint fb value = do {
     (nout, fb) \<leftarrow>
       (if is_inrange_tiny (sint value) then etch_flexbuf_put_byte fb (ucast value)
        else if is_inrange_byte (sint value)
        then do {
          (n, fb) \<leftarrow> etch_flexbuf_put_byte fb ETCH_XTRNL_TYPECODE_BYTE;
          (if n = 1 then etch_flexbuf_put_byte fb (ucast value) else Some (0, fb))
        }
        else if is_inrange_int16 (sint value)
        then do {
          (n, fb) \<leftarrow> etch_flexbuf_put_byte fb ETCH_XTRNL_TYPECODE_SHORT;
          (if n = 1 then etch_flexbuf_put_short fb (ucast value) else Some (0, fb))
        }
        else do {
          (n, fb) \<leftarrow> etch_flexbuf_put_byte fb ETCH_XTRNL_TYPECODE_INT;
          (if n = 1 then etch_flexbuf_put_int fb value else Some (0, fb))
        });
     Some (if nout \<noteq> 0 then 0 else - 1, fb)
   }"

text \<open>The type is a pointer, null for an unknown type; only its id is written.\<close>

definition bintdo_write_type :: "etch_flexbuffer \<Rightarrow> etch_type option \<Rightarrow> (int \<times> etch_flexbuffer) option" where
  "bintdo_write_type fb type =
     (case type of
        None \<Rightarrow> Some (- 1, fb)
      | Some ty \<Rightarrow> bintdo_write_value_rawint fb (ty_id ty))"

definition bintdo_write_bytes_from :: "etch_flexbuffer \<Rightarrow> byte list \<Rightarrow> (int \<times> etch_flexbuffer) option" where
  "bintdo_write_bytes_from fb bytearray = do {
     let bytecount = length bytearray;
     (result, fb) \<leftarrow> bintdo_write_value_rawint fb (word_of_nat bytecount);
     (nout, fb) \<leftarrow> etch_flexbuf_put fb bytearray 0 bytecount;
     Some (if nout = bytecount then 0 else - 1, fb)
   }"

definition bintdo_write_string ::
  "('c, 's) etch_env \<Rightarrow> etch_flexbuffer \<Rightarrow> 's \<Rightarrow> (int \<times> etch_flexbuffer) option" where
  "bintdo_write_string ev fb s = do {
     let bytevector = ev_wire_bytes ev s;
     let terminator = ev_terminator ev;
     let bytes_to_write =
       (if length bytevector > terminator then length bytevector - terminator else length bytevector);
     (result, fb) \<leftarrow> bintdo_write_value_rawint fb (word_of_nat bytes_to_write);
     (bytes_written, fb) \<leftarrow> etch_flexbuf_put fb bytevector 0 bytes_to_write;
     Some (if bytes_written = bytes_to_write then 0 else - 1, fb)
   }"

section \<open>Structs\<close>

definition bintdo_write_nonevalue ::
  "('c, 's) value_writer \<Rightarrow> etch_flexbuffer \<Rightarrow> (int \<times> etch_flexbuffer) option" where
  "bintdo_write_nonevalue write_value fb = write_value (Some VEod) EEod fb"

definition bintdo_start_struct ::
  "(int32 \<Rightarrow> etch_type option) \<Rightarrow> int32 \<times> (etch_field \<times> ('c, 's) etch_object) list
     \<Rightarrow> etch_flexbuffer \<Rightarrow> (int \<times> etch_flexbuffer) option" where
  "bintdo_start_struct types sv fb = do {
     (r, fb) \<leftarrow> bintdo_write_type fb (types (fst sv));
     (if r = - 1 then Some (- 1, fb)
      else bintdo_write_value_rawint fb (word_of_nat (length (snd sv))))
   }"

fun bintdo_write_keys_values ::
  "('c, 's) value_writer \<Rightarrow> etch_type option \<Rightarrow> (etch_field \<times> ('c, 's) etch_object) list
     \<Rightarrow> int \<Rightarrow> etch_flexbuffer \<Rightarrow> (int \<times> etch_flexbuffer) option" where
  "bintdo_write_keys_values write_value struct_type [] result fb = Some (result, fb)"
| "bintdo_write_keys_values write_value struct_type ((thiskey, thisval) # items) result fb =
     (case Option.bind struct_type (\<lambda>ty. etchtype_get_validator_by_name ty (fld_name thiskey)) of
        None \<Rightarrow> Some (- 1, fb)
      | Some thisvtor \<Rightarrow> do {
          (result, fb) \<leftarrow> bintdo_write_value_rawint fb (fld_id thiskey);
          (result, fb) \<leftarrow> write_value (Some thisvtor) thisval fb;
          (if result = - 1 then Some (- 1, fb)
           else bintdo_write_keys_values write_value struct_type items result fb)
        })"

definition bintdo_write_struct ::
  "(int32 \<Rightarrow> etch_type option) \<Rightarrow> ('c, 's) value_writer
     \<Rightarrow> int32 \<times> (etch_field \<times> ('c, 's) etch_object) list
     \<Rightarrow> etch_flexbuffer \<Rightarrow> (int \<times> etch_flexbuffer) option" where
  "bintdo_write_struct types write_value sv fb = do {
     (r, fb) \<leftarrow> bintdo_start_struct types sv fb;
     (if r = - 1 then Some (- 1, fb)
      else do {
        (r, fb) \<leftarrow> bintdo_write_keys_values write_value (types (fst sv)) (snd sv) 0 fb;
        (if r = - 1 then Some (- 1, fb) else bintdo_write_nonevalue write_value fb)
      })
   }"

section \<open>Arrays\<close>

definition bintdo_start_array ::
  "(int32 \<Rightarrow> etch_type option) \<Rightarrow> etch_arrayvalue \<Rightarrow> nat \<Rightarrow> etch_flexbuffer
     \<Rightarrow> (int \<times> etch_flexbuffer) option" where
  "bintdo_start_array types av count fb = do {
     (_, fb) \<leftarrow> etch_flexbuf_put_byte fb (av_type_code av);
     (errs1, fb) \<leftarrow>
       (if ETCH_XTRNL_TYPECODE_CUSTOM = av_type_code av
        then bintdo_write_type fb (Option.bind (av_custom_struct_type av) types) else Some (0, fb));
     (errs2, fb) \<leftarrow> bintdo_write_value_rawint fb (word_of_int (av_dim av));
     (errs3, fb) \<leftarrow> bintdo_write_value_rawint fb (word_of_nat count);
     Some (if errs1 + errs2 + errs3 \<noteq> 0 then - 1 else 0, fb)
   }"

fun bintdo_write_values ::
  "('c, 's) value_writer \<Rightarrow> etch_validator option \<Rightarrow> ('c, 's) etch_object list \<Rightarrow> nat
     \<Rightarrow> etch_flexbuffer \<Rightarrow> (int \<times> etch_flexbuffer) option" where
  "bintdo_write_values write_value elemv [] errs fb = Some (if errs \<noteq> 0 then - 1 else 0, fb)"
| "bintdo_write_values write_value elemv (x # xs) errs fb = do {
     (r, fb) \<leftarrow> write_value elemv x fb;
     bintdo_write_values write_value elemv xs (errs + (if r \<noteq> 0 then 1 else 0)) fb
   }"

definition bintdo_write_array ::
  "(int32 \<Rightarrow> etch_type option) \<Rightarrow> ('c, 's) value_writer \<Rightarrow> etch_arrayvalue
     \<Rightarrow> ('c, 's) etch_object list \<Rightarrow> etch_validator option \<Rightarrow> etch_flexbuffer
     \<Rightarrow> (int \<times> etch_flexbuffer) option" where
  "bintdo_write_array types write_value av elems vtor fb =
     (case vtor of
        None \<Rightarrow> None
      | Some v \<Rightarrow> do {
          (r, fb) \<leftarrow> bintdo_start_array types av (length elems) fb;
          (if r = - 1 then Some (- 1, fb)
           else do {
             (r, fb) \<leftarrow> bintdo_write_values write_value (element_validator v) elems 0 fb;
             (if r = - 1 then Some (- 1, fb) else bintdo_write_nonevalue write_value fb)
           })
        })"

section \<open>Values\<close>

text \<open>Validation before writing, when it is configured; a null value is not validated.\<close>

definition write_validation_fails ::
  "('c, 's) etch_env \<Rightarrow> bool \<Rightarrow> etch_validator option \<Rightarrow> ('c, 's) etch_object \<Rightarrow> bool" where
  "write_validation_fails ev validate_write vtor value =
     (validate_write \<and> value \<noteq> ENull
      \<and> (case vtor of None \<Rightarrow> True | Some v \<Rightarrow> \<not> vtor_validate ev v value))"

text \<open>The bytes behind the tag of a number; \<open>nout\<close> stays 0 when there is none.\<close>

definition put_number ::
  "(etch_flexbuffer \<Rightarrow> 'v \<Rightarrow> (nat \<times> etch_flexbuffer) option) \<Rightarrow> 'v option \<Rightarrow> etch_flexbuffer
     \<Rightarrow> (int \<times> etch_flexbuffer) option" where
  "put_number put v fb =
     (case v of
        None \<Rightarrow> Some (- 1, fb)
      | Some u \<Rightarrow> do { (nout, fb) \<leftarrow> put fb u; Some (if nout \<noteq> 0 then 0 else - 1, fb) })"

fun bintdo_write_value ::
  "('c, 's) etch_env \<Rightarrow> (int32 \<Rightarrow> etch_type option) \<Rightarrow> bool \<Rightarrow> nat \<Rightarrow> ('c, 's) value_writer" where
  "bintdo_write_value ev types validate_write 0 vtor value fb = None"
| "bintdo_write_value ev types validate_write (Suc fuel) vtor value fb =
     (if write_validation_fails ev validate_write vtor value then Some (- 1, fb)
      else let tc = etchtagdata_check_value ev value in do {
        (n, fb) \<leftarrow> etch_flexbuf_put_byte fb tc;
        (if n \<noteq> 1 then Some (- 1, fb)
         else if tc = ETCH_XTRNL_TYPECODE_NULL \<or> tc = ETCH_XTRNL_TYPECODE_NONE
                 \<or> tc = ETCH_XTRNL_TYPECODE_EMPTY_STRING
                 \<or> tc = ETCH_XTRNL_TYPECODE_BOOLEAN_FALSE \<or> tc = ETCH_XTRNL_TYPECODE_BOOLEAN_TRUE
         then Some (0, fb)
         else if tc = ETCH_XTRNL_TYPECODE_BYTE
         then put_number etch_flexbuf_put_byte (etchtagdata_byte_value ev value) fb
         else if tc = ETCH_XTRNL_TYPECODE_INT
         then put_number etch_flexbuf_put_int (etchtagdata_int32_value ev value) fb
         else if tc = ETCH_XTRNL_TYPECODE_LONG
         then put_number etch_flexbuf_put_long (etchtagdata_int64_value ev value) fb
         else if tc = ETCH_XTRNL_TYPECODE_SHORT
         then put_number etch_flexbuf_put_short (etchtagdata_int16_value ev value) fb
         else if tc = ETCH_XTRNL_TYPECODE_DOUBLE
         then put_number etch_flexbuf_put_double (etchtagdata_double_value ev value) fb
         else if tc = ETCH_XTRNL_TYPECODE_FLOAT
         then put_number etch_flexbuf_put_float (etchtagdata_float_value ev value) fb
         else if tc = ETCH_XTRNL_TYPECODE_BYTES
         then (case value of
                 EBytes bs \<Rightarrow> bintdo_write_bytes_from fb bs
               | EArray a xs \<Rightarrow>
                   (case av_natarray a of None \<Rightarrow> None | Some bs \<Rightarrow> bintdo_write_bytes_from fb bs)
               | _ \<Rightarrow> None)
         else if tc = ETCH_XTRNL_TYPECODE_ARRAY
         then (case value of
                 EArray a xs \<Rightarrow>
                   bintdo_write_array types (bintdo_write_value ev types validate_write fuel) a xs vtor fb
               | _ \<Rightarrow> None)
         else if tc = ETCH_XTRNL_TYPECODE_STRING
         then (case value of EString s \<Rightarrow> bintdo_write_string ev fb s | _ \<Rightarrow> None)
         else if tc = ETCH_XTRNL_TYPECODE_CUSTOM
         then (case ev_export ev value of
                 None \<Rightarrow> Some (- 1, fb)
               | Some sv \<Rightarrow>
                   bintdo_write_struct types (bintdo_write_value ev types validate_write fuel) sv fb)
         else Some (if is_inrange_tiny_for_signed_chars tc then 0 else - 1, fb))
      })"

section \<open>Messages\<close>

definition bintdo_start_message ::
  "(int32 \<Rightarrow> etch_type option) \<Rightarrow> int32 \<times> (etch_field \<times> ('c, 's) etch_object) list
     \<Rightarrow> etch_flexbuffer \<Rightarrow> (int \<times> etch_flexbuffer) option" where
  "bintdo_start_message types sv fb = do {
     (_, fb) \<leftarrow> etch_flexbuf_put_byte fb ETCH_BINTAGDATA_CURRENT_VERSION;
     bintdo_start_struct types sv fb
   }"

definition bintdo_write_message ::
  "('c, 's) etch_env \<Rightarrow> (int32 \<Rightarrow> etch_type option) \<Rightarrow> bool \<Rightarrow> nat
     \<Rightarrow> int32 \<times> (etch_field \<times> ('c, 's) etch_object) list
     \<Rightarrow> etch_flexbuffer \<Rightarrow> (int \<times> etch_flexbuffer) option" where
  "bintdo_write_message ev types validate_write fuel sv fb = do {
     (r, fb) \<leftarrow> bintdo_start_message types sv fb;
     (if r = - 1 then Some (- 1, fb)
      else do {
        (r, fb) \<leftarrow> bintdo_write_keys_values (bintdo_write_value ev types validate_write fuel)
                     (types (fst sv)) (snd sv) 0 fb;
        (if r = - 1 then Some (- 1, fb)
         else bintdo_write_nonevalue (bintdo_write_value ev types validate_write fuel) fb)
      })
   }"

end
