(* ===== verification/BinaryTdi.thy ===== *)
theory BinaryTdi
  imports Validator
begin

text \<open>
  The deserializer, \<open>src/main/bindings/msg/etch_binary_tdi.c\<close>.  Every function gets the flex buffer
  it reads from and returns its C result with the buffer; a null pointer result is an inner
  \<open>None\<close>, the outer \<open>None\<close> is an access outside a block or the end of the fuel.

  \<^item> \<open>bintdi_read_valuex\<close> carries fuel for the nesting depth, the \<open>while\<close> loops over keys and over
    elements for their iterations.  Every iteration and every level consumes a byte, so one more
    than the number of unread bytes is enough.
  \<^item> Not modelled: releasing memory, logging, and the size hints passed to the constructors of
    structs, messages and arrays.
\<close>

type_synonym ('c, 's) value_reader =
  "etch_validator option \<Rightarrow> bool \<Rightarrow> etch_flexbuffer
     \<Rightarrow> (('c, 's) etch_object option \<times> etch_flexbuffer) option"

type_synonym ('c, 's) struct_items = "(etch_field \<times> ('c, 's) etch_object) list"

section \<open>Integers, types, byte vectors, strings\<close>

text \<open>The result, the out parameter and the buffer; \<open>union_alltypes.vbyte\<close> is a signed \<open>char\<close>.\<close>

definition bintdi_read_value_rawint :: "etch_flexbuffer \<Rightarrow> ((int \<times> int32) \<times> etch_flexbuffer) option" where
  "bintdi_read_value_rawint fb = do {
     (objtype, fb) \<leftarrow> etch_flexbuf_get_byte fb;
     (case objtype of
        None \<Rightarrow> Some ((- 1, 0), fb)
      | Some objtype \<Rightarrow>
          if is_inrange_tiny_for_signed_chars objtype then Some ((0, scast objtype), fb)
          else if objtype = ETCH_XTRNL_TYPECODE_INT
          then do {
            (v, fb) \<leftarrow> etch_flexbuf_get_int fb;
            Some (case v of None \<Rightarrow> ((- 1, 0), fb) | Some u \<Rightarrow> ((0, u), fb))
          }
          else if objtype = ETCH_XTRNL_TYPECODE_SHORT
          then do {
            (v, fb) \<leftarrow> etch_flexbuf_get_short fb;
            Some (case v of None \<Rightarrow> ((- 1, 0), fb) | Some u \<Rightarrow> ((0, scast u), fb))
          }
          else if objtype = ETCH_XTRNL_TYPECODE_BYTE
          then do {
            (v, fb) \<leftarrow> etch_flexbuf_get_byte fb;
            Some (case v of None \<Rightarrow> ((- 1, 0), fb) | Some u \<Rightarrow> ((0, scast u), fb))
          }
          else Some ((- 1, 0), fb))
   }"

definition bintdi_read_type ::
  "(int32 \<Rightarrow> etch_type option) \<Rightarrow> etch_flexbuffer \<Rightarrow> (etch_type option \<times> etch_flexbuffer) option" where
  "bintdi_read_type types fb = do {
     ((r, type_id), fb) \<leftarrow> bintdi_read_value_rawint fb;
     Some (if r = 0 then types type_id else None, fb)
   }"

definition bintdi_read_bytes ::
  "nat \<Rightarrow> etch_flexbuffer \<Rightarrow> (byte list option \<times> etch_flexbuffer) option" where
  "bintdi_read_bytes extra fb = do {
     ((r, bytecount), fb) \<leftarrow> bintdi_read_value_rawint fb;
     (if r = - 1 then Some (None, fb)
      else if sint bytecount \<ge> 0 \<and> sz_of_int (sint bytecount) \<le> etch_flexbuf_avail fb
      then do {
        (_, buf, fb) \<leftarrow> etch_flexbuf_get_fully fb
                          (Some (replicate (nat (sint bytecount) + extra) 0)) (nat (sint bytecount));
        Some (buf, fb)
      }
      else Some (None, fb))
   }"

text \<open>A null vector is wrapped like an empty one.\<close>

definition bintdi_read_bytearray ::
  "etch_flexbuffer \<Rightarrow> (('c, 's) etch_object \<times> etch_flexbuffer) option" where
  "bintdi_read_bytearray fb = do {
     (buf, fb) \<leftarrow> bintdi_read_bytes 0 fb;
     Some (EBytes (case buf of None \<Rightarrow> [] | Some bs \<Rightarrow> bs), fb)
   }"

definition bintdi_read_string ::
  "('c, 's) etch_env \<Rightarrow> etch_flexbuffer \<Rightarrow> (('c, 's) etch_object option \<times> etch_flexbuffer) option" where
  "bintdi_read_string ev fb = do {
     (buf, fb) \<leftarrow> bintdi_read_bytes (ev_terminator ev) fb;
     Some (map_option (\<lambda>bs. EString (ev_string_of ev bs)) buf, fb)
   }"

section \<open>Validation\<close>

definition bintdi_validate_value ::
  "('c, 's) etch_env \<Rightarrow> etch_validator option \<Rightarrow> bool \<Rightarrow> ('c, 's) etch_object option
     \<Rightarrow> ('c, 's) etch_object option" where
  "bintdi_validate_value ev vtor is_none_ok value =
     (case value of
        None \<Rightarrow> None
      | Some x \<Rightarrow>
          (case vtor of
             None \<Rightarrow> None
           | Some v \<Rightarrow>
               if etchtagdata_is_eod x \<and> is_none_ok then Some x
               else if etchtagdata_is_null x \<and> is_none_ok then Some x
               else vtor_validate_value ev v x))"

section \<open>Structs\<close>

text \<open>
  The loop over key and value pairs.  It ends with result 0 when the next key cannot be read; the
  value of an unknown key is skipped.
\<close>

fun bintdi_read_keys_values ::
  "('c, 's) etch_env \<Rightarrow> bool \<Rightarrow> ('c, 's) value_reader \<Rightarrow> etch_type \<Rightarrow> nat \<Rightarrow> ('c, 's) struct_items
     \<Rightarrow> etch_flexbuffer \<Rightarrow> ((int \<times> ('c, 's) struct_items) \<times> etch_flexbuffer) option" where
  "bintdi_read_keys_values ev validate_write read_valuex svtype 0 items fb = None"
| "bintdi_read_keys_values ev validate_write read_valuex svtype (Suc fuel) items fb = do {
     (thisobj, fb) \<leftarrow> read_valuex (etchvtor_int32_get 0) True fb;
     (case thisobj of
        None \<Rightarrow> Some ((0, items), fb)
      | Some EEod \<Rightarrow> Some ((0, items), fb)
      | Some (EInt32 key_id) \<Rightarrow>
          (case etchtype_get_field_by_id (ty_fields svtype) key_id of
             None \<Rightarrow> do {
               (thisvalue, fb) \<leftarrow> read_valuex (etchvtor_object_get 0) False fb;
               (if thisvalue = None then Some ((- 1, items), fb)
                else bintdi_read_keys_values ev validate_write read_valuex svtype fuel items fb)
             }
           | Some key_field \<Rightarrow> do {
               (thisvalue, fb) \<leftarrow> read_valuex
                 (etchtype_get_validator_by_name svtype (fld_name key_field)) False fb;
               (case thisvalue of
                  None \<Rightarrow> Some ((- 1, items), fb)
                | Some v \<Rightarrow>
                    let (result, items) = structvalue_put ev validate_write (Some svtype) items key_field v
                    in if result = 0
                       then bintdi_read_keys_values ev validate_write read_valuex svtype fuel items fb
                       else Some ((result, items), fb))
             })
      | Some _ \<Rightarrow> None)
   }"

definition bintdi_start_struct ::
  "(int32 \<Rightarrow> etch_type option) \<Rightarrow> etch_flexbuffer \<Rightarrow> (etch_type option \<times> etch_flexbuffer) option" where
  "bintdi_start_struct types fb = do {
     (thistype, fb) \<leftarrow> bintdi_read_type types fb;
     (case thistype of
        None \<Rightarrow> Some (None, fb)
      | Some ty \<Rightarrow> do {
          ((r, struct_itemcount), fb) \<leftarrow> bintdi_read_value_rawint fb;
          Some (if r \<noteq> - 1 then Some ty else None, fb)
        })
   }"

definition bintdi_read_struct ::
  "('c, 's) etch_env \<Rightarrow> (int32 \<Rightarrow> etch_type option) \<Rightarrow> bool \<Rightarrow> ('c, 's) value_reader \<Rightarrow> nat
     \<Rightarrow> etch_flexbuffer \<Rightarrow> ((int32 \<times> ('c, 's) struct_items) option \<times> etch_flexbuffer) option" where
  "bintdi_read_struct ev types validate_write read_valuex fuel fb = do {
     (newsv, fb) \<leftarrow> bintdi_start_struct types fb;
     (case newsv of
        None \<Rightarrow> Some (None, fb)
      | Some ty \<Rightarrow> do {
          ((r, items), fb) \<leftarrow> bintdi_read_keys_values ev validate_write read_valuex ty fuel [] fb;
          Some (if r = - 1 then None else Some (ty_id ty, items), fb)
        })
   }"

section \<open>Arrays\<close>

text \<open>The array class and the type and class of the content, by content type code.\<close>

definition bintdi_get_native_type :: "byte \<Rightarrow> int \<times> nat \<times> nat \<times> nat" where
  "bintdi_get_native_type tc =
     (if tc = ETCH_XTRNL_TYPECODE_INT then (0, 0x55, ETCHTYPEB_PRIMITIVE, 5)
      else if tc = ETCH_XTRNL_TYPECODE_STRING \<or> tc = ETCH_XTRNL_TYPECODE_EMPTY_STRING
      then (0, 0x59, ETCHTYPEB_PRIMITIVE, CLASSID_STRING)
      else if tc = ETCH_XTRNL_TYPECODE_BYTE then (0, CLASSID_ARRAY_BYTE, ETCHTYPEB_PRIMITIVE, 1)
      else if tc = ETCH_XTRNL_TYPECODE_LONG then (0, 0x56, ETCHTYPEB_PRIMITIVE, 6)
      else if tc = ETCH_XTRNL_TYPECODE_SHORT then (0, 0x54, ETCHTYPEB_PRIMITIVE, 4)
      else if tc = ETCH_XTRNL_TYPECODE_DOUBLE then (0, 0x58, ETCHTYPEB_PRIMITIVE, 8)
      else if tc = ETCH_XTRNL_TYPECODE_BOOLEAN_TRUE \<or> tc = ETCH_XTRNL_TYPECODE_BOOLEAN_FALSE
      then (0, 0x52, ETCHTYPEB_PRIMITIVE, 2)
      else if tc = ETCH_XTRNL_TYPECODE_FLOAT then (0, 0x57, ETCHTYPEB_PRIMITIVE, 7)
      else if tc = ETCH_XTRNL_TYPECODE_ANY \<or> tc = ETCH_XTRNL_TYPECODE_ARRAY
              \<or> tc = ETCH_XTRNL_TYPECODE_STRUCT \<or> tc = ETCH_XTRNL_TYPECODE_CUSTOM
              \<or> tc = ETCH_XTRNL_TYPECODE_NULL
      then (0, CLASSID_ARRAY_OBJECT, ETCHTYPEB_ETCHOBJECT, CLASSID_OBJECT)
      else if tc = ETCH_XTRNL_TYPECODE_BYTES
      then (0, CLASSID_ARRAY_BYTE, ETCHTYPEB_ARRAYVAL, CLASSID_ARRAY_BYTE)
      else if is_inrange_tiny_for_signed_chars tc then (0, 0x53, ETCHTYPEB_PRIMITIVE, 3)
      else (- 1, 0, 0, 0))"

definition bintdi_alloc_array :: "byte \<Rightarrow> etch_type option \<Rightarrow> int \<Rightarrow> etch_arrayvalue option" where
  "bintdi_alloc_array array_content_type custom_type ndims =
     (let (result, array_class_id, content_obj_type, content_class_id) =
            bintdi_get_native_type array_content_type
      in if result = - 1 then None
         else Some \<lparr>av_class_id = array_class_id, av_content_obj_type = content_obj_type,
                    av_content_class_id = content_class_id, av_dim = ndims,
                    av_type_code = array_content_type,
                    av_custom_struct_type = map_option ty_id custom_type, av_natarray = None\<rparr>)"

text \<open>\<open>custom_type\<close> is read for two of the content types; the results of the two counts are not checked.\<close>

definition bintdi_start_array ::
  "(int32 \<Rightarrow> etch_type option) \<Rightarrow> etch_flexbuffer \<Rightarrow> (etch_arrayvalue option \<times> etch_flexbuffer) option" where
  "bintdi_start_array types fb = do {
     (b, fb) \<leftarrow> etch_flexbuf_get_byte fb;
     let array_content_type = (case b of None \<Rightarrow> 0 | Some v \<Rightarrow> v);
     let is_custom = (array_content_type = ETCH_XTRNL_TYPECODE_CUSTOM
                      \<or> array_content_type = ETCH_XTRNL_TYPECODE_STRUCT);
     (custom_type, fb) \<leftarrow> (if is_custom then bintdi_read_type types fb else Some (None, fb));
     (if is_custom \<and> custom_type = None then Some (None, fb)
      else do {
        ((_, numdimensions), fb) \<leftarrow> bintdi_read_value_rawint fb;
        ((_, numelements), fb) \<leftarrow> bintdi_read_value_rawint fb;
        Some (if sint numdimensions \<le> 0 \<or> sint numelements < 0 then None
              else bintdi_alloc_array array_content_type custom_type (sint numdimensions), fb)
      })
   }"

fun bintdi_read_values ::
  "('c, 's) value_reader \<Rightarrow> etch_validator option \<Rightarrow> nat \<Rightarrow> ('c, 's) etch_object list
     \<Rightarrow> etch_flexbuffer \<Rightarrow> ((int \<times> ('c, 's) etch_object list) \<times> etch_flexbuffer) option" where
  "bintdi_read_values read_valuex elemv 0 elems fb = None"
| "bintdi_read_values read_valuex elemv (Suc fuel) elems fb = do {
     (thisobj, fb) \<leftarrow> read_valuex elemv True fb;
     (case thisobj of
        None \<Rightarrow> Some ((- 1, elems), fb)
      | Some x \<Rightarrow>
          if etchtagdata_is_eod x then Some ((0, elems), fb)
          else bintdi_read_values read_valuex elemv fuel (elems @ [x]) fb)
   }"

definition bintdi_read_array ::
  "(int32 \<Rightarrow> etch_type option) \<Rightarrow> ('c, 's) value_reader \<Rightarrow> nat \<Rightarrow> etch_validator option
     \<Rightarrow> etch_flexbuffer \<Rightarrow> (('c, 's) etch_object option \<times> etch_flexbuffer) option" where
  "bintdi_read_array types read_valuex fuel vtor fb = do {
     (newarray, fb) \<leftarrow> bintdi_start_array types fb;
     (case newarray of
        None \<Rightarrow> Some (None, fb)
      | Some a \<Rightarrow>
          (case vtor of
             None \<Rightarrow> Some (None, fb)
           | Some v \<Rightarrow> do {
               ((r, elems), fb) \<leftarrow> bintdi_read_values read_valuex (element_validator v) fuel [] fb;
               Some (if r = - 1 then None else Some (EArray a elems), fb)
             }))
   }"

section \<open>Values\<close>

text \<open>Reading a number behind its tag.\<close>

definition get_number ::
  "(etch_flexbuffer \<Rightarrow> ('v option \<times> etch_flexbuffer) option) \<Rightarrow> ('v \<Rightarrow> ('c, 's) etch_object)
     \<Rightarrow> etch_flexbuffer \<Rightarrow> (('c, 's) etch_object option \<times> etch_flexbuffer) option" where
  "get_number get con fb = do { (v, fb) \<leftarrow> get fb; Some (map_option con v, fb) }"

text \<open>The object behind a tag, before validation.\<close>

definition read_tagged ::
  "('c, 's) etch_env \<Rightarrow> (int32 \<Rightarrow> etch_type option) \<Rightarrow> bool \<Rightarrow> ('c, 's) value_reader \<Rightarrow> nat
     \<Rightarrow> etch_validator option \<Rightarrow> byte \<Rightarrow> etch_flexbuffer
     \<Rightarrow> (('c, 's) etch_object option \<times> etch_flexbuffer) option" where
  "read_tagged ev types validate_write read_valuex fuel v tc fb =
     (if tc = ETCH_XTRNL_TYPECODE_NULL then Some (Some ENullObj, fb)
      else if tc = ETCH_XTRNL_TYPECODE_NONE then Some (Some EEod, fb)
      else if tc = ETCH_XTRNL_TYPECODE_BOOLEAN_FALSE then Some (Some (EBool 0), fb)
      else if tc = ETCH_XTRNL_TYPECODE_BOOLEAN_TRUE then Some (Some (EBool 1), fb)
      else if tc = ETCH_XTRNL_TYPECODE_BYTE then get_number etch_flexbuf_get_byte EByte fb
      else if tc = ETCH_XTRNL_TYPECODE_SHORT then get_number etch_flexbuf_get_short EInt16 fb
      else if tc = ETCH_XTRNL_TYPECODE_INT then get_number etch_flexbuf_get_int EInt32 fb
      else if tc = ETCH_XTRNL_TYPECODE_LONG then get_number etch_flexbuf_get_long EInt64 fb
      else if tc = ETCH_XTRNL_TYPECODE_FLOAT then get_number etch_flexbuf_get_float EFloat fb
      else if tc = ETCH_XTRNL_TYPECODE_DOUBLE then get_number etch_flexbuf_get_double EDouble fb
      else if tc = ETCH_XTRNL_TYPECODE_BYTES
      then do { (x, fb) \<leftarrow> bintdi_read_bytearray fb; Some (Some x, fb) }
      else if tc = ETCH_XTRNL_TYPECODE_EMPTY_STRING then Some (Some (EString (ev_empty_string ev)), fb)
      else if tc = ETCH_XTRNL_TYPECODE_STRING then bintdi_read_string ev fb
      else if tc = ETCH_XTRNL_TYPECODE_STRUCT
      then do {
        (sv, fb) \<leftarrow> bintdi_read_struct ev types validate_write read_valuex fuel fb;
        Some (map_option (\<lambda>(t, items). EStruct t items) sv, fb)
      }
      else if tc = ETCH_XTRNL_TYPECODE_ARRAY then bintdi_read_array types read_valuex fuel v fb
      else if tc = ETCH_XTRNL_TYPECODE_CUSTOM
      then do {
        (sv, fb) \<leftarrow> bintdi_read_struct ev types validate_write read_valuex fuel fb;
        Some (Option.bind sv (\<lambda>(t, items). ev_import ev t items), fb)
      }
      else if is_inrange_tiny_for_signed_chars tc then Some (Some (EByte tc), fb)
      else Some (None, fb))"

text \<open>Only the end-of-data mark is passed on with the caller's \<open>is_none_ok\<close>.\<close>

fun bintdi_read_valuex ::
  "('c, 's) etch_env \<Rightarrow> (int32 \<Rightarrow> etch_type option) \<Rightarrow> bool \<Rightarrow> nat \<Rightarrow> ('c, 's) value_reader" where
  "bintdi_read_valuex ev types validate_write 0 v is_none_ok fb = None"
| "bintdi_read_valuex ev types validate_write (Suc fuel) v is_none_ok fb = do {
     (objtype, fb) \<leftarrow> etch_flexbuf_get_byte fb;
     (case objtype of
        None \<Rightarrow> Some (None, fb)
      | Some tc \<Rightarrow> do {
          (x, fb) \<leftarrow> read_tagged ev types validate_write
                      (bintdi_read_valuex ev types validate_write fuel) fuel v tc fb;
          Some (bintdi_validate_value ev v (is_none_ok \<and> tc = ETCH_XTRNL_TYPECODE_NONE) x, fb)
        })
   }"

definition bintdi_read_value ::
  "('c, 's) etch_env \<Rightarrow> (int32 \<Rightarrow> etch_type option) \<Rightarrow> bool \<Rightarrow> nat \<Rightarrow> etch_validator option
     \<Rightarrow> etch_flexbuffer \<Rightarrow> (('c, 's) etch_object option \<times> etch_flexbuffer) option" where
  "bintdi_read_value ev types validate_write fuel vtor fb =
     bintdi_read_valuex ev types validate_write fuel vtor False fb"

section \<open>Messages\<close>

text \<open>A message is its type id and its items.\<close>

definition bintdi_start_message ::
  "(int32 \<Rightarrow> etch_type option) \<Rightarrow> etch_flexbuffer \<Rightarrow> (etch_type option \<times> etch_flexbuffer) option" where
  "bintdi_start_message types fb = do {
     (b, fb) \<leftarrow> etch_flexbuf_get_byte fb;
     (if (case b of None \<Rightarrow> 0 | Some v \<Rightarrow> v) \<noteq> 3 then Some (None, fb)
      else bintdi_start_struct types fb)
   }"

text \<open>
  A reply whose result is an exception: the exception is put as the result as well.  The fields are
  the built-in ones, parameters here.
\<close>

definition bintdi_end_message ::
  "('c, 's) etch_env \<Rightarrow> bool \<Rightarrow> etch_type option \<Rightarrow> etch_field \<Rightarrow> etch_field \<Rightarrow> etch_field
     \<Rightarrow> ('c, 's) struct_items \<Rightarrow> ('c, 's) struct_items" where
  "bintdi_end_message ev validate_write type mf_in_reply_to mf_msg mf_result items =
     (if structvalue_get items mf_in_reply_to = None then items
      else case structvalue_get items mf_msg of
             Some (ECustom c) \<Rightarrow>
               if ev_is_exception ev c
               then snd (structvalue_put ev validate_write type items mf_result (ECustom c))
               else items
           | _ \<Rightarrow> items)"

definition bintdi_read_message ::
  "('c, 's) etch_env \<Rightarrow> (int32 \<Rightarrow> etch_type option) \<Rightarrow> bool
     \<Rightarrow> etch_field \<Rightarrow> etch_field \<Rightarrow> etch_field \<Rightarrow> nat \<Rightarrow> etch_flexbuffer
     \<Rightarrow> ((int32 \<times> ('c, 's) struct_items) option \<times> etch_flexbuffer) option" where
  "bintdi_read_message ev types validate_write mf_in_reply_to mf_msg mf_result fuel fb = do {
     (newmsg, fb) \<leftarrow> bintdi_start_message types fb;
     (case newmsg of
        None \<Rightarrow> Some (None, fb)
      | Some ty \<Rightarrow> do {
          ((r, items), fb) \<leftarrow> bintdi_read_keys_values ev validate_write
            (bintdi_read_valuex ev types validate_write fuel) ty fuel [] fb;
          Some (if r = - 1 then None
                else Some (ty_id ty, bintdi_end_message ev validate_write (Some ty)
                             mf_in_reply_to mf_msg mf_result items), fb)
        })
   }"

end
