(* ===== verification/Messagizer.thy ===== *)
theory Messagizer
  imports BinaryTdo BinaryTdi
begin

text \<open>
  The messagizer, \<open>src/main/transport/etch_messagizer.c\<close>: it serializes outgoing messages into its
  buffer and hands them to the packetizer, and turns incoming packets into messages for the
  mailbox manager.

  \<^item> \<open>etch_vf\<close> collects what the serializer and the deserializer get from the value factory and the
    configuration: the parameters of \<open>TagData\<close>, the map from type ids to types, the property
    \<open>etch.validate.write\<close> and the built-in fields of a reply.
  \<^item> The packetizer below and the mailbox manager above are parameters, as in the C code, where
    they are reached through the interfaces \<open>i_transportpacket\<close> and \<open>i_sessionmessage\<close>.
  \<^item> The mutex around \<open>transport_message\<close> serializes the callers; the model is one call at a time.
    Memory ownership of messages is not modelled.
\<close>

record ('c, 's) etch_vf =
  vf_env :: "('c, 's) etch_env"
  vf_types :: "int32 \<Rightarrow> etch_type option"
  vf_validate_write :: bool
  vf_mf_in_reply_to :: etch_field
  vf_mf_msg :: etch_field
  vf_mf_result :: etch_field

type_synonym ('c, 's) etch_message = "int32 \<times> ('c, 's) struct_items"

definition write_message ::
  "('c, 's) etch_vf \<Rightarrow> nat \<Rightarrow> ('c, 's) etch_message \<Rightarrow> etch_flexbuffer
     \<Rightarrow> (int \<times> etch_flexbuffer) option" where
  "write_message vf fuel msg fbuf =
     bintdo_write_message (vf_env vf) (vf_types vf) (vf_validate_write vf) fuel msg fbuf"

text \<open>The fuel is one more than the number of unread bytes.\<close>

definition read_message ::
  "('c, 's) etch_vf \<Rightarrow> etch_flexbuffer \<Rightarrow> (('c, 's) etch_message option \<times> etch_flexbuffer) option" where
  "read_message vf fbuf =
     bintdi_read_message (vf_env vf) (vf_types vf) (vf_validate_write vf)
       (vf_mf_in_reply_to vf) (vf_mf_msg vf) (vf_mf_result vf) (Suc (etch_flexbuf_avail fbuf)) fbuf"

section \<open>Outgoing messages\<close>

text \<open>The result, the state of the layers below and \<open>msgbuf\<close>.\<close>

definition etch_msgizer_transport_message ::
  "('c, 's) etch_vf \<Rightarrow> nat \<Rightarrow> ('t \<Rightarrow> etch_flexbuffer \<Rightarrow> (int \<times> 't \<times> etch_flexbuffer) option)
     \<Rightarrow> nat \<Rightarrow> 't \<Rightarrow> etch_flexbuffer \<Rightarrow> ('c, 's) etch_message
     \<Rightarrow> (int \<times> 't \<times> etch_flexbuffer) option" where
  "etch_msgizer_transport_message vf headersize transport_packet fuel t msgbuf msg = do {
     let msgbuf = etch_flexbuf_skip msgbuf headersize True;
     (result, msgbuf) \<leftarrow> write_message vf fuel msg msgbuf;
     (if result = - 1 then Some (- 1, t, etch_flexbuf_reset msgbuf)
      else transport_packet t (snd (etch_flexbuf_set_index msgbuf 0)))
   }"

section \<open>Incoming packets\<close>

text \<open>
  \<open>msg\<close> is a pointer, null when the packet could not be deserialized; the session gets it in
  either case, and when it does not handle it, the unwanted message notification.  The result,
  the state of the layers above and the buffer.
\<close>

definition etch_msgizer_session_packet ::
  "('c, 's) etch_vf \<Rightarrow> ('u \<Rightarrow> ('c, 's) etch_message option \<Rightarrow> int \<times> 'u)
     \<Rightarrow> ('u \<Rightarrow> ('c, 's) etch_message option \<Rightarrow> 'u)
     \<Rightarrow> 'u \<Rightarrow> etch_flexbuffer \<Rightarrow> (int \<times> 'u \<times> etch_flexbuffer) option" where
  "etch_msgizer_session_packet vf session_message session_notify_unwanted u fbuf = do {
     (msg, fbuf) \<leftarrow> read_message vf fbuf;
     let (r, u) = session_message u msg;
     let is_message_handled = (0 = r);
     Some (if \<not> is_message_handled then (- 1, session_notify_unwanted u msg, fbuf) else (0, u, fbuf))
   }"

end
