(* ===== verification/WireFormat.thy ===== *)
theory WireFormat
  imports BinaryTdo BinaryTdi
begin

text \<open>
  The abstract specification of the binary format: which bytes stand for which value under which
  validator.  It does not mention buffers, cursors or the functions of the serializer;
  \<open>le\<close> is the byte order of multi-byte numbers.

  \<^item> \<open>wire_int\<close>: an integer in the shortest of the five forms.
  \<^item> \<open>wire_value\<close>, \<open>wire_items\<close>, \<open>wire_elems\<close>: values, the items of a struct, the elements of an array.
  \<^item> \<open>wire_message\<close>: a message, with the format version, its type, the count and the end mark.
\<close>

definition wire_int :: "bool \<Rightarrow> int \<Rightarrow> byte list" where
  "wire_int le i =
     (if - 64 \<le> i \<and> i \<le> 127 then [word_of_int i]
      else if - 128 \<le> i \<and> i \<le> 127 then [ETCH_XTRNL_TYPECODE_BYTE, word_of_int i]
      else if - 32768 \<le> i \<and> i \<le> 32767
      then ETCH_XTRNL_TYPECODE_SHORT # put_short_bytes le (word_of_int i)
      else if - 2147483648 \<le> i \<and> i \<le> 2147483647
      then ETCH_XTRNL_TYPECODE_INT # put_int_bytes le (word_of_int i)
      else ETCH_XTRNL_TYPECODE_LONG # put_long_bytes le (word_of_int i))"

inductive wire_value :: "('c, 's) etch_env \<Rightarrow> (int32 \<Rightarrow> etch_type option) \<Rightarrow> bool
    \<Rightarrow> etch_validator \<Rightarrow> ('c, 's) etch_object \<Rightarrow> byte list \<Rightarrow> bool"
  and wire_items :: "('c, 's) etch_env \<Rightarrow> (int32 \<Rightarrow> etch_type option) \<Rightarrow> bool
    \<Rightarrow> etch_type \<Rightarrow> ('c, 's) struct_items \<Rightarrow> byte list \<Rightarrow> bool"
  and wire_elems :: "('c, 's) etch_env \<Rightarrow> (int32 \<Rightarrow> etch_type option) \<Rightarrow> bool
    \<Rightarrow> etch_validator \<Rightarrow> ('c, 's) etch_object list \<Rightarrow> byte list \<Rightarrow> bool"
  for ev :: "('c, 's) etch_env" and types :: "int32 \<Rightarrow> etch_type option" and le :: bool
where
  wire_false: "wire_value ev types le (VBool 0) (EBool 0) [ETCH_XTRNL_TYPECODE_BOOLEAN_FALSE]"
| wire_true: "wire_value ev types le (VBool 0) (EBool 1) [ETCH_XTRNL_TYPECODE_BOOLEAN_TRUE]"
| wire_byte: "wire_value ev types le (VByte 0) (EByte b) (wire_int le (sint b))"
| wire_int16: "wire_value ev types le (VInt16 0) (EInt16 n) (wire_int le (sint n))"
| wire_int32: "wire_value ev types le (VInt32 0) (EInt32 i) (wire_int le (sint i))"
| wire_int64: "wire_value ev types le (VInt64 0) (EInt64 l) (wire_int le (sint l))"
| wire_float: "wire_value ev types le (VFloat 0) (EFloat u) (ETCH_XTRNL_TYPECODE_FLOAT # put_int_bytes le u)"
| wire_double: "wire_value ev types le (VDouble 0) (EDouble d) (ETCH_XTRNL_TYPECODE_DOUBLE # put_long_bytes le d)"
| wire_empty: "ev_char_count ev (ev_empty_string ev) = 0 \<Longrightarrow>
    wire_value ev types le (VString 0) (EString (ev_empty_string ev)) [ETCH_XTRNL_TYPECODE_EMPTY_STRING]"
| wire_string: "ev_char_count ev s \<noteq> 0 \<Longrightarrow>
    ev_wire_bytes ev s = cs @ replicate (ev_terminator ev) 0 \<Longrightarrow> cs \<noteq> [] \<Longrightarrow> length cs < 2147483648 \<Longrightarrow>
    ev_string_of ev (cs @ replicate (ev_terminator ev) 0) = s \<Longrightarrow>
    wire_value ev types le (VString 0) (EString s)
      (ETCH_XTRNL_TYPECODE_STRING # wire_int le (int (length cs)) @ cs)"
| wire_bytes: "length bs < 2147483648 \<Longrightarrow>
    wire_value ev types le (VByte 1) (EBytes bs)
      (ETCH_XTRNL_TYPECODE_BYTES # wire_int le (int (length bs)) @ bs)"
| wire_array: "bintdi_alloc_array tc None (sint (dim :: int32)) = Some a \<Longrightarrow> 0 < sint dim \<Longrightarrow>
    tc \<noteq> ETCH_XTRNL_TYPECODE_CUSTOM \<Longrightarrow> tc \<noteq> ETCH_XTRNL_TYPECODE_STRUCT \<Longrightarrow>
    length xs < 2147483648 \<Longrightarrow> element_validator v = Some e \<Longrightarrow>
    vtor_validate_value ev v (EArray a xs) = Some (EArray a xs) \<Longrightarrow> vtor_validate ev v (EArray a xs) \<Longrightarrow>
    wire_elems ev types le e xs bs \<Longrightarrow>
    wire_value ev types le v (EArray a xs)
      (ETCH_XTRNL_TYPECODE_ARRAY # tc # wire_int le (sint dim) @ wire_int le (int (length xs))
         @ bs @ [ETCH_XTRNL_TYPECODE_NONE])"
| wire_struct: "etchtagdata_check_value ev x = ETCH_XTRNL_TYPECODE_CUSTOM \<Longrightarrow>
    ev_export ev x = Some (t, items) \<Longrightarrow> ev_import ev t items = Some x \<Longrightarrow>
    types t = Some ty \<Longrightarrow> ty_id ty = t \<Longrightarrow> length items < 2147483648 \<Longrightarrow>
    distinct (map (fld_name \<circ> fst) items) \<Longrightarrow>
    vtor_validate_value ev v x = Some x \<Longrightarrow> vtor_validate ev v x \<Longrightarrow>
    wire_items ev types le ty items bs \<Longrightarrow>
    wire_value ev types le v x
      (ETCH_XTRNL_TYPECODE_CUSTOM # wire_int le (sint t) @ wire_int le (int (length items))
         @ bs @ [ETCH_XTRNL_TYPECODE_NONE])"
| items_nil: "wire_items ev types le ty [] []"
| items_cons: "etchtype_get_field_by_id (ty_fields ty) (fld_id k) = Some k \<Longrightarrow>
    etchtype_get_validator_by_name ty (fld_name k) = Some v \<Longrightarrow>
    wire_value ev types le v x bs \<Longrightarrow> wire_items ev types le ty items cs \<Longrightarrow>
    wire_items ev types le ty ((k, x) # items) (wire_int le (sint (fld_id k)) @ bs @ cs)"
| elems_nil: "wire_elems ev types le e [] []"
| elems_cons: "wire_value ev types le e x bs \<Longrightarrow> wire_elems ev types le e xs cs \<Longrightarrow>
    wire_elems ev types le e (x # xs) (bs @ cs)"

inductive wire_message :: "('c, 's) etch_env \<Rightarrow> (int32 \<Rightarrow> etch_type option) \<Rightarrow> bool
    \<Rightarrow> int32 \<Rightarrow> ('c, 's) struct_items \<Rightarrow> byte list \<Rightarrow> bool"
where
  message: "types t = Some ty \<Longrightarrow> ty_id ty = t \<Longrightarrow> length items < 2147483648 \<Longrightarrow>
    distinct (map (fld_name \<circ> fst) items) \<Longrightarrow> wire_items ev types le ty items bs \<Longrightarrow>
    wire_message ev types le t items
      (3 # wire_int le (sint t) @ wire_int le (int (length items)) @ bs @ [ETCH_XTRNL_TYPECODE_NONE])"

section \<open>Integers in range\<close>

lemma sint_word_of_int [simp]:
  "- (2 ^ (LENGTH('a :: len) - 1)) \<le> i \<Longrightarrow> i < 2 ^ (LENGTH('a) - 1) \<Longrightarrow> sint (word_of_int i :: 'a word) = i"
  by (simp add: sint_sbintrunc' signed_take_bit_int_eq_self)

lemma ucast_word_of_sint:
  "LENGTH('b :: len) \<le> LENGTH('a :: len) \<Longrightarrow> (ucast (w :: 'a word) :: 'b word) = word_of_int (sint w)"
  by (rule bit_word_eqI) (auto simp: bit_simps bit_sint_iff)

lemma sint_ucast_in_range:
  assumes "LENGTH('b :: len) \<le> LENGTH('a :: len)"
    and "- (2 ^ (LENGTH('b) - 1)) \<le> sint w" and "sint w < 2 ^ (LENGTH('b) - 1)"
  shows "sint (ucast (w :: 'a word) :: 'b word) = sint w"
  unfolding ucast_word_of_sint [OF assms(1)] using assms(2,3) by (rule sint_word_of_int)

lemma sint_scast_up:
  "LENGTH('a :: len) \<le> LENGTH('b :: len) \<Longrightarrow> sint (scast (w :: 'a word) :: 'b word) = sint w"
  by (rule sint_up_scast) (simp add: is_up)

lemma wire_int_nonempty [simp]: "wire_int le i \<noteq> []"
  by (simp add: wire_int_def)

text \<open>The type code the code computes is the first byte of the shortest form.\<close>

lemma check_byte_wire: "etchtagdata_check_byte b = hd (wire_int le (sint b))"
  using sint_range_size [of b]
  by (auto simp: etchtagdata_check_byte_def is_inrange_tiny_for_signed_chars_def wire_int_def word_size)

lemma check_short_wire: "etchtagdata_check_short n = hd (wire_int le (sint n))"
proof (cases "is_inrange_byte (sint n)")
  case True
  then show ?thesis
    by (simp add: etchtagdata_check_short_def is_inrange_byte_def check_byte_wire [where le = le]
        sint_ucast_in_range)
next
  case False
  then show ?thesis using sint_range_size [of n]
    by (auto simp: etchtagdata_check_short_def is_inrange_byte_def wire_int_def word_size)
qed

lemma check_integer_wire: "etchtagdata_check_integer i = hd (wire_int le (sint i))"
proof (cases "is_inrange_int16 (sint i)")
  case True
  then show ?thesis
    by (simp add: etchtagdata_check_integer_def is_inrange_int16_def check_short_wire [where le = le]
        sint_ucast_in_range)
next
  case False
  then show ?thesis using sint_range_size [of i]
    by (auto simp: etchtagdata_check_integer_def is_inrange_int16_def wire_int_def word_size)
qed

lemma check_long_wire: "etchtagdata_check_long l = hd (wire_int le (sint l))"
proof (cases "is_inrange_int32 (sint l)")
  case True
  then show ?thesis
    by (simp add: etchtagdata_check_long_def is_inrange_int32_def check_integer_wire [where le = le]
        sint_ucast_in_range)
next
  case False
  then show ?thesis
    by (auto simp: etchtagdata_check_long_def is_inrange_int32_def wire_int_def)
qed

lemma tiny_not_typecode:
  assumes "- 64 \<le> i" and "i \<le> 127" and "tc \<in> set [- 128, - 127, - 126, - 125, - 124, - 123, - 122,
    - 121, - 120, - 119, - 117, - 111, - 110, - 109, - 108, - 107, - 106]"
  shows "(word_of_int i :: byte) \<noteq> tc"
proof
  assume "word_of_int i = tc"
  then have "sint tc = i" using assms(1,2) sint_word_of_int [where 'a = 8, of i] by auto
  with assms show False by auto
qed

lemma wire_validates: "wire_value ev types le v x bs \<Longrightarrow> vtor_validate ev v x"
  by (cases rule: wire_value.cases)
     (simp_all add: etch_typevtor_validate_def source_numdims_def etchvtor_byte_validate_def
       etchvtor_int16_validate_def etchvtor_int32_validate_def etchvtor_int64_validate_def
       ETCHTYPEB_PRIMITIVE_def ETCHTYPEB_ETCHOBJECT_def ETCHTYPEB_NATIVEARRAY_def
       CLASSID_OBJECT_def CLASSID_STRING_def CLASSID_ARRAY_BYTE_def)

lemma wire_nonempty: "wire_value ev types le v x bs \<Longrightarrow> 0 < length bs"
  by (erule wire_value.cases) auto

end
