(* ===== verification/FlexBuffer_Correct.thy ===== *)
theory FlexBuffer_Correct
  imports FlexBuffer
begin

text \<open>
  Correctness of the flex buffer: the invariant \<open>fb_inv\<close>, the abstractions \<open>fb_data\<close> and
  \<open>fb_unread\<close>, the effect of every operation on them, and the locale \<open>field_codec\<close> of the
  put/get pairs with its six interpretations.
\<close>

named_theorems fb_simps \<open>effect of the flex buffer operations under the invariant\<close>

section \<open>Integers as bytes\<close>

lemma put_short_bytes_length [simp]: "length (put_short_bytes le v) = 2"
  by (simp add: put_short_bytes_def)

lemma put_int_bytes_length [simp]: "length (put_int_bytes le v) = 4"
  by (simp add: put_int_bytes_def)

lemma put_long_bytes_length [simp]: "length (put_long_bytes le v) = 8"
  by (simp add: put_long_bytes_def)

lemma bit_byte_at [bytes_simps]:
  fixes v :: "'a :: len word"
  shows "bit (push_bit k (ucast (ucast (drop_bit k v) :: byte)) :: 'a word) n
     \<longleftrightarrow> k \<le> n \<and> n < k + 8 \<and> bit v n"
  using bit_imp_le_length [of v n] by (auto simp: bit_simps)

lemma bit_byte_low [bytes_simps]:
  fixes v :: "'a :: len word"
  shows "bit (ucast (ucast v :: byte) :: 'a word) n \<longleftrightarrow> n < 8 \<and> bit v n"
  using bit_imp_le_length [of v n] by (auto simp: bit_simps)

lemma byte_bit_high [simp]: "8 \<le> m \<Longrightarrow> \<not> bit (b :: byte) m"
  using bit_imp_le_length [of b m] by auto

lemma disjoint_add_or16:
  "push_bit 8 (ucast (b :: byte)) + ucast (a :: byte) = (push_bit 8 (ucast b) OR ucast a :: int16)"
proof (rule disjunctive_add)
  fix n
  show "\<not> bit (push_bit 8 (ucast b) :: int16) n \<or> \<not> bit (ucast a :: int16) n"
    by (cases "8 \<le> n") (auto simp: bit_simps)
qed

lemma ucast_signed_drop_bit:
  fixes v :: "'a :: len word"
  assumes "k + 8 \<le> LENGTH('a)"
  shows "(ucast (signed_drop_bit k v) :: byte) = ucast (drop_bit k v)"
proof (rule bit_word_eqI)
  fix n assume "n < LENGTH(8)"
  then have "n < 8" by simp
  with assms have "k + n < LENGTH('a)" and "\<not> LENGTH('a) - k \<le> n" by auto
  with \<open>n < 8\<close> show "bit (ucast (signed_drop_bit k v) :: byte) n = bit (ucast (drop_bit k v) :: byte) n"
    by (simp add: bit_simps)
qed

lemma get_put_short:
  "(case put_short_bytes le v of [b0, b1] \<Rightarrow> get_short_value le b0 b1) = v"
proof -
  have "push_bit 8 (ucast (ucast (drop_bit 8 v) :: byte)) OR ucast (ucast v :: byte) = v"
    by (rule bit_word_eqI) (simp only: bit_or_iff bytes_simps, auto)
  then show ?thesis
    by (simp add: put_short_bytes_def get_short_value_def ucast_signed_drop_bit
        disjoint_add_or16 add.commute [of "ucast _"])
qed

lemma put_get_short: "put_short_bytes le (get_short_value le b0 b1) = [b0, b1]"
proof -
  have "ucast (push_bit 8 (ucast b) OR ucast a :: int16) = a"
    and "ucast (drop_bit 8 (push_bit 8 (ucast b) OR ucast a :: int16)) = b" for a b :: byte
    by (rule bit_word_eqI, auto simp: bit_simps)+
  then show ?thesis
    by (simp add: put_short_bytes_def get_short_value_def ucast_signed_drop_bit
        disjoint_add_or16 add.commute [of "ucast _"])
qed

lemma get_put_int:
  "(case put_int_bytes le v of [b0, b1, b2, b3] \<Rightarrow> get_int_value le b0 b1 b2 b3) = v"
proof -
  have "ucast (ucast v :: byte) OR push_bit 8 (ucast (ucast (drop_bit 8 v) :: byte))
     OR push_bit 16 (ucast (ucast (drop_bit 16 v) :: byte))
     OR push_bit 24 (ucast (ucast (drop_bit 24 v) :: byte)) = v"
    by (rule bit_word_eqI) (simp only: bit_or_iff bytes_simps, auto)
  then show ?thesis
    by (simp add: put_int_bytes_def get_int_value_def ucast_signed_drop_bit or.assoc)
qed

lemma put_get_int: "put_int_bytes le (get_int_value le b0 b1 b2 b3) = [b0, b1, b2, b3]"
proof -
  let ?v = "\<lambda>b0 b1 b2 b3. ucast (b0 :: byte) OR push_bit 8 (ucast (b1 :: byte))
     OR push_bit 16 (ucast (b2 :: byte)) OR push_bit 24 (ucast (b3 :: byte)) :: int32"
  have "ucast (?v b0 b1 b2 b3) = b0" and "ucast (drop_bit 8 (?v b0 b1 b2 b3)) = b1"
    and "ucast (drop_bit 16 (?v b0 b1 b2 b3)) = b2"
    and "ucast (drop_bit 24 (?v b0 b1 b2 b3)) = b3" for b0 b1 b2 b3
    by (rule bit_word_eqI, auto simp: bit_simps)+
  then show ?thesis
    by (simp add: put_int_bytes_def get_int_value_def ucast_signed_drop_bit or.assoc)
qed

lemma get_put_long:
  "(case put_long_bytes le v of [b0, b1, b2, b3, b4, b5, b6, b7] \<Rightarrow>
      get_long_value le b0 b1 b2 b3 b4 b5 b6 b7) = v"
proof -
  have "ucast (ucast v :: byte) OR push_bit 8 (ucast (ucast (drop_bit 8 v) :: byte))
     OR push_bit 16 (ucast (ucast (drop_bit 16 v) :: byte))
     OR push_bit 24 (ucast (ucast (drop_bit 24 v) :: byte))
     OR push_bit 32 (ucast (ucast (drop_bit 32 v) :: byte))
     OR push_bit 40 (ucast (ucast (drop_bit 40 v) :: byte))
     OR push_bit 48 (ucast (ucast (drop_bit 48 v) :: byte))
     OR push_bit 56 (ucast (ucast (drop_bit 56 v) :: byte)) = v"
    by (rule bit_word_eqI) (simp only: bit_or_iff bytes_simps, auto)
  then show ?thesis
    by (simp add: put_long_bytes_def get_long_value_def ucast_signed_drop_bit or.assoc)
qed

lemma put_get_long:
  "put_long_bytes le (get_long_value le b0 b1 b2 b3 b4 b5 b6 b7) = [b0, b1, b2, b3, b4, b5, b6, b7]"
proof -
  let ?v = "\<lambda>b0 b1 b2 b3 b4 b5 b6 b7. ucast (b0 :: byte) OR push_bit 8 (ucast (b1 :: byte))
     OR push_bit 16 (ucast (b2 :: byte)) OR push_bit 24 (ucast (b3 :: byte))
     OR push_bit 32 (ucast (b4 :: byte)) OR push_bit 40 (ucast (b5 :: byte))
     OR push_bit 48 (ucast (b6 :: byte)) OR push_bit 56 (ucast (b7 :: byte)) :: int64"
  have "ucast (?v b0 b1 b2 b3 b4 b5 b6 b7) = b0"
    and "ucast (drop_bit 8 (?v b0 b1 b2 b3 b4 b5 b6 b7)) = b1"
    and "ucast (drop_bit 16 (?v b0 b1 b2 b3 b4 b5 b6 b7)) = b2"
    and "ucast (drop_bit 24 (?v b0 b1 b2 b3 b4 b5 b6 b7)) = b3"
    and "ucast (drop_bit 32 (?v b0 b1 b2 b3 b4 b5 b6 b7)) = b4"
    and "ucast (drop_bit 40 (?v b0 b1 b2 b3 b4 b5 b6 b7)) = b5"
    and "ucast (drop_bit 48 (?v b0 b1 b2 b3 b4 b5 b6 b7)) = b6"
    and "ucast (drop_bit 56 (?v b0 b1 b2 b3 b4 b5 b6 b7)) = b7"
    for b0 b1 b2 b3 b4 b5 b6 b7
    by (rule bit_word_eqI, auto simp: bit_simps)+
  then show ?thesis
    by (simp add: put_long_bytes_def get_long_value_def ucast_signed_drop_bit or.assoc)
qed
section \<open>Invariant and abstractions\<close>

definition fb_inv :: "etch_flexbuffer \<Rightarrow> bool" where
  "fb_inv f \<longleftrightarrow> fb_index f \<le> fb_datalen f \<and> fb_datalen f \<le> fb_bufsize f
     \<and> length (fb_buf f) = fb_bufsize f \<and> fb_bufsize f \<le> OBJ_MAX"

definition fb_data :: "etch_flexbuffer \<Rightarrow> byte list" where
  "fb_data f = take (fb_datalen f) (fb_buf f)"

definition fb_unread :: "etch_flexbuffer \<Rightarrow> byte list" where
  "fb_unread f = drop (fb_index f) (fb_data f)"

lemma fb_invD:
  assumes "fb_inv f"
  shows "fb_index f \<le> fb_datalen f" and "fb_datalen f \<le> fb_bufsize f"
    and "length (fb_buf f) = fb_bufsize f" and "fb_bufsize f \<le> OBJ_MAX"
    and "fb_datalen f < SIZE_MOD"
  using assms OBJ_MAX_SIZE_MOD [of "fb_datalen f"] by (auto simp: fb_inv_def)

lemma length_fb_data [fb_simps]: "fb_inv f \<Longrightarrow> length (fb_data f) = fb_datalen f"
  by (simp add: fb_data_def fb_inv_def)

lemma length_fb_unread [fb_simps]: "fb_inv f \<Longrightarrow> length (fb_unread f) = fb_datalen f - fb_index f"
  by (simp add: fb_unread_def length_fb_data)

lemma avail_eq [fb_simps]: "fb_inv f \<Longrightarrow> etch_flexbuf_avail f = fb_datalen f - fb_index f"
  by (simp add: etch_flexbuf_avail_def sz_sub_small fb_invD)

lemma avail_length_unread: "fb_inv f \<Longrightarrow> etch_flexbuf_avail f = length (fb_unread f)"
  by (simp add: fb_simps)

lemma data_split: "fb_inv f \<Longrightarrow> take (fb_index f) (fb_buf f) @ fb_unread f = fb_data f"
proof -
  assume "fb_inv f"
  then have "take (fb_index f) (fb_buf f) = take (fb_index f) (fb_data f)"
    by (simp add: fb_data_def fb_inv_def min_absorb1)
  then show ?thesis by (simp add: fb_unread_def)
qed

text \<open>What the bytes at the cursor are, in terms of the unread data.\<close>

lemma buf_nth_unread:
  assumes "fb_inv f" and "i < length (fb_unread f)"
  shows "fb_buf f ! (fb_index f + i) = fb_unread f ! i"
    and "mem_get (fb_buf f) (fb_index f + i) = Some (fb_unread f ! i)"
proof -
  from assms show *: "fb_buf f ! (fb_index f + i) = fb_unread f ! i"
    by (auto simp: fb_unread_def fb_data_def fb_inv_def)
  from assms have "fb_index f + i < length (fb_buf f)"
    by (auto simp: fb_unread_def fb_data_def fb_inv_def)
  with * show "mem_get (fb_buf f) (fb_index f + i) = Some (fb_unread f ! i)"
    by (simp add: mem_simps)
qed

lemma mem_read_unread:
  assumes "fb_inv f" and "n \<le> length (fb_unread f)"
  shows "mem_read (fb_buf f) (fb_index f) n = Some (take n (fb_unread f))"
proof -
  from assms have "fb_index f + n \<le> length (fb_buf f)"
    and "fb_index f + n \<le> fb_datalen f"
    by (auto simp: fb_simps fb_inv_def)
  then show ?thesis
    by (simp add: mem_simps fb_unread_def fb_data_def drop_take min_absorb1)
qed

section \<open>Constructors and cursor\<close>

lemma flexbuf_default_size_bounds: "0 < flexbuf_default_size n \<and> flexbuf_default_size n \<le> 4194304"
  by (simp add: flexbuf_default_size_def fb_limits)

lemma new_flexbuffer_inv: "fb_inv (new_flexbuffer junk n)"
  using flexbuf_default_size_bounds [of n]
  by (simp add: new_flexbuffer_def fb_inv_def etch_flexbuf_create_bi_def Let_def OBJ_MAX_def)

lemma new_flexbuffer_empty [simp]:
  "fb_data (new_flexbuffer junk n) = []" "fb_unread (new_flexbuffer junk n) = []"
  "fb_index (new_flexbuffer junk n) = 0" "fb_datalen (new_flexbuffer junk n) = 0"
  "fb_is_littleendian (new_flexbuffer junk n) = False"
  by (simp_all add: new_flexbuffer_def etch_flexbuf_create_bi_def fb_data_def fb_unread_def Let_def)

lemma grow_props:
  assumes "0 < r"
  shows "r \<le> flexbuf_grow r n \<and> n \<le> flexbuf_grow r n
     \<and> (n < r \<longrightarrow> flexbuf_grow r n < r + ETCH_INIT_FLEXBUFSIZE)"
  using assms
proof (induction r n rule: flexbuf_grow.induct)
  case (1 r n)
  show ?case
  proof (cases "r > n")
    case True
    then have "flexbuf_grow r n = flexbuf_grow r (n + ETCH_INIT_FLEXBUFSIZE)"
      by (simp add: flexbuf_grow.simps [of r n])
    with "1.IH" [OF True "1.prems"] True show ?thesis
      by (auto simp: ETCH_INIT_FLEXBUFSIZE_def flexbuf_grow.simps [of r "n + 2048"])
  next
    case False
    then show ?thesis by (auto simp: flexbuf_grow.simps [of r n])
  qed
qed

text \<open>Reserving room keeps the data; it fails only beyond the maximum.\<close>

lemma ensure_size_props:
  assumes inv: "fb_inv f" and e: "etch_flexbuf_ensure_size f r = (ok, f')"
  shows "fb_inv f'" and "fb_data f' = fb_data f" and "fb_unread f' = fb_unread f"
    and "fb_index f' = fb_index f" and "fb_datalen f' = fb_datalen f"
    and "fb_is_littleendian f' = fb_is_littleendian f"
    and "ok \<longleftrightarrow> r \<le> fb_bufsize f \<or> r \<le> ETCH_MAX_FLEXBUFSIZE"
    and "ok \<Longrightarrow> r \<le> fb_bufsize f'" and "\<not> ok \<Longrightarrow> f' = f"
    and "fb_bufsize f \<le> fb_bufsize f'"
proof -
  define r' where "r' = (if r < ETCH_INIT_FLEXBUFSIZE then ETCH_INIT_FLEXBUFSIZE else r)"
  define n where "n = flexbuf_grow r' (fb_bufsize f)"
  have r': "0 < r'" "r \<le> r'" by (auto simp: r'_def ETCH_INIT_FLEXBUFSIZE_def)
  have grow: "r' \<le> n" "fb_bufsize f \<le> n" and upper: "fb_bufsize f < r' \<Longrightarrow> n < r' + 2048"
    using grow_props [OF r'(1), of "fb_bufsize f"] by (auto simp: n_def ETCH_INIT_FLEXBUFSIZE_def)
  have f': "(ok, f') = (if r' \<le> fb_bufsize f then (True, f)
      else if ETCH_MAX_FLEXBUFSIZE < r' then (False, f)
      else (True, f\<lparr>fb_buf := fb_buf f @ map (fb_junk f) [length (fb_buf f)..<n], fb_bufsize := n\<rparr>))"
    using e [unfolded etch_flexbuf_ensure_size_def Let_def, folded r'_def, folded n_def] inv grow
    by (auto simp: fb_inv_def)
  have small: "r' \<le> ETCH_MAX_FLEXBUFSIZE \<longleftrightarrow> r \<le> ETCH_MAX_FLEXBUFSIZE"
    by (auto simp: r'_def fb_limits)
  have lim: "n \<le> OBJ_MAX" if "fb_bufsize f < r'" "r' \<le> ETCH_MAX_FLEXBUFSIZE"
    using that upper by (intro OBJ_MAX_large) (simp add: ETCH_MAX_FLEXBUFSIZE_def)
  show "fb_inv f'" using f' inv grow lim by (auto simp: fb_inv_def split: if_splits)
  show data: "fb_data f' = fb_data f"
    using f' inv by (auto simp: fb_data_def fb_inv_def split: if_splits)
  show ind: "fb_index f' = fb_index f" using f' by (auto split: if_splits)
  show "fb_unread f' = fb_unread f" by (simp add: fb_unread_def data ind)
  show "fb_datalen f' = fb_datalen f" and "fb_is_littleendian f' = fb_is_littleendian f"
    and "\<not> ok \<Longrightarrow> f' = f" and "fb_bufsize f \<le> fb_bufsize f'"
    using f' grow by (auto split: if_splits)
  show "ok \<longleftrightarrow> r \<le> fb_bufsize f \<or> r \<le> ETCH_MAX_FLEXBUFSIZE"
    using f' r' small by (auto simp: fb_limits r'_def split: if_splits)
  show "ok \<Longrightarrow> r \<le> fb_bufsize f'" using f' r' grow by (auto split: if_splits)
qed

text \<open>A sequence of \<open>buf[index++] = b\<close> is one block write.\<close>

lemma flexbuf_stores_eq:
  assumes "fb_index f + length bs \<le> length (fb_buf f)"
  shows "flexbuf_stores f bs = Some (f\<lparr>fb_buf := take (fb_index f) (fb_buf f) @ bs
      @ drop (fb_index f + length bs) (fb_buf f), fb_index := fb_index f + length bs\<rparr>)"
  using assms
proof (induction bs arbitrary: f)
  case Nil
  then show ?case by simp
next
  case (Cons b bs)
  define g where "g = f\<lparr>fb_buf := take (fb_index f) (fb_buf f) @ b # drop (fb_index f + 1) (fb_buf f),
      fb_index := fb_index f + 1\<rparr>"
  have st: "flexbuf_store f b = Some g"
    using Cons.prems by (simp add: flexbuf_store_def mem_simps g_def)
  have "fb_index g + length bs \<le> length (fb_buf g)" using Cons.prems by (simp add: g_def)
  from Cons.IH [OF this] st Cons.prems show ?case
    by (simp add: g_def min_absorb1 add.commute [of "length bs"])
qed

text \<open>
  The bytes written at the cursor, as every put leaves them: the meaningful data is
  overwritten from the cursor on and extended when the cursor passes its end.
\<close>

definition fb_put_at :: "etch_flexbuffer \<Rightarrow> byte list \<Rightarrow> etch_flexbuffer \<Rightarrow> bool" where
  "fb_put_at f bs f' \<longleftrightarrow> fb_inv f'
     \<and> fb_data f' = take (fb_index f) (fb_data f) @ bs @ drop (fb_index f + length bs) (fb_data f)
     \<and> fb_index f' = fb_index f + length bs
     \<and> fb_is_littleendian f' = fb_is_littleendian f"

lemma write_put_at:
  assumes inv: "fb_inv f" and room: "fb_index f + length bs \<le> fb_bufsize f"
  shows "fb_put_at f bs (etch_flexbuf_fix_length (f\<lparr>fb_buf := take (fb_index f) (fb_buf f) @ bs
      @ drop (fb_index f + length bs) (fb_buf f), fb_index := fb_index f + length bs\<rparr>))"
proof -
  let ?i = "fb_index f" and ?d = "fb_datalen f" and ?b = "fb_buf f" and ?l = "length bs"
  let ?m = "take ?i ?b @ bs @ drop (?i + ?l) ?b"
  from inv have le: "?i \<le> ?d" "?d \<le> length ?b" "length ?b \<le> OBJ_MAX"
    and len: "length ?b = fb_bufsize f" by (auto simp: fb_inv_def)
  have lm: "length ?m = length ?b" using room len by simp
  have old: "take ?i (fb_data f) = take ?i ?b" using le by (simp add: fb_data_def min_absorb1)
  show ?thesis
  proof (cases "?d < ?i + ?l")
    case True
    then have "take (?i + ?l) ?m = take ?i ?b @ bs" using le by simp
    with True le len room lm old show ?thesis
      by (simp add: fb_put_at_def etch_flexbuf_fix_length_def fb_inv_def fb_data_def)
  next
    case False
    then have "take ?d ?m = take ?i ?b @ bs @ drop (?i + ?l) (take ?d ?b)"
      using le by (simp add: drop_take)
    with False le len room lm old show ?thesis
      by (simp add: fb_put_at_def etch_flexbuf_fix_length_def fb_inv_def fb_data_def)
  qed
qed

section \<open>The contract of the put/get pairs\<close>

text \<open>
  The largest end position a put may reach: what is allocated already, or the maximum.
\<close>

definition fb_capacity :: "etch_flexbuffer \<Rightarrow> nat" where
  "fb_capacity f = max (fb_bufsize f) ETCH_MAX_FLEXBUFSIZE"

lemma ensure_size_room:
  assumes "fb_inv f" and "fb_index f + n \<le> fb_capacity f"
  obtains f' where "etch_flexbuf_ensure_size f (sz_add (fb_index f) n) = (True, f')"
    and "fb_inv f'" and "fb_data f' = fb_data f" and "fb_index f' = fb_index f"
    and "fb_is_littleendian f' = fb_is_littleendian f" and "fb_index f + n \<le> fb_bufsize f'"
proof -
  have "fb_capacity f \<le> OBJ_MAX"
    using assms(1) by (simp add: fb_capacity_def fb_inv_def ETCH_MAX_FLEXBUFSIZE_def OBJ_MAX_def)
  with assms(2) have sz: "sz_add (fb_index f) n = fb_index f + n"
    by (intro sz_add_small OBJ_MAX_SIZE_MOD) simp
  obtain ok f' where e: "etch_flexbuf_ensure_size f (fb_index f + n) = (ok, f')" by fastforce
  from ensure_size_props [OF assms(1) e] assms(2) have ok
    by (auto simp: fb_capacity_def le_max_iff_disj)
  with ensure_size_props [OF assms(1) e] e that show ?thesis unfolding sz by simp
qed

lemma ensure_size_full:
  assumes "fb_inv f" and "fb_capacity f < fb_index f + n" and "n \<le> OBJ_MAX"
  shows "etch_flexbuf_ensure_size f (sz_add (fb_index f) n) = (False, f)"
proof -
  have "fb_index f \<le> OBJ_MAX" using assms(1) by (auto simp: fb_inv_def)
  then have sz: "sz_add (fb_index f) n = fb_index f + n"
    using assms(3) by (simp add: sz_simps)
  obtain ok f' where e: "etch_flexbuf_ensure_size f (fb_index f + n) = (ok, f')" by fastforce
  from ensure_size_props [OF assms(1) e] assms(2) have "\<not> ok" and "f' = f"
    by (auto simp: fb_capacity_def)
  with e sz show ?thesis by simp
qed

text \<open>The common shape of the putters of a fixed width.\<close>

lemma put_shape_room:
  assumes inv: "fb_inv f" and len: "\<And>le. length (e le) = n"
    and room: "fb_index f + n \<le> fb_capacity f"
  shows "\<exists>f''. (let (ok, f') = etch_flexbuf_ensure_size f (sz_add (fb_index f) n)
      in if \<not> ok then Some (0, f')
         else flexbuf_stores f' (e (fb_is_littleendian f')) \<bind>
           (\<lambda>f''. Some (n, etch_flexbuf_fix_length f''))) = Some (n, f'')
      \<and> fb_put_at f (e (fb_is_littleendian f)) f''"
proof -
  obtain g where g: "etch_flexbuf_ensure_size f (sz_add (fb_index f) n) = (True, g)"
    and gi: "fb_inv g" "fb_data g = fb_data f" "fb_index g = fb_index f"
    "fb_is_littleendian g = fb_is_littleendian f" and gr: "fb_index f + n \<le> fb_bufsize g"
    using ensure_size_room [OF inv room] by blast
  let ?bs = "e (fb_is_littleendian f)"
  have room': "fb_index g + length ?bs \<le> fb_bufsize g" using gr len gi by simp
  then have "fb_index g + length ?bs \<le> length (fb_buf g)" using gi(1) by (simp add: fb_inv_def)
  from flexbuf_stores_eq [OF this] write_put_at [OF gi(1) room'] g gi len show ?thesis
    by (auto simp: fb_put_at_def)
qed

lemma put_shape_full:
  assumes "fb_inv f" and "fb_capacity f < fb_index f + n" and "n \<le> 8"
  shows "(let (ok, f') = etch_flexbuf_ensure_size f (sz_add (fb_index f) n)
      in if \<not> ok then Some (0, f') else k f') = Some (0 :: nat, f)"
  using ensure_size_full [OF assms(1,2)] assms(3) by (simp add: OBJ_MAX_def)

locale field_codec =
  fixes put :: "etch_flexbuffer \<Rightarrow> 'v \<Rightarrow> (nat \<times> etch_flexbuffer) option"
    and get :: "etch_flexbuffer \<Rightarrow> ('v option \<times> etch_flexbuffer) option"
    and enc :: "bool \<Rightarrow> 'v \<Rightarrow> byte list"
    and width :: nat
  assumes enc_length: "length (enc le v) = width"
    and enc_inj: "enc le v = enc le w \<Longrightarrow> v = w"
    and width_bounds: "0 < width \<and> width \<le> 8"
    and put_room: "fb_inv f \<Longrightarrow> fb_index f + width \<le> fb_capacity f \<Longrightarrow>
      \<exists>f'. put f v = Some (width, f') \<and> fb_put_at f (enc (fb_is_littleendian f) v) f'"
    and put_full: "fb_inv f \<Longrightarrow> fb_capacity f < fb_index f + width \<Longrightarrow> put f v = Some (0, f)"
    and get_few: "fb_inv f \<Longrightarrow> length (fb_unread f) < width \<Longrightarrow> get f = Some (None, f)"
    and get_enough: "fb_inv f \<Longrightarrow> width \<le> length (fb_unread f) \<Longrightarrow>
      \<exists>v. get f = Some (Some v, f\<lparr>fb_index := fb_index f + width\<rparr>)
        \<and> enc (fb_is_littleendian f) v = take width (fb_unread f)"
begin

lemma advance_props:
  assumes "fb_inv f" and "n \<le> length (fb_unread f)"
  shows "fb_inv (f\<lparr>fb_index := fb_index f + n\<rparr>)"
    and "fb_unread (f\<lparr>fb_index := fb_index f + n\<rparr>) = drop n (fb_unread f)"
  using assms fb_simps by (auto simp: fb_inv_def fb_unread_def fb_data_def add.commute)

lemma get_enc:
  assumes inv: "fb_inv f" and unread: "fb_unread f = enc (fb_is_littleendian f) v @ rest"
  shows "get f = Some (Some v, f\<lparr>fb_index := fb_index f + width\<rparr>)"
    and "fb_inv (f\<lparr>fb_index := fb_index f + width\<rparr>)"
    and "fb_unread (f\<lparr>fb_index := fb_index f + width\<rparr>) = rest"
proof -
  have w: "width \<le> length (fb_unread f)" using unread by (simp add: enc_length)
  obtain u where "get f = Some (Some u, f\<lparr>fb_index := fb_index f + width\<rparr>)"
    and "enc (fb_is_littleendian f) u = take width (fb_unread f)"
    using get_enough [OF inv w] by blast
  then show "get f = Some (Some v, f\<lparr>fb_index := fb_index f + width\<rparr>)"
    using enc_inj unread by (auto simp: enc_length)
  show "fb_inv (f\<lparr>fb_index := fb_index f + width\<rparr>)"
    and "fb_unread (f\<lparr>fb_index := fb_index f + width\<rparr>) = rest"
    using advance_props [OF inv w] unread by (simp_all add: enc_length)
qed

lemma put_cases:
  assumes "fb_inv f"
  shows "\<exists>n f'. put f v = Some (n, f') \<and> fb_inv f'
    \<and> (n = width \<and> fb_put_at f (enc (fb_is_littleendian f) v) f' \<or> n = 0 \<and> f' = f)"
  using put_room [OF assms, of v] put_full [OF assms, of v] assms
  by (cases "fb_index f + width \<le> fb_capacity f") (auto simp: fb_put_at_def not_le)

lemma get_cases:
  assumes "fb_inv f"
  shows "\<exists>r f'. get f = Some (r, f') \<and> fb_inv f'
    \<and> (case r of None \<Rightarrow> f' = f \<and> length (fb_unread f) < width
        | Some v \<Rightarrow> fb_unread f = enc (fb_is_littleendian f) v @ fb_unread f')"
proof (cases "width \<le> length (fb_unread f)")
  case True
  then obtain v where g: "get f = Some (Some v, f\<lparr>fb_index := fb_index f + width\<rparr>)"
    and e: "enc (fb_is_littleendian f) v = take width (fb_unread f)"
    using get_enough [OF assms] by blast
  have "fb_unread f = enc (fb_is_littleendian f) v @ fb_unread (f\<lparr>fb_index := fb_index f + width\<rparr>)"
    unfolding e advance_props(2) [OF assms True] by simp
  with g advance_props(1) [OF assms True] show ?thesis by auto
next
  case False
  then show ?thesis using get_few [OF assms] assms by simp
qed

lemma put_get_round_trip:
  assumes inv: "fb_inv f" and put: "put f v = Some (width, f')"
  shows "get (f'\<lparr>fb_index := fb_index f\<rparr>) = Some (Some v, f')"
proof -
  from put_cases [OF inv, of v] put width_bounds
  have at: "fb_put_at f (enc (fb_is_littleendian f) v) f'" by auto
  let ?g = "f'\<lparr>fb_index := fb_index f\<rparr>"
  have "fb_index f \<le> fb_index f'" using at by (simp add: fb_put_at_def)
  then have g: "fb_inv ?g" using at by (auto simp: fb_inv_def fb_put_at_def)
  have "length (take (fb_index f) (fb_data f)) = fb_index f"
    using inv by (simp add: length_fb_data fb_invD)
  then have "fb_unread ?g = enc (fb_is_littleendian ?g) v
      @ drop (fb_index f + width) (fb_data f)"
    using at by (simp add: fb_unread_def fb_put_at_def enc_length) (simp add: fb_data_def)
  from get_enc(1) [OF g this] at show ?thesis
    by (simp add: fb_put_at_def enc_length)
qed

lemma put_get_ok:
  assumes inv: "fb_inv f" and room: "fb_index f + 8 \<le> fb_capacity f"
  shows "\<exists>g. put f v = Some (width, g) \<and> get (g\<lparr>fb_index := fb_index f\<rparr>) = Some (Some v, g)"
proof -
  have "fb_index f + width \<le> fb_capacity f" using room width_bounds by linarith
  then obtain g where g: "put f v = Some (width, g)" using put_room [OF inv] by blast
  with put_get_round_trip [OF inv g] show ?thesis by blast
qed

end

text \<open>The getters at a cursor with enough unread bytes.\<close>

lemma unread_get:
  assumes "fb_inv f" and "i < length (fb_unread f)"
  shows "mem_get (fb_buf f) (fb_index f + i) = Some (fb_unread f ! i)"
  using buf_nth_unread(2) [OF assms] .

lemma unread_get_first:
  assumes "fb_inv f" and "1 \<le> length (fb_unread f)"
  shows "mem_get (fb_buf f) (fb_index f) = Some (fb_unread f ! 0)"
  using buf_nth_unread(2) [OF assms(1), of 0] assms(2) by (cases "fb_unread f") auto

lemma get_byte_enough:
  assumes "fb_inv f" and "1 \<le> length (fb_unread f)"
  shows "etch_flexbuf_get_byte f
    = Some (Some (fb_unread f ! 0), f\<lparr>fb_index := fb_index f + 1\<rparr>)"
  using assms unread_get_first [OF assms]
  by (cases "fb_unread f") (simp_all add: etch_flexbuf_get_byte_def avail_length_unread)

lemma get_short_enough:
  assumes "fb_inv f" and "2 \<le> length (fb_unread f)"
  shows "etch_flexbuf_get_short f = Some (Some (get_short_value (fb_is_littleendian f)
      (fb_unread f ! 0) (fb_unread f ! 1)), f\<lparr>fb_index := fb_index f + 2\<rparr>)"
  using assms unread_get_first [OF assms(1)] unread_get [OF assms(1), of 1]
  by (simp add: etch_flexbuf_get_short_def avail_length_unread)

lemma get_int_enough:
  assumes "fb_inv f" and "4 \<le> length (fb_unread f)"
  shows "etch_flexbuf_get_int f = Some (Some (get_int_value (fb_is_littleendian f)
      (fb_unread f ! 0) (fb_unread f ! 1) (fb_unread f ! 2) (fb_unread f ! 3)),
      f\<lparr>fb_index := fb_index f + 4\<rparr>)"
  using assms unread_get_first [OF assms(1)] unread_get [OF assms(1), of 1]
    unread_get [OF assms(1), of 2] unread_get [OF assms(1), of 3]
  by (simp add: etch_flexbuf_get_int_def avail_length_unread)

lemma get_long_enough:
  assumes "fb_inv f" and "8 \<le> length (fb_unread f)"
  shows "etch_flexbuf_get_long f = Some (Some (get_long_value (fb_is_littleendian f)
      (fb_unread f ! 0) (fb_unread f ! 1) (fb_unread f ! 2) (fb_unread f ! 3)
      (fb_unread f ! 4) (fb_unread f ! 5) (fb_unread f ! 6) (fb_unread f ! 7)),
      f\<lparr>fb_index := fb_index f + 8\<rparr>)"
  using assms unread_get_first [OF assms(1)] unread_get [OF assms(1), of 1]
    unread_get [OF assms(1), of 2] unread_get [OF assms(1), of 3]
    unread_get [OF assms(1), of 4] unread_get [OF assms(1), of 5]
    unread_get [OF assms(1), of 6] unread_get [OF assms(1), of 7]
  by (simp add: etch_flexbuf_get_long_def avail_length_unread)

lemmas get_enough_simps =
  get_byte_enough get_short_enough get_int_enough get_long_enough

lemma put_short_bytes_inj: "put_short_bytes le v = put_short_bytes le w \<Longrightarrow> v = w"
  by (drule arg_cong [where f = "\<lambda>bs. case bs of [b0, b1] \<Rightarrow> get_short_value le b0 b1"])
     (simp only: get_put_short)

lemma put_int_bytes_inj: "put_int_bytes le v = put_int_bytes le w \<Longrightarrow> v = w"
  by (drule arg_cong [where f = "\<lambda>bs. case bs of [b0, b1, b2, b3] \<Rightarrow> get_int_value le b0 b1 b2 b3"])
     (simp only: get_put_int)

lemma put_long_bytes_inj: "put_long_bytes le v = put_long_bytes le w \<Longrightarrow> v = w"
  by (drule arg_cong [where f = "\<lambda>bs. case bs of [b0, b1, b2, b3, b4, b5, b6, b7] \<Rightarrow> get_long_value le b0 b1 b2 b3 b4 b5 b6 b7"])
     (simp only: get_put_long)

interpretation byte_codec:
  field_codec etch_flexbuf_put_byte etch_flexbuf_get_byte "\<lambda>le v. [v]" 1
proof (unfold_locales, goal_cases)
  case (4 f v)
  then show ?case using put_shape_room [of f "\<lambda>le. [v]" 1] by (simp add: etch_flexbuf_put_byte_def)
next
  case (5 f v)
  then show ?case by (simp add: etch_flexbuf_put_byte_def put_shape_full)
next
  case (7 f)
  then show ?case by (cases "fb_unread f") (simp_all add: get_byte_enough)
qed (simp_all add: etch_flexbuf_get_byte_def avail_length_unread)

interpretation short_codec:
  field_codec etch_flexbuf_put_short etch_flexbuf_get_short put_short_bytes 2
proof (unfold_locales, goal_cases)
  case (2 le v w)
  then show ?case by (rule put_short_bytes_inj)
next
  case (4 f v)
  show ?case using put_shape_room [of f "\<lambda>le. put_short_bytes le v" 2, OF 4(1) put_short_bytes_length 4(2)]
    by (simp add: etch_flexbuf_put_short_def)
next
  case (5 f v)
  then show ?case by (simp add: etch_flexbuf_put_short_def put_shape_full)
next
  case (7 f)
  then show ?case using take_2_drop [of 0 "fb_unread f"]
    by (simp add: get_short_enough put_get_short)
qed (simp_all add: etch_flexbuf_get_short_def avail_length_unread)

interpretation int_codec:
  field_codec etch_flexbuf_put_int etch_flexbuf_get_int put_int_bytes 4
proof (unfold_locales, goal_cases)
  case (2 le v w)
  then show ?case by (rule put_int_bytes_inj)
next
  case (4 f v)
  show ?case using put_shape_room [of f "\<lambda>le. put_int_bytes le v" 4, OF 4(1) put_int_bytes_length 4(2)]
    by (simp add: etch_flexbuf_put_int_def)
next
  case (5 f v)
  then show ?case by (simp add: etch_flexbuf_put_int_def put_shape_full)
next
  case (7 f)
  then show ?case using take_4_drop [of 0 "fb_unread f"]
    by (simp add: get_int_enough put_get_int numeral_2_eq_2)
qed (simp_all add: etch_flexbuf_get_int_def avail_length_unread)

interpretation long_codec:
  field_codec etch_flexbuf_put_long etch_flexbuf_get_long put_long_bytes 8
proof (unfold_locales, goal_cases)
  case (2 le v w)
  then show ?case by (rule put_long_bytes_inj)
next
  case (4 f v)
  show ?case using put_shape_room [of f "\<lambda>le. put_long_bytes le v" 8, OF 4(1) put_long_bytes_length 4(2)]
    by (simp add: etch_flexbuf_put_long_def)
next
  case (5 f v)
  then show ?case by (simp add: etch_flexbuf_put_long_def put_shape_full)
next
  case (7 f)
  then show ?case using take_8_drop [of 0 "fb_unread f"]
    by (simp add: get_long_enough put_get_long numeral_2_eq_2)
qed (simp_all add: etch_flexbuf_get_long_def avail_length_unread)

lemma get_float_eq: "etch_flexbuf_get_float f = etch_flexbuf_get_int f"
  by (cases "etch_flexbuf_get_int f") (auto simp: etch_flexbuf_get_float_def split: option.splits)

lemma get_double_eq: "etch_flexbuf_get_double f = etch_flexbuf_get_long f"
  by (cases "etch_flexbuf_get_long f") (auto simp: etch_flexbuf_get_double_def split: option.splits)

lemma put_float_eq: "etch_flexbuf_put_float = etch_flexbuf_put_int"
  by (simp add: fun_eq_iff etch_flexbuf_put_float_def)

lemma put_double_eq: "etch_flexbuf_put_double = etch_flexbuf_put_long"
  by (simp add: fun_eq_iff etch_flexbuf_put_double_def)

interpretation float_codec:
  field_codec etch_flexbuf_put_float etch_flexbuf_get_float put_int_bytes 4
  unfolding put_float_eq get_float_eq [abs_def] by (rule int_codec.field_codec_axioms)

interpretation double_codec:
  field_codec etch_flexbuf_put_double etch_flexbuf_get_double put_long_bytes 8
  unfolding put_double_eq get_double_eq [abs_def] by (rule long_codec.field_codec_axioms)

section \<open>Blocks of bytes\<close>

lemma put_room:
  assumes inv: "fb_inv f" and src: "off + n \<le> length src"
    and room: "fb_index f + n \<le> fb_capacity f" and n: "0 < n"
  shows "\<exists>f'. etch_flexbuf_put f src off n = Some (n, f')
    \<and> fb_put_at f (take n (drop off src)) f'"
proof -
  let ?bs = "take n (drop off src)"
  obtain g where g: "etch_flexbuf_ensure_size f (sz_add (fb_index f) n) = (True, g)"
    and gi: "fb_inv g" "fb_data g = fb_data f" "fb_index g = fb_index f"
    "fb_is_littleendian g = fb_is_littleendian f" and gr: "fb_index f + n \<le> fb_bufsize g"
    using ensure_size_room [OF inv room] by blast
  have len: "length ?bs = n" using src by simp
  have room': "fb_index g + length ?bs \<le> fb_bufsize g" using gr len gi by simp
  have sz: "sz_add (fb_index g) n = fb_index g + n"
    using gr gi(1,3) OBJ_MAX_SIZE_MOD [of "fb_index f + n"]
    by (intro sz_add_small) (auto simp: fb_inv_def)
  have "fb_index g + n \<le> length (fb_buf g)" using room' len gi(1) by (simp add: fb_inv_def)
  with g sz len src n
  have "etch_flexbuf_put f src off n = Some (n, etch_flexbuf_fix_length (g\<lparr>fb_buf :=
      take (fb_index g) (fb_buf g) @ ?bs @ drop (fb_index g + length ?bs) (fb_buf g),
      fb_index := fb_index g + length ?bs\<rparr>))"
    by (simp add: etch_flexbuf_put_def mem_simps)
  with write_put_at [OF gi(1) room'] gi show ?thesis by (auto simp: fb_put_at_def)
qed

lemma put_full:
  assumes "fb_inv f" and "fb_capacity f < fb_index f + n" and "n \<le> OBJ_MAX"
  shows "etch_flexbuf_put f src off n = Some (0, f)"
  using ensure_size_full [OF assms] by (simp add: etch_flexbuf_put_def)

lemma skip_read:
  assumes "fb_inv f" and "n \<le> length (fb_unread f)"
  shows "etch_flexbuf_skip f n False = f\<lparr>fb_index := fb_index f + n\<rparr>"
proof -
  have "fb_index f + n < SIZE_MOD"
    using assms OBJ_MAX_SIZE_MOD [of "fb_index f + n"] by (auto simp: fb_simps fb_inv_def)
  then show ?thesis by (simp add: etch_flexbuf_skip_def sz_add_small)
qed

text \<open>Moving \<open>n\<close> unread bytes from one buffer to another.\<close>

lemma put_from_room:
  assumes dst: "fb_inv dst" and src: "fb_inv src" and n: "0 < n" "n \<le> length (fb_unread src)"
    and room: "fb_index dst + n \<le> fb_capacity dst"
  shows "\<exists>dst'. etch_flexbuf_put_from dst src n
      = Some (n, dst', src\<lparr>fb_index := fb_index src + n\<rparr>)
    \<and> fb_put_at dst (take n (fb_unread src)) dst'"
proof -
  have bound: "fb_index src + n \<le> length (fb_buf src)" and "n \<le> OBJ_MAX"
    using src n by (auto simp: fb_simps fb_inv_def)
  then have "n \<noteq> sz_of_int (- 1)"
    by (simp add: sz_of_int_minus_one OBJ_MAX_def SIZE_MOD_def)
  moreover obtain dst' where "etch_flexbuf_put dst (fb_buf src) (fb_index src) n = Some (n, dst')"
    and "fb_put_at dst (take n (drop (fb_index src) (fb_buf src))) dst'"
    using put_room [OF dst bound room n(1)] by blast
  moreover have "take n (drop (fb_index src) (fb_buf src)) = take n (fb_unread src)"
    using mem_read_unread [OF src n(2)] bound by (simp add: mem_simps)
  ultimately show ?thesis
    by (simp add: etch_flexbuf_put_from_def skip_read [OF src n(2)])
qed

lemma put_from_full:
  assumes "fb_inv dst" and "fb_capacity dst < fb_index dst + n" and "n \<le> OBJ_MAX"
  shows "etch_flexbuf_put_from dst src n = Some (0, dst, src)"
proof -
  have "n \<noteq> sz_of_int (- 1)"
    using assms(3) by (simp add: sz_of_int_minus_one OBJ_MAX_def SIZE_MOD_def)
  then show ?thesis
    using put_full [OF assms] by (simp add: etch_flexbuf_put_from_def etch_flexbuf_skip_def)
qed

lemma put_from_all:
  assumes "fb_inv src"
  shows "etch_flexbuf_put_from dst src ETCH_FLEXBUF_PUT_ALL
    = etch_flexbuf_put_from dst src (length (fb_unread src))"
proof -
  have "length (fb_unread src) \<noteq> sz_of_int (- 1)"
    using assms by (auto simp: fb_simps sz_of_int_minus_one fb_inv_def OBJ_MAX_def SIZE_MOD_def)
  then show ?thesis
    using assms by (simp add: etch_flexbuf_put_from_def ETCH_FLEXBUF_PUT_ALL_def sz_sub_small
        fb_invD fb_simps)
qed

text \<open>Reading a block, at destination offset 0 and in general.\<close>

lemma get_block:
  assumes inv: "fb_inv f" and n: "0 < n" and off: "off + min n (length (fb_unread f)) \<le> length d"
    and src: "fb_index f + off + min n (length (fb_unread f)) \<le> fb_bufsize f"
  shows "etch_flexbuf_get f (Some d) off n =
    (let k = min n (length (fb_unread f))
     in Some (k, Some (take off d @ take k (drop (fb_index f + off) (fb_buf f)) @ drop (off + k) d),
              f\<lparr>fb_index := fb_index f + k\<rparr>))"
proof -
  define k where "k = min n (length (fb_unread f))"
  have k: "(if n < etch_flexbuf_avail f then n else etch_flexbuf_avail f) = k"
    using inv by (simp add: avail_length_unread k_def)
  have r: "fb_index f + off + k \<le> length (fb_buf f)" using src inv by (simp add: fb_inv_def k_def)
  then have "fb_index f + k < SIZE_MOD"
    using inv OBJ_MAX_SIZE_MOD [of "fb_index f + k"] by (auto simp: fb_inv_def)
  then show ?thesis
    using n k r off unfolding k_def [symmetric]
    by (simp add: etch_flexbuf_get_def mem_simps sz_add_small Let_def)
qed

lemma get_fully_prefix:
  assumes inv: "fb_inv f" and len: "length (fb_unread f) \<ge> n" "length d = n + k" "0 < n"
  shows "etch_flexbuf_get_fully f (Some d) n
    = Some (n, Some (take n (fb_unread f) @ drop n d), f\<lparr>fb_index := fb_index f + n\<rparr>)"
proof -
  have "fb_index f + n \<le> fb_bufsize f" using inv len by (auto simp: fb_simps fb_inv_def)
  moreover from this have "take n (drop (fb_index f) (fb_buf f)) = take n (fb_unread f)"
    using mem_read_unread [OF inv len(1)] inv by (simp add: mem_simps fb_inv_def)
  ultimately show ?thesis
    using get_block [OF inv len(3), of 0 d] len
    by (simp add: etch_flexbuf_get_fully_def min_absorb1)
qed

lemma get_all_eq:
  assumes inv: "fb_inv f"
  shows "etch_flexbuf_get_all f
    = Some (fb_unread f, length (fb_unread f), f\<lparr>fb_index := fb_datalen f\<rparr>)"
proof (cases "fb_unread f")
  case Nil
  then have "fb_index f = fb_datalen f" using inv length_fb_unread [OF inv] by (simp add: fb_inv_def)
  then show ?thesis using inv Nil
    by (simp add: etch_flexbuf_get_all_def etch_flexbuf_get_allfrom_def etch_flexbuf_get_def
        sz_sub_small fb_invD Let_def)
next
  case (Cons b bs)
  let ?n = "length (fb_unread f)"
  have n: "sz_sub (fb_datalen f) (fb_index f) = ?n"
    using inv by (simp add: sz_sub_small fb_invD fb_simps)
  have "etch_flexbuf_get_fully f (Some (map (fb_junk f) [0..<?n])) ?n
      = Some (?n, Some (fb_unread f), f\<lparr>fb_index := fb_index f + ?n\<rparr>)"
    using get_fully_prefix [OF inv, of ?n _ 0] Cons by simp
  moreover have "fb_index f + ?n = fb_datalen f" using inv by (simp add: fb_simps fb_invD)
  moreover have "f\<lparr>fb_index := fb_index f\<rparr> = f" by simp
  ultimately show ?thesis
    using inv n by (simp add: etch_flexbuf_get_all_def etch_flexbuf_get_allfrom_def
        etch_flexbuf_get_fully_def fb_invD not_less)
qed

section \<open>Length, index and compaction\<close>

lemma set_length_props:
  assumes inv: "fb_inv f"
  shows "fb_inv (snd (etch_flexbuf_set_length f n))"
    and "fst (etch_flexbuf_set_length f n) = (if n \<le> fb_capacity f then 0 else - 1)"
    and "n \<le> fb_capacity f \<Longrightarrow> fb_datalen (snd (etch_flexbuf_set_length f n)) = n
      \<and> fb_index (snd (etch_flexbuf_set_length f n)) = min (fb_index f) n"
    and "fb_capacity f < n \<Longrightarrow> snd (etch_flexbuf_set_length f n) = f"
    and "n \<le> fb_datalen f \<Longrightarrow>
      snd (etch_flexbuf_set_length f n) = f\<lparr>fb_datalen := n, fb_index := min (fb_index f) n\<rparr>
      \<or> ETCH_INIT_FLEXBUFSIZE > fb_bufsize f"
proof -
  obtain ok f' where e: "etch_flexbuf_ensure_size f n = (ok, f')" by fastforce
  note p = ensure_size_props [OF inv e]
  have ok: "ok \<longleftrightarrow> n \<le> fb_capacity f" using p(7) by (auto simp: fb_capacity_def)
  show "fb_inv (snd (etch_flexbuf_set_length f n))"
    using p(1,4,8) e by (auto simp: etch_flexbuf_set_length_def fb_inv_def split: if_splits)
  show "fst (etch_flexbuf_set_length f n) = (if n \<le> fb_capacity f then 0 else - 1)"
    using ok e by (auto simp: etch_flexbuf_set_length_def)
  show "n \<le> fb_capacity f \<Longrightarrow> fb_datalen (snd (etch_flexbuf_set_length f n)) = n
      \<and> fb_index (snd (etch_flexbuf_set_length f n)) = min (fb_index f) n"
    using ok e p(4) by (auto simp: etch_flexbuf_set_length_def)
  show "fb_capacity f < n \<Longrightarrow> snd (etch_flexbuf_set_length f n) = f"
    using ok e p(9) by (auto simp: etch_flexbuf_set_length_def)
  show "n \<le> fb_datalen f \<Longrightarrow>
      snd (etch_flexbuf_set_length f n) = f\<lparr>fb_datalen := n, fb_index := min (fb_index f) n\<rparr>
      \<or> ETCH_INIT_FLEXBUFSIZE > fb_bufsize f"
    using inv by (auto simp: etch_flexbuf_set_length_def etch_flexbuf_ensure_size_def fb_inv_def Let_def)
qed

lemma set_index_props:
  assumes "fb_inv f"
  shows "fb_inv (snd (etch_flexbuf_set_index f n))"
    and "n \<le> fb_datalen f \<Longrightarrow> etch_flexbuf_set_index f n = (0, f\<lparr>fb_index := n\<rparr>)"
    and "fb_datalen f < n \<Longrightarrow> etch_flexbuf_set_index f n = (- 1, f)"
  using assms by (auto simp: etch_flexbuf_set_index_def fb_inv_def)

lemma reset_props:
  assumes "fb_inv f"
  shows "fb_inv (etch_flexbuf_reset f)" and "fb_data (etch_flexbuf_reset f) = []"
  using assms by (auto simp: etch_flexbuf_reset_def fb_inv_def fb_data_def)

lemma reset_to_inv: "fb_inv f \<Longrightarrow> fb_inv (snd (etch_flexbuffer_reset_to f n))"
  using set_length_props(1) [of f n]
  by (auto simp: etch_flexbuffer_reset_to_def fb_inv_def split: prod.splits)

lemma compact_props:
  assumes inv: "fb_inv f"
  shows "\<exists>f'. etch_flexbuf_compact f = Some f' \<and> fb_inv f' \<and> fb_index f' = 0
    \<and> fb_data f' = fb_unread f"
proof -
  consider "fb_index f = 0" | "fb_index f \<noteq> 0" "fb_unread f = []"
    | "fb_index f \<noteq> 0" "fb_unread f \<noteq> []" by blast
  then show ?thesis
  proof cases
    case 1
    then show ?thesis using inv by (auto simp: etch_flexbuf_compact_def fb_unread_def)
  next
    case 2
    have "0 \<le> fb_capacity f" by simp
    from set_length_props(1,3) [OF inv, of 0] this 2 inv show ?thesis
      by (auto simp: etch_flexbuf_compact_def avail_length_unread fb_data_def)
  next
    case 3
    let ?u = "fb_unread f"
    have "mem_read (fb_buf f) (fb_index f) (length ?u) = Some ?u"
      using mem_read_unread [OF inv, of "length ?u"] by simp
    moreover have "length ?u \<le> length (fb_buf f)" using inv by (auto simp: fb_simps fb_inv_def)
    ultimately show ?thesis
      using 3 inv by (auto simp: etch_flexbuf_compact_def avail_length_unread mem_simps
          fb_inv_def fb_data_def Let_def)
  qed
qed

section \<open>Sequences of calls\<close>

text \<open>
  The calls a client may make on a buffer it owns, in any order.  A block passed in or out is
  an object of the program, so at most \<open>OBJ_MAX\<close> bytes long.  \<open>etch_flexbuf_skip\<close> is not
  among them: see \<open>flexbuf_skip_breaks_invariant\<close>.
\<close>

datatype flexbuf_op =
    OpPut "byte list" | OpPutByte byte | OpPutShort int16 | OpPutInt int32 | OpPutLong int64
  | OpPutFloat int32 | OpPutDouble int64
  | OpGetFully "byte list" | OpGetAll | OpGetByte | OpGetShort | OpGetInt | OpGetLong
  | OpGetFloat | OpGetDouble
  | OpSetLength nat | OpSetIndex nat | OpResetTo nat | OpReset | OpCompact | OpClear

fun flexbuf_op_ok :: "flexbuf_op \<Rightarrow> bool" where
  "flexbuf_op_ok (OpPut bs) \<longleftrightarrow> length bs \<le> OBJ_MAX"
| "flexbuf_op_ok _ \<longleftrightarrow> True"

fun flexbuf_exec :: "etch_flexbuffer \<Rightarrow> flexbuf_op \<Rightarrow> etch_flexbuffer option" where
  "flexbuf_exec f (OpPut bs) = map_option snd (etch_flexbuf_put f bs 0 (length bs))"
| "flexbuf_exec f (OpPutByte v) = map_option snd (etch_flexbuf_put_byte f v)"
| "flexbuf_exec f (OpPutShort v) = map_option snd (etch_flexbuf_put_short f v)"
| "flexbuf_exec f (OpPutInt v) = map_option snd (etch_flexbuf_put_int f v)"
| "flexbuf_exec f (OpPutLong v) = map_option snd (etch_flexbuf_put_long f v)"
| "flexbuf_exec f (OpPutFloat v) = map_option snd (etch_flexbuf_put_float f v)"
| "flexbuf_exec f (OpPutDouble v) = map_option snd (etch_flexbuf_put_double f v)"
| "flexbuf_exec f (OpGetFully d) = map_option (snd \<circ> snd) (etch_flexbuf_get_fully f (Some d) (length d))"
| "flexbuf_exec f OpGetAll = map_option (snd \<circ> snd) (etch_flexbuf_get_all f)"
| "flexbuf_exec f OpGetByte = map_option snd (etch_flexbuf_get_byte f)"
| "flexbuf_exec f OpGetShort = map_option snd (etch_flexbuf_get_short f)"
| "flexbuf_exec f OpGetInt = map_option snd (etch_flexbuf_get_int f)"
| "flexbuf_exec f OpGetLong = map_option snd (etch_flexbuf_get_long f)"
| "flexbuf_exec f OpGetFloat = map_option snd (etch_flexbuf_get_float f)"
| "flexbuf_exec f OpGetDouble = map_option snd (etch_flexbuf_get_double f)"
| "flexbuf_exec f (OpSetLength n) = Some (snd (etch_flexbuf_set_length f n))"
| "flexbuf_exec f (OpSetIndex n) = Some (snd (etch_flexbuf_set_index f n))"
| "flexbuf_exec f (OpResetTo n) = Some (snd (etch_flexbuffer_reset_to f n))"
| "flexbuf_exec f OpReset = Some (etch_flexbuf_reset f)"
| "flexbuf_exec f OpCompact = etch_flexbuf_compact f"
| "flexbuf_exec f OpClear = etch_flexbuf_clear f"

fun flexbuf_run :: "etch_flexbuffer \<Rightarrow> flexbuf_op list \<Rightarrow> etch_flexbuffer option" where
  "flexbuf_run f [] = Some f"
| "flexbuf_run f (x # xs) = do { f' \<leftarrow> flexbuf_exec f x; flexbuf_run f' xs }"

lemma put_inv:
  assumes inv: "fb_inv f" and len: "length bs \<le> OBJ_MAX"
  shows "\<exists>r. etch_flexbuf_put f bs 0 (length bs) = Some r \<and> fb_inv (snd r)"
proof (cases "length bs = 0")
  case True
  then show ?thesis using inv by (simp add: etch_flexbuf_put_def)
next
  case False
  then show ?thesis
    using put_room [OF inv, of 0 "length bs" bs] put_full [OF inv _ len, of bs] len inv
    by (cases "fb_index f + length bs \<le> fb_capacity f") (auto simp: fb_put_at_def not_le)
qed

lemma get_fully_inv:
  assumes inv: "fb_inv f"
  shows "\<exists>r. etch_flexbuf_get_fully f (Some d) (length d) = Some r \<and> fb_inv (snd (snd r))"
proof (cases "length d = 0")
  case True
  then show ?thesis using inv by (simp add: etch_flexbuf_get_fully_def etch_flexbuf_get_def)
next
  case False
  let ?k = "min (length d) (length (fb_unread f))"
  have "fb_index f + ?k \<le> fb_datalen f" and "fb_datalen f \<le> fb_bufsize f"
    using inv by (auto simp: fb_simps fb_inv_def)
  then show ?thesis
    using get_block [OF inv, of "length d" 0 d] False inv
    by (auto simp: etch_flexbuf_get_fully_def Let_def fb_inv_def)
qed

lemma flexbuf_exec_inv:
  assumes inv: "fb_inv f" and ok: "flexbuf_op_ok x"
  shows "\<exists>f'. flexbuf_exec f x = Some f' \<and> fb_inv f'"
proof (cases x)
  case (OpPut bs)
  then show ?thesis using put_inv [OF inv, of bs] ok by auto
next
  case (OpGetFully d)
  then show ?thesis using get_fully_inv [OF inv, of d] by auto
next
  case OpGetAll
  then show ?thesis using get_all_eq [OF inv] inv by (auto simp: fb_inv_def)
next
  case OpClear
  then show ?thesis using inv by (auto simp: etch_flexbuf_clear_def mem_simps fb_inv_def)
next
  case OpCompact
  then show ?thesis using compact_props [OF inv] by auto
next
  case (OpPutByte v)
  then show ?thesis using byte_codec.put_cases [OF inv, of v] by auto
next
  case (OpPutShort v)
  then show ?thesis using short_codec.put_cases [OF inv, of v] by auto
next
  case (OpPutInt v)
  then show ?thesis using int_codec.put_cases [OF inv, of v] by auto
next
  case (OpPutLong v)
  then show ?thesis using long_codec.put_cases [OF inv, of v] by auto
next
  case (OpPutFloat v)
  then show ?thesis using float_codec.put_cases [OF inv, of v] by auto
next
  case (OpPutDouble v)
  then show ?thesis using double_codec.put_cases [OF inv, of v] by auto
next
  case OpGetByte
  then show ?thesis using byte_codec.get_cases [OF inv] by auto
next
  case OpGetShort
  then show ?thesis using short_codec.get_cases [OF inv] by auto
next
  case OpGetInt
  then show ?thesis using int_codec.get_cases [OF inv] by auto
next
  case OpGetLong
  then show ?thesis using long_codec.get_cases [OF inv] by auto
next
  case OpGetFloat
  then show ?thesis using float_codec.get_cases [OF inv] by auto
next
  case OpGetDouble
  then show ?thesis using double_codec.get_cases [OF inv] by auto
qed (use inv in \<open>simp_all add: set_length_props set_index_props reset_to_inv reset_props\<close>)

section \<open>Properties\<close>



text \<open>
  C8. Round trip of every primitive: where there is room, each of the six putters succeeds,
  returns its width, and the matching getter at the position where the put started returns
  exactly the value put, leaving the buffer as the put left it.  This holds in both byte orders
  and at any cursor position, with the block reallocated where the put does not fit.
\<close>

theorem flexbuf_put_get_round_trip:
  assumes "fb_inv f" and "fb_index f + 8 \<le> fb_capacity f"
  shows "(\<exists>g. etch_flexbuf_put_byte f b = Some (1, g)
        \<and> etch_flexbuf_get_byte (g\<lparr>fb_index := fb_index f\<rparr>) = Some (Some b, g))
    \<and> (\<exists>g. etch_flexbuf_put_short f s = Some (2, g)
        \<and> etch_flexbuf_get_short (g\<lparr>fb_index := fb_index f\<rparr>) = Some (Some s, g))
    \<and> (\<exists>g. etch_flexbuf_put_int f i = Some (4, g)
        \<and> etch_flexbuf_get_int (g\<lparr>fb_index := fb_index f\<rparr>) = Some (Some i, g))
    \<and> (\<exists>g. etch_flexbuf_put_long f l = Some (8, g)
        \<and> etch_flexbuf_get_long (g\<lparr>fb_index := fb_index f\<rparr>) = Some (Some l, g))
    \<and> (\<exists>g. etch_flexbuf_put_float f x = Some (4, g)
        \<and> etch_flexbuf_get_float (g\<lparr>fb_index := fb_index f\<rparr>) = Some (Some x, g))
    \<and> (\<exists>g. etch_flexbuf_put_double f y = Some (8, g)
        \<and> etch_flexbuf_get_double (g\<lparr>fb_index := fb_index f\<rparr>) = Some (Some y, g))"
  by (intro conjI byte_codec.put_get_ok short_codec.put_get_ok int_codec.put_get_ok
      long_codec.put_get_ok float_codec.put_get_ok double_codec.put_get_ok assms)

theorem flexbuf_put_get_round_trip_witness:
  "\<exists>g. etch_flexbuf_put_int (new_flexbuffer (\<lambda>_. 0) 0) 0xdeadbeef = Some (4, g)
    \<and> etch_flexbuf_get_int (g\<lparr>fb_index := 0\<rparr>) = Some (Some 0xdeadbeef, g)"
proof -
  have "fb_index (new_flexbuffer (\<lambda>_. 0) 0) + 8 \<le> fb_capacity (new_flexbuffer (\<lambda>_. 0) 0)"
    by (simp add: fb_capacity_def ETCH_MAX_FLEXBUFSIZE_def)
  from flexbuf_put_get_round_trip [OF new_flexbuffer_inv this, of 0 0 "0xdeadbeef" 0 0 0]
  show ?thesis by simp
qed

text \<open>
  What a block put does: with room, it returns the count, the meaningful data is the old
  data with the block written over it at the cursor (extended when the block passes its end),
  and the cursor stands behind the block; beyond the maximum buffer size it returns 0 and
  changes nothing.
\<close>

theorem flexbuf_put_overwrites_or_refuses:
  assumes "fb_inv f" and "off + n \<le> length src" and "length src \<le> OBJ_MAX" and "0 < n"
  shows "\<exists>r f'. etch_flexbuf_put f src off n = Some (r, f') \<and> fb_inv f'
    \<and> (if fb_index f + n \<le> fb_capacity f
       then r = n \<and> fb_index f' = fb_index f + n
         \<and> fb_data f' = take (fb_index f) (fb_data f) @ take n (drop off src)
              @ drop (fb_index f + n) (fb_data f)
       else r = 0 \<and> f' = f)"
  using put_room [OF assms(1,2) _ assms(4)] put_full [OF assms(1), of n src off] assms
  by (cases "fb_index f + n \<le> fb_capacity f") (auto simp: fb_put_at_def not_le)

theorem flexbuf_put_overwrites_or_refuses_witness:
  "\<exists>r f'. etch_flexbuf_put (new_flexbuffer (\<lambda>_. 0) 4) [1, 2, 3, 4, 5, 6] 1 5 = Some (r, f')
    \<and> r = 5 \<and> fb_data f' = [2, 3, 4, 5, 6]"
proof -
  have "fb_index (new_flexbuffer (\<lambda>_. 0) 4) + 5 \<le> fb_capacity (new_flexbuffer (\<lambda>_. 0) 4)"
    by (simp add: fb_capacity_def ETCH_MAX_FLEXBUFSIZE_def)
  then show ?thesis
    using flexbuf_put_overwrites_or_refuses
      [OF new_flexbuffer_inv, of 1 5 "[1, 2, 3, 4, 5, 6]" "\<lambda>_. 0" 4]
    by (fastforce simp: OBJ_MAX_def)
qed

text \<open>
  Compaction keeps exactly the unread bytes: it succeeds on every well-formed buffer, moves
  the unread bytes to the front, puts the cursor at 0 and makes them the whole of the data.
\<close>

theorem flexbuf_compact_keeps_unread:
  assumes "fb_inv f"
  shows "\<exists>f'. etch_flexbuf_compact f = Some f' \<and> fb_inv f' \<and> fb_index f' = 0
    \<and> fb_data f' = fb_unread f \<and> fb_unread f' = fb_unread f"
  using compact_props [OF assms] by (auto simp: fb_unread_def)

theorem flexbuf_compact_keeps_unread_witness:
  "\<exists>f'. etch_flexbuf_compact (etch_flexbuf_create_bi (\<lambda>_. 0) [1, 2, 3, 4] 4 3 1) = Some f'
    \<and> fb_data f' = [2, 3]"
proof -
  have "fb_inv (etch_flexbuf_create_bi (\<lambda>_. 0) [1, 2, 3, 4] 4 3 1)"
    by (simp add: fb_inv_def etch_flexbuf_create_bi_def OBJ_MAX_def)
  from flexbuf_compact_keeps_unread [OF this] show ?thesis
    by (auto simp: fb_unread_def fb_data_def etch_flexbuf_create_bi_def)
qed

text \<open>
  A skip beyond the available data is not refused: the cursor passes the end of the data,
  the buffer is no longer well-formed, and the count of available bytes wraps around to a
  number close to \<open>2 ^ 64\<close>, so that every later bounds check of a getter passes.  (The comment
  of the function promises an end-of-file error.)
\<close>

theorem flexbuf_skip_breaks_invariant:
  assumes "fb_inv f" and "length (fb_unread f) < n" and "n \<le> OBJ_MAX"
  shows "\<not> fb_inv (etch_flexbuf_skip f n False)
    \<and> etch_flexbuf_avail (etch_flexbuf_skip f n False) = SIZE_MOD - (n - length (fb_unread f))"
proof -
  have "fb_index f \<le> OBJ_MAX" using assms(1) by (auto simp: fb_inv_def)
  then have "fb_index f + n < SIZE_MOD" using assms(3) by (simp add: sz_simps)
  then have g: "etch_flexbuf_skip f n False = f\<lparr>fb_index := fb_index f + n\<rparr>"
    using assms(2) by (auto simp: etch_flexbuf_skip_def sz_add_small)
  have le: "fb_datalen f < fb_index f + n" and d: "fb_datalen f = fb_index f + length (fb_unread f)"
    using assms(1,2) by (auto simp: fb_simps fb_invD)
  then have "fb_datalen f + SIZE_MOD - (fb_index f + n) = SIZE_MOD - (n - length (fb_unread f))"
    using assms(2) \<open>fb_index f + n < SIZE_MOD\<close> by linarith
  moreover have "SIZE_MOD - (n - length (fb_unread f)) < SIZE_MOD"
    using assms(2) by (simp add: SIZE_MOD_def)
  ultimately show ?thesis
    using le unfolding g etch_flexbuf_avail_def sz_sub_def by (auto simp: fb_inv_def)
qed

theorem flexbuf_skip_breaks_invariant_witness:
  "etch_flexbuf_avail (etch_flexbuf_skip (new_flexbuffer (\<lambda>_. 0) 16) 3 False) = SIZE_MOD - 3"
  using flexbuf_skip_breaks_invariant [OF new_flexbuffer_inv, of "\<lambda>_. 0" 16 3]
  by (simp add: OBJ_MAX_def)

text \<open>
  \<open>etch_flexbuf_get\<close> with a destination offset: it fills the destination from \<open>off\<close> on, but
  with the bytes \<open>off\<close> positions behind the cursor, while the cursor advances by the count only.
  So on a buffer with four unread bytes 1 2 3 4, reading two of them to offset 2 delivers 3 4,
  and reading two more to offset 0 delivers 3 4 again: bytes 1 2 are lost.
\<close>

theorem flexbuf_get_offset_shifts_source:
  "let f = etch_flexbuf_create_bi (\<lambda>_. 0) [1, 2, 3, 4] 4 4 0
   in fb_inv f \<and> fb_unread f = [1, 2, 3, 4]
     \<and> etch_flexbuf_get f (Some [9, 9, 9, 9]) 2 2
        = Some (2, Some [9, 9, 3, 4], f\<lparr>fb_index := 2\<rparr>)
     \<and> etch_flexbuf_get (f\<lparr>fb_index := 2\<rparr>) (Some [9, 9]) 0 2
        = Some (2, Some [3, 4], f\<lparr>fb_index := 4\<rparr>)"
  by (simp add: Let_def etch_flexbuf_create_bi_def fb_inv_def fb_unread_def fb_data_def OBJ_MAX_def
      etch_flexbuf_get_def etch_flexbuf_avail_def sz_sub_def sz_add_def SIZE_MOD_def
      mem_read_def mem_write_def)

end
