(* ===== verification/BinaryTdi_Correct.thy ===== *)
theory BinaryTdi_Correct
  imports WireFormat FlexBuffer_Correct
begin

text \<open>
  What deserialization guarantees for arbitrary bytes.

  \<^item> \<open>reads le bs op P\<close>: on every well-formed buffer whose unread bytes are \<open>bs\<close>, the operation
    succeeds, moves the cursor over a number of these bytes and changes nothing else; result and
    number depend on the bytes only and satisfy \<open>P\<close>.  The rules \<open>reads_return\<close>, \<open>reads_bind\<close>,
    \<open>reads_weaken\<close> follow the operations through their blocks.
\<close>

section \<open>Reading as a function of the unread bytes\<close>

definition fb_holds :: "bool \<Rightarrow> byte list \<Rightarrow> etch_flexbuffer \<Rightarrow> bool" where
  "fb_holds le bs f \<longleftrightarrow> fb_inv f \<and> fb_is_littleendian f = le \<and> fb_unread f = bs"

definition reads :: "bool \<Rightarrow> byte list \<Rightarrow> (etch_flexbuffer \<Rightarrow> ('a \<times> etch_flexbuffer) option)
    \<Rightarrow> ('a \<Rightarrow> nat \<Rightarrow> bool) \<Rightarrow> bool" where
  "reads le bs op P \<longleftrightarrow> (\<exists>x n. P x n \<and> n \<le> length bs
     \<and> (\<forall>f. fb_holds le bs f \<longrightarrow> op f = Some (x, f\<lparr>fb_index := fb_index f + n\<rparr>)))"

lemma readsI:
  assumes "P x n" and "n \<le> length bs"
    and "\<And>f. fb_holds le bs f \<Longrightarrow> op f = Some (x, f\<lparr>fb_index := fb_index f + n\<rparr>)"
  shows "reads le bs op P"
  using assms by (auto simp: reads_def)

lemma holds_advance:
  assumes "fb_holds le bs f" and "n \<le> length bs"
  shows "fb_holds le (drop n bs) (f\<lparr>fb_index := fb_index f + n\<rparr>)"
  using assms byte_codec.advance_props [of f n] by (auto simp: fb_holds_def)

lemma reads_return: "P x 0 \<Longrightarrow> reads le bs (\<lambda>f. Some (x, f)) P"
  by (rule readsI [where x = x and n = 0]) simp_all

lemma reads_weaken:
  assumes "reads le bs op Q" and "\<And>x n. Q x n \<Longrightarrow> n \<le> length bs \<Longrightarrow> P x n"
  shows "reads le bs op P"
  using assms by (auto simp: reads_def)

lemma reads_bind:
  assumes op: "reads le bs op Q"
    and k: "\<And>x n. Q x n \<Longrightarrow> n \<le> length bs \<Longrightarrow> reads le (drop n bs) (k x) (\<lambda>y m. P y (n + m))"
  shows "reads le bs (\<lambda>f. do { (x, g) \<leftarrow> op f; k x g }) P"
proof -
  obtain x n where Q: "Q x n" "n \<le> length bs"
    and x: "\<And>f. fb_holds le bs f \<Longrightarrow> op f = Some (x, f\<lparr>fb_index := fb_index f + n\<rparr>)"
    using op by (auto simp: reads_def)
  obtain y m where P: "P y (n + m)" "m \<le> length (drop n bs)"
    and y: "\<And>f. fb_holds le (drop n bs) f \<Longrightarrow> k x f = Some (y, f\<lparr>fb_index := fb_index f + m\<rparr>)"
    using k [OF Q] by (auto simp: reads_def)
  show ?thesis
  proof (rule readsI)
    show "P y (n + m)" and "n + m \<le> length bs" using P Q by auto
    fix f assume f: "fb_holds le bs f"
    show "(do { (x, g) \<leftarrow> op f; k x g }) = Some (y, f\<lparr>fb_index := fb_index f + (n + m)\<rparr>)"
      using y [OF holds_advance [OF f Q(2)]] by (simp add: x [OF f] add.assoc)
  qed
qed

lemma reads_bind2:
  assumes op: "reads le bs op Q"
    and k: "\<And>x y n. Q (x, y) n \<Longrightarrow> n \<le> length bs \<Longrightarrow>
      reads le (drop n bs) (k x y) (\<lambda>z m. P z (n + m))"
  shows "reads le bs (\<lambda>f. do { ((x, y), g) \<leftarrow> op f; k x y g }) P"
proof -
  have "reads le bs (\<lambda>f. do { (p, g) \<leftarrow> op f; k (fst p) (snd p) g }) P"
    by (rule reads_bind [OF op]) (auto intro!: k)
  moreover have "(\<lambda>f. do { (p, g) \<leftarrow> op f; k (fst p) (snd p) g })
      = (\<lambda>f. do { ((x, y), g) \<leftarrow> op f; k x y g })"
    by (simp add: fun_eq_iff split_def)
  ultimately show ?thesis by simp
qed

lemma reads_if:
  assumes "b \<Longrightarrow> reads le bs op P" and "\<not> b \<Longrightarrow> reads le bs op' P"
  shows "reads le bs (\<lambda>f. if b then op f else op' f) P"
  using assms by (cases b) simp_all

lemma reads_case_option:
  assumes "x = None \<Longrightarrow> reads le bs op P" and "\<And>v. x = Some v \<Longrightarrow> reads le bs (op' v) P"
  shows "reads le bs (\<lambda>f. case x of None \<Rightarrow> op f | Some v \<Rightarrow> op' v f) P"
  using assms by (cases x) simp_all

text \<open>A function with a primitive getter.\<close>

lemma reads_map:
  assumes "reads le bs op Q" and "\<And>x n. Q x n \<Longrightarrow> n \<le> length bs \<Longrightarrow> P (h x) n"
  shows "reads le bs (\<lambda>f. do { (x, g) \<leftarrow> op f; Some (h x, g) }) P"
  by (rule reads_bind [OF assms(1)]) (simp add: reads_return assms(2))

context field_codec
begin

lemma reads_get: "reads le bs get (\<lambda>x n. x \<noteq> None \<longrightarrow> n = width)"
proof (cases "width \<le> length bs")
  case True
  show ?thesis
  proof (cases "\<exists>v. enc le v = take width bs")
    case e: True
    then obtain v where v: "enc le v = take width bs" ..
    show ?thesis
    proof (rule readsI [where x = "Some v" and n = width])
      fix f assume "fb_holds le bs f"
      then have f: "fb_inv f" and "fb_unread f = enc (fb_is_littleendian f) v @ drop width bs"
        using v by (auto simp: fb_holds_def)
      from get_enc(1) [OF this] show "get f = Some (Some v, f\<lparr>fb_index := fb_index f + width\<rparr>)" .
    qed (use True in simp_all)
  next
    case False
    then have "\<not> fb_holds le bs f" for f
      using get_enough [of f] True by (cases "fb_holds le bs f") (auto simp: fb_holds_def)
    with True show ?thesis by (auto simp: reads_def)
  qed
next
  case False
  then show ?thesis
    by (intro readsI [where x = None and n = 0]) (auto simp: fb_holds_def get_few)
qed

end

lemmas get_reads = byte_codec.reads_get short_codec.reads_get int_codec.reads_get
  long_codec.reads_get float_codec.reads_get double_codec.reads_get


section \<open>Integers, types, byte vectors, strings\<close>

lemma reads_get_bind:
  assumes op: "reads le bs op (\<lambda>x n. x \<noteq> None \<longrightarrow> n = w)"
    and none: "\<And>n. n \<le> length bs \<Longrightarrow> reads le (drop n bs) (k None) (\<lambda>y m. P y (n + m))"
    and some: "\<And>v. w \<le> length bs \<Longrightarrow> reads le (drop w bs) (k (Some v)) (\<lambda>y m. P y (w + m))"
  shows "reads le bs (\<lambda>f. do { (x, g) \<leftarrow> op f; k x g }) P"
proof (rule reads_bind [OF op], goal_cases)
  case (1 x n)
  then show ?case by (cases x) (use none some in auto)
qed

lemma reads_rawint:
  "reads le bs bintdi_read_value_rawint (\<lambda>(r, v) n. (r = 0 \<or> r = - 1) \<and> (r = 0 \<longrightarrow> 0 < n))"
  unfolding bintdi_read_value_rawint_def
proof (rule reads_get_bind [OF byte_codec.reads_get], goal_cases)
  case (1 n)
  show ?case by (simp add: reads_return)
next
  case (2 tc)
  show ?case
    by (auto intro!: reads_return reads_if reads_get_bind [OF int_codec.reads_get]
        reads_get_bind [OF short_codec.reads_get] reads_get_bind [OF byte_codec.reads_get])
qed

lemma reads_type:
  "reads le bs (bintdi_read_type types) (\<lambda>t n. t \<noteq> None \<longrightarrow> 0 < n)"
  unfolding bintdi_read_type_def
  by (rule reads_bind2 [OF reads_rawint]) (auto intro!: reads_return)

lemma reads_fully:
  assumes "n \<le> length bs"
  shows "reads le bs (\<lambda>f. do { (_, buf, f) \<leftarrow> etch_flexbuf_get_fully f (Some (replicate (n + k) 0)) n;
    Some (buf, f) }) (\<lambda>buf m. m = n \<and> buf = Some (take n bs @ replicate k 0))"
proof (rule readsI)
  fix f assume f: "fb_holds le bs f"
  show "(do { (_, buf, f) \<leftarrow> etch_flexbuf_get_fully f (Some (replicate (n + k) 0)) n; Some (buf, f) })
    = Some (Some (take n bs @ replicate k 0), f\<lparr>fb_index := fb_index f + n\<rparr>)"
  proof (cases "n = 0")
    case True
    then show ?thesis
      by (simp add: etch_flexbuf_get_fully_def etch_flexbuf_get_def Let_def)
  next
    case False
    then show ?thesis
      using get_fully_prefix [of f n "replicate (n + k) 0" k] f assms
      by (simp add: fb_holds_def)
  qed
qed (use assms in simp_all)

lemma reads_bytes:
  "reads le bs (bintdi_read_bytes extra) (\<lambda>_ _. True)"
  unfolding bintdi_read_bytes_def
proof (rule reads_bind2 [OF reads_rawint], goal_cases)
  case (1 r bytecount n)
  let ?ds = "drop n bs" and ?c = "nat (sint bytecount)"
  show ?case
  proof (cases "r = - 1 \<or> \<not> (sint bytecount \<ge> 0 \<and> sz_of_int (sint bytecount) \<le> length ?ds)")
    case True
    then show ?thesis
      by (intro readsI [where x = None and n = 0])
         (auto simp: fb_holds_def avail_length_unread)
  next
    case False
    have "sint bytecount < 18446744073709551616"
      using sint_lt [of bytecount] by simp
    with False have c: "?c \<le> length ?ds" by (simp add: sz_of_int_nonneg)
    from reads_fully [OF c, of le extra] False show ?thesis
      by (auto simp: reads_def fb_holds_def avail_length_unread)
  qed
qed

lemma reads_bytearray: "reads le bs bintdi_read_bytearray (\<lambda>_ _. True)"
  unfolding bintdi_read_bytearray_def by (rule reads_map [OF reads_bytes]) simp

lemma reads_string: "reads le bs (bintdi_read_string ev) (\<lambda>_ _. True)"
  unfolding bintdi_read_string_def by (rule reads_map [OF reads_bytes]) simp


section \<open>Structs and arrays\<close>

text \<open>
  What the loops need of the function that reads a value: on fewer than \<open>n\<close> bytes it returns, a
  value consumes at least one byte, and a key is the end-of-data mark or an \<open>etch_int32\<close>.
\<close>

definition reader_ok :: "('c, 's) value_reader \<Rightarrow> nat \<Rightarrow> bool" where
  "reader_ok R n \<longleftrightarrow> (\<forall>v b le bs. length bs < n \<longrightarrow> reads le bs (R v b)
     (\<lambda>x m. (x \<noteq> None \<longrightarrow> 0 < m)
       \<and> (v = Some (VInt32 0) \<longrightarrow> (x = None \<or> x = Some EEod \<or> (\<exists>i. x = Some (EInt32 i))))))"

lemma reader_okD:
  assumes "reader_ok R n" and "length bs < n"
  shows "reads le bs (R v b) (\<lambda>x m. x \<noteq> None \<longrightarrow> 0 < m)"
    and "reads le bs (R (Some (VInt32 0)) b)
      (\<lambda>x m. x = None \<or> (x = Some EEod \<or> (\<exists>i. x = Some (EInt32 i))) \<and> 0 < m)"
proof -
  have *: "reads le bs (R v b) (\<lambda>x m. (x \<noteq> None \<longrightarrow> 0 < m)
       \<and> (v = Some (VInt32 0) \<longrightarrow> (x = None \<or> x = Some EEod \<or> (\<exists>i. x = Some (EInt32 i)))))" for v
    using assms unfolding reader_ok_def by blast
  show "reads le bs (R v b) (\<lambda>x m. x \<noteq> None \<longrightarrow> 0 < m)"
    by (rule reads_weaken [OF *]) simp
  show "reads le bs (R (Some (VInt32 0)) b)
      (\<lambda>x m. x = None \<or> (x = Some EEod \<or> (\<exists>i. x = Some (EInt32 i))) \<and> 0 < m)"
    by (rule reads_weaken [OF *]) auto
qed

lemma int32_get_0: "etchvtor_int32_get 0 = Some (VInt32 0)"
  by (simp add: etchvtor_int32_get_def vtor_get_def etchvtor_check_dimensions_def
      ETCHVTOR_MAX_NDIMS_def)

lemma reads_keys_values:
  assumes R: "reader_ok R n"
  shows "length bs < n \<Longrightarrow> length bs < fuel \<Longrightarrow>
    reads le bs (bintdi_read_keys_values ev vw R ty fuel items) (\<lambda>_ _. True)"
proof (induction fuel arbitrary: bs items)
  case 0
  then show ?case by simp
next
  case (Suc fuel)
  have again: "reads le (drop k bs) (bintdi_read_keys_values ev vw R ty fuel items')
      (\<lambda>_ _. True)" if "0 < k" "k \<le> length bs" for k items'
    using Suc.prems that by (intro Suc.IH) auto
  have val: "reads le (drop k bs) (R v b) (\<lambda>x m. x \<noteq> None \<longrightarrow> 0 < m)" for k v b
    using Suc.prems by (intro reader_okD(1) [OF R]) auto
  show ?case
    unfolding bintdi_read_keys_values.simps int32_get_0
  proof (rule reads_bind [OF reader_okD(2) [OF R Suc.prems(1)]], goal_cases)
    case (1 x k)
    then consider "x = None" | "x = Some EEod" | i where "x = Some (EInt32 i)" "0 < k" by blast
    then show ?case
    proof cases
      case (3 i)
      then show ?thesis using 1(2)
        by (auto intro!: reads_case_option reads_bind [OF val] reads_if reads_return again
            simp: Let_def case_prod_beta)
    qed (simp_all add: reads_return)
  qed
qed

lemma reads_start_struct:
  "reads le bs (bintdi_start_struct types) (\<lambda>t n. t \<noteq> None \<longrightarrow> 0 < n)"
  unfolding bintdi_start_struct_def
  by (rule reads_bind [OF reads_type])
     (auto intro!: reads_case_option reads_bind2 [OF reads_rawint] reads_return)

lemma reads_struct:
  assumes "reader_ok R n" and "length bs < n" and "length bs < fuel"
  shows "reads le bs (bintdi_read_struct ev types vw R fuel) (\<lambda>_ _. True)"
  unfolding bintdi_read_struct_def
  using assms
  by (intro reads_bind [OF reads_start_struct] reads_case_option reads_return
      reads_bind2 [OF reads_keys_values]) auto

lemma reads_start_array: "reads le bs (bintdi_start_array types) (\<lambda>_ _. True)"
  unfolding bintdi_start_array_def Let_def
  by (intro reads_bind [OF byte_codec.reads_get] reads_bind2 [OF reads_rawint]
      reads_bind [where Q = "\<lambda>_ _. True"] reads_if reads_return reads_weaken [OF reads_type]) auto

lemma reads_values:
  assumes R: "reader_ok R n"
  shows "length bs < n \<Longrightarrow> length bs < fuel \<Longrightarrow>
    reads le bs (bintdi_read_values R elemv fuel elems) (\<lambda>_ _. True)"
proof (induction fuel arbitrary: bs elems)
  case 0
  then show ?case by simp
next
  case (Suc fuel)
  show ?case
    unfolding bintdi_read_values.simps
    by (rule reads_bind [OF reader_okD(1) [OF R Suc.prems(1)]])
       (use Suc in \<open>auto intro!: reads_case_option reads_if reads_return Suc.IH\<close>)
qed

lemma reads_array:
  assumes "reader_ok R n" and "length bs < n" and "length bs < fuel"
  shows "reads le bs (bintdi_read_array types R fuel v) (\<lambda>_ _. True)"
  unfolding bintdi_read_array_def
  using assms
  by (intro reads_bind [OF reads_start_array] reads_case_option reads_return
      reads_bind2 [OF reads_values]) auto

section \<open>Values and messages\<close>

lemma reads_number:
  assumes "reads le bs get (\<lambda>x n. x \<noteq> None \<longrightarrow> n = w)"
  shows "reads le bs (get_number get con) (\<lambda>_ _. True)"
  unfolding get_number_def by (rule reads_map [OF assms]) simp

lemmas reads_numbers = get_reads [THEN reads_number]

lemma reads_tagged:
  assumes R: "reader_ok R n" "length bs < n" "length bs < fuel"
  shows "reads le bs (read_tagged ev types vw R fuel v tc)
    (\<lambda>x _. tc = ETCH_XTRNL_TYPECODE_NONE \<longrightarrow> x = Some EEod)"
proof (cases "tc = ETCH_XTRNL_TYPECODE_NONE")
  case True
  then have "read_tagged ev types vw R fuel v tc = (\<lambda>f. Some (Some EEod, f))"
    by (simp add: fun_eq_iff read_tagged_def typecode_defs)
  then show ?thesis by (simp add: reads_return)
next
  case False
  have "reads le bs (read_tagged ev types vw R fuel v tc) (\<lambda>_ _. True)"
    unfolding read_tagged_def
    by (intro reads_if reads_return reads_numbers reads_map [OF reads_bytearray]
        reads_map [OF reads_struct [OF R]] reads_string reads_array [OF R] TrueI)
  with False show ?thesis by simp
qed

lemma validate_int32:
  assumes "bintdi_validate_value ev (Some (VInt32 0)) ok x = Some y" and "ok \<longrightarrow> x = Some EEod"
  shows "y = EEod \<or> (\<exists>i. y = EInt32 i)"
proof (cases ok)
  case True
  then show ?thesis using assms by (simp add: bintdi_validate_value_def)
next
  case False
  then obtain z where "vtor_validate_value ev (VInt32 0) z = Some y"
    using assms(1) by (auto simp: bintdi_validate_value_def split: option.splits)
  then show ?thesis
    by (cases z) (auto simp: etchvtor_int32_validate_value_def etch_typevtor_validate_value_def
        etchvtor_int32_validate_def split: if_splits)
qed

lemma reads_valuex: "reader_ok (bintdi_read_valuex ev types vw n) n"
proof (induction n)
  case 0
  show ?case by (simp add: reader_ok_def)
next
  case (Suc n)
  show ?case
    unfolding reader_ok_def bintdi_read_valuex.simps
  proof (intro allI impI, rule reads_bind [OF byte_codec.reads_get], goal_cases)
    case (1 v ok le bs objtype k)
    then show ?case
    proof (intro reads_case_option reads_return, goal_cases)
      case (2 tc)
      show ?case
        by (rule reads_map [OF reads_tagged [OF Suc.IH]])
           (use 2 validate_int32 [of ev "ok \<and> tc = ETCH_XTRNL_TYPECODE_NONE"] in auto)
    qed simp
  qed
qed


lemma reads_start_message:
  "reads le bs (bintdi_start_message types) (\<lambda>t n. t \<noteq> None \<longrightarrow> 0 < n)"
  unfolding bintdi_start_message_def
  by (intro reads_bind [OF byte_codec.reads_get] reads_if reads_return
      reads_weaken [OF reads_start_struct]) auto

lemma reads_message:
  assumes "length bs < fuel"
  shows "reads le bs (bintdi_read_message ev types vw mf_in_reply_to mf_msg mf_result fuel) (\<lambda>_ _. True)"
  unfolding bintdi_read_message_def
  using assms
  by (intro reads_bind [OF reads_start_message] reads_case_option reads_return
      reads_bind2 [OF reads_keys_values [OF reads_valuex]]) auto

section \<open>Fuel\<close>

text \<open>More fuel does not change the result.\<close>

definition reader_le :: "('c, 's) value_reader \<Rightarrow> ('c, 's) value_reader \<Rightarrow> bool" where
  "reader_le R R' \<longleftrightarrow> (\<forall>v b f r. R v b f = Some r \<longrightarrow> R' v b f = Some r)"

lemma keys_values_mono:
  assumes "reader_le R R'"
  shows "bintdi_read_keys_values ev vw R ty n items f = Some r \<Longrightarrow> n \<le> m \<Longrightarrow>
    bintdi_read_keys_values ev vw R' ty m items f = Some r"
proof (induction n arbitrary: items f m)
  case (Suc n)
  from Suc.prems(2) obtain k where m: "m = Suc k" "n \<le> k" by (cases m) auto
  have R: "R v b g = Some x \<Longrightarrow> R' v b g = Some x" for v b g x
    using assms unfolding reader_le_def by blast
  note IH = Suc.IH [OF _ m(2)]
  obtain x g where x: "R (Some (VInt32 0)) True f = Some (x, g)"
    using Suc.prems(1) by (auto simp: int32_get_0 split: Option.bind_splits)
  note x' = R [OF x]
  show ?case
  proof (cases "x = None \<or> x = Some EEod")
    case True
    then show ?thesis using Suc.prems(1) x x' by (auto simp: m(1) int32_get_0)
  next
    case False
    then obtain i where i: "x = Some (EInt32 i)"
      using Suc.prems(1) x by (cases x) (auto simp: int32_get_0 split: etch_object.splits)
    show ?thesis
    proof (cases "etchtype_get_field_by_id (ty_fields ty) i")
      case None
      then show ?thesis using Suc.prems(1) IH
        by (auto simp: m(1) int32_get_0 x x' i dest!: R split: Option.bind_splits if_splits)
    next
      case (Some k)
      then show ?thesis using Suc.prems(1) IH
        by (auto simp: m(1) int32_get_0 x x' i case_prod_beta Let_def dest!: R
            split: Option.bind_splits option.splits if_splits)
    qed
  qed
qed simp


lemma values_mono:
  assumes "reader_le R R'"
  shows "bintdi_read_values R elemv n elems f = Some r \<Longrightarrow> n \<le> m \<Longrightarrow>
    bintdi_read_values R' elemv m elems f = Some r"
proof (induction n arbitrary: elems f m)
  case (Suc n)
  from Suc.prems(2) obtain k where m: "m = Suc k" "n \<le> k" by (cases m) auto
  have R: "R v b g = Some x \<Longrightarrow> R' v b g = Some x" for v b g x
    using assms unfolding reader_le_def by blast
  from Suc.prems(1) show ?case
    using Suc.IH [OF _ m(2)]
    by (auto simp: m(1) case_prod_beta dest!: R split: Option.bind_splits option.splits if_splits)
qed simp

lemma tagged_mono:
  assumes R: "reader_le R R'" and nm: "n \<le> m"
    and r: "read_tagged ev types vw R n v tc f = Some r"
  shows "read_tagged ev types vw R' m v tc f = Some r"
proof -
  have struct: "bintdi_read_struct ev types vw R' m f = Some r"
    if "bintdi_read_struct ev types vw R n f = Some r" for f r
    using that unfolding bintdi_read_struct_def
    by (auto dest!: keys_values_mono [OF R _ nm] split: Option.bind_splits option.splits)
  have array: "bintdi_read_array types R' m v f = Some r"
    if "bintdi_read_array types R n v f = Some r" for f r
    using that unfolding bintdi_read_array_def
    by (auto dest!: values_mono [OF R _ nm] split: Option.bind_splits option.splits)
  consider "tc = ETCH_XTRNL_TYPECODE_STRUCT" | "tc = ETCH_XTRNL_TYPECODE_ARRAY"
    | "tc = ETCH_XTRNL_TYPECODE_CUSTOM"
    | "tc \<noteq> ETCH_XTRNL_TYPECODE_STRUCT" "tc \<noteq> ETCH_XTRNL_TYPECODE_ARRAY"
      "tc \<noteq> ETCH_XTRNL_TYPECODE_CUSTOM" by blast
  then show ?thesis
  proof cases
    case 1
    then show ?thesis using r
      by (auto simp: read_tagged_def typecode_defs dest!: struct split: Option.bind_splits)
  next
    case 2
    then show ?thesis using r by (simp add: read_tagged_def typecode_defs array)
  next
    case 3
    then show ?thesis using r
      by (auto simp: read_tagged_def typecode_defs dest!: struct split: Option.bind_splits)
  next
    case 4
    then have "read_tagged ev types vw R' m v tc f = read_tagged ev types vw R n v tc f"
      by (simp only: read_tagged_def if_False)
    with r show ?thesis by simp
  qed
qed

lemma valuex_mono: "n \<le> m \<Longrightarrow> reader_le (bintdi_read_valuex ev types vw n) (bintdi_read_valuex ev types vw m)"
proof (induction n arbitrary: m)
  case 0
  show ?case by (simp add: reader_le_def)
next
  case (Suc n)
  from Suc.prems obtain k where m: "m = Suc k" "n \<le> k" by (cases m) auto
  note tagged = tagged_mono [OF Suc.IH [OF m(2)] m(2), of ev types vw]
  show ?case
    unfolding reader_le_def m(1)
    by (auto dest!: tagged split: Option.bind_splits option.splits)
qed

lemma message_mono:
  assumes "bintdi_read_message ev types vw a b c n f = Some r" and "n \<le> m"
  shows "bintdi_read_message ev types vw a b c m f = Some r"
  using assms unfolding bintdi_read_message_def
  by (auto dest!: keys_values_mono [OF valuex_mono [OF assms(2)] _ assms(2)]
      split: Option.bind_splits option.splits)

end
