(* ===== verification/WireRead.thy ===== *)
theory WireRead
  imports BinaryTdi_Correct
begin

text \<open>
  The deserializer reads the wire format back: \<open>parses le bs op x\<close> says that the operation, on any
  buffer whose unread bytes begin with \<open>bs\<close>, returns \<open>x\<close> and moves the cursor exactly behind \<open>bs\<close>.
\<close>

section \<open>Parsing a prefix\<close>

definition parses :: "bool \<Rightarrow> byte list \<Rightarrow> (etch_flexbuffer \<Rightarrow> ('a \<times> etch_flexbuffer) option)
    \<Rightarrow> 'a \<Rightarrow> bool" where
  "parses le bs op x \<longleftrightarrow> (\<forall>rest. reads le (bs @ rest) op (\<lambda>y n. y = x \<and> n = length bs))"

lemma parses_return: "parses le [] (\<lambda>f. Some (x, f)) x"
  by (simp add: parses_def reads_return)

lemma parses_bind:
  assumes op: "parses le bs op x" and k: "parses le cs (k x) y"
  shows "parses le (bs @ cs) (\<lambda>f. do { (x, g) \<leftarrow> op f; k x g }) y"
  unfolding parses_def
proof (intro allI)
  fix rest
  have "reads le (bs @ cs @ rest) (\<lambda>f. do { (x, g) \<leftarrow> op f; k x g }) (\<lambda>z n. z = y \<and> n = length (bs @ cs))"
  proof (rule reads_bind)
    show "reads le (bs @ cs @ rest) op (\<lambda>y n. y = x \<and> n = length bs)"
      using op by (simp add: parses_def)
    fix z n assume "z = x \<and> n = length bs"
    then show "reads le (drop n (bs @ cs @ rest)) (k z) (\<lambda>z m. z = y \<and> n + m = length (bs @ cs))"
      using k by (auto simp: parses_def)
  qed
  then show "reads le ((bs @ cs) @ rest) (\<lambda>f. do { (x, g) \<leftarrow> op f; k x g }) (\<lambda>z n. z = y \<and> n = length (bs @ cs))"
    by simp
qed

lemma parses_bind_nil:
  assumes "parses le bs op x" and "parses le [] (k x) y"
  shows "parses le bs (\<lambda>f. do { (x, g) \<leftarrow> op f; k x g }) y"
  using parses_bind [where k = k and cs = "[]" and bs = bs and op = op, OF assms] by simp

lemma parses_bind2:
  assumes op: "parses le bs op (a, b)" and k: "parses le cs (k a b) y"
  shows "parses le (bs @ cs) (\<lambda>f. do { ((a, b), g) \<leftarrow> op f; k a b g }) y"
proof -
  have "parses le (bs @ cs) (\<lambda>f. do { (p, g) \<leftarrow> op f; k (fst p) (snd p) g }) y"
    by (rule parses_bind [OF op]) (simp add: k)
  moreover have "(\<lambda>f. do { (p, g) \<leftarrow> op f; k (fst p) (snd p) g }) = (\<lambda>f. do { ((a, b), g) \<leftarrow> op f; k a b g })"
    by (simp add: fun_eq_iff split_def)
  ultimately show ?thesis by simp
qed

lemma parses_map:
  assumes "parses le bs op x"
  shows "parses le bs (\<lambda>f. do { (x, g) \<leftarrow> op f; Some (h x, g) }) (h x)"
  using parses_bind [where k = "\<lambda>x g. Some (h x, g)" and cs = "[]", OF assms parses_return] by simp

lemma parses_ext:
  assumes "\<And>f. op f = op' f" and "parses le bs op' x"
  shows "parses le bs op x"
proof -
  have "op = op'" using assms(1) by (rule ext)
  with assms(2) show ?thesis by simp
qed

context field_codec
begin

lemma parses_get: "parses le (enc le v) get (Some v)"
  unfolding parses_def
proof (intro allI readsI)
  fix rest f
  assume "fb_holds le (enc le v @ rest) f"
  then have "fb_inv f" "fb_unread f = enc (fb_is_littleendian f) v @ rest" by (auto simp: fb_holds_def)
  from get_enc(1) [OF this] show "get f = Some (Some v, f\<lparr>fb_index := fb_index f + length (enc le v)\<rparr>)"
    by (simp add: enc_length)
qed simp_all

lemma parses_number: "parses le (enc le v) (get_number get con) (Some (con v))"
  by (rule parses_ext [OF get_number_def])
     (use parses_map [OF parses_get [of le v], of "map_option con"] in simp)

end

lemma parses_byte:
  assumes "parses le bs (k (Some b)) y"
  shows "parses le (b # bs) (\<lambda>f. do { (x, g) \<leftarrow> etch_flexbuf_get_byte f; k x g }) y"
  using parses_bind [where k = k, OF byte_codec.parses_get [of le b] assms] by simp

section \<open>Integers, types, byte vectors, strings\<close>

lemma parses_get_or:
  assumes "parses le bs get (Some u)"
  shows "parses le bs (\<lambda>f. do { (v, f) \<leftarrow> get f;
    Some (case v of None \<Rightarrow> ((- 1, 0), f) | Some u \<Rightarrow> ((0, h u), f)) }) ((0 :: int, h u :: int32))"
  by (rule parses_bind_nil [OF assms]) (simp add: parses_return)

lemma tiny_word:
  "- 64 \<le> i \<Longrightarrow> i \<le> 127 \<Longrightarrow> is_inrange_tiny_for_signed_chars (word_of_int i :: byte)"
  by (simp add: is_inrange_tiny_for_signed_chars_def)

lemma scast_word_of_int:
  assumes "- (2 ^ (LENGTH('a :: len) - 1)) \<le> sint w" and "sint w < 2 ^ (LENGTH('a) - 1)"
  shows "scast (word_of_int (sint (w :: 'b :: len word)) :: 'a word) = w"
proof -
  have "scast (word_of_int (sint w) :: 'a word) = (word_of_int (sint w) :: 'b word)"
    using assms by (simp add: scast_eq del: of_int_sint)
  then show ?thesis by simp
qed

lemma parses_rawint: "parses le (wire_int le (sint v)) bintdi_read_value_rawint (0, v)"
proof -
  let ?i = "sint v"
  consider "- 64 \<le> ?i" "?i \<le> 127" | "\<not> - 64 \<le> ?i" "- 128 \<le> ?i"
    | "\<not> (- 128 \<le> ?i \<and> ?i \<le> 127)" "- 32768 \<le> ?i \<and> ?i \<le> 32767"
    | "\<not> (- 32768 \<le> ?i \<and> ?i \<le> 32767)" by linarith
  then show ?thesis
  proof cases
    case 1
    then have w: "wire_int le ?i = [word_of_int ?i]" by (simp only: wire_int_def simp_thms if_True)
    show ?thesis unfolding w
      apply (rule parses_ext [OF bintdi_read_value_rawint_def])
      apply (rule parses_byte)
      apply (use 1 tiny_word [OF 1] scast_word_of_int [where 'a = 8, of v] in \<open>simp add: parses_return\<close>)
      done
  next
    case 2
    then have w: "wire_int le ?i = [ETCH_XTRNL_TYPECODE_BYTE, word_of_int ?i]"
      by (simp add: wire_int_def del: of_int_sint)
    show ?thesis unfolding w
      apply (rule parses_ext [OF bintdi_read_value_rawint_def])
      apply (rule parses_byte)
      apply (use 2 parses_get_or [where h = scast, OF byte_codec.parses_get [of le "word_of_int ?i"]]
        scast_word_of_int [where 'a = 8, of v]
        in \<open>simp add: typecode_defs is_inrange_tiny_for_signed_chars_def\<close>)
      done
  next
    case 3
    then have w: "wire_int le ?i = ETCH_XTRNL_TYPECODE_SHORT # put_short_bytes le (word_of_int ?i)"
      by (auto simp: wire_int_def simp del: of_int_sint)
    show ?thesis unfolding w
      apply (rule parses_ext [OF bintdi_read_value_rawint_def])
      apply (rule parses_byte)
      apply (use 3 parses_get_or [where h = scast, OF short_codec.parses_get [of le "word_of_int ?i"]]
        scast_word_of_int [where 'a = 16, of v]
        in \<open>simp add: typecode_defs is_inrange_tiny_for_signed_chars_def\<close>)
      done
  next
    case 4
    then have w: "wire_int le ?i = ETCH_XTRNL_TYPECODE_INT # put_int_bytes le (word_of_int ?i)"
      using sint_range_size [of v]
      by (auto simp: wire_int_def word_size simp del: of_int_sint)
    show ?thesis unfolding w
      apply (rule parses_ext [OF bintdi_read_value_rawint_def])
      apply (rule parses_byte)
      apply (use parses_get_or [where h = "\<lambda>x. x", OF int_codec.parses_get [of le "word_of_int ?i"]]
        in \<open>simp add: typecode_defs is_inrange_tiny_for_signed_chars_def\<close>)
      done
  qed
qed


lemma parses_count:
  "n < 2147483648 \<Longrightarrow> parses le (wire_int le (int n)) bintdi_read_value_rawint (0, word_of_nat n)"
  using parses_rawint [of le "word_of_nat n"] sint_word_of_int [where 'a = 32, of "int n"] by simp

lemma parses_type: "types t = Some ty \<Longrightarrow> parses le (wire_int le (sint t)) (bintdi_read_type types) (Some ty)"
  unfolding bintdi_read_type_def
  by (rule parses_bind2 [where cs = "[]", simplified, OF parses_rawint]) (simp add: parses_return)

lemma parses_bytes:
  assumes n: "length bs < 2147483648"
  shows "parses le (wire_int le (int (length bs)) @ bs) (bintdi_read_bytes extra) (Some (bs @ replicate extra 0))"
  unfolding bintdi_read_bytes_def
proof (rule parses_bind2 [OF parses_count [OF n]])
  let ?c = "word_of_nat (length bs) :: int32"
  have c: "sint ?c = int (length bs)"
    using sint_word_of_int [where 'a = 32, of "int (length bs)"] n by simp
  show "parses le bs (\<lambda>fb. if 0 = (- 1 :: int) then Some (None, fb)
      else if sint ?c \<ge> 0 \<and> sz_of_int (sint ?c) \<le> etch_flexbuf_avail fb
      then do {
        (_, buf, fb) \<leftarrow> etch_flexbuf_get_fully fb (Some (replicate (nat (sint ?c) + extra) 0)) (nat (sint ?c));
        Some (buf, fb)
      }
      else Some (None, fb)) (Some (bs @ replicate extra 0))"
    unfolding parses_def
  proof
    fix rest
    have "length bs \<le> length (bs @ rest)" by simp
    from reads_fully [OF this, of le extra]
    show "reads le (bs @ rest) (\<lambda>fb. if 0 = (- 1 :: int) then Some (None, fb)
      else if sint ?c \<ge> 0 \<and> sz_of_int (sint ?c) \<le> etch_flexbuf_avail fb
      then do {
        (_, buf, fb) \<leftarrow> etch_flexbuf_get_fully fb (Some (replicate (nat (sint ?c) + extra) 0)) (nat (sint ?c));
        Some (buf, fb)
      }
      else Some (None, fb)) (\<lambda>y n. y = Some (bs @ replicate extra 0) \<and> n = length bs)"
      using n by (auto simp: reads_def c fb_holds_def avail_length_unread sz_of_int_nonneg)
  qed
qed

lemma parses_string:
  assumes "length cs < 2147483648"
  shows "parses le (wire_int le (int (length cs)) @ cs) (bintdi_read_string ev)
    (Some (EString (ev_string_of ev (cs @ replicate (ev_terminator ev) 0))))"
  unfolding bintdi_read_string_def
  by (rule parses_bind_nil [OF parses_bytes [OF assms]]) (simp add: parses_return)

lemma parses_bytearray:
  assumes "length bs < 2147483648"
  shows "parses le (wire_int le (int (length bs)) @ bs) bintdi_read_bytearray (EBytes bs)"
  unfolding bintdi_read_bytearray_def
  by (rule parses_bind_nil [OF parses_bytes [OF assms]]) (simp add: parses_return)

section \<open>Values\<close>

lemma parses_value:
  assumes "parses le bs (read_tagged ev types vw (bintdi_read_valuex ev types vw k) k v tc) x0"
    and "bintdi_validate_value ev v (ok \<and> tc = ETCH_XTRNL_TYPECODE_NONE) x0 = x"
  shows "parses le (tc # bs) (bintdi_read_valuex ev types vw (Suc k) v ok) x"
  apply (rule parses_ext [OF bintdi_read_valuex.simps(2)])
  apply (rule parses_byte)
  apply simp
  apply (rule parses_bind_nil [OF assms(1)])
  apply (simp only: assms(2) case_prod_conv)
  apply (rule parses_return)
  done

text \<open>The object read for an integer, before it is converted to the declared width.\<close>

definition wire_int_obj :: "int \<Rightarrow> ('c, 's) etch_object" where
  "wire_int_obj i =
     (if - 128 \<le> i \<and> i \<le> 127 then EByte (word_of_int i)
      else if - 32768 \<le> i \<and> i \<le> 32767 then EInt16 (word_of_int i)
      else if - 2147483648 \<le> i \<and> i \<le> 2147483647 then EInt32 (word_of_int i)
      else EInt64 (word_of_int i))"

lemma validate_scalar:
  "\<not> etchtagdata_is_eod y \<Longrightarrow> \<not> etchtagdata_is_null y \<Longrightarrow>
     bintdi_validate_value ev (Some v) ok (Some y) = vtor_validate_value ev v y"
  by (simp add: bintdi_validate_value_def)

lemma parses_int:
  fixes ev :: "('c, 's) etch_env"
  assumes "vtor_validate_value ev v (wire_int_obj i) = Some x"
  shows "parses le (wire_int le i) (bintdi_read_valuex ev types vw (Suc k) (Some v) ok) (Some x)"
proof -
  consider "- 64 \<le> i" "i \<le> 127" | "\<not> - 64 \<le> i" "- 128 \<le> i"
    | "\<not> (- 128 \<le> i \<and> i \<le> 127)" "- 32768 \<le> i \<and> i \<le> 32767"
    | "\<not> (- 32768 \<le> i \<and> i \<le> 32767)" "- 2147483648 \<le> i \<and> i \<le> 2147483647"
    | "\<not> (- 2147483648 \<le> i \<and> i \<le> 2147483647)" by linarith
  then show ?thesis
  proof cases
    case 1
    have "(wire_int_obj i :: ('c, 's) etch_object) = EByte (word_of_int i)" using 1 by (simp add: wire_int_obj_def)
    moreover have "parses le [word_of_int i] (bintdi_read_valuex ev types vw (Suc k) (Some v) ok)
        (bintdi_validate_value ev (Some v) (ok \<and> (word_of_int i :: byte) = ETCH_XTRNL_TYPECODE_NONE)
          (Some (EByte (word_of_int i))))"
      by (rule parses_value [OF parses_ext [OF read_tagged_def] refl])
         (use tiny_not_typecode [OF 1] tiny_word [OF 1] in \<open>simp add: typecode_defs parses_return\<close>)
    ultimately show ?thesis using 1 assms by (simp add: validate_scalar wire_int_def)
  next
    case 2
    then have "wire_int le i = [ETCH_XTRNL_TYPECODE_BYTE, word_of_int i]"
      "(wire_int_obj i :: ('c, 's) etch_object) = EByte (word_of_int i)" by (simp_all add: wire_int_def wire_int_obj_def)
    moreover have "parses le [ETCH_XTRNL_TYPECODE_BYTE, word_of_int i] (bintdi_read_valuex ev types vw (Suc k) (Some v) ok)
        (bintdi_validate_value ev (Some v) (ok \<and> ETCH_XTRNL_TYPECODE_BYTE = ETCH_XTRNL_TYPECODE_NONE)
          (Some (EByte (word_of_int i))))"
      by (rule parses_value [OF parses_ext [OF read_tagged_def] refl])
         (use byte_codec.parses_number [of le "word_of_int i" EByte] in \<open>simp add: typecode_defs\<close>)
    ultimately show ?thesis using assms by (simp add: validate_scalar)
  next
    case 3
    then have "wire_int le i = ETCH_XTRNL_TYPECODE_SHORT # put_short_bytes le (word_of_int i)"
      "(wire_int_obj i :: ('c, 's) etch_object) = EInt16 (word_of_int i)" by (auto simp: wire_int_def wire_int_obj_def)
    moreover have "parses le (ETCH_XTRNL_TYPECODE_SHORT # put_short_bytes le (word_of_int i)) (bintdi_read_valuex ev types vw (Suc k) (Some v) ok)
        (bintdi_validate_value ev (Some v) (ok \<and> ETCH_XTRNL_TYPECODE_SHORT = ETCH_XTRNL_TYPECODE_NONE)
          (Some (EInt16 (word_of_int i))))"
      by (rule parses_value [OF parses_ext [OF read_tagged_def] refl])
         (use short_codec.parses_number [of le "word_of_int i" EInt16] in \<open>simp add: typecode_defs\<close>)
    ultimately show ?thesis using assms by (simp add: validate_scalar)
  next
    case 4
    then have "wire_int le i = ETCH_XTRNL_TYPECODE_INT # put_int_bytes le (word_of_int i)"
      "(wire_int_obj i :: ('c, 's) etch_object) = EInt32 (word_of_int i)" by (auto simp: wire_int_def wire_int_obj_def)
    moreover have "parses le (ETCH_XTRNL_TYPECODE_INT # put_int_bytes le (word_of_int i)) (bintdi_read_valuex ev types vw (Suc k) (Some v) ok)
        (bintdi_validate_value ev (Some v) (ok \<and> ETCH_XTRNL_TYPECODE_INT = ETCH_XTRNL_TYPECODE_NONE)
          (Some (EInt32 (word_of_int i))))"
      by (rule parses_value [OF parses_ext [OF read_tagged_def] refl])
         (use int_codec.parses_number [of le "word_of_int i" EInt32] in \<open>simp add: typecode_defs\<close>)
    ultimately show ?thesis using assms by (simp add: validate_scalar)
  next
    case 5
    then have "wire_int le i = ETCH_XTRNL_TYPECODE_LONG # put_long_bytes le (word_of_int i)"
      "(wire_int_obj i :: ('c, 's) etch_object) = EInt64 (word_of_int i)" by (auto simp: wire_int_def wire_int_obj_def)
    moreover have "parses le (ETCH_XTRNL_TYPECODE_LONG # put_long_bytes le (word_of_int i)) (bintdi_read_valuex ev types vw (Suc k) (Some v) ok)
        (bintdi_validate_value ev (Some v) (ok \<and> ETCH_XTRNL_TYPECODE_LONG = ETCH_XTRNL_TYPECODE_NONE)
          (Some (EInt64 (word_of_int i))))"
      by (rule parses_value [OF parses_ext [OF read_tagged_def] refl])
         (use long_codec.parses_number [of le "word_of_int i" EInt64] in \<open>simp add: typecode_defs\<close>)
    ultimately show ?thesis using assms by (simp add: validate_scalar)
  qed
qed


lemma scast_back:
  assumes "- (2 ^ (LENGTH('a :: len) - 1)) \<le> sint w" and "sint w < 2 ^ (LENGTH('a) - 1)"
  shows "scast (scast (w :: 'b :: len word) :: 'a word) = w"
  using scast_word_of_int [OF assms] by simp

lemma ucast_back:
  assumes "- (2 ^ (LENGTH('a :: len) - 1)) \<le> sint w" and "sint w < 2 ^ (LENGTH('a) - 1)"
    and "LENGTH('a) \<le> LENGTH('c :: len)" and "LENGTH('b :: len) \<le> LENGTH('c)"
  shows "(ucast (scast (scast (w :: 'b word) :: 'a word) :: 'c word) :: 'b word) = w"
proof -
  have "sint (scast (scast w :: 'a word) :: 'c word) = sint (word_of_int (sint w) :: 'a word)"
    using assms(3) by (simp add: sint_scast_up)
  also have "\<dots> = sint w" using assms(1,2) by (rule sint_word_of_int)
  finally have "word_of_int (sint (scast (scast w :: 'a word) :: 'c word)) = (word_of_int (sint w) :: 'b word)"
    by (rule arg_cong)
  then have "word_of_int (sint (scast (scast w :: 'a word) :: 'c word)) = w" by simp
  then show ?thesis unfolding ucast_word_of_sint [OF assms(4)] .
qed

lemma int_obj_validates:
  "vtor_validate_value ev (VByte 0) (wire_int_obj (sint b)) = Some (EByte b)"
  "vtor_validate_value ev (VInt16 0) (wire_int_obj (sint n)) = Some (EInt16 n)"
  "vtor_validate_value ev (VInt32 0) (wire_int_obj (sint i)) = Some (EInt32 i)"
  "vtor_validate_value ev (VInt64 0) (wire_int_obj (sint l)) = Some (EInt64 l)"
proof -
  note defs = wire_int_obj_def etchvtor_byte_validate_value_def etchvtor_int16_validate_value_def
    etchvtor_int32_validate_value_def etchvtor_int64_validate_value_def etch_typevtor_validate_value_def
    etchvtor_byte_validate_def etchvtor_int16_validate_def etchvtor_int32_validate_def
    etchvtor_int64_validate_def etchtagdata_int16_value_def etchtagdata_int32_value_def
    etchtagdata_int64_value_def is_inrange_int16_def is_inrange_int32_def
    scast_back ucast_back
  show "vtor_validate_value ev (VByte 0) (wire_int_obj (sint b)) = Some (EByte b)"
    using sint_range_size [of b] by (auto simp: defs word_size)
  show "vtor_validate_value ev (VInt16 0) (wire_int_obj (sint n)) = Some (EInt16 n)"
    using sint_range_size [of n] by (auto simp: defs word_size)
  show "vtor_validate_value ev (VInt32 0) (wire_int_obj (sint i)) = Some (EInt32 i)"
    using sint_range_size [of i] by (auto simp: defs word_size)
  show "vtor_validate_value ev (VInt64 0) (wire_int_obj (sint l)) = Some (EInt64 l)"
    by (auto simp: defs)
qed


section \<open>The deserializer reads the format\<close>

declare bintdi_read_valuex.simps [simp del]

lemma validate_not_none:
  "bintdi_validate_value ev (Some v) False (Some y) = vtor_validate_value ev v y"
  by (simp add: bintdi_validate_value_def)

lemma wire_not_eod: "wire_value ev types le v x bs \<Longrightarrow> \<not> etchtagdata_is_eod x"
  by (erule wire_value.cases) (auto elim!: etchtagdata_is_eod.elims simp: typecode_defs)

lemma wire_not_null: "wire_value ev types le v x bs \<Longrightarrow> x \<noteq> ENull"
  by (erule wire_value.cases) (auto simp: typecode_defs)

lemma parses_eod:
  "parses le [ETCH_XTRNL_TYPECODE_NONE] (bintdi_read_valuex ev types vw (Suc k) (Some v) True) (Some EEod)"
proof (rule parses_value)
  show "parses le [] (read_tagged ev types vw (bintdi_read_valuex ev types vw k) k (Some v)
      ETCH_XTRNL_TYPECODE_NONE) (Some EEod)"
    by (rule parses_ext [OF read_tagged_def]) (simp add: typecode_defs parses_return)
qed (simp add: bintdi_validate_value_def)

lemma parses_start_struct:
  assumes t: "types t = Some ty" and len: "n < 2147483648"
  shows "parses le (wire_int le (sint t) @ wire_int le (int n)) (bintdi_start_struct types) (Some ty)"
  unfolding bintdi_start_struct_def
  apply (rule parses_bind [OF parses_type [where types = types, OF t]])
  apply simp
  apply (rule parses_bind2 [where cs = "[]", simplified, OF parses_count [OF len]])
  apply (simp add: parses_return)
  done

lemma parses_struct:
  assumes t: "types t = Some ty" "ty_id ty = t" and len: "n < 2147483648"
    and kv: "parses le (bs @ [ETCH_XTRNL_TYPECODE_NONE]) (bintdi_read_keys_values ev vw R ty k []) (0, items)"
  shows "parses le (wire_int le (sint t) @ wire_int le (int n) @ bs @ [ETCH_XTRNL_TYPECODE_NONE])
    (bintdi_read_struct ev types vw R k) (Some (t, items))"
proof -
  have "parses le ((wire_int le (sint t) @ wire_int le (int n)) @ (bs @ [ETCH_XTRNL_TYPECODE_NONE]))
    (bintdi_read_struct ev types vw R k) (Some (t, items))"
    unfolding bintdi_read_struct_def
    apply (rule parses_bind [OF parses_start_struct [where types = types, OF t(1) len]])
    apply simp
    apply (rule parses_bind2 [where cs = "[]", simplified, OF kv])
    apply (simp add: parses_return t(2))
    done
  then show ?thesis by simp
qed

lemma parses_start_array:
  assumes a: "bintdi_alloc_array tc None (sint (d :: int32)) = Some a" and d: "0 < sint d"
    and tc: "tc \<noteq> ETCH_XTRNL_TYPECODE_CUSTOM" "tc \<noteq> ETCH_XTRNL_TYPECODE_STRUCT" and n: "n < 2147483648"
  shows "parses le (tc # wire_int le (sint d) @ wire_int le (int n)) (bintdi_start_array types) (Some a)"
proof -
  have "sint (word_of_nat n :: int32) = int n"
    using sint_word_of_int [where 'a = 32, of "int n"] n by simp
  then show ?thesis
    unfolding bintdi_start_array_def
    apply (intro parses_byte)
    apply (simp add: tc)
    apply (rule parses_bind2 [OF parses_rawint])
    apply (rule parses_bind2 [where cs = "[]", simplified, OF parses_count [OF n]])
    apply (use a d in \<open>simp add: parses_return\<close>)
    done
qed

lemma parses_array:
  assumes a: "bintdi_alloc_array tc None (sint (d :: int32)) = Some a" and d: "0 < sint d"
    and tc: "tc \<noteq> ETCH_XTRNL_TYPECODE_CUSTOM" "tc \<noteq> ETCH_XTRNL_TYPECODE_STRUCT" and n: "n < 2147483648"
    and e: "element_validator v = Some e"
    and els: "parses le (bs @ [ETCH_XTRNL_TYPECODE_NONE]) (bintdi_read_values R (Some e) k []) (0, xs)"
  shows "parses le (tc # wire_int le (sint d) @ wire_int le (int n) @ bs @ [ETCH_XTRNL_TYPECODE_NONE])
    (bintdi_read_array types R k (Some v)) (Some (EArray a xs))"
proof -
  have "parses le ((tc # wire_int le (sint d) @ wire_int le (int n)) @ (bs @ [ETCH_XTRNL_TYPECODE_NONE]))
    (bintdi_read_array types R k (Some v)) (Some (EArray a xs))"
    unfolding bintdi_read_array_def
    apply (rule parses_bind [OF parses_start_array [OF a d tc n]])
    apply (simp add: e)
    apply (rule parses_bind2 [where cs = "[]", simplified, OF els])
    apply (simp add: parses_return)
    done
  then show ?thesis by simp
qed


lemma parses_tagged:
  assumes "parses le bs (read_tagged ev types vw (bintdi_read_valuex ev types vw k) k (Some v) tc) (Some x)"
    and "tc \<noteq> ETCH_XTRNL_TYPECODE_NONE" and "vtor_validate_value ev v x = Some x"
  shows "parses le (tc # bs) (bintdi_read_valuex ev types vw (Suc k) (Some v) ok) (Some x)"
  by (rule parses_value [OF assms(1)]) (use assms(2,3) in \<open>simp add: validate_not_none\<close>)

text \<open>The tags of the values that are validated as they are.\<close>

lemma typevtor_value: "vtor_validate ev v x \<Longrightarrow> etch_typevtor_validate_value ev v x = Some x"
  by (simp add: etch_typevtor_validate_value_def)

lemma unstored_put:
  assumes "vtor_validate ev v x" and "etchtype_get_validator_by_name ty (fld_name k) = Some v"
    and "fld_name k \<notin> set (map (fld_name \<circ> fst) acc)" and "x \<noteq> ENull"
  shows "structvalue_put ev vw (Some ty) acc k x = (0, acc @ [(k, x)])"
proof -
  have "structvalue_get acc k = None"
    using assms(3) by (induction acc) (auto simp: structvalue_get_def)
  then show ?thesis using assms by (simp add: structvalue_put_def)
qed

lemma parses_wire:
  fixes ev :: "('c, 's) etch_env"
  shows parses_wire_value: "wire_value ev types le v x bs \<Longrightarrow> length bs \<le> m \<Longrightarrow>
      parses le bs (bintdi_read_valuex ev types vw m (Some v) ok) (Some x)"
    and parses_wire_items: "wire_items ev types le ty items bs \<Longrightarrow> length bs < m \<Longrightarrow> length bs < n \<Longrightarrow>
      distinct (map (fld_name \<circ> fst) (acc @ items)) \<Longrightarrow>
      parses le (bs @ [ETCH_XTRNL_TYPECODE_NONE])
        (bintdi_read_keys_values ev vw (bintdi_read_valuex ev types vw m) ty n acc) (0, acc @ items)"
    and parses_wire_elems: "wire_elems ev types le e xs bs \<Longrightarrow> length bs < m \<Longrightarrow> length bs < n \<Longrightarrow>
      parses le (bs @ [ETCH_XTRNL_TYPECODE_NONE])
        (bintdi_read_values (bintdi_read_valuex ev types vw m) (Some e) n xacc) (0, xacc @ xs)"
proof (induction arbitrary: ok m and m n acc and m n xacc rule: wire_value_wire_items_wire_elems.inducts)
  case (wire_byte b)
  then obtain k where m: "m = Suc k" by (cases m) auto
  show ?case unfolding m by (rule parses_int [OF int_obj_validates(1)])
next
  case (wire_int16 i)
  then obtain k where m: "m = Suc k" by (cases m) auto
  show ?case unfolding m by (rule parses_int [OF int_obj_validates(2)])
next
  case (wire_int32 i)
  then obtain k where m: "m = Suc k" by (cases m) auto
  show ?case unfolding m by (rule parses_int [OF int_obj_validates(3)])
next
  case (wire_int64 l)
  then obtain k where m: "m = Suc k" by (cases m) auto
  show ?case unfolding m by (rule parses_int [OF int_obj_validates(4)])
next
  case (items_nil ty)
  then obtain k l where mn: "m = Suc k" "n = Suc l" by (cases m; cases n) auto
  show ?case unfolding mn append_Nil append_Nil2
    apply (rule parses_ext [OF bintdi_read_keys_values.simps(2)])
    apply (simp only: int32_get_0)
    apply (rule parses_bind_nil [OF parses_eod])
    apply (simp add: parses_return)
    done
next
  case (elems_nil e)
  then obtain k l where mn: "m = Suc k" "n = Suc l" by (cases m; cases n) auto
  show ?case unfolding mn append_Nil append_Nil2
    apply (rule parses_ext [OF bintdi_read_values.simps(2)])
    apply (rule parses_bind_nil [OF parses_eod])
    apply (simp add: parses_return)
    done
next
  case (items_cons ty k v x bs items cs)
  then obtain m' l where mn: "m = Suc m'" "n = Suc l" by (cases m; cases n) auto
  let ?R = "bintdi_read_valuex ev types vw m"
  have key: "parses le (wire_int le (sint (fld_id k))) (?R (Some (VInt32 0)) True) (Some (EInt32 (fld_id k)))"
    unfolding mn by (rule parses_int [OF int_obj_validates(3)])
  have val: "parses le bs (?R (Some v) False) (Some x)"
    using items_cons by simp
  let ?n = "length (wire_int le (sint (fld_id k)))"
  have "?n + (length bs + length cs) < m" and "?n + (length bs + length cs) < n"
    using items_cons by simp_all
  moreover have "0 < ?n" by simp
  ultimately have len: "length cs < m" "length cs < l" using mn by linarith+
  have rest: "parses le (cs @ [ETCH_XTRNL_TYPECODE_NONE])
      (bintdi_read_keys_values ev vw ?R ty l (acc @ [(k, x)])) (0, (acc @ [(k, x)]) @ items)"
    using items_cons by (intro items_cons.IH len) auto
  have put: "structvalue_put ev vw (Some ty) acc k x = (0, acc @ [(k, x)])"
  proof (rule unstored_put)
    from items_cons have w: "wire_value ev types le v x bs" by simp
    show "vtor_validate ev v x" by (rule wire_validates [OF w])
    show "x \<noteq> ENull" by (rule wire_not_null [OF w])
    show "etchtype_get_validator_by_name ty (fld_name k) = Some v" using items_cons by simp
    show "fld_name k \<notin> set (map (fld_name \<circ> fst) acc)" using items_cons by auto
  qed
  have "parses le (wire_int le (sint (fld_id k)) @ (bs @ (cs @ [ETCH_XTRNL_TYPECODE_NONE])))
      (bintdi_read_keys_values ev vw ?R ty (Suc l) acc) (0, acc @ (k, x) # items)"
    apply (rule parses_ext [OF bintdi_read_keys_values.simps(2)])
    apply (simp only: int32_get_0)
    apply (rule parses_bind [OF key])
    apply (simp add: items_cons)
    apply (rule parses_bind [OF val])
    apply (use put rest in simp)
    done
  then show ?case by (simp add: mn del: bintdi_read_keys_values.simps bintdi_read_values.simps)
next
  case (elems_cons e x bs xs cs)
  then obtain m' l where mn: "m = Suc m'" "n = Suc l" by (cases m; cases n) auto
  have "length bs + length cs < m" and "length bs + length cs < n" using elems_cons by simp_all
  moreover have "0 < length bs" using elems_cons wire_nonempty by blast
  ultimately have len: "length cs < m" "length cs < l" using mn by linarith+
  then have rest: "parses le (cs @ [ETCH_XTRNL_TYPECODE_NONE])
      (bintdi_read_values (bintdi_read_valuex ev types vw m) (Some e) l (xacc @ [x])) (0, (xacc @ [x]) @ xs)"
    by (rule elems_cons.IH)
  have not_eod: "\<not> etchtagdata_is_eod x" using elems_cons wire_not_eod by blast
  have val: "parses le bs (bintdi_read_valuex ev types vw m (Some e) True) (Some x)"
    using elems_cons by simp
  have "parses le (bs @ (cs @ [ETCH_XTRNL_TYPECODE_NONE]))
      (bintdi_read_values (bintdi_read_valuex ev types vw m) (Some e) (Suc l) xacc) (0, xacc @ x # xs)"
    apply (rule parses_ext [OF bintdi_read_values.simps(2)])
    apply (rule parses_bind [OF val])
    apply (use rest not_eod in simp)
    done
  then show ?case by (simp add: mn del: bintdi_read_keys_values.simps bintdi_read_values.simps)
next
  case wire_false
  then obtain k where m: "m = Suc k" by (cases m) auto
  show ?case unfolding m
  proof (rule parses_tagged [OF parses_ext [OF read_tagged_def]])
    show "vtor_validate_value ev (VBool 0) (EBool 0) = Some (EBool 0)" using typevtor_value [OF wire_validates [OF wire_value_wire_items_wire_elems.wire_false]] by simp
  qed (simp_all add: typecode_defs parses_return)
next
  case wire_true
  then obtain k where m: "m = Suc k" by (cases m) auto
  show ?case unfolding m
  proof (rule parses_tagged [OF parses_ext [OF read_tagged_def]])
    show "vtor_validate_value ev (VBool 0) (EBool 1) = Some (EBool 1)" using typevtor_value [OF wire_validates [OF wire_value_wire_items_wire_elems.wire_true]] by simp
  qed (simp_all add: typecode_defs parses_return)
next
  case (wire_float u)
  then obtain k where m: "m = Suc k" by (cases m) auto
  show ?case unfolding m
  proof (rule parses_tagged [OF parses_ext [OF read_tagged_def]])
    show "vtor_validate_value ev (VFloat 0) (EFloat u) = Some (EFloat u)" using typevtor_value [OF wire_validates [OF wire_value_wire_items_wire_elems.wire_float]] by simp
  qed (simp_all add: typecode_defs float_codec.parses_number)
next
  case (wire_double d)
  then obtain k where m: "m = Suc k" by (cases m) auto
  show ?case unfolding m
  proof (rule parses_tagged [OF parses_ext [OF read_tagged_def]])
    show "vtor_validate_value ev (VDouble 0) (EDouble d) = Some (EDouble d)" using typevtor_value [OF wire_validates [OF wire_value_wire_items_wire_elems.wire_double]] by simp
  qed (simp_all add: typecode_defs double_codec.parses_number)
next
  case wire_empty
  then obtain k where m: "m = Suc k" by (cases m) auto
  show ?case unfolding m
  proof (rule parses_tagged [OF parses_ext [OF read_tagged_def]])
    show "vtor_validate_value ev (VString 0) (EString (ev_empty_string ev)) = Some (EString (ev_empty_string ev))" using typevtor_value [OF wire_validates [OF wire_value_wire_items_wire_elems.wire_empty [OF wire_empty(1)]]] by simp
  qed (simp_all add: typecode_defs parses_return)
next
  case (wire_string s cs)
  then obtain k where m: "m = Suc k" by (cases m) auto
  have w: "wire_value ev types le (VString 0) (EString s)
      (ETCH_XTRNL_TYPECODE_STRING # wire_int le (int (length cs)) @ cs)"
    using wire_string by (intro wire_value_wire_items_wire_elems.wire_string) simp_all
  have "parses le (wire_int le (int (length cs)) @ cs) (bintdi_read_string ev) (Some (EString s))"
    using wire_string parses_string [of cs le ev] by simp
  then show ?case unfolding m
  proof (intro parses_tagged [OF parses_ext [OF read_tagged_def]])
    show "vtor_validate_value ev (VString 0) (EString s) = Some (EString s)"
      using typevtor_value [OF wire_validates [OF w]] by simp
  qed (simp_all add: typecode_defs)
next
  case (wire_bytes bs)
  then obtain k where m: "m = Suc k" by (cases m) auto
  have "parses le (wire_int le (int (length bs)) @ bs)
      (\<lambda>f. do { (x, f) \<leftarrow> bintdi_read_bytearray f; Some (Some x, f) }) (Some (EBytes bs :: ('c, 's) etch_object))"
    by (rule parses_map [OF parses_bytearray [OF wire_bytes(1)]])
  then show ?case unfolding m
  proof (intro parses_tagged [OF parses_ext [OF read_tagged_def]])
    show "vtor_validate_value ev (VByte 1) (EBytes bs) = Some (EBytes bs)"
      using typevtor_value [OF wire_validates [OF wire_value_wire_items_wire_elems.wire_bytes
        [where ev = ev, OF wire_bytes(1)]]]
      by (simp add: etchvtor_byte_validate_value_def)
  qed (simp_all add: typecode_defs)
next
  case (wire_array tc dim a xs v e bs)
  then obtain k where m: "m = Suc k" by (cases m) auto
  have els: "parses le (bs @ [ETCH_XTRNL_TYPECODE_NONE])
      (bintdi_read_values (bintdi_read_valuex ev types vw k) (Some e) k []) (0, [] @ xs)"
    using wire_array m by (intro wire_array.IH) auto
  have "parses le (tc # wire_int le (sint dim) @ wire_int le (int (length xs)) @ bs @ [ETCH_XTRNL_TYPECODE_NONE])
    (bintdi_read_array types (bintdi_read_valuex ev types vw k) k (Some v)) (Some (EArray a xs))"
    using wire_array els by (intro parses_array) auto
  then show ?case unfolding m
    by (intro parses_tagged [OF parses_ext [OF read_tagged_def]])
       (use wire_array in \<open>simp_all add: typecode_defs\<close>)
next
  case (wire_struct x t items ty v bs)
  then obtain k where m: "m = Suc k" by (cases m) auto
  have kv: "parses le (bs @ [ETCH_XTRNL_TYPECODE_NONE])
      (bintdi_read_keys_values ev vw (bintdi_read_valuex ev types vw k) ty k []) (0, [] @ items)"
    using wire_struct m by (intro wire_struct.IH) (auto simp: comp_def)
  have sv: "parses le (wire_int le (sint t) @ wire_int le (int (length items)) @ bs @ [ETCH_XTRNL_TYPECODE_NONE])
    (bintdi_read_struct ev types vw (bintdi_read_valuex ev types vw k) k) (Some (t, items))"
    using wire_struct kv by (intro parses_struct) auto
  have "parses le (wire_int le (sint t) @ wire_int le (int (length items)) @ bs @ [ETCH_XTRNL_TYPECODE_NONE])
    (\<lambda>f. do { (sv, f) \<leftarrow> bintdi_read_struct ev types vw (bintdi_read_valuex ev types vw k) k f;
        Some (Option.bind sv (\<lambda>(t, items). ev_import ev t items), f) }) (Some x)"
    using parses_map [OF sv, of "\<lambda>sv. Option.bind sv (\<lambda>(t, items). ev_import ev t items)"] wire_struct
    by simp
  then show ?case unfolding m
    by (intro parses_tagged [OF parses_ext [OF read_tagged_def]])
       (use wire_struct in \<open>simp_all add: typecode_defs\<close>)
qed

text \<open>Messages.\<close>

lemma parses_wire_message:
  assumes "wire_message ev types le t items bs" and "length bs < m"
  shows "\<exists>ty. types t = Some ty \<and> ty_id ty = t \<and> parses le bs
    (bintdi_read_message ev types vw mf_in_reply_to mf_msg mf_result m)
    (Some (t, bintdi_end_message ev vw (Some ty) mf_in_reply_to mf_msg mf_result items))"
  using assms
proof (cases rule: wire_message.cases)
  case (message ty cs)
  have kv: "parses le (cs @ [ETCH_XTRNL_TYPECODE_NONE])
      (bintdi_read_keys_values ev vw (bintdi_read_valuex ev types vw m) ty m []) (0, items)"
    using parses_wire_items [OF message(6), of m m "[]" vw] assms(2) message(1,5) by auto
  have start: "parses le (3 # wire_int le (sint t) @ wire_int le (int (length items)))
      (bintdi_start_message types) (Some ty)"
    unfolding bintdi_start_message_def
    by (rule parses_byte) (simp add: parses_start_struct [where types = types, OF message(2,4)])
  have "parses le ((3 # wire_int le (sint t) @ wire_int le (int (length items))) @ (cs @ [ETCH_XTRNL_TYPECODE_NONE]))
    (bintdi_read_message ev types vw mf_in_reply_to mf_msg mf_result m)
    (Some (t, bintdi_end_message ev vw (Some ty) mf_in_reply_to mf_msg mf_result items))"
    unfolding bintdi_read_message_def
    apply (rule parses_bind [OF start])
    apply simp
    apply (rule parses_bind2 [where cs = "[]", simplified, OF kv])
    apply (simp add: parses_return message(3))
    done
  then show ?thesis using message by simp
qed

end
