(* ===== verification/BinaryTdo_Correct.thy ===== *)
theory BinaryTdo_Correct
  imports WireFormat FlexBuffer_Correct
begin

text \<open>
  The serializer implements the wire format.  \<open>writes le bs op x\<close>: on every well-formed buffer
  with room for \<open>bs\<close> below the maximum size, the operation returns \<open>x\<close> and has put exactly \<open>bs\<close>
  at the cursor.  The rules follow the operations through their blocks; the induction is over the
  format.
\<close>

section \<open>Operations that put bytes\<close>

definition writes :: "bool \<Rightarrow> byte list \<Rightarrow> (etch_flexbuffer \<Rightarrow> ('a \<times> etch_flexbuffer) option)
    \<Rightarrow> 'a \<Rightarrow> bool" where
  "writes le bs op x \<longleftrightarrow> (\<forall>f. fb_inv f \<longrightarrow> fb_is_littleendian f = le \<longrightarrow>
     fb_index f + length bs \<le> ETCH_MAX_FLEXBUFSIZE \<longrightarrow>
     (\<exists>f'. op f = Some (x, f') \<and> fb_put_at f bs f'))"

lemma writesI:
  assumes "\<And>f. fb_inv f \<Longrightarrow> fb_is_littleendian f = le \<Longrightarrow>
      fb_index f + length bs \<le> ETCH_MAX_FLEXBUFSIZE \<Longrightarrow> \<exists>f'. op f = Some (x, f') \<and> fb_put_at f bs f'"
  shows "writes le bs op x"
  using assms by (simp add: writes_def)

lemma capacity_max: "ETCH_MAX_FLEXBUFSIZE \<le> fb_capacity f"
  by (simp add: fb_capacity_def)

lemma put_at_nil: "fb_inv f \<Longrightarrow> fb_put_at f [] f"
  by (simp add: fb_put_at_def)

lemma put_at_append:
  assumes f: "fb_inv f" and g: "fb_put_at f bs g" and h: "fb_put_at g cs h"
  shows "fb_put_at f (bs @ cs) h"
proof -
  have len: "length (take (fb_index f) (fb_data f)) = fb_index f"
    using f by (simp add: length_fb_data fb_invD)
  show ?thesis
    using g h len by (auto simp: fb_put_at_def algebra_simps)
qed

lemma writes_return: "writes le [] (\<lambda>f. Some (x, f)) x"
  by (rule writesI) (auto intro: put_at_nil)

lemma writes_bind:
  assumes op: "writes le bs op x" and k: "writes le cs (k x) y"
  shows "writes le (bs @ cs) (\<lambda>f. do { (x, g) \<leftarrow> op f; k x g }) y"
proof (rule writesI)
  fix f
  assume f: "fb_inv f" "fb_is_littleendian f = le"
    and room: "fb_index f + length (bs @ cs) \<le> ETCH_MAX_FLEXBUFSIZE"
  then obtain g where g: "op f = Some (x, g)" "fb_put_at f bs g"
    using op by (auto simp: writes_def)
  then obtain h where h: "k x g = Some (y, h)" "fb_put_at g cs h"
    using k f room by (auto simp: writes_def fb_put_at_def)
  show "\<exists>f'. (do { (x, g) \<leftarrow> op f; k x g }) = Some (y, f') \<and> fb_put_at f (bs @ cs) f'"
    using g h put_at_append [OF f(1) g(2) h(2)] by auto
qed

lemma writes_bind_nil:
  assumes "writes le bs op x" and "writes le [] (k x) y"
  shows "writes le bs (\<lambda>f. do { (x, g) \<leftarrow> op f; k x g }) y"
  using writes_bind [where k = k and cs = "[]" and bs = bs and op = op, OF assms] by simp

context field_codec
begin

lemma writes_put: "writes le (enc le v) (\<lambda>f. put f v) width"
proof (rule writesI)
  fix f
  assume f: "fb_inv f" "fb_is_littleendian f = le"
    and room: "fb_index f + length (enc le v) \<le> ETCH_MAX_FLEXBUFSIZE"
  then have "fb_index f + width \<le> fb_capacity f"
    using capacity_max [of f] by (simp add: enc_length)
  from put_room [OF f(1) this, of v] f(2)
  show "\<exists>f'. put f v = Some (width, f') \<and> fb_put_at f (enc le v) f'" by blast
qed

lemma writes_number: "writes le (enc le v) (put_number put (Some v)) 0"
proof -
  have "width \<noteq> 0" using width_bounds by simp
  then have "writes le (enc le v) (\<lambda>f. do { (n, g) \<leftarrow> put f v; Some (if n \<noteq> 0 then 0 else - 1 :: int, g) }) 0"
    using writes_bind_nil [OF writes_put [of le v], of "\<lambda>n g. Some (if n \<noteq> 0 then 0 else - 1 :: int, g)" 0]
    by (simp add: writes_return)
  moreover have "put_number put (Some v) = (\<lambda>f. do { (n, g) \<leftarrow> put f v; Some (if n \<noteq> 0 then 0 else - 1 :: int, g) })"
    by (simp add: fun_eq_iff put_number_def)
  ultimately show ?thesis by simp
qed

end

lemma writes_byte:
  assumes "writes le bs (k 1) y"
  shows "writes le (b # bs) (\<lambda>f. do { (n, g) \<leftarrow> etch_flexbuf_put_byte f b; k n g }) y"
  using writes_bind [where k = k, OF byte_codec.writes_put [of le b] assms] by simp

lemma writes_block:
  "n \<le> length bs \<Longrightarrow> writes le (take n bs) (\<lambda>f. etch_flexbuf_put f bs 0 n) n"
proof (rule writesI)
  fix f
  assume n: "n \<le> length bs" and f: "fb_inv f"
    and room: "fb_index f + length (take n bs) \<le> ETCH_MAX_FLEXBUFSIZE"
  show "\<exists>f'. etch_flexbuf_put f bs 0 n = Some (n, f') \<and> fb_put_at f (take n bs) f'"
  proof (cases "n = 0")
    case True
    then show ?thesis using put_at_nil [OF f] by (simp add: etch_flexbuf_put_def)
  next
    case False
    have "fb_index f + n \<le> fb_capacity f" using room n capacity_max [of f] by simp
    from put_room [OF f _ this, of 0 bs] False n show ?thesis by simp
  qed
qed

section \<open>Integers, types, byte vectors, strings\<close>

lemma writes_tagged:
  assumes "writes le bs (\<lambda>f. put f v) (w :: nat)"
  shows "writes le (tc # bs) (\<lambda>f. do { (n, g) \<leftarrow> etch_flexbuf_put_byte f tc;
    if n = 1 then put g v else Some (0, g) }) w"
  by (rule writes_byte) (simp add: assms)

lemma writes_rawint: "writes le (wire_int le (sint v)) (\<lambda>f. bintdo_write_value_rawint f v) 0"
proof -
  let ?put = "\<lambda>f. (if is_inrange_tiny (sint v) then etch_flexbuf_put_byte f (ucast v)
        else if is_inrange_byte (sint v)
        then do { (n, f) \<leftarrow> etch_flexbuf_put_byte f ETCH_XTRNL_TYPECODE_BYTE;
          (if n = 1 then etch_flexbuf_put_byte f (ucast v) else Some (0, f)) }
        else if is_inrange_int16 (sint v)
        then do { (n, f) \<leftarrow> etch_flexbuf_put_byte f ETCH_XTRNL_TYPECODE_SHORT;
          (if n = 1 then etch_flexbuf_put_short f (ucast v) else Some (0, f)) }
        else do { (n, f) \<leftarrow> etch_flexbuf_put_byte f ETCH_XTRNL_TYPECODE_INT;
          (if n = 1 then etch_flexbuf_put_int f v else Some (0, f)) })"
  have u: "(scast v :: byte) = ucast v" "(scast v :: int16) = ucast v"
    by (simp_all add: ucast_word_of_sint)
  define w :: nat where
    "w = (if is_inrange_byte (sint v) then 1 else if is_inrange_int16 (sint v) then 2 else 4)"
  have w: "writes le (wire_int le (sint v)) ?put w" unfolding w_def
    using sint_range_size [of v] byte_codec.writes_put [of le "ucast v"]
      writes_tagged [where put = etch_flexbuf_put_byte, OF byte_codec.writes_put [of le "ucast v"],
        of ETCH_XTRNL_TYPECODE_BYTE]
      writes_tagged [where put = etch_flexbuf_put_short, OF short_codec.writes_put [of le "ucast v"],
        of ETCH_XTRNL_TYPECODE_SHORT]
      writes_tagged [where put = etch_flexbuf_put_int, OF int_codec.writes_put [of le "v"],
        of ETCH_XTRNL_TYPECODE_INT]
    by (auto simp: wire_int_def is_inrange_tiny_def is_inrange_byte_def is_inrange_int16_def
        u word_size)
  have w0: "w \<noteq> 0" by (simp add: w_def)
  have "writes le (wire_int le (sint v))
      (\<lambda>f. do { (nout, g) \<leftarrow> ?put f; Some (if nout \<noteq> 0 then 0 else - 1, g) }) (0 :: int)"
    by (rule writes_bind_nil [OF w]) (simp add: w0 writes_return)
  then show ?thesis by (simp only: bintdo_write_value_rawint_def)
qed

lemma sint_of_nat32: "n < 2147483648 \<Longrightarrow> sint (word_of_nat n :: int32) = int n"
  using sint_word_of_int [where 'a = 32, of "int n"] by simp

lemma writes_count:
  assumes "n < 2147483648"
  shows "writes le (wire_int le (int n)) (\<lambda>f. bintdo_write_value_rawint f (word_of_nat n)) 0"
  using writes_rawint [of le "word_of_nat n"] by (simp add: sint_of_nat32 assms)

lemma writes_bytes_from:
  assumes "length bs < 2147483648"
  shows "writes le (wire_int le (int (length bs)) @ bs) (\<lambda>f. bintdo_write_bytes_from f bs) 0"
proof -
  have "writes le bs (\<lambda>f. do { (nout, g) \<leftarrow> etch_flexbuf_put f bs 0 (length bs);
      Some (if nout = length bs then 0 else - 1 :: int, g) }) 0"
    using writes_block [of "length bs" bs le]
    by (intro writes_bind_nil) (auto simp: writes_return)
  from writes_bind [where k = "\<lambda>_ g. do { (nout, g) \<leftarrow> etch_flexbuf_put g bs 0 (length bs);
      Some (if nout = length bs then 0 else - 1 :: int, g) }", OF writes_count [OF assms] this]
  show ?thesis by (simp only: bintdo_write_bytes_from_def Let_def)
qed

lemma writes_string:
  assumes "length cs < 2147483648" and "cs \<noteq> []"
    and s: "ev_wire_bytes ev s = cs @ replicate (ev_terminator ev) 0"
  shows "writes le (wire_int le (int (length cs)) @ cs) (\<lambda>f. bintdo_write_string ev f s) 0"
proof -
  let ?put = "\<lambda>g. do { (nout, g) \<leftarrow> etch_flexbuf_put g (ev_wire_bytes ev s) 0 (length cs);
      Some (if nout = length cs then 0 else - 1 :: int, g) }"
  have "writes le cs ?put 0"
    using writes_block [of "length cs" "ev_wire_bytes ev s" le] s
    by (intro writes_bind_nil) (auto simp: writes_return)
  from writes_bind [where k = "\<lambda>_. ?put", OF writes_count [OF assms(1)] this]
  show ?thesis using assms(2) by (simp add: bintdo_write_string_def Let_def s)
qed

lemma writes_type:
  "types t = Some ty \<Longrightarrow> ty_id ty = t \<Longrightarrow> writes le (wire_int le (sint t)) (\<lambda>f. bintdo_write_type f (types t)) 0"
  using writes_rawint [of le t] by (simp add: bintdo_write_type_def)

lemma writes_start_struct:
  assumes "types t = Some ty" and "ty_id ty = t" and "length items < 2147483648"
  shows "writes le (wire_int le (sint t) @ wire_int le (int (length items)))
    (\<lambda>f. bintdo_start_struct types (t, items) f) 0"
  unfolding bintdo_start_struct_def
  by (rule writes_bind [where x = 0])
     (simp_all add: writes_type [where types = types, OF assms(1,2)] writes_count [OF assms(3)])


section \<open>Values\<close>

declare bintdo_write_value.simps [simp del]

text \<open>The part of \<open>bintdo_write_value\<close> behind the tag.\<close>

lemma writes_ext:
  assumes "\<And>f. op f = op' f" and "writes le bs op' x"
  shows "writes le bs op x"
  using assms by (simp add: writes_def)

lemma writes_value_tag:
  assumes "\<not> write_validation_fails ev vw v x"
    and "etchtagdata_check_value ev x = tc"
    and "writes le bs (\<lambda>f. if tc = ETCH_XTRNL_TYPECODE_NULL \<or> tc = ETCH_XTRNL_TYPECODE_NONE
                 \<or> tc = ETCH_XTRNL_TYPECODE_EMPTY_STRING
                 \<or> tc = ETCH_XTRNL_TYPECODE_BOOLEAN_FALSE \<or> tc = ETCH_XTRNL_TYPECODE_BOOLEAN_TRUE
         then Some (0, f)
         else if tc = ETCH_XTRNL_TYPECODE_BYTE
         then put_number etch_flexbuf_put_byte (etchtagdata_byte_value ev x) f
         else if tc = ETCH_XTRNL_TYPECODE_INT
         then put_number etch_flexbuf_put_int (etchtagdata_int32_value ev x) f
         else if tc = ETCH_XTRNL_TYPECODE_LONG
         then put_number etch_flexbuf_put_long (etchtagdata_int64_value ev x) f
         else if tc = ETCH_XTRNL_TYPECODE_SHORT
         then put_number etch_flexbuf_put_short (etchtagdata_int16_value ev x) f
         else if tc = ETCH_XTRNL_TYPECODE_DOUBLE
         then put_number etch_flexbuf_put_double (etchtagdata_double_value ev x) f
         else if tc = ETCH_XTRNL_TYPECODE_FLOAT
         then put_number etch_flexbuf_put_float (etchtagdata_float_value ev x) f
         else if tc = ETCH_XTRNL_TYPECODE_BYTES
         then (case x of
                 EBytes bs \<Rightarrow> bintdo_write_bytes_from f bs
               | EArray a xs \<Rightarrow>
                   (case av_natarray a of None \<Rightarrow> None | Some bs \<Rightarrow> bintdo_write_bytes_from f bs)
               | _ \<Rightarrow> None)
         else if tc = ETCH_XTRNL_TYPECODE_ARRAY
         then (case x of
                 EArray a xs \<Rightarrow>
                   bintdo_write_array types (bintdo_write_value ev types vw m) a xs v f
               | _ \<Rightarrow> None)
         else if tc = ETCH_XTRNL_TYPECODE_STRING
         then (case x of EString s \<Rightarrow> bintdo_write_string ev f s | _ \<Rightarrow> None)
         else if tc = ETCH_XTRNL_TYPECODE_CUSTOM
         then (case ev_export ev x of
                 None \<Rightarrow> Some (- 1, f)
               | Some sv \<Rightarrow>
                   bintdo_write_struct types (bintdo_write_value ev types vw m) sv f)
         else Some (if is_inrange_tiny_for_signed_chars tc then 0 else - 1, f)) 0"
  shows "writes le (tc # bs) (bintdo_write_value ev types vw (Suc m) v x) 0"
  apply (rule writes_ext [OF bintdo_write_value.simps(2)])
  apply (simp only: assms(1,2) if_False Let_def)
  apply (rule writes_byte)
  apply (simp only: simp_thms if_False)
  apply (rule assms(3))
  done

lemma validation_ok:
  "vtor_validate ev v x \<Longrightarrow> \<not> write_validation_fails ev vw (Some v) x"
  by (simp add: write_validation_fails_def)

lemma int64_words:
  assumes "sint (w :: int64) = i"
  shows "(ucast w :: byte) = word_of_int i" "(ucast w :: int16) = word_of_int i"
    "(ucast w :: int32) = word_of_int i" "w = word_of_int i"
  using assms by (auto simp: ucast_word_of_sint)

lemma writes_int_value:
  assumes num: "etchtagdata_get_number ev x = Some w" and i: "sint w = i"
    and tc: "etchtagdata_check_value ev x = hd (wire_int le i)"
    and ok: "\<not> write_validation_fails ev vw v x"
  shows "writes le (wire_int le i) (bintdo_write_value ev types vw (Suc m) v x) 0"
proof -
  note w = int64_words [OF i]
  note vals = etchtagdata_byte_value_def etchtagdata_int16_value_def etchtagdata_int32_value_def
    etchtagdata_int64_value_def
  consider "- 64 \<le> i" "i \<le> 127" | "\<not> - 64 \<le> i" "- 128 \<le> i"
    | "\<not> (- 128 \<le> i \<and> i \<le> 127)" "- 32768 \<le> i \<and> i \<le> 32767"
    | "\<not> (- 32768 \<le> i \<and> i \<le> 32767)" "- 2147483648 \<le> i \<and> i \<le> 2147483647"
    | "\<not> (- 2147483648 \<le> i \<and> i \<le> 2147483647)" by linarith
  then show ?thesis
  proof cases
    case 1
    then have "wire_int le i = [word_of_int i]" by (simp add: wire_int_def)
    moreover have "is_inrange_tiny_for_signed_chars (word_of_int i :: byte)"
      using 1 by (simp add: is_inrange_tiny_for_signed_chars_def)
    ultimately show ?thesis using tc tiny_not_typecode [OF 1]
      by (simp add: writes_value_tag [OF ok] typecode_defs writes_return)
  next
    case 2
    then have "wire_int le i = [ETCH_XTRNL_TYPECODE_BYTE, word_of_int i]" by (simp add: wire_int_def)
    then show ?thesis using tc byte_codec.writes_number [of le "word_of_int i"]
      by (simp add: writes_value_tag [OF ok] typecode_defs vals num w(1))
  next
    case 3
    then have "wire_int le i = ETCH_XTRNL_TYPECODE_SHORT # put_short_bytes le (word_of_int i)"
      by (auto simp: wire_int_def)
    then show ?thesis using tc short_codec.writes_number [of le "word_of_int i"]
      by (simp add: writes_value_tag [OF ok] typecode_defs vals num w(2))
  next
    case 4
    then have "wire_int le i = ETCH_XTRNL_TYPECODE_INT # put_int_bytes le (word_of_int i)"
      by (auto simp: wire_int_def)
    then show ?thesis using tc int_codec.writes_number [of le "word_of_int i"]
      by (simp add: writes_value_tag [OF ok] typecode_defs vals num w(3))
  next
    case 5
    then have "wire_int le i = ETCH_XTRNL_TYPECODE_LONG # put_long_bytes le (word_of_int i)"
      by (auto simp: wire_int_def)
    then show ?thesis using tc long_codec.writes_number [of le "word_of_int i"] w(4)
      by (simp add: writes_value_tag [OF ok] typecode_defs vals num)
  qed
qed


section \<open>The serializer implements the format\<close>

lemma float_double_check:
  "etchtagdata_float_value ev (EFloat u) = Some u" "etchtagdata_double_value ev (EDouble d) = Some d"
  by (simp_all add: etchtagdata_float_value_def etchtagdata_double_value_def)

lemma writes_nonevalue:
  "0 < m \<Longrightarrow> writes le [ETCH_XTRNL_TYPECODE_NONE]
    (\<lambda>f. bintdo_write_nonevalue (bintdo_write_value ev types vw m) f) 0"
proof -
  assume "0 < m"
  then obtain k where "m = Suc k" by (cases m) auto
  moreover have "writes le [ETCH_XTRNL_TYPECODE_NONE] (bintdo_write_value ev types vw (Suc k) (Some VEod) EEod) 0"
    by (rule writes_value_tag) (simp_all add: validation_ok writes_return)
  ultimately show ?thesis by (simp add: bintdo_write_nonevalue_def)
qed

lemma writes_struct:
  assumes t: "types t = Some ty" "ty_id ty = t" and len: "length items < 2147483648" and m: "0 < m"
    and kv: "writes le bs (\<lambda>f. bintdo_write_keys_values (bintdo_write_value ev types vw m) (Some ty) items 0 f) 0"
  shows "writes le (wire_int le (sint t) @ wire_int le (int (length items)) @ bs @ [ETCH_XTRNL_TYPECODE_NONE])
    (\<lambda>f. bintdo_write_struct types (bintdo_write_value ev types vw m) (t, items) f) 0"
proof -
  have "writes le ((wire_int le (sint t) @ wire_int le (int (length items))) @ bs @ [ETCH_XTRNL_TYPECODE_NONE])
    (\<lambda>f. bintdo_write_struct types (bintdo_write_value ev types vw m) (t, items) f) 0"
    unfolding bintdo_write_struct_def
    apply (rule writes_bind [OF writes_start_struct [where types = types, OF t len]])
    apply (simp add: t)
    apply (rule writes_bind [OF kv])
    apply (simp add: writes_nonevalue [OF m])
    done
  then show ?thesis by simp
qed

lemma alloc_array_header:
  "bintdi_alloc_array tc None d = Some a \<Longrightarrow>
     av_type_code a = tc \<and> av_dim a = d \<and> av_content_obj_type a \<noteq> ETCHTYPEB_BYTE"
  by (auto simp: bintdi_alloc_array_def bintdi_get_native_type_def ETCHTYPEB_BYTE_def
      ETCHTYPEB_PRIMITIVE_def ETCHTYPEB_ETCHOBJECT_def ETCHTYPEB_ARRAYVAL_def split: if_splits)

lemma writes_start_array:
  assumes a: "bintdi_alloc_array tc None (sint (d :: int32)) = Some a"
    and tc: "tc \<noteq> ETCH_XTRNL_TYPECODE_CUSTOM" and len: "n < 2147483648"
  shows "writes le (tc # wire_int le (sint d) @ wire_int le (int n))
    (\<lambda>f. bintdo_start_array types a n f) 0"
proof -
  note h = alloc_array_header [OF a]
  have "writes le ([tc] @ [] @ wire_int le (sint d) @ wire_int le (int n))
    (\<lambda>f. bintdo_start_array types a n f) 0"
    unfolding bintdo_start_array_def using h tc
    apply simp
    apply (rule writes_byte)
    apply (rule writes_bind [where x = 0])
     apply (simp add: writes_rawint)
    apply (rule writes_bind_nil [OF writes_count [OF len]])
    apply (simp add: writes_return)
    done
  then show ?thesis by simp
qed

lemma writes_array:
  assumes a: "bintdi_alloc_array tc None (sint (d :: int32)) = Some a"
    and tc: "tc \<noteq> ETCH_XTRNL_TYPECODE_CUSTOM" and len: "length xs < 2147483648" and m: "0 < m"
    and e: "element_validator v = Some e"
    and els: "writes le bs (\<lambda>f. bintdo_write_values (bintdo_write_value ev types vw m) (Some e) xs 0 f) 0"
  shows "writes le (tc # wire_int le (sint d) @ wire_int le (int (length xs)) @ bs @ [ETCH_XTRNL_TYPECODE_NONE])
    (\<lambda>f. bintdo_write_array types (bintdo_write_value ev types vw m) a xs (Some v) f) 0"
proof -
  have "writes le ((tc # wire_int le (sint d) @ wire_int le (int (length xs))) @ bs @ [ETCH_XTRNL_TYPECODE_NONE])
    (\<lambda>f. bintdo_write_array types (bintdo_write_value ev types vw m) a xs (Some v) f) 0"
    unfolding bintdo_write_array_def option.case e
    apply (rule writes_bind [OF writes_start_array [OF a tc len]])
    apply simp
    apply (rule writes_bind [OF els])
    apply (simp add: writes_nonevalue [OF m])
    done
  then show ?thesis by simp
qed

lemma writes_wire:
  shows writes_wire_value: "wire_value ev types le v x bs \<Longrightarrow> length bs \<le> m \<Longrightarrow>
      writes le bs (bintdo_write_value ev types vw m (Some v) x) 0"
    and writes_wire_items: "wire_items ev types le ty items bs \<Longrightarrow> length bs \<le> m \<Longrightarrow>
      writes le bs (\<lambda>f. bintdo_write_keys_values (bintdo_write_value ev types vw m) (Some ty) items 0 f) 0"
    and writes_wire_elems: "wire_elems ev types le e xs bs \<Longrightarrow> length bs \<le> m \<Longrightarrow>
      writes le bs (\<lambda>f. bintdo_write_values (bintdo_write_value ev types vw m) (Some e) xs 0 f) 0"
proof (induction arbitrary: m and m and m rule: wire_value_wire_items_wire_elems.inducts)
  case (items_cons ty k v x bs items cs)
  then have x: "writes le bs (bintdo_write_value ev types vw m (Some v) x) 0"
    and items: "writes le cs (\<lambda>f. bintdo_write_keys_values (bintdo_write_value ev types vw m) (Some ty) items 0 f) 0"
    by simp_all
  from items_cons.hyps(2) show ?case
    apply (simp add: bintdo_write_keys_values.simps)
    apply (rule writes_bind [OF writes_rawint])
    apply (rule writes_bind [OF x])
    apply (simp add: items)
    done
next
  case (elems_cons e x bs xs cs)
  then have x: "writes le bs (bintdo_write_value ev types vw m (Some e) x) 0"
    and xs: "writes le cs (\<lambda>f. bintdo_write_values (bintdo_write_value ev types vw m) (Some e) xs 0 f) 0"
    by simp_all
  show ?case
    apply (simp only: bintdo_write_values.simps)
    apply (rule writes_bind [OF x])
    apply (simp add: xs)
    done
next
  case (wire_array tc dim a xs v e bs)
  then obtain k where m: "m = Suc k" by (cases m) auto
  have "0 < k" and els: "writes le bs
      (\<lambda>f. bintdo_write_values (bintdo_write_value ev types vw k) (Some e) xs 0 f) 0"
    using wire_array.IH wire_array.prems m by auto
  from writes_array [where types = types, OF wire_array.hyps(1,3,5) this(1) wire_array.hyps(6) els]
  show ?case unfolding m
    using alloc_array_header [OF wire_array.hyps(1)]
    by (intro writes_value_tag) (simp_all add: validation_ok wire_array typecode_defs)
next
  case (wire_struct x t items ty v bs)
  then obtain k where m: "m = Suc k" by (cases m) auto
  have "0 < k" and kv: "writes le bs
      (\<lambda>f. bintdo_write_keys_values (bintdo_write_value ev types vw k) (Some ty) items 0 f) 0"
    using wire_struct.IH wire_struct.prems m by auto
  from writes_struct [where types = types, OF _ wire_struct.hyps(1,2) this] wire_struct
  show ?case unfolding m
    by (intro writes_value_tag)
       (simp_all add: validation_ok typecode_defs)
next
  case wire_false
  then obtain k where m: "m = Suc k" by (cases m) auto
  show ?case unfolding m
    by (intro writes_value_tag validation_ok wire_validates [OF wire_value_wire_items_wire_elems.wire_false])
       (simp_all add: writes_return)
next
  case wire_true
  then obtain k where m: "m = Suc k" by (cases m) auto
  show ?case unfolding m
    by (intro writes_value_tag validation_ok wire_validates [OF wire_value_wire_items_wire_elems.wire_true])
       (simp_all add: writes_return)
next
  case (wire_byte b)
  then obtain k where m: "m = Suc k" by (cases m) auto
  show ?case unfolding m
    by (rule writes_int_value [where w = "scast b"])
       (simp_all add: check_byte_wire sint_scast_up
         validation_ok [OF wire_validates [OF wire_value_wire_items_wire_elems.wire_byte]])
next
  case (wire_int16 n)
  then obtain k where m: "m = Suc k" by (cases m) auto
  show ?case unfolding m
    by (rule writes_int_value [where w = "scast n"])
       (simp_all add: check_short_wire sint_scast_up
         validation_ok [OF wire_validates [OF wire_value_wire_items_wire_elems.wire_int16]])
next
  case (wire_int32 i)
  then obtain k where m: "m = Suc k" by (cases m) auto
  show ?case unfolding m
    by (rule writes_int_value [where w = "scast i"])
       (simp_all add: check_integer_wire sint_scast_up
         validation_ok [OF wire_validates [OF wire_value_wire_items_wire_elems.wire_int32]])
next
  case (wire_int64 l)
  then obtain k where m: "m = Suc k" by (cases m) auto
  show ?case unfolding m
    by (rule writes_int_value [where w = l])
       (simp_all add: check_long_wire sint_scast_up
         validation_ok [OF wire_validates [OF wire_value_wire_items_wire_elems.wire_int64]])
next
  case (wire_float u)
  then obtain k where m: "m = Suc k" by (cases m) auto
  show ?case unfolding m
    by (intro writes_value_tag validation_ok wire_validates [OF wire_value_wire_items_wire_elems.wire_float])
       (simp_all add: float_double_check float_codec.writes_number typecode_defs)
next
  case (wire_double d)
  then obtain k where m: "m = Suc k" by (cases m) auto
  show ?case unfolding m
    by (intro writes_value_tag validation_ok wire_validates [OF wire_value_wire_items_wire_elems.wire_double])
       (simp_all add: float_double_check double_codec.writes_number typecode_defs)
next
  case wire_empty
  then obtain k where m: "m = Suc k" by (cases m) auto
  show ?case unfolding m
    by (intro writes_value_tag validation_ok
        wire_validates [OF wire_value_wire_items_wire_elems.wire_empty [OF wire_empty(1)]])
       (simp_all add: wire_empty(1) writes_return)
next
  case (wire_string s cs)
  then obtain k where m: "m = Suc k" by (cases m) auto
  have w: "wire_value ev types le (VString 0) (EString s)
      (ETCH_XTRNL_TYPECODE_STRING # wire_int le (int (length cs)) @ cs)"
    using wire_string by (intro wire_value_wire_items_wire_elems.wire_string) simp_all
  have "writes le (wire_int le (int (length cs)) @ cs) (\<lambda>f. bintdo_write_string ev f s) 0"
    using wire_string by (intro writes_string) simp_all
  with wire_string(1) show ?case unfolding m
    by (intro writes_value_tag validation_ok wire_validates [OF w])
       (use wire_string in \<open>simp_all add: typecode_defs\<close>)
next
  case (wire_bytes bs)
  then obtain k where m: "m = Suc k" by (cases m) auto
  show ?case unfolding m
    by (intro writes_value_tag validation_ok
        wire_validates [OF wire_value_wire_items_wire_elems.wire_bytes [OF wire_bytes(1)]])
       (simp_all add: writes_bytes_from [OF wire_bytes(1)] typecode_defs)
qed (simp_all add: writes_def put_at_nil)

text \<open>A message: any fuel that is at least the number of bytes is enough.\<close>

lemma writes_wire_message:
  assumes "wire_message ev types le t items bs" and "length bs \<le> m"
  shows "writes le bs (bintdo_write_message ev types vw m (t, items)) 0"
  using assms
proof (cases rule: wire_message.cases)
  case (message ty cs)
  have kv: "writes le cs (\<lambda>f. bintdo_write_keys_values (bintdo_write_value ev types vw m) (Some ty) items 0 f) 0"
    and m: "0 < m"
    using writes_wire_items [OF message(6)] assms(2) message(1) by auto
  have start: "writes le (ETCH_BINTAGDATA_CURRENT_VERSION # wire_int le (sint t) @ wire_int le (int (length items)))
      (\<lambda>f. bintdo_start_message types (t, items) f) 0"
    unfolding bintdo_start_message_def
    by (rule writes_byte) (rule writes_start_struct [where types = types, OF message(2,3,4)])
  have "writes le ((ETCH_BINTAGDATA_CURRENT_VERSION # wire_int le (sint t) @ wire_int le (int (length items)))
      @ cs @ [ETCH_XTRNL_TYPECODE_NONE]) (\<lambda>f. bintdo_write_message ev types vw m (t, items) f) 0"
    unfolding bintdo_write_message_def
    apply (rule writes_bind [OF start])
    apply (simp add: message(2))
    apply (rule writes_bind [OF kv])
    apply (simp add: writes_nonevalue [OF m])
    done
  then show ?thesis by (simp add: message(1) ETCH_BINTAGDATA_CURRENT_VERSION_def)
qed

end
