(* ===== verification/Packetizer.thy ===== *)
theory Packetizer
  imports FlexBuffer
begin

text \<open>
  The packetizer of \<open>src/main/transport/etch_packetizer.c\<close>: it cuts a byte stream that arrives
  in arbitrary pieces into packets and prepends packet headers on the way out.

  \<^item> The layers next to it are parameters of the operations: \<open>session_packet\<close> is the callback
    \<open>pzr->session->session_packet\<close> over the state \<open>'s\<close> of the session above (its return code is
    ignored by the C code), \<open>transport_data\<close> the callback of the connection below.
  \<^item> One iteration of the \<open>while(1)\<close> loop of \<open>etch_pktizer_session_data\<close> is \<open>pktizer_step\<close>; the
    loop itself carries fuel.  \<open>Diverges\<close> means that the fuel ran out, \<open>Fault\<close> an access outside
    a buffer or a failed \<open>ETCH_ASSERT\<close>.
\<close>


record etch_packetizer =
  pz_savebuf :: etch_flexbuffer
  pz_headersize :: nat
  pz_bodylength :: nat
  pz_maxpacketsize :: nat
  pz_is_wantheader :: bool

definition ETCH_PKTIZER_DEFMAXPKTSIZE :: int where
  "ETCH_PKTIZER_DEFMAXPKTSIZE = 10240"

definition ETCH_PKTIZER_HEADERSIZE :: int where
  "ETCH_PKTIZER_HEADERSIZE = 8"

definition ETCH_PKTIZER_SIG :: int32 where
  "ETCH_PKTIZER_SIG = 0xdeadbeef"

text \<open>\<open>(int) n\<close> for a \<open>size_t n\<close>.\<close>

definition int_of_size :: "nat \<Rightarrow> int" where
  "int_of_size n = sint (word_of_nat n :: int32)"

text \<open>
  The constructor, as far as it determines the state; \<open>new_object\<close> zeroes the rest.  The URL
  constructor \<open>new_packetizer_a\<close> passes the value of the term \<open>Packetizer.maxPktSize\<close>: the
  arguments here are the result of \<open>etchurl_get_integer_term\<close> and the value it stored.
\<close>

definition new_packetizer_b :: "(nat \<Rightarrow> byte) \<Rightarrow> int \<Rightarrow> etch_packetizer" where
  "new_packetizer_b junk maxpktsize =
     \<lparr>pz_savebuf = new_flexbuffer junk 0,
      pz_headersize = sz_of_int ETCH_PKTIZER_HEADERSIZE,
      pz_bodylength = 0,
      pz_maxpacketsize = sz_of_int (if maxpktsize > 0 then maxpktsize else ETCH_PKTIZER_DEFMAXPKTSIZE),
      pz_is_wantheader = True\<rparr>"

definition new_packetizer_a :: "(nat \<Rightarrow> byte) \<Rightarrow> int \<Rightarrow> int \<Rightarrow> etch_packetizer" where
  "new_packetizer_a junk result maxpktsize =
     (let maxpktsize = (if - 1 = result \<or> maxpktsize \<le> 0
                        then ETCH_PKTIZER_DEFMAXPKTSIZE else maxpktsize)
      in new_packetizer_b junk maxpktsize)"

section \<open>Outgoing packets\<close>

text \<open>
  The header is written over the eight bytes the caller reserved in front of the packet.  The
  results of the two puts are ignored.
\<close>

definition etch_pktizer_transport_packet ::
  "('t \<Rightarrow> etch_flexbuffer \<Rightarrow> (int \<times> 't \<times> etch_flexbuffer) option)
     \<Rightarrow> 't \<Rightarrow> etch_flexbuffer \<Rightarrow> (int \<times> 't \<times> etch_flexbuffer) option" where
  "etch_pktizer_transport_packet transport_data t fbuf =
     (let datalen = int_of_size (etch_flexbuf_avail fbuf)
      in if datalen < ETCH_PKTIZER_HEADERSIZE then Some (- 1, t, fbuf)
         else let saveindex = fb_index fbuf
              in do {
                (_, fbuf) \<leftarrow> etch_flexbuf_put_int fbuf ETCH_PKTIZER_SIG;
                (_, fbuf) \<leftarrow> etch_flexbuf_put_int fbuf
                               (word_of_int (datalen - ETCH_PKTIZER_HEADERSIZE));
                transport_data t (fbuf\<lparr>fb_index := saveindex\<rparr>)
              })"

section \<open>Incoming data\<close>

definition etch_pktizer_process_header ::
  "etch_packetizer \<Rightarrow> etch_flexbuffer \<Rightarrow> bool \<Rightarrow> (int \<times> etch_flexbuffer) option" where
  "etch_pktizer_process_header pzr fbuf is_reset = do {
     (signature, fbuf) \<leftarrow> etch_flexbuf_get_int fbuf;
     (if signature = None \<or> signature \<noteq> Some ETCH_PKTIZER_SIG then Some (- 1, fbuf)
      else do {
        (curlen, fbuf) \<leftarrow> etch_flexbuf_get_int fbuf;
        let fbuf = (if is_reset then etch_flexbuf_reset fbuf else fbuf);
        (case curlen of
           None \<Rightarrow> Some (- 1, fbuf)
         | Some w \<Rightarrow>
             Some (if sint w < 0 \<or> sint w > int_of_size (pz_maxpacketsize pzr) then - 1 else sint w,
                   fbuf))
      })
   }"

text \<open>
  One iteration.  The first component of the result is \<open>Some r\<close> when the function returns \<open>r\<close>
  in it, \<open>None\<close> when the loop goes on.  The branches are those of the C code, in its order.
\<close>

definition pktizer_read_header ::
  "etch_packetizer \<Rightarrow> etch_flexbuffer \<Rightarrow> (int option \<times> etch_packetizer \<times> etch_flexbuffer) option" where
  "pktizer_read_header pzr fbuf = do {
     (bytes_put, len, savebuf, fbuf) \<leftarrow>
       (if fb_datalen (pz_savebuf pzr) = 0
        then do {
          (len, fbuf) \<leftarrow> etch_pktizer_process_header pzr fbuf False;
          Some (1, len, pz_savebuf pzr, fbuf)
        }
        else let bytes_needed = ETCH_PKTIZER_HEADERSIZE - int_of_size (fb_datalen (pz_savebuf pzr))
             in do {
               (bytes_put, savebuf, fbuf) \<leftarrow>
                 etch_flexbuf_put_from (pz_savebuf pzr) fbuf (sz_of_int bytes_needed);
               (if bytes_put = 0 then Some (0, - 1, savebuf, fbuf)
                else do {
                  (len, savebuf) \<leftarrow>
                    etch_pktizer_process_header pzr (snd (etch_flexbuf_set_index savebuf 0)) True;
                  Some (bytes_put, len, savebuf, fbuf)
                })
             });
     let pzr = pzr\<lparr>pz_savebuf := savebuf\<rparr>;
     Some (if bytes_put = 0 \<or> sz_of_int len = sz_of_int (- 1) then (Some (- 1), pzr, fbuf)
           else if sz_of_int len = 0 then (None, pzr, fbuf)
           else (None, pzr\<lparr>pz_bodylength := sz_of_int len, pz_is_wantheader := False\<rparr>, fbuf))
   }"

definition pktizer_save_rest ::
  "etch_packetizer \<Rightarrow> etch_flexbuffer \<Rightarrow> (etch_packetizer \<times> etch_flexbuffer) option" where
  "pktizer_save_rest pzr fbuf = do {
     (_, savebuf, fbuf) \<leftarrow> etch_flexbuf_put_from (pz_savebuf pzr) fbuf ETCH_FLEXBUF_PUT_ALL;
     Some (pzr\<lparr>pz_savebuf := savebuf\<rparr>, fbuf)
   }"

definition pktizer_read_body ::
  "('s \<Rightarrow> etch_flexbuffer \<Rightarrow> ('s \<times> etch_flexbuffer) option)
     \<Rightarrow> etch_packetizer \<Rightarrow> etch_flexbuffer \<Rightarrow> 's
     \<Rightarrow> (int option \<times> etch_packetizer \<times> etch_flexbuffer \<times> 's) option" where
  "pktizer_read_body session_packet pzr fbuf s =
     (let savebuf = pz_savebuf pzr
      in if \<not> fb_datalen savebuf < pz_bodylength pzr then None
         else if fb_datalen savebuf = 0
         then let curlen = fb_datalen fbuf; curndx = fb_index fbuf;
                  fbuf = snd (etch_flexbuf_set_length fbuf (sz_add curndx (pz_bodylength pzr)))
              in do {
                (s, fbuf) \<leftarrow> session_packet s fbuf;
                let fbuf = snd (etch_flexbuf_set_length fbuf curlen);
                let fbuf = snd (etch_flexbuf_set_index fbuf (sz_add curndx (pz_bodylength pzr)));
                Some (None, pzr\<lparr>pz_is_wantheader := True\<rparr>, fbuf, s)
              }
         else let bytes_needed = int_of_size (sz_sub (pz_bodylength pzr) (fb_datalen savebuf))
              in do {
                (bytes_put, savebuf, fbuf) \<leftarrow> etch_flexbuf_put_from savebuf fbuf (sz_of_int bytes_needed);
                (if bytes_put \<le> 0 then Some (Some (- 1), pzr\<lparr>pz_savebuf := savebuf\<rparr>, fbuf, s)
                 else do {
                   (s, savebuf) \<leftarrow> session_packet s (snd (etch_flexbuf_set_index savebuf 0));
                   Some (None, pzr\<lparr>pz_savebuf := etch_flexbuf_reset savebuf, pz_is_wantheader := True\<rparr>,
                         fbuf, s)
                 })
              })"

definition pktizer_step ::
  "('s \<Rightarrow> etch_flexbuffer \<Rightarrow> ('s \<times> etch_flexbuffer) option)
     \<Rightarrow> etch_packetizer \<Rightarrow> etch_flexbuffer \<Rightarrow> 's
     \<Rightarrow> (int option \<times> etch_packetizer \<times> etch_flexbuffer \<times> 's) option" where
  "pktizer_step session_packet pzr fbuf s =
     (let fbuf_avail = etch_flexbuf_avail fbuf;
          bytes_avail = sz_add (fb_datalen (pz_savebuf pzr)) fbuf_avail
      in if 0 \<ge> fbuf_avail then Some (Some 0, pzr, fbuf, s)
         else if pz_is_wantheader pzr
         then if bytes_avail \<ge> nat ETCH_PKTIZER_HEADERSIZE
              then do {
                (r, pzr, fbuf) \<leftarrow> pktizer_read_header pzr fbuf;
                Some (r, pzr, fbuf, s)
              }
              else do {
                let savebuf = pz_savebuf pzr;
                (pzr, fbuf) \<leftarrow> pktizer_save_rest
                  (pzr\<lparr>pz_savebuf := snd (etch_flexbuf_set_index savebuf (fb_datalen savebuf))\<rparr>) fbuf;
                Some (None, pzr, fbuf, s)
              }
         else if bytes_avail \<ge> pz_bodylength pzr
         then pktizer_read_body session_packet pzr fbuf s
         else do {
           (pzr, fbuf) \<leftarrow> pktizer_save_rest pzr fbuf;
           Some (None, pzr, fbuf, s)
         })"

fun etch_pktizer_session_data ::
  "('s \<Rightarrow> etch_flexbuffer \<Rightarrow> ('s \<times> etch_flexbuffer) option)
     \<Rightarrow> nat \<Rightarrow> etch_packetizer \<Rightarrow> etch_flexbuffer \<Rightarrow> 's
     \<Rightarrow> (int \<times> etch_packetizer \<times> etch_flexbuffer \<times> 's) outcome" where
  "etch_pktizer_session_data session_packet 0 pzr fbuf s = Diverges"
| "etch_pktizer_session_data session_packet (Suc fuel) pzr fbuf s =
     (case pktizer_step session_packet pzr fbuf s of
        None \<Rightarrow> Fault
      | Some (Some r, pzr, fbuf, s) \<Rightarrow> Returns (r, pzr, fbuf, s)
      | Some (None, pzr, fbuf, s) \<Rightarrow>
          etch_pktizer_session_data session_packet fuel pzr fbuf s)"

end
