(* ===== verification/TcpConnection.thy ===== *)
theory TcpConnection
  imports Packetizer
begin

text \<open>
  The data path of a TCP connection, \<open>src/main/transport/etch_tcp_connection.c\<close>: sending a
  buffer, receiving into a buffer, and the loop of the receive thread.

  \<^item> The APR socket calls are parameters over the state \<open>'t\<close> of the socket.  \<open>apr_socket_send\<close>
    gets the memory that is readable from the pointer it is given and the length to send, and
    returns its status and the count it took; \<open>apr_socket_recv\<close> gets the length and returns its
    status and the bytes it stored.  Either may change \<open>cx_is_started\<close>, as another thread does
    that closes the connection during the call.
  \<^item> Event handlers only log on this path and are not modelled; neither are the socket timeouts
    (both callers pass 0).
  \<^item> \<open>Fault\<close> is an access beyond the allocated block, \<open>Diverges\<close> the end of the fuel.
\<close>

record 't etch_tcp_connection =
  cx_is_started :: bool
  cx_bufsize :: nat
  cx_socket :: 't

definition ETCH_CONX_DEFAULT_BUFSIZE :: nat where
  "ETCH_CONX_DEFAULT_BUFSIZE = 1024 * 32"

definition ETCH_THIS_END_CLOSED :: int where
  "ETCH_THIS_END_CLOSED = - 2"

definition ETCH_OTHER_END_CLOSED :: int where
  "ETCH_OTHER_END_CLOSED = - 3"

definition ETCH_SHUTDOWN_NOTIFIED :: int where
  "ETCH_SHUTDOWN_NOTIFIED = - 4"

definition APR_THIS_END_CLOSED :: apr_status where
  "APR_THIS_END_CLOSED = APR_ERROR 730053"

definition APR_OTHER_END_CLOSED :: apr_status where
  "APR_OTHER_END_CLOSED = APR_ERROR 730054"

text \<open>\<open>"$ETCHQUIT"\<close>\<close>

definition ETCH_SHUTDOWNSIGNAL :: "byte list" where
  "ETCH_SHUTDOWNSIGNAL = [0x24, 0x45, 0x54, 0x43, 0x48, 0x51, 0x55, 0x49, 0x54]"

section \<open>Sending\<close>

text \<open>The \<open>while\<close> loop; the result holds \<open>totalsent\<close>, \<open>remaining\<close> and the last status.\<close>

fun tcp_send_loop ::
  "('t etch_tcp_connection \<Rightarrow> byte list \<Rightarrow> nat \<Rightarrow> apr_status \<times> nat \<times> 't etch_tcp_connection)
     \<Rightarrow> nat \<Rightarrow> 't etch_tcp_connection \<Rightarrow> byte list \<Rightarrow> nat \<Rightarrow> nat \<Rightarrow> nat \<Rightarrow> bool \<Rightarrow> apr_status
     \<Rightarrow> (nat \<times> nat \<times> apr_status \<times> 't etch_tcp_connection) outcome" where
  "tcp_send_loop apr_socket_send 0 conx buf totallen totalsent remaining is_eod arc = Diverges"
| "tcp_send_loop apr_socket_send (Suc fuel) conx buf totallen totalsent remaining is_eod arc =
     (if \<not> (cx_is_started conx \<and> \<not> is_eod \<and> remaining > 0)
      then Returns (totalsent, remaining, arc, conx)
      else let (arc, datalen, conx) = apr_socket_send conx (drop totalsent buf) totallen;
               is_eod = (arc = APR_EOF)
           in if totalsent + datalen > length buf then Fault
              else let totalsent = sz_add totalsent datalen; remaining = sz_sub remaining datalen
                   in if arc \<noteq> APR_SUCCESS \<and> \<not> is_eod
                      then Returns (totalsent, remaining, arc, conx)
                      else tcp_send_loop apr_socket_send fuel conx buf totallen
                             totalsent remaining is_eod arc)"

definition etch_tcpclient_sendex ::
  "('t etch_tcp_connection \<Rightarrow> byte list \<Rightarrow> nat \<Rightarrow> apr_status \<times> nat \<times> 't etch_tcp_connection)
     \<Rightarrow> nat \<Rightarrow> 't etch_tcp_connection \<Rightarrow> byte list \<Rightarrow> nat
     \<Rightarrow> (int \<times> apr_status \<times> 't etch_tcp_connection) outcome" where
  "etch_tcpclient_sendex apr_socket_send fuel conx buf totallen =
     (case tcp_send_loop apr_socket_send fuel conx buf totallen 0 totallen False APR_SUCCESS of
        Returns (totalsent, remaining, arc, conx) \<Rightarrow>
          Returns (if remaining > 0 then - 1 else 0, arc, conx)
      | Fault \<Rightarrow> Fault
      | Diverges \<Rightarrow> Diverges)"

definition etch_tcpconx_transport_data ::
  "('t etch_tcp_connection \<Rightarrow> byte list \<Rightarrow> nat \<Rightarrow> apr_status \<times> nat \<times> 't etch_tcp_connection)
     \<Rightarrow> nat \<Rightarrow> 't etch_tcp_connection \<Rightarrow> etch_flexbuffer
     \<Rightarrow> (int \<times> 't etch_tcp_connection \<times> etch_flexbuffer) outcome" where
  "etch_tcpconx_transport_data apr_socket_send fuel thisx fbuf =
     (case etch_tcpclient_sendex apr_socket_send fuel thisx (fb_buf fbuf) (fb_datalen fbuf) of
        Returns (result, apr_rc, thisx) \<Rightarrow> Returns (result, thisx, etch_flexbuf_reset fbuf)
      | Fault \<Rightarrow> Fault
      | Diverges \<Rightarrow> Diverges)"

section \<open>Receiving\<close>

text \<open>\<open>None\<close> when the socket stores more than the block holds.\<close>

definition etch_tcpclient_receivex ::
  "('t etch_tcp_connection \<Rightarrow> nat \<Rightarrow> apr_status \<times> byte list \<times> 't etch_tcp_connection)
     \<Rightarrow> 't etch_tcp_connection \<Rightarrow> byte list \<Rightarrow> nat
     \<Rightarrow> (int \<times> apr_status \<times> 't etch_tcp_connection \<times> byte list) option" where
  "etch_tcpclient_receivex apr_socket_recv tcpx buf buflen =
     (let (arc, bs, tcpx) = apr_socket_recv tcpx buflen; datalen = length bs
      in do {
        buf \<leftarrow> mem_write buf 0 bs;
        let result =
          (if arc \<noteq> APR_SUCCESS \<and> arc \<noteq> APR_EOF
           then (if arc = APR_OTHER_END_CLOSED then ETCH_OTHER_END_CLOSED
                 else if arc = APR_THIS_END_CLOSED then ETCH_THIS_END_CLOSED
                 else - 1)
           else if datalen = 0 then ETCH_OTHER_END_CLOSED
           else if datalen = length ETCH_SHUTDOWNSIGNAL
                   \<and> take (length ETCH_SHUTDOWNSIGNAL) buf = ETCH_SHUTDOWNSIGNAL
           then ETCH_SHUTDOWN_NOTIFIED
           else int_of_size datalen);
        Some (result, arc, tcpx, buf)
      })"

text \<open>
  The received data goes to the next layer, \<open>session->session_data\<close>, which is the packetizer;
  \<open>'p\<close> is the state of that layer and the ones above it.
\<close>

definition etch_tcpclient_on_data ::
  "('p \<Rightarrow> etch_flexbuffer \<Rightarrow> (int \<times> 'p \<times> etch_flexbuffer) outcome)
     \<Rightarrow> 'p \<Rightarrow> etch_flexbuffer \<Rightarrow> (int \<times> 'p \<times> etch_flexbuffer) outcome" where
  "etch_tcpclient_on_data session_data p data = session_data p data"

text \<open>
  The receive thread.  An iteration up to the data handler: the first component tells whether the
  loop is left, the second is the C variable \<open>result\<close>.
\<close>

definition tcp_receive_step ::
  "('t etch_tcp_connection \<Rightarrow> nat \<Rightarrow> apr_status \<times> byte list \<times> 't etch_tcp_connection)
     \<Rightarrow> nat \<Rightarrow> 't etch_tcp_connection \<Rightarrow> etch_flexbuffer
     \<Rightarrow> (bool \<times> int \<times> 't etch_tcp_connection \<times> etch_flexbuffer) option" where
  "tcp_receive_step apr_socket_recv blen tcpx fbuf = do {
     fbuf \<leftarrow> etch_flexbuf_clear fbuf;
     (result, arc, tcpx, buf) \<leftarrow> etch_tcpclient_receivex apr_socket_recv tcpx (fb_buf fbuf) blen;
     let fbuf = fbuf\<lparr>fb_buf := buf\<rparr>;
     let (result, tcpx) =
       (if result = ETCH_THIS_END_CLOSED \<or> result = ETCH_OTHER_END_CLOSED
        then (0, tcpx\<lparr>cx_is_started := False\<rparr>) else (result, tcpx));
     Some (if \<not> cx_is_started tcpx then (True, result, tcpx, fbuf)
           else if result < 0 then (True, result, tcpx, fbuf)
           else (False, result, tcpx, snd (etch_flexbuffer_reset_to fbuf (sz_of_int result))))
   }"

text \<open>The loop ignores what the data handler returns.\<close>

fun tcp_receiver_loop ::
  "('t etch_tcp_connection \<Rightarrow> nat \<Rightarrow> apr_status \<times> byte list \<times> 't etch_tcp_connection)
     \<Rightarrow> ('p \<Rightarrow> etch_flexbuffer \<Rightarrow> (int \<times> 'p \<times> etch_flexbuffer) outcome)
     \<Rightarrow> nat \<Rightarrow> nat \<Rightarrow> 't etch_tcp_connection \<Rightarrow> etch_flexbuffer \<Rightarrow> 'p \<Rightarrow> int
     \<Rightarrow> (int \<times> 't etch_tcp_connection \<times> 'p) outcome" where
  "tcp_receiver_loop apr_socket_recv session_data blen 0 tcpx fbuf p result = Diverges"
| "tcp_receiver_loop apr_socket_recv session_data blen (Suc fuel) tcpx fbuf p result =
     (if \<not> cx_is_started tcpx then Returns (result, tcpx, p)
      else case tcp_receive_step apr_socket_recv blen tcpx fbuf of
             None \<Rightarrow> Fault
           | Some (True, result, tcpx, fbuf) \<Rightarrow> Returns (result, tcpx, p)
           | Some (False, result, tcpx, fbuf) \<Rightarrow>
               if result > 0
               then (case etch_tcpclient_on_data session_data p fbuf of
                       Returns (_, p, fbuf) \<Rightarrow>
                         tcp_receiver_loop apr_socket_recv session_data blen fuel tcpx fbuf p result
                     | Fault \<Rightarrow> Fault
                     | Diverges \<Rightarrow> Diverges)
               else tcp_receiver_loop apr_socket_recv session_data blen fuel tcpx fbuf p result)"

definition etch_tcp_client_receiver_proc ::
  "('t etch_tcp_connection \<Rightarrow> nat \<Rightarrow> apr_status \<times> byte list \<times> 't etch_tcp_connection)
     \<Rightarrow> ('p \<Rightarrow> etch_flexbuffer \<Rightarrow> (int \<times> 'p \<times> etch_flexbuffer) outcome)
     \<Rightarrow> nat \<Rightarrow> (nat \<Rightarrow> byte) \<Rightarrow> 't etch_tcp_connection \<Rightarrow> 'p
     \<Rightarrow> (int \<times> 't etch_tcp_connection \<times> 'p) outcome" where
  "etch_tcp_client_receiver_proc apr_socket_recv session_data fuel junk tcpx p =
     (let blen = (if cx_bufsize tcpx \<noteq> 0 then cx_bufsize tcpx else ETCH_CONX_DEFAULT_BUFSIZE)
      in tcp_receiver_loop apr_socket_recv session_data blen fuel tcpx (new_flexbuffer junk blen) p 0)"

end
