(* ===== verification/Packetizer_Correct.thy ===== *)
theory Packetizer_Correct
  imports Packetizer FlexBuffer_Correct
begin

text \<open>
  The packetizer against its specification: a stream of bytes is a sequence of packets, each a
  header (signature and body length, four bytes each, big-endian) followed by its body.
  \<open>stream_packets\<close> cuts a complete byte string; the theorems say that the code, fed the same
  bytes in any pieces, delivers the same packets to the session above, and that what
  \<open>etch_pktizer_transport_packet\<close> sends is cut back into what was sent.
\<close>

section \<open>The specification\<close>

definition pkt_header :: "nat \<Rightarrow> byte list" where
  "pkt_header n = put_int_bytes False ETCH_PKTIZER_SIG @ put_int_bytes False (word_of_nat n)"

fun header_len :: "nat \<Rightarrow> byte list \<Rightarrow> nat option" where
  "header_len maxlen [b0, b1, b2, b3, b4, b5, b6, b7] =
     (let n = sint (get_int_value False b4 b5 b6 b7)
      in if get_int_value False b0 b1 b2 b3 = ETCH_PKTIZER_SIG \<and> 0 \<le> n \<and> n \<le> int maxlen
         then Some (nat n) else None)"
| "header_len _ _ = None"

datatype leftover = Partial "byte list" | Broken

function stream_packets :: "nat \<Rightarrow> byte list \<Rightarrow> byte list list \<times> leftover" where
  "stream_packets maxlen bs =
     (if length bs < 8 then ([], Partial bs)
      else case header_len maxlen (take 8 bs) of
             None \<Rightarrow> ([], Broken)
           | Some n \<Rightarrow>
               if length bs < 8 + n then ([], Partial bs)
               else let (ps, r) = stream_packets maxlen (drop (8 + n) bs)
                    in (if n = 0 then ps else take n (drop 8 bs) # ps, r))"
  by pat_completeness auto
termination
  by (relation "measure (\<lambda>(m, bs). length bs)") auto

declare stream_packets.simps [simp del]

lemma stream_short: "length bs < 8 \<Longrightarrow> stream_packets m bs = ([], Partial bs)"
  by (simp add: stream_packets.simps)

lemma stream_broken:
  "8 \<le> length bs \<Longrightarrow> header_len m (take 8 bs) = None \<Longrightarrow> stream_packets m bs = ([], Broken)"
  by (simp add: stream_packets.simps)

lemma stream_partial:
  "8 \<le> length bs \<Longrightarrow> header_len m (take 8 bs) = Some n \<Longrightarrow> length bs < 8 + n \<Longrightarrow>
     stream_packets m bs = ([], Partial bs)"
  by (simp add: stream_packets.simps)

lemma stream_packet:
  "header_len m (take 8 bs) = Some n \<Longrightarrow> 8 + n \<le> length bs \<Longrightarrow>
     stream_packets m (bs @ cs) = (let (ps, r) = stream_packets m (drop (8 + n) bs @ cs)
       in (if n = 0 then ps else take n (drop 8 bs) # ps, r))"
proof -
  assume h: "header_len m (take 8 bs) = Some n" and le: "8 + n \<le> length bs"
  then have body: "take n (drop 8 (bs @ cs)) = take n (drop 8 bs)" by simp
  show ?thesis unfolding stream_packets.simps [of m "bs @ cs"] using h le by (simp add: body split: prod.split)
qed

text \<open>Cutting is incremental: what is left over is all that the future depends on.\<close>

lemma stream_packets_append:
  "stream_packets m (bs @ cs) =
     (case stream_packets m bs of
        (ps, Broken) \<Rightarrow> (ps, Broken)
      | (ps, Partial rest) \<Rightarrow>
          (let (qs, r) = stream_packets m (rest @ cs) in (ps @ qs, r)))"
proof (induction m bs rule: stream_packets.induct)
  case (1 m bs)
  show ?case
  proof (cases "length bs < 8")
    case True
    then show ?thesis by (simp add: stream_short)
  next
    case long: False
    show ?thesis
    proof (cases "header_len m (take 8 bs)")
      case None
      with long show ?thesis
        using stream_broken [of bs m] stream_broken [of "bs @ cs" m] by simp
    next
      case (Some n)
      show ?thesis
      proof (cases "length bs < 8 + n")
        case True
        with long Some show ?thesis by (simp add: stream_partial)
      next
        case False
        with "1.IH" [OF long Some False] stream_packet [OF Some, of cs] stream_packet [OF Some, of "[]"]
        show ?thesis by (auto split: prod.splits leftover.splits)
      qed
    qed
  qed
qed

lemma sint_word_of_nat:
  assumes "n < 2147483648"
  shows "sint (word_of_nat n :: int32) = int n"
  using assms by (simp add: signed_of_nat signed_take_bit_int_eq_self)

lemma int_of_size_small: "n < 2147483648 \<Longrightarrow> int_of_size n = int n"
  by (simp add: int_of_size_def sint_word_of_nat)

lemma length_pkt_header [simp]: "length (pkt_header n) = 8"
  by (simp add: pkt_header_def)

lemma header_len_eq:
  "length h = 8 \<Longrightarrow> header_len m h =
     (let n = sint (get_int_value False (h ! 4) (h ! 5) (h ! 6) (h ! 7))
      in if get_int_value False (h ! 0) (h ! 1) (h ! 2) (h ! 3) = ETCH_PKTIZER_SIG
            \<and> 0 \<le> n \<and> n \<le> int m
         then Some (nat n) else None)"
  by (auto simp: numeral_eq_Suc length_Suc_conv)

lemma header_len_pkt_header:
  assumes "n \<le> m" and "n < 2147483648"
  shows "header_len m (pkt_header n) = Some n"
proof -
  have dec: "get_int_value False (put_int_bytes False v ! 0) (put_int_bytes False v ! 1)
      (put_int_bytes False v ! 2) (put_int_bytes False v ! 3) = v" for v
    using get_put_int [of False v] by (simp add: put_int_bytes_def)
  have "header_len m (pkt_header n) =
     (let n' = sint (word_of_nat n :: int32)
      in if 0 \<le> n' \<and> n' \<le> int m then Some (nat n') else None)"
    using dec [of ETCH_PKTIZER_SIG] dec [of "word_of_nat n"]
    by (simp add: header_len_eq pkt_header_def nth_append)
  then show ?thesis using assms by (simp add: sint_word_of_nat)
qed

section \<open>The invariant\<close>

definition pz_inv :: "etch_packetizer \<Rightarrow> bool" where
  "pz_inv z \<longleftrightarrow> fb_inv (pz_savebuf z) \<and> \<not> fb_is_littleendian (pz_savebuf z)
     \<and> fb_index (pz_savebuf z) = fb_datalen (pz_savebuf z)
     \<and> pz_maxpacketsize z \<le> ETCH_MAX_FLEXBUFSIZE
     \<and> (if pz_is_wantheader z then fb_datalen (pz_savebuf z) < 8
        else fb_datalen (pz_savebuf z) < pz_bodylength z \<and> pz_bodylength z \<le> pz_maxpacketsize z)"

text \<open>The bytes received and not delivered yet; a header already consumed is put back.\<close>

definition pz_pending :: "etch_packetizer \<Rightarrow> byte list" where
  "pz_pending z = (if pz_is_wantheader z then fb_data (pz_savebuf z)
                   else pkt_header (pz_bodylength z) @ fb_data (pz_savebuf z))"

definition be_inv :: "etch_flexbuffer \<Rightarrow> bool" where
  "be_inv f \<longleftrightarrow> fb_inv f \<and> \<not> fb_is_littleendian f"

lemma new_packetizer_b_inv:
  assumes "maxpktsize \<le> int ETCH_MAX_FLEXBUFSIZE"
  shows "pz_inv (new_packetizer_b junk maxpktsize)"
    and "pz_pending (new_packetizer_b junk maxpktsize) = []"
    and "0 < maxpktsize \<Longrightarrow> int (pz_maxpacketsize (new_packetizer_b junk maxpktsize)) = maxpktsize"
  using assms new_flexbuffer_inv [of junk 0]
  by (auto simp: new_packetizer_b_def pz_inv_def pz_pending_def ETCH_MAX_FLEXBUFSIZE_def
      sz_of_int_nonneg ETCH_PKTIZER_DEFMAXPKTSIZE_def)

lemma pz_bounds:
  assumes "pz_inv z"
  shows "pz_maxpacketsize z < 2147483648" and "fb_datalen (pz_savebuf z) \<le> 4194304"
    and "fb_data (pz_savebuf z) = [] \<longleftrightarrow> fb_datalen (pz_savebuf z) = 0"
    and "length (fb_data (pz_savebuf z)) = fb_datalen (pz_savebuf z)"
    and "fb_inv (pz_savebuf z)"
  using assms length_fb_data [of "pz_savebuf z"]
  by (auto simp: pz_inv_def ETCH_MAX_FLEXBUFSIZE_def split: if_splits)

lemma pending_partial:
  assumes "pz_inv z"
  shows "stream_packets (pz_maxpacketsize z) (pz_pending z) = ([], Partial (pz_pending z))"
proof (cases "pz_is_wantheader z")
  case True
  then show ?thesis using assms
    by (intro stream_short) (simp add: pz_pending_def pz_bounds(4) pz_inv_def)
next
  case False
  then have "pz_bodylength z \<le> pz_maxpacketsize z" and "pz_bodylength z < 2147483648"
    and "fb_datalen (pz_savebuf z) < pz_bodylength z"
    using assms pz_bounds(1) [OF assms] by (auto simp: pz_inv_def)
  then show ?thesis
    using False assms header_len_pkt_header
    by (intro stream_partial) (auto simp: pz_pending_def pz_bounds(4))
qed

section \<open>The header\<close>

lemma process_header_eq:
  assumes z: "pz_maxpacketsize z < 2147483648" and f: "be_inv f" and len: "8 \<le> length (fb_unread f)"
  shows "case header_len (pz_maxpacketsize z) (take 8 (fb_unread f)) of
      None \<Rightarrow> \<exists>f'. etch_pktizer_process_header z f r = Some (- 1, f')
    | Some n \<Rightarrow> n \<le> pz_maxpacketsize z \<and> etch_pktizer_process_header z f r
        = Some (int n, if r then etch_flexbuf_reset (f\<lparr>fb_index := fb_index f + 8\<rparr>)
                       else f\<lparr>fb_index := fb_index f + 8\<rparr>)"
proof -
  let ?u = "fb_unread f" and ?g = "f\<lparr>fb_index := fb_index f + 4\<rparr>"
  from f have inv: "fb_inv f" and be: "\<not> fb_is_littleendian f" by (auto simp: be_inv_def)
  have g: "fb_inv ?g" and gu: "fb_unread ?g = drop 4 ?u"
    using int_codec.advance_props [OF inv, of 4] len by auto
  have l4: "4 \<le> length (fb_unread ?g)" using gu len by simp
  note g1 = get_int_enough [OF inv] and g2 = get_int_enough [OF g l4]
  have nth: "fb_unread ?g ! i = ?u ! (4 + i)" if "i < 4" for i using gu len that by simp
  have h: "header_len (pz_maxpacketsize z) (take 8 ?u) =
     (let n = sint (get_int_value False (?u ! 4) (?u ! 5) (?u ! 6) (?u ! 7))
      in if get_int_value False (?u ! 0) (?u ! 1) (?u ! 2) (?u ! 3) = ETCH_PKTIZER_SIG
            \<and> 0 \<le> n \<and> n \<le> int (pz_maxpacketsize z)
         then Some (nat n) else None)"
    using len by (simp add: header_len_eq)
  show ?thesis
    unfolding etch_pktizer_process_header_def h int_of_size_small [OF z]
    using g1 g2 nth [of 0] nth [of 1] nth [of 2] nth [of 3] be len
    by (auto simp: Let_def nat_le_iff add.commute [of 8])
qed

lemma header_len_Some:
  assumes "header_len m h = Some n" and "m < 2147483648"
  shows "h = pkt_header n" and "n \<le> m"
proof -
  obtain b0 b1 b2 b3 b4 b5 b6 b7 where h: "h = [b0, b1, b2, b3, b4, b5, b6, b7]"
    using assms(1) by (cases "(m, h)" rule: header_len.cases) auto
  let ?v = "get_int_value False b4 b5 b6 b7"
  from assms(1) have sig: "get_int_value False b0 b1 b2 b3 = ETCH_PKTIZER_SIG"
    and n: "0 \<le> sint ?v" "sint ?v \<le> int m" "n = nat (sint ?v)"
    unfolding h by (auto simp: Let_def split: if_splits)
  then show "n \<le> m" by simp
  have "word_of_nat n = ?v" using n by simp
  then show "h = pkt_header n"
    using put_get_int [of False b0 b1 b2 b3] put_get_int [of False b4 b5 b6 b7] sig h
    by (simp add: pkt_header_def)
qed

lemma stream_pkt_header:
  assumes "n \<le> m" and "m < 2147483648" and "n \<le> length cs"
  shows "stream_packets m (pkt_header n @ cs) =
     (let (ps, r) = stream_packets m (drop n cs) in (if n = 0 then ps else take n cs # ps, r))"
  using stream_packet [of m "pkt_header n @ cs" n "[]"] header_len_pkt_header [of n m] assms
  by (simp split: prod.splits)

lemma be_invD: "be_inv f \<Longrightarrow> fb_inv f" "be_inv f \<Longrightarrow> \<not> fb_is_littleendian f"
  by (simp_all add: be_inv_def)

lemma be_inv_advance:
  assumes "be_inv f" and "n \<le> length (fb_unread f)"
  shows "be_inv (f\<lparr>fb_index := fb_index f + n\<rparr>)"
    and "fb_unread (f\<lparr>fb_index := fb_index f + n\<rparr>) = drop n (fb_unread f)"
  using int_codec.advance_props [of f n] assms by (auto simp: be_inv_def)

section \<open>Filling the save buffer\<close>

lemma save_put:
  assumes sv: "be_inv sv" "fb_index sv = fb_datalen sv" and f: "be_inv f"
    and n: "0 < n" "n \<le> length (fb_unread f)" and room: "fb_datalen sv + n \<le> ETCH_MAX_FLEXBUFSIZE"
  shows "\<exists>sv'. etch_flexbuf_put_from sv f n = Some (n, sv', f\<lparr>fb_index := fb_index f + n\<rparr>)
    \<and> be_inv sv' \<and> fb_index sv' = fb_datalen sv' \<and> fb_datalen sv' = fb_datalen sv + n
    \<and> fb_data sv' = fb_data sv @ take n (fb_unread f)"
proof -
  have "fb_index sv + n \<le> fb_capacity sv" using room sv(2) by (simp add: fb_capacity_def)
  then obtain sv' where p: "etch_flexbuf_put_from sv f n = Some (n, sv', f\<lparr>fb_index := fb_index f + n\<rparr>)"
    and at: "fb_put_at sv (take n (fb_unread f)) sv'"
    using put_from_room [OF be_invD(1) [OF sv(1)] be_invD(1) [OF f] n] by blast
  have len: "length (fb_data sv) = fb_index sv" using sv by (simp add: be_inv_def length_fb_data)
  then have data: "fb_data sv' = fb_data sv @ take n (fb_unread f)"
    using at by (simp add: fb_put_at_def)
  then have "fb_datalen sv' = fb_datalen sv + n"
    using length_fb_data [of sv'] len n sv at by (simp add: fb_put_at_def)
  with p data at sv n show ?thesis by (auto simp: fb_put_at_def be_inv_def)
qed

lemma pz_savebuf_be: "pz_inv z \<Longrightarrow> be_inv (pz_savebuf z) \<and> fb_index (pz_savebuf z) = fb_datalen (pz_savebuf z)"
  by (simp add: pz_inv_def be_inv_def)

lemma pktizer_save_rest_eq:
  assumes z: "pz_inv z" and f: "be_inv f" "fb_unread f \<noteq> []"
    and room: "fb_datalen (pz_savebuf z) + length (fb_unread f) \<le> ETCH_MAX_FLEXBUFSIZE"
  shows "\<exists>sv'. pktizer_save_rest z f
      = Some (z\<lparr>pz_savebuf := sv'\<rparr>, f\<lparr>fb_index := fb_index f + length (fb_unread f)\<rparr>)
    \<and> be_inv sv' \<and> fb_index sv' = fb_datalen sv'
    \<and> fb_datalen sv' = fb_datalen (pz_savebuf z) + length (fb_unread f)
    \<and> fb_data sv' = fb_data (pz_savebuf z) @ fb_unread f"
  using save_put [of "pz_savebuf z" f "length (fb_unread f)"] pz_savebuf_be [OF z] f room
    put_from_all [OF be_invD(1) [OF f(1)], of "pz_savebuf z"]
  by (auto simp: pktizer_save_rest_def)

section \<open>One iteration\<close>

lemma read_header_whole:
  assumes z: "pz_inv z" "pz_is_wantheader z" "fb_datalen (pz_savebuf z) = 0"
    and f: "be_inv f" "8 \<le> length (fb_unread f)"
  shows "case header_len (pz_maxpacketsize z) (take 8 (fb_unread f)) of
      None \<Rightarrow> \<exists>z' f'. pktizer_read_header z f = Some (Some (- 1), z', f')
    | Some n \<Rightarrow> pktizer_read_header z f
        = Some (None, if n = 0 then z else z\<lparr>pz_bodylength := n, pz_is_wantheader := False\<rparr>,
                f\<lparr>fb_index := fb_index f + 8\<rparr>)"
proof -
  note m = pz_bounds(1) [OF z(1)]
  have z': "z\<lparr>pz_savebuf := pz_savebuf z\<rparr> = z" by simp
  show ?thesis
  proof (cases "header_len (pz_maxpacketsize z) (take 8 (fb_unread f))")
    case None
    with process_header_eq [OF m f, of False] z(3) show ?thesis
      by (auto simp: pktizer_read_header_def)
  next
    case (Some n)
    then have n: "n < 2147483648" using header_len_Some(2) [OF Some m] m by simp
    then have "sz_of_int (int n) = n" by (simp add: sz_of_int_nonneg)
    moreover have "n \<noteq> sz_of_int (- 1)" using n by (simp add: sz_of_int_minus_one SIZE_MOD_def)
    ultimately show ?thesis
      using process_header_eq [OF m f, of False] z(3) Some
      by (auto simp: pktizer_read_header_def)
  qed
qed

lemma read_header_split:
  assumes z: "pz_inv z" "pz_is_wantheader z" "fb_datalen (pz_savebuf z) \<noteq> 0"
    and f: "be_inv f" "8 \<le> fb_datalen (pz_savebuf z) + length (fb_unread f)"
  defines "k \<equiv> 8 - fb_datalen (pz_savebuf z)"
  shows "case header_len (pz_maxpacketsize z) (fb_data (pz_savebuf z) @ take k (fb_unread f)) of
      None \<Rightarrow> \<exists>z' f'. pktizer_read_header z f = Some (Some (- 1), z', f')
    | Some n \<Rightarrow> \<exists>sv. be_inv sv \<and> fb_datalen sv = 0 \<and> fb_index sv = 0
        \<and> pktizer_read_header z f
        = Some (None, if n = 0 then z\<lparr>pz_savebuf := sv\<rparr>
                      else z\<lparr>pz_savebuf := sv, pz_bodylength := n, pz_is_wantheader := False\<rparr>,
                f\<lparr>fb_index := fb_index f + k\<rparr>)"
proof -
  note m = pz_bounds(1) [OF z(1)] and be = pz_savebuf_be [OF z(1)]
  let ?sv = "pz_savebuf z"
  have d: "fb_datalen ?sv < 8" using z by (simp add: pz_inv_def)
  then have k: "0 < k" "k \<le> length (fb_unread f)" "fb_datalen ?sv + k = 8"
    using f(2) by (auto simp: k_def)
  obtain sv' where p: "etch_flexbuf_put_from ?sv f k = Some (k, sv', f\<lparr>fb_index := fb_index f + k\<rparr>)"
    and be': "be_inv sv'" and i: "fb_datalen sv' = 8"
    and data: "fb_data sv' = fb_data ?sv @ take k (fb_unread f)"
    using save_put [of ?sv f k] be f k by (auto simp: ETCH_MAX_FLEXBUFSIZE_def)
  let ?g = "sv'\<lparr>fb_index := 0\<rparr>"
  have g: "be_inv ?g" and gu: "fb_unread ?g = fb_data ?sv @ take k (fb_unread f)"
    using be' data by (auto simp: be_inv_def fb_inv_def fb_unread_def fb_data_def)
  have si: "snd (etch_flexbuf_set_index sv' 0) = ?g" by (simp add: etch_flexbuf_set_index_def)
  have len: "length (fb_unread ?g) = 8" using gu k z pz_bounds(4) [OF z(1)] by simp
  have need: "sz_of_int (ETCH_PKTIZER_HEADERSIZE - int_of_size (fb_datalen ?sv)) = k"
    using d by (simp add: ETCH_PKTIZER_HEADERSIZE_def int_of_size_small sz_of_int_nonneg k_def)
  note ph = process_header_eq [OF m g, of True]
  have len8: "8 \<le> length (fb_unread ?g)" by (simp add: len)
  have "take 8 (fb_unread ?g) = fb_unread ?g" by (simp add: len)
  then have tk: "take 8 (fb_unread ?g) = fb_data ?sv @ take k (fb_unread f)" unfolding gu .
  have k0: "k \<noteq> 0" using k by simp
  have unf: "pktizer_read_header z f = do {
      (len, savebuf) \<leftarrow> etch_pktizer_process_header z ?g True;
      let z = z\<lparr>pz_savebuf := savebuf\<rparr>;
      Some (if sz_of_int len = sz_of_int (- 1) then (Some (- 1), z, f\<lparr>fb_index := fb_index f + k\<rparr>)
            else if sz_of_int len = 0 then (None, z, f\<lparr>fb_index := fb_index f + k\<rparr>)
            else (None, z\<lparr>pz_bodylength := sz_of_int len, pz_is_wantheader := False\<rparr>,
                  f\<lparr>fb_index := fb_index f + k\<rparr>)) }"
    unfolding pktizer_read_header_def Let_def need using z(3) p k0 si
    by (cases "etch_pktizer_process_header z ?g True") (auto simp: case_prod_beta)
  show ?thesis
  proof (cases "header_len (pz_maxpacketsize z) (fb_data ?sv @ take k (fb_unread f))")
    case None
    with ph [OF len8, unfolded tk] show ?thesis unfolding unf by auto
  next
    case (Some n)
    then have n: "n < 2147483648" using header_len_Some(2) [OF Some m] m by simp
    then have eq: "sz_of_int (int n) = n" by (simp add: sz_of_int_nonneg)
    have ne: "n \<noteq> sz_of_int (- 1)" using n by (simp add: sz_of_int_minus_one SIZE_MOD_def)
    let ?r = "etch_flexbuf_reset (?g\<lparr>fb_index := fb_index ?g + 8\<rparr>)"
    have r: "be_inv ?r" "fb_datalen ?r = 0" "fb_index ?r = 0"
      using g by (auto simp: be_inv_def fb_inv_def etch_flexbuf_reset_def)
    from ph [OF len8, unfolded tk] Some
    have "etch_pktizer_process_header z ?g True = Some (int n, ?r)" by simp
    then have "pktizer_read_header z f
        = Some (None, if n = 0 then z\<lparr>pz_savebuf := ?r\<rparr>
                      else z\<lparr>pz_savebuf := ?r, pz_bodylength := n, pz_is_wantheader := False\<rparr>,
                f\<lparr>fb_index := fb_index f + k\<rparr>)"
      unfolding unf using eq ne by (simp add: Let_def)
    then show ?thesis using r Some by auto
  qed
qed

section \<open>One iteration\<close>

text \<open>
  What the packetizer needs of the session above: it handles the packet it is shown (the unread
  bytes of the buffer), whatever it makes of it, and moves nothing of the buffer but the cursor.
\<close>

locale packet_session =
  fixes session_packet :: "'s \<Rightarrow> etch_flexbuffer \<Rightarrow> ('s \<times> etch_flexbuffer) option"
    and deliver :: "'s \<Rightarrow> byte list \<Rightarrow> 's"
  assumes session_packet: "be_inv f \<Longrightarrow>
      \<exists>i \<le> fb_datalen f. session_packet s f = Some (deliver s (fb_unread f), f\<lparr>fb_index := i\<rparr>)"

text \<open>An iteration that goes on: it consumes input, and accounts for every byte of it.\<close>

definition pz_advances ::
  "('s \<Rightarrow> byte list \<Rightarrow> 's) \<Rightarrow> etch_packetizer \<Rightarrow> etch_flexbuffer \<Rightarrow> 's
     \<Rightarrow> etch_packetizer \<Rightarrow> etch_flexbuffer \<Rightarrow> 's \<Rightarrow> bool" where
  "pz_advances deliver z f s z' f' s' \<longleftrightarrow>
     pz_inv z' \<and> be_inv f' \<and> pz_maxpacketsize z' = pz_maxpacketsize z
     \<and> length (fb_unread f') < length (fb_unread f) \<and> fb_bufsize f \<le> fb_bufsize f'
     \<and> (\<exists>ps. s' = foldl deliver s ps
         \<and> stream_packets (pz_maxpacketsize z) (pz_pending z @ fb_unread f)
           = (let (qs, r) = stream_packets (pz_maxpacketsize z) (pz_pending z' @ fb_unread f')
              in (ps @ qs, r)))"

text \<open>The iterations that deliver nothing and lose nothing.\<close>

lemma pz_advances_moved:
  assumes "pz_inv z'" and "be_inv f'" and "pz_maxpacketsize z' = pz_maxpacketsize z"
    and "length (fb_unread f') < length (fb_unread f)" and "fb_bufsize f \<le> fb_bufsize f'"
    and "pz_pending z' @ fb_unread f' = pz_pending z @ fb_unread f"
  shows "pz_advances deliver z f s z' f' s"
  unfolding pz_advances_def using assms by (auto intro: exI [of _ "[]"])

lemma pz_pending_simps:
  "pz_is_wantheader z \<Longrightarrow> pz_pending z = fb_data (pz_savebuf z)"
  "\<not> pz_is_wantheader z \<Longrightarrow> pz_pending z = pkt_header (pz_bodylength z) @ fb_data (pz_savebuf z)"
  by (simp_all add: pz_pending_def)

lemma fb_data_empty: "fb_datalen f = 0 \<Longrightarrow> fb_data f = []"
  by (simp add: fb_data_def)

text \<open>After a header: the new state, common to the two ways of reading it.\<close>

lemma header_advances:
  assumes z: "pz_inv z" "pz_is_wantheader z" and sv: "be_inv sv" "fb_datalen sv = 0" "fb_index sv = 0"
    and h: "header_len (pz_maxpacketsize z) h = Some n"
    and split: "pz_pending z @ fb_unread f = h @ fb_unread f'"
    and f: "be_inv f'" "length (fb_unread f') < length (fb_unread f)" "fb_bufsize f \<le> fb_bufsize f'"
  shows "pz_advances deliver z f s
     (if n = 0 then z\<lparr>pz_savebuf := sv\<rparr>
      else z\<lparr>pz_savebuf := sv, pz_bodylength := n, pz_is_wantheader := False\<rparr>) f' s"
proof (cases "n = 0")
  note m = pz_bounds(1) [OF z(1)]
  note hh = header_len_Some [OF h m]
  case True
  have "stream_packets (pz_maxpacketsize z) (h @ fb_unread f')
      = stream_packets (pz_maxpacketsize z) (fb_unread f')"
    using stream_pkt_header [of 0 "pz_maxpacketsize z" "fb_unread f'"] m hh(1) True
    by (simp split: prod.split)
  moreover have "pz_pending (z\<lparr>pz_savebuf := sv\<rparr>) = []"
    using z(2) sv by (simp add: pz_pending_simps fb_data_empty)
  ultimately show ?thesis
    using z sv f True unfolding pz_advances_def split
    by (auto simp: pz_inv_def be_inv_def intro: exI [of _ "[]"])
next
  note m = pz_bounds(1) [OF z(1)]
  note hh = header_len_Some [OF h m]
  case False
  then show ?thesis
    using z sv f hh split
    by (intro pz_advances_moved) (auto simp: pz_inv_def be_inv_def pz_pending_def fb_data_empty)
qed

lemma read_header_step:
  assumes z: "pz_inv z" "pz_is_wantheader z" and f: "be_inv f"
    and len: "8 \<le> fb_datalen (pz_savebuf z) + length (fb_unread f)"
  shows "(\<exists>z' f'. pktizer_read_header z f = Some (Some (- 1), z', f')
        \<and> stream_packets (pz_maxpacketsize z) (pz_pending z @ fb_unread f) = ([], Broken))
    \<or> (\<exists>z' f'. pktizer_read_header z f = Some (None, z', f') \<and> pz_advances deliver z f s z' f' s)"
proof -
  let ?sv = "pz_savebuf z" and ?m = "pz_maxpacketsize z"
  define k where "k = 8 - fb_datalen ?sv"
  have d: "fb_datalen ?sv < 8" using z by (simp add: pz_inv_def)
  then have k: "0 < k" "k \<le> length (fb_unread f)" using len by (auto simp: k_def)
  note adv = be_inv_advance [OF f k(2)]
  have ld: "length (fb_data ?sv) = fb_datalen ?sv" using pz_bounds(4) [OF z(1)] .
  have p: "pz_pending z = fb_data ?sv" using z(2) by (simp add: pz_pending_simps)
  have t8: "take 8 (pz_pending z @ fb_unread f) = fb_data ?sv @ take k (fb_unread f)"
    using d by (simp add: p ld k_def)
  have rd: "case header_len ?m (fb_data ?sv @ take k (fb_unread f)) of
      None \<Rightarrow> \<exists>z' f'. pktizer_read_header z f = Some (Some (- 1), z', f')
    | Some n \<Rightarrow> \<exists>sv. be_inv sv \<and> fb_datalen sv = 0 \<and> fb_index sv = 0
        \<and> pktizer_read_header z f
        = Some (None, if n = 0 then z\<lparr>pz_savebuf := sv\<rparr>
                      else z\<lparr>pz_savebuf := sv, pz_bodylength := n, pz_is_wantheader := False\<rparr>,
                f\<lparr>fb_index := fb_index f + k\<rparr>)"
  proof (cases "fb_datalen ?sv = 0")
    case True
    then have k8: "k = 8" and "fb_data ?sv = []" by (simp_all add: k_def fb_data_empty)
    moreover have "be_inv ?sv" "fb_index ?sv = 0" using pz_savebuf_be [OF z(1)] True by auto
    moreover have "z\<lparr>pz_savebuf := ?sv\<rparr> = z" by simp
    ultimately show ?thesis
      using read_header_whole [OF z True f] k True
      by (cases "header_len ?m (take 8 (fb_unread f))") (auto intro!: exI [of _ ?sv])
  next
    case False
    show ?thesis using read_header_split [OF z False f len, folded k_def] .
  qed
  show ?thesis
  proof (cases "header_len ?m (fb_data ?sv @ take k (fb_unread f))")
    case None
    have "stream_packets ?m (pz_pending z @ fb_unread f) = ([], Broken)"
      using stream_broken [of "pz_pending z @ fb_unread f" ?m, unfolded t8] len None
      by (simp add: p ld)
    with None rd show ?thesis by auto
  next
    case (Some n)
    with rd obtain sv where sv: "be_inv sv" "fb_datalen sv = 0" "fb_index sv = 0"
      and eq: "pktizer_read_header z f
        = Some (None, if n = 0 then z\<lparr>pz_savebuf := sv\<rparr>
                      else z\<lparr>pz_savebuf := sv, pz_bodylength := n, pz_is_wantheader := False\<rparr>,
                f\<lparr>fb_index := fb_index f + k\<rparr>)" by auto
    have sp: "pz_pending z @ fb_unread f = (fb_data ?sv @ take k (fb_unread f))
        @ fb_unread (f\<lparr>fb_index := fb_index f + k\<rparr>)"
      by (simp add: adv(2) p)
    have lt: "length (fb_unread (f\<lparr>fb_index := fb_index f + k\<rparr>)) < length (fb_unread f)"
      using k by (simp add: adv(2))
    have sz: "fb_bufsize f \<le> fb_bufsize (f\<lparr>fb_index := fb_index f + k\<rparr>)" by simp
    show ?thesis
      by (intro disjI2 exI conjI) (rule eq, rule header_advances [OF z sv Some sp adv(1) lt sz])
  qed
qed


text \<open>Changing the length inside the block never fails and moves no byte.\<close>

lemma set_length_inside:
  assumes inv: "fb_inv f" and n: "n \<le> fb_bufsize f"
  shows "\<exists>xs. snd (etch_flexbuf_set_length f n) = f\<lparr>fb_buf := fb_buf f @ xs,
      fb_bufsize := fb_bufsize f + length xs, fb_datalen := n, fb_index := min (fb_index f) n\<rparr>"
proof -
  obtain ok g where e: "etch_flexbuf_ensure_size f n = (ok, g)" by fastforce
  have ok: "ok" using ensure_size_props(7) [OF inv e] n by simp
  have "\<exists>xs. g = f\<lparr>fb_buf := fb_buf f @ xs, fb_bufsize := fb_bufsize f + length xs\<rparr>"
  proof (cases "(if n < ETCH_INIT_FLEXBUFSIZE then ETCH_INIT_FLEXBUFSIZE else n) \<le> fb_bufsize f")
    case True
    then have "g = f" using e by (auto simp: etch_flexbuf_ensure_size_def Let_def)
    then show ?thesis by (intro exI [of _ "[]"]) simp
  next
    case False
    then have r: "fb_bufsize f < ETCH_INIT_FLEXBUFSIZE" "n < ETCH_INIT_FLEXBUFSIZE"
      using n by (auto split: if_splits)
    let ?s = "flexbuf_grow ETCH_INIT_FLEXBUFSIZE (fb_bufsize f)"
    have le: "fb_bufsize f \<le> ?s"
      using grow_props [of ETCH_INIT_FLEXBUFSIZE "fb_bufsize f"] by (simp add: fb_limits)
    have "g = f\<lparr>fb_buf := take ?s (fb_buf f) @ map (fb_junk f) [length (fb_buf f)..<?s], fb_bufsize := ?s\<rparr>"
      using e r by (auto simp: etch_flexbuf_ensure_size_def Let_def fb_limits)
    then show ?thesis using le fb_invD(3) [OF inv]
      by (intro exI [of _ "map (fb_junk f) [length (fb_buf f)..<?s]"]) simp
  qed
  then show ?thesis using e ok by (auto simp: etch_flexbuf_set_length_def min_def)
qed

section \<open>Delivering a body\<close>

lemma read_body_whole:
  assumes h: "packet_session session_packet deliver"
    and z: "pz_inv z" "\<not> pz_is_wantheader z" "fb_datalen (pz_savebuf z) = 0"
    and f: "be_inv f" "pz_bodylength z \<le> length (fb_unread f)"
  shows "\<exists>f'. pktizer_read_body session_packet z f s
    = Some (None, z\<lparr>pz_is_wantheader := True\<rparr>, f',
        deliver s (take (pz_bodylength z) (fb_unread f)))
    \<and> be_inv f' \<and> fb_unread f' = drop (pz_bodylength z) (fb_unread f)
    \<and> fb_bufsize f \<le> fb_bufsize f'"
proof -
  let ?n = "pz_bodylength z" and ?e = "fb_index f + pz_bodylength z"
  have n: "0 < ?n" using z by (simp add: pz_inv_def)
  have inv: "fb_inv f" using f by (simp add: be_inv_def)
  note D = fb_invD [OF inv]
  have le: "?e \<le> fb_datalen f"
    using f(2) D(1) by (simp add: length_fb_unread [OF inv])
  have sa: "sz_add (fb_index f) ?n = ?e" using le D(5) by (simp add: sz_add_small)
  obtain xs where g: "snd (etch_flexbuf_set_length f ?e) = f\<lparr>fb_buf := fb_buf f @ xs,
      fb_bufsize := fb_bufsize f + length xs, fb_datalen := ?e\<rparr>" (is "_ = ?g")
    using set_length_inside [OF inv, of ?e] le D(2) by auto
  have ginv: "be_inv ?g"
    using set_length_props(1) [OF inv, of ?e] f(1) by (simp add: g be_inv_def)
  have gu: "fb_unread ?g = take ?n (fb_unread f)"
    using le D by (simp add: fb_unread_def fb_data_def drop_take min_def)
  obtain i where i: "i \<le> ?e" and sp: "session_packet s ?g = Some (deliver s (take ?n (fb_unread f)), ?g\<lparr>fb_index := i\<rparr>)"
    using packet_session.session_packet [OF h ginv, of s] by (auto simp: gu)
  let ?h = "?g\<lparr>fb_index := i\<rparr>"
  have hinv: "fb_inv ?h" using ginv i by (simp add: be_inv_def fb_inv_def)
  obtain ys where k: "snd (etch_flexbuf_set_length ?h (fb_datalen f)) = ?h\<lparr>fb_buf := fb_buf ?h @ ys,
      fb_bufsize := fb_bufsize ?h + length ys, fb_datalen := fb_datalen f, fb_index := min i (fb_datalen f)\<rparr>" (is "_ = ?k")
    using set_length_inside [OF hinv, of "fb_datalen f"] D(2) by auto
  have kinv: "fb_inv ?k" using set_length_props(1) [OF hinv, of "fb_datalen f"] unfolding k .
  have "snd (etch_flexbuf_set_index ?k ?e) = ?k\<lparr>fb_index := ?e\<rparr>" (is "_ = ?f'")
    using le by (simp add: etch_flexbuf_set_index_def)
  moreover have "be_inv ?f'" using kinv f(1) le by (auto simp: be_inv_def fb_inv_def)
  moreover have "fb_unread ?f' = drop ?n (fb_unread f)"
    using D by (simp add: fb_unread_def fb_data_def add.commute)
  moreover have "fb_bufsize f \<le> fb_bufsize ?f'" by simp
  moreover have "pktizer_read_body session_packet z f s
    = Some (None, z\<lparr>pz_is_wantheader := True\<rparr>, snd (etch_flexbuf_set_index ?k ?e),
        deliver s (take ?n (fb_unread f)))"
    unfolding pktizer_read_body_def Let_def sa g using z(3) n sp k by simp
  ultimately show ?thesis by metis
qed

lemma read_body_split:
  assumes h: "packet_session session_packet deliver"
    and z: "pz_inv z" "\<not> pz_is_wantheader z" "fb_datalen (pz_savebuf z) \<noteq> 0"
    and f: "be_inv f" "pz_bodylength z \<le> fb_datalen (pz_savebuf z) + length (fb_unread f)"
  defines "k \<equiv> pz_bodylength z - fb_datalen (pz_savebuf z)"
  shows "\<exists>sv. pktizer_read_body session_packet z f s
    = Some (None, z\<lparr>pz_savebuf := sv, pz_is_wantheader := True\<rparr>, f\<lparr>fb_index := fb_index f + k\<rparr>,
        deliver s (fb_data (pz_savebuf z) @ take k (fb_unread f)))
    \<and> be_inv sv \<and> fb_datalen sv = 0 \<and> fb_index sv = 0"
proof -
  let ?sv = "pz_savebuf z" and ?n = "pz_bodylength z"
  have lt: "fb_datalen ?sv < ?n" and n: "?n \<le> ETCH_MAX_FLEXBUFSIZE"
    using z by (auto simp: pz_inv_def)
  then have k: "0 < k" "k \<le> length (fb_unread f)" "fb_datalen ?sv + k = ?n"
    using f(2) by (auto simp: k_def)
  note be = pz_savebuf_be [OF z(1)]
  obtain sv' where p: "etch_flexbuf_put_from ?sv f k = Some (k, sv', f\<lparr>fb_index := fb_index f + k\<rparr>)"
    and be': "be_inv sv'" and data: "fb_data sv' = fb_data ?sv @ take k (fb_unread f)"
    using save_put [of ?sv f k] be f k n by auto
  let ?g = "sv'\<lparr>fb_index := 0\<rparr>"
  have g: "be_inv ?g" and gu: "fb_unread ?g = fb_data ?sv @ take k (fb_unread f)"
    using be' data by (auto simp: be_inv_def fb_inv_def fb_unread_def fb_data_def)
  have si: "snd (etch_flexbuf_set_index sv' 0) = ?g" by (simp add: etch_flexbuf_set_index_def)
  obtain i where sp: "session_packet s ?g = Some (deliver s (fb_unread ?g), ?g\<lparr>fb_index := i\<rparr>)"
    using packet_session.session_packet [OF h g, of s] by auto
  have n31: "?n < 2147483648" using n by (simp add: ETCH_MAX_FLEXBUFSIZE_def)
  then have "sz_sub ?n (fb_datalen ?sv) = k"
    using lt by (simp add: sz_sub_small k_def SIZE_MOD_def)
  then have need: "sz_of_int (int_of_size (sz_sub ?n (fb_datalen ?sv))) = k"
    using n31 k by (simp add: int_of_size_small sz_of_int_nonneg)
  have "pktizer_read_body session_packet z f s
    = Some (None, z\<lparr>pz_savebuf := etch_flexbuf_reset (?g\<lparr>fb_index := i\<rparr>), pz_is_wantheader := True\<rparr>,
        f\<lparr>fb_index := fb_index f + k\<rparr>, deliver s (fb_data ?sv @ take k (fb_unread f)))"
    unfolding pktizer_read_body_def Let_def need
    using z(3) lt p k(1) sp by (simp add: si gu)
  moreover have "be_inv (etch_flexbuf_reset (?g\<lparr>fb_index := i\<rparr>))"
    using g by (simp add: be_inv_def etch_flexbuf_reset_def fb_inv_def)
  ultimately show ?thesis by (auto simp: etch_flexbuf_reset_def)
qed

lemma body_advances:
  assumes z: "pz_inv z" "\<not> pz_is_wantheader z" and sv: "be_inv sv" "fb_datalen sv = 0" "fb_index sv = 0"
    and k: "k = pz_bodylength z - fb_datalen (pz_savebuf z)" "k \<le> length (fb_unread f)"
    and f: "be_inv f'" "fb_unread f' = drop k (fb_unread f)" "fb_bufsize f \<le> fb_bufsize f'"
  shows "pz_advances deliver z f s (z\<lparr>pz_savebuf := sv, pz_is_wantheader := True\<rparr>) f'
    (deliver s (fb_data (pz_savebuf z) @ take k (fb_unread f)))"
proof -
  let ?z = "z\<lparr>pz_savebuf := sv, pz_is_wantheader := True\<rparr>" and ?m = "pz_maxpacketsize z"
  have d: "fb_datalen (pz_savebuf z) < pz_bodylength z" "pz_bodylength z \<le> ?m"
    using z by (auto simp: pz_inv_def)
  note ld = pz_bounds(4) [OF z(1)]
  have "stream_packets ?m (pz_pending z @ fb_unread f) =
     (let (qs, r) = stream_packets ?m (drop k (fb_unread f))
      in ([fb_data (pz_savebuf z) @ take k (fb_unread f)] @ qs, r))"
    using stream_pkt_header [OF d(2) pz_bounds(1) [OF z(1)], of "fb_data (pz_savebuf z) @ fb_unread f"]
      d z(2) k ld by (simp add: pz_pending_simps)
  moreover have "pz_pending ?z = []" using sv by (simp add: pz_pending_simps fb_data_empty)
  moreover have "pz_inv ?z" using z sv by (simp add: pz_inv_def be_inv_def)
  ultimately show ?thesis
    using f k d unfolding pz_advances_def
    by (intro conjI exI [of _ "[fb_data (pz_savebuf z) @ take k (fb_unread f)]"]) auto
qed

lemma read_body_step:
  assumes h: "packet_session session_packet deliver"
    and z: "pz_inv z" "\<not> pz_is_wantheader z"
    and f: "be_inv f" "pz_bodylength z \<le> fb_datalen (pz_savebuf z) + length (fb_unread f)"
  shows "\<exists>z' f' s'. pktizer_read_body session_packet z f s = Some (None, z', f', s')
    \<and> pz_advances deliver z f s z' f' s'"
proof (cases "fb_datalen (pz_savebuf z) = 0")
  case True
  then have le: "pz_bodylength z \<le> length (fb_unread f)" using f by simp
  obtain f' where eq: "pktizer_read_body session_packet z f s
      = Some (None, z\<lparr>pz_is_wantheader := True\<rparr>, f', deliver s (take (pz_bodylength z) (fb_unread f)))"
    and f': "be_inv f'" "fb_unread f' = drop (pz_bodylength z) (fb_unread f)" "fb_bufsize f \<le> fb_bufsize f'"
    using read_body_whole [OF h z True f(1) le] by blast
  have sv: "be_inv (pz_savebuf z)" "fb_index (pz_savebuf z) = 0"
    using pz_savebuf_be [OF z(1)] True by auto
  have "pz_advances deliver z f s (z\<lparr>pz_is_wantheader := True\<rparr>) f'
      (deliver s (take (pz_bodylength z) (fb_unread f)))"
    using body_advances [OF z sv(1) True sv(2) _ le f', of deliver s] True
    by (simp add: fb_data_empty)
  with eq show ?thesis by blast
next
  case False
  let ?k = "pz_bodylength z - fb_datalen (pz_savebuf z)"
  have k: "?k \<le> length (fb_unread f)" using f by simp
  obtain sv where eq: "pktizer_read_body session_packet z f s
      = Some (None, z\<lparr>pz_savebuf := sv, pz_is_wantheader := True\<rparr>, f\<lparr>fb_index := fb_index f + ?k\<rparr>,
          deliver s (fb_data (pz_savebuf z) @ take ?k (fb_unread f)))"
    and sv: "be_inv sv" "fb_datalen sv = 0" "fb_index sv = 0"
    using read_body_split [OF h z False f] by blast
  have "pz_advances deliver z f s (z\<lparr>pz_savebuf := sv, pz_is_wantheader := True\<rparr>)
      (f\<lparr>fb_index := fb_index f + ?k\<rparr>) (deliver s (fb_data (pz_savebuf z) @ take ?k (fb_unread f)))"
    by (rule body_advances [OF z sv refl k be_inv_advance [OF f(1) k]]) simp
  with eq show ?thesis by blast
qed

section \<open>The loop\<close>

lemma save_rest_step:
  assumes z: "pz_inv z" and f: "be_inv f" "fb_unread f \<noteq> []"
    and small: "fb_datalen (pz_savebuf z) + length (fb_unread f)
        < (if pz_is_wantheader z then 8 else pz_bodylength z)"
  shows "\<exists>z' f'. pktizer_save_rest z f = Some (z', f') \<and> pz_advances deliver z f s z' f' s"
proof -
  have room: "fb_datalen (pz_savebuf z) + length (fb_unread f) \<le> ETCH_MAX_FLEXBUFSIZE"
    using small z by (auto simp: pz_inv_def ETCH_MAX_FLEXBUFSIZE_def split: if_splits)
  obtain sv where eq: "pktizer_save_rest z f
      = Some (z\<lparr>pz_savebuf := sv\<rparr>, f\<lparr>fb_index := fb_index f + length (fb_unread f)\<rparr>)"
    and sv: "be_inv sv" "fb_index sv = fb_datalen sv"
      "fb_datalen sv = fb_datalen (pz_savebuf z) + length (fb_unread f)"
      "fb_data sv = fb_data (pz_savebuf z) @ fb_unread f"
    using pktizer_save_rest_eq [OF z f room] by blast
  note adv = be_inv_advance [OF f(1) order_refl]
  have "pz_advances deliver z f s (z\<lparr>pz_savebuf := sv\<rparr>) (f\<lparr>fb_index := fb_index f + length (fb_unread f)\<rparr>) s"
    using z sv f(2) small adv
    by (intro pz_advances_moved) (auto simp: pz_inv_def be_inv_def pz_pending_def split: if_splits)
  with eq show ?thesis by blast
qed

lemma pktizer_step_cases:
  assumes h: "packet_session session_packet deliver" and z: "pz_inv z" and f: "be_inv f" "fb_unread f \<noteq> []"
  shows "(\<exists>z' f'. pktizer_step session_packet z f s = Some (Some (- 1), z', f', s)
        \<and> stream_packets (pz_maxpacketsize z) (pz_pending z @ fb_unread f) = ([], Broken))
    \<or> (\<exists>z' f' s'. pktizer_step session_packet z f s = Some (None, z', f', s')
        \<and> pz_advances deliver z f s z' f' s')"
proof -
  let ?sv = "pz_savebuf z"
  have inv: "fb_inv f" using f by (simp add: be_inv_def)
  have av: "etch_flexbuf_avail f = length (fb_unread f)" by (rule avail_length_unread [OF inv])
  have pos: "0 < length (fb_unread f)" using f by simp
  have "length (fb_unread f) \<le> OBJ_MAX" using fb_invD [OF inv] by (simp add: length_fb_unread [OF inv])
  then have "fb_datalen ?sv + length (fb_unread f) < SIZE_MOD"
    using pz_bounds(2) [OF z] by (simp add: OBJ_MAX_add OBJ_MAX_large)
  then have sa: "sz_add (fb_datalen ?sv) (length (fb_unread f)) = fb_datalen ?sv + length (fb_unread f)"
    by (rule sz_add_small)
  have si: "z\<lparr>pz_savebuf := snd (etch_flexbuf_set_index ?sv (fb_datalen ?sv))\<rparr> = z"
    using pz_savebuf_be [OF z] by (simp add: etch_flexbuf_set_index_def)
  have n8: "nat ETCH_PKTIZER_HEADERSIZE = 8" by (simp add: ETCH_PKTIZER_HEADERSIZE_def)
  note st = pktizer_step_def [of session_packet z f s, unfolded av sa Let_def n8 si]
  consider (hd) "pz_is_wantheader z" "8 \<le> fb_datalen ?sv + length (fb_unread f)"
    | (hd_save) "pz_is_wantheader z" "fb_datalen ?sv + length (fb_unread f) < 8"
    | (bd) "\<not> pz_is_wantheader z" "pz_bodylength z \<le> fb_datalen ?sv + length (fb_unread f)"
    | (bd_save) "\<not> pz_is_wantheader z" "fb_datalen ?sv + length (fb_unread f) < pz_bodylength z"
    by linarith
  then show ?thesis
  proof cases
    case hd
    then have "pktizer_step session_packet z f s = (do {
        (r, z', f') \<leftarrow> pktizer_read_header z f; Some (r, z', f', s) })" using pos st by simp
    with read_header_step [OF z hd(1) f(1) hd(2), of deliver s] show ?thesis by auto
  next
    case hd_save
    then have "pktizer_step session_packet z f s = (do {
        (z', f') \<leftarrow> pktizer_save_rest z f; Some (None, z', f', s) })" using pos st by simp
    with save_rest_step [OF z f, of deliver s] hd_save show ?thesis by auto
  next
    case bd
    then have "pktizer_step session_packet z f s = pktizer_read_body session_packet z f s"
      using pos st by simp
    with read_body_step [OF h z bd(1) f(1) bd(2), of s] show ?thesis by auto
  next
    case bd_save
    then have "pktizer_step session_packet z f s = (do {
        (z', f') \<leftarrow> pktizer_save_rest z f; Some (None, z', f', s) })" using pos st by simp
    with save_rest_step [OF z f, of deliver s] bd_save show ?thesis by auto
  qed
qed

text \<open>
  The result of a call, as the specification has it: \<open>r\<close> is the return code, \<open>rest\<close> what stays
  pending.
\<close>

lemma session_data_stream:
  assumes h: "packet_session session_packet deliver"
    and z: "pz_inv z" and f: "be_inv f" and fuel: "length (fb_unread f) < fuel"
    and m: "m = pz_maxpacketsize z"
    and spec: "stream_packets m (pz_pending z @ fb_unread f) = (ps, r)"
  shows "\<exists>z' f'. etch_pktizer_session_data session_packet fuel z f s
      = Returns (if r = Broken then - 1 else 0, z', f', foldl deliver s ps)
    \<and> (r \<noteq> Broken \<longrightarrow> pz_inv z' \<and> pz_maxpacketsize z' = m \<and> r = Partial (pz_pending z') \<and> be_inv f'
        \<and> fb_unread f' = [] \<and> fb_bufsize f \<le> fb_bufsize f')"
  using z f fuel m spec
proof (induction fuel arbitrary: z f s ps)
  case 0
  then show ?case by simp
next
  case (Suc fuel)
  show ?case
  proof (cases "fb_unread f = []")
    case True
    then have "etch_flexbuf_avail f = 0" using Suc.prems(2) by (simp add: be_inv_def avail_length_unread)
    moreover have "(ps, r) = ([], Partial (pz_pending z))"
      using pending_partial [OF Suc.prems(1)] Suc.prems(4,5) True by simp
    ultimately show ?thesis using Suc.prems True by (simp add: pktizer_step_def)
  next
    case False
    from pktizer_step_cases [OF h Suc.prems(1,2) False, of s] show ?thesis
    proof (elim disjE exE conjE)
      fix z' f' assume st: "pktizer_step session_packet z f s = Some (Some (- 1), z', f', s)"
        and "stream_packets (pz_maxpacketsize z) (pz_pending z @ fb_unread f) = ([], Broken)"
      then have "ps = [] \<and> r = Broken" using Suc.prems(4,5) by simp
      then show ?thesis using st by simp
    next
      fix z' f' s' assume st: "pktizer_step session_packet z f s = Some (None, z', f', s')"
        and adv: "pz_advances deliver z f s z' f' s'"
      obtain ps0 qs r' where s': "s' = foldl deliver s ps0"
        and q: "stream_packets m (pz_pending z' @ fb_unread f') = (qs, r')"
        and eq: "stream_packets m (pz_pending z @ fb_unread f) = (ps0 @ qs, r')"
        using adv Suc.prems(4) unfolding pz_advances_def
        by (cases "stream_packets m (pz_pending z' @ fb_unread f')") auto
      have "ps = ps0 @ qs" "r' = r" using eq Suc.prems(5) by auto
      moreover have "length (fb_unread f') < fuel" using adv Suc.prems(3) by (simp add: pz_advances_def)
      moreover have "pz_inv z'" "be_inv f'" "m = pz_maxpacketsize z'" and size: "fb_bufsize f \<le> fb_bufsize f'"
        using adv Suc.prems(4) by (auto simp: pz_advances_def)
      ultimately obtain z2 f2 where run: "etch_pktizer_session_data session_packet fuel z' f' s'
          = Returns (if r = Broken then - 1 else 0, z2, f2, foldl deliver s' qs)"
        and inv: "r \<noteq> Broken \<longrightarrow> pz_inv z2 \<and> pz_maxpacketsize z2 = m \<and> r = Partial (pz_pending z2)
          \<and> be_inv f2 \<and> fb_unread f2 = [] \<and> fb_bufsize f' \<le> fb_bufsize f2"
        using Suc.IH [of z' f' qs s'] q by auto
      have "foldl deliver s ps = foldl deliver s' qs" using \<open>ps = ps0 @ qs\<close> s' by simp
      with run st inv size show ?thesis
        by (intro exI [of _ z2] exI [of _ f2]) auto
    qed
  qed
qed

section \<open>Outgoing packets\<close>

text \<open>
  The header overwrites the eight bytes in front of the body; whatever the caller reserved, what
  reaches the transport is a framed packet.
\<close>

lemma transport_packet_framed:
  assumes f: "be_inv f" and n: "length (fb_unread f) = 8 + n" "8 + n < 2147483648"
  shows "\<exists>f'. etch_pktizer_transport_packet transport_data t f = transport_data t f'
    \<and> be_inv f' \<and> fb_index f' = fb_index f \<and> fb_unread f' = pkt_header n @ drop 8 (fb_unread f)
    \<and> take (fb_index f) (fb_data f') = take (fb_index f) (fb_data f)"
proof -
  from f have inv: "fb_inv f" and be: "\<not> fb_is_littleendian f" by (auto simp: be_inv_def)
  note D = fb_invD [OF inv]
  let ?i = "fb_index f"
  have dl: "fb_datalen f = ?i + 8 + n" using n D(1) by (simp add: length_fb_unread [OF inv])
  have ld: "length (fb_data f) = ?i + 8 + n" by (simp add: length_fb_data [OF inv] dl)
  have cap: "fb_datalen f \<le> fb_capacity f" using D(2) by (simp add: fb_capacity_def)
  have av: "int_of_size (etch_flexbuf_avail f) = 8 + int n"
    using n by (simp add: avail_length_unread [OF inv] int_of_size_small)
  obtain g where p1: "etch_flexbuf_put_int f ETCH_PKTIZER_SIG = Some (4, g)"
    and g: "fb_put_at f (put_int_bytes False ETCH_PKTIZER_SIG) g"
    using int_codec.put_room [OF inv, of ETCH_PKTIZER_SIG] cap dl be by auto
  have gi: "fb_inv g" "fb_index g = ?i + 4" "fb_is_littleendian g = fb_is_littleendian f"
    and gd: "fb_data g = take ?i (fb_data f) @ put_int_bytes False ETCH_PKTIZER_SIG
      @ drop (?i + 4) (fb_data f)"
    using g by (auto simp: fb_put_at_def)
  have "length (fb_data g) = ?i + 8 + n" by (simp add: gd ld)
  then have gl: "fb_datalen g = ?i + 8 + n" by (simp add: length_fb_data [OF gi(1)])
  have "fb_index g + 4 \<le> fb_capacity g" using gi(2) gl fb_invD(2) [OF gi(1)] by (simp add: fb_capacity_def)
  then obtain h where p2: "etch_flexbuf_put_int g (word_of_nat n) = Some (4, h)"
    and h: "fb_put_at g (put_int_bytes False (word_of_nat n)) h"
    using int_codec.put_room [OF gi(1), of "word_of_nat n"] gi(3) be by auto
  have hi: "fb_inv h" "fb_index h = ?i + 8" "fb_is_littleendian h = fb_is_littleendian f"
    and hd: "fb_data h = take (?i + 4) (fb_data g) @ put_int_bytes False (word_of_nat n)
      @ drop (8 + ?i) (fb_data g)"
    using h gi by (auto simp: fb_put_at_def)
  have data: "fb_data h = take ?i (fb_data f) @ pkt_header n @ drop (8 + ?i) (fb_data f)"
    by (simp add: hd gd ld pkt_header_def)
  let ?f' = "h\<lparr>fb_index := ?i\<rparr>"
  have f': "be_inv ?f'" using hi be by (auto simp: be_inv_def fb_inv_def)
  have "fb_unread ?f' = pkt_header n @ drop 8 (fb_unread f)"
    using data ld by (simp add: fb_unread_def fb_data_def add.commute)
  moreover have "take ?i (fb_data ?f') = take ?i (fb_data f)"
    using data ld by (simp add: fb_data_def)
  moreover have "etch_pktizer_transport_packet transport_data t f = transport_data t ?f'"
    using p1 p2 av by (simp add: etch_pktizer_transport_packet_def ETCH_PKTIZER_HEADERSIZE_def)
  ultimately show ?thesis using f' by (intro exI [of _ ?f']) simp
qed

section \<open>A full save buffer\<close>

text \<open>
  What the loop does when the save buffer cannot take the rest: the append is refused, its result
  is not looked at, and the next iteration starts from the same state.
\<close>

lemma full_savebuf_diverges:
  assumes sv: "fb_inv (pz_savebuf z)" and f: "fb_inv f" "fb_unread f \<noteq> []"
    and body: "\<not> pz_is_wantheader z"
    and more: "fb_datalen (pz_savebuf z) + length (fb_unread f) < pz_bodylength z"
    and full: "fb_capacity (pz_savebuf z) < fb_index (pz_savebuf z) + length (fb_unread f)"
  shows "etch_pktizer_session_data session_packet fuel z f s = Diverges"
proof -
  have n: "length (fb_unread f) \<le> OBJ_MAX"
    using fb_invD [OF f(1)] by (simp add: length_fb_unread [OF f(1)])
  moreover have "fb_datalen (pz_savebuf z) \<le> OBJ_MAX" using fb_invD [OF sv] by simp
  ultimately have sa: "sz_add (fb_datalen (pz_savebuf z)) (length (fb_unread f))
      = fb_datalen (pz_savebuf z) + length (fb_unread f)"
    by (intro sz_add_small OBJ_MAX_add)
  have "pktizer_save_rest z f = Some (z, f)"
    using put_from_all [OF f(1)] put_from_full [OF sv full n] by (simp add: pktizer_save_rest_def)
  then have step: "pktizer_step session_packet z f s = Some (None, z, f, s)"
    using body more f(2) by (simp add: pktizer_step_def avail_length_unread [OF f(1)] sa Let_def)
  show ?thesis by (induction fuel) (simp_all add: step)
qed

section \<open>Properties\<close>

text \<open>A session that only records the packets, for the examples.\<close>

lemma record_session:
  "be_inv f \<Longrightarrow> \<exists>i \<le> fb_datalen f. Some (s @ [fb_unread f], f) = Some (s @ [fb_unread f], f\<lparr>fb_index := i\<rparr>)"
  by (intro exI [of _ "fb_index f"]) (simp add: be_inv_def fb_inv_def)

text \<open>
  C6. The packetizer cuts the stream right: fed a buffer, in any reachable state, it terminates
  (with as much fuel as there are unread bytes), makes no out-of-bounds access, and delivers to
  the session exactly the packets that the specification finds in the pending bytes followed by
  the new ones, in order.  It returns 0, consumes the buffer and keeps the rest pending, unless
  the specification meets a bad header (wrong signature, negative length, length above the
  maximum): then it returns -1 after the packets in front of it.
\<close>

theorem pktizer_session_data_cuts_stream:
  assumes "\<And>s f. be_inv f \<Longrightarrow>
      \<exists>i \<le> fb_datalen f. session_packet s f = Some (deliver s (fb_unread f), f\<lparr>fb_index := i\<rparr>)"
    and "pz_inv z" and "be_inv f" and "length (fb_unread f) < fuel"
    and "stream_packets (pz_maxpacketsize z) (pz_pending z @ fb_unread f) = (ps, r)"
  shows "\<exists>z' f'. etch_pktizer_session_data session_packet fuel z f s
      = Returns (if r = Broken then - 1 else 0, z', f', foldl deliver s ps)
    \<and> (r \<noteq> Broken \<longrightarrow> pz_inv z' \<and> r = Partial (pz_pending z') \<and> fb_unread f' = [])"
proof -
  have h: "packet_session session_packet deliver" by unfold_locales (rule assms(1))
  show ?thesis using session_data_stream [OF h assms(2-4) refl assms(5), of s] by auto
qed

text \<open>
  Framing: given a buffer whose unread part is eight reserved bytes and a body of \<open>n\<close> bytes,
  \<open>etch_pktizer_transport_packet\<close> hands the transport a buffer with the same cursor whose unread
  part is a packet the specification (hence the receiving packetizer) cuts into exactly this
  body; the bytes in front of the cursor are kept.
\<close>

theorem pktizer_transport_packet_frames:
  assumes "be_inv f" and "length (fb_unread f) = 8 + n" and "n \<le> m" and "m \<le> ETCH_MAX_FLEXBUFSIZE"
    and "0 < n"
  shows "\<exists>f'. etch_pktizer_transport_packet transport_data t f = transport_data t f'
    \<and> be_inv f' \<and> fb_index f' = fb_index f
    \<and> stream_packets m (fb_unread f') = ([drop 8 (fb_unread f)], Partial [])
    \<and> take (fb_index f) (fb_data f') = take (fb_index f) (fb_data f)"
proof -
  have n: "8 + n < 2147483648" "m < 2147483648" using assms(3,4) by (auto simp: ETCH_MAX_FLEXBUFSIZE_def)
  have "stream_packets m (pkt_header n @ drop 8 (fb_unread f)) = ([drop 8 (fb_unread f)], Partial [])"
    using stream_pkt_header [OF assms(3) n(2), of "drop 8 (fb_unread f)"] assms(2,5)
    by (simp add: stream_short)
  with transport_packet_framed [OF assms(1,2) n(1), of transport_data t] show ?thesis by auto
qed

text \<open>
  C12. A packet larger than the save buffer can grow hangs the receiver: when a body is pending
  whose rest does not fit into the save buffer any more, the call never returns, whatever the
  fuel.  (A maximum packet size above 4 MB can be configured by the URL.)
\<close>

theorem pktizer_full_savebuf_never_returns:
  assumes "fb_inv (pz_savebuf z)" and "fb_inv f" and "fb_unread f \<noteq> []"
    and "\<not> pz_is_wantheader z"
    and "fb_datalen (pz_savebuf z) + length (fb_unread f) < pz_bodylength z"
    and "fb_capacity (pz_savebuf z) < fb_index (pz_savebuf z) + length (fb_unread f)"
  shows "\<forall>fuel. etch_pktizer_session_data session_packet fuel z f s = Diverges"
  by (intro allI full_savebuf_diverges [OF assms])

theorem pktizer_session_data_cuts_stream_witness:
  "\<exists>z f. etch_pktizer_session_data (\<lambda>s f. Some (s @ [fb_unread f], f)) 20
      (new_packetizer_b (\<lambda>_. 0) 100)
      (etch_flexbuf_create_bi (\<lambda>_. 0) [0xde, 0xad, 0xbe, 0xef, 0, 0, 0, 2, 7, 9, 0xde] 11 11 0) []
    = Returns (0, z, f, [[7, 9]]) \<and> pz_pending z = [0xde]"
proof -
  let ?f = "etch_flexbuf_create_bi (\<lambda>_. 0) [0xde, 0xad, 0xbe, 0xef, 0, 0, 0, 2, 7, 9, 0xde] 11 11 0"
  let ?z = "new_packetizer_b (\<lambda>_. 0) 100"
  have "be_inv ?f" and u: "fb_unread ?f = [0xde, 0xad, 0xbe, 0xef, 0, 0, 0, 2, 7, 9, 0xde]"
    by (simp_all add: be_inv_def fb_inv_def etch_flexbuf_create_bi_def OBJ_MAX_def fb_unread_def fb_data_def)
  have z: "pz_inv ?z" "pz_pending ?z = []" "pz_maxpacketsize ?z = 100"
    using new_packetizer_b_inv [of 100 "\<lambda>_. 0"] by (simp_all add: ETCH_MAX_FLEXBUFSIZE_def)
  have "stream_packets 100 [0xde, 0xad, 0xbe, 0xef, 0, 0, 0, 2, 7, 9, 0xde] = ([[7, 9]], Partial [0xde])"
    by code_simp
  then have "stream_packets (pz_maxpacketsize ?z) (pz_pending ?z @ fb_unread ?f) = ([[7, 9]], Partial [0xde])"
    by (simp add: z u)
  from pktizer_session_data_cuts_stream
    [of "\<lambda>s f. Some (s @ [fb_unread f], f)" "\<lambda>s b. s @ [b]" ?z ?f 20 _ _ "[]",
      OF record_session z(1) \<open>be_inv ?f\<close> _ this]
  have "\<exists>z' f'. etch_pktizer_session_data (\<lambda>s f. Some (s @ [fb_unread f], f)) 20 ?z ?f []
      = Returns (0, z', f', [[7, 9]]) \<and> Partial [0xde] = Partial (pz_pending z')"
    by (auto simp: u)
  then show ?thesis by auto
qed

theorem pktizer_transport_packet_frames_witness:
  "\<exists>f'. etch_pktizer_transport_packet (\<lambda>t f. Some (0, t @ fb_unread f, f)) []
        (etch_flexbuf_create_bi (\<lambda>_. 0) [0, 0, 0, 0, 0, 0, 0, 0, 7, 9] 10 10 0)
      = Some (0, fb_unread f', f')
    \<and> stream_packets 100 (fb_unread f') = ([[7, 9]], Partial [])"
proof -
  let ?f = "etch_flexbuf_create_bi (\<lambda>_. 0) [0, 0, 0, 0, 0, 0, 0, 0, 7, 9] 10 10 0"
  have "be_inv ?f" and u: "fb_unread ?f = [0, 0, 0, 0, 0, 0, 0, 0, 7, 9]"
    by (simp_all add: be_inv_def fb_inv_def etch_flexbuf_create_bi_def OBJ_MAX_def fb_unread_def fb_data_def)
  from pktizer_transport_packet_frames [OF this(1), of 2 100 "\<lambda>t f. Some (0, t @ fb_unread f, f)" "[]"]
  show ?thesis by (auto simp: u ETCH_MAX_FLEXBUFSIZE_def)
qed

theorem pktizer_full_savebuf_never_returns_witness:
  "\<forall>fuel. etch_pktizer_session_data (\<lambda>s f. Some (s, f)) fuel
      \<lparr>pz_savebuf = etch_flexbuf_create_bi (\<lambda>_. 0) (replicate 4194304 0) 4194304 4194304 4194304,
        pz_headersize = 8, pz_bodylength = 5000000, pz_maxpacketsize = 8000000, pz_is_wantheader = False\<rparr>
      (etch_flexbuf_create_bi (\<lambda>_. 0) [1] 1 1 0) () = Diverges"
  by (rule pktizer_full_savebuf_never_returns)
    (simp_all add: fb_inv_def etch_flexbuf_create_bi_def OBJ_MAX_def fb_unread_def fb_data_def
      fb_capacity_def ETCH_MAX_FLEXBUFSIZE_def)

end
