(* ===== verification/TcpConnection_Correct.thy ===== *)
theory TcpConnection_Correct
  imports TcpConnection Packetizer_Correct
begin

text \<open>
  The TCP data path: what the receive thread makes of the chunks the socket delivers, down to
  the packets that reach the session, and what a send puts on the wire.
\<close>

section \<open>Sending\<close>

text \<open>A socket that takes everything it is offered; the bytes arrive at the peer in \<open>wire\<close>.\<close>

lemma sendex_all_at_once:
  assumes "cx_is_started conx" and "n \<le> length buf" and "n < SIZE_MOD" and "0 < n"
    and "apr_socket_send conx buf n = (arc, n, conx')" and "arc = APR_SUCCESS \<or> arc = APR_EOF"
  shows "etch_tcpclient_sendex apr_socket_send (Suc (Suc fuel)) conx buf n = Returns (0, arc, conx')"
  using assms by (auto simp: etch_tcpclient_sendex_def sz_sub_small)

text \<open>
  A socket that takes \<open>k\<close> bytes at a time, of whatever it is offered.  The loop offers the full
  length again after a partial send, so it misses the end unless \<open>k\<close> divides the length.
\<close>

lemma send_loop_partial:
  assumes sock: "\<And>c b l. cx_is_started c \<Longrightarrow> \<exists>c'. apr_socket_send c b l = (APR_SUCCESS, k, c') \<and> cx_is_started c'"
    and k: "0 < k" "\<not> k dvd totallen" and buf: "length buf \<le> OBJ_MAX"
    and start: "cx_is_started conx" "k dvd sent" "sent \<le> length buf"
      "(remaining + sent) mod SIZE_MOD = totallen"
  shows "tcp_send_loop apr_socket_send fuel conx buf totallen sent remaining False arc \<in> {Fault, Diverges}
    \<and> (length buf - sent < fuel \<longrightarrow>
        tcp_send_loop apr_socket_send fuel conx buf totallen sent remaining False arc = Fault)"
  using start
proof (induction fuel arbitrary: conx sent remaining arc)
  case 0
  then show ?case by simp
next
  case (Suc fuel)
  have small: "length buf < SIZE_MOD" by (rule OBJ_MAX_SIZE_MOD [OF buf])
  have "remaining \<noteq> 0"
  proof
    assume "remaining = 0"
    then have "totallen = sent" using Suc.prems(3,4) small by simp
    then show False using k(2) Suc.prems(2) by simp
  qed
  obtain c' where c': "apr_socket_send conx (drop sent buf) totallen = (APR_SUCCESS, k, c')" "cx_is_started c'"
    using sock [OF Suc.prems(1)] by blast
  show ?case
  proof (cases "sent + k > length buf")
    case True
    then show ?thesis using Suc.prems(1) \<open>remaining \<noteq> 0\<close> c'(1) by simp
  next
    case False
    then have "k < SIZE_MOD" and sa: "sz_add sent k = sent + k" using small by (simp_all add: sz_add_small)
    have "(sz_sub remaining k + (sent + k)) mod SIZE_MOD
        = ((remaining + SIZE_MOD - k) + (sent + k)) mod SIZE_MOD"
      unfolding sz_sub_def by (rule mod_add_left_eq)
    also have "(remaining + SIZE_MOD - k) + (sent + k) = remaining + sent + SIZE_MOD"
      using \<open>k < SIZE_MOD\<close> by simp
    also have "\<dots> mod SIZE_MOD = (remaining + sent) mod SIZE_MOD" by (rule mod_add_self2)
    finally have "(sz_sub remaining k + (sent + k)) mod SIZE_MOD = (remaining + sent) mod SIZE_MOD" .
    then have inv: "(sz_sub remaining k + (sent + k)) mod SIZE_MOD = totallen" using Suc.prems(4) by simp
    have step: "tcp_send_loop apr_socket_send (Suc fuel) conx buf totallen sent remaining False arc
      = tcp_send_loop apr_socket_send fuel c' buf totallen (sent + k) (sz_sub remaining k) False APR_SUCCESS"
      using Suc.prems(1) \<open>remaining \<noteq> 0\<close> c'(1) False by (simp add: sa)
    have "k dvd sent + k" using Suc.prems(2) by simp
    moreover have "sent + k \<le> length buf" using False by simp
    ultimately show ?thesis
      unfolding step using Suc.IH [OF c'(2) _ _ inv, of APR_SUCCESS] k(1) False by auto
  qed
qed

section \<open>Receiving\<close>

text \<open>
  A socket that yields the given chunks, one per call, and then closes: every chunk is non-empty,
  fits into the buffer and is not the shutdown signal.
\<close>

fun recv_delivers ::
  "('t etch_tcp_connection \<Rightarrow> nat \<Rightarrow> apr_status \<times> byte list \<times> 't etch_tcp_connection)
     \<Rightarrow> nat \<Rightarrow> 't etch_tcp_connection \<Rightarrow> byte list list \<Rightarrow> bool" where
  "recv_delivers apr_socket_recv blen conx [] \<longleftrightarrow>
     (let (arc, bs, conx') = apr_socket_recv conx blen
      in bs = [] \<and> (arc = APR_SUCCESS \<or> arc = APR_EOF \<or> arc = APR_OTHER_END_CLOSED))"
| "recv_delivers apr_socket_recv blen conx (c # cs) \<longleftrightarrow>
     (let (arc, bs, conx') = apr_socket_recv conx blen
      in (arc = APR_SUCCESS \<or> arc = APR_EOF) \<and> bs = c \<and> c \<noteq> [] \<and> length c \<le> blen
         \<and> c \<noteq> ETCH_SHUTDOWNSIGNAL \<and> cx_is_started conx' \<and> recv_delivers apr_socket_recv blen conx' cs)"

text \<open>The packetizer and the session above it, as the layer that the connection calls.\<close>

definition pktizer_layer ::
  "('s \<Rightarrow> etch_flexbuffer \<Rightarrow> ('s \<times> etch_flexbuffer) option)
     \<Rightarrow> etch_packetizer \<times> 's \<Rightarrow> etch_flexbuffer
     \<Rightarrow> (int \<times> (etch_packetizer \<times> 's) \<times> etch_flexbuffer) outcome" where
  "pktizer_layer session_packet = (\<lambda>(z, s) f.
     case etch_pktizer_session_data session_packet (Suc (etch_flexbuf_avail f)) z f s of
       Returns (r, z, f, s) \<Rightarrow> Returns (r, (z, s), f)
     | Fault \<Rightarrow> Fault
     | Diverges \<Rightarrow> Diverges)"

lemma clear_ok:
  assumes "fb_inv f"
  shows "etch_flexbuf_clear f = Some (f\<lparr>fb_buf := replicate (fb_bufsize f) 0\<rparr>)"
  using assms by (simp add: etch_flexbuf_clear_def mem_simps fb_inv_def)

lemma receivex_data:
  assumes r: "apr_socket_recv tcpx blen = (arc, c, tcpx')" and arc: "arc = APR_SUCCESS \<or> arc = APR_EOF"
    and c: "c \<noteq> []" "c \<noteq> ETCH_SHUTDOWNSIGNAL" "length c \<le> length buf" "length c < 2147483648"
  shows "etch_tcpclient_receivex apr_socket_recv tcpx buf blen
    = Some (int (length c), arc, tcpx', c @ drop (length c) buf)"
proof -
  have sig: "\<not> (length c = length ETCH_SHUTDOWNSIGNAL
      \<and> take (length ETCH_SHUTDOWNSIGNAL) (c @ drop (length c) buf) = ETCH_SHUTDOWNSIGNAL)"
    using c(2) by auto
  have ok: "\<not> (arc \<noteq> APR_SUCCESS \<and> arc \<noteq> APR_EOF)" using arc by auto
  have w: "mem_write buf 0 c = Some (c @ drop (length c) buf)" using c(3) by (simp add: mem_simps)
  show ?thesis
    unfolding etch_tcpclient_receivex_def r Let_def prod.case w bind.bind_lunit if_not_P [OF ok] if_not_P [OF sig]
    using c by (simp add: int_of_size_small)
qed

lemma receive_step_data:
  assumes inv: "be_inv f" and size: "blen \<le> fb_bufsize f" "blen \<le> ETCH_MAX_FLEXBUFSIZE"
    and r: "apr_socket_recv tcpx blen = (arc, c, tcpx')" and arc: "arc = APR_SUCCESS \<or> arc = APR_EOF"
    and c: "c \<noteq> []" "c \<noteq> ETCH_SHUTDOWNSIGNAL" "length c \<le> blen" and st: "cx_is_started tcpx'"
  shows "\<exists>f'. tcp_receive_step apr_socket_recv blen tcpx f = Some (False, int (length c), tcpx', f')
    \<and> be_inv f' \<and> fb_unread f' = c \<and> blen \<le> fb_bufsize f'"
proof -
  from inv have i: "fb_inv f" by (simp add: be_inv_def)
  note D = fb_invD [OF i]
  let ?g = "f\<lparr>fb_buf := c @ drop (length c) (replicate (fb_bufsize f) 0)\<rparr>"
  have len: "length c \<le> fb_bufsize f" "length c < 2147483648"
    using c(3) size by (auto simp: ETCH_MAX_FLEXBUFSIZE_def)
  have g: "fb_inv ?g" using i len by (simp add: fb_inv_def)
  obtain xs where sl: "snd (etch_flexbuf_set_length ?g (length c)) = ?g\<lparr>fb_buf := fb_buf ?g @ xs,
      fb_bufsize := fb_bufsize ?g + length xs, fb_datalen := length c,
      fb_index := min (fb_index ?g) (length c)\<rparr>" (is "_ = ?h")
    using set_length_inside [OF g, of "length c"] len by auto
  have h: "fb_inv ?h" using set_length_props(1) [OF g, of "length c"] unfolding sl .
  have so: "sz_of_int (int (length c)) = length c" using len by (simp add: sz_of_int_nonneg)
  have rt: "snd (etch_flexbuffer_reset_to ?g (length c)) = ?h\<lparr>fb_index := 0\<rparr>" (is "_ = ?f'")
    using sl by (simp add: etch_flexbuffer_reset_to_def case_prod_beta)
  have "length c \<le> length (replicate (fb_bufsize f) (0 :: byte))" using len by simp
  note rx = receivex_data [where buf = "replicate (fb_bufsize f) 0"
      and apr_socket_recv = apr_socket_recv and tcpx = tcpx and blen = blen, OF r arc c(1,2) this len(2)]
  have "tcp_receive_step apr_socket_recv blen tcpx f = Some (False, int (length c), tcpx', ?f')"
    using rx st so rt c(1)
    by (simp add: tcp_receive_step_def clear_ok [OF i] ETCH_THIS_END_CLOSED_def ETCH_OTHER_END_CLOSED_def)
  moreover have "be_inv ?f'" using h inv by (auto simp: be_inv_def fb_inv_def)
  moreover have "fb_unread ?f' = c" by (simp add: fb_unread_def fb_data_def)
  moreover have "blen \<le> fb_bufsize ?f'" using size by simp
  ultimately show ?thesis by blast
qed

lemma receive_step_closed:
  assumes i: "fb_inv f" and r: "apr_socket_recv tcpx blen = (arc, [], tcpx')"
    and arc: "arc = APR_SUCCESS \<or> arc = APR_EOF \<or> arc = APR_OTHER_END_CLOSED"
  shows "\<exists>f'. tcp_receive_step apr_socket_recv blen tcpx f
    = Some (True, 0, tcpx'\<lparr>cx_is_started := False\<rparr>, f')"
  using r arc
  by (auto simp: tcp_receive_step_def clear_ok [OF i] etch_tcpclient_receivex_def mem_simps Let_def
      APR_OTHER_END_CLOSED_def)

text \<open>The packetizer under the contract of the session, as one call of the layer.\<close>

lemma pktizer_layer_stream:
  assumes h: "packet_session session_packet deliver"
    and z: "pz_inv z" and f: "be_inv f"
    and spec: "stream_packets (pz_maxpacketsize z) (pz_pending z @ fb_unread f) = (ps, Partial rest)"
  shows "\<exists>z' f'. pktizer_layer session_packet (z, s) f = Returns (0, (z', foldl deliver s ps), f')
    \<and> pz_inv z' \<and> pz_maxpacketsize z' = pz_maxpacketsize z \<and> pz_pending z' = rest \<and> be_inv f'
    \<and> fb_bufsize f \<le> fb_bufsize f'"
proof -
  have "length (fb_unread f) < Suc (etch_flexbuf_avail f)"
    using f by (simp add: be_inv_def avail_length_unread)
  from session_data_stream [OF h z f this refl spec, of s] show ?thesis
    by (auto simp: pktizer_layer_def)
qed

lemma receiver_loop_stream:
  assumes h: "packet_session session_packet deliver" and blen: "blen \<le> ETCH_MAX_FLEXBUFSIZE"
  assumes "recv_delivers apr_socket_recv blen tcpx chunks" and "cx_is_started tcpx"
    and "pz_inv z" and "be_inv f" and "blen \<le> fb_bufsize f"
    and "stream_packets (pz_maxpacketsize z) (pz_pending z @ concat chunks) = (ps, Partial rest)"
    and "length chunks < fuel"
  shows "\<exists>tcpx' z'. tcp_receiver_loop apr_socket_recv (pktizer_layer session_packet) blen fuel tcpx f (z, s) r
      = Returns (0, tcpx', (z', foldl deliver s ps))
    \<and> pz_inv z' \<and> pz_pending z' = rest \<and> \<not> cx_is_started tcpx'"
  using assms(3-)
proof (induction chunks arbitrary: tcpx z f ps s r fuel)
  case Nil
  then obtain fuel' where fuel: "fuel = Suc fuel'" by (cases fuel) auto
  obtain arc tcpx' where "apr_socket_recv tcpx blen = (arc, [], tcpx')"
    and "arc = APR_SUCCESS \<or> arc = APR_EOF \<or> arc = APR_OTHER_END_CLOSED"
    using Nil.prems(1) by (cases "apr_socket_recv tcpx blen") auto
  moreover have "ps = []" "rest = pz_pending z" using Nil.prems(6) pending_partial [OF Nil.prems(3)] by auto
  moreover have "fb_inv f" using Nil.prems(4) by (simp add: be_inv_def)
  ultimately show ?case
    using receive_step_closed [of f apr_socket_recv tcpx blen arc tcpx'] Nil.prems(2,3)
    unfolding fuel by fastforce
next
  case (Cons c cs)
  then obtain fuel' where fuel: "fuel = Suc fuel'" by (cases fuel) auto
  obtain arc tcpx' where r: "apr_socket_recv tcpx blen = (arc, c, tcpx')"
    and arc: "arc = APR_SUCCESS \<or> arc = APR_EOF" and c: "c \<noteq> []" "c \<noteq> ETCH_SHUTDOWNSIGNAL" "length c \<le> blen"
    and st: "cx_is_started tcpx'" and rest: "recv_delivers apr_socket_recv blen tcpx' cs"
    using Cons.prems(1) by (cases "apr_socket_recv tcpx blen") auto
  obtain g where step: "tcp_receive_step apr_socket_recv blen tcpx f = Some (False, int (length c), tcpx', g)"
    and g: "be_inv g" "fb_unread g = c" "blen \<le> fb_bufsize g"
    using receive_step_data [where apr_socket_recv = apr_socket_recv and tcpx = tcpx,
        OF Cons.prems(4,5) blen r arc c st] by blast
  obtain ps1 l1 where s1: "stream_packets (pz_maxpacketsize z) (pz_pending z @ fb_unread g) = (ps1, l1)"
    by fastforce
  have app: "stream_packets (pz_maxpacketsize z) ((pz_pending z @ fb_unread g) @ concat cs) = (ps, Partial rest)"
    using Cons.prems(6) g(2) by simp
  obtain mid ps2 where l1: "l1 = Partial mid" and ps: "ps = ps1 @ ps2"
    and s2: "stream_packets (pz_maxpacketsize z) (mid @ concat cs) = (ps2, Partial rest)"
    using app unfolding stream_packets_append [of _ "pz_pending z @ fb_unread g"] s1
    by (auto split: leftover.splits prod.splits)
  obtain z' g' where lay: "pktizer_layer session_packet (z, s) g = Returns (0, (z', foldl deliver s ps1), g')"
    and z': "pz_inv z'" "pz_maxpacketsize z' = pz_maxpacketsize z" "pz_pending z' = mid"
    and g': "be_inv g'" "fb_bufsize g \<le> fb_bufsize g'"
    using pktizer_layer_stream [OF h Cons.prems(3) g(1) s1 [unfolded l1], of s] by blast
  have "length cs < fuel'" "blen \<le> fb_bufsize g'" using Cons.prems(7) fuel g(3) g'(2) by auto
  with Cons.IH [OF rest st z'(1) g'(1) _ _ , of ps2 fuel' "foldl deliver s ps1" "int (length c)"] z' s2
  show ?case using Cons.prems(2) step lay c(1) ps
    by (simp add: fuel etch_tcpclient_on_data_def)
qed

section \<open>Both directions together\<close>

text \<open>Sending a buffer, as the layer below the packetizer.\<close>

definition tcp_layer ::
  "('t etch_tcp_connection \<Rightarrow> byte list \<Rightarrow> nat \<Rightarrow> apr_status \<times> nat \<times> 't etch_tcp_connection)
     \<Rightarrow> 't etch_tcp_connection \<Rightarrow> etch_flexbuffer
     \<Rightarrow> (int \<times> 't etch_tcp_connection \<times> etch_flexbuffer) option" where
  "tcp_layer apr_socket_send thisx fbuf =
     (case etch_tcpconx_transport_data apr_socket_send 2 thisx fbuf of
        Returns x \<Rightarrow> Some x | Fault \<Rightarrow> None | Diverges \<Rightarrow> None)"

lemma transport_data_all:
  assumes "fb_inv f" and "cx_is_started conx" and "0 < fb_datalen f"
    and "apr_socket_send conx (fb_buf f) (fb_datalen f) = (APR_SUCCESS, fb_datalen f, conx')"
  shows "etch_tcpconx_transport_data apr_socket_send (Suc (Suc fuel)) conx f
    = Returns (0, conx', etch_flexbuf_reset f)"
  using sendex_all_at_once [of conx "fb_datalen f" "fb_buf f" apr_socket_send APR_SUCCESS conx' fuel] assms
  by (simp add: etch_tcpconx_transport_data_def fb_inv_def OBJ_MAX_SIZE_MOD del: tcp_send_loop.simps)

text \<open>The bytes of a sequence of packets are cut into these packets.\<close>

definition frame :: "byte list \<Rightarrow> byte list" where
  "frame body = pkt_header (length body) @ body"

lemma stream_frames:
  assumes "list_all (\<lambda>b. b \<noteq> [] \<and> length b \<le> m) bodies" and "m < 2147483648"
  shows "stream_packets m (concat (map frame bodies)) = (bodies, Partial [])"
  using assms(1)
proof (induction bodies)
  case Nil
  then show ?case by (simp add: stream_short)
next
  case (Cons b bs)
  then show ?case
    using stream_pkt_header [of "length b" m "b @ concat (map frame bs)"] assms(2)
    by (simp add: frame_def [of b])
qed

lemma receiver_proc_stream:
  assumes h: "packet_session session_packet deliver"
    and c: "0 < cx_bufsize tcpx" "cx_bufsize tcpx \<le> ETCH_MAX_FLEXBUFSIZE" "cx_is_started tcpx"
    and d: "recv_delivers apr_socket_recv (cx_bufsize tcpx) tcpx chunks" and z: "pz_inv z"
    and spec: "stream_packets (pz_maxpacketsize z) (pz_pending z @ concat chunks) = (ps, Partial rest)"
    and fuel: "length chunks < fuel"
  shows "\<exists>tcpx' z'. etch_tcp_client_receiver_proc apr_socket_recv (pktizer_layer session_packet)
        fuel junk tcpx (z, s) = Returns (0, tcpx', (z', foldl deliver s ps))
    \<and> pz_inv z' \<and> pz_pending z' = rest \<and> \<not> cx_is_started tcpx'"
proof -
  have f: "be_inv (new_flexbuffer junk (cx_bufsize tcpx))"
    using new_flexbuffer_inv by (simp add: be_inv_def)
  have sz: "cx_bufsize tcpx \<le> fb_bufsize (new_flexbuffer junk (cx_bufsize tcpx))"
    using c(1,2)
    by (simp add: new_flexbuffer_def flexbuf_default_size_def etch_flexbuf_create_bi_def Let_def)
  show ?thesis
    using receiver_loop_stream [OF h c(2) d c(3) z f sz spec fuel, of s 0] c(1)
    by (simp add: etch_tcp_client_receiver_proc_def Let_def)
qed

text \<open>Sender and receiver together.\<close>

lemma packet_end_to_end:
  assumes "be_inv f" and "fb_index f = 0" and "length (fb_unread f) = 8 + n" and "0 < n"
    and "int n \<le> maxpktsize" and "maxpktsize \<le> int ETCH_MAX_FLEXBUFSIZE"
    and "\<And>c b l. cx_is_started c \<Longrightarrow>
      apr_socket_send c b l = (APR_SUCCESS, l, c\<lparr>cx_socket := cx_socket c @ take l b\<rparr>)"
    and "cx_is_started conx" and "cx_socket conx = []"
    and h: "packet_session session_packet deliver"
    and "0 < cx_bufsize tcpx" and "cx_bufsize tcpx \<le> ETCH_MAX_FLEXBUFSIZE" and "cx_is_started tcpx"
    and "recv_delivers apr_socket_recv (cx_bufsize tcpx) tcpx chunks" and "length chunks < fuel"
  shows "\<exists>conx' f'. etch_pktizer_transport_packet (tcp_layer apr_socket_send) conx f = Some (0, conx', f')
    \<and> fb_data f' = [] \<and> cx_socket conx' = frame (drop 8 (fb_unread f))
    \<and> (concat chunks = cx_socket conx' \<longrightarrow>
        (\<exists>tcpx' z'. etch_tcp_client_receiver_proc apr_socket_recv (pktizer_layer session_packet)
            fuel junk tcpx (new_packetizer_b junk' maxpktsize, s)
          = Returns (0, tcpx', (z', deliver s (drop 8 (fb_unread f)))) \<and> pz_pending z' = []))"
proof -
  let ?b = "drop 8 (fb_unread f)" and ?z = "new_packetizer_b junk' maxpktsize"
  have n: "8 + n < 2147483648" using assms(5,6) by (auto simp: ETCH_MAX_FLEXBUFSIZE_def)
  have lb: "length ?b = n" using assms(3) by simp
  obtain g where tp: "etch_pktizer_transport_packet (tcp_layer apr_socket_send) conx f
      = tcp_layer apr_socket_send conx g"
    and g: "be_inv g" "fb_index g = 0" "fb_unread g = frame ?b"
    using transport_packet_framed [OF assms(1,3) n, of "tcp_layer apr_socket_send" conx] assms(2) lb
    by (auto simp: frame_def)
  have gi: "fb_inv g" using g by (simp add: be_inv_def)
  have gd: "fb_data g = frame ?b" using g by (simp add: fb_unread_def)
  then have pos: "0 < fb_datalen g" using length_fb_data [OF gi] lb assms(4) by (simp add: frame_def)
  have wire: "take (fb_datalen g) (fb_buf g) = frame ?b" using gd by (simp add: fb_data_def)
  let ?conx = "conx\<lparr>cx_socket := frame ?b\<rparr>"
  have "tcp_layer apr_socket_send conx g = Some (0, ?conx, etch_flexbuf_reset g)"
    using transport_data_all [OF gi assms(8) pos, of apr_socket_send ?conx 0] assms(7) [OF assms(8)]
    by (simp add: tcp_layer_def wire assms(9) numeral_2_eq_2)
  moreover have "fb_data (etch_flexbuf_reset g) = []" by (rule reset_props(2) [OF gi])
  moreover have "\<exists>tcpx' z'. etch_tcp_client_receiver_proc apr_socket_recv (pktizer_layer session_packet)
            fuel junk tcpx (?z, s) = Returns (0, tcpx', (z', deliver s ?b)) \<and> pz_pending z' = []"
    if "concat chunks = frame ?b"
  proof -
    have mx: "int (pz_maxpacketsize ?z) = maxpktsize" and pz: "pz_inv ?z" "pz_pending ?z = []"
      using new_packetizer_b_inv [OF assms(6), of junk'] assms(4,5) by auto
    then have "stream_packets (pz_maxpacketsize ?z) (pz_pending ?z @ concat chunks) = ([?b], Partial [])"
      using stream_frames [of "pz_maxpacketsize ?z" "[?b]"] that lb assms(4,5,6)
      by (auto simp: ETCH_MAX_FLEXBUFSIZE_def)
    from receiver_proc_stream [OF h assms(11-14) pz(1) this assms(15), of junk s] show ?thesis by auto
  qed
  ultimately show ?thesis using tp by auto
qed

section \<open>Properties\<close>



text \<open>
  End to end: a body of \<open>n\<close> bytes handed to the packetizer of one side, sent over a socket
  that takes the buffer at once and received by the other side in any chunks, is delivered to
  the session there as exactly this body.  The sender's buffer is empty afterwards.
\<close>

theorem tcp_packet_end_to_end:
  assumes "be_inv f" and "fb_index f = 0" and "length (fb_unread f) = 8 + n" and "0 < n"
    and "int n \<le> maxpktsize" and "maxpktsize \<le> int ETCH_MAX_FLEXBUFSIZE"
    and "\<And>c b l. cx_is_started c \<Longrightarrow>
      apr_socket_send c b l = (APR_SUCCESS, l, c\<lparr>cx_socket := cx_socket c @ take l b\<rparr>)"
    and "cx_is_started conx" and "cx_socket conx = []"
    and "\<And>s f. be_inv f \<Longrightarrow>
      \<exists>i \<le> fb_datalen f. session_packet s f = Some (deliver s (fb_unread f), f\<lparr>fb_index := i\<rparr>)"
    and "0 < cx_bufsize tcpx" and "cx_bufsize tcpx \<le> ETCH_MAX_FLEXBUFSIZE" and "cx_is_started tcpx"
    and "recv_delivers apr_socket_recv (cx_bufsize tcpx) tcpx chunks" and "length chunks < fuel"
  shows "\<exists>conx' f'. etch_pktizer_transport_packet (tcp_layer apr_socket_send) conx f = Some (0, conx', f')
    \<and> fb_data f' = [] \<and> cx_socket conx' = frame (drop 8 (fb_unread f))
    \<and> (concat chunks = cx_socket conx' \<longrightarrow>
        (\<exists>tcpx' z'. etch_tcp_client_receiver_proc apr_socket_recv (pktizer_layer session_packet)
            fuel junk tcpx (new_packetizer_b junk' maxpktsize, s)
          = Returns (0, tcpx', (z', deliver s (drop 8 (fb_unread f)))) \<and> pz_pending z' = []))"
proof -
  have h: "packet_session session_packet deliver" by unfold_locales (rule assms(10))
  show ?thesis by (rule packet_end_to_end [OF assms(1-9) h assms(11-)])
qed

theorem tcp_packet_end_to_end_witness:
  "\<exists>tcpx' z'. etch_tcp_client_receiver_proc
      (\<lambda>c n. case cx_socket c of [] \<Rightarrow> (APR_EOF, [], c) | b # bs \<Rightarrow> (APR_SUCCESS, b, c\<lparr>cx_socket := bs\<rparr>))
      (pktizer_layer (\<lambda>s f. Some (s @ [fb_unread f], f))) 10 (\<lambda>_. 0)
      \<lparr>cx_is_started = True, cx_bufsize = 100, cx_socket = [[0xde, 0xad, 0xbe, 0xef, 0, 0, 0, 2, 7], [9]]\<rparr>
      (new_packetizer_b (\<lambda>_. 0) 50, [])
    = Returns (0, tcpx', (z', [[7, 9]]))"
proof -
  let ?f = "etch_flexbuf_create_bi (\<lambda>_. 0) [0, 0, 0, 0, 0, 0, 0, 0, 7, 9] 10 10 0"
  let ?send = "\<lambda>c b l. (APR_SUCCESS, l, c\<lparr>cx_socket := cx_socket c @ take l b\<rparr>)"
  let ?c = "\<lparr>cx_is_started = True, cx_bufsize = 0, cx_socket = [] :: byte list\<rparr>"
  let ?cs = "[[0xde, 0xad, 0xbe, 0xef, 0, 0, 0, 2, 7], [9]] :: byte list list"
  let ?r = "\<lambda>c (n :: nat). case cx_socket c of [] \<Rightarrow> (APR_EOF, [], c)
    | b # bs \<Rightarrow> (APR_SUCCESS, b :: byte list, c\<lparr>cx_socket := bs\<rparr>)"
  let ?t = "\<lparr>cx_is_started = True, cx_bufsize = 100, cx_socket = ?cs\<rparr>"
  have f: "be_inv ?f" and u: "fb_unread ?f = [0, 0, 0, 0, 0, 0, 0, 0, 7, 9]" and "fb_index ?f = 0"
    by (simp_all add: be_inv_def fb_inv_def etch_flexbuf_create_bi_def OBJ_MAX_def fb_unread_def fb_data_def)
  have d: "recv_delivers ?r (cx_bufsize ?t) ?t ?cs" by (simp add: ETCH_SHUTDOWNSIGNAL_def)
  have wire: "concat ?cs = frame [7, 9]" by code_simp
  from tcp_packet_end_to_end [OF f \<open>fb_index ?f = 0\<close>, of 2 50 ?send ?c
      "\<lambda>s f. Some (s @ [fb_unread f], f)" "\<lambda>s b. s @ [b]" ?t ?r ?cs 10 "\<lambda>_. 0" "\<lambda>_. 0" "[]",
      OF _ _ _ _ refl _ _ record_session _ _ _ d]
  show ?thesis using wire by (auto simp: u ETCH_MAX_FLEXBUFSIZE_def)
qed

text \<open>
  C11. A partial send derails the loop: against a socket that takes \<open>k\<close> bytes per call, where
  \<open>k\<close> does not divide the length, \<open>etch_tcpclient_sendex\<close> never reports a result.  It offers the
  full length again instead of what remains, so it runs past the end of the message, the count
  \<open>remaining\<close> wraps around, and with enough fuel it reads beyond the allocated block.
\<close>

theorem tcp_partial_send_overruns:
  assumes "\<And>c b l. cx_is_started c \<Longrightarrow>
      \<exists>c'. apr_socket_send c b l = (APR_SUCCESS, k, c') \<and> cx_is_started c'"
    and "0 < k" and "\<not> k dvd totallen" and "totallen \<le> length buf" and "length buf \<le> OBJ_MAX"
    and "cx_is_started conx"
  shows "etch_tcpclient_sendex apr_socket_send fuel conx buf totallen
    \<in> (if length buf < fuel then {Fault} else {Fault, Diverges})"
proof -
  have "(totallen + 0) mod SIZE_MOD = totallen"
    using OBJ_MAX_SIZE_MOD [OF assms(5)] assms(4) by simp
  from send_loop_partial [where apr_socket_send = apr_socket_send,
      OF assms(1,2,3,5,6) _ _ this, of fuel APR_SUCCESS]
  show ?thesis by (auto simp: etch_tcpclient_sendex_def)
qed

theorem tcp_partial_send_overruns_witness:
  "etch_tcpclient_sendex (\<lambda>c b l. (APR_SUCCESS, 5, c)) 20
     \<lparr>cx_is_started = True, cx_bufsize = 0, cx_socket = ()\<rparr> [1, 2, 3, 4, 5, 6, 7, 8] 8 = Fault"
  using tcp_partial_send_overruns [of "\<lambda>c b l. (APR_SUCCESS, 5, c)" 5 8 "[1, 2, 3, 4, 5, 6, 7, 8]"
    "\<lparr>cx_is_started = True, cx_bufsize = 0, cx_socket = ()\<rparr>" 20]
  by (simp add: OBJ_MAX_def)

text \<open>
  C13. A configured receive size above 4 MB overflows the receive buffer: \<open>new_flexbuffer\<close> falls
  back to its default size of 2048 bytes, while the receive thread still lets the socket store
  up to the configured number.  Any first chunk longer than 2048 bytes is an out-of-bounds write.
\<close>

theorem tcp_receiver_oversized_buffer_faults:
  assumes "ETCH_MAX_FLEXBUFSIZE < cx_bufsize tcpx" and "cx_is_started tcpx"
    and "apr_socket_recv tcpx (cx_bufsize tcpx) = (arc, chunk, tcpx')"
    and "2048 < length chunk" and "length chunk \<le> cx_bufsize tcpx"
  shows "etch_tcp_client_receiver_proc apr_socket_recv session_data (Suc fuel) junk tcpx p = Fault"
proof -
  let ?f = "new_flexbuffer junk (cx_bufsize tcpx)"
  have size: "fb_bufsize ?f = 2048"
    using assms(1) by (simp add: new_flexbuffer_def flexbuf_default_size_def etch_flexbuf_create_bi_def
        Let_def ETCH_INIT_FLEXBUFSIZE_def)
  have "tcp_receive_step apr_socket_recv (cx_bufsize tcpx) tcpx ?f = None"
    using assms(3,4) by (simp add: tcp_receive_step_def clear_ok [OF new_flexbuffer_inv] size
        etch_tcpclient_receivex_def mem_write_def)
  then show ?thesis using assms(1,2) by (simp add: etch_tcp_client_receiver_proc_def Let_def)
qed

theorem tcp_receiver_oversized_buffer_faults_witness:
  "etch_tcp_client_receiver_proc (\<lambda>c n. (APR_SUCCESS, replicate 3000 1, c))
     (\<lambda>p f. Returns (0, p, f)) 1 (\<lambda>_. 0)
     \<lparr>cx_is_started = True, cx_bufsize = 5000000, cx_socket = ()\<rparr> () = Fault"
  using tcp_receiver_oversized_buffer_faults
    [of "\<lparr>cx_is_started = True, cx_bufsize = 5000000, cx_socket = ()\<rparr>"
        "\<lambda>c n. (APR_SUCCESS, replicate 3000 1, c)" APR_SUCCESS "replicate 3000 1" _
        "\<lambda>p f. Returns (0, p, f)" 0 "\<lambda>_. 0" "()"]
  by (simp add: ETCH_MAX_FLEXBUFSIZE_def)

end
