(* ===== verification/Messagizer_Correct.thy ===== *)
theory Messagizer_Correct
  imports Messagizer WireRead BinaryTdo_Correct TcpConnection_Correct
begin

text \<open>
  The messagizer between the packetizer and the session: a message that is sent arrives, and any
  packet whatsoever is handled.

  \<^item> \<open>msgizer_session\<close> is the handler the packetizer calls; \<open>msgizer_deliver\<close> the same as a function
    of the bytes of the packet.  The interpretation of \<open>packet_session\<close> rests on the safety of the
    deserializer for arbitrary bytes, and makes the results on the packetizer and on the receive
    thread results about messages.
\<close>

section \<open>Incoming packets\<close>

definition msgizer_session ::
  "('c, 's) etch_vf \<Rightarrow> ('u \<Rightarrow> ('c, 's) etch_message option \<Rightarrow> int \<times> 'u)
     \<Rightarrow> ('u \<Rightarrow> ('c, 's) etch_message option \<Rightarrow> 'u)
     \<Rightarrow> 'u \<Rightarrow> etch_flexbuffer \<Rightarrow> ('u \<times> etch_flexbuffer) option" where
  "msgizer_session vf session_message session_notify_unwanted u fbuf =
     map_option snd (etch_msgizer_session_packet vf session_message session_notify_unwanted u fbuf)"

definition message_in :: "('c, 's) etch_vf \<Rightarrow> byte list \<Rightarrow> ('c, 's) etch_message option" where
  "message_in vf bs =
     (case read_message vf (etch_flexbuf_create_bi (\<lambda>_. 0) bs (length bs) (length bs) 0) of
        Some (msg, f) \<Rightarrow> msg | None \<Rightarrow> None)"

definition msgizer_deliver ::
  "('c, 's) etch_vf \<Rightarrow> ('u \<Rightarrow> ('c, 's) etch_message option \<Rightarrow> int \<times> 'u)
     \<Rightarrow> ('u \<Rightarrow> ('c, 's) etch_message option \<Rightarrow> 'u) \<Rightarrow> 'u \<Rightarrow> byte list \<Rightarrow> 'u" where
  "msgizer_deliver vf session_message session_notify_unwanted u bs =
     (let msg = message_in vf bs; (r, u) = session_message u msg
      in if r = 0 then u else session_notify_unwanted u msg)"

lemma read_message_reads:
  "\<exists>x n. n \<le> length bs \<and> (\<forall>f. fb_holds le bs f \<longrightarrow>
     read_message vf f = Some (x, f\<lparr>fb_index := fb_index f + n\<rparr>))"
proof -
  have "reads le bs (bintdi_read_message (vf_env vf) (vf_types vf) (vf_validate_write vf)
       (vf_mf_in_reply_to vf) (vf_mf_msg vf) (vf_mf_result vf) (Suc (length bs))) (\<lambda>_ _. True)"
    by (rule reads_message) simp
  then show ?thesis
    by (auto simp: reads_def read_message_def fb_holds_def avail_length_unread)
qed

lemma holds_self: "be_inv f \<Longrightarrow> fb_holds False (fb_unread f) f"
  by (simp add: fb_holds_def be_inv_def)

lemma canonical_buffer:
  assumes "length bs \<le> OBJ_MAX"
  shows "be_inv (etch_flexbuf_create_bi junk bs (length bs) (length bs) 0)"
    and "fb_unread (etch_flexbuf_create_bi junk bs (length bs) (length bs) 0) = bs"
  using assms
  by (auto simp: be_inv_def fb_inv_def etch_flexbuf_create_bi_def fb_unread_def fb_data_def Let_def)

lemma unread_bound: "fb_inv f \<Longrightarrow> length (fb_unread f) \<le> OBJ_MAX"
  by (auto simp: length_fb_unread) (auto simp: fb_inv_def)

text \<open>What is read depends on the unread bytes only.\<close>

lemma read_message_in:
  assumes f: "be_inv f"
  shows "\<exists>n \<le> length (fb_unread f). read_message vf f
    = Some (message_in vf (fb_unread f), f\<lparr>fb_index := fb_index f + n\<rparr>)"
proof -
  let ?bs = "fb_unread f"
  let ?g = "etch_flexbuf_create_bi (\<lambda>_. 0) ?bs (length ?bs) (length ?bs) 0"
  obtain x n where n: "n \<le> length ?bs"
    and r: "\<And>f. fb_holds False ?bs f \<Longrightarrow> read_message vf f = Some (x, f\<lparr>fb_index := fb_index f + n\<rparr>)"
    using read_message_reads [of ?bs False vf] by blast
  have "fb_holds False ?bs ?g"
    using holds_self [of ?g] canonical_buffer [OF unread_bound, of f] f by (simp add: be_inv_def)
  then have "message_in vf ?bs = x" by (simp add: message_in_def r)
  with n r [OF holds_self [OF f]] show ?thesis by auto
qed

interpretation msgizer: packet_session "msgizer_session vf session_message session_notify_unwanted"
    "msgizer_deliver vf session_message session_notify_unwanted"
  for vf session_message session_notify_unwanted
proof (unfold_locales, goal_cases)
  case (1 f u)
  then obtain n where n: "n \<le> length (fb_unread f)"
    and r: "read_message vf f = Some (message_in vf (fb_unread f), f\<lparr>fb_index := fb_index f + n\<rparr>)"
    using read_message_in by blast
  have "fb_index f + n \<le> fb_datalen f"
    using n 1 length_fb_unread [of f] by (auto simp: be_inv_def fb_inv_def)
  moreover have "msgizer_session vf session_message session_notify_unwanted u f
    = Some (msgizer_deliver vf session_message session_notify_unwanted u (fb_unread f),
        f\<lparr>fb_index := fb_index f + n\<rparr>)"
    by (simp add: msgizer_session_def etch_msgizer_session_packet_def r msgizer_deliver_def
        case_prod_beta Let_def)
  ultimately show ?case by blast
qed

section \<open>Outgoing messages\<close>

lemma skip_put:
  assumes f: "fb_inv f" and room: "fb_index f + n \<le> ETCH_MAX_FLEXBUFSIZE" and n: "0 < n"
  shows "fb_inv (etch_flexbuf_skip f n True)"
    and "fb_index (etch_flexbuf_skip f n True) = fb_index f + n"
    and "fb_is_littleendian (etch_flexbuf_skip f n True) = fb_is_littleendian f"
    and "fb_datalen (etch_flexbuf_skip f n True) = max (fb_datalen f) (fb_index f + n)"
proof -
  have "fb_index f + n \<le> fb_capacity f" using room capacity_max [of f] by linarith
  then obtain g where g: "etch_flexbuf_ensure_size f (sz_add (fb_index f) n) = (True, g)"
    and gi: "fb_inv g" "fb_index g = fb_index f" "fb_is_littleendian g = fb_is_littleendian f"
    and sz: "fb_index f + n \<le> fb_bufsize g"
    using ensure_size_room [OF f, of n] by metis
  have dl: "fb_datalen g = fb_datalen f" by (rule ensure_size_props(5) [OF f g])
  have sa: "sz_add (fb_index f) n = fb_index f + n"
    using room by (intro sz_add_small) (simp add: ETCH_MAX_FLEXBUFSIZE_def SIZE_MOD_def)
  have "etch_flexbuf_skip f n True = etch_flexbuf_fix_length (g\<lparr>fb_index := fb_index f + n\<rparr>)"
    using n g gi(2) sa by (simp add: etch_flexbuf_skip_def)
  then show "fb_inv (etch_flexbuf_skip f n True)"
    and "fb_index (etch_flexbuf_skip f n True) = fb_index f + n"
    and "fb_is_littleendian (etch_flexbuf_skip f n True) = fb_is_littleendian f"
    and "fb_datalen (etch_flexbuf_skip f n True) = max (fb_datalen f) (fb_index f + n)"
    using gi sz dl by (auto simp: etch_flexbuf_fix_length_def fb_inv_def)
qed

lemma transport_message_wire:
  assumes f: "be_inv msgbuf" "fb_index msgbuf = 0" "fb_datalen msgbuf = 0"
    and w: "wire_message (vf_env vf) (vf_types vf) False t items bs"
    and room: "8 + length bs \<le> ETCH_MAX_FLEXBUFSIZE" and fuel: "length bs \<le> fuel"
  shows "\<exists>g. etch_msgizer_transport_message vf 8 transport_packet fuel s msgbuf (t, items)
      = transport_packet s g
    \<and> be_inv g \<and> fb_index g = 0 \<and> length (fb_unread g) = 8 + length bs \<and> drop 8 (fb_unread g) = bs"
proof -
  let ?k = "etch_flexbuf_skip msgbuf 8 True"
  have inv: "fb_inv msgbuf" and be: "\<not> fb_is_littleendian msgbuf" using f(1) by (auto simp: be_inv_def)
  have k: "fb_inv ?k" "fb_index ?k = 8" "fb_is_littleendian ?k = False" "fb_datalen ?k = 8"
    using skip_put [OF inv, of 8] f(2,3) be by (auto simp: ETCH_MAX_FLEXBUFSIZE_def)
  obtain h where h: "write_message vf fuel (t, items) ?k = Some (0, h)" "fb_put_at ?k bs h"
    using writes_wire_message [OF w fuel, of "vf_validate_write vf"] k room
    by (auto simp: writes_def write_message_def)
  let ?g = "h\<lparr>fb_index := 0\<rparr>"
  have len: "length (fb_data ?k) = 8" using k by (simp add: length_fb_data)
  then have data: "fb_data h = fb_data ?k @ bs" using h(2) k by (simp add: fb_put_at_def)
  have gu: "fb_unread ?g = fb_data ?k @ bs" using data by (simp add: fb_unread_def fb_data_def)
  have "etch_msgizer_transport_message vf 8 transport_packet fuel s msgbuf (t, items)
      = transport_packet s ?g"
    using h(1) by (simp add: etch_msgizer_transport_message_def etch_flexbuf_set_index_def)
  moreover have "be_inv ?g" using h(2) k by (auto simp: fb_put_at_def be_inv_def fb_inv_def)
  ultimately show ?thesis using gu len by (intro exI [of _ ?g]) simp
qed

lemma message_in_wire:
  assumes w: "wire_message (vf_env vf) (vf_types vf) False t items bs" and len: "length bs \<le> OBJ_MAX"
  shows "\<exists>ty. vf_types vf t = Some ty \<and> message_in vf bs
    = Some (t, bintdi_end_message (vf_env vf) (vf_validate_write vf) (Some ty)
        (vf_mf_in_reply_to vf) (vf_mf_msg vf) (vf_mf_result vf) items)"
proof -
  obtain ty where ty: "vf_types vf t = Some ty"
    and p: "parses False bs (bintdi_read_message (vf_env vf) (vf_types vf) (vf_validate_write vf)
       (vf_mf_in_reply_to vf) (vf_mf_msg vf) (vf_mf_result vf) (Suc (length bs)))
     (Some (t, bintdi_end_message (vf_env vf) (vf_validate_write vf) (Some ty)
        (vf_mf_in_reply_to vf) (vf_mf_msg vf) (vf_mf_result vf) items))"
    using parses_wire_message [OF w, of "Suc (length bs)"] by blast
  let ?f = "etch_flexbuf_create_bi (\<lambda>_. 0) bs (length bs) (length bs) 0"
  have f: "fb_holds False bs ?f" "fb_inv ?f" "fb_unread ?f = bs"
    using holds_self [of ?f] canonical_buffer [OF len, of "\<lambda>_. 0"] by (auto simp: be_inv_def)
  from p [unfolded parses_def, THEN spec, of "[]"] f
  have "read_message vf ?f = Some (Some (t, bintdi_end_message (vf_env vf) (vf_validate_write vf) (Some ty)
        (vf_mf_in_reply_to vf) (vf_mf_msg vf) (vf_mf_result vf) items), ?f\<lparr>fb_index := fb_index ?f + length bs\<rparr>)"
    by (auto simp: reads_def read_message_def avail_length_unread)
  with ty show ?thesis by (simp add: message_in_def)
qed


section \<open>End to end\<close>

text \<open>What the layer above gets for a message: the message, and the notification if it declines it.\<close>

definition session_handles ::
  "('u \<Rightarrow> ('c, 's) etch_message option \<Rightarrow> int \<times> 'u) \<Rightarrow> ('u \<Rightarrow> ('c, 's) etch_message option \<Rightarrow> 'u)
     \<Rightarrow> 'u \<Rightarrow> ('c, 's) etch_message option \<Rightarrow> 'u" where
  "session_handles session_message session_notify_unwanted u msg =
     (let (r, u) = session_message u msg in if r = 0 then u else session_notify_unwanted u msg)"

lemma msgizer_deliver_eq:
  "msgizer_deliver vf session_message session_notify_unwanted u bs
    = session_handles session_message session_notify_unwanted u (message_in vf bs)"
  by (simp add: msgizer_deliver_def session_handles_def Let_def)

lemma wire_message_nonempty: "wire_message ev types le t items bs \<Longrightarrow> 0 < length bs"
  by (erule wire_message.cases) simp

lemma message_delivered:
  assumes w: "wire_message (vf_env vf) (vf_types vf) False t items bs"
    and f: "be_inv msgbuf" "fb_index msgbuf = 0" "fb_datalen msgbuf = 0"
    and len: "8 + length bs \<le> ETCH_MAX_FLEXBUFSIZE" "int (length bs) \<le> maxpktsize"
      "maxpktsize \<le> int ETCH_MAX_FLEXBUFSIZE" "length bs \<le> wfuel"
    and send: "\<And>c b l. cx_is_started c \<Longrightarrow>
      apr_socket_send c b l = (APR_SUCCESS, l, c\<lparr>cx_socket := cx_socket c @ take l b\<rparr>)"
    and conx: "cx_is_started conx" "cx_socket conx = []"
    and tcpx: "0 < cx_bufsize tcpx" "cx_bufsize tcpx \<le> ETCH_MAX_FLEXBUFSIZE" "cx_is_started tcpx"
    and d: "recv_delivers apr_socket_recv (cx_bufsize tcpx) tcpx chunks" and fuel: "length chunks < fuel"
  shows "\<exists>conx' f' ty. etch_msgizer_transport_message vf 8
        (etch_pktizer_transport_packet (tcp_layer apr_socket_send)) wfuel conx msgbuf (t, items)
      = Some (0, conx', f') \<and> fb_data f' = [] \<and> cx_socket conx' = frame bs \<and> vf_types vf t = Some ty
    \<and> (concat chunks = cx_socket conx' \<longrightarrow>
        (\<exists>tcpx' z'. etch_tcp_client_receiver_proc apr_socket_recv
            (pktizer_layer (msgizer_session vf session_message session_notify_unwanted))
            fuel junk tcpx (new_packetizer_b junk' maxpktsize, u)
          = Returns (0, tcpx', (z', session_handles session_message session_notify_unwanted u
              (Some (t, bintdi_end_message (vf_env vf) (vf_validate_write vf) (Some ty)
                 (vf_mf_in_reply_to vf) (vf_mf_msg vf) (vf_mf_result vf) items))))
          \<and> pz_pending z' = []))"
proof -
  obtain g where tm: "etch_msgizer_transport_message vf 8
      (etch_pktizer_transport_packet (tcp_layer apr_socket_send)) wfuel conx msgbuf (t, items)
      = etch_pktizer_transport_packet (tcp_layer apr_socket_send) conx g"
    and g: "be_inv g" "fb_index g = 0" "length (fb_unread g) = 8 + length bs" "drop 8 (fb_unread g) = bs"
    using transport_message_wire [OF f w len(1,4)] by metis
  have "length bs \<le> OBJ_MAX" using len(1) by (simp add: ETCH_MAX_FLEXBUFSIZE_def OBJ_MAX_def)
  then obtain ty where ty: "vf_types vf t = Some ty"
    and m: "message_in vf bs = Some (t, bintdi_end_message (vf_env vf) (vf_validate_write vf) (Some ty)
        (vf_mf_in_reply_to vf) (vf_mf_msg vf) (vf_mf_result vf) items)"
    using message_in_wire [OF w] by blast
  have h: "packet_session (msgizer_session vf session_message session_notify_unwanted)
      (msgizer_deliver vf session_message session_notify_unwanted)"
    by (rule msgizer.packet_session_axioms)
  from packet_end_to_end [OF g(1,2,3) wire_message_nonempty [OF w] len(2,3) send conx h tcpx d fuel,
      of junk junk' u]
  show ?thesis unfolding tm g(4) msgizer_deliver_eq m using ty by auto
qed

end
