(* ===== verification/Sample.thy ===== *)
theory Sample
  imports WireFormat
begin

text \<open>
  A concrete instance of the parameters of the serializer, for the examples: strings are byte
  lists with a one-byte terminator, there are no user classes, a struct is exported as it is.
\<close>

definition sample_env :: "(unit, byte list) etch_env" where
  "sample_env = \<lparr>ev_char_count = length, ev_empty_string = [], ev_wire_bytes = (\<lambda>s. s @ [0]),
     ev_string_of = butlast, ev_terminator = 1, ev_obj_type = (\<lambda>_. 0), ev_class_id = (\<lambda>_. 0),
     ev_parents = (\<lambda>_. []),
     ev_export = (\<lambda>x. case x of EStruct t items \<Rightarrow> Some (t, items) | _ \<Rightarrow> None),
     ev_import = (\<lambda>t items. Some (EStruct t items)), ev_is_exception = (\<lambda>_. False),
     ev_int64_of_float = (\<lambda>_. 0), ev_int64_of_double = (\<lambda>_. 0), ev_double_of_float = (\<lambda>_. 0),
     ev_float_of_double = (\<lambda>_. 0), ev_double_of_int64 = (\<lambda>_. 0), ev_float_of_int64 = (\<lambda>_. 0)\<rparr>"

definition sample_field :: "int32 \<Rightarrow> string \<Rightarrow> etch_field" where
  "sample_field i n = \<lparr>fld_id = i, fld_name = n\<rparr>"

definition sample_types :: "int32 \<Rightarrow> etch_type option" where
  "sample_types t =
     (if t = 1
      then Some \<lparr>ty_id = 1,
        ty_fields = [sample_field 1 ''count'', sample_field 2 ''name'', sample_field 3 ''data'',
          sample_field 4 ''point'', sample_field 5 ''list''],
        ty_vtors = [(''count'', VInt32 0), (''name'', VString 0), (''data'', VByte 1),
          (''point'', VStruct 2 0), (''list'', VInt16 1)]\<rparr>
      else if t = 2
      then Some \<lparr>ty_id = 2, ty_fields = [sample_field 6 ''x''], ty_vtors = [(''x'', VInt64 0)]\<rparr>
      else None)"

definition sample_array :: etch_arrayvalue where
  "sample_array = \<lparr>av_class_id = 0x54, av_content_obj_type = ETCHTYPEB_PRIMITIVE,
     av_content_class_id = 4, av_dim = 1, av_type_code = ETCH_XTRNL_TYPECODE_SHORT,
     av_custom_struct_type = None, av_natarray = None\<rparr>"

definition sample_items :: "(unit, byte list) struct_items" where
  "sample_items =
     [(sample_field 1 ''count'', EInt32 300), (sample_field 2 ''name'', EString [104, 105]),
      (sample_field 3 ''data'', EBytes [7, 8]),
      (sample_field 4 ''point'', EStruct 2 [(sample_field 6 ''x'', EInt64 (- 5))]),
      (sample_field 5 ''list'', EArray sample_array [EInt16 1, EInt16 (- 70)])]"

definition sample_bytes :: "byte list" where
  "sample_bytes =
     [3, 1, 5,
      1, - 123, 1, 44,
      2, - 109, 2, 104, 105,
      3, - 117, 2, 7, 8,
      4, - 107, 2, 1, 6, - 5, - 127,
      5, - 111, - 123, 1, 2, 1, - 124, - 70, - 127,
      - 127]"

lemmas sample_defs = sample_env_def sample_field_def sample_types_def sample_array_def sample_items_def
  sample_bytes_def

lemma sample_point:
  "wire_value sample_env sample_types le (VStruct 2 0) (EStruct 2 [(sample_field 6 ''x'', EInt64 (- 5))])
    (ETCH_XTRNL_TYPECODE_CUSTOM # wire_int le (sint (2 :: int32)) @ wire_int le (int 1)
         @ (wire_int le (sint (6 :: int32)) @ wire_int le (sint (- 5 :: int64)) @ []) @ [ETCH_XTRNL_TYPECODE_NONE])"
proof -
  let ?ty = "\<lparr>ty_id = 2, ty_fields = [sample_field 6 ''x''], ty_vtors = [(''x'', VInt64 0)]\<rparr>"
  let ?items = "[(sample_field 6 ''x'', EInt64 (- 5))] :: (unit, byte list) struct_items"
  have items: "wire_items sample_env sample_types le ?ty ?items
      (wire_int le (sint (fld_id (sample_field 6 ''x''))) @ wire_int le (sint (- 5 :: int64)) @ [])"
    by (rule items_cons [OF _ _ wire_int64 items_nil])
       (simp_all add: sample_field_def etchtype_get_validator_by_name_def)
  have "wire_value sample_env sample_types le (VStruct 2 0) (EStruct 2 ?items)
    (ETCH_XTRNL_TYPECODE_CUSTOM # wire_int le (sint (2 :: int32)) @ wire_int le (int (length ?items))
         @ (wire_int le (sint (fld_id (sample_field 6 ''x''))) @ wire_int le (sint (- 5 :: int64)) @ [])
         @ [ETCH_XTRNL_TYPECODE_NONE])"
    by (rule wire_struct [OF _ _ _ _ _ _ _ _ _ items])
       (simp_all add: sample_env_def sample_types_def etch_typevtor_validate_value_def
         etchvtor_struct_validate_def etch_typevtor_validate_def source_numdims_def
         ETCHTYPEB_STRUCTVAL_def ETCHTYPEB_ETCHOBJECT_def CLASSID_STRUCTVALUE_def CLASSID_OBJECT_def)
  then show ?thesis by (simp add: sample_field_def)
qed


lemma sample_list:
  "wire_value sample_env sample_types le (VInt16 1) (EArray sample_array [EInt16 1, EInt16 (- 70)])
    (ETCH_XTRNL_TYPECODE_ARRAY # ETCH_XTRNL_TYPECODE_SHORT # wire_int le (sint (1 :: int32))
       @ wire_int le (int (length [EInt16 1, EInt16 (- 70) :: (unit, byte list) etch_object]))
       @ (wire_int le (sint (1 :: int16)) @ wire_int le (sint (- 70 :: int16)) @ [])
       @ [ETCH_XTRNL_TYPECODE_NONE])"
proof -
  have els: "wire_elems sample_env sample_types le (VInt16 0) [EInt16 1, EInt16 (- 70)]
      (wire_int le (sint (1 :: int16)) @ wire_int le (sint (- 70 :: int16)) @ [])"
    by (intro elems_cons wire_int16 elems_nil)
  show ?thesis
    by (rule wire_array [OF _ _ _ _ _ _ _ _ els])
       (simp_all add: bintdi_alloc_array_def bintdi_get_native_type_def typecode_defs sample_array_def
         etchvtor_int16_get_def vtor_get_def etchvtor_check_dimensions_def ETCHVTOR_MAX_NDIMS_def
         etchvtor_int16_validate_value_def etch_typevtor_validate_value_def
         etchvtor_int16_validate_def etch_typevtor_validate_def source_numdims_def
         ETCHTYPEB_ARRAYVAL_def ETCHTYPEB_ETCHOBJECT_def CLASSID_OBJECT_def)
qed

lemma sample_wire: "wire_message sample_env sample_types False 1 sample_items sample_bytes"
proof -
  let ?ty = "the (sample_types 1)"
  have s: "wire_value sample_env sample_types False (VString 0) (EString [104, 105])
      (ETCH_XTRNL_TYPECODE_STRING # wire_int False (int (length [104 :: byte, 105])) @ [104, 105])"
    by (rule wire_string) (simp_all add: sample_env_def)
  have b: "wire_value sample_env sample_types False (VByte 1) (EBytes [7, 8])
      (ETCH_XTRNL_TYPECODE_BYTES # wire_int False (int (length [7 :: byte, 8])) @ [7, 8])"
    by (rule wire_bytes) simp
  let ?point = "ETCH_XTRNL_TYPECODE_CUSTOM # wire_int False (sint (2 :: int32)) @ wire_int False (int 1)
      @ (wire_int False (sint (6 :: int32)) @ wire_int False (sint (- 5 :: int64)) @ [])
      @ [ETCH_XTRNL_TYPECODE_NONE]"
  let ?list = "ETCH_XTRNL_TYPECODE_ARRAY # ETCH_XTRNL_TYPECODE_SHORT # wire_int False (sint (1 :: int32))
      @ wire_int False (int (length [EInt16 1, EInt16 (- 70) :: (unit, byte list) etch_object]))
      @ (wire_int False (sint (1 :: int16)) @ wire_int False (sint (- 70 :: int16)) @ [])
      @ [ETCH_XTRNL_TYPECODE_NONE]"
  let ?bytes = "wire_int False (sint (fld_id (sample_field 1 ''count''))) @ wire_int False (sint (300 :: int32))
      @ wire_int False (sint (fld_id (sample_field 2 ''name'')))
      @ (ETCH_XTRNL_TYPECODE_STRING # wire_int False (int (length [104 :: byte, 105])) @ [104, 105])
      @ wire_int False (sint (fld_id (sample_field 3 ''data'')))
      @ (ETCH_XTRNL_TYPECODE_BYTES # wire_int False (int (length [7 :: byte, 8])) @ [7, 8])
      @ wire_int False (sint (fld_id (sample_field 4 ''point''))) @ ?point
      @ wire_int False (sint (fld_id (sample_field 5 ''list''))) @ ?list @ []"
  have "wire_items sample_env sample_types False ?ty sample_items ?bytes"
    unfolding sample_items_def
    by (rule items_cons [OF _ _ wire_int32 items_cons [OF _ _ s items_cons [OF _ _ b
          items_cons [OF _ _ sample_point items_cons [OF _ _ sample_list items_nil]]]]])
       (simp_all add: sample_field_def sample_types_def etchtype_get_validator_by_name_def)
  then have "wire_message sample_env sample_types False 1 sample_items
      (3 # wire_int False (sint (1 :: int32)) @ wire_int False (int (length sample_items)) @ ?bytes
        @ [ETCH_XTRNL_TYPECODE_NONE])"
    by (intro message [where ty = ?ty]) (simp_all add: sample_types_def sample_items_def sample_field_def)
  moreover have "3 # wire_int False (sint (1 :: int32)) @ wire_int False (int (length sample_items)) @ ?bytes
        @ [ETCH_XTRNL_TYPECODE_NONE] = sample_bytes"
    by (simp add: sample_bytes_def sample_items_def sample_field_def wire_int_def put_short_bytes_def typecode_defs)
  ultimately show ?thesis by simp
qed

end
