(* ===== verification/Serialization_Correct.thy ===== *)
theory Serialization_Correct
  imports WireRead BinaryTdo_Correct Sample
begin

text \<open>
  The properties of the serializer and the deserializer: what they do for the values of the wire
  format, and what the deserializer does for bytes that come from anywhere.
\<close>

section \<open>Reading arbitrary bytes\<close>

lemma message_read_any:
  "\<exists>x n. n \<le> length bs \<and> (\<forall>f fuel. fb_holds le bs f \<longrightarrow> length bs < fuel \<longrightarrow>
     bintdi_read_message ev types vw irt msg res fuel f = Some (x, f\<lparr>fb_index := fb_index f + n\<rparr>))"
proof -
  have "reads le bs (bintdi_read_message ev types vw irt msg res (Suc (length bs))) (\<lambda>_ _. True)"
    by (rule reads_message) simp
  then obtain x n where n: "n \<le> length bs" and x: "\<And>f. fb_holds le bs f \<Longrightarrow>
      bintdi_read_message ev types vw irt msg res (Suc (length bs)) f = Some (x, f\<lparr>fb_index := fb_index f + n\<rparr>)"
    by (auto simp: reads_def)
  show ?thesis
    by (intro exI conjI allI impI) (rule n, rule message_mono [OF x], auto)
qed



section \<open>Round trips\<close>

text \<open>Reading at the place where the bytes were put.\<close>

lemma put_at_holds:
  assumes "fb_inv f" and "fb_is_littleendian f = le" and p: "fb_put_at f bs f'"
  shows "fb_holds le (bs @ drop (fb_index f + length bs) (fb_data f)) (f'\<lparr>fb_index := fb_index f\<rparr>)"
    and "fb_index f' = fb_index f + length bs"
proof -
  show i: "fb_index f' = fb_index f + length bs" using p by (simp add: fb_put_at_def)
  have "length (take (fb_index f) (fb_data f)) = fb_index f"
    using assms(1) by (simp add: length_fb_data fb_invD)
  then have "fb_unread (f'\<lparr>fb_index := fb_index f\<rparr>) = bs @ drop (fb_index f + length bs) (fb_data f)"
    using p by (simp add: fb_unread_def fb_put_at_def) (simp add: fb_data_def)
  then show "fb_holds le (bs @ drop (fb_index f + length bs) (fb_data f)) (f'\<lparr>fb_index := fb_index f\<rparr>)"
    using p i assms(2) by (auto simp: fb_holds_def fb_put_at_def fb_inv_def)
qed

lemma parses_back:
  assumes r: "parses le bs op x" and f: "fb_inv f" "fb_is_littleendian f = le" and p: "fb_put_at f bs f'"
  shows "op (f'\<lparr>fb_index := fb_index f\<rparr>) = Some (x, f')"
proof -
  let ?g = "f'\<lparr>fb_index := fb_index f\<rparr>"
  have "op ?g = Some (x, ?g\<lparr>fb_index := fb_index f + length bs\<rparr>)"
    using r put_at_holds(1) [OF f p] by (auto simp: parses_def reads_def)
  moreover have "?g\<lparr>fb_index := fb_index f + length bs\<rparr> = f'"
    by (simp add: put_at_holds(2) [OF f p, symmetric])
  ultimately show ?thesis by simp
qed




section \<open>Integers\<close>

lemma int_object_check:
  assumes "x \<in> {EByte b, EInt8 b, EInt16 n, EInt32 i, EInt64 l}" and "etchtagdata_get_number ev x = Some w"
  shows "etchtagdata_check_value ev x = hd (wire_int le (sint w))"
  using assms check_byte_wire [of b le] check_short_wire [of n le] check_integer_wire [of i le]
    check_long_wire [of l le] by (auto simp: sint_scast_up)

text \<open>
  C10. The type code of an integer is that of its shortest form and depends on its value alone, not
  on the width it is stored in.
\<close>

theorem check_value_shortest:
  assumes "x \<in> {EByte b, EInt8 b, EInt16 n, EInt32 i, EInt64 l}" and "etchtagdata_get_number ev x = Some w"
  shows "etchtagdata_check_value ev x =
    (if - 64 \<le> sint w \<and> sint w \<le> 127 then ucast w
     else if - 128 \<le> sint w \<and> sint w \<le> 127 then ETCH_XTRNL_TYPECODE_BYTE
     else if - 32768 \<le> sint w \<and> sint w \<le> 32767 then ETCH_XTRNL_TYPECODE_SHORT
     else if - 2147483648 \<le> sint w \<and> sint w \<le> 2147483647 then ETCH_XTRNL_TYPECODE_INT
     else ETCH_XTRNL_TYPECODE_LONG)"
  unfolding int_object_check [OF assms, of True]
  by (auto simp: wire_int_def ucast_word_of_sint)

theorem check_value_shortest_witness:
  "etchtagdata_check_value sample_env (EInt64 300) = ETCH_XTRNL_TYPECODE_SHORT"
  using check_value_shortest [of "EInt64 300" 0 0 0 300 sample_env 300] by simp

text \<open>
  Every \<open>int\<close> written by \<open>bintdo_write_value_rawint\<close> (type ids, field ids, counts, lengths) is
  read back by \<open>bintdi_read_value_rawint\<close>, which stops exactly behind it.
\<close>

theorem rawint_round_trip:
  assumes "fb_inv f" and "fb_index f + 5 \<le> ETCH_MAX_FLEXBUFSIZE"
  shows "\<exists>f'. bintdo_write_value_rawint f v = Some (0, f')
    \<and> bintdi_read_value_rawint (f'\<lparr>fb_index := fb_index f\<rparr>) = Some ((0, v), f')"
proof -
  let ?le = "fb_is_littleendian f" and ?bs = "wire_int (fb_is_littleendian f) (sint v)"
  have "length ?bs \<le> 5" using sint_range_size [of v] by (auto simp: wire_int_def word_size)
  then obtain f' where w: "bintdo_write_value_rawint f v = Some (0, f')" and p: "fb_put_at f ?bs f'"
    using writes_rawint [of ?le v] assms by (fastforce simp: writes_def)
  have "bintdi_read_value_rawint (f'\<lparr>fb_index := fb_index f\<rparr>) = Some ((0, v), f')"
    by (rule parses_back [OF parses_rawint assms(1) refl p])
  with w show ?thesis by blast
qed

theorem rawint_round_trip_witness:
  "\<exists>f'. bintdo_write_value_rawint (new_flexbuffer (\<lambda>_. 0) 0) (- 70000) = Some (0, f')
    \<and> bintdi_read_value_rawint (f'\<lparr>fb_index := 0\<rparr>) = Some ((0, - 70000), f')"
  using rawint_round_trip [OF new_flexbuffer_inv, of "\<lambda>_. 0" 0 "- 70000"]
  by (simp add: ETCH_MAX_FLEXBUFSIZE_def)

lemma sint_ranges:
  "- 128 \<le> sint (b :: byte)" "sint b < 128"
  "- 32768 \<le> sint (n :: int16)" "sint n < 32768"
  "- 2147483648 \<le> sint (i :: int32)" "sint i < 2147483648"
  "- 32768 \<le> sint b" "sint b < 32768" "- 2147483648 \<le> sint b" "sint b < 2147483648"
  "- 2147483648 \<le> sint n" "sint n < 2147483648"
  using sint_range_size [of b] sint_range_size [of n] sint_range_size [of i] by (simp_all add: word_size)

lemma narrow_exact:
  assumes "- (2 ^ (LENGTH('a :: len) - 1)) \<le> sint x" and "sint x < 2 ^ (LENGTH('a) - 1)"
    and "LENGTH('a) \<le> LENGTH('c :: len)" and "LENGTH('b :: len) \<le> LENGTH('c)"
  shows "scast (ucast (scast (x :: 'b word) :: 'c word) :: 'a word) = (scast x :: 'c word)"
proof -
  have "(ucast (scast x :: 'c word) :: 'a word) = word_of_int (sint (scast x :: 'c word))"
    using assms(3) by (rule ucast_word_of_sint)
  also have "sint (scast x :: 'c word) = sint x" using assms(4) by (rule sint_scast_up)
  finally have "sint (ucast (scast x :: 'c word) :: 'a word) = sint x"
    using sint_word_of_int [OF assms(1,2)] by simp
  then show ?thesis by (metis of_int_sint)
qed

lemma narrow_exact_same:
  assumes "- (2 ^ (LENGTH('a :: len) - 1)) \<le> sint x" and "sint x < 2 ^ (LENGTH('a) - 1)"
    and "LENGTH('a) \<le> LENGTH('c :: len)"
  shows "scast (ucast (x :: 'c word) :: 'a word) = x"
  using narrow_exact [OF assms order_refl] by simp

lemmas validate_value_defs = etchvtor_byte_validate_value_def etchvtor_int16_validate_value_def
  etchvtor_int32_validate_value_def etchvtor_int64_validate_value_def etch_typevtor_validate_value_def
  etchvtor_byte_validate_def etchvtor_int16_validate_def etchvtor_int32_validate_def
  etchvtor_int64_validate_def is_inrange_byte_def is_inrange_int16_def is_inrange_int32_def
  is_inrange_bool_def etchtagdata_byte_value_def etchtagdata_int16_value_def
  etchtagdata_int32_value_def etchtagdata_int64_value_def



end
