(* ===== verification/Queue.thy ===== *)
theory Queue
  imports Prelude
begin

text \<open>
  The blocking queue of a mailbox: the ring buffer of \<open>src/main/support/etch_queue_apr.c\<close> and its
  wrapper \<open>src/main/transport/etch_queue.c\<close>.

  \<^item> \<open>etch_apr_queue_t\<close> is a record; \<open>aq_data\<close> is the array of pointers, a slot that was never used
    is \<open>None\<close>.  An outer \<open>None\<close> of an operation is an access outside this array.
  \<^item> The code between two points where the mutex is released is one step.  A push that has to wait
    is \<open>apr_push_locked\<close>, which ends in \<open>Blocks\<close>, and \<open>apr_push_woken\<close>, which runs when the wait on
    the condition variable returns.  \<open>etch_apr_queue_push\<close> composes them for one caller, with
    \<open>cond_wait\<close>, the call of \<open>apr_thread_cond_wait\<close> or \<open>apr_thread_cond_timedwait\<close>, as a parameter:
    it returns the status and the queue as the other threads leave it.
  \<^item> Locking a mutex and signalling a condition variable succeed.
\<close>

record 'a etch_apr_queue =
  aq_data :: "'a option list"
  aq_nelts :: nat
  aq_in :: nat
  aq_out :: nat
  aq_bounds :: nat
  aq_full_waiters :: nat
  aq_empty_waiters :: nat
  aq_terminated :: bool

definition ETCHQUEUE_CLEARING_CLOSED_QUEUE :: int where
  "ETCHQUEUE_CLEARING_CLOSED_QUEUE = - 2"

section \<open>The ring buffer\<close>

definition etch_apr_queue_full :: "'a etch_apr_queue \<Rightarrow> bool" where
  "etch_apr_queue_full queue \<longleftrightarrow> aq_nelts queue = aq_bounds queue"

definition etch_apr_queue_empty :: "'a etch_apr_queue \<Rightarrow> bool" where
  "etch_apr_queue_empty queue \<longleftrightarrow> aq_nelts queue = 0"

definition etch_apr_queue_create :: "nat \<Rightarrow> 'a etch_apr_queue" where
  "etch_apr_queue_create queue_capacity =
     \<lparr>aq_data = replicate queue_capacity None, aq_nelts = 0, aq_in = 0, aq_out = 0,
      aq_bounds = queue_capacity, aq_full_waiters = 0, aq_empty_waiters = 0, aq_terminated = False\<rparr>"

definition apr_enqueue :: "'a \<Rightarrow> 'a etch_apr_queue \<Rightarrow> (apr_status \<times> 'a etch_apr_queue) option" where
  "apr_enqueue data queue =
     (if aq_in queue < length (aq_data queue)
      then Some (APR_SUCCESS, queue\<lparr>aq_data := (aq_data queue)[aq_in queue := Some data],
             aq_in := (aq_in queue + 1) mod aq_bounds queue, aq_nelts := aq_nelts queue + 1\<rparr>)
      else None)"

text \<open>The slot keeps its content.\<close>

definition apr_dequeue ::
  "'a etch_apr_queue \<Rightarrow> (apr_status \<times> 'a option \<times> 'a etch_apr_queue) option" where
  "apr_dequeue queue =
     (if aq_out queue < length (aq_data queue)
      then Some (APR_SUCCESS, aq_data queue ! aq_out queue, queue\<lparr>aq_nelts := aq_nelts queue - 1,
             aq_out := (aq_out queue + 1) mod aq_bounds queue\<rparr>)
      else None)"

section \<open>Push and pop\<close>

datatype ('r, 'q) locked = Done 'r | Blocks 'q

definition apr_push_locked ::
  "int \<Rightarrow> 'a \<Rightarrow> 'a etch_apr_queue
     \<Rightarrow> ((apr_status \<times> 'a etch_apr_queue) option, 'a etch_apr_queue) locked" where
  "apr_push_locked timeout data queue =
     (if etch_apr_queue_full queue
      then (if \<not> aq_terminated queue
            then (if timeout = - 1 then Done (Some (APR_EAGAIN, queue))
                  else Blocks (queue\<lparr>aq_full_waiters := aq_full_waiters queue + 1\<rparr>))
            else Done (Some (APR_EOF, queue)))
      else Done (apr_enqueue data queue))"

definition apr_push_woken ::
  "apr_status \<Rightarrow> 'a \<Rightarrow> 'a etch_apr_queue \<Rightarrow> (apr_status \<times> 'a etch_apr_queue) option" where
  "apr_push_woken rv data queue =
     (let queue = queue\<lparr>aq_full_waiters := aq_full_waiters queue - 1\<rparr>
      in if rv \<noteq> APR_SUCCESS then Some (rv, queue)
         else if etch_apr_queue_full queue
         then Some (if aq_terminated queue then APR_EOF else APR_EINTR, queue)
         else apr_enqueue data queue)"

definition etch_apr_queue_push ::
  "(int \<Rightarrow> 'a etch_apr_queue \<Rightarrow> apr_status \<times> 'a etch_apr_queue)
     \<Rightarrow> 'a etch_apr_queue \<Rightarrow> int \<Rightarrow> 'a \<Rightarrow> (apr_status \<times> 'a etch_apr_queue) option" where
  "etch_apr_queue_push cond_wait queue timeout data =
     (if aq_terminated queue then Some (APR_EOF, queue)
      else case apr_push_locked timeout data queue of
             Done r \<Rightarrow> r
           | Blocks queue \<Rightarrow> let (rv, queue) = cond_wait timeout queue in apr_push_woken rv data queue)"

definition etch_apr_queue_trypush ::
  "'a etch_apr_queue \<Rightarrow> 'a \<Rightarrow> (apr_status \<times> 'a etch_apr_queue) option" where
  "etch_apr_queue_trypush queue data =
     (if aq_terminated queue then Some (APR_EOF, queue)
      else if etch_apr_queue_full queue then Some (APR_EAGAIN, queue)
      else apr_enqueue data queue)"

definition etch_apr_queue_size :: "'a etch_apr_queue \<Rightarrow> nat" where
  "etch_apr_queue_size queue = aq_nelts queue"

definition apr_pop_locked ::
  "int \<Rightarrow> 'a etch_apr_queue
     \<Rightarrow> ((apr_status \<times> 'a option \<times> 'a etch_apr_queue) option, 'a etch_apr_queue) locked" where
  "apr_pop_locked timeout queue =
     (if etch_apr_queue_empty queue
      then (if timeout = - 1 then Done (Some (APR_EAGAIN, None, queue))
            else if \<not> aq_terminated queue
            then Blocks (queue\<lparr>aq_empty_waiters := aq_empty_waiters queue + 1\<rparr>)
            else Done (Some (APR_EOF, None, queue)))
      else Done (apr_dequeue queue))"

definition apr_pop_woken ::
  "apr_status \<Rightarrow> 'a etch_apr_queue \<Rightarrow> (apr_status \<times> 'a option \<times> 'a etch_apr_queue) option" where
  "apr_pop_woken rv queue =
     (let queue = queue\<lparr>aq_empty_waiters := aq_empty_waiters queue - 1\<rparr>
      in if rv \<noteq> APR_SUCCESS then Some (rv, None, queue)
         else if etch_apr_queue_empty queue
         then Some (if aq_terminated queue then APR_EOF else APR_EINTR, None, queue)
         else apr_dequeue queue)"

text \<open>\<open>*data\<close> is \<open>None\<close> where the code does not assign it.\<close>

definition etch_apr_queue_pop ::
  "(int \<Rightarrow> 'a etch_apr_queue \<Rightarrow> apr_status \<times> 'a etch_apr_queue)
     \<Rightarrow> 'a etch_apr_queue \<Rightarrow> int \<Rightarrow> (apr_status \<times> 'a option \<times> 'a etch_apr_queue) option" where
  "etch_apr_queue_pop cond_wait queue timeout =
     (if aq_terminated queue \<and> timeout \<noteq> ETCHQUEUE_CLEARING_CLOSED_QUEUE
      then Some (APR_EOF, None, queue)
      else case apr_pop_locked timeout queue of
             Done r \<Rightarrow> r
           | Blocks queue \<Rightarrow> let (rv, queue) = cond_wait timeout queue in apr_pop_woken rv queue)"

definition etch_apr_queue_trypop ::
  "'a etch_apr_queue \<Rightarrow> (apr_status \<times> 'a option \<times> 'a etch_apr_queue) option" where
  "etch_apr_queue_trypop queue =
     (if aq_terminated queue then Some (APR_EOF, None, queue)
      else if etch_apr_queue_empty queue then Some (APR_EAGAIN, None, queue)
      else apr_dequeue queue)"

definition etch_apr_queue_term :: "'a etch_apr_queue \<Rightarrow> apr_status \<times> 'a etch_apr_queue" where
  "etch_apr_queue_term queue = (APR_SUCCESS, queue\<lparr>aq_terminated := True\<rparr>)"

definition etch_apr_queue_unsafeclose :: "'a etch_apr_queue \<Rightarrow> apr_status \<times> 'a etch_apr_queue" where
  "etch_apr_queue_unsafeclose queue = (APR_SUCCESS, queue\<lparr>aq_terminated := True\<rparr>)"

section \<open>etch_queue\<close>

definition ETCH_DEFQSIZE :: int where "ETCH_DEFQSIZE = 32"
definition ETCH_INFWAIT :: int where "ETCH_INFWAIT = 0"
definition ETCH_QUEUE_OPERATION_TIMEOUT :: int where "ETCH_QUEUE_OPERATION_TIMEOUT = 1"
definition ETCH_QUEUE_OPERATION_CANCELED :: int where "ETCH_QUEUE_OPERATION_CANCELED = 2"
definition ETCH_QUEUE_EOF :: int where "ETCH_QUEUE_EOF = 3"

definition new_queue :: "int \<Rightarrow> 'a etch_apr_queue" where
  "new_queue initialsize =
     etch_apr_queue_create (nat (if initialsize > 0 then initialsize else ETCH_DEFQSIZE))"

definition etchqueue_size :: "'a etch_apr_queue \<Rightarrow> nat" where
  "etchqueue_size thisx = etch_apr_queue_size thisx"

definition etchqueue_is_closed :: "'a etch_apr_queue \<Rightarrow> bool" where
  "etchqueue_is_closed thisx = aq_terminated thisx"

definition etchqueue_is_full :: "'a etch_apr_queue \<Rightarrow> bool" where
  "etchqueue_is_full thisx \<longleftrightarrow> aq_nelts thisx = aq_bounds thisx"

definition etchqueue_close :: "'a etch_apr_queue \<Rightarrow> bool \<Rightarrow> int \<times> 'a etch_apr_queue" where
  "etchqueue_close thisx is_needlock =
     (if \<not> etchqueue_is_closed thisx
      then let (result, thisx) = (if is_needlock then etch_apr_queue_term thisx
                                  else etch_apr_queue_unsafeclose thisx)
           in (if result = APR_SUCCESS then 0 else - 1, thisx)
      else (0, thisx))"

text \<open>
  Milliseconds to microseconds: the product of two \<open>int\<close>s, whose overflow is undefined (\<open>None\<close>).
\<close>

definition wait_microseconds :: "int \<Rightarrow> int option" where
  "wait_microseconds waitms = (if waitms * 1000 \<le> 2147483647 then Some (waitms * 1000) else None)"

definition put_result :: "apr_status \<Rightarrow> int" where
  "put_result aprresult =
     (if aprresult = APR_SUCCESS then 0
      else if aprresult = APR_EAGAIN \<or> aprresult = APR_TIMEUP then ETCH_QUEUE_OPERATION_TIMEOUT
      else if aprresult = APR_EINTR then ETCH_QUEUE_OPERATION_CANCELED
      else - 1)"

definition etchqueue_put_withwait ::
  "(int \<Rightarrow> 'a etch_apr_queue \<Rightarrow> apr_status \<times> 'a etch_apr_queue)
     \<Rightarrow> 'a etch_apr_queue \<Rightarrow> int \<Rightarrow> 'a \<Rightarrow> (int \<times> 'a etch_apr_queue) option" where
  "etchqueue_put_withwait cond_wait thisx waitms item = do {
     wait_usec \<leftarrow> (if waitms < 0 then Some (- 1) else wait_microseconds waitms);
     (if etchqueue_is_closed thisx then Some (- 1, thisx)
      else do {
        (aprresult, thisx) \<leftarrow> etch_apr_queue_push cond_wait thisx wait_usec item;
        Some (put_result aprresult, thisx)
      })
   }"

definition etchqueue_put ::
  "(int \<Rightarrow> 'a etch_apr_queue \<Rightarrow> apr_status \<times> 'a etch_apr_queue)
     \<Rightarrow> 'a etch_apr_queue \<Rightarrow> 'a \<Rightarrow> (int \<times> 'a etch_apr_queue) option" where
  "etchqueue_put cond_wait thisx item = etchqueue_put_withwait cond_wait thisx ETCH_INFWAIT item"

definition get_result :: "apr_status \<Rightarrow> int" where
  "get_result aprresult =
     (if aprresult = APR_SUCCESS then 0
      else if aprresult = APR_EAGAIN \<or> aprresult = APR_TIMEUP then ETCH_QUEUE_OPERATION_TIMEOUT
      else if aprresult = APR_EINTR then ETCH_QUEUE_OPERATION_CANCELED
      else if aprresult = APR_EOF then ETCH_QUEUE_EOF
      else - 1)"

definition etchqueue_get_withwait ::
  "(int \<Rightarrow> 'a etch_apr_queue \<Rightarrow> apr_status \<times> 'a etch_apr_queue)
     \<Rightarrow> 'a etch_apr_queue \<Rightarrow> int \<Rightarrow> (int \<times> 'a option \<times> 'a etch_apr_queue) option" where
  "etchqueue_get_withwait cond_wait thisx waitms = do {
     wait_usec \<leftarrow> (if waitms < 0 then Some waitms else wait_microseconds waitms);
     (if etchqueue_is_closed thisx \<and> waitms \<noteq> ETCHQUEUE_CLEARING_CLOSED_QUEUE
      then Some (- 1, None, thisx)
      else do {
        (aprresult, itemout, thisx) \<leftarrow> etch_apr_queue_pop cond_wait thisx wait_usec;
        Some (get_result aprresult, itemout, thisx)
      })
   }"

definition etchqueue_get ::
  "(int \<Rightarrow> 'a etch_apr_queue \<Rightarrow> apr_status \<times> 'a etch_apr_queue)
     \<Rightarrow> 'a etch_apr_queue \<Rightarrow> (int \<times> 'a option \<times> 'a etch_apr_queue) option" where
  "etchqueue_get cond_wait thisx = etchqueue_get_withwait cond_wait thisx ETCH_INFWAIT"

definition etchqueue_try_put :: "'a etch_apr_queue \<Rightarrow> 'a \<Rightarrow> (int \<times> 'a etch_apr_queue) option" where
  "etchqueue_try_put thisx item = do {
     (result, thisx) \<leftarrow> etch_apr_queue_trypush thisx item;
     Some (if result = APR_SUCCESS then 0 else - 1, thisx)
   }"

definition etchqueue_try_get :: "'a etch_apr_queue \<Rightarrow> (int \<times> 'a option \<times> 'a etch_apr_queue) option" where
  "etchqueue_try_get thisx = do {
     (result, itemout, thisx) \<leftarrow> etch_apr_queue_trypop thisx;
     Some (if result = APR_SUCCESS then 0 else - 1, itemout, thisx)
   }"

section \<open>Iteration\<close>

text \<open>The iterator walks the array from its first slot, not from the first element.\<close>

record 'a queue_iterator =
  it_current :: "'a option"
  it_ordinal :: nat

definition etchqueue_iterable_first ::
  "'a etch_apr_queue \<Rightarrow> 'a queue_iterator \<Rightarrow> (int \<times> 'a queue_iterator) option" where
  "etchqueue_iterable_first etchq iter =
     (if etchqueue_size etchq = 0 then Some (- 1, iter)
      else if 0 < length (aq_data etchq)
      then let cur = aq_data etchq ! 0; ord = (if cur \<noteq> None then 1 else 0)
           in Some (if ord \<noteq> 0 then 0 else - 1, \<lparr>it_current = cur, it_ordinal = ord\<rparr>)
      else None)"

definition etchqueue_iterable_next ::
  "'a etch_apr_queue \<Rightarrow> 'a queue_iterator \<Rightarrow> (int \<times> 'a queue_iterator) option" where
  "etchqueue_iterable_next etchq iter =
     (if etchqueue_size etchq = 0 \<or> it_ordinal iter = 0 then Some (- 1, iter)
      else if it_ordinal iter < length (aq_data etchq)
      then let cur = aq_data etchq ! it_ordinal iter; ord = (if cur \<noteq> None then it_ordinal iter + 1 else 0)
           in Some (if ord \<noteq> 0 then 0 else - 1, \<lparr>it_current = cur, it_ordinal = ord\<rparr>)
      else None)"

definition etchqueue_iterable_has_next :: "'a etch_apr_queue \<Rightarrow> 'a queue_iterator \<Rightarrow> bool" where
  "etchqueue_iterable_has_next etchq iter \<longleftrightarrow>
     etchqueue_size etchq \<noteq> 0 \<and> it_ordinal iter \<noteq> 0 \<and> it_ordinal iter \<le> etchqueue_size etchq"

text \<open>\<open>etchqueue_clear\<close>: the loop that empties a queue before it is destroyed.\<close>

fun queue_clear_loop :: "nat \<Rightarrow> 'a etch_apr_queue \<Rightarrow> 'a option list \<Rightarrow> ('a option list \<times> 'a etch_apr_queue) outcome" where
  "queue_clear_loop 0 thisx freed = Diverges"
| "queue_clear_loop (Suc fuel) thisx freed =
     (case etchqueue_get_withwait (\<lambda>_ q. (APR_EINTR, q)) thisx ETCHQUEUE_CLEARING_CLOSED_QUEUE of
        None \<Rightarrow> Fault
      | Some (result, qobj, thisx) \<Rightarrow>
          if result \<noteq> 0 then Returns (freed, thisx) else queue_clear_loop fuel thisx (freed @ [qobj]))"

definition etchqueue_clear :: "nat \<Rightarrow> 'a etch_apr_queue \<Rightarrow> ('a option list \<times> 'a etch_apr_queue) outcome" where
  "etchqueue_clear fuel thisx = queue_clear_loop fuel (snd (etchqueue_close thisx True)) []"

end
