(* ===== verification/Queue_Correct.thy ===== *)
theory Queue_Correct
  imports Queue
begin

text \<open>
  The ring buffer is a bounded first-in first-out queue, for one caller and for any number of
  threads.

  \<^item> \<open>aq_inv\<close> is the invariant, \<open>aq_list\<close> the elements from the oldest to the newest.
  \<^item> \<open>bounded_fifo\<close> is the contract of a bounded queue; it is interpreted on \<open>etch_apr_queue_trypush\<close>
    and \<open>etch_apr_queue_trypop\<close>.
  \<^item> \<open>queue_step\<close> is the step relation of threads that push, pop and close: a step ends where the code
    releases the mutex.
\<close>

section \<open>The invariant and the elements\<close>

definition aq_inv :: "'a etch_apr_queue \<Rightarrow> bool" where
  "aq_inv q \<longleftrightarrow> length (aq_data q) = aq_bounds q \<and> aq_out q < aq_bounds q
     \<and> aq_nelts q \<le> aq_bounds q \<and> aq_in q = (aq_out q + aq_nelts q) mod aq_bounds q
     \<and> (\<forall>i < aq_nelts q. aq_data q ! ((aq_out q + i) mod aq_bounds q) \<noteq> None)"

definition aq_list :: "'a etch_apr_queue \<Rightarrow> 'a list" where
  "aq_list q = map (\<lambda>i. the (aq_data q ! ((aq_out q + i) mod aq_bounds q))) [0..<aq_nelts q]"

lemma length_aq_list [simp]: "length (aq_list q) = aq_nelts q"
  by (simp add: aq_list_def)

lemma aq_list_empty [simp]: "aq_list q = [] \<longleftrightarrow> aq_nelts q = 0"
  using length_aq_list [of q] by (metis length_0_conv)

lemma create_inv: "0 < n \<Longrightarrow> aq_inv (etch_apr_queue_create n)"
  by (simp add: aq_inv_def etch_apr_queue_create_def)

lemma create_list [simp]: "aq_list (etch_apr_queue_create n) = []"
  by (simp add: aq_list_def etch_apr_queue_create_def)

text \<open>The waiter counts and the closed mark are not part of the elements.\<close>

lemma aq_inv_update [simp]:
  "aq_inv (q\<lparr>aq_full_waiters := n\<rparr>) = aq_inv q"
  "aq_inv (q\<lparr>aq_empty_waiters := n\<rparr>) = aq_inv q"
  "aq_inv (q\<lparr>aq_terminated := b\<rparr>) = aq_inv q"
  by (simp_all add: aq_inv_def)

lemma aq_list_update [simp]:
  "aq_list (q\<lparr>aq_full_waiters := n\<rparr>) = aq_list q"
  "aq_list (q\<lparr>aq_empty_waiters := n\<rparr>) = aq_list q"
  "aq_list (q\<lparr>aq_terminated := b\<rparr>) = aq_list q"
  by (simp_all add: aq_list_def)

lemma full_update [simp]:
  "etch_apr_queue_full (q\<lparr>aq_full_waiters := n\<rparr>) = etch_apr_queue_full q"
  "etch_apr_queue_empty (q\<lparr>aq_empty_waiters := n\<rparr>) = etch_apr_queue_empty q"
  by (simp_all add: etch_apr_queue_full_def etch_apr_queue_empty_def)

lemma mod_slots_distinct:
  assumes "i < j" and "j < n + i"
  shows "(a + i) mod n \<noteq> (a + j) mod (n :: nat)"
proof
  assume "(a + i) mod n = (a + j) mod n"
  then have "n dvd (a + j) - (a + i)"
    using assms(1) by (metis mod_eq_dvd_iff_nat add_le_cancel_left less_imp_le)
  then have "n dvd j - i" by simp
  then have "n \<le> j - i" using assms(1) by (intro dvd_imp_le) auto
  then show False using assms by linarith
qed

section \<open>A bounded queue\<close>

text \<open>A run of operations that are possible, puts (\<open>Some x\<close>) and gets (\<open>None\<close>), with the items got.\<close>

fun fifo_possible :: "nat \<Rightarrow> nat \<Rightarrow> 'a option list \<Rightarrow> bool" where
  "fifo_possible b n [] = True"
| "fifo_possible b n (Some x # ps) = (n < b \<and> fifo_possible b (n + 1) ps)"
| "fifo_possible b n (None # ps) = (0 < n \<and> fifo_possible b (n - 1) ps)"

fun fifo_run :: "('a \<Rightarrow> 'q \<Rightarrow> 'q option) \<Rightarrow> ('q \<Rightarrow> ('a \<times> 'q) option) \<Rightarrow> 'a option list
    \<Rightarrow> 'q \<times> 'a list \<Rightarrow> ('q \<times> 'a list) option" where
  "fifo_run enq deq [] s = Some s"
| "fifo_run enq deq (Some x # ps) (q, out) = do { q \<leftarrow> enq x q; fifo_run enq deq ps (q, out) }"
| "fifo_run enq deq (None # ps) (q, out) = do { (x, q) \<leftarrow> deq q; fifo_run enq deq ps (q, out @ [x]) }"

locale bounded_fifo =
  fixes inv :: "'q \<Rightarrow> bool" and elems :: "'q \<Rightarrow> 'a list" and bound :: "'q \<Rightarrow> nat"
    and enq :: "'a \<Rightarrow> 'q \<Rightarrow> 'q option" and deq :: "'q \<Rightarrow> ('a \<times> 'q) option"
  assumes bounded: "inv q \<Longrightarrow> length (elems q) \<le> bound q"
    and enq: "inv q \<Longrightarrow> length (elems q) < bound q \<Longrightarrow>
      \<exists>q'. enq x q = Some q' \<and> inv q' \<and> elems q' = elems q @ [x] \<and> bound q' = bound q"
    and deq: "inv q \<Longrightarrow> elems q \<noteq> [] \<Longrightarrow>
      \<exists>q'. deq q = Some (hd (elems q), q') \<and> inv q' \<and> elems q' = tl (elems q) \<and> bound q' = bound q"
begin

lemma fifo_run_order:
  assumes "inv q" and "fifo_possible (bound q) (length (elems q)) ps"
  shows "\<exists>q' out'. fifo_run enq deq ps (q, out) = Some (q', out') \<and> inv q' \<and> bound q' = bound q
    \<and> out' @ elems q' = out @ elems q @ List.map_filter id ps"
  using assms
proof (induction ps arbitrary: q out)
  case Nil
  then show ?case by (simp add: List.map_filter_def)
next
  case (Cons p ps)
  show ?case
  proof (cases p)
    case None
    then have "elems q \<noteq> []" using Cons.prems by auto
    then obtain q' where q': "deq q = Some (hd (elems q), q')" "inv q'" "elems q' = tl (elems q)"
        "bound q' = bound q"
      using deq Cons.prems(1) by blast
    then have "fifo_possible (bound q') (length (elems q')) ps" using Cons.prems None by simp
    from Cons.IH [OF q'(2) this, of "out @ [hd (elems q)]"] show ?thesis
      using q' None \<open>elems q \<noteq> []\<close> by (auto simp: List.map_filter_simps)
  next
    case (Some x)
    then have "length (elems q) < bound q" using Cons.prems by simp
    then obtain q' where q': "enq x q = Some q'" "inv q'" "elems q' = elems q @ [x]" "bound q' = bound q"
      using enq Cons.prems(1) by blast
    then have "fifo_possible (bound q') (length (elems q')) ps" using Cons.prems Some by simp
    from Cons.IH [OF q'(2) this, of out] show ?thesis
      using q' Some by (auto simp: List.map_filter_simps)
  qed
qed

end

lemma enqueue_ring:
  assumes inv: "aq_inv q" and room: "aq_nelts q < aq_bounds q"
  shows "\<exists>q'. apr_enqueue x q = Some (APR_SUCCESS, q') \<and> aq_inv q' \<and> aq_list q' = aq_list q @ [x]
    \<and> aq_bounds q' = aq_bounds q \<and> aq_terminated q' = aq_terminated q
    \<and> aq_full_waiters q' = aq_full_waiters q \<and> aq_empty_waiters q' = aq_empty_waiters q"
proof -
  let ?b = "aq_bounds q" and ?o = "aq_out q" and ?n = "aq_nelts q"
  have b: "0 < ?b" using room by simp
  have len: "length (aq_data q) = ?b" and inn: "aq_in q = (?o + ?n) mod ?b"
    and some: "\<forall>i < ?n. aq_data q ! ((?o + i) mod ?b) \<noteq> None"
    using inv by (auto simp: aq_inv_def)
  have inlt: "aq_in q < length (aq_data q)" using inn len b by simp
  let ?d = "(aq_data q)[aq_in q := Some x]"
  let ?q = "q\<lparr>aq_data := ?d, aq_in := (aq_in q + 1) mod ?b, aq_nelts := ?n + 1\<rparr>"
  have old: "?d ! ((?o + i) mod ?b) = aq_data q ! ((?o + i) mod ?b)" if "i < ?n" for i
    using mod_slots_distinct [of i ?n ?b ?o] that room inn by simp
  have new: "?d ! ((?o + ?n) mod ?b) = Some x" using inlt inn by simp
  have "aq_list ?q = aq_list q @ [x]"
    using new by (auto simp: aq_list_def old intro!: map_cong)
  moreover have "\<forall>i < ?n + 1. ?d ! ((?o + i) mod ?b) \<noteq> None"
    using some old new by (simp add: less_Suc_eq del: not_None_eq)
  then have "aq_inv ?q"
    using inv len room inn by (simp add: aq_inv_def mod_Suc_eq del: not_None_eq)
  ultimately show ?thesis using inlt by (intro exI [of _ ?q]) (simp add: apr_enqueue_def)
qed

lemma dequeue_ring:
  assumes inv: "aq_inv q" and ne: "aq_nelts q \<noteq> 0"
  shows "\<exists>q'. apr_dequeue q = Some (APR_SUCCESS, Some (hd (aq_list q)), q') \<and> aq_inv q'
    \<and> aq_list q' = tl (aq_list q) \<and> aq_bounds q' = aq_bounds q \<and> aq_terminated q' = aq_terminated q
    \<and> aq_full_waiters q' = aq_full_waiters q \<and> aq_empty_waiters q' = aq_empty_waiters q"
proof -
  let ?b = "aq_bounds q" and ?o = "aq_out q" and ?n = "aq_nelts q"
  let ?q = "q\<lparr>aq_nelts := ?n - 1, aq_out := (?o + 1) mod ?b\<rparr>"
  have len: "length (aq_data q) = ?b" and o: "?o < ?b" and n: "?n \<le> ?b" and inn: "aq_in q = (?o + ?n) mod ?b"
    and some: "\<forall>i < ?n. aq_data q ! ((?o + i) mod ?b) \<noteq> None"
    using inv by (auto simp: aq_inv_def)
  have shift: "((?o + 1) mod ?b + i) mod ?b = (?o + Suc i) mod ?b" for i
    using mod_add_left_eq [of "?o + 1" ?b i] by simp
  obtain m where m: "?n = Suc m" using ne not0_implies_Suc by blast
  have upt: "[0..<?n] = 0 # map Suc [0..<m]" using m by (simp add: upt_conv_Cons map_Suc_upt del: upt_Suc)
  have d0: "aq_data q ! ?o \<noteq> None" using some [rule_format, of 0] m o by simp
  have hd: "aq_data q ! ?o = Some (hd (aq_list q))"
    using d0 o by (simp add: aq_list_def upt del: upt_Suc)
  have tl: "aq_list ?q = tl (aq_list q)"
  proof -
    have "aq_list ?q = map (\<lambda>i. the (aq_data q ! ((?o + Suc i) mod ?b))) [0..<m]"
      using shift m by (simp add: aq_list_def)
    moreover have "aq_list q = map (\<lambda>i. the (aq_data q ! ((?o + i) mod ?b))) (0 # map Suc [0..<m])"
      by (simp only: aq_list_def upt)
    ultimately show ?thesis by (simp add: comp_def)
  qed
  have "aq_data q ! (((?o + 1) mod ?b + i) mod ?b) \<noteq> None" if "i < ?n - 1" for i
    unfolding shift by (rule some [rule_format]) (use that in simp)
  moreover have "((?o + 1) mod ?b + (?n - 1)) mod ?b = aq_in q"
    unfolding shift using inn m by simp
  ultimately have "aq_inv ?q"
    using len o n by (simp add: aq_inv_def del: not_None_eq)
  with hd tl show ?thesis using len o by (intro exI [of _ ?q]) (simp add: apr_dequeue_def)
qed

definition trypush_ok :: "'a \<Rightarrow> 'a etch_apr_queue \<Rightarrow> 'a etch_apr_queue option" where
  "trypush_ok x q = (case etch_apr_queue_trypush q x of Some (APR_SUCCESS, q') \<Rightarrow> Some q' | _ \<Rightarrow> None)"

definition trypop_ok :: "'a etch_apr_queue \<Rightarrow> ('a \<times> 'a etch_apr_queue) option" where
  "trypop_ok q = (case etch_apr_queue_trypop q of Some (APR_SUCCESS, Some x, q') \<Rightarrow> Some (x, q') | _ \<Rightarrow> None)"

interpretation ring: bounded_fifo "\<lambda>q. aq_inv q \<and> \<not> aq_terminated q" aq_list aq_bounds trypush_ok trypop_ok
proof (unfold_locales, goal_cases)
  case (1 q)
  then show ?case by (simp add: aq_inv_def)
next
  case (2 q x)
  then obtain q' where "apr_enqueue x q = Some (APR_SUCCESS, q')" "aq_inv q'" "aq_list q' = aq_list q @ [x]"
      "aq_bounds q' = aq_bounds q" "aq_terminated q' = aq_terminated q"
    using enqueue_ring by fastforce
  then show ?case using 2 by (simp add: trypush_ok_def etch_apr_queue_trypush_def etch_apr_queue_full_def)
next
  case (3 q)
  then have ne: "aq_nelts q \<noteq> 0" by simp
  then obtain q' where "apr_dequeue q = Some (APR_SUCCESS, Some (hd (aq_list q)), q')" "aq_inv q'"
      "aq_list q' = tl (aq_list q)" "aq_bounds q' = aq_bounds q" "aq_terminated q' = aq_terminated q"
    using dequeue_ring 3(1) by blast
  then show ?case using 3 ne by (simp add: trypop_ok_def etch_apr_queue_trypop_def etch_apr_queue_empty_def)
qed

section \<open>Operations of one caller\<close>

lemma push_locked_cases:
  assumes "aq_inv q" and "apr_push_locked timeout x q = Done r"
  shows "\<exists>rv q'. r = Some (rv, q') \<and> aq_inv q' \<and> aq_bounds q' = aq_bounds q \<and> aq_terminated q' = aq_terminated q
    \<and> aq_full_waiters q' = aq_full_waiters q \<and> aq_empty_waiters q' = aq_empty_waiters q
    \<and> aq_list q' = (if rv = APR_SUCCESS then aq_list q @ [x] else aq_list q)"
proof (cases "etch_apr_queue_full q")
  case True
  then show ?thesis
    using assms by (auto simp: apr_push_locked_def apr_codes split: if_splits)
next
  case False
  then have "aq_nelts q < aq_bounds q"
    using assms(1) by (simp add: etch_apr_queue_full_def aq_inv_def)
  from enqueue_ring [OF assms(1) this, of x] show ?thesis
    using False assms(2) by (auto simp: apr_push_locked_def)
qed

lemma push_woken_cases:
  assumes "aq_inv q"
  shows "\<exists>rv' q'. apr_push_woken rv x q = Some (rv', q') \<and> aq_inv q' \<and> aq_bounds q' = aq_bounds q
    \<and> aq_terminated q' = aq_terminated q
    \<and> aq_full_waiters q' = aq_full_waiters q - 1 \<and> aq_empty_waiters q' = aq_empty_waiters q
    \<and> aq_list q' = (if rv' = APR_SUCCESS then aq_list q @ [x] else aq_list q)"
proof -
  let ?q = "q\<lparr>aq_full_waiters := aq_full_waiters q - 1\<rparr>"
  have inv: "aq_inv ?q" using assms by simp
  show ?thesis
  proof (cases "rv = APR_SUCCESS \<and> \<not> etch_apr_queue_full q")
    case True
    then have "aq_nelts ?q < aq_bounds ?q"
      using assms by (simp add: etch_apr_queue_full_def aq_inv_def)
    from enqueue_ring [OF inv this, of x] show ?thesis using True by (auto simp: apr_push_woken_def Let_def)
  next
    case False
    then show ?thesis using inv by (auto simp: apr_push_woken_def Let_def apr_codes)
  qed
qed

lemma pop_locked_cases:
  assumes "aq_inv q" and "apr_pop_locked timeout q = Done r"
  shows "\<exists>rv y q'. r = Some (rv, y, q') \<and> aq_inv q' \<and> aq_bounds q' = aq_bounds q \<and> aq_terminated q' = aq_terminated q
    \<and> aq_full_waiters q' = aq_full_waiters q \<and> aq_empty_waiters q' = aq_empty_waiters q
    \<and> (if rv = APR_SUCCESS then aq_list q \<noteq> [] \<and> y = Some (hd (aq_list q)) \<and> aq_list q' = tl (aq_list q)
       else y = None \<and> aq_list q' = aq_list q)"
proof (cases "aq_nelts q = 0")
  case True
  then show ?thesis
    using assms by (auto simp: apr_pop_locked_def etch_apr_queue_empty_def apr_codes split: if_splits)
next
  case False
  then have "aq_list q \<noteq> []" using length_aq_list [of q] by auto
  with dequeue_ring [OF assms(1) False] show ?thesis
    using False assms(2) by (auto simp: apr_pop_locked_def etch_apr_queue_empty_def)
qed

lemma pop_woken_cases:
  assumes "aq_inv q"
  shows "\<exists>rv' y q'. apr_pop_woken rv q = Some (rv', y, q') \<and> aq_inv q' \<and> aq_bounds q' = aq_bounds q
    \<and> aq_terminated q' = aq_terminated q
    \<and> aq_full_waiters q' = aq_full_waiters q \<and> aq_empty_waiters q' = aq_empty_waiters q - 1
    \<and> (if rv' = APR_SUCCESS then aq_list q \<noteq> [] \<and> y = Some (hd (aq_list q)) \<and> aq_list q' = tl (aq_list q)
       else y = None \<and> aq_list q' = aq_list q)"
proof -
  let ?q = "q\<lparr>aq_empty_waiters := aq_empty_waiters q - 1\<rparr>"
  have inv: "aq_inv ?q" using assms by simp
  show ?thesis
  proof (cases "rv = APR_SUCCESS \<and> aq_nelts q \<noteq> 0")
    case True
    then have "aq_nelts ?q \<noteq> 0" "aq_list q \<noteq> []" using length_aq_list [of q] by auto
    with dequeue_ring [OF inv this(1)] show ?thesis
      using True by (auto simp: apr_pop_woken_def Let_def etch_apr_queue_empty_def)
  next
    case False
    then show ?thesis using inv by (auto simp: apr_pop_woken_def Let_def etch_apr_queue_empty_def apr_codes)
  qed
qed

section \<open>Threads\<close>

text \<open>
  A thread calls push or pop, looks at the closed mark without the lock, takes the lock, and may
  wait.  A wait returns after a signal or a broadcast, spuriously, or when a positive timeout is
  over.  \<open>qs_put\<close> and \<open>qs_got\<close> record the items in the order in which they went in and came out.
\<close>

datatype 'a queue_pc =
    Idle | Returned apr_status "'a option"
  | PushEnter int 'a | PushLock int 'a | PushWait int 'a
  | PopEnter int | PopLock int | PopWait int

record 'a queue_system =
  qs_queue :: "'a etch_apr_queue"
  qs_pc :: "nat \<Rightarrow> 'a queue_pc"
  qs_put :: "'a list"
  qs_got :: "'a list"

definition wakes_with :: "int \<Rightarrow> apr_status \<Rightarrow> bool" where
  "wakes_with timeout rv \<longleftrightarrow> rv = APR_SUCCESS \<or> (timeout > 0 \<and> rv = APR_TIMEUP)"

definition push_done :: "nat \<Rightarrow> 'a \<Rightarrow> apr_status \<times> 'a etch_apr_queue \<Rightarrow> 'a queue_system \<Rightarrow> 'a queue_system" where
  "push_done t x = (\<lambda>(rv, q) s. s\<lparr>qs_queue := q, qs_pc := (qs_pc s)(t := Returned rv None),
     qs_put := (if rv = APR_SUCCESS then qs_put s @ [x] else qs_put s)\<rparr>)"

definition pop_done :: "nat \<Rightarrow> apr_status \<times> 'a option \<times> 'a etch_apr_queue \<Rightarrow> 'a queue_system \<Rightarrow> 'a queue_system" where
  "pop_done t = (\<lambda>(rv, x, q) s. s\<lparr>qs_queue := q, qs_pc := (qs_pc s)(t := Returned rv x),
     qs_got := (if rv = APR_SUCCESS then qs_got s @ [the x] else qs_got s)\<rparr>)"

abbreviation goto :: "nat \<Rightarrow> 'a queue_pc \<Rightarrow> 'a queue_system \<Rightarrow> 'a queue_system" where
  "goto t pc s \<equiv> s\<lparr>qs_pc := (qs_pc s)(t := pc)\<rparr>"

inductive queue_step :: "'a queue_system \<Rightarrow> 'a queue_system \<Rightarrow> bool" where
  call_push: "qs_pc s t = Idle \<or> qs_pc s t = Returned r y \<Longrightarrow> queue_step s (goto t (PushEnter timeout x) s)"
| call_pop: "qs_pc s t = Idle \<or> qs_pc s t = Returned r y \<Longrightarrow> queue_step s (goto t (PopEnter timeout) s)"
| push_closed: "qs_pc s t = PushEnter timeout x \<Longrightarrow> aq_terminated (qs_queue s) \<Longrightarrow>
    queue_step s (goto t (Returned APR_EOF None) s)"
| push_open: "qs_pc s t = PushEnter timeout x \<Longrightarrow> \<not> aq_terminated (qs_queue s) \<Longrightarrow>
    queue_step s (goto t (PushLock timeout x) s)"
| push_locked: "qs_pc s t = PushLock timeout x \<Longrightarrow> apr_push_locked timeout x (qs_queue s) = Done (Some r) \<Longrightarrow>
    queue_step s (push_done t x r s)"
| push_blocks: "qs_pc s t = PushLock timeout x \<Longrightarrow> apr_push_locked timeout x (qs_queue s) = Blocks q \<Longrightarrow>
    queue_step s (goto t (PushWait timeout x) s\<lparr>qs_queue := q\<rparr>)"
| push_woken: "qs_pc s t = PushWait timeout x \<Longrightarrow> wakes_with timeout rv \<Longrightarrow>
    apr_push_woken rv x (qs_queue s) = Some r \<Longrightarrow> queue_step s (push_done t x r s)"
| pop_closed: "qs_pc s t = PopEnter timeout \<Longrightarrow> aq_terminated (qs_queue s) \<Longrightarrow>
    timeout \<noteq> ETCHQUEUE_CLEARING_CLOSED_QUEUE \<Longrightarrow> queue_step s (goto t (Returned APR_EOF None) s)"
| pop_open: "qs_pc s t = PopEnter timeout \<Longrightarrow>
    \<not> aq_terminated (qs_queue s) \<or> timeout = ETCHQUEUE_CLEARING_CLOSED_QUEUE \<Longrightarrow>
    queue_step s (goto t (PopLock timeout) s)"
| pop_locked: "qs_pc s t = PopLock timeout \<Longrightarrow> apr_pop_locked timeout (qs_queue s) = Done (Some r) \<Longrightarrow>
    queue_step s (pop_done t r s)"
| pop_blocks: "qs_pc s t = PopLock timeout \<Longrightarrow> apr_pop_locked timeout (qs_queue s) = Blocks q \<Longrightarrow>
    queue_step s (goto t (PopWait timeout) s\<lparr>qs_queue := q\<rparr>)"
| pop_woken: "qs_pc s t = PopWait timeout \<Longrightarrow> wakes_with timeout rv \<Longrightarrow>
    apr_pop_woken rv (qs_queue s) = Some r \<Longrightarrow> queue_step s (pop_done t r s)"
| close: "queue_step s (s\<lparr>qs_queue := snd (etch_apr_queue_term (qs_queue s))\<rparr>)"

definition queue_start :: "nat \<Rightarrow> 'a queue_system" where
  "queue_start n = \<lparr>qs_queue = etch_apr_queue_create n, qs_pc = (\<lambda>_. Idle), qs_put = [], qs_got = []\<rparr>"

inductive queue_reach :: "nat \<Rightarrow> 'a queue_system \<Rightarrow> bool" for n :: nat where
  start: "queue_reach n (queue_start n)"
| step: "queue_reach n s \<Longrightarrow> queue_step s s' \<Longrightarrow> queue_reach n s'"

fun is_push_wait :: "'a queue_pc \<Rightarrow> bool" where
  "is_push_wait (PushWait _ _) = True"
| "is_push_wait _ = False"

fun is_pop_wait :: "'a queue_pc \<Rightarrow> bool" where
  "is_pop_wait (PopWait _) = True"
| "is_pop_wait _ = False"

definition waiting :: "('a queue_pc \<Rightarrow> bool) \<Rightarrow> (nat \<Rightarrow> 'a queue_pc) \<Rightarrow> nat set" where
  "waiting p pc = {t. p (pc t)}"

definition queue_system_inv :: "nat \<Rightarrow> 'a queue_system \<Rightarrow> bool" where
  "queue_system_inv n s \<longleftrightarrow> aq_inv (qs_queue s) \<and> aq_bounds (qs_queue s) = n
     \<and> qs_put s = qs_got s @ aq_list (qs_queue s)
     \<and> finite (waiting is_push_wait (qs_pc s)) \<and> finite (waiting is_pop_wait (qs_pc s))
     \<and> aq_full_waiters (qs_queue s) = card (waiting is_push_wait (qs_pc s))
     \<and> aq_empty_waiters (qs_queue s) = card (waiting is_pop_wait (qs_pc s))"

lemma waiting_update:
  "waiting p (pc(t := x)) = (if p x then insert t (waiting p pc) else waiting p pc - {t})"
  by (auto simp: waiting_def)

lemma in_waiting: "t \<in> waiting p pc \<longleftrightarrow> p (pc t)"
  by (simp add: waiting_def)

lemma start_inv: "0 < n \<Longrightarrow> queue_system_inv n (queue_start n)"
  by (simp add: queue_system_inv_def queue_start_def create_inv waiting_def)
     (simp add: etch_apr_queue_create_def)

lemma step_inv:
  assumes "queue_step s s'" and "queue_system_inv n s"
  shows "queue_system_inv n s'"
  using assms
proof (cases rule: queue_step.cases)
  case (push_locked t timeout x r)
  then show ?thesis
    using assms(2) push_locked_cases [of "qs_queue s" timeout x "Some r"]
    by (auto simp: queue_system_inv_def push_done_def waiting_update in_waiting)
next
  case (push_woken t timeout x rv r)
  then have "is_push_wait (qs_pc s t)" by simp
  with push_woken show ?thesis
    using assms(2) push_woken_cases [of "qs_queue s" rv x]
    by (auto simp: queue_system_inv_def push_done_def waiting_update in_waiting)
next
  case (pop_locked t timeout r)
  then show ?thesis
    using assms(2) pop_locked_cases [of "qs_queue s" timeout "Some r"]
    by (auto simp: queue_system_inv_def pop_done_def waiting_update in_waiting split: if_splits)
next
  case (pop_woken t timeout rv r)
  then have "is_pop_wait (qs_pc s t)" by simp
  with pop_woken show ?thesis
    using assms(2) pop_woken_cases [of "qs_queue s" rv]
    by (auto simp: queue_system_inv_def pop_done_def waiting_update in_waiting split: if_splits)
next
  case (push_blocks t timeout x q)
  then have "\<not> is_push_wait (qs_pc s t)" by simp
  with push_blocks show ?thesis
    using assms(2) by (auto simp: queue_system_inv_def waiting_update in_waiting apr_push_locked_def split: if_splits)
next
  case (pop_blocks t timeout q)
  then have "\<not> is_pop_wait (qs_pc s t)" by simp
  with pop_blocks show ?thesis
    using assms(2) by (auto simp: queue_system_inv_def waiting_update in_waiting apr_pop_locked_def split: if_splits)
next
  case close
  then show ?thesis using assms(2) by (simp add: queue_system_inv_def etch_apr_queue_term_def)
qed (auto simp: queue_system_inv_def waiting_update in_waiting)

lemma reach_inv: "queue_reach n s \<Longrightarrow> 0 < n \<Longrightarrow> queue_system_inv n s"
  by (induction rule: queue_reach.induct) (auto intro: start_inv step_inv)

section \<open>Properties\<close>

text \<open>
  The ring buffer is first in, first out: after any sequence of pushes and pops that are
  possible, what was popped followed by what is still queued is what was queued before followed
  by what was pushed, and the invariant of the buffer holds.
\<close>

theorem queue_first_in_first_out:
  assumes "aq_inv q" and "\<not> aq_terminated q" and "fifo_possible (aq_bounds q) (etch_apr_queue_size q) ps"
  shows "\<exists>q' out'. fifo_run trypush_ok trypop_ok ps (q, out) = Some (q', out')
    \<and> aq_inv q' \<and> out' @ aq_list q' = out @ aq_list q @ List.map_filter id ps"
proof -
  have "fifo_possible (aq_bounds q) (length (aq_list q)) ps"
    using assms(3) by (simp add: etch_apr_queue_size_def)
  then show ?thesis using ring.fifo_run_order [of q ps out] assms(1,2) by blast
qed

theorem queue_first_in_first_out_witness:
  "\<exists>q' out'. fifo_run trypush_ok trypop_ok [Some 1, Some 2, None, Some 3, None, Some (4 :: nat)]
      (etch_apr_queue_create 2, []) = Some (q', out') \<and> out' @ aq_list q' = [1, 2, 3, 4]"
  using queue_first_in_first_out [OF create_inv [of 2],
      of "[Some 1, Some 2, None, Some 3, None, Some (4 :: nat)]" "[]"]
  by (auto simp: etch_apr_queue_create_def etch_apr_queue_size_def List.map_filter_simps aq_list_def)

text \<open>
  C18. Any number of threads that push, pop, wait, time out, are woken spuriously and close the
  queue: in every reachable state the items that came out followed by the queued ones are the
  items that went in, in order, none lost and none twice; the queue never holds more than its
  bound, no step accesses a slot outside the array, and the two waiter counts are the numbers of
  waiting threads.
\<close>

theorem queue_threads_fifo:
  assumes "queue_reach n s" and "0 < n"
  shows "qs_put s = qs_got s @ aq_list (qs_queue s) \<and> length (aq_list (qs_queue s)) \<le> n
    \<and> aq_full_waiters (qs_queue s) = card (waiting is_push_wait (qs_pc s))
    \<and> aq_empty_waiters (qs_queue s) = card (waiting is_pop_wait (qs_pc s))
    \<and> (\<forall>timeout x. apr_push_locked timeout x (qs_queue s) \<noteq> Done None)
    \<and> (\<forall>timeout. apr_pop_locked timeout (qs_queue s) \<noteq> Done None)
    \<and> (\<forall>rv x. apr_push_woken rv x (qs_queue s) \<noteq> None)
    \<and> (\<forall>rv. apr_pop_woken rv (qs_queue s) \<noteq> None)"
proof -
  have i: "queue_system_inv n s" by (rule reach_inv [OF assms])
  then have inv: "aq_inv (qs_queue s)" by (simp add: queue_system_inv_def)
  have "apr_push_locked timeout x (qs_queue s) \<noteq> Done None" for timeout x
    using push_locked_cases [OF inv, of timeout x None] by auto
  moreover have "apr_pop_locked timeout (qs_queue s) \<noteq> Done None" for timeout
    using pop_locked_cases [OF inv, of timeout None] by auto
  moreover have "apr_push_woken rv x (qs_queue s) \<noteq> None" for rv x
    using push_woken_cases [OF inv, of rv x] by auto
  moreover have "apr_pop_woken rv (qs_queue s) \<noteq> None" for rv
    using pop_woken_cases [OF inv, of rv] by auto
  moreover have "length (aq_list (qs_queue s)) \<le> n" using i inv by (auto simp: queue_system_inv_def aq_inv_def)
  ultimately show ?thesis using i by (simp add: queue_system_inv_def)
qed

text \<open>A push by a thread that is not in a call, up to the point where it has seen an open queue.\<close>

lemma reach_push_lock: "queue_reach n (goto 0 (PushLock timeout x) (queue_start n))"
proof -
  have "queue_step (queue_start n) (goto 0 (PushEnter timeout x) (queue_start n))"
    by (rule call_push) (simp add: queue_start_def)
  moreover have "queue_step (goto 0 (PushEnter timeout x) (queue_start n))
      (goto 0 (PushLock timeout x) (goto 0 (PushEnter timeout x) (queue_start n)))"
    by (rule push_open) (simp_all add: queue_start_def etch_apr_queue_create_def)
  ultimately have "queue_reach n (goto 0 (PushLock timeout x) (goto 0 (PushEnter timeout x) (queue_start n)))"
    by (blast intro: queue_reach.intros)
  then show ?thesis by simp
qed

theorem queue_threads_fifo_witness:
  "apr_push_locked 0 7 (qs_queue (goto 0 (PushLock 0 (7 :: nat)) (queue_start 2))) \<noteq> Done None"
  using queue_threads_fifo [OF reach_push_lock [of 2 0 "7 :: nat"] zero_less_numeral] by blast

text \<open>
  Closing does not exclude a later put: the closed mark is read before the lock is taken and
  not again when there is room, so a push can succeed, and report success, on a queue that is
  closed already.
\<close>

theorem queue_push_after_close:
  "\<exists>s s'. queue_reach 1 s \<and> aq_terminated (qs_queue s) \<and> queue_step s s'
    \<and> qs_pc s' 0 = Returned APR_SUCCESS None \<and> aq_list (qs_queue s) = [] \<and> aq_list (qs_queue s') = [x]"
proof -
  let ?s1 = "goto 0 (PushLock 0 x) (queue_start 1)"
  let ?s2 = "?s1\<lparr>qs_queue := snd (etch_apr_queue_term (qs_queue ?s1))\<rparr>"
  have r: "queue_reach 1 ?s2" by (rule queue_reach.step [OF reach_push_lock close])
  have q: "aq_inv (qs_queue ?s2)" "aq_nelts (qs_queue ?s2) = 0" "aq_bounds (qs_queue ?s2) = 1"
      "aq_terminated (qs_queue ?s2)"
    using create_inv [of 1] by (simp_all add: queue_start_def etch_apr_queue_term_def)
      (simp_all add: etch_apr_queue_create_def)
  obtain q' where e: "apr_enqueue x (qs_queue ?s2) = Some (APR_SUCCESS, q')"
    and l: "aq_list q' = aq_list (qs_queue ?s2) @ [x]"
    using enqueue_ring [OF q(1), of x] q(2,3) by auto
  have "apr_push_locked 0 x (qs_queue ?s2) = Done (Some (APR_SUCCESS, q'))"
    unfolding apr_push_locked_def e etch_apr_queue_full_def q(2,3) by simp
  then have "queue_step ?s2 (push_done 0 x (APR_SUCCESS, q') ?s2)" by (intro push_locked) simp_all
  moreover have "aq_list (qs_queue ?s2) = []" using q(2) by simp
  ultimately show ?thesis using r q(4) l
    by (intro exI [of _ ?s2] exI [of _ "push_done 0 x (APR_SUCCESS, q') ?s2"]) (simp add: push_done_def)
qed

section \<open>Clearing\<close>

lemma clear_pop:
  assumes "aq_inv q" and "aq_terminated q"
  shows "\<exists>q'. etchqueue_get_withwait w q ETCHQUEUE_CLEARING_CLOSED_QUEUE
      = Some (if aq_nelts q = 0 then (ETCH_QUEUE_EOF, None, q) else (0, Some (hd (aq_list q)), q'))
    \<and> (aq_nelts q \<noteq> 0 \<longrightarrow> aq_inv q' \<and> aq_list q' = tl (aq_list q) \<and> aq_terminated q')"
proof (cases "aq_nelts q = 0")
  case True
  then show ?thesis using assms(2)
    by (simp add: etchqueue_get_withwait_def ETCHQUEUE_CLEARING_CLOSED_QUEUE_def etch_apr_queue_pop_def
        apr_pop_locked_def etch_apr_queue_empty_def get_result_def apr_codes)
next
  case False
  then obtain q' where "apr_dequeue q = Some (APR_SUCCESS, Some (hd (aq_list q)), q')" "aq_inv q'"
      "aq_list q' = tl (aq_list q)" "aq_terminated q' = aq_terminated q"
    using dequeue_ring [OF assms(1)] by blast
  then show ?thesis using assms(2) False
    by (simp add: etchqueue_get_withwait_def ETCHQUEUE_CLEARING_CLOSED_QUEUE_def etch_apr_queue_pop_def
        apr_pop_locked_def etch_apr_queue_empty_def get_result_def apr_codes)
qed

lemma clear_loop:
  assumes "aq_inv q" and "aq_terminated q" and "aq_nelts q < fuel"
  shows "\<exists>q'. queue_clear_loop fuel q freed = Returns (freed @ map Some (aq_list q), q')
    \<and> aq_list q' = [] \<and> aq_terminated q'"
  using assms
proof (induction fuel arbitrary: q freed)
  case (Suc fuel)
  show ?case
  proof (cases "aq_nelts q = 0")
    case True
    with clear_pop [OF Suc.prems(1,2)] Suc.prems(2) show ?thesis by (simp add: ETCH_QUEUE_EOF_def)
  next
    case False
    with clear_pop [OF Suc.prems(1,2), of "\<lambda>_ q. (APR_EINTR, q)"] obtain q' where
      g: "etchqueue_get_withwait (\<lambda>_ q. (APR_EINTR, q)) q ETCHQUEUE_CLEARING_CLOSED_QUEUE
        = Some (0, Some (hd (aq_list q)), q')"
      and q': "aq_inv q'" "aq_list q' = tl (aq_list q)" "aq_terminated q'" by auto
    have l: "aq_list q = hd (aq_list q) # aq_list q'" using False q'(2) by simp
    then have "length (aq_list q) = Suc (length (aq_list q'))" by (metis length_Cons)
    then have "aq_nelts q' < fuel" using Suc.prems(3) by simp
    from Suc.IH [OF q'(1,3) this, of "freed @ [Some (hd (aq_list q))]"] show ?thesis
      using g by (subst l) auto
  qed
qed simp

text \<open>
  Clearing a queue closes it and takes out every element that is left, from the oldest to the
  newest, and ends: one iteration more than there are elements is enough.
\<close>

theorem queue_clear_drains:
  assumes "aq_inv q" and "etchqueue_size q < fuel"
  shows "\<exists>q'. etchqueue_clear fuel q = Returns (map Some (aq_list q), q') \<and> aq_list q' = []
    \<and> etchqueue_is_closed q'"
proof -
  let ?q = "snd (etchqueue_close q True)"
  have q: "aq_inv ?q" "aq_terminated ?q" "aq_list ?q = aq_list q" "aq_nelts ?q = aq_nelts q"
    using assms(1)
    by (simp_all add: etchqueue_close_def etchqueue_is_closed_def etch_apr_queue_term_def)
  then have "aq_nelts ?q < fuel" using assms(2) by (simp add: etchqueue_size_def etch_apr_queue_size_def)
  from clear_loop [OF q(1,2) this, of "[]"] q(3) show ?thesis
    by (simp add: etchqueue_clear_def etchqueue_is_closed_def)
qed

theorem queue_clear_drains_witness:
  "\<exists>q'. etchqueue_clear 3 (snd (the (etchqueue_try_put (new_queue 4) (7 :: nat)))) = Returns ([Some 7], q')
    \<and> etchqueue_is_closed q'"
proof -
  let ?q = "snd (the (etchqueue_try_put (new_queue 4) (7 :: nat)))"
  have q: "aq_inv ?q" "etchqueue_size ?q < 3" "aq_list ?q = [7]"
    by (code_simp, code_simp, code_simp)
  from queue_clear_drains [OF q(1,2)] show ?thesis using q(3) by auto
qed

end
