(* ===== verification/Mailbox.thy ===== *)
theory Mailbox
  imports Queue
begin

text \<open>
  A mailbox, \<open>src/main/transport/etch_plain_mailbox.c\<close>: the queue that holds the replies to one
  message.

  \<^item> A message is known by its address, which is what the code compares, and by the fields that the
    mailbox manager reads; the rest of its content is \<open>msg_body\<close>.
  \<^item> A call of the registered notification is recorded in \<open>mb_notified\<close>, with the state given at the
    registration and the argument \<open>is_closed\<close>.  What the callback does is not part of the model.
  \<^item> The operations that call the mailbox manager are in the theory \<open>MailboxManager\<close>.
  \<^item> Taking and releasing a lock succeeds.  \<open>cond_wait\<close> is the wait on a full or an empty queue, as in
    the theory \<open>Queue\<close>.
\<close>

record 'b etch_message =
  msg_addr :: nat
  msg_id :: "int64 option"
  msg_in_reply_to :: "int64 option"
  msg_body :: 'b

record ('b, 'w) mailbox_element =
  me_msg :: "'b etch_message"
  me_whofrom :: 'w

definition MBOX_DEFMAXMESSAGES :: int where "MBOX_DEFMAXMESSAGES = 8"
definition ETCH_MAILBOX_RESULT_ALREADY_CLOSED :: int where "ETCH_MAILBOX_RESULT_ALREADY_CLOSED = 1"
definition ETCH_MAILBOX_STATE_INITIAL :: nat where "ETCH_MAILBOX_STATE_INITIAL = 0"
definition ETCH_MAILBOX_STATE_OPEN :: nat where "ETCH_MAILBOX_STATE_OPEN = 2"
definition ETCH_MAILBOX_STATE_CLOSED_DELIVERY :: nat where "ETCH_MAILBOX_STATE_CLOSED_DELIVERY = 4"
definition ETCH_MAILBOX_STATE_CLOSED_READ :: nat where "ETCH_MAILBOX_STATE_CLOSED_READ = 6"
definition ETCH_MAILBOX_STATE_SHUTDOWN :: nat where "ETCH_MAILBOX_STATE_SHUTDOWN = 8"
definition ETCH_MAILBOX_TIMEOUT :: int where "ETCH_MAILBOX_TIMEOUT = - 2"
definition ETCH_MAILBOX_DUPLICATE :: int where "ETCH_MAILBOX_DUPLICATE = - 3"

record ('b, 'w, 'n) etch_plainmailbox =
  mb_lifetime :: int
  mb_max_messages :: int
  mb_max_message_delay :: int
  mb_message_id :: int64
  mb_queue :: "('b, 'w) mailbox_element etch_apr_queue"
  mb_notify :: "(nat \<times> 'n) option"
  mb_is_alarm_set :: bool
  mb_state :: nat
  mb_notified :: "('n \<times> bool) list"

section \<open>Construction\<close>

definition new_mailbox_a :: "int \<Rightarrow> ('b, 'w, 'n) etch_plainmailbox" where
  "new_mailbox_a capacity =
     \<lparr>mb_lifetime = 0, mb_max_messages = 0, mb_max_message_delay = 0, mb_message_id = 0,
      mb_queue = new_queue capacity, mb_notify = None, mb_is_alarm_set = False,
      mb_state = ETCH_MAILBOX_STATE_OPEN, mb_notified = []\<rparr>"

text \<open>Starting the timer is not modelled, only that it is set.\<close>

definition etchmbox_set_duration ::
  "('b, 'w, 'n) etch_plainmailbox \<Rightarrow> int \<Rightarrow> ('b, 'w, 'n) etch_plainmailbox" where
  "etchmbox_set_duration thisx ms = thisx\<lparr>mb_is_alarm_set := True\<rparr>"

definition new_mailbox ::
  "int64 \<Rightarrow> int \<Rightarrow> int \<Rightarrow> int \<Rightarrow> ('b, 'w, 'n) etch_plainmailbox option" where
  "new_mailbox message_id max_msgdelay lifetime capacity =
     (if message_id = 0 \<or> lifetime < 0 \<or> capacity < 0 then None
      else let mbox = (new_mailbox_a capacity)\<lparr>mb_lifetime := lifetime, mb_message_id := message_id,
                 mb_max_message_delay := max_msgdelay,
                 mb_max_messages := (if capacity > 0 then capacity else MBOX_DEFMAXMESSAGES)\<rparr>
           in Some (if lifetime \<noteq> 0 then etchmbox_set_duration mbox lifetime else mbox))"

section \<open>Delivery\<close>

text \<open>
  Is a message with this address queued?  The iterator that \<open>set_iterator\<close> positions on the first
  slot walks the array; the element it is on is never null here.
\<close>

fun mbox_contains_loop ::
  "nat \<Rightarrow> ('b, 'w) mailbox_element etch_apr_queue \<Rightarrow> ('b, 'w) mailbox_element queue_iterator \<Rightarrow> nat
     \<Rightarrow> bool outcome" where
  "mbox_contains_loop 0 queue iter addr = Diverges"
| "mbox_contains_loop (Suc fuel) queue iter addr =
     (if etchqueue_iterable_has_next queue iter
      then (if map_option (\<lambda>content. msg_addr (me_msg content)) (it_current iter) = Some addr
            then Returns True
            else case etchqueue_iterable_next queue iter of
                   None \<Rightarrow> Fault
                 | Some (_, iter) \<Rightarrow> mbox_contains_loop fuel queue iter addr)
      else Returns False)"

definition etchmbox_contains_message ::
  "('b, 'w, 'n) etch_plainmailbox \<Rightarrow> 'b etch_message \<Rightarrow> bool outcome" where
  "etchmbox_contains_message thisx thismsg =
     (let queue = mb_queue thisx in
      if etch_apr_queue_size queue \<noteq> 0
      then (case etchqueue_iterable_first queue \<lparr>it_current = None, it_ordinal = 0\<rparr> of
              None \<Rightarrow> Fault
            | Some (_, iter) \<Rightarrow>
                mbox_contains_loop (etch_apr_queue_size queue + 1) queue iter (msg_addr thismsg))
      else Returns False)"

definition etchmbox_fire_notify ::
  "('b, 'w, 'n) etch_plainmailbox \<Rightarrow> ('b, 'w, 'n) etch_plainmailbox" where
  "etchmbox_fire_notify thisx =
     (case mb_notify thisx of
        None \<Rightarrow> thisx
      | Some (notify, notify_state) \<Rightarrow>
          thisx\<lparr>mb_notified := mb_notified thisx @ [(notify_state, etchqueue_is_closed (mb_queue thisx))]\<rparr>)"

definition etchmbox_message ::
  "(int \<Rightarrow> ('b, 'w) mailbox_element etch_apr_queue \<Rightarrow> apr_status \<times> ('b, 'w) mailbox_element etch_apr_queue)
     \<Rightarrow> ('b, 'w, 'n) etch_plainmailbox \<Rightarrow> 'w \<Rightarrow> 'b etch_message
     \<Rightarrow> (int \<times> ('b, 'w, 'n) etch_plainmailbox) outcome" where
  "etchmbox_message cond_wait thisx whofrom msg =
     (case etchmbox_contains_message thisx msg of
        Diverges \<Rightarrow> Diverges
      | Fault \<Rightarrow> Fault
      | Returns True \<Rightarrow> Returns (ETCH_MAILBOX_DUPLICATE, thisx)
      | Returns False \<Rightarrow>
          (case etchqueue_put_withwait cond_wait (mb_queue thisx) (mb_max_message_delay thisx)
                  \<lparr>me_msg = msg, me_whofrom = whofrom\<rparr> of
             None \<Rightarrow> Fault
           | Some (result, queue) \<Rightarrow>
               let thisx = thisx\<lparr>mb_queue := queue\<rparr>;
                   result = (if result = 0 then 0
                             else if result = ETCH_QUEUE_OPERATION_TIMEOUT then ETCH_MAILBOX_TIMEOUT else - 1)
               in Returns (result, if result = 0 then etchmbox_fire_notify thisx else thisx)))"

section \<open>Reading\<close>

text \<open>What \<open>*out\<close> points to after a read; an exception object is stored as if it were an element.\<close>

datatype 'e mbox_out = Out_null | Out_element 'e | Out_exception string

definition etchmbox_check_read_result :: "int \<Rightarrow> 'e mbox_out \<Rightarrow> int \<times> 'e mbox_out" where
  "etchmbox_check_read_result readresult out =
     (readresult,
      if readresult = 0 then out
      else if readresult = ETCH_QUEUE_EOF then Out_null
      else Out_exception
             (if readresult = ETCH_QUEUE_OPERATION_TIMEOUT then ''mailbox read timed out''
              else if readresult = ETCH_QUEUE_OPERATION_CANCELED then ''mailbox read canceled''
              else ''mailbox read error''))"

definition read_out :: "'e option \<Rightarrow> 'e mbox_out" where
  "read_out item = (case item of None \<Rightarrow> Out_null | Some e \<Rightarrow> Out_element e)"

definition etchmbox_read ::
  "(int \<Rightarrow> ('b, 'w) mailbox_element etch_apr_queue \<Rightarrow> apr_status \<times> ('b, 'w) mailbox_element etch_apr_queue)
     \<Rightarrow> ('b, 'w, 'n) etch_plainmailbox
     \<Rightarrow> (int \<times> ('b, 'w) mailbox_element mbox_out \<times> ('b, 'w, 'n) etch_plainmailbox) option" where
  "etchmbox_read cond_wait thisx = do {
     (result, item, queue) \<leftarrow> etchqueue_get cond_wait (mb_queue thisx);
     (let (result, out) = etchmbox_check_read_result result (read_out item)
      in Some (result, out, thisx\<lparr>mb_queue := queue\<rparr>))
   }"

definition etchmbox_read_withwait ::
  "(int \<Rightarrow> ('b, 'w) mailbox_element etch_apr_queue \<Rightarrow> apr_status \<times> ('b, 'w) mailbox_element etch_apr_queue)
     \<Rightarrow> ('b, 'w, 'n) etch_plainmailbox \<Rightarrow> int
     \<Rightarrow> (int \<times> ('b, 'w) mailbox_element mbox_out \<times> ('b, 'w, 'n) etch_plainmailbox) option" where
  "etchmbox_read_withwait cond_wait thisx maxdelay = do {
     (result, item, queue) \<leftarrow> etchqueue_get_withwait cond_wait (mb_queue thisx) maxdelay;
     (let (result, out) = etchmbox_check_read_result result (read_out item)
      in Some (result, out, thisx\<lparr>mb_queue := queue\<rparr>))
   }"

section \<open>Notification and queries\<close>

definition etchmbox_register_notify ::
  "('b, 'w, 'n) etch_plainmailbox \<Rightarrow> nat \<Rightarrow> 'n \<Rightarrow> int \<Rightarrow> int \<times> ('b, 'w, 'n) etch_plainmailbox" where
  "etchmbox_register_notify thisx pfn state maxdelay =
     (let thisx = thisx\<lparr>mb_notify := Some (pfn, state)\<rparr>;
          thisx = (if maxdelay > 0 \<and> \<not> mb_is_alarm_set thisx then etchmbox_set_duration thisx maxdelay
                   else thisx)
      in (0, if etchqueue_size (mb_queue thisx) \<noteq> 0 \<or> etchqueue_is_closed (mb_queue thisx)
             then etchmbox_fire_notify thisx else thisx))"

definition etchmbox_unregister_notify ::
  "('b, 'w, 'n) etch_plainmailbox \<Rightarrow> nat \<Rightarrow> int \<times> ('b, 'w, 'n) etch_plainmailbox" where
  "etchmbox_unregister_notify thisx pfn =
     (if map_option fst (mb_notify thisx) \<noteq> Some pfn then (- 1, thisx)
      else (0, thisx\<lparr>mb_is_alarm_set := False, mb_notify := None\<rparr>))"

definition etchmbox_is_empty :: "('b, 'w, 'n) etch_plainmailbox \<Rightarrow> bool" where
  "etchmbox_is_empty thisx \<longleftrightarrow> etchqueue_size (mb_queue thisx) = 0"

definition etchmbox_is_closed :: "('b, 'w, 'n) etch_plainmailbox \<Rightarrow> bool" where
  "etchmbox_is_closed thisx = etchqueue_is_closed (mb_queue thisx)"

definition etchmbox_is_full :: "('b, 'w, 'n) etch_plainmailbox \<Rightarrow> bool" where
  "etchmbox_is_full thisx = etchqueue_is_full (mb_queue thisx)"

definition etchmbox_get_message_id :: "('b, 'w, 'n) etch_plainmailbox \<Rightarrow> int64" where
  "etchmbox_get_message_id thisx = mb_message_id thisx"

end
