(* ===== verification/HashTable.thy ===== *)
theory HashTable
  imports Prelude
begin

text \<open>
  The hash table of \<open>src/extern/jenkhash/jenkhtab.c\<close>, in the version of the repository with lookup by
  a hash that is stored in the key object (\<open>haddx\<close>, \<open>hfindx\<close>), and its wrapper in
  \<open>src/main/common/etch_hash.c\<close>.

  \<^item> \<open>ht_table\<close> holds the chain of every bucket; \<open>ipos\<close>, a pointer to an item of the chain \<open>apos\<close>, is
    its index there, \<open>None\<close> the null pointer.
  \<^item> \<open>ub4\<close> is declared \<open>unsigned long int\<close>.  Pointers have 64 bits here; \<open>long\<close> has 32 on 64-bit
    Windows and 64 on Linux.  The number of bits is the argument \<open>ub4_bits\<close> of the one function that
    reads an \<open>ub4\<close> from memory; values of the type are \<open>nat\<close>s, and nothing is computed with them but \<open>&\<close>.
  \<^item> The memory of the items comes from a free list (\<open>jenkrecy.c\<close>), which is not modelled.
\<close>

text \<open>The head of an object that serves as a key, and the rest of it.\<close>

record 'k etch_key =
  ko_hashkey :: int32
  ko_obj_type :: int16
  ko_class_id :: int16
  ko_content :: 'k

text \<open>The first eight bytes of the object as a little-endian number, and \<open>*((ub4*) keyobj)\<close>.\<close>

definition key_head :: "'k etch_key \<Rightarrow> int64" where
  "key_head k = ucast (ko_hashkey k) OR push_bit 32 (ucast (ko_obj_type k)) OR push_bit 48 (ucast (ko_class_id k))"

definition key_ub4 :: "nat \<Rightarrow> 'k etch_key \<Rightarrow> nat" where
  "key_ub4 ub4_bits k = take_bit ub4_bits (unat (key_head k))"

record ('k, 'v) hitem =
  hi_key :: "'k"
  hi_keyl :: nat
  hi_stuff :: 'v
  hi_hval :: nat

record ('k, 'v) htab =
  ht_table :: "('k, 'v) hitem list list"
  ht_logsize :: nat
  ht_mask :: nat
  ht_count :: nat
  ht_apos :: nat
  ht_ipos :: "nat option"

section \<open>The table\<close>

definition hcreate :: "nat \<Rightarrow> ('k, 'v) htab" where
  "hcreate logsize = \<lparr>ht_table = replicate (2 ^ logsize) [], ht_logsize = logsize,
     ht_mask = 2 ^ logsize - 1, ht_count = 0, ht_apos = 0, ht_ipos = None\<rparr>"

definition hbucket :: "('k, 'v) htab \<Rightarrow> nat \<Rightarrow> nat" where
  "hbucket t hashval = hashval AND ht_mask t"

definition hitem_at :: "('k, 'v) htab \<Rightarrow> ('k, 'v) hitem option" where
  "hitem_at t = map_option (\<lambda>j. ht_table t ! ht_apos t ! j) (ht_ipos t)"

definition hnbucket :: "('k, 'v) htab \<Rightarrow> bool \<times> ('k, 'v) htab" where
  "hnbucket t =
     (case find (\<lambda>i. ht_table t ! i \<noteq> []) [ht_apos t + 1..<2 ^ ht_logsize t] of
        Some i \<Rightarrow> (True, t\<lparr>ht_apos := i, ht_ipos := Some 0\<rparr>)
      | None \<Rightarrow>
          (case find (\<lambda>i. ht_table t ! i \<noteq> []) [0..<ht_apos t + 1] of
             Some i \<Rightarrow> (False, t\<lparr>ht_apos := i, ht_ipos := Some 0\<rparr>)
           | None \<Rightarrow> (False, t)))"

definition hfirst :: "('k, 'v) htab \<Rightarrow> bool \<times> ('k, 'v) htab" where
  "hfirst t = (let t = snd (hnbucket (t\<lparr>ht_apos := ht_mask t\<rparr>)) in (ht_ipos t \<noteq> None, t))"

definition hnext :: "('k, 'v) htab \<Rightarrow> bool \<times> ('k, 'v) htab" where
  "hnext t =
     (case ht_ipos t of
        None \<Rightarrow> (False, t)
      | Some j \<Rightarrow>
          if j + 1 < length (ht_table t ! ht_apos t) then (True, t\<lparr>ht_ipos := Some (j + 1)\<rparr>)
          else hnbucket (t\<lparr>ht_ipos := None\<rparr>))"

text \<open>The index of the first item of a chain with a property.\<close>

definition chain_index :: "('a \<Rightarrow> bool) \<Rightarrow> 'a list \<Rightarrow> nat option" where
  "chain_index P xs = find (\<lambda>j. P (xs ! j)) [0..<length xs]"

definition hfindx :: "('k, 'v) htab \<Rightarrow> nat \<Rightarrow> bool \<times> ('k, 'v) htab" where
  "hfindx t hashval =
     (let i = hbucket t hashval
      in case chain_index (\<lambda>h. hi_hval h = hashval) (ht_table t ! i) of
           None \<Rightarrow> (False, t)
         | Some j \<Rightarrow> (True, t\<lparr>ht_apos := i, ht_ipos := Some j\<rparr>))"

text \<open>The old chains are walked from the last bucket to the first, every item goes to the front.\<close>

definition hgrow_put :: "nat \<Rightarrow> ('k, 'v) hitem \<Rightarrow> ('k, 'v) hitem list list
    \<Rightarrow> ('k, 'v) hitem list list" where
  "hgrow_put newmask h newtab =
     (let i = hi_hval h AND newmask in newtab[i := h # newtab ! i])"

definition hgrow :: "('k, 'v) htab \<Rightarrow> ('k, 'v) htab" where
  "hgrow t =
     (let logsize = ht_logsize t + 1; newsize = 2 ^ logsize; newmask = newsize - 1;
          newtab = fold (hgrow_put newmask) (concat (rev (ht_table t))) (replicate newsize [])
      in snd (hfirst (t\<lparr>ht_table := newtab, ht_logsize := logsize, ht_mask := newmask\<rparr>)))"

definition key_same :: "'k etch_key \<Rightarrow> 'k etch_key \<Rightarrow> bool" where
  "key_same a b \<longleftrightarrow> key_head a = key_head b"

definition haddx :: "nat \<Rightarrow> ('k etch_key, 'v) htab \<Rightarrow> 'k etch_key \<Rightarrow> 'v \<Rightarrow> bool \<times> ('k etch_key, 'v) htab" where
  "haddx ub4_bits t keyobj valobj =
     (let hashval = key_ub4 ub4_bits keyobj; y = hbucket t hashval
      in if hashval = 0 then (False, t)
         else case chain_index (\<lambda>h. hi_hval h = hashval \<and> hi_keyl h = 8 \<and> key_same keyobj (hi_key h))
                     (ht_table t ! y) of
           Some j \<Rightarrow> (False, t\<lparr>ht_apos := y, ht_ipos := Some j\<rparr>)
         | None \<Rightarrow>
             let t = t\<lparr>ht_count := ht_count t + 1\<rparr>;
                 t = (if ht_count t > 2 ^ ht_logsize t then hgrow t else t);
                 y = hbucket t hashval;
                 h = \<lparr>hi_key = keyobj, hi_keyl = 8, hi_stuff = valobj, hi_hval = hashval\<rparr>
             in (True, t\<lparr>ht_table := (ht_table t)[y := h # ht_table t ! y],
                         ht_ipos := Some 0, ht_apos := y\<rparr>))"

definition hdel :: "('k, 'v) htab \<Rightarrow> bool \<times> ('k, 'v) htab" where
  "hdel t =
     (case ht_ipos t of
        None \<Rightarrow> (False, t)
      | Some j \<Rightarrow>
          let chain = ht_table t ! ht_apos t;
              t = t\<lparr>ht_table := (ht_table t)[ht_apos t := take j chain @ drop (j + 1) chain],
                    ht_count := ht_count t - 1\<rparr>
          in (True, if j + 1 < length chain then t\<lparr>ht_ipos := Some j\<rparr>
                    else snd (hnbucket (t\<lparr>ht_ipos := None\<rparr>))))"

section \<open>The interface etch_hashtable\<close>

text \<open>
  The initial size in bits: \<open>floor (log2 size)\<close>, as the loop that halves the size computes it.
\<close>

fun count_bits :: "nat \<Rightarrow> nat" where
  "count_bits n = (if n = 0 then 0 else count_bits (n div 2) + 1)"

declare count_bits.simps [simp del]

definition ETCH_DEFAULT_HASHTABLE_SIZE :: int where "ETCH_DEFAULT_HASHTABLE_SIZE = 16"
definition MIN_INITIAL_HASHTABLE_SIZE :: int where "MIN_INITIAL_HASHTABLE_SIZE = 4"
definition MAX_INITIAL_HASHTABLE_SIZE :: int where "MAX_INITIAL_HASHTABLE_SIZE = 32768"

definition jenkins_create :: "int \<Rightarrow> ('k, 'v) htab" where
  "jenkins_create initialsize_items =
     (let initialsize =
            (if initialsize_items \<le> 0 then ETCH_DEFAULT_HASHTABLE_SIZE
             else if initialsize_items < MIN_INITIAL_HASHTABLE_SIZE then MIN_INITIAL_HASHTABLE_SIZE
             else initialsize_items);
          initialsize = (if initialsize > MAX_INITIAL_HASHTABLE_SIZE then MAX_INITIAL_HASHTABLE_SIZE
                         else initialsize)
      in hcreate (count_bits (nat initialsize) - 1))"

text \<open>The entries that go into \<open>etch_hashitem\<close>: the key and the value at the current position.\<close>

definition hcurrent :: "('k, 'v) htab \<Rightarrow> ('k \<times> 'v) option" where
  "hcurrent t = map_option (\<lambda>h. (hi_key h, hi_stuff h)) (hitem_at t)"

definition jenkins_inserth :: "nat \<Rightarrow> ('k etch_key, 'v) htab \<Rightarrow> 'k etch_key \<Rightarrow> 'v \<Rightarrow> int \<times> ('k etch_key, 'v) htab" where
  "jenkins_inserth ub4_bits realtable key data =
     (let (added, realtable) = haddx ub4_bits realtable key data in (if added then 0 else - 1, realtable))"

definition jenkins_findh ::
  "('k, 'v) htab \<Rightarrow> int32 \<Rightarrow> int \<times> ('k \<times> 'v) option \<times> ('k, 'v) htab" where
  "jenkins_findh realtable hashed =
     (if hashed = 0 then (- 1, None, realtable)
      else let (found, realtable) = hfindx realtable (unat hashed)
           in if found then (0, hcurrent realtable, realtable) else (- 1, None, realtable))"

definition jenkins_removeh ::
  "('k, 'v) htab \<Rightarrow> int32 \<Rightarrow> int \<times> ('k \<times> 'v) option \<times> ('k, 'v) htab" where
  "jenkins_removeh realtable key =
     (if key = 0 then (- 1, None, realtable)
      else let (found, realtable) = hfindx realtable (unat key)
           in if found then (0, hcurrent realtable, snd (hdel realtable)) else (- 1, None, realtable))"

definition jenkins_first ::
  "('k, 'v) htab \<Rightarrow> int \<times> ('k \<times> 'v) option \<times> ('k, 'v) htab" where
  "jenkins_first realtable =
     (let (found, realtable) = hfirst realtable
      in if found then (0, hcurrent realtable, realtable) else (- 1, None, realtable))"

definition jenkins_next ::
  "('k, 'v) htab \<Rightarrow> int \<times> ('k \<times> 'v) option \<times> ('k, 'v) htab" where
  "jenkins_next realtable =
     (let (found, realtable) = hnext realtable in (if found then 0 else - 1, hcurrent realtable, realtable))"

definition jenkins_count :: "('k, 'v) htab \<Rightarrow> nat" where
  "jenkins_count realtable = ht_count realtable"

fun jenkins_clear_loop :: "nat \<Rightarrow> ('k, 'v) htab \<Rightarrow> nat \<Rightarrow> (nat \<times> ('k, 'v) htab) outcome" where
  "jenkins_clear_loop 0 t freecount = Diverges"
| "jenkins_clear_loop (Suc fuel) t freecount =
     (if 0 < ht_count t
      then (case hcurrent t of
              None \<Rightarrow> Fault
            | Some _ \<Rightarrow> jenkins_clear_loop fuel (snd (hdel t)) (freecount + 1))
      else Returns (freecount, t))"

definition jenkins_clear :: "('k, 'v) htab \<Rightarrow> (nat \<times> ('k, 'v) htab) outcome" where
  "jenkins_clear realtable = jenkins_clear_loop (Suc (ht_count realtable)) realtable 0"

section \<open>Iteration\<close>

record 'e hash_iterator =
  hit_current :: "'e option"
  hit_ordinal :: nat

definition hashtable_iterable_first ::
  "('k, 'v) htab \<Rightarrow> ('k \<times> 'v) hash_iterator
     \<Rightarrow> int \<times> ('k \<times> 'v) hash_iterator \<times> ('k, 'v) htab" where
  "hashtable_iterable_first hash iter =
     (case jenkins_first hash of (r, entry, hash) \<Rightarrow>
        if r = - 1 then (- 1, iter\<lparr>hit_current := None\<rparr>, hash)
        else (0, \<lparr>hit_current = entry, hit_ordinal = hit_ordinal iter + 1\<rparr>, hash))"

definition hashtable_iterable_next ::
  "('k, 'v) htab \<Rightarrow> ('k \<times> 'v) hash_iterator
     \<Rightarrow> int \<times> ('k \<times> 'v) hash_iterator \<times> ('k, 'v) htab" where
  "hashtable_iterable_next hash iter =
     (if hit_ordinal iter = 0 then (- 1, iter, hash)
      else case jenkins_next hash of (r, entry, hash) \<Rightarrow>
        if r = - 1 then (- 1, iter\<lparr>hit_current := None\<rparr>, hash)
        else (0, \<lparr>hit_current = entry, hit_ordinal = hit_ordinal iter + 1\<rparr>, hash))"

definition hashtable_iterable_has_next :: "'e hash_iterator \<Rightarrow> bool" where
  "hashtable_iterable_has_next iter \<longleftrightarrow> hit_current iter \<noteq> None \<and> hit_ordinal iter \<noteq> 0"

definition set_hash_iterator ::
  "('k, 'v) htab \<Rightarrow> ('k \<times> 'v) hash_iterator \<times> ('k, 'v) htab" where
  "set_hash_iterator hash =
     (case hashtable_iterable_first hash \<lparr>hit_current = None, hit_ordinal = 0\<rparr> of (_, iter, hash) \<Rightarrow> (iter, hash))"

end
