(* ===== verification/HashFunc.thy ===== *)
theory HashFunc
  imports Prelude
begin

text \<open>
  The hash function of the tables: \<open>mix\<close> and \<open>lookup\<close> of \<open>src/extern/jenkhash/jenklook.c\<close>,
  \<open>etchhash\<close> of \<open>src/main/common/etch_hashfunc.c\<close> and the hash of a wrapped number in
  \<open>src/main/common/etch_object.c\<close>.

  \<^item> \<open>ub4\<close> is \<open>unsigned long\<close>: the word type of \<open>mix\<close> and \<open>lookup\<close> is a type parameter, and the
    argument \<open>ub4_bits\<close> of \<open>etchhash\<close> selects 64 or 32 bits; the result is cut to 32.
  \<^item> Numbers are stored with the least significant byte first.
\<close>

section \<open>mix\<close>

text \<open>One line of the macro per call: \<open>a -= b; a -= c; a ^= c >> s\<close> and its two variants.\<close>

definition mix_a :: "nat \<Rightarrow> 'a::len word \<times> 'a word \<times> 'a word \<Rightarrow> 'a word \<times> 'a word \<times> 'a word" where
  "mix_a s = (\<lambda>(a, b, c). ((a - b - c) XOR drop_bit s c, b, c))"

definition mix_b :: "nat \<Rightarrow> 'a::len word \<times> 'a word \<times> 'a word \<Rightarrow> 'a word \<times> 'a word \<times> 'a word" where
  "mix_b s = (\<lambda>(a, b, c). (a, (b - c - a) XOR push_bit s a, c))"

definition mix_c :: "nat \<Rightarrow> 'a::len word \<times> 'a word \<times> 'a word \<Rightarrow> 'a word \<times> 'a word \<times> 'a word" where
  "mix_c s = (\<lambda>(a, b, c). (a, b, (c - a - b) XOR drop_bit s b))"

definition mix :: "'a::len word \<times> 'a word \<times> 'a word \<Rightarrow> 'a word \<times> 'a word \<times> 'a word" where
  "mix = mix_c 15 \<circ> mix_b 10 \<circ> mix_a 3 \<circ> mix_c 5 \<circ> mix_b 16 \<circ> mix_a 12 \<circ> mix_c 13 \<circ> mix_b 8 \<circ> mix_a 13"

section \<open>lookup\<close>

text \<open>Byte \<open>i\<close> of the rest of the key, shifted left by \<open>s\<close>; a byte behind the end adds nothing.\<close>

definition key_byte :: "byte list \<Rightarrow> nat \<Rightarrow> nat \<Rightarrow> 'a::len word" where
  "key_byte k i s = (if i < length k then push_bit s (ucast (k ! i)) else 0)"

definition key_word :: "byte list \<Rightarrow> nat \<Rightarrow> 'a::len word" where
  "key_word k i = key_byte k i 0 + key_byte k (i + 1) 8 + key_byte k (i + 2) 16 + key_byte k (i + 3) 24"

fun lookup_loop ::
  "byte list \<Rightarrow> 'a::len word \<times> 'a word \<times> 'a word \<Rightarrow> byte list \<times> 'a word \<times> 'a word \<times> 'a word" where
  "lookup_loop k (a, b, c) =
     (if 12 \<le> length k
      then lookup_loop (drop 12 k) (mix (a + key_word k 0, b + key_word k 4, c + key_word k 8))
      else (k, a, b, c))"

declare lookup_loop.simps [simp del]

text \<open>The last eleven bytes; the first byte of \<open>c\<close> is reserved for the length.\<close>

definition lookup_tail ::
  "nat \<Rightarrow> byte list \<times> 'a::len word \<times> 'a word \<times> 'a word \<Rightarrow> 'a word \<times> 'a word \<times> 'a word" where
  "lookup_tail len = (\<lambda>(k, a, b, c).
     (a + key_word k 0, b + key_word k 4,
      c + of_nat len + key_byte k 10 24 + key_byte k 9 16 + key_byte k 8 8))"

definition lookup :: "byte list \<Rightarrow> 'a::len word \<Rightarrow> 'a word" where
  "lookup k level =
     (case mix (lookup_tail (length k) (lookup_loop k (0x9e3779b9, 0x9e3779b9, level))) of (a, b, c) \<Rightarrow> c)"

section \<open>etchhash\<close>

definition ETCH_HASH_MAX_KEYLENGTH :: nat where
  "ETCH_HASH_MAX_KEYLENGTH = 1024"

definition etchhash :: "nat \<Rightarrow> byte list \<Rightarrow> int32 \<Rightarrow> int32" where
  "etchhash ub4_bits pkey priorhash =
     (if length pkey < 1 \<or> length pkey > ETCH_HASH_MAX_KEYLENGTH then 0
      else if ub4_bits = 64 then ucast (lookup pkey (ucast priorhash) :: int64)
      else lookup pkey priorhash)"

definition le_bytes :: "nat \<Rightarrow> int64 \<Rightarrow> byte list" where
  "le_bytes n v = map (\<lambda>i. ucast (drop_bit (8 * i) v)) [0..<n]"

text \<open>The hash of a wrapped number of a class, by the number of its bytes.\<close>

definition number_bytelength :: "nat \<Rightarrow> nat" where
  "number_bytelength class_id =
     (if class_id = 5 \<or> class_id = 7 then 4
      else if class_id = 6 \<or> class_id = 8 \<or> class_id = 0xa then 8
      else if class_id = 4 then 2 else 1)"

definition etch_number_get_hashkey :: "nat \<Rightarrow> nat \<Rightarrow> int64 \<Rightarrow> int32" where
  "etch_number_get_hashkey ub4_bits class_id value =
     etchhash ub4_bits (le_bytes (number_bytelength class_id) value) 0"

section \<open>Properties\<close>

lemma xor_cancel: "x XOR k = y XOR k \<longleftrightarrow> x = (y :: 'a::len word)"
  by (metis xor.assoc xor_self_eq xor.right_neutral)

lemma inj_mix_a: "inj (mix_a s)"
  by (rule injI) (auto simp: mix_a_def xor_cancel split: prod.splits)

lemma inj_mix_b: "inj (mix_b s)"
  by (rule injI) (auto simp: mix_b_def xor_cancel split: prod.splits)

lemma inj_mix_c: "inj (mix_c s)"
  by (rule injI) (auto simp: mix_c_def xor_cancel split: prod.splits)

text \<open>\<open>mix\<close> mixes three words reversibly, as its comment says: no two triples have the same
  image, for every width of \<open>ub4\<close>.\<close>

theorem mix_reversible: "inj (mix :: 'a::len word \<times> 'a word \<times> 'a word \<Rightarrow> _)"
  unfolding mix_def by (intro inj_compose inj_mix_a inj_mix_b inj_mix_c)

end
