(* ===== verification/MailboxManager.thy ===== *)
theory MailboxManager
  imports Mailbox HashTable HashFunc
begin

text \<open>
  The mailbox manager, \<open>src/main/transport/etch_plain_mailbox_manager.c\<close>, and the operations of
  \<open>etch_plain_mailbox.c\<close> that call it.

  \<^item> \<open>pm_boxes\<close> is the memory of the mailboxes: a mailbox is known by its index, which stands for its
    address.  The values of the hash table \<open>pm_mailboxes\<close> are such addresses.
  \<^item> The layer below (the messagizer) and the session above are arguments, with their states.
  \<^item> \<open>ub4_bits\<close> is the width of \<open>unsigned long\<close>, as in the theory \<open>HashTable\<close>.
\<close>

record ('b, 'w, 'n) pmboxmgr =
  pm_max_delay :: int
  pm_mailboxes :: "(int64 etch_key, nat) htab"
  pm_is_connection_up :: bool
  pm_boxes :: "('b, 'w, 'n) etch_plainmailbox list"
  pm_message_id :: int64

text \<open>The wrapped \<open>int64\<close> that is the key of a mailbox, with its hash computed.\<close>

definition msgid_key :: "nat \<Rightarrow> int64 \<Rightarrow> int64 etch_key" where
  "msgid_key ub4_bits msgid =
     \<lparr>ko_hashkey = etch_number_get_hashkey ub4_bits 6 msgid, ko_obj_type = 0x29, ko_class_id = 6,
      ko_content = msgid\<rparr>"

definition pm_box :: "('b, 'w, 'n) pmboxmgr \<Rightarrow> nat \<Rightarrow> ('b, 'w, 'n) etch_plainmailbox" where
  "pm_box mgr ibox = pm_boxes mgr ! ibox"

definition pm_update ::
  "nat \<Rightarrow> (('b, 'w, 'n) etch_plainmailbox \<Rightarrow> ('b, 'w, 'n) etch_plainmailbox)
     \<Rightarrow> ('b, 'w, 'n) pmboxmgr \<Rightarrow> ('b, 'w, 'n) pmboxmgr" where
  "pm_update ibox f mgr = mgr\<lparr>pm_boxes := (pm_boxes mgr)[ibox := f (pm_boxes mgr ! ibox)]\<rparr>"

definition ETCHMBMGR_DEFNUMMAILBOXES :: int where "ETCHMBMGR_DEFNUMMAILBOXES = 8"

text \<open>The number that message ids are counted up from is the time of the first construction.\<close>

definition new_plain_mailbox_manager :: "int64 \<Rightarrow> ('b, 'w, 'n) pmboxmgr" where
  "new_plain_mailbox_manager now =
     \<lparr>pm_max_delay = ETCH_INFWAIT, pm_mailboxes = jenkins_create ETCHMBMGR_DEFNUMMAILBOXES,
      pm_is_connection_up = False, pm_boxes = [], pm_message_id = now\<rparr>"

definition generate_message_id :: "('b, 'w, 'n) pmboxmgr \<Rightarrow> int64 \<times> ('b, 'w, 'n) pmboxmgr" where
  "generate_message_id mgr = (pm_message_id mgr + 1, mgr\<lparr>pm_message_id := pm_message_id mgr + 1\<rparr>)"

section \<open>Registration\<close>

definition pmboxmgr_register_mailbox ::
  "nat \<Rightarrow> ('b, 'w, 'n) pmboxmgr \<Rightarrow> nat \<Rightarrow> int \<times> ('b, 'w, 'n) pmboxmgr" where
  "pmboxmgr_register_mailbox ub4_bits mgr ibox =
     (if pm_is_connection_up mgr
      then let idobj = msgid_key ub4_bits (etchmbox_get_message_id (pm_box mgr ibox));
               (result, mboxmap) = jenkins_inserth ub4_bits (pm_mailboxes mgr) idobj ibox
           in (result, mgr\<lparr>pm_mailboxes := mboxmap\<rparr>)
      else (- 1, mgr))"

definition pmboxmgr_unregister ::
  "nat \<Rightarrow> ('b, 'w, 'n) pmboxmgr \<Rightarrow> nat \<Rightarrow> int \<times> ('b, 'w, 'n) pmboxmgr" where
  "pmboxmgr_unregister ub4_bits mgr ibox =
     (let msgid = etchmbox_get_message_id (pm_box mgr ibox);
          (result, removed, mboxmap) =
            jenkins_removeh (pm_mailboxes mgr) (etchhash ub4_bits (le_bytes 8 msgid) 0)
      in (result, mgr\<lparr>pm_mailboxes := mboxmap\<rparr>))"

definition pmboxmgr_get_mailbox ::
  "nat \<Rightarrow> ('b, 'w, 'n) pmboxmgr \<Rightarrow> int64 \<Rightarrow> nat option \<times> ('b, 'w, 'n) pmboxmgr" where
  "pmboxmgr_get_mailbox ub4_bits mgr msgid =
     (let (result, entry, mboxmap) = jenkins_findh (pm_mailboxes mgr) (etch_number_get_hashkey ub4_bits 6 msgid)
      in (if result = 0 then map_option snd entry else None, mgr\<lparr>pm_mailboxes := mboxmap\<rparr>))"

definition pmboxmgr_size :: "('b, 'w, 'n) pmboxmgr \<Rightarrow> nat" where
  "pmboxmgr_size mgr = jenkins_count (pm_mailboxes mgr)"

section \<open>Closing a mailbox\<close>

definition etchmbox_close_delivery ::
  "nat \<Rightarrow> ('b, 'w, 'n) pmboxmgr \<Rightarrow> nat \<Rightarrow> int \<times> ('b, 'w, 'n) pmboxmgr" where
  "etchmbox_close_delivery ub4_bits mgr ibox =
     (let thisx = pm_box mgr ibox in
      if mb_state thisx \<ge> ETCH_MAILBOX_STATE_CLOSED_DELIVERY \<and> etchqueue_is_closed (mb_queue thisx)
      then (ETCH_MAILBOX_RESULT_ALREADY_CLOSED, mgr)
      else if \<not> etchqueue_is_closed (mb_queue thisx)
      then let mgr = pm_update ibox (\<lambda>b. b\<lparr>mb_state := (if mb_state b < ETCH_MAILBOX_STATE_CLOSED_DELIVERY
                                            then ETCH_MAILBOX_STATE_CLOSED_DELIVERY else mb_state b),
                                          mb_is_alarm_set := False\<rparr>) mgr;
               mgr = snd (pmboxmgr_unregister ub4_bits mgr ibox);
               mgr = pm_update ibox (\<lambda>b. b\<lparr>mb_queue := snd (etchqueue_close (mb_queue b) False)\<rparr>) mgr
           in (0, pm_update ibox etchmbox_fire_notify mgr)
      else (- 1, mgr))"

definition ETCH_TIMEOUT :: int where "ETCH_TIMEOUT = 1"

definition etchmbox_alarm_wakeup ::
  "nat \<Rightarrow> ('b, 'w, 'n) pmboxmgr \<Rightarrow> nat \<Rightarrow> int \<Rightarrow> ('b, 'w, 'n) pmboxmgr" where
  "etchmbox_alarm_wakeup ub4_bits mgr ibox wakeupreason =
     (if wakeupreason = ETCH_TIMEOUT then snd (etchmbox_close_delivery ub4_bits mgr ibox) else mgr)"

text \<open>The loop of \<open>pmboxmgr_redeliver\<close>; the table changes while the iterator walks over it.\<close>

fun redeliver_loop ::
  "nat \<Rightarrow> nat \<Rightarrow> (int64 etch_key \<times> nat) hash_iterator \<Rightarrow> ('b, 'w, 'n) pmboxmgr
     \<Rightarrow> ('b, 'w, 'n) pmboxmgr outcome" where
  "redeliver_loop 0 ub4_bits iter mgr = Diverges"
| "redeliver_loop (Suc fuel) ub4_bits iter mgr =
     (if hashtable_iterable_has_next iter
      then let mgr = (case hit_current iter of
                        None \<Rightarrow> mgr
                      | Some (_, ibox) \<Rightarrow> snd (etchmbox_close_delivery ub4_bits mgr ibox))
           in case hashtable_iterable_next (pm_mailboxes mgr) iter of
                (_, iter, mboxmap) \<Rightarrow> redeliver_loop fuel ub4_bits iter (mgr\<lparr>pm_mailboxes := mboxmap\<rparr>)
      else Returns mgr)"

definition pmboxmgr_redeliver ::
  "nat \<Rightarrow> nat \<Rightarrow> ('b, 'w, 'n) pmboxmgr \<Rightarrow> 'w \<Rightarrow> 'b etch_message
     \<Rightarrow> (int \<times> ('b, 'w, 'n) pmboxmgr) outcome" where
  "pmboxmgr_redeliver fuel ub4_bits mgr whofrom msg =
     (case set_hash_iterator (pm_mailboxes mgr) of (iter, mboxmap) \<Rightarrow>
        case redeliver_loop fuel ub4_bits iter (mgr\<lparr>pm_mailboxes := mboxmap\<rparr>) of
          Returns mgr \<Rightarrow> Returns (0, mgr)
        | Fault \<Rightarrow> Fault
        | Diverges \<Rightarrow> Diverges)"

text \<open>
  The loop of \<open>etchmbox_close_read\<close>; \<open>destroy_message\<close> is the property
  \<open>etch.mailbox.destroy.message\<close>, \<open>destroyed\<close> collects the messages that are destroyed.
\<close>

fun close_read_loop ::
  "nat \<Rightarrow> nat \<Rightarrow> bool \<Rightarrow> ('b, 'w, 'n) pmboxmgr \<Rightarrow> nat \<Rightarrow> 'b etch_message list
     \<Rightarrow> ('b etch_message list \<times> ('b, 'w, 'n) pmboxmgr) outcome" where
  "close_read_loop 0 ub4_bits destroy_message mgr ibox destroyed = Diverges"
| "close_read_loop (Suc fuel) ub4_bits destroy_message mgr ibox destroyed =
     (case etchmbox_read_withwait (\<lambda>_ q. (APR_EINTR, q)) (pm_box mgr ibox) ETCHQUEUE_CLEARING_CLOSED_QUEUE of
        Some (result, Out_element qitem, thisx) \<Rightarrow>
          if result \<noteq> 0 then Returns (destroyed, pm_update ibox (\<lambda>_. thisx) mgr)
          else let mgr = pm_update ibox (\<lambda>_. thisx) mgr in
               if destroy_message \<and> mb_state thisx = ETCH_MAILBOX_STATE_SHUTDOWN
               then close_read_loop fuel ub4_bits destroy_message mgr ibox (destroyed @ [me_msg qitem])
               else (case pmboxmgr_redeliver (Suc fuel) ub4_bits mgr (me_whofrom qitem) (me_msg qitem) of
                       Returns (r, mgr) \<Rightarrow>
                         close_read_loop fuel ub4_bits destroy_message mgr ibox
                           (if r \<noteq> 0 then destroyed @ [me_msg qitem] else destroyed)
                     | Fault \<Rightarrow> Fault
                     | Diverges \<Rightarrow> Diverges)
      | Some (result, _, thisx) \<Rightarrow>
          if result \<noteq> 0 then Returns (destroyed, pm_update ibox (\<lambda>_. thisx) mgr) else Fault
      | None \<Rightarrow> Fault)"

definition etchmbox_close_read ::
  "nat \<Rightarrow> nat \<Rightarrow> bool \<Rightarrow> ('b, 'w, 'n) pmboxmgr \<Rightarrow> nat
     \<Rightarrow> (int \<times> 'b etch_message list \<times> ('b, 'w, 'n) pmboxmgr) outcome" where
  "etchmbox_close_read fuel ub4_bits destroy_message mgr ibox =
     (let (result, mgr) = etchmbox_close_delivery ub4_bits mgr ibox in
      if result < 0 then Returns (- 1, [], mgr)
      else let mgr = pm_update ibox (\<lambda>b. if mb_state b < ETCH_MAILBOX_STATE_CLOSED_READ
                                      then b\<lparr>mb_state := ETCH_MAILBOX_STATE_CLOSED_READ\<rparr> else b) mgr
           in case close_read_loop fuel ub4_bits destroy_message mgr ibox [] of
                Returns (destroyed, mgr) \<Rightarrow> Returns (0, destroyed, mgr)
              | Fault \<Rightarrow> Fault
              | Diverges \<Rightarrow> Diverges)"

section \<open>Messages down\<close>

text \<open>Setting the id of a message succeeds; it stays set when the transport fails.\<close>

definition pmboxmgr_transport_message ::
  "('t \<Rightarrow> 'w \<Rightarrow> 'b etch_message \<Rightarrow> int \<times> 't) \<Rightarrow> ('b, 'w, 'n) pmboxmgr \<Rightarrow> 't \<Rightarrow> 'w \<Rightarrow> 'b etch_message
     \<Rightarrow> int \<times> 'b etch_message \<times> ('b, 'w, 'n) pmboxmgr \<times> 't" where
  "pmboxmgr_transport_message transport_message mgr transport whoto msg =
     (if msg_id msg \<noteq> None then (- 1, msg, mgr, transport)
      else let (msgid, mgr) = generate_message_id mgr; msg = msg\<lparr>msg_id := Some msgid\<rparr>;
               (result, transport) = transport_message transport whoto msg
           in (result, msg, mgr, transport))"

definition pmboxmgr_transport_call ::
  "nat \<Rightarrow> ('t \<Rightarrow> 'w \<Rightarrow> 'b etch_message \<Rightarrow> int \<times> 't) \<Rightarrow> ('b, 'w, 'n) pmboxmgr \<Rightarrow> 't \<Rightarrow> 'w \<Rightarrow> 'b etch_message
     \<Rightarrow> int \<times> nat option \<times> 'b etch_message \<times> ('b, 'w, 'n) pmboxmgr \<times> 't" where
  "pmboxmgr_transport_call ub4_bits transport_message mgr transport whoto msg =
     (if msg_id msg \<noteq> None \<or> msg_in_reply_to msg \<noteq> None then (- 1, None, msg, mgr, transport)
      else let (msgid, mgr) = generate_message_id mgr; msg = msg\<lparr>msg_id := Some msgid\<rparr>
           in case new_mailbox msgid (pm_max_delay mgr) 0 1 of
                None \<Rightarrow> (- 1, None, msg, mgr, transport)
              | Some mbox \<Rightarrow>
                  let ibox = length (pm_boxes mgr);
                      mgr = mgr\<lparr>pm_boxes := pm_boxes mgr @ [mbox]\<rparr>;
                      (result, mgr) = pmboxmgr_register_mailbox ub4_bits mgr ibox;
                      (result, transport) = (if result = 0 then transport_message transport whoto msg
                                             else (result, transport))
                  in if result = 0 then (0, Some ibox, msg, mgr, transport)
                     else (result, None, msg, snd (pmboxmgr_unregister ub4_bits mgr ibox), transport))"

section \<open>Messages up\<close>

text \<open>\<open>msg = None\<close> is the null message that the messagizer passes for bytes it cannot read.\<close>

definition pmboxmgr_session_message ::
  "nat \<Rightarrow> (int \<Rightarrow> ('b, 'w) mailbox_element etch_apr_queue \<Rightarrow> apr_status \<times> ('b, 'w) mailbox_element etch_apr_queue)
     \<Rightarrow> ('s \<Rightarrow> 'w \<Rightarrow> 'b etch_message \<Rightarrow> int \<times> 's)
     \<Rightarrow> ('b, 'w, 'n) pmboxmgr \<Rightarrow> 's \<Rightarrow> 'w \<Rightarrow> 'b etch_message option
     \<Rightarrow> (int \<times> ('b, 'w, 'n) pmboxmgr \<times> 's) outcome" where
  "pmboxmgr_session_message ub4_bits cond_wait session_message mgr session whofrom msg =
     (case msg of
        None \<Rightarrow> Returns (- 1, mgr, session)
      | Some msg \<Rightarrow>
          (case msg_in_reply_to msg of
             None \<Rightarrow> let (result, session) = session_message session whofrom msg in Returns (result, mgr, session)
           | Some msgid \<Rightarrow>
               (case pmboxmgr_get_mailbox ub4_bits mgr msgid of
                  (None, mgr) \<Rightarrow> Returns (- 1, mgr, session)
                | (Some ibox, mgr) \<Rightarrow>
                    if etchmbox_is_closed (pm_box mgr ibox) then Returns (- 1, mgr, session)
                    else (case etchmbox_message cond_wait (pm_box mgr ibox) whofrom msg of
                            Returns (result, thisx) \<Rightarrow>
                              Returns (if result \<noteq> 0 then - 1 else 0, pm_update ibox (\<lambda>_. thisx) mgr, session)
                          | Fault \<Rightarrow> Fault
                          | Diverges \<Rightarrow> Diverges))))"

text \<open>The loop of \<open>pmboxmgr_unregister_all\<close> that copies the mailboxes, and the one that closes them.\<close>

fun copy_mailboxes ::
  "nat \<Rightarrow> (int64 etch_key, nat) htab \<Rightarrow> (int64 etch_key \<times> nat) hash_iterator \<Rightarrow> (nat list \<times> (int64 etch_key, nat) htab) outcome" where
  "copy_mailboxes 0 mboxmap iter = Diverges"
| "copy_mailboxes (Suc fuel) mboxmap iter =
     (if hashtable_iterable_has_next iter
      then (case hit_current iter of
              None \<Rightarrow> Fault
            | Some (_, ibox) \<Rightarrow>
                (case hashtable_iterable_next mboxmap iter of (_, iter, mboxmap) \<Rightarrow>
                   case copy_mailboxes fuel mboxmap iter of
                     Returns (mboxs, mboxmap) \<Rightarrow> Returns (ibox # mboxs, mboxmap)
                   | Fault \<Rightarrow> Fault
                   | Diverges \<Rightarrow> Diverges))
      else Returns ([], mboxmap))"

definition pmboxmgr_unregister_all ::
  "nat \<Rightarrow> ('b, 'w, 'n) pmboxmgr \<Rightarrow> ('b, 'w, 'n) pmboxmgr outcome" where
  "pmboxmgr_unregister_all ub4_bits mgr =
     (if pmboxmgr_size mgr \<noteq> 0
      then (case set_hash_iterator (pm_mailboxes mgr) of (iter, mboxmap) \<Rightarrow>
              case copy_mailboxes (Suc (pmboxmgr_size mgr)) mboxmap iter of
                Returns (mboxs, mboxmap) \<Rightarrow>
                  Returns (fold (\<lambda>ibox mgr. snd (etchmbox_close_delivery ub4_bits mgr ibox)) mboxs
                             (mgr\<lparr>pm_mailboxes := mboxmap\<rparr>))
              | Fault \<Rightarrow> Fault
              | Diverges \<Rightarrow> Diverges)
      else Returns mgr)"

definition ETCHEVT_SESSION_UP :: nat where "ETCHEVT_SESSION_UP = 0x80"
definition ETCHEVT_SESSION_DOWN :: nat where "ETCHEVT_SESSION_DOWN = 0x81"

definition pmboxmgr_session_notify ::
  "nat \<Rightarrow> ('s \<Rightarrow> nat \<Rightarrow> int \<times> 's) \<Rightarrow> ('b, 'w, 'n) pmboxmgr \<Rightarrow> 's \<Rightarrow> nat
     \<Rightarrow> (int \<times> ('b, 'w, 'n) pmboxmgr \<times> 's) outcome" where
  "pmboxmgr_session_notify ub4_bits session_notify mgr session evt =
     (case (if evt = ETCHEVT_SESSION_UP then Returns (mgr\<lparr>pm_is_connection_up := True\<rparr>)
            else if evt = ETCHEVT_SESSION_DOWN
            then pmboxmgr_unregister_all ub4_bits (mgr\<lparr>pm_is_connection_up := False\<rparr>)
            else Returns mgr) of
        Returns mgr \<Rightarrow> let (result, session) = session_notify session evt in Returns (result, mgr, session)
      | Fault \<Rightarrow> Fault
      | Diverges \<Rightarrow> Diverges)"

text \<open>The control, notification and query functions that only forward a call.\<close>

definition pmboxmgr_session_control :: "('s \<Rightarrow> 'e \<Rightarrow> 'v \<Rightarrow> int \<times> 's) \<Rightarrow> 's \<Rightarrow> 'e \<Rightarrow> 'v \<Rightarrow> int \<times> 's" where
  "pmboxmgr_session_control session_control session control value = session_control session control value"

definition pmboxmgr_transport_control :: "('t \<Rightarrow> 'e \<Rightarrow> 'v \<Rightarrow> int \<times> 't) \<Rightarrow> 't \<Rightarrow> 'e \<Rightarrow> 'v \<Rightarrow> int \<times> 't" where
  "pmboxmgr_transport_control transport_control transport control value = transport_control transport control value"

section \<open>The end of a call\<close>

text \<open>
  \<open>tcpdelsvc_begincall\<close> and \<open>tcpdelsvc_endcall\<close> of \<open>etch_transport.c\<close>, the two halves of a remote call.
  \<open>result_of\<close> is \<open>etch_message_get\<close> of the response field; the timeout is that of the message type, or
  the configured default.
\<close>

datatype 'o call_result = Call_object 'o | Call_null | Call_exception string

definition tcpdelsvc_begincall ::
  "nat \<Rightarrow> ('t \<Rightarrow> 'w \<Rightarrow> 'b etch_message \<Rightarrow> int \<times> 't) \<Rightarrow> ('b, 'w, 'n) pmboxmgr \<Rightarrow> 't \<Rightarrow> 'w \<Rightarrow> 'b etch_message
     \<Rightarrow> int \<times> nat option \<times> 'b etch_message \<times> ('b, 'w, 'n) pmboxmgr \<times> 't" where
  "tcpdelsvc_begincall ub4_bits transport_message mgr transport nowho msg =
     pmboxmgr_transport_call ub4_bits transport_message mgr transport nowho msg"

definition tcpdelsvc_endcall ::
  "nat \<Rightarrow> nat \<Rightarrow> bool
     \<Rightarrow> (int \<Rightarrow> ('b, 'w) mailbox_element etch_apr_queue \<Rightarrow> apr_status \<times> ('b, 'w) mailbox_element etch_apr_queue)
     \<Rightarrow> ('b etch_message \<Rightarrow> 'o option) \<Rightarrow> int \<Rightarrow> int \<Rightarrow> ('b, 'w, 'n) pmboxmgr \<Rightarrow> nat
     \<Rightarrow> (int \<times> 'o call_result \<times> ('b, 'w, 'n) pmboxmgr) outcome" where
  "tcpdelsvc_endcall fuel ub4_bits destroy_message cond_wait result_of type_timeout default_timeout mgr ibox =
     (let timeout = (if type_timeout > 0 then type_timeout else default_timeout) in
      case etchmbox_read_withwait cond_wait (pm_box mgr ibox) timeout of
        None \<Rightarrow> Fault
      | Some (result, mbe, thisx) \<Rightarrow>
          let mgr = pm_update ibox (\<lambda>_. thisx) mgr;
              (result, out) =
                (case mbe of
                   Out_null \<Rightarrow> (0, Call_exception ''could not read mailbox element, because it was empty.'')
                 | Out_exception txt \<Rightarrow> (result, Call_exception txt)
                 | Out_element e \<Rightarrow>
                     (case result_of (me_msg e) of
                        None \<Rightarrow> (0, Call_null)
                      | Some result_obj \<Rightarrow> (0, Call_object result_obj)))
          in case etchmbox_close_read fuel ub4_bits destroy_message mgr ibox of
               Returns (_, _, mgr) \<Rightarrow> Returns (result, out, mgr)
             | Fault \<Rightarrow> Fault
             | Diverges \<Rightarrow> Diverges)"

end
