(* ===== verification/Mailbox_Correct.thy ===== *)
theory Mailbox_Correct
  imports Mailbox Queue_Correct
begin

text \<open>
  What the operations of a mailbox with room for one message do: such a mailbox waits for the reply
  to a call.  \<open>mbox_ok\<close> is the invariant of a mailbox.
\<close>

definition mbox_ok :: "('b, 'w, 'n) etch_plainmailbox \<Rightarrow> bool" where
  "mbox_ok b \<longleftrightarrow> aq_inv (mb_queue b) \<and> ETCH_MAILBOX_STATE_OPEN \<le> mb_state b
     \<and> mb_state b \<le> ETCH_MAILBOX_STATE_CLOSED_READ
     \<and> (etchmbox_is_closed b \<longleftrightarrow> ETCH_MAILBOX_STATE_CLOSED_DELIVERY \<le> mb_state b)"

definition one_slot :: "('b, 'w, 'n) etch_plainmailbox \<Rightarrow> bool" where
  "one_slot b \<longleftrightarrow> mbox_ok b \<and> aq_bounds (mb_queue b) = 1"

definition mbox_list :: "('b, 'w, 'n) etch_plainmailbox \<Rightarrow> ('b, 'w) mailbox_element list" where
  "mbox_list b = aq_list (mb_queue b)"

named_theorems mbox_defs \<open>closed, size and state constants of mailboxes\<close>

lemmas [mbox_defs] = etchmbox_is_closed_def etchqueue_is_closed_def etchqueue_size_def
  etch_apr_queue_size_def ETCH_MAILBOX_STATE_OPEN_def ETCH_MAILBOX_STATE_CLOSED_DELIVERY_def
  ETCH_MAILBOX_STATE_CLOSED_READ_def ETCH_MAILBOX_STATE_SHUTDOWN_def

lemma new_mailbox_one_slot:
  assumes "message_id \<noteq> 0"
  shows "\<exists>b. new_mailbox message_id delay 0 1 = Some b \<and> one_slot b \<and> mbox_list b = []
    \<and> \<not> etchmbox_is_closed b \<and> mb_message_id b = message_id \<and> mb_max_message_delay b = delay
    \<and> mb_notify b = None \<and> mb_notified b = []"
  using assms create_inv [of 1]
  by (simp add: new_mailbox_def new_mailbox_a_def new_queue_def Let_def one_slot_def mbox_ok_def
      mbox_list_def mbox_defs) (simp add: etch_apr_queue_create_def)

lemma notify_simps [simp]:
  "mb_queue (etchmbox_fire_notify b) = mb_queue b"
  "mb_state (etchmbox_fire_notify b) = mb_state b"
  "mb_message_id (etchmbox_fire_notify b) = mb_message_id b"
  "mb_notify (etchmbox_fire_notify b) = mb_notify b"
  by (simp_all add: etchmbox_fire_notify_def split: option.splits)

lemma notify_ok [simp]:
  "etchmbox_is_closed (etchmbox_fire_notify b) = etchmbox_is_closed b"
  "mbox_ok (etchmbox_fire_notify b) = mbox_ok b" "one_slot (etchmbox_fire_notify b) = one_slot b"
  "mbox_list (etchmbox_fire_notify b) = mbox_list b"
  by (simp_all add: mbox_ok_def one_slot_def mbox_list_def etchmbox_is_closed_def)

section \<open>Delivery\<close>

lemma one_slot_data:
  assumes "one_slot b"
  shows "length (aq_data (mb_queue b)) = 1" "aq_out (mb_queue b) = 0"
    "mbox_list b = [] \<and> aq_nelts (mb_queue b) = 0
     \<or> (\<exists>e. mbox_list b = [e] \<and> aq_nelts (mb_queue b) = 1 \<and> aq_data (mb_queue b) = [Some e])"
proof -
  let ?q = "mb_queue b"
  have q: "aq_inv ?q" "aq_bounds ?q = 1" using assms by (simp_all add: one_slot_def mbox_ok_def)
  then show len: "length (aq_data ?q) = 1" and out: "aq_out ?q = 0" by (simp_all add: aq_inv_def)
  then obtain d where d: "aq_data ?q = [d]" by (metis One_nat_def length_0_conv length_Suc_conv)
  have "aq_nelts ?q = 0 \<or> aq_nelts ?q = 1" using q by (auto simp: aq_inv_def)
  then show "mbox_list b = [] \<and> aq_nelts ?q = 0
     \<or> (\<exists>e. mbox_list b = [e] \<and> aq_nelts ?q = 1 \<and> aq_data ?q = [Some e])"
  proof
    assume n: "aq_nelts ?q = 1"
    then have "d \<noteq> None" using q d by (simp add: aq_inv_def out)
    then obtain e where "d = Some e" by blast
    then show ?thesis using n d q out by (auto simp: mbox_list_def aq_list_def)
  qed (simp add: mbox_list_def)
qed

text \<open>An empty mailbox takes a message and notifies; a full one faults unless it holds this message.\<close>

lemma message_empty:
  assumes b: "one_slot b" and e: "mbox_list b = []" and c: "\<not> etchmbox_is_closed b"
    and d: "mb_max_message_delay b = ETCH_INFWAIT"
  shows "\<exists>b'. etchmbox_message cond_wait b w m = Returns (0, b') \<and> one_slot b'
    \<and> mbox_list b' = [\<lparr>me_msg = m, me_whofrom = w\<rparr>] \<and> \<not> etchmbox_is_closed b'
    \<and> mb_message_id b' = mb_message_id b \<and> mb_state b' = mb_state b \<and> mb_notify b' = mb_notify b
    \<and> mb_max_message_delay b' = ETCH_INFWAIT
    \<and> mb_notified b' = mb_notified b @ (case mb_notify b of None \<Rightarrow> [] | Some (_, s) \<Rightarrow> [(s, False)])"
proof -
  let ?q = "mb_queue b" and ?e = "\<lparr>me_msg = m, me_whofrom = w\<rparr>"
  have q: "aq_inv ?q" "aq_bounds ?q = 1" using b by (simp_all add: one_slot_def mbox_ok_def)
  have n: "aq_nelts ?q = 0" using e by (simp add: mbox_list_def)
  have t: "\<not> aq_terminated ?q" using c by (simp add: mbox_defs)
  obtain q' where q': "apr_enqueue ?e ?q = Some (APR_SUCCESS, q')" "aq_inv q'" "aq_list q' = aq_list ?q @ [?e]"
    "aq_bounds q' = aq_bounds ?q" "aq_terminated q' = aq_terminated ?q"
    using enqueue_ring [OF q(1), of ?e] n q(2) by auto
  have none: "etchmbox_contains_message b m = Returns False"
    using n by (simp add: etchmbox_contains_message_def etch_apr_queue_size_def)
  have put: "etchqueue_put_withwait cond_wait ?q (mb_max_message_delay b) ?e = Some (0, q')"
    using q' t n q(2) d by (simp add: etchqueue_put_withwait_def etch_apr_queue_push_def apr_push_locked_def
        etch_apr_queue_full_def put_result_def etchqueue_is_closed_def wait_microseconds_def ETCH_INFWAIT_def)
  let ?b = "etchmbox_fire_notify (b\<lparr>mb_queue := q'\<rparr>)"
  have "etchmbox_message cond_wait b w m = Returns (0, ?b)"
    by (simp add: etchmbox_message_def none put Let_def)
  moreover have "one_slot (b\<lparr>mb_queue := q'\<rparr>)" "\<not> etchmbox_is_closed (b\<lparr>mb_queue := q'\<rparr>)"
    using b c q' q by (simp_all add: one_slot_def mbox_ok_def mbox_defs)
  moreover have "mbox_list (b\<lparr>mb_queue := q'\<rparr>) = [?e]" using q'(3) e by (simp add: mbox_list_def)
  moreover have "mb_notified ?b = mb_notified b @ (case mb_notify b of None \<Rightarrow> [] | Some (_, s) \<Rightarrow> [(s, False)])"
    using t q'(5) by (simp add: etchmbox_fire_notify_def etchqueue_is_closed_def split: option.splits)
  moreover have "mb_max_message_delay ?b = ETCH_INFWAIT"
    using d by (simp add: etchmbox_fire_notify_def split: option.splits)
  ultimately show ?thesis by (intro exI [of _ ?b]) simp
qed

lemma message_full:
  assumes b: "one_slot b" and e: "mbox_list b = [e]"
  shows "etchmbox_message cond_wait b w m =
    (if msg_addr (me_msg e) = msg_addr m then Returns (ETCH_MAILBOX_DUPLICATE, b) else Fault)"
proof -
  let ?q = "mb_queue b"
  have q: "aq_data ?q = [Some e]" "aq_nelts ?q = 1" using one_slot_data(3) [OF b] e by auto
  have first: "etchqueue_iterable_first ?q \<lparr>it_current = None, it_ordinal = 0\<rparr>
      = Some (0, \<lparr>it_current = Some e, it_ordinal = 1\<rparr>)"
    using q by (simp add: etchqueue_iterable_first_def etchqueue_size_def etch_apr_queue_size_def)
  have "etchqueue_iterable_next ?q \<lparr>it_current = Some e, it_ordinal = 1\<rparr> = None"
    using q by (simp add: etchqueue_iterable_next_def etchqueue_size_def etch_apr_queue_size_def)
  then have "etchmbox_contains_message b m
      = (if msg_addr (me_msg e) = msg_addr m then Returns True else Fault)"
    using q by (simp add: etchmbox_contains_message_def first etch_apr_queue_size_def
        etchqueue_iterable_has_next_def etchqueue_size_def Let_def)
  then show ?thesis by (simp add: etchmbox_message_def)
qed

section \<open>Reading\<close>

lemma read_open:
  assumes b: "one_slot b" and e: "mbox_list b = [e]" and c: "\<not> etchmbox_is_closed b"
    and w: "0 \<le> wait" "wait * 1000 \<le> 2147483647"
  shows "\<exists>b'. etchmbox_read_withwait cond_wait b wait = Some (0, Out_element e, b') \<and> one_slot b'
    \<and> mbox_list b' = [] \<and> \<not> etchmbox_is_closed b' \<and> mb_message_id b' = mb_message_id b
    \<and> mb_state b' = mb_state b \<and> mb_notify b' = mb_notify b"
proof -
  let ?q = "mb_queue b"
  have q: "aq_inv ?q" "aq_bounds ?q = 1" using b by (simp_all add: one_slot_def mbox_ok_def)
  have n: "aq_nelts ?q \<noteq> 0" using one_slot_data(3) [OF b] e by auto
  obtain q' where q': "apr_dequeue ?q = Some (APR_SUCCESS, Some (hd (aq_list ?q)), q')" "aq_inv q'"
    "aq_list q' = tl (aq_list ?q)" "aq_bounds q' = aq_bounds ?q" "aq_terminated q' = aq_terminated ?q"
    using dequeue_ring [OF q(1) n] by blast
  have t: "\<not> aq_terminated ?q" using c by (simp add: mbox_defs)
  have "etchqueue_get_withwait cond_wait ?q wait = Some (0, Some e, q')"
    using q' t n w e by (simp add: etchqueue_get_withwait_def etch_apr_queue_pop_def apr_pop_locked_def
        etch_apr_queue_empty_def get_result_def etchqueue_is_closed_def wait_microseconds_def mbox_list_def)
  then have "etchmbox_read_withwait cond_wait b wait = Some (0, Out_element e, b\<lparr>mb_queue := q'\<rparr>)"
    by (simp add: etchmbox_read_withwait_def etchmbox_check_read_result_def read_out_def)
  then show ?thesis using b c q' e
    by (intro exI [of _ "b\<lparr>mb_queue := q'\<rparr>"]) (simp add: one_slot_def mbox_ok_def mbox_defs mbox_list_def)
qed

text \<open>A closed mailbox gives nothing but to the reader that clears it.\<close>

lemma read_closed:
  assumes "etchmbox_is_closed b" and "0 \<le> wait" and "wait * 1000 \<le> 2147483647"
  shows "etchmbox_read_withwait cond_wait b wait = Some (- 1, Out_exception ''mailbox read error'', b)"
  using assms
  by (simp add: etchmbox_read_withwait_def etchqueue_get_withwait_def etchmbox_check_read_result_def
      wait_microseconds_def ETCHQUEUE_CLEARING_CLOSED_QUEUE_def etchmbox_is_closed_def
      ETCH_QUEUE_EOF_def ETCH_QUEUE_OPERATION_TIMEOUT_def ETCH_QUEUE_OPERATION_CANCELED_def)

lemma read_clearing:
  assumes c: "etchmbox_is_closed b" and b: "mbox_ok b"
  shows "mbox_list b = [] \<Longrightarrow>
      etchmbox_read_withwait cond_wait b ETCHQUEUE_CLEARING_CLOSED_QUEUE = Some (ETCH_QUEUE_EOF, Out_null, b)"
    and "mbox_list b = e # es \<Longrightarrow>
      \<exists>b'. etchmbox_read_withwait cond_wait b ETCHQUEUE_CLEARING_CLOSED_QUEUE = Some (0, Out_element e, b')
      \<and> mbox_ok b' \<and> mbox_list b' = es \<and> etchmbox_is_closed b' \<and> mb_message_id b' = mb_message_id b
      \<and> mb_state b' = mb_state b \<and> aq_bounds (mb_queue b') = aq_bounds (mb_queue b)"
proof -
  let ?q = "mb_queue b"
  have t: "aq_terminated ?q" using c by (simp add: mbox_defs)
  {
    assume "mbox_list b = []"
    then have "aq_nelts ?q = 0" by (simp add: mbox_list_def)
    then show "etchmbox_read_withwait cond_wait b ETCHQUEUE_CLEARING_CLOSED_QUEUE = Some (ETCH_QUEUE_EOF, Out_null, b)"
      using t by (simp add: etchmbox_read_withwait_def etchqueue_get_withwait_def etch_apr_queue_pop_def
          apr_pop_locked_def etch_apr_queue_empty_def get_result_def etchqueue_is_closed_def
          ETCHQUEUE_CLEARING_CLOSED_QUEUE_def etchmbox_check_read_result_def apr_codes ETCH_QUEUE_EOF_def)
  next
    assume e: "mbox_list b = e # es"
    then have n: "aq_nelts ?q \<noteq> 0" using length_aq_list [of ?q] by (auto simp: mbox_list_def)
    have q: "aq_inv ?q" using b by (simp add: mbox_ok_def)
    obtain q' where q': "apr_dequeue ?q = Some (APR_SUCCESS, Some (hd (aq_list ?q)), q')" "aq_inv q'"
      "aq_list q' = tl (aq_list ?q)" "aq_bounds q' = aq_bounds ?q" "aq_terminated q' = aq_terminated ?q"
      using dequeue_ring [OF q n] by blast
    have "etchqueue_get_withwait cond_wait ?q ETCHQUEUE_CLEARING_CLOSED_QUEUE = Some (0, Some e, q')"
      using q' t n e by (simp add: etchqueue_get_withwait_def etch_apr_queue_pop_def apr_pop_locked_def
          etch_apr_queue_empty_def get_result_def etchqueue_is_closed_def mbox_list_def
          ETCHQUEUE_CLEARING_CLOSED_QUEUE_def)
    then have "etchmbox_read_withwait cond_wait b ETCHQUEUE_CLEARING_CLOSED_QUEUE
        = Some (0, Out_element e, b\<lparr>mb_queue := q'\<rparr>)"
      by (simp add: etchmbox_read_withwait_def etchmbox_check_read_result_def read_out_def)
    then show "\<exists>b'. etchmbox_read_withwait cond_wait b ETCHQUEUE_CLEARING_CLOSED_QUEUE = Some (0, Out_element e, b')
      \<and> mbox_ok b' \<and> mbox_list b' = es \<and> etchmbox_is_closed b' \<and> mb_message_id b' = mb_message_id b
      \<and> mb_state b' = mb_state b \<and> aq_bounds (mb_queue b') = aq_bounds (mb_queue b)"
      using b q' e t by (intro exI [of _ "b\<lparr>mb_queue := q'\<rparr>"])
        (simp add: mbox_ok_def mbox_defs mbox_list_def)
  }
qed

end
