(* ===== verification/HashTable_Correct.thy ===== *)
theory HashTable_Correct
  imports HashTable "HOL-Library.Multiset"
begin

text \<open>
  The hash table implements a finite map from hash values.

  \<^item> \<open>htab_inv\<close> is the invariant, \<open>ht_items\<close> the items in the order of the buckets, \<open>ht_map\<close> the map.
  \<^item> \<open>hash_map\<close> is the contract of the interface \<open>etch_hashtable\<close> that its clients use; it is
    interpreted on the \<open>jenkins_\<close> functions for keys of one class where \<open>ub4\<close> has 32 bits.
\<close>

section \<open>The invariant\<close>

definition ht_items :: "('k, 'v) htab \<Rightarrow> ('k, 'v) hitem list" where
  "ht_items t = concat (ht_table t)"

definition ht_pos_ok :: "('k, 'v) htab \<Rightarrow> bool" where
  "ht_pos_ok t \<longleftrightarrow> ht_apos t < length (ht_table t)
     \<and> (case ht_ipos t of None \<Rightarrow> ht_items t = [] | Some j \<Rightarrow> j < length (ht_table t ! ht_apos t))"

definition ht_chains_ok :: "('k, 'v) htab \<Rightarrow> bool" where
  "ht_chains_ok t \<longleftrightarrow> length (ht_table t) = 2 ^ ht_logsize t \<and> ht_mask t = 2 ^ ht_logsize t - 1
     \<and> (\<forall>i < length (ht_table t). \<forall>h \<in> set (ht_table t ! i). hbucket t (hi_hval h) = i)"

definition ht_buckets_ok :: "('k, 'v) htab \<Rightarrow> bool" where
  "ht_buckets_ok t \<longleftrightarrow> ht_chains_ok t \<and> distinct (map hi_hval (ht_items t))"

text \<open>Without the distinctness the invariant also holds of tables whose keys are compared.\<close>

definition htab_ok :: "('k, 'v) htab \<Rightarrow> bool" where
  "htab_ok t \<longleftrightarrow> ht_chains_ok t \<and> ht_count t = length (ht_items t) \<and> ht_pos_ok t"

definition htab_inv :: "('k, 'v) htab \<Rightarrow> bool" where
  "htab_inv t \<longleftrightarrow> ht_buckets_ok t \<and> ht_count t = length (ht_items t) \<and> ht_pos_ok t"

definition ht_map :: "('k, 'v) htab \<Rightarrow> nat \<Rightarrow> ('k \<times> 'v) option" where
  "ht_map t = map_of (map (\<lambda>h. (hi_hval h, (hi_key h, hi_stuff h))) (ht_items t))"

lemma ht_buckets_chains: "ht_buckets_ok t \<Longrightarrow> ht_chains_ok t"
  by (simp add: ht_buckets_ok_def)

lemma htab_inv_ok: "htab_inv t \<longleftrightarrow> htab_ok t \<and> distinct (map hi_hval (ht_items t))"
  by (auto simp: htab_inv_def htab_ok_def ht_buckets_ok_def)

lemma hbucket_less_chains: "ht_chains_ok t \<Longrightarrow> hbucket t x < length (ht_table t)"
proof -
  assume b: "ht_chains_ok t"
  have "x AND (2 ^ ht_logsize t - 1) = take_bit (ht_logsize t) x"
    by (simp add: take_bit_eq_mask mask_eq_exp_minus_1)
  then show ?thesis using b by (simp add: ht_chains_ok_def hbucket_def take_bit_nat_less_exp)
qed

lemmas hbucket_less = hbucket_less_chains [OF ht_buckets_chains]

lemma in_items: "h \<in> set (ht_items t) \<longleftrightarrow> (\<exists>i < length (ht_table t). h \<in> set (ht_table t ! i))"
  by (simp add: ht_items_def) (metis in_set_conv_nth)

lemma chain_nonempty: "i < length (ht_table t) \<Longrightarrow> j < length (ht_table t ! i) \<Longrightarrow> ht_items t \<noteq> []"
  using nth_mem [of j "ht_table t ! i"] in_items [of "ht_table t ! i ! j" t] by (metis empty_iff list.set(1))

lemma item_bucket_chains:
  assumes "ht_chains_ok t" and "h \<in> set (ht_items t)"
  shows "h \<in> set (ht_table t ! hbucket t (hi_hval h))"
  using assms by (auto simp: in_items ht_chains_ok_def)

lemmas item_bucket = item_bucket_chains [OF ht_buckets_chains]

lemma ht_map_Some:
  assumes "ht_buckets_ok t"
  shows "ht_map t x = Some e \<longleftrightarrow> (\<exists>h \<in> set (ht_items t). hi_hval h = x \<and> e = (hi_key h, hi_stuff h))"
proof -
  have "distinct (map fst (map (\<lambda>h. (hi_hval h, (hi_key h, hi_stuff h))) (ht_items t)))"
    using assms by (simp add: ht_buckets_ok_def comp_def)
  from map_of_eq_Some_iff [OF this, of x e] show ?thesis by (auto simp: ht_map_def)
qed

lemma ht_map_None: "ht_map t x = None \<longleftrightarrow> x \<notin> hi_hval ` set (ht_items t)"
  by (auto simp: ht_map_def map_of_eq_None_iff image_image)

lemma hval_inj:
  "ht_buckets_ok t \<Longrightarrow> h \<in> set (ht_items t) \<Longrightarrow> h' \<in> set (ht_items t) \<Longrightarrow> hi_hval h = hi_hval h' \<Longrightarrow> h = h'"
  by (auto simp: ht_buckets_ok_def distinct_map dest: inj_onD)

text \<open>Two tables with the same items have the same map.\<close>

lemma ht_map_cong:
  assumes "ht_buckets_ok t" and "ht_buckets_ok t'" and "set (ht_items t') = set (ht_items t)"
  shows "ht_map t' = ht_map t"
proof
  fix x
  show "ht_map t' x = ht_map t x"
    using ht_map_Some [OF assms(1), of x] ht_map_Some [OF assms(2), of x] assms(3)
    by (metis not_None_eq)
qed

lemma items_update:
  assumes "i < length xs"
  shows "mset (concat (xs[i := y])) + mset (xs ! i) = mset (concat xs) + mset y"
  using assms by (subst (3) id_take_nth_drop [OF assms]) (simp add: upd_conv_take_nth_drop)

section \<open>Positions\<close>

lemma find_Some_nth: "find P [a..<b] = Some i \<Longrightarrow> a \<le> i \<and> i < b \<and> P i"
  by (auto simp: find_Some_iff)

lemma find_None_nth: "find P [a..<b] = None \<longleftrightarrow> (\<forall>i. a \<le> i \<and> i < b \<longrightarrow> \<not> P i)"
  by (auto simp: find_None_iff)

lemma chain_index_Some: "chain_index P xs = Some j \<Longrightarrow> j < length xs \<and> P (xs ! j)"
  unfolding chain_index_def using find_Some_nth by blast

lemma chain_index_None: "chain_index P xs = None \<longleftrightarrow> (\<forall>x \<in> set xs. \<not> P x)"
  unfolding chain_index_def by (auto simp: find_None_nth all_set_conv_all_nth)

lemma pos_update [simp]:
  "ht_items (t\<lparr>ht_apos := a, ht_ipos := p\<rparr>) = ht_items t"
  "ht_items (t\<lparr>ht_apos := a\<rparr>) = ht_items t" "ht_items (t\<lparr>ht_ipos := p\<rparr>) = ht_items t"
  "ht_items (t\<lparr>ht_count := n\<rparr>) = ht_items t"
  by (simp_all add: ht_items_def)

lemma pos_update_buckets [simp]:
  "ht_buckets_ok (t\<lparr>ht_apos := a, ht_ipos := p\<rparr>) = ht_buckets_ok t"
  "ht_buckets_ok (t\<lparr>ht_apos := a\<rparr>) = ht_buckets_ok t" "ht_buckets_ok (t\<lparr>ht_ipos := p\<rparr>) = ht_buckets_ok t"
  "ht_buckets_ok (t\<lparr>ht_count := n\<rparr>) = ht_buckets_ok t"
  by (simp_all add: ht_buckets_ok_def ht_chains_ok_def hbucket_def)

lemma pos_update_chains [simp]:
  "ht_chains_ok (t\<lparr>ht_apos := a, ht_ipos := p\<rparr>) = ht_chains_ok t"
  "ht_chains_ok (t\<lparr>ht_apos := a\<rparr>) = ht_chains_ok t" "ht_chains_ok (t\<lparr>ht_ipos := p\<rparr>) = ht_chains_ok t"
  "ht_chains_ok (t\<lparr>ht_count := n\<rparr>) = ht_chains_ok t"
  by (simp_all add: ht_chains_ok_def hbucket_def)

text \<open>\<open>hnbucket\<close> moves to an item whenever there is one.\<close>

lemma hnbucket_pos_chains:
  assumes b: "ht_chains_ok t" and a: "ht_apos t < length (ht_table t)"
    and n: "ht_items t = [] \<Longrightarrow> ht_ipos t = None"
  shows "\<exists>a p. snd (hnbucket t) = t\<lparr>ht_apos := a, ht_ipos := p\<rparr> \<and> ht_pos_ok (snd (hnbucket t))"
proof -
  let ?P = "\<lambda>i. ht_table t ! i \<noteq> []" and ?e = "2 ^ ht_logsize t :: nat"
  have e: "length (ht_table t) = ?e" using b by (simp add: ht_chains_ok_def)
  show ?thesis
  proof (cases "find ?P [ht_apos t + 1..<?e]")
    case (Some i)
    with find_Some_nth [OF Some] e show ?thesis
      by (intro exI [of _ i] exI [of _ "Some 0"]) (simp add: hnbucket_def ht_pos_ok_def)
  next
    case None
    show ?thesis
    proof (cases "find ?P [0..<ht_apos t + 1]")
      case (Some i)
      with find_Some_nth [OF Some] a None show ?thesis
        by (intro exI [of _ i] exI [of _ "Some 0"]) (simp add: hnbucket_def ht_pos_ok_def)
    next
      case None': None
      have "ht_table t ! i = []" if "i < ?e" for i
        using None None' that by (cases "i \<le> ht_apos t") (auto simp: find_None_nth simp del: upt_Suc)
      then have "ht_items t = []" using e by (auto simp: ht_items_def in_set_conv_nth)
      with n a None None' show ?thesis
        by (intro exI [of _ "ht_apos t"] exI [of _ None]) (simp add: hnbucket_def ht_pos_ok_def)
    qed
  qed
qed

lemmas hnbucket_pos = hnbucket_pos_chains [OF ht_buckets_chains]

lemma hfirst_pos_chains:
  assumes b: "ht_chains_ok t" and n: "ht_items t = [] \<Longrightarrow> ht_ipos t = None"
  shows "\<exists>a p. snd (hfirst t) = t\<lparr>ht_apos := a, ht_ipos := p\<rparr> \<and> ht_pos_ok (snd (hfirst t))
    \<and> fst (hfirst t) = (ht_items t \<noteq> [])"
proof -
  let ?t = "t\<lparr>ht_apos := ht_mask t\<rparr>"
  have "ht_apos ?t < length (ht_table ?t)" using b by (simp add: ht_chains_ok_def)
  then obtain a p where s: "snd (hnbucket ?t) = ?t\<lparr>ht_apos := a, ht_ipos := p\<rparr>" and ok: "ht_pos_ok (snd (hnbucket ?t))"
    using hnbucket_pos_chains [of ?t] b n by auto
  then have "(p \<noteq> None) = (ht_items t \<noteq> [])"
    using chain_nonempty [of a t] by (cases p) (auto simp: ht_pos_ok_def)
  with s ok show ?thesis by (auto simp: hfirst_def Let_def)
qed

lemmas hfirst_pos = hfirst_pos_chains [OF ht_buckets_chains]

section \<open>Finding\<close>

lemma hfindx_spec:
  assumes t: "htab_inv t"
  shows "fst (hfindx t x) = (ht_map t x \<noteq> None) \<and> htab_inv (snd (hfindx t x))
    \<and> ht_table (snd (hfindx t x)) = ht_table t \<and> ht_map (snd (hfindx t x)) = ht_map t
    \<and> (ht_map t x \<noteq> None \<longrightarrow> hcurrent (snd (hfindx t x)) = ht_map t x
        \<and> map_option hi_hval (hitem_at (snd (hfindx t x))) = Some x)"
proof -
  let ?i = "hbucket t x"
  have b: "ht_buckets_ok t" and i: "?i < length (ht_table t)"
    using t hbucket_less by (auto simp: htab_inv_def)
  show ?thesis
  proof (cases "chain_index (\<lambda>h. hi_hval h = x) (ht_table t ! ?i)")
    case None
    then have "ht_map t x = None"
      using item_bucket [OF b] by (auto simp: ht_map_None chain_index_None)
    with None show ?thesis using t by (simp add: hfindx_def Let_def)
  next
    case (Some j)
    then have j: "j < length (ht_table t ! ?i)" "hi_hval (ht_table t ! ?i ! j) = x"
      using chain_index_Some by fastforce+
    let ?h = "ht_table t ! ?i ! j"
    have "?h \<in> set (ht_items t)" using i j by (auto simp: in_items)
    then have "ht_map t x = Some (hi_key ?h, hi_stuff ?h)" using ht_map_Some [OF b] j(2) by blast
    with Some show ?thesis using t i j
      by (auto simp: hfindx_def htab_inv_def ht_pos_ok_def hcurrent_def hitem_at_def ht_map_def)
  qed
qed

section \<open>Growing and adding\<close>

lemma fold_put_length: "length (fold (hgrow_put m) hs tab) = length tab"
  by (induction hs arbitrary: tab) (simp_all add: hgrow_put_def Let_def)

lemma fold_put:
  assumes "\<forall>h \<in> set hs. hi_hval h AND m < length tab"
    and "\<forall>i < length tab. \<forall>h \<in> set (tab ! i). hi_hval h AND m = i"
  shows "mset (concat (fold (hgrow_put m) hs tab)) = mset (concat tab) + mset hs
    \<and> (\<forall>i < length tab. \<forall>h \<in> set (fold (hgrow_put m) hs tab ! i). hi_hval h AND m = i)"
  using assms
proof (induction hs arbitrary: tab)
  case (Cons h hs)
  let ?i = "hi_hval h AND m" and ?tab = "hgrow_put m h tab"
  have i: "?i < length tab" using Cons.prems by simp
  have t: "?tab = tab[?i := h # tab ! ?i]" by (simp add: hgrow_put_def Let_def)
  have m: "mset (concat ?tab) = add_mset h (mset (concat tab))"
    using items_update [OF i, of "h # tab ! ?i"] by (simp add: t)
  have ok: "\<forall>i < length ?tab. \<forall>h \<in> set (?tab ! i). hi_hval h AND m = i"
    using Cons.prems(2) i by (auto simp: t nth_list_update)
  have "\<forall>h \<in> set hs. hi_hval h AND m < length ?tab" using Cons.prems(1) by (simp add: t)
  note IH = Cons.IH [OF this ok]
  have "length ?tab = length tab" by (simp add: hgrow_put_def Let_def)
  with conjunct2 [OF IH] have "\<forall>i < length tab. \<forall>h \<in> set (fold (hgrow_put m) hs ?tab ! i). hi_hval h AND m = i"
    by (simp only:)
  with conjunct1 [OF IH] m show ?case by (simp only: fold_simps mset.simps union_mset_add_mset_left union_mset_add_mset_right simp_thms)
qed simp

lemma mset_buckets_distinct:
  "mset xs = mset ys \<Longrightarrow> distinct (map f xs) \<longleftrightarrow> distinct (map f ys)"
  by (metis mset_map mset_eq_imp_distinct_iff)

lemma hgrow_chains:
  assumes b: "ht_chains_ok t" and n: "ht_items t = [] \<Longrightarrow> ht_ipos t = None"
  shows "ht_chains_ok (hgrow t) \<and> mset (ht_items (hgrow t)) = mset (ht_items t) \<and> ht_pos_ok (hgrow t)
    \<and> ht_count (hgrow t) = ht_count t"
proof -
  let ?l = "ht_logsize t + 1" and ?m = "2 ^ (ht_logsize t + 1) - 1 :: nat"
  let ?tab = "fold (hgrow_put ?m) (concat (rev (ht_table t))) (replicate (2 ^ ?l) [])"
  let ?t = "t\<lparr>ht_table := ?tab, ht_logsize := ?l, ht_mask := ?m\<rparr>"
  have and_less: "x AND ?m < 2 ^ ?l" for x :: nat
    using take_bit_nat_less_exp [of ?l x] by (simp add: take_bit_eq_mask mask_eq_exp_minus_1)
  have f: "mset (concat ?tab) = mset (concat (rev (ht_table t)))
      \<and> (\<forall>i < 2 ^ ?l. \<forall>h \<in> set (?tab ! i). hi_hval h AND ?m = i)"
    using fold_put [of "concat (rev (ht_table t))" ?m "replicate (2 ^ ?l) []"] and_less by simp
  have r: "mset (concat (rev xs)) = mset (concat xs)" for xs :: "('a, 'b) hitem list list"
    by (induction xs) auto
  have items: "mset (ht_items ?t) = mset (ht_items t)" using f r by (simp add: ht_items_def)
  have len: "length ?tab = 2 ^ ?l" by (simp add: fold_put_length)
  have b': "ht_chains_ok ?t"
    using b f len by (simp add: ht_chains_ok_def hbucket_def)
  have "ht_items ?t = [] \<Longrightarrow> ht_ipos ?t = None" using n items by auto
  from hfirst_pos_chains [OF b' this] obtain a p where
    h: "snd (hfirst ?t) = ?t\<lparr>ht_apos := a, ht_ipos := p\<rparr>" "ht_pos_ok (snd (hfirst ?t))" by blast
  have "hgrow t = snd (hfirst ?t)" by (simp add: hgrow_def Let_def)
  then show ?thesis using h b' items by simp
qed

lemma hgrow_spec:
  assumes b: "ht_buckets_ok t" and n: "ht_items t = [] \<Longrightarrow> ht_ipos t = None"
  shows "ht_buckets_ok (hgrow t) \<and> mset (ht_items (hgrow t)) = mset (ht_items t) \<and> ht_pos_ok (hgrow t)
    \<and> ht_count (hgrow t) = ht_count t"
  using hgrow_chains [OF ht_buckets_chains [OF b] n] b mset_buckets_distinct [of "ht_items (hgrow t)" "ht_items t" hi_hval]
  by (simp add: ht_buckets_ok_def)

text \<open>Adding an item to the front of its chain.\<close>

definition put_item :: "('k, 'v) hitem \<Rightarrow> ('k, 'v) htab \<Rightarrow> ('k, 'v) htab" where
  "put_item h t =
     (let y = hbucket t (hi_hval h)
      in t\<lparr>ht_table := (ht_table t)[y := h # ht_table t ! y], ht_ipos := Some 0, ht_apos := y\<rparr>)"

lemma put_item_chains:
  assumes b: "ht_chains_ok t"
  shows "ht_chains_ok (put_item h t) \<and> mset (ht_items (put_item h t)) = add_mset h (mset (ht_items t))
    \<and> ht_pos_ok (put_item h t) \<and> ht_count (put_item h t) = ht_count t"
proof -
  let ?y = "hbucket t (hi_hval h)"
  have y: "?y < length (ht_table t)" by (rule hbucket_less_chains [OF b])
  have m: "mset (ht_items (put_item h t)) = add_mset h (mset (ht_items t))"
    using items_update [OF y, of "h # ht_table t ! ?y"] by (simp add: ht_items_def put_item_def Let_def)
  have "ht_chains_ok (put_item h t)"
    using b y by (auto simp: ht_chains_ok_def hbucket_def nth_list_update put_item_def Let_def)
  moreover have "ht_pos_ok (put_item h t)" using y by (simp add: ht_pos_ok_def put_item_def Let_def)
  ultimately show ?thesis using m by (simp add: put_item_def Let_def)
qed

lemma add_item:
  assumes b: "ht_buckets_ok t" and x: "x = hi_hval h" and new: "x \<notin> hi_hval ` set (ht_items t)"
  shows "let t' = t\<lparr>ht_table := (ht_table t)[hbucket t x := h # ht_table t ! hbucket t x],
                  ht_ipos := Some 0, ht_apos := hbucket t x\<rparr>
    in ht_buckets_ok t' \<and> mset (ht_items t') = add_mset h (mset (ht_items t)) \<and> ht_pos_ok t'"
proof -
  note p = put_item_chains [OF ht_buckets_chains [OF b], of h]
  then have m: "mset (ht_items (put_item h t)) = mset (h # ht_items t)" by simp
  have "distinct (map hi_hval (h # ht_items t))" using b new x by (auto simp: ht_buckets_ok_def)
  then have "distinct (map hi_hval (ht_items (put_item h t)))" using mset_buckets_distinct [OF m, of hi_hval] by simp
  then show ?thesis using p x by (simp add: ht_buckets_ok_def put_item_def Let_def)
qed

lemma ht_map_add:
  assumes "ht_buckets_ok t" and "ht_buckets_ok t'" and "mset (ht_items t') = add_mset h (mset (ht_items t))"
  shows "ht_map t' = (ht_map t)(hi_hval h \<mapsto> (hi_key h, hi_stuff h))"
proof
  fix x
  have s: "set (ht_items t') = insert h (set (ht_items t))"
    using arg_cong [OF assms(3), of set_mset] by simp
  have "distinct (map hi_hval (h # ht_items t))"
    using assms(2,3) mset_buckets_distinct [of "ht_items t'" "h # ht_items t" hi_hval]
    by (simp add: ht_buckets_ok_def)
  then have new: "hi_hval h \<notin> hi_hval ` set (ht_items t)" by simp
  show "ht_map t' x = ((ht_map t)(hi_hval h \<mapsto> (hi_key h, hi_stuff h))) x"
  proof (cases "x = hi_hval h")
    case True
    have "ht_map t' x = Some (hi_key h, hi_stuff h)"
      unfolding ht_map_Some [OF assms(2)] s using True by blast
    then show ?thesis using True by simp
  next
    case False
    then have "ht_map t' x = Some e \<longleftrightarrow> ht_map t x = Some e" for e
      unfolding ht_map_Some [OF assms(1)] ht_map_Some [OF assms(2)] s by blast
    then have "ht_map t' x = ht_map t x" by (metis not_None_eq)
    then show ?thesis using False by simp
  qed
qed

text \<open>What adding does when the hash is not in the table, and when the same key is.\<close>

lemma haddx_new:
  assumes t: "htab_inv t" and x: "key_ub4 ub4_bits k \<noteq> 0" and new: "ht_map t (key_ub4 ub4_bits k) = None"
  shows "fst (haddx ub4_bits t k v) \<and> htab_inv (snd (haddx ub4_bits t k v))
    \<and> ht_map (snd (haddx ub4_bits t k v)) = (ht_map t)(key_ub4 ub4_bits k \<mapsto> (k, v))
    \<and> mset (ht_items (snd (haddx ub4_bits t k v)))
        = add_mset \<lparr>hi_key = k, hi_keyl = 8, hi_stuff = v, hi_hval = key_ub4 ub4_bits k\<rparr> (mset (ht_items t))"
proof -
  let ?x = "key_ub4 ub4_bits k"
  let ?h = "\<lparr>hi_key = k, hi_keyl = 8, hi_stuff = v, hi_hval = ?x\<rparr>"
  let ?t1 = "t\<lparr>ht_count := ht_count t + 1\<rparr>"
  let ?t2 = "if ht_count ?t1 > 2 ^ ht_logsize ?t1 then hgrow ?t1 else ?t1"
  let ?y = "hbucket ?t2 ?x"
  let ?t3 = "?t2\<lparr>ht_table := (ht_table ?t2)[?y := ?h # ht_table ?t2 ! ?y], ht_ipos := Some 0, ht_apos := ?y\<rparr>"
  have b: "ht_buckets_ok t" and c: "ht_count t = length (ht_items t)" and p: "ht_pos_ok t"
    using t by (auto simp: htab_inv_def)
  have notin: "?x \<notin> hi_hval ` set (ht_items t)" using new by (simp add: ht_map_None)
  have none: "chain_index (\<lambda>h. hi_hval h = ?x \<and> hi_keyl h = 8 \<and> key_same k (hi_key h)) (ht_table t ! hbucket t ?x) = None"
    unfolding chain_index_None
  proof (intro ballI notI)
    fix h assume h: "h \<in> set (ht_table t ! hbucket t ?x)" and "hi_hval h = ?x \<and> hi_keyl h = 8 \<and> key_same k (hi_key h)"
    moreover have "h \<in> set (ht_items t)" using h hbucket_less [OF b, of ?x] by (metis in_items)
    ultimately show False using notin by (metis image_eqI)
  qed
  have "ht_items t = [] \<Longrightarrow> ht_ipos t = None"
    using p chain_nonempty [of "ht_apos t" t] by (auto simp: ht_pos_ok_def split: option.splits)
  then have t2: "ht_buckets_ok ?t2" "mset (ht_items ?t2) = mset (ht_items t)" "ht_count ?t2 = ht_count t + 1"
    using hgrow_spec [of ?t1] b by auto
  have s2: "set (ht_items ?t2) = set (ht_items t)" using arg_cong [OF t2(2), of set_mset] by simp
  then have "?x \<notin> hi_hval ` set (ht_items ?t2)" using notin by simp
  from add_item [OF t2(1) _ this, of ?h] have
    t3: "ht_buckets_ok ?t3" "mset (ht_items ?t3) = add_mset ?h (mset (ht_items ?t2))" "ht_pos_ok ?t3"
    by (simp_all only: Let_def hitem.simps)
  have cnt: "ht_count ?t3 = length (ht_items ?t3)"
    using arg_cong [OF t3(2), of size] arg_cong [OF t2(2), of size] t2(3) c by simp
  have eq: "haddx ub4_bits t k v = (True, ?t3)"
    using x none by (simp add: haddx_def Let_def)
  have "ht_map ?t3 = (ht_map ?t2)(?x \<mapsto> (k, v))"
    using ht_map_add [OF t2(1) t3(1,2)] by simp
  then show ?thesis
    using eq t3 t2(2) cnt ht_map_cong [OF b t2(1) s2] by (simp add: htab_inv_def)
qed

lemma haddx_existing:
  assumes t: "htab_inv t" and h: "h \<in> set (ht_items t)" "hi_hval h = key_ub4 ub4_bits k" "hi_keyl h = 8"
    and same: "key_same k (hi_key h)"
  shows "\<not> fst (haddx ub4_bits t k v) \<and> htab_inv (snd (haddx ub4_bits t k v))
    \<and> ht_table (snd (haddx ub4_bits t k v)) = ht_table t"
proof (cases "key_ub4 ub4_bits k = 0")
  case True
  with t show ?thesis by (simp add: haddx_def Let_def)
next
  case False
  let ?x = "key_ub4 ub4_bits k"
  let ?P = "\<lambda>h. hi_hval h = ?x \<and> hi_keyl h = 8 \<and> key_same k (hi_key h)"
  have b: "ht_buckets_ok t" using t by (simp add: htab_inv_def)
  have "h \<in> set (ht_table t ! hbucket t ?x)" using item_bucket [OF b h(1)] h(2) by simp
  moreover have "?P h" using h same by (intro conjI)
  ultimately have "chain_index ?P (ht_table t ! hbucket t ?x) \<noteq> None"
    unfolding chain_index_None by (intro notI) (drule (1) bspec, erule (1) notE)
  then obtain j where j: "chain_index ?P (ht_table t ! hbucket t ?x) = Some j" by blast
  have eq: "haddx ub4_bits t k v = (False, t\<lparr>ht_apos := hbucket t ?x, ht_ipos := Some j\<rparr>)"
    using j False by (simp add: haddx_def Let_def)
  have "ht_pos_ok (t\<lparr>ht_apos := hbucket t ?x, ht_ipos := Some j\<rparr>)"
    using chain_index_Some [OF j] hbucket_less [OF b, of ?x] by (simp add: ht_pos_ok_def)
  with t show ?thesis unfolding eq by (simp add: htab_inv_def)
qed

section \<open>Deleting\<close>

lemma take_drop_mset:
  assumes "j < length xs"
  shows "add_mset (xs ! j) (mset (take j xs @ drop (j + 1) xs)) = mset xs"
  using arg_cong [OF id_take_nth_drop [OF assms], of mset] by simp

lemma map_remove:
  assumes b: "ht_buckets_ok t" "ht_buckets_ok t'" and m: "mset (ht_items t) = add_mset h (mset (ht_items t'))"
  shows "ht_map t' = (ht_map t)(hi_hval h := None)"
proof -
  have m1: "ht_map t = (ht_map t')(hi_hval h \<mapsto> (hi_key h, hi_stuff h))" by (rule ht_map_add [OF b(2,1) m])
  have "distinct (map hi_hval (h # ht_items t'))"
    using b(1) mset_buckets_distinct [of "ht_items t" "h # ht_items t'" hi_hval] m
    by (simp add: ht_buckets_ok_def)
  then have "ht_map t' (hi_hval h) = None" by (simp add: ht_map_None)
  then show ?thesis unfolding m1 by auto
qed

lemma remove_item_chains:
  fixes t :: "('k, 'v) htab"
  assumes b: "ht_chains_ok t" and a: "ht_apos t < length (ht_table t)" and j: "j < length (ht_table t ! ht_apos t)"
  defines "t' \<equiv> t\<lparr>ht_table := (ht_table t)[ht_apos t := take j (ht_table t ! ht_apos t) @ drop (j + 1) (ht_table t ! ht_apos t)]\<rparr>"
  shows "mset (ht_items t) = add_mset (ht_table t ! ht_apos t ! j) (mset (ht_items t'))"
    and "ht_chains_ok t'"
proof -
  let ?c = "ht_table t ! ht_apos t" and ?d = "take j (ht_table t ! ht_apos t) @ drop (j + 1) (ht_table t ! ht_apos t)"
  have i: "ht_items t' = concat ((ht_table t)[ht_apos t := ?d])" by (simp add: t'_def ht_items_def)
  have "mset (ht_items t') + add_mset (?c ! j) (mset ?d) = mset (ht_items t) + mset ?d"
    using items_update [OF a, of ?d] take_drop_mset [OF j] unfolding i by (simp add: ht_items_def)
  then show "mset (ht_items t) = add_mset (?c ! j) (mset (ht_items t'))" by simp
  have "set ?d \<subseteq> set ?c" by (auto dest: in_set_takeD in_set_dropD)
  then show "ht_chains_ok t'"
    using b a by (auto simp: ht_chains_ok_def t'_def hbucket_def nth_list_update)
qed

lemma hdel_chains:
  assumes t: "htab_ok t" and h: "hitem_at t = Some h"
  shows "fst (hdel t) \<and> htab_ok (snd (hdel t)) \<and> mset (ht_items t) = add_mset h (mset (ht_items (snd (hdel t))))"
proof -
  obtain j where p: "ht_ipos t = Some j" and hj: "h = ht_table t ! ht_apos t ! j"
    using h by (auto simp: hitem_at_def)
  let ?c = "ht_table t ! ht_apos t"
  let ?t = "t\<lparr>ht_table := (ht_table t)[ht_apos t := take j ?c @ drop (j + 1) ?c]\<rparr>"
  let ?u = "?t\<lparr>ht_count := ht_count t - 1\<rparr>"
  let ?r = "if j + 1 < length ?c then ?u\<lparr>ht_ipos := Some j\<rparr> else snd (hnbucket (?u\<lparr>ht_ipos := None\<rparr>))"
  have b: "ht_chains_ok t" and a: "ht_apos t < length (ht_table t)" and j: "j < length ?c"
    and c: "ht_count t = length (ht_items t)"
    using t p by (auto simp: htab_ok_def ht_pos_ok_def)
  note r = remove_item_chains [OF b a j, folded hj]
  have r': "hdel t = (True, ?r)" by (simp add: hdel_def p Let_def)
  have u: "ht_chains_ok ?u" "mset (ht_items ?u) = mset (ht_items ?t)"
    using r(2) by (simp_all only: pos_update pos_update_chains)
  have ok: "ht_pos_ok ?r \<and> ht_chains_ok ?r \<and> ht_items ?r = ht_items ?u \<and> ht_count ?r = ht_count t - 1"
  proof (cases "j + 1 < length ?c")
    case True
    then show ?thesis using a u by (simp add: ht_pos_ok_def)
  next
    case False
    from hnbucket_pos_chains [of "?u\<lparr>ht_ipos := None\<rparr>"] u a obtain x q where
      "snd (hnbucket (?u\<lparr>ht_ipos := None\<rparr>)) = ?u\<lparr>ht_ipos := None, ht_apos := x, ht_ipos := q\<rparr>"
      "ht_pos_ok (snd (hnbucket (?u\<lparr>ht_ipos := None\<rparr>)))" by auto
    then show ?thesis using False u by (simp del: r')
  qed
  have m: "mset (ht_items t) = add_mset h (mset (ht_items ?r))" using r(1) ok u(2) by simp
  have "ht_count ?r = length (ht_items ?r)"
    using arg_cong [OF m, of size] c ok by simp
  then show ?thesis using ok m unfolding r' by (simp add: htab_ok_def)
qed

lemma hdel_spec:
  assumes t: "htab_inv t" and h: "hitem_at t = Some h"
  shows "fst (hdel t) \<and> htab_inv (snd (hdel t)) \<and> ht_map (snd (hdel t)) = (ht_map t)(hi_hval h := None)
    \<and> mset (ht_items t) = add_mset h (mset (ht_items (snd (hdel t))))"
proof -
  have d: "fst (hdel t)" "htab_ok (snd (hdel t))" "mset (ht_items t) = mset (h # ht_items (snd (hdel t)))"
    using hdel_chains [OF _ h] t by (simp_all add: htab_inv_ok)
  have "distinct (map hi_hval (ht_items t))" using t by (simp add: htab_inv_ok)
  then have "distinct (map hi_hval (h # ht_items (snd (hdel t))))" using mset_buckets_distinct [OF d(3), of hi_hval] by simp
  then have i: "htab_inv (snd (hdel t))" using d(2) by (simp add: htab_inv_ok)
  then have "ht_map (snd (hdel t)) = (ht_map t)(hi_hval h := None)"
    using map_remove [of t "snd (hdel t)" h] t d(3) by (simp add: htab_inv_def)
  then show ?thesis using d i by simp
qed

section \<open>Creating\<close>

lemma hcreate_fields [simp]:
  "ht_table (hcreate n) = replicate (2 ^ n) []" "ht_logsize (hcreate n) = n" "ht_mask (hcreate n) = 2 ^ n - 1"
  "ht_count (hcreate n) = 0" "ht_apos (hcreate n) = 0" "ht_ipos (hcreate n) = None"
  by (simp_all add: hcreate_def)

lemma hcreate_items [simp]: "ht_items (hcreate n) = []"
  by (simp add: ht_items_def)

lemma hcreate_map [simp]: "ht_map (hcreate n) x = None"
  by (simp add: ht_map_def)

lemma hcreate_inv [simp]: "htab_inv (hcreate n)"
  by (simp add: htab_inv_def ht_buckets_ok_def ht_chains_ok_def ht_pos_ok_def)

text \<open>The halving loop computes the integer logarithm; a table has between 4 and 32768 buckets.\<close>

lemma count_bits_log: "0 < n \<Longrightarrow> 2 ^ (count_bits n - 1) \<le> n \<and> n < 2 ^ count_bits n \<and> 0 < count_bits n"
proof (induction n rule: count_bits.induct)
  case (1 n)
  have c: "count_bits n = count_bits (n div 2) + 1" using 1 by (subst count_bits.simps) simp
  show ?case
  proof (cases "n div 2 = 0")
    case True
    then have "n = 1" using 1 by simp
    then show ?thesis by (simp add: count_bits.simps)
  next
    case False
    with 1 obtain m where m: "count_bits (n div 2) = Suc m" "2 ^ m \<le> n div 2" "n div 2 < 2 ^ Suc m"
      by (metis Suc_pred bot_nat_0.not_eq_extremum diff_Suc_1)
    then show ?thesis unfolding c by auto
  qed
qed

lemma log_bounds:
  assumes "4 \<le> n" and "n \<le> 32768"
  shows "2 \<le> count_bits n - 1 \<and> count_bits n - 1 \<le> 15"
proof -
  have b: "2 ^ (count_bits n - 1) \<le> n" "n < 2 ^ count_bits n" using count_bits_log [of n] assms by simp_all
  have "(2::nat) ^ 2 < 2 ^ count_bits n" using b assms by simp
  then have "2 < count_bits n" by (rule power_less_imp_less_exp [rotated]) simp
  moreover have "(2::nat) ^ (count_bits n - 1) < 2 ^ 16" using b assms by simp
  then have "count_bits n - 1 < 16" by (rule power_less_imp_less_exp [rotated]) simp
  ultimately show ?thesis by linarith
qed

section \<open>The interface etch_hashtable\<close>

text \<open>
  \<open>table_ok c\<close>: the keys of the table have one object type and class, \<open>c\<close>, and their hash is their
  \<open>hashkey\<close>: what \<open>haddx\<close> stores where \<open>ub4\<close> has 32 bits.
\<close>

definition key_kind :: "'k etch_key \<Rightarrow> int16 \<times> int16" where
  "key_kind k = (ko_obj_type k, ko_class_id k)"

definition table_ok :: "int16 \<times> int16 \<Rightarrow> ('k etch_key, 'v) htab \<Rightarrow> bool" where
  "table_ok c t \<longleftrightarrow> htab_inv t \<and> (\<forall>h \<in> set (ht_items t). hi_keyl h = 8 \<and> key_kind (hi_key h) = c
     \<and> hi_hval h = unat (ko_hashkey (hi_key h)) \<and> ko_hashkey (hi_key h) \<noteq> 0)"

definition table_map :: "('k, 'v) htab \<Rightarrow> int32 \<Rightarrow> ('k \<times> 'v) option" where
  "table_map t x = ht_map t (unat x)"

lemma key_ub4_32 [simp]: "key_ub4 32 k = unat (ko_hashkey k)"
proof -
  have "take_bit 32 (key_head k) = ucast (ko_hashkey k)"
    unfolding key_head_def take_bit_or
    by (rule bit_word_eqI) (auto simp: bit_take_bit_iff bit_or_iff bit_push_bit_iff bit_simps dest: bit_imp_le_length)
  moreover have "unat (ko_hashkey k) < 2 ^ 64"
    using unsigned_less [of "ko_hashkey k", where ?'a = nat] by simp
  then have "unat (ucast (ko_hashkey k) :: int64) = unat (ko_hashkey k)"
    by (simp add: unsigned_ucast_eq take_bit_nat_eq_self)
  ultimately have "unat (take_bit 32 (key_head k)) = unat (ko_hashkey k)" by simp
  then show ?thesis by (simp add: key_ub4_def unsigned_take_bit_eq)
qed

lemma key_same_kind: "key_kind a = key_kind b \<Longrightarrow> ko_hashkey a = ko_hashkey b \<Longrightarrow> key_same a b"
  by (simp add: key_same_def key_head_def key_kind_def)

lemma table_map_eq:
  "ht_map t' = (ht_map t)(unat y := e) \<Longrightarrow> table_map t' = (table_map t)(y := e)"
  by (auto simp: table_map_def fun_eq_iff word_unat_eq_iff)

lemma create_ok: "table_ok c (jenkins_create n)"
  by (simp add: jenkins_create_def Let_def table_ok_def)

lemma create_map [simp]: "table_map (jenkins_create n) = Map.empty"
  by (simp add: jenkins_create_def Let_def table_map_def fun_eq_iff)

lemma insert_new:
  assumes t: "table_ok c t" and k: "key_kind k = c" "ko_hashkey k \<noteq> 0" and new: "table_map t (ko_hashkey k) = None"
  shows "fst (jenkins_inserth 32 t k v) = 0 \<and> table_ok c (snd (jenkins_inserth 32 t k v))
    \<and> table_map (snd (jenkins_inserth 32 t k v)) = (table_map t)(ko_hashkey k \<mapsto> (k, v))"
proof -
  let ?t = "snd (haddx 32 t k v)"
  have nz: "key_ub4 32 k \<noteq> 0" using k(2) by (simp add: unat_eq_zero)
  have i: "htab_inv t" using t by (simp add: table_ok_def)
  note a = haddx_new [OF i nz, of v]
  have a': "fst (haddx 32 t k v)" "htab_inv ?t" "ht_map ?t = (ht_map t)(unat (ko_hashkey k) \<mapsto> (k, v))"
    "mset (ht_items ?t) = add_mset \<lparr>hi_key = k, hi_keyl = 8, hi_stuff = v, hi_hval = unat (ko_hashkey k)\<rparr> (mset (ht_items t))"
    using a new by (simp_all add: table_map_def)
  have "set (ht_items ?t) = insert \<lparr>hi_key = k, hi_keyl = 8, hi_stuff = v, hi_hval = unat (ko_hashkey k)\<rparr> (set (ht_items t))"
    using arg_cong [OF a'(4), of set_mset] by simp
  then have "table_ok c ?t" using a'(2) t k by (simp add: table_ok_def)
  moreover have "table_map ?t = (table_map t)(ko_hashkey k \<mapsto> (k, v))"
    by (rule table_map_eq [OF a'(3)])
  ultimately show ?thesis using a'(1) by (simp add: jenkins_inserth_def split_beta)
qed

lemma insert_refused:
  assumes t: "table_ok c t" and k: "key_kind k = c" and old: "ko_hashkey k = 0 \<or> table_map t (ko_hashkey k) \<noteq> None"
  shows "fst (jenkins_inserth 32 t k v) = - 1 \<and> table_ok c (snd (jenkins_inserth 32 t k v))
    \<and> table_map (snd (jenkins_inserth 32 t k v)) = table_map t"
proof -
  have i: "htab_inv t" using t by (simp add: table_ok_def)
  have "\<not> fst (haddx 32 t k v) \<and> htab_inv (snd (haddx 32 t k v)) \<and> ht_table (snd (haddx 32 t k v)) = ht_table t"
  proof (cases "ko_hashkey k = 0")
    case True
    with i show ?thesis by (simp add: haddx_def Let_def)
  next
    case False
    with old have "unat (ko_hashkey k) \<in> hi_hval ` set (ht_items t)"
      using ht_map_None [of t] by (auto simp: table_map_def)
    then obtain h where h: "h \<in> set (ht_items t)" "hi_hval h = unat (ko_hashkey k)" by auto
    then have "key_same k (hi_key h)" "hi_keyl h = 8"
      using t k by (auto simp: table_ok_def word_unat_eq_iff intro!: key_same_kind)
    with haddx_existing [OF i h(1)] h(2) show ?thesis by simp
  qed
  moreover from this have "ht_items (snd (haddx 32 t k v)) = ht_items t" by (simp add: ht_items_def)
  ultimately show ?thesis using t
    by (simp add: jenkins_inserth_def split_beta table_ok_def table_map_def [abs_def] ht_map_def)
qed

lemma find_spec:
  assumes t: "table_ok c t"
  shows "fst (jenkins_findh t x) = (if table_map t x = None then - 1 else 0) \<and> fst (snd (jenkins_findh t x)) = table_map t x
    \<and> table_ok c (snd (snd (jenkins_findh t x))) \<and> table_map (snd (snd (jenkins_findh t x))) = table_map t"
proof (cases "x = 0")
  case True
  have "table_map t 0 = None"
    using t by (auto simp: table_map_def ht_map_None table_ok_def unat_eq_zero)
  with True t show ?thesis by (simp add: jenkins_findh_def)
next
  case False
  let ?t = "snd (hfindx t (unat x))"
  have i: "htab_inv t" using t by (simp add: table_ok_def)
  note f = hfindx_spec [OF i, of "unat x"]
  have t': "htab_inv ?t" "ht_table ?t = ht_table t" "ht_map ?t = ht_map t" using f by blast+
  then have "table_ok c ?t" "table_map ?t = table_map t"
    using t by (simp_all add: table_ok_def ht_items_def table_map_def [abs_def])
  moreover have "fst (hfindx t (unat x)) = (table_map t x \<noteq> None)"
    and "table_map t x \<noteq> None \<Longrightarrow> hcurrent ?t = table_map t x"
    using f by (simp_all add: table_map_def)
  ultimately show ?thesis using False by (cases "table_map t x") (simp_all add: jenkins_findh_def Let_def split_beta)
qed

lemma remove_spec:
  assumes t: "table_ok c t"
  shows "fst (jenkins_removeh t x) = (if table_map t x = None then - 1 else 0) \<and> fst (snd (jenkins_removeh t x)) = table_map t x
    \<and> table_ok c (snd (snd (jenkins_removeh t x)))
    \<and> table_map (snd (snd (jenkins_removeh t x))) = (table_map t)(x := None)"
proof (cases "x = 0 \<or> table_map t x = None")
  case True
  have i: "htab_inv t" using t by (simp add: table_ok_def)
  note f = hfindx_spec [OF i, of "unat x"]
  have z: "table_map t 0 = None"
    using t by (auto simp: table_map_def ht_map_None table_ok_def unat_eq_zero)
  let ?t = "snd (hfindx t (unat x))"
  have t': "htab_inv ?t" "ht_table ?t = ht_table t" "ht_map ?t = ht_map t" using f by blast+
  then have "table_ok c ?t" "table_map ?t = table_map t"
    using t by (simp_all add: table_ok_def ht_items_def table_map_def [abs_def])
  moreover have "x \<noteq> 0 \<Longrightarrow> \<not> fst (hfindx t (unat x))"
    using f True by (simp add: table_map_def)
  ultimately show ?thesis using True z t
    by (cases "x = 0") (auto simp: jenkins_removeh_def Let_def split_beta fun_eq_iff)
next
  case False
  let ?t = "snd (hfindx t (unat x))" and ?d = "snd (hdel (snd (hfindx t (unat x))))"
  have i: "htab_inv t" using t by (simp add: table_ok_def)
  note f = hfindx_spec [OF i, of "unat x"]
  have t': "htab_inv ?t" "ht_table ?t = ht_table t" "ht_map ?t = ht_map t" using f by blast+
  have m: "ht_map t (unat x) \<noteq> None" using False by (simp add: table_map_def)
  then obtain h where h: "hitem_at ?t = Some h" "hi_hval h = unat x" using f by (cases "hitem_at ?t") auto
  note d = hdel_spec [OF t'(1) h(1)]
  have "ht_map ?d = (ht_map t)(unat x := None)" using d h(2) t'(3) by simp
  then have "table_map ?d = (table_map t)(x := None)" by (rule table_map_eq)
  moreover have "set (ht_items ?d) \<subseteq> set (ht_items t)"
    using arg_cong [OF conjunct2 [OF conjunct2 [OF conjunct2 [OF d]]], of set_mset] t'(2)
    by (auto simp: ht_items_def)
  then have "table_ok c ?d" using t d by (auto simp: table_ok_def)
  moreover have "fst (hfindx t (unat x))" "hcurrent ?t = table_map t x"
    using f m by (simp_all add: table_map_def)
  ultimately show ?thesis using False by (simp add: jenkins_removeh_def Let_def split_beta)
qed

text \<open>
  The contract of the interface: an abstract map \<open>ab\<close>; inserting refuses a key that is bound or not
  usable (has no hash, is empty), finding and removing return the entry and do not change other entries.
\<close>

datatype ('key, 'i, 'v) table_op = Insert 'key 'v | Find 'i | Remove 'i

text \<open>A run of operations over any implementation, and the operations of the specification.\<close>

fun run_ops ::
  "('t \<Rightarrow> 'key \<Rightarrow> 'v \<Rightarrow> int \<times> 't) \<Rightarrow> ('t \<Rightarrow> 'i \<Rightarrow> int \<times> ('key \<times> 'v) option \<times> 't)
     \<Rightarrow> ('t \<Rightarrow> 'i \<Rightarrow> int \<times> ('key \<times> 'v) option \<times> 't) \<Rightarrow> ('key, 'i, 'v) table_op list \<Rightarrow> 't
     \<Rightarrow> (int \<times> ('key \<times> 'v) option) list \<times> 't" where
  "run_ops ins fnd rmv [] t = ([], t)"
| "run_ops ins fnd rmv (Insert k v # ops) t =
     (case ins t k v of (r, t) \<Rightarrow> case run_ops ins fnd rmv ops t of (rs, t) \<Rightarrow> ((r, None) # rs, t))"
| "run_ops ins fnd rmv (Find x # ops) t =
     (case fnd t x of (r, e, t) \<Rightarrow> case run_ops ins fnd rmv ops t of (rs, t) \<Rightarrow> ((r, e) # rs, t))"
| "run_ops ins fnd rmv (Remove x # ops) t =
     (case rmv t x of (r, e, t) \<Rightarrow> case run_ops ins fnd rmv ops t of (rs, t) \<Rightarrow> ((r, e) # rs, t))"

definition map_insert ::
  "('key \<Rightarrow> bool) \<Rightarrow> ('key \<Rightarrow> 'i) \<Rightarrow> ('i \<Rightarrow> ('key \<times> 'v) option) \<Rightarrow> 'key \<Rightarrow> 'v \<Rightarrow> int \<times> ('i \<Rightarrow> ('key \<times> 'v) option)" where
  "map_insert usable h m k v = (if \<not> usable k \<or> m (h k) \<noteq> None then (- 1, m) else (0, m(h k \<mapsto> (k, v))))"

definition map_find ::
  "('i \<Rightarrow> 'e option) \<Rightarrow> 'i \<Rightarrow> int \<times> 'e option \<times> ('i \<Rightarrow> 'e option)" where
  "map_find m x = (if m x = None then - 1 else 0, m x, m)"

definition map_remove ::
  "('i \<Rightarrow> 'e option) \<Rightarrow> 'i \<Rightarrow> int \<times> 'e option \<times> ('i \<Rightarrow> 'e option)" where
  "map_remove m x = (if m x = None then - 1 else 0, m x, m(x := None))"

locale hash_map =
  fixes ok :: "'t \<Rightarrow> bool" and ab :: "'t \<Rightarrow> 'i \<Rightarrow> ('key \<times> 'v) option"
    and key_ok :: "'key \<Rightarrow> bool" and usable :: "'key \<Rightarrow> bool" and hash :: "'key \<Rightarrow> 'i"
    and insert_op :: "'t \<Rightarrow> 'key \<Rightarrow> 'v \<Rightarrow> int \<times> 't"
    and find_op :: "'t \<Rightarrow> 'i \<Rightarrow> int \<times> ('key \<times> 'v) option \<times> 't"
    and remove_op :: "'t \<Rightarrow> 'i \<Rightarrow> int \<times> ('key \<times> 'v) option \<times> 't"
  assumes insert_law: "ok t \<Longrightarrow> key_ok k \<Longrightarrow>
      ok (snd (insert_op t k v))
      \<and> fst (insert_op t k v) = (if \<not> usable k \<or> ab t (hash k) \<noteq> None then - 1 else 0)
      \<and> ab (snd (insert_op t k v)) = (if \<not> usable k \<or> ab t (hash k) \<noteq> None then ab t else (ab t)(hash k \<mapsto> (k, v)))"
    and find_law: "ok t \<Longrightarrow>
      ok (snd (snd (find_op t x))) \<and> ab (snd (snd (find_op t x))) = ab t
      \<and> fst (find_op t x) = (if ab t x = None then - 1 else 0) \<and> fst (snd (find_op t x)) = ab t x"
    and remove_law: "ok t \<Longrightarrow>
      ok (snd (snd (remove_op t x))) \<and> ab (snd (snd (remove_op t x))) = (ab t)(x := None)
      \<and> fst (remove_op t x) = (if ab t x = None then - 1 else 0) \<and> fst (snd (remove_op t x)) = ab t x"
begin

lemma find_inserted:
  assumes "ok t" and "key_ok k" and "usable k" and "ab t (hash k) = None"
  shows "fst (find_op (snd (insert_op t k v)) (hash k)) = 0
    \<and> fst (snd (find_op (snd (insert_op t k v)) (hash k))) = Some (k, v)"
  using insert_law [OF assms(1,2)] find_law [of "snd (insert_op t k v)"] assms(3,4) by simp

text \<open>A run of operations gives the results that a map gives, and ends in a table for the map's end.\<close>

lemma run_simulates:
  assumes "ok t" and "\<forall>k v. Insert k v \<in> set ops \<longrightarrow> key_ok k"
  shows "fst (run_ops insert_op find_op remove_op ops t) = fst (run_ops (map_insert usable hash) map_find map_remove ops (ab t))
    \<and> ab (snd (run_ops insert_op find_op remove_op ops t)) = snd (run_ops (map_insert usable hash) map_find map_remove ops (ab t))
    \<and> ok (snd (run_ops insert_op find_op remove_op ops t))"
  using assms
proof (induction ops arbitrary: t)
  case (Cons op ops)
  have keys: "\<forall>k v. Insert k v \<in> set ops \<longrightarrow> key_ok k" using Cons.prems(2) by auto
  show ?case
  proof (cases op)
    case (Insert k v)
    then have "key_ok k" using Cons.prems(2) by simp
    note l = insert_law [OF Cons.prems(1) this, of v]
    then have "map_insert usable hash (ab t) k v = (fst (insert_op t k v), ab (snd (insert_op t k v)))"
      by (simp add: map_insert_def)
    with Cons.IH [OF conjunct1 [OF l] keys] show ?thesis
      by (simp add: Insert split_beta)
  next
    case (Find x)
    note l = find_law [OF Cons.prems(1), of x]
    then have "map_find (ab t) x = (fst (find_op t x), fst (snd (find_op t x)), ab (snd (snd (find_op t x))))"
      by (simp add: map_find_def)
    with Cons.IH [OF conjunct1 [OF l] keys] show ?thesis
      by (simp add: Find split_beta)
  next
    case (Remove x)
    note l = remove_law [OF Cons.prems(1), of x]
    then have "map_remove (ab t) x = (fst (remove_op t x), fst (snd (remove_op t x)), ab (snd (snd (remove_op t x))))"
      by (simp add: map_remove_def)
    with Cons.IH [OF conjunct1 [OF l] keys] show ?thesis
      by (simp add: Remove split_beta)
  qed
qed simp

lemma find_removed:
  assumes "ok t"
  shows "fst (find_op (snd (snd (remove_op t x))) x) = - 1"
  using remove_law [OF assms] find_law [of "snd (snd (remove_op t x))"] by simp

end

interpretation jenkins: hash_map "table_ok c" table_map "\<lambda>k. key_kind k = c" "\<lambda>k. ko_hashkey k \<noteq> 0" ko_hashkey
  "jenkins_inserth 32" jenkins_findh jenkins_removeh
proof (unfold_locales, goal_cases)
  case (1 t k v)
  show ?case
  proof (cases "ko_hashkey k = 0 \<or> table_map t (ko_hashkey k) \<noteq> None")
    case True
    with insert_refused [OF 1 True, of v] show ?thesis by simp
  next
    case False
    then have "ko_hashkey k \<noteq> 0" "table_map t (ko_hashkey k) = None" by blast+
    with insert_new [OF 1 this, of v] show ?thesis by simp
  qed
next
  case (2 t x)
  from find_spec [OF 2, of x] show ?case by simp
next
  case (3 t x)
  from remove_spec [OF 3, of x] show ?case by simp
qed

section \<open>Iteration\<close>

text \<open>The items from the current position on.\<close>

definition rest_items :: "('k, 'v) htab \<Rightarrow> ('k, 'v) hitem list" where
  "rest_items t =
     (case ht_ipos t of None \<Rightarrow> []
      | Some j \<Rightarrow> drop j (ht_table t ! ht_apos t) @ concat (drop (ht_apos t + 1) (ht_table t)))"

lemma hcurrent_rest:
  "ht_ipos t = Some j \<Longrightarrow> j < length (ht_table t ! ht_apos t) \<Longrightarrow>
     rest_items t = ht_table t ! ht_apos t ! j # tl (rest_items t)
     \<and> hcurrent t = Some (hi_key (hd (rest_items t)), hi_stuff (hd (rest_items t)))"
  by (cases "drop j (ht_table t ! ht_apos t)")
     (auto simp: rest_items_def hcurrent_def hitem_at_def Cons_nth_drop_Suc [symmetric])

lemma drop_skip_empty:
  assumes "i \<le> j" and "j < length xs" and "\<forall>l. i \<le> l \<and> l < j \<longrightarrow> xs ! l = []"
  shows "concat (drop i xs) = xs ! j @ concat (drop (j + 1) xs)"
  using assms
proof (induction "j - i" arbitrary: i)
  case 0
  then show ?case by (simp add: Cons_nth_drop_Suc [symmetric])
next
  case (Suc n)
  then have "concat (drop (i + 1) xs) = xs ! j @ concat (drop (j + 1) xs)" by simp
  moreover have "i < length xs" using Suc.hyps(2) Suc.prems(2) by linarith
  then have "drop i xs = xs ! i # drop (i + 1) xs" by (simp add: Cons_nth_drop_Suc)
  ultimately show ?case using Suc by simp
qed

lemma hnbucket_rest:
  assumes b: "ht_buckets_ok t"
  shows "(\<exists>i. find (\<lambda>i. ht_table t ! i \<noteq> []) [ht_apos t + 1..<2 ^ ht_logsize t] = Some i \<and> fst (hnbucket t)
      \<and> snd (hnbucket t) = t\<lparr>ht_apos := i, ht_ipos := Some 0\<rparr> \<and> i < length (ht_table t) \<and> ht_table t ! i \<noteq> []
      \<and> rest_items (snd (hnbucket t)) = concat (drop (ht_apos t + 1) (ht_table t)))
    \<or> \<not> fst (hnbucket t) \<and> concat (drop (ht_apos t + 1) (ht_table t)) = []"
proof (cases "find (\<lambda>i. ht_table t ! i \<noteq> []) [ht_apos t + 1..<2 ^ ht_logsize t]")
  case None
  have "xs = []" if "xs \<in> set (drop (ht_apos t + 1) (ht_table t))" for xs
    using that None b by (auto simp: find_None_nth in_set_conv_nth ht_buckets_ok_def ht_chains_ok_def simp del: upt_Suc)
  with None show ?thesis by (simp add: hnbucket_def split: option.split)
next
  case (Some i)
  have e: "length (ht_table t) = 2 ^ ht_logsize t" using b by (simp add: ht_buckets_ok_def ht_chains_ok_def)
  have i: "ht_apos t + 1 \<le> i" "i < length (ht_table t)" "ht_table t ! i \<noteq> []"
    using find_Some_nth [OF Some] e by simp_all
  have "ht_table t ! l = []" if "ht_apos t + 1 \<le> l" "l < i" for l
  proof -
    from Some obtain j where j: "[ht_apos t + 1..<2 ^ ht_logsize t] ! j = i" "j < length [ht_apos t + 1..<2 ^ ht_logsize t]"
      "\<forall>m < j. ht_table t ! ([ht_apos t + 1..<2 ^ ht_logsize t] ! m) = []"
      by (auto simp: find_Some_iff)
    from j(1,2) have "i = ht_apos t + 1 + j" by simp
    with j(2) that have "[ht_apos t + 1..<2 ^ ht_logsize t] ! (l - (ht_apos t + 1)) = l" "l - (ht_apos t + 1) < j"
      by auto
    with j(3) show ?thesis by metis
  qed
  then have "concat (drop (ht_apos t + 1) (ht_table t)) = ht_table t ! i @ concat (drop (i + 1) (ht_table t))"
    using drop_skip_empty [OF i(1,2)] by blast
  then show ?thesis using Some i by (simp add: hnbucket_def rest_items_def)
qed

lemma hnext_rest:
  assumes t: "ht_buckets_ok t" and j: "ht_ipos t = Some j" "j < length (ht_table t ! ht_apos t)"
  shows "fst (hnext t) = (tl (rest_items t) \<noteq> [])
    \<and> (fst (hnext t) \<longrightarrow> ht_buckets_ok (snd (hnext t)) \<and> rest_items (snd (hnext t)) = tl (rest_items t)
        \<and> (\<exists>j'. ht_ipos (snd (hnext t)) = Some j' \<and> j' < length (ht_table (snd (hnext t)) ! ht_apos (snd (hnext t)))))"
proof (cases "j + 1 < length (ht_table t ! ht_apos t)")
  case True
  then have "drop (j + 1) (ht_table t ! ht_apos t) \<noteq> []" by simp
  with True t j show ?thesis
    by (simp add: hnext_def rest_items_def Cons_nth_drop_Suc [symmetric, of j])
next
  case False
  let ?t = "t\<lparr>ht_ipos := None\<rparr>"
  have r: "tl (rest_items t) = concat (drop (ht_apos t + 1) (ht_table t))"
    using j False by (simp add: rest_items_def Cons_nth_drop_Suc [symmetric, of j])
  have n: "hnext t = hnbucket ?t" using j False by (simp add: hnext_def)
  have "ht_buckets_ok ?t" using t by simp
  from hnbucket_rest [OF this] show ?thesis
  proof (elim disjE exE conjE)
    fix i
    assume i: "fst (hnbucket ?t)" "snd (hnbucket ?t) = ?t\<lparr>ht_apos := i, ht_ipos := Some 0\<rparr>"
      "ht_table ?t ! i \<noteq> []" "rest_items (snd (hnbucket ?t)) = concat (drop (ht_apos ?t + 1) (ht_table ?t))"
    have "rest_items (snd (hnbucket ?t)) \<noteq> []" using i(2,3) by (simp add: rest_items_def)
    then show ?thesis using i t unfolding n r by simp
  next
    assume "\<not> fst (hnbucket ?t)" "concat (drop (ht_apos ?t + 1) (ht_table ?t)) = []"
    then show ?thesis unfolding n r by simp
  qed
qed

lemma hfirst_rest:
  assumes t: "ht_buckets_ok t" and n: "ht_items t = [] \<Longrightarrow> ht_ipos t = None"
  shows "ht_buckets_ok (snd (hfirst t)) \<and> (ht_items t \<noteq> [] \<longrightarrow> rest_items (snd (hfirst t)) = ht_items t)"
proof (cases "ht_items t = []")
  case True
  with hfirst_pos [OF t n] t show ?thesis by auto
next
  case False
  let ?t = "t\<lparr>ht_apos := ht_mask t\<rparr>"
  have e: "length (ht_table t) = 2 ^ ht_logsize t" "ht_mask t + 1 = 2 ^ ht_logsize t"
    using t by (simp_all add: ht_buckets_ok_def ht_chains_ok_def)
  have none: "find (\<lambda>i. ht_table ?t ! i \<noteq> []) [ht_apos ?t + 1..<2 ^ ht_logsize ?t] = None"
    using e by (simp add: find_None_nth del: upt_Suc)
  let ?Q = "\<lambda>i. ht_table t ! i \<noteq> []"
  obtain i0 where "i0 < 2 ^ ht_logsize t" "?Q i0"
    using False e(1) by (auto simp: ht_items_def in_set_conv_nth)
  then have "find ?Q [0..<2 ^ ht_logsize t] \<noteq> None" unfolding find_None_nth by auto
  then obtain i where i: "find ?Q [0..<2 ^ ht_logsize t] = Some i" by blast
  from i obtain j where j: "[0..<2 ^ ht_logsize t] ! j = i" "j < 2 ^ ht_logsize t" "?Q i"
      "\<forall>m < j. ht_table t ! ([0..<2 ^ ht_logsize t] ! m) = []"
    by (auto simp: find_Some_iff)
  then have "i = j" by simp
  with j have before: "\<forall>m. 0 \<le> m \<and> m < i \<longrightarrow> ht_table t ! m = []" by simp
  have il: "i < length (ht_table t)" using j(2) \<open>i = j\<close> e(1) by simp
  have "concat (drop 0 (ht_table t)) = ht_table t ! i @ concat (drop (i + 1) (ht_table t))"
    by (rule drop_skip_empty [OF _ il before]) simp
  moreover have "find (\<lambda>i. ht_table ?t ! i \<noteq> []) [0..<ht_apos ?t + 1] = Some i" using i e(2) by simp
  with none have "snd (hnbucket ?t) = ?t\<lparr>ht_apos := i, ht_ipos := Some 0\<rparr>"
    unfolding hnbucket_def by (simp only: option.case snd_conv)
  then have "snd (hfirst t) = ?t\<lparr>ht_apos := i, ht_ipos := Some 0\<rparr>" by (simp add: hfirst_def Let_def)
  ultimately show ?thesis using t by (simp add: rest_items_def ht_items_def)
qed

text \<open>A client's loop over an iterator.\<close>

fun iterate_entries ::
  "nat \<Rightarrow> ('k, 'v) htab \<Rightarrow> ('k \<times> 'v) hash_iterator \<Rightarrow> ('k \<times> 'v) list" where
  "iterate_entries 0 t it = []"
| "iterate_entries (Suc n) t it =
     (case hit_current it of
        None \<Rightarrow> []
      | Some e \<Rightarrow>
          (if hashtable_iterable_has_next it
           then e # (case hashtable_iterable_next t it of (_, it, t) \<Rightarrow> iterate_entries n t it)
           else []))"

definition entry :: "('k, 'v) hitem \<Rightarrow> 'k \<times> 'v" where
  "entry h = (hi_key h, hi_stuff h)"

lemma iterate_rest:
  assumes "ht_buckets_ok t" and "ht_ipos t = Some j" and "j < length (ht_table t ! ht_apos t)"
    and "0 < hit_ordinal it" and "hit_current it = hcurrent t" and "length (rest_items t) < n"
  shows "iterate_entries n t it = map entry (rest_items t)"
  using assms
proof (induction n arbitrary: t j it)
  case (Suc n)
  note c = hcurrent_rest [OF Suc.prems(2,3)]
  note nx = hnext_rest [OF Suc.prems(1,2,3)]
  have r: "rest_items t = hd (rest_items t) # tl (rest_items t)" using c by (metis list.sel(1))
  have cur: "hit_current it = Some (entry (hd (rest_items t)))"
    using c Suc.prems(5) by (simp add: entry_def)
  have has: "hashtable_iterable_has_next it" using cur Suc.prems(4) by (simp add: hashtable_iterable_has_next_def)
  have rest: "(case hashtable_iterable_next t it of (_, it, t) \<Rightarrow> iterate_entries n t it) = map entry (tl (rest_items t))"
  proof (cases "fst (hnext t)")
    case True
    with nx obtain j' where t': "ht_buckets_ok (snd (hnext t))" "rest_items (snd (hnext t)) = tl (rest_items t)"
      "ht_ipos (snd (hnext t)) = Some j'" "j' < length (ht_table (snd (hnext t)) ! ht_apos (snd (hnext t)))" by blast
    let ?it = "\<lparr>hit_current = hcurrent (snd (hnext t)), hit_ordinal = hit_ordinal it + 1\<rparr>"
    have "length (rest_items (snd (hnext t))) < n"
      using arg_cong [OF r, of length] Suc.prems(6) t'(2) by simp
    from Suc.IH [OF t'(1,3,4) _ _ this, of ?it]
    have "iterate_entries n (snd (hnext t)) ?it = map entry (tl (rest_items t))" using t'(2) by simp
    then show ?thesis using True Suc.prems(4)
      by (simp add: hashtable_iterable_next_def jenkins_next_def split_beta)
  next
    case False
    with nx have "tl (rest_items t) = []" by simp
    moreover have "iterate_entries n t' (it'\<lparr>hit_current := None\<rparr>) = []" for t' :: "('a, 'b) htab" and it'
      by (cases n) simp_all
    ultimately show ?thesis using False Suc.prems(4)
      by (simp add: hashtable_iterable_next_def jenkins_next_def split_beta)
  qed
  have "iterate_entries (Suc n) t it = entry (hd (rest_items t)) # map entry (tl (rest_items t))"
    using cur has rest by simp
  then show ?case by (subst r) simp
qed simp

lemma no_items_no_position: "htab_inv t \<Longrightarrow> ht_items t = [] \<Longrightarrow> ht_ipos t = None"
  using chain_nonempty [of "ht_apos t" t] by (auto simp: htab_inv_def ht_pos_ok_def split: option.splits)

lemma hash_iteration:
  assumes "htab_inv t" and "ht_count t < n"
  shows "(case set_hash_iterator t of (it, t') \<Rightarrow> iterate_entries n t' it) = map entry (ht_items t)"
proof -
  have b: "ht_buckets_ok t" and c: "ht_count t = length (ht_items t)" using assms(1) by (simp_all add: htab_inv_def)
  have n: "ht_items t = [] \<Longrightarrow> ht_ipos t = None" by (rule no_items_no_position [OF assms(1)])
  obtain a p where f: "snd (hfirst t) = t\<lparr>ht_apos := a, ht_ipos := p\<rparr>" "ht_pos_ok (snd (hfirst t))"
    "fst (hfirst t) = (ht_items t \<noteq> [])"
    using hfirst_pos [OF b n] by blast
  note r = hfirst_rest [OF b n]
  show ?thesis
  proof (cases "ht_items t = []")
    case True
    then show ?thesis using f
      by (cases n) (simp_all add: set_hash_iterator_def hashtable_iterable_first_def jenkins_first_def split_beta)
  next
    case False
    let ?t = "snd (hfirst t)"
    let ?it = "\<lparr>hit_current = hcurrent ?t, hit_ordinal = Suc 0\<rparr>"
    have "ht_items ?t = ht_items t" using f(1) by simp
    then obtain j where j: "ht_ipos ?t = Some j" "j < length (ht_table ?t ! ht_apos ?t)"
      using f(2) False by (auto simp: ht_pos_ok_def split: option.splits)
    have rest: "rest_items ?t = ht_items t" using r False by blast
    have len: "length (rest_items ?t) < n" using rest c assms(2) by simp
    have "iterate_entries n ?t ?it = map entry (rest_items ?t)"
      by (rule iterate_rest [OF conjunct1 [OF r] j _ _ len]) simp_all
    then show ?thesis using f(3) False rest
      by (simp add: set_hash_iterator_def hashtable_iterable_first_def jenkins_first_def split_beta)
  qed
qed

text \<open>Iterating over a hash table (\<open>set_hash_iterator\<close> and \<open>next\<close> while \<open>has_next\<close>) yields every
  entry of the table exactly once, in the order of the buckets: the result is the list of the
  items, and its entries are those of the map.\<close>

theorem hash_iteration_complete:
  assumes "htab_inv t" and "ht_count t < n"
  shows "(case set_hash_iterator t of (it, t') \<Rightarrow> iterate_entries n t' it) = map entry (ht_items t)
    \<and> distinct (map hi_hval (ht_items t)) \<and> set (map entry (ht_items t)) = ran (ht_map t)"
proof -
  have b: "ht_buckets_ok t" using assms(1) by (simp add: htab_inv_def)
  have "set (map entry (ht_items t)) = ran (ht_map t)"
    using ht_map_Some [OF b] by (auto simp: ran_def entry_def)
  then show ?thesis using hash_iteration [OF assms] b by (simp add: ht_buckets_ok_def)
qed

text \<open>C19. On keys of one class, a table of \<open>jenkins_create\<close> behaves as a finite map under every
  sequence of \<open>jenkins_inserth\<close>, \<open>jenkins_findh\<close> and \<open>jenkins_removeh\<close>: it returns the results and
  entries a map from hashes to entries returns (growth, collisions and deletion included), where
  inserting refuses a bound key and a key with hash 0 and finding an unbound key fails.\<close>

theorem hashtable_is_a_map:
  fixes ops :: "('k etch_key, int32, 'v) table_op list"
  assumes "\<forall>k v. Insert k v \<in> set ops \<longrightarrow> key_kind k = c"
  shows "fst (run_ops (jenkins_inserth 32) jenkins_findh jenkins_removeh ops (jenkins_create size_items))
     = fst (run_ops (map_insert (\<lambda>k. ko_hashkey k \<noteq> 0) ko_hashkey) map_find map_remove ops Map.empty)"
  using jenkins.run_simulates [OF create_ok assms] by simp

section \<open>Where ub4 has 64 bits\<close>

definition insert_all ::
  "nat \<Rightarrow> ('k etch_key \<times> 'v) list \<Rightarrow> ('k etch_key, 'v) htab \<Rightarrow> ('k etch_key, 'v) htab" where
  "insert_all b kvs t = fold (\<lambda>(k, v) t. snd (jenkins_inserth b t k v)) kvs t"

definition wide_ok :: "('k etch_key, 'v) htab \<Rightarrow> bool" where
  "wide_ok t \<longleftrightarrow> htab_inv t \<and> (\<forall>h \<in> set (ht_items t). hi_keyl h = 8
     \<and> hi_hval h = unat (key_head (hi_key h)) \<and> 2 ^ 32 \<le> hi_hval h)"

lemma key_ub4_64 [simp]: "key_ub4 64 k = unat (key_head k)"
  using unsigned_less [of "key_head k", where ?'a = nat]
  by (simp add: key_ub4_def take_bit_nat_eq_self)

lemma typed_key_head: "key_kind k \<noteq> (0, 0) \<Longrightarrow> 2 ^ 32 \<le> unat (key_head k)"
proof (rule ccontr)
  assume nz: "key_kind k \<noteq> (0, 0)" and "\<not> 2 ^ 32 \<le> unat (key_head k)"
  then have "take_bit 32 (unat (key_head k)) = unat (key_head k)" by (simp add: take_bit_nat_eq_self)
  then have hi: "\<not> bit (unat (key_head k)) n" if "32 \<le> n" for n
    using that by (metis bit_take_bit_iff linorder_not_less)
  have head: "\<not> bit (key_head k) n" if "32 \<le> n" for n
    using hi [OF that] by (simp add: bit_unsigned_iff)
  have "\<not> bit (ko_obj_type k) n" for n
    using head [of "32 + n"] bit_imp_le_length [of "ko_obj_type k" n]
    by (auto simp: key_head_def bit_or_iff bit_push_bit_iff bit_simps)
  moreover have "\<not> bit (ko_class_id k) n" for n
    using head [of "48 + n"] bit_imp_le_length [of "ko_class_id k" n]
    by (auto simp: key_head_def bit_or_iff bit_push_bit_iff bit_simps)
  ultimately have "ko_obj_type k = 0 \<and> ko_class_id k = 0" by (simp add: bit_eq_iff)
  with nz show False by (simp add: key_kind_def)
qed

lemma wide_insert:
  assumes t: "wide_ok t" and k: "key_kind k \<noteq> (0, 0)"
  shows "wide_ok (snd (jenkins_inserth 64 t k v))"
proof -
  let ?t = "snd (haddx 64 t k v)"
  have i: "htab_inv t" using t by (simp add: wide_ok_def)
  have b: "2 ^ 32 \<le> unat (key_head k)" by (rule typed_key_head [OF k])
  have "wide_ok ?t"
  proof (cases "ht_map t (key_ub4 64 k)")
    case None
    have "key_ub4 64 k \<noteq> 0" using b by (metis key_ub4_64 not_numeral_le_zero power_eq_0_iff zero_neq_numeral le_zero_eq)
    note a = haddx_new [OF i this None, of v]
    then have "set (ht_items ?t) = insert \<lparr>hi_key = k, hi_keyl = 8, hi_stuff = v, hi_hval = key_ub4 64 k\<rparr> (set (ht_items t))"
      using arg_cong [of "mset (ht_items ?t)" _ set_mset] by (metis set_mset_add_mset_insert set_mset_mset)
    then show ?thesis using a t b by (auto simp: wide_ok_def)
  next
    case (Some e)
    then have "ht_map t (unat (key_head k)) \<noteq> None" by simp
    then have "unat (key_head k) \<in> hi_hval ` set (ht_items t)" unfolding ht_map_None by simp
    then obtain h where h: "h \<in> set (ht_items t)" "hi_hval h = unat (key_head k)" by auto
    then have "key_same k (hi_key h)" "hi_keyl h = 8"
      using t by (auto simp: wide_ok_def key_same_def word_unat_eq_iff)
    with haddx_existing [OF i h(1)] h(2) have "htab_inv ?t" "ht_table ?t = ht_table t" by simp_all
    moreover from this have items: "ht_items ?t = ht_items t" by (simp add: ht_items_def)
    ultimately show ?thesis using t unfolding wide_ok_def items by blast
  qed
  then show ?thesis by (simp add: jenkins_inserth_def split_beta)
qed

text \<open>C20. \<open>jenkhtab.h\<close> declares \<open>ub4\<close>, the ``unsigned 4-byte quantities'', as \<open>unsigned long int\<close>.
  Where \<open>long\<close> has 64 bits, \<open>haddx\<close> takes hash, type and class of the key for its hash, and no key
  with a type or class, once inserted, is ever found by its hash again.\<close>

theorem wide_ub4_never_finds:
  assumes "\<forall>(k, v) \<in> set kvs. key_kind k \<noteq> (0, 0)"
  shows "fst (jenkins_findh (insert_all 64 kvs (jenkins_create size_items)) x) = - 1"
proof -
  have "wide_ok (insert_all 64 kvs t)" if "wide_ok t" for t :: "('a etch_key, 'b) htab"
    using assms that unfolding insert_all_def
    by (induction kvs arbitrary: t) (auto simp: wide_insert)
  moreover have "wide_ok (jenkins_create size_items :: ('a etch_key, 'b) htab)"
    by (simp add: wide_ok_def jenkins_create_def Let_def)
  ultimately have t: "wide_ok (insert_all 64 kvs (jenkins_create size_items))" (is "wide_ok ?t") by blast
  then have i: "htab_inv ?t" by (simp add: wide_ok_def)
  have "unat x < 2 ^ 32" using unsigned_less [of x, where ?'a = nat] by simp
  then have "unat x \<notin> hi_hval ` set (ht_items ?t)" using t by (auto simp: wide_ok_def)
  then have "\<not> fst (hfindx ?t (unat x))" using hfindx_spec [OF i, of "unat x"] by (simp add: ht_map_None)
  then show ?thesis by (simp add: jenkins_findh_def split_beta Let_def)
qed

section \<open>Clearing\<close>

lemma hash_clear_loop:
  assumes "htab_inv t" and "ht_count t < fuel"
  shows "\<exists>t'. jenkins_clear_loop fuel t n = Returns (n + ht_count t, t') \<and> htab_inv t' \<and> ht_items t' = []"
  using assms
proof (induction fuel arbitrary: t n)
  case (Suc fuel)
  have c: "ht_count t = length (ht_items t)" using Suc.prems(1) by (simp add: htab_inv_def)
  show ?case
  proof (cases "ht_items t = []")
    case True
    with c Suc.prems show ?thesis by simp
  next
    case False
    then obtain h where h: "hitem_at t = Some h"
      using Suc.prems(1) by (auto simp: htab_inv_def ht_pos_ok_def hitem_at_def split: option.splits)
    let ?d = "snd (hdel t)"
    note d = hdel_spec [OF Suc.prems(1) h]
    have i: "htab_inv ?d" and m: "mset (ht_items t) = add_mset h (mset (ht_items ?d))" using d by blast+
    have "length (ht_items t) = length (ht_items ?d) + 1" using arg_cong [OF m, of size] by simp
    with i c have "ht_count t = ht_count ?d + 1" by (simp add: htab_inv_def)
    moreover have "jenkins_clear_loop (Suc fuel) t n = jenkins_clear_loop fuel ?d (n + 1)"
      using c False h by (simp add: hcurrent_def)
    ultimately show ?thesis using Suc.IH [OF i, of "n + 1"] Suc.prems(2) by (simp only: add.assoc add.commute [of 1] Suc_eq_plus1 add_less_cancel_right)
  qed
qed simp

text \<open>\<open>jenkins_clear\<close> deletes as many entries as the table holds and leaves it empty; it never
  deletes at a null position.\<close>

theorem hash_clear_empties:
  assumes "htab_inv t"
  shows "\<exists>t'. jenkins_clear t = Returns (jenkins_count t, t') \<and> jenkins_count t' = 0 \<and> ht_map t' = Map.empty"
proof -
  obtain t' where "jenkins_clear_loop (Suc (ht_count t)) t 0 = Returns (0 + ht_count t, t')" "htab_inv t'" "ht_items t' = []"
    using hash_clear_loop [OF assms, of "Suc (ht_count t)" 0] by auto
  then show ?thesis
    by (simp add: jenkins_clear_def jenkins_count_def htab_inv_def ht_map_def)
qed

section \<open>Witnesses\<close>

definition sample_key :: "int32 \<Rightarrow> nat etch_key" where
  "sample_key x = \<lparr>ko_hashkey = x, ko_obj_type = 3, ko_class_id = 7, ko_content = 0\<rparr>"

lemma sample_kind [simp]: "key_kind (sample_key x) = (3, 7)"
  by (simp add: sample_key_def key_kind_def)

definition sample_table :: "(nat etch_key, nat) htab" where
  "sample_table = snd (jenkins_inserth 32 (hcreate 2) (sample_key 5) 7)"

lemma sample_table_ok: "htab_inv sample_table \<and> map entry (ht_items sample_table) = [(sample_key 5, 7)]"
proof -
  have t: "htab_inv (hcreate 2)" "key_ub4 32 (sample_key 5) \<noteq> 0"
    "ht_map (hcreate 2) (key_ub4 32 (sample_key 5)) = None"
    by (simp_all add: sample_key_def)
  from haddx_new [OF t, of "7 :: nat"] show ?thesis
    by (simp add: sample_table_def jenkins_inserth_def split_beta entry_def)
qed

lemma sample_table_count: "ht_count sample_table = 1"
  using sample_table_ok by (auto simp: htab_inv_def)

lemma hash_iteration_complete_witness:
  "(case set_hash_iterator sample_table of (it, t') \<Rightarrow> iterate_entries 2 t' it) = [(sample_key 5, 7)]"
  using hash_iteration_complete [of sample_table 2] sample_table_ok sample_table_count by simp

lemma hashtable_is_a_map_witness:
  "fst (run_ops (jenkins_inserth 32) jenkins_findh jenkins_removeh
      [Insert (sample_key 5) (1::nat), Insert (sample_key 21) 2, Find 21, Remove 5, Find 5] (jenkins_create 16))
   = fst (run_ops (map_insert (\<lambda>k. ko_hashkey k \<noteq> 0) ko_hashkey) map_find map_remove
      [Insert (sample_key 5) 1, Insert (sample_key 21) 2, Find 21, Remove 5, Find 5] Map.empty)"
  by (rule hashtable_is_a_map [of _ "(3, 7)"]) auto

lemma wide_ub4_never_finds_witness:
  "fst (jenkins_findh (insert_all 64 [(sample_key 5, 1::nat)] (jenkins_create 16)) 5) = - 1"
  by (rule wide_ub4_never_finds) simp

lemma hash_clear_empties_witness:
  "\<exists>t'. jenkins_clear sample_table = Returns (1, t') \<and> jenkins_count t' = 0 \<and> ht_map t' = Map.empty"
  using hash_clear_empties [of sample_table] sample_table_ok sample_table_count by (simp add: jenkins_count_def)

end
