(* ===== verification/HashIteration.thy ===== *)
theory HashIteration
  imports HashTable_Correct
begin

text \<open>
  What a client needs to reason about a loop over a hash table: the entries that an iterator still
  yields (\<open>it_rest\<close>), and that looking at a table or walking over it keeps its entries.
\<close>

text \<open>Moving the position keeps the table.\<close>

lemma hnext_inv:
  assumes t: "htab_inv t"
  shows "htab_inv (snd (hnext t)) \<and> ht_items (snd (hnext t)) = ht_items t"
proof (cases "ht_ipos t")
  case None
  with t show ?thesis by (simp add: hnext_def)
next
  case (Some j)
  have b: "ht_buckets_ok t" and p: "ht_pos_ok t" and c: "ht_count t = length (ht_items t)"
    using t by (simp_all add: htab_inv_def)
  show ?thesis
  proof (cases "j + 1 < length (ht_table t ! ht_apos t)")
    case True
    then show ?thesis using Some b p c by (simp add: hnext_def htab_inv_def ht_pos_ok_def)
  next
    case False
    let ?t = "t\<lparr>ht_ipos := None\<rparr>"
    have a: "ht_apos ?t < length (ht_table ?t)" using p by (simp add: ht_pos_ok_def)
    obtain x q where h: "snd (hnbucket ?t) = ?t\<lparr>ht_apos := x, ht_ipos := q\<rparr>" "ht_pos_ok (snd (hnbucket ?t))"
      using hnbucket_pos [of ?t] b a by auto
    have "htab_inv (?t\<lparr>ht_apos := x, ht_ipos := q\<rparr>)" using h b c by (simp add: htab_inv_def)
    then show ?thesis using Some False h(1) by (simp add: hnext_def)
  qed
qed

lemma hfirst_inv:
  assumes t: "htab_inv t"
  shows "htab_inv (snd (hfirst t)) \<and> ht_items (snd (hfirst t)) = ht_items t"
proof -
  have b: "ht_buckets_ok t" and c: "ht_count t = length (ht_items t)" using t by (simp_all add: htab_inv_def)
  obtain a p where "snd (hfirst t) = t\<lparr>ht_apos := a, ht_ipos := p\<rparr>" "ht_pos_ok (snd (hfirst t))"
    using hfirst_pos [OF b no_items_no_position [OF t]] by blast
  then show ?thesis using b c by (simp add: htab_inv_def)
qed

lemma table_ok_items:
  assumes "table_ok c t" and "htab_inv t'" and "ht_items t' = ht_items t"
  shows "table_ok c t' \<and> table_map t' = table_map t"
  using assms by (simp add: table_ok_def table_map_def [abs_def] ht_map_def)

lemma hfindx_items [simp]: "ht_items (snd (hfindx t x)) = ht_items t"
  by (simp add: hfindx_def Let_def split: option.split)

text \<open>The iterator \<open>it\<close> of the table \<open>t\<close> still yields the entries \<open>es\<close>.\<close>

definition it_rest :: "('k, 'v) htab \<Rightarrow> ('k \<times> 'v) hash_iterator \<Rightarrow> ('k \<times> 'v) list \<Rightarrow> bool" where
  "it_rest t it es \<longleftrightarrow> htab_inv t \<and> iterate_entries (Suc (length es)) t it = es"

lemma it_rest_Nil: "it_rest t it [] \<Longrightarrow> \<not> hashtable_iterable_has_next it"
  by (auto simp: it_rest_def hashtable_iterable_has_next_def split: option.splits)

lemma it_rest_Cons:
  assumes "it_rest t it (e # es)"
  shows "hashtable_iterable_has_next it \<and> hit_current it = Some e
    \<and> (\<exists>r it' t'. hashtable_iterable_next t it = (r, it', t') \<and> it_rest t' it' es \<and> ht_items t' = ht_items t)"
proof -
  from assms have i: "htab_inv t" and r: "iterate_entries (Suc (Suc (length es))) t it = e # es"
    by (simp_all add: it_rest_def)
  then obtain e' where e': "hit_current it = Some e'" by (auto split: option.splits)
  with r have has: "hashtable_iterable_has_next it" by (auto split: if_splits)
  obtain q it' t' where n: "hashtable_iterable_next t it = (q, it', t')" by (metis prod_cases3)
  have "t' = snd (hnext t)" using n has
    by (auto simp: hashtable_iterable_next_def jenkins_next_def hashtable_iterable_has_next_def split_beta split: if_splits)
  then have t': "htab_inv t' \<and> ht_items t' = ht_items t" using hnext_inv [OF i] by simp
  have "e' # iterate_entries (Suc (length es)) t' it' = e # es" using r e' has n by simp
  then show ?thesis using has e' n t' by (simp add: it_rest_def)
qed

lemma set_iterator_rest:
  assumes "table_ok c t"
  obtains it t' where "set_hash_iterator t = (it, t')" and "it_rest t' it (map entry (ht_items t))"
    and "table_ok c t'" and "table_map t' = table_map t" and "ht_items t' = ht_items t"
proof -
  have inv: "htab_inv t" using assms by (simp add: table_ok_def)
  obtain it t' where s: "set_hash_iterator t = (it, t')" by force
  then have "t' = snd (hfirst t)"
    by (simp add: set_hash_iterator_def hashtable_iterable_first_def jenkins_first_def split_beta Let_def split: if_splits)
  then have t': "htab_inv t'" "ht_items t' = ht_items t" using hfirst_inv [OF inv] by simp_all
  have c: "ht_count t = length (ht_items t)" using inv by (simp add: htab_inv_def)
  have "it_rest t' it (map entry (ht_items t))"
    using hash_iteration [OF inv, of "Suc (length (ht_items t))"] s t' c by (simp add: it_rest_def del: iterate_entries.simps)
  moreover have "table_ok c t' \<and> table_map t' = table_map t" by (rule table_ok_items [OF assms t'])
  ultimately show thesis using that [OF s] t' by blast
qed

end
