(* ===== verification/MailboxManager_Correct.thy ===== *)
theory MailboxManager_Correct
  imports MailboxManager Mailbox_Correct HashIteration
begin

text \<open>
  The mailbox manager: registration, routing of replies and the end of the session.

  \<^item> \<open>pm_reg\<close> is the abstract state, a map from hashes of message ids to mailboxes; \<open>pm_inv\<close> is the
    invariant: a registered mailbox is open and is found under the hash of its own id, and nothing is
    registered while the connection is down.
  \<^item> The registrations are a table of the interface \<open>hash_map\<close>; the proofs use the laws of its
    interpretation \<open>jenkins\<close>.
  \<^item> The theorems are about a platform where \<open>unsigned long\<close> has 32 bits.
\<close>

section \<open>The invariant\<close>

definition msg_hash :: "int64 \<Rightarrow> int32" where
  "msg_hash msgid = etch_number_get_hashkey 32 6 msgid"

definition pm_reg :: "('b, 'w, 'n) pmboxmgr \<Rightarrow> int32 \<Rightarrow> (int64 etch_key \<times> nat) option" where
  "pm_reg mgr = table_map (pm_mailboxes mgr)"

definition pm_inv :: "('b, 'w, 'n) pmboxmgr \<Rightarrow> bool" where
  "pm_inv mgr \<longleftrightarrow> table_ok (0x29, 6) (pm_mailboxes mgr) \<and> pm_max_delay mgr = ETCH_INFWAIT
     \<and> (\<forall>b \<in> set (pm_boxes mgr). one_slot b \<and> mb_max_message_delay b = ETCH_INFWAIT)
     \<and> (\<forall>x k a. pm_reg mgr x = Some (k, a) \<longrightarrow> a < length (pm_boxes mgr)
          \<and> k = msgid_key 32 (mb_message_id (pm_box mgr a)) \<and> x = ko_hashkey k
          \<and> \<not> etchmbox_is_closed (pm_box mgr a))
     \<and> (\<not> pm_is_connection_up mgr \<longrightarrow> pm_reg mgr = Map.empty)"

lemma key_fields [simp]:
  "ko_hashkey (msgid_key 32 v) = msg_hash v" "key_kind (msgid_key 32 v) = (0x29, 6)"
  "ko_content (msgid_key n v) = v"
  by (simp_all add: msgid_key_def msg_hash_def key_kind_def)

lemma etchhash_msg [simp]: "etchhash 32 (le_bytes 8 v) 0 = msg_hash v"
  by (simp add: msg_hash_def etch_number_get_hashkey_def number_bytelength_def)

lemma pm_update_simps [simp]:
  "pm_mailboxes (pm_update a f mgr) = pm_mailboxes mgr"
  "pm_is_connection_up (pm_update a f mgr) = pm_is_connection_up mgr"
  "pm_max_delay (pm_update a f mgr) = pm_max_delay mgr"
  "pm_message_id (pm_update a f mgr) = pm_message_id mgr"
  "length (pm_boxes (pm_update a f mgr)) = length (pm_boxes mgr)"
  "pm_reg (pm_update a f mgr) = pm_reg mgr"
  by (simp_all add: pm_update_def pm_reg_def)

lemma pm_box_update:
  "pm_box (pm_update a f mgr) i = (if i = a \<and> a < length (pm_boxes mgr) then f (pm_box mgr a) else pm_box mgr i)"
  by (cases "a < length (pm_boxes mgr)") (auto simp: pm_update_def pm_box_def nth_list_update list_update_beyond)

lemma pm_box_tab [simp]: "pm_box (mgr\<lparr>pm_mailboxes := t\<rparr>) a = pm_box mgr a"
  by (simp add: pm_box_def)

lemma pm_invD:
  assumes "pm_inv mgr"
  shows "table_ok (0x29, 6) (pm_mailboxes mgr)" "pm_max_delay mgr = ETCH_INFWAIT"
    "a < length (pm_boxes mgr) \<Longrightarrow> one_slot (pm_box mgr a) \<and> mb_max_message_delay (pm_box mgr a) = ETCH_INFWAIT"
    "pm_reg mgr x = Some (k, a) \<Longrightarrow> a < length (pm_boxes mgr) \<and> k = msgid_key 32 (mb_message_id (pm_box mgr a))
       \<and> x = msg_hash (mb_message_id (pm_box mgr a)) \<and> \<not> etchmbox_is_closed (pm_box mgr a)"
    "\<not> pm_is_connection_up mgr \<Longrightarrow> pm_reg mgr = Map.empty"
proof -
  have r: "\<forall>x k a. pm_reg mgr x = Some (k, a) \<longrightarrow> a < length (pm_boxes mgr)
      \<and> k = msgid_key 32 (mb_message_id (pm_box mgr a)) \<and> x = ko_hashkey k \<and> \<not> etchmbox_is_closed (pm_box mgr a)"
    using assms by (simp add: pm_inv_def)
  show "a < length (pm_boxes mgr) \<and> k = msgid_key 32 (mb_message_id (pm_box mgr a))
       \<and> x = msg_hash (mb_message_id (pm_box mgr a)) \<and> \<not> etchmbox_is_closed (pm_box mgr a)"
    if "pm_reg mgr x = Some (k, a)"
  proof -
    from r that have "a < length (pm_boxes mgr) \<and> k = msgid_key 32 (mb_message_id (pm_box mgr a))
      \<and> x = ko_hashkey k \<and> \<not> etchmbox_is_closed (pm_box mgr a)" by blast
    then show ?thesis by simp
  qed
qed (use assms in \<open>simp_all add: pm_inv_def pm_box_def\<close>)

text \<open>
  The invariant after a change of the table, of the mailboxes or both: every registration that is left
  was there before, and its mailbox is open and keeps its id.
\<close>

lemma pm_inv_change:
  assumes inv: "pm_inv mgr" and t: "table_ok (0x29, 6) (pm_mailboxes mgr')"
    and d: "pm_max_delay mgr' = pm_max_delay mgr" and u: "pm_is_connection_up mgr' = pm_is_connection_up mgr"
    and b: "\<And>i. i < length (pm_boxes mgr') \<Longrightarrow>
      one_slot (pm_box mgr' i) \<and> mb_max_message_delay (pm_box mgr' i) = ETCH_INFWAIT"
    and r: "\<And>x k a. pm_reg mgr' x = Some (k, a) \<Longrightarrow> pm_reg mgr x = Some (k, a)
      \<and> a < length (pm_boxes mgr') \<and> mb_message_id (pm_box mgr' a) = mb_message_id (pm_box mgr a)
      \<and> \<not> etchmbox_is_closed (pm_box mgr' a)"
  shows "pm_inv mgr'"
proof -
  have "\<forall>b \<in> set (pm_boxes mgr'). one_slot b \<and> mb_max_message_delay b = ETCH_INFWAIT"
    using b by (auto simp: pm_box_def in_set_conv_nth)
  moreover have "a < length (pm_boxes mgr') \<and> k = msgid_key 32 (mb_message_id (pm_box mgr' a)) \<and> x = ko_hashkey k
      \<and> \<not> etchmbox_is_closed (pm_box mgr' a)" if "pm_reg mgr' x = Some (k, a)" for x k a
    using r [OF that] pm_invD(4) [OF inv, of x k a] by auto
  moreover have "\<not> pm_is_connection_up mgr' \<longrightarrow> pm_reg mgr' = Map.empty"
  proof (intro impI ext)
    fix x assume "\<not> pm_is_connection_up mgr'"
    then have "pm_reg mgr x = None" using u pm_invD(5) [OF inv] by simp
    then show "pm_reg mgr' x = None" using r [of x] by (cases "pm_reg mgr' x") auto
  qed
  ultimately show ?thesis using t d pm_invD(2) [OF inv] unfolding pm_inv_def by auto
qed

text \<open>Mailboxes only move forward: open, closed to delivery, closed to reading.\<close>

definition pm_le :: "('b, 'w, 'n) pmboxmgr \<Rightarrow> ('b, 'w, 'n) pmboxmgr \<Rightarrow> bool" where
  "pm_le mgr mgr' \<longleftrightarrow> length (pm_boxes mgr) \<le> length (pm_boxes mgr')
     \<and> (\<forall>i < length (pm_boxes mgr). mb_state (pm_box mgr i) \<le> mb_state (pm_box mgr' i))"

lemma pm_le_refl [simp]: "pm_boxes mgr' = pm_boxes mgr \<Longrightarrow> pm_le mgr mgr'"
  by (simp add: pm_le_def pm_box_def)

lemma pm_le_trans [trans]: "pm_le a b \<Longrightarrow> pm_le b c \<Longrightarrow> pm_le a c"
  unfolding pm_le_def by (meson le_trans less_le_trans)

lemma pm_le_closed:
  assumes "pm_le mgr mgr'" and "pm_inv mgr" and "pm_inv mgr'" and "a < length (pm_boxes mgr)"
    and "etchmbox_is_closed (pm_box mgr a)"
  shows "etchmbox_is_closed (pm_box mgr' a)"
proof -
  have "one_slot (pm_box mgr a)" "one_slot (pm_box mgr' a)" "mb_state (pm_box mgr a) \<le> mb_state (pm_box mgr' a)"
    using assms(1,4) pm_invD(3) [OF assms(2)] pm_invD(3) [OF assms(3)] by (auto simp: pm_le_def)
  then show ?thesis using assms(5) by (simp add: one_slot_def mbox_ok_def)
qed

lemma pm_le_append: "pm_boxes mgr' = pm_boxes mgr @ [b] \<Longrightarrow> pm_le mgr mgr'"
  by (simp add: pm_le_def pm_box_def nth_append)

lemma pm_le_update: "mb_state (pm_box mgr a) \<le> mb_state b \<Longrightarrow> pm_le mgr (pm_update a (\<lambda>_. b) mgr)"
  by (simp add: pm_le_def pm_box_update)

section \<open>Registration\<close>

lemma unregister_spec:
  assumes "table_ok (0x29, 6) (pm_mailboxes mgr)"
  shows "\<exists>r t. pmboxmgr_unregister 32 mgr a = (r, mgr\<lparr>pm_mailboxes := t\<rparr>) \<and> table_ok (0x29, 6) t
    \<and> table_map t = (pm_reg mgr)(msg_hash (mb_message_id (pm_box mgr a)) := None)"
  using jenkins.remove_law [OF assms, of "msg_hash (mb_message_id (pm_box mgr a))"]
  by (intro exI [of _ "snd (snd (jenkins_removeh (pm_mailboxes mgr) (msg_hash (mb_message_id (pm_box mgr a)))))"] exI)
     (simp add: pmboxmgr_unregister_def etchmbox_get_message_id_def split_beta pm_reg_def Let_def)

lemma register_spec:
  assumes t: "table_ok (0x29, 6) (pm_mailboxes mgr)" and up: "pm_is_connection_up mgr"
  shows "\<exists>t. table_ok (0x29, 6) t \<and> (let x = msg_hash (mb_message_id (pm_box mgr a)) in
    if x = 0 \<or> pm_reg mgr x \<noteq> None
    then pmboxmgr_register_mailbox 32 mgr a = (- 1, mgr\<lparr>pm_mailboxes := t\<rparr>) \<and> table_map t = pm_reg mgr
    else pmboxmgr_register_mailbox 32 mgr a = (0, mgr\<lparr>pm_mailboxes := t\<rparr>)
      \<and> table_map t = (pm_reg mgr)(x \<mapsto> (msgid_key 32 (mb_message_id (pm_box mgr a)), a)))"
proof -
  let ?k = "msgid_key 32 (mb_message_id (pm_box mgr a))"
  have "key_kind ?k = (0x29, 6)" by simp
  note l = jenkins.insert_law [OF t this, of a]
  show ?thesis using l up
    by (intro exI [of _ "snd (jenkins_inserth 32 (pm_mailboxes mgr) ?k a)"])
       (simp add: pmboxmgr_register_mailbox_def etchmbox_get_message_id_def pm_reg_def split_beta Let_def)
qed

lemma get_mailbox_spec:
  assumes "table_ok (0x29, 6) (pm_mailboxes mgr)"
  shows "\<exists>t. pmboxmgr_get_mailbox 32 mgr v = (map_option snd (pm_reg mgr (msg_hash v)), mgr\<lparr>pm_mailboxes := t\<rparr>)
    \<and> table_ok (0x29, 6) t \<and> table_map t = pm_reg mgr"
  using jenkins.find_law [OF assms, of "msg_hash v"]
  by (intro exI [of _ "snd (snd (jenkins_findh (pm_mailboxes mgr) (msg_hash v)))"])
     (simp add: pmboxmgr_get_mailbox_def msg_hash_def [symmetric] split_beta pm_reg_def Let_def)

lemma pm_inv_table:
  assumes inv: "pm_inv mgr" and t: "table_ok (0x29, 6) t"
    and m: "\<And>x e. table_map t x = Some e \<Longrightarrow> pm_reg mgr x = Some e"
  shows "pm_inv (mgr\<lparr>pm_mailboxes := t\<rparr>)"
proof (rule pm_inv_change [OF inv])
  fix x k a assume "pm_reg (mgr\<lparr>pm_mailboxes := t\<rparr>) x = Some (k, a)"
  then have "pm_reg mgr x = Some (k, a)" using m by (simp add: pm_reg_def)
  then show "pm_reg mgr x = Some (k, a) \<and> a < length (pm_boxes (mgr\<lparr>pm_mailboxes := t\<rparr>))
      \<and> mb_message_id (pm_box (mgr\<lparr>pm_mailboxes := t\<rparr>) a) = mb_message_id (pm_box mgr a)
      \<and> \<not> etchmbox_is_closed (pm_box (mgr\<lparr>pm_mailboxes := t\<rparr>) a)"
    using pm_invD(4) [OF inv] by simp
qed (use inv t pm_invD(3) [OF inv] in simp_all)

section \<open>Closing\<close>

lemma close_delivery_spec:
  assumes inv: "pm_inv mgr" and a: "a < length (pm_boxes mgr)"
  shows "if etchmbox_is_closed (pm_box mgr a)
    then etchmbox_close_delivery 32 mgr a = (ETCH_MAILBOX_RESULT_ALREADY_CLOSED, mgr)
    else fst (etchmbox_close_delivery 32 mgr a) = 0 \<and> pm_inv (snd (etchmbox_close_delivery 32 mgr a))
      \<and> pm_reg (snd (etchmbox_close_delivery 32 mgr a)) = (pm_reg mgr)(msg_hash (mb_message_id (pm_box mgr a)) := None)
      \<and> length (pm_boxes (snd (etchmbox_close_delivery 32 mgr a))) = length (pm_boxes mgr)
      \<and> pm_is_connection_up (snd (etchmbox_close_delivery 32 mgr a)) = pm_is_connection_up mgr
      \<and> (\<forall>i. i \<noteq> a \<longrightarrow> pm_box (snd (etchmbox_close_delivery 32 mgr a)) i = pm_box mgr i)
      \<and> etchmbox_is_closed (pm_box (snd (etchmbox_close_delivery 32 mgr a)) a)
      \<and> mb_state (pm_box (snd (etchmbox_close_delivery 32 mgr a)) a) = ETCH_MAILBOX_STATE_CLOSED_DELIVERY
      \<and> mbox_list (pm_box (snd (etchmbox_close_delivery 32 mgr a)) a) = mbox_list (pm_box mgr a)
      \<and> mb_message_id (pm_box (snd (etchmbox_close_delivery 32 mgr a)) a) = mb_message_id (pm_box mgr a)"
proof -
  let ?b = "pm_box mgr a" and ?s = "snd (etchmbox_close_delivery 32 mgr a)"
  have b: "one_slot ?b" "mb_max_message_delay ?b = ETCH_INFWAIT" using pm_invD(3) [OF inv a] by simp_all
  show ?thesis
  proof (cases "etchmbox_is_closed ?b")
    case True
    then have "ETCH_MAILBOX_STATE_CLOSED_DELIVERY \<le> mb_state ?b" using b by (simp add: one_slot_def mbox_ok_def)
    with True show ?thesis by (simp add: etchmbox_close_delivery_def etchmbox_is_closed_def Let_def)
  next
    case False
    let ?f = "\<lambda>b. b\<lparr>mb_state := (if mb_state b < ETCH_MAILBOX_STATE_CLOSED_DELIVERY
        then ETCH_MAILBOX_STATE_CLOSED_DELIVERY else mb_state b), mb_is_alarm_set := False\<rparr>"
      and ?g = "\<lambda>b. b\<lparr>mb_queue := snd (etchqueue_close (mb_queue b) False)\<rparr>"
    have st: "mb_state ?b < ETCH_MAILBOX_STATE_CLOSED_DELIVERY"
      using b False by (simp add: one_slot_def mbox_ok_def)
    obtain r t where u: "pmboxmgr_unregister 32 (pm_update a ?f mgr) a = (r, (pm_update a ?f mgr)\<lparr>pm_mailboxes := t\<rparr>)"
      and t: "table_ok (0x29, 6) t" "table_map t = (pm_reg mgr)(msg_hash (mb_message_id ?b) := None)"
      using unregister_spec [of "pm_update a ?f mgr" a] pm_invD(1) [OF inv] a
      by (auto simp: pm_box_update)
    let ?m = "pm_update a etchmbox_fire_notify (pm_update a ?g ((pm_update a ?f mgr)\<lparr>pm_mailboxes := t\<rparr>))"
    have e: "etchmbox_close_delivery 32 mgr a = (0, ?m)"
      using False st by (simp add: etchmbox_close_delivery_def etchmbox_is_closed_def Let_def u)
    have c: "etchqueue_close (mb_queue ?b) False = (0, (mb_queue ?b)\<lparr>aq_terminated := True\<rparr>)"
      using False by (simp add: etchqueue_close_def etch_apr_queue_unsafeclose_def etchmbox_is_closed_def)
    have bx: "pm_box ?m i = (if i = a then etchmbox_fire_notify (?g (?f ?b)) else pm_box mgr i)" for i
      using a by (simp add: pm_box_update)
    have reg: "pm_reg ?m = (pm_reg mgr)(msg_hash (mb_message_id ?b) := None)"
      using t(2) by (simp add: pm_reg_def)
    have d: "mb_max_message_delay (etchmbox_fire_notify b) = mb_max_message_delay b" for b :: "('a, 'b, 'c) etch_plainmailbox"
      by (simp add: etchmbox_fire_notify_def split: option.splits)
    have gf: "one_slot (?g (?f ?b))" "etchmbox_is_closed (?g (?f ?b))" "mbox_list (?g (?f ?b)) = mbox_list ?b"
      using b st c by (simp_all add: one_slot_def mbox_ok_def mbox_defs mbox_list_def)
    have "pm_inv ?m"
    proof (rule pm_inv_change [OF inv])
      show "one_slot (pm_box ?m i) \<and> mb_max_message_delay (pm_box ?m i) = ETCH_INFWAIT"
        if "i < length (pm_boxes ?m)" for i
        using that pm_invD(3) [OF inv, of i] gf(1) b(2) by (simp add: bx d)
      show "pm_reg mgr x = Some (k, a') \<and> a' < length (pm_boxes ?m)
          \<and> mb_message_id (pm_box ?m a') = mb_message_id (pm_box mgr a') \<and> \<not> etchmbox_is_closed (pm_box ?m a')"
        if "pm_reg ?m x = Some (k, a')" for x k a'
      proof -
        from that reg have x: "x \<noteq> msg_hash (mb_message_id ?b)" "pm_reg mgr x = Some (k, a')"
          by (auto split: if_splits)
        then have "a' \<noteq> a" using pm_invD(4) [OF inv x(2)] by auto
        then show ?thesis using pm_invD(4) [OF inv x(2)] x(2) by (simp add: bx)
      qed
    qed (use t inv in simp_all)
    moreover have "mb_state (?g (?f ?b)) = ETCH_MAILBOX_STATE_CLOSED_DELIVERY" using st by simp
    moreover have "pm_is_connection_up ?m = pm_is_connection_up mgr" "length (pm_boxes ?m) = length (pm_boxes mgr)"
      by simp_all
    ultimately show ?thesis
      using False gf reg unfolding e fst_conv snd_conv bx by simp
  qed
qed

lemma close_delivery_le:
  assumes "pm_inv mgr" and "a < length (pm_boxes mgr)"
  shows "pm_le mgr (snd (etchmbox_close_delivery 32 mgr a))"
proof (cases "etchmbox_is_closed (pm_box mgr a)")
  case True
  with close_delivery_spec [OF assms] show ?thesis by simp
next
  case False
  then have "mb_state (pm_box mgr a) < ETCH_MAILBOX_STATE_CLOSED_DELIVERY"
    using pm_invD(3) [OF assms] by (simp add: one_slot_def mbox_ok_def)
  then have "mb_state (pm_box mgr i) \<le> mb_state (pm_box (snd (etchmbox_close_delivery 32 mgr a)) i)" for i
    using False close_delivery_spec [OF assms] by (cases "i = a") simp_all
  then show ?thesis using False close_delivery_spec [OF assms] by (simp add: pm_le_def)
qed

section \<open>A call\<close>

text \<open>What a call does: the new mailbox is registered under the hash of the new id, then the message
  is sent; every failure leaves the registrations as they were and the id set.\<close>

lemma new_box:
  fixes mbox :: "('b, 'w, 'n) etch_plainmailbox"
  assumes inv: "pm_inv mgr" and n: "pm_message_id mgr + 1 \<noteq> 0"
    and mb: "new_mailbox (pm_message_id mgr + 1) ETCH_INFWAIT 0 1 = Some mbox"
  shows "pm_inv (mgr\<lparr>pm_message_id := pm_message_id mgr + 1, pm_boxes := pm_boxes mgr @ [mbox]\<rparr>)"
    "one_slot mbox" "mbox_list mbox = []" "\<not> etchmbox_is_closed mbox" "mb_notify mbox = None"
    "mb_message_id mbox = pm_message_id mgr + 1" "mb_max_message_delay mbox = ETCH_INFWAIT"
proof -
  obtain b :: "('b, 'w, 'n) etch_plainmailbox" where "new_mailbox (pm_message_id mgr + 1) ETCH_INFWAIT 0 1 = Some b" "one_slot b" "mbox_list b = []"
      "\<not> etchmbox_is_closed b" "mb_message_id b = pm_message_id mgr + 1" "mb_max_message_delay b = ETCH_INFWAIT"
      "mb_notify b = None"
    using new_mailbox_one_slot [OF n] by blast
  moreover from this(1) mb have "mbox = b" by simp
  ultimately show m: "one_slot mbox" "mbox_list mbox = []" "\<not> etchmbox_is_closed mbox" "mb_notify mbox = None"
      "mb_message_id mbox = pm_message_id mgr + 1" "mb_max_message_delay mbox = ETCH_INFWAIT" by blast+
  let ?m = "mgr\<lparr>pm_message_id := pm_message_id mgr + 1, pm_boxes := pm_boxes mgr @ [mbox]\<rparr>"
  have bx: "pm_box ?m i = (if i < length (pm_boxes mgr) then pm_box mgr i else if i = length (pm_boxes mgr) then mbox else pm_box ?m i)" for i
    by (simp add: pm_box_def nth_append)
  show "pm_inv ?m"
  proof (rule pm_inv_change [OF inv])
    show "one_slot (pm_box ?m i) \<and> mb_max_message_delay (pm_box ?m i) = ETCH_INFWAIT" if "i < length (pm_boxes ?m)" for i
      using that m pm_invD(3) [OF inv, of i] by (auto simp: pm_box_def nth_append less_Suc_eq)
    show "pm_reg mgr x = Some (k, a) \<and> a < length (pm_boxes ?m)
        \<and> mb_message_id (pm_box ?m a) = mb_message_id (pm_box mgr a) \<and> \<not> etchmbox_is_closed (pm_box ?m a)"
      if "pm_reg ?m x = Some (k, a)" for x k a
      using that pm_invD(4) [OF inv, of x k a] by (simp add: pm_reg_def pm_box_def nth_append)
  qed (use pm_invD(1) [OF inv] in simp_all)
qed

lemma call_spec:
  fixes mgr :: "('b, 'w, 'n) pmboxmgr"
  assumes inv: "pm_inv mgr" and up: "pm_is_connection_up mgr"
    and msg: "msg_id msg = None" "msg_in_reply_to msg = None"
    and n: "pm_message_id mgr + 1 \<noteq> 0" "msg_hash (pm_message_id mgr + 1) \<noteq> 0"
      "pm_reg mgr (msg_hash (pm_message_id mgr + 1)) = None"
  defines "n \<equiv> pm_message_id mgr + 1" and "m \<equiv> msg\<lparr>msg_id := Some (pm_message_id mgr + 1)\<rparr>"
    and "a \<equiv> length (pm_boxes mgr)"
  shows "\<exists>mgr'. pm_message_id mgr' = n \<and> pm_inv mgr' \<and> length (pm_boxes mgr') = a + 1
    \<and> pm_is_connection_up mgr' \<and> (\<forall>i < a. pm_box mgr' i = pm_box mgr i)
    \<and> mbox_list (pm_box mgr' a) = [] \<and> mb_message_id (pm_box mgr' a) = n \<and> mb_notify (pm_box mgr' a) = None
    \<and> (if fst (tm t w m) = 0
       then pm_reg mgr' = (pm_reg mgr)(msg_hash n \<mapsto> (msgid_key 32 n, a)) \<and> \<not> etchmbox_is_closed (pm_box mgr' a)
         \<and> pmboxmgr_transport_call 32 tm mgr t w msg = (0, Some a, m, mgr', snd (tm t w m))
       else pm_reg mgr' = pm_reg mgr
         \<and> pmboxmgr_transport_call 32 tm mgr t w msg = (fst (tm t w m), None, m, mgr', snd (tm t w m)))"
proof -
  obtain mbox :: "('b, 'w, 'n) etch_plainmailbox" where mb: "new_mailbox n ETCH_INFWAIT 0 1 = Some mbox"
    using new_mailbox_one_slot [OF n(1)] unfolding n_def by blast
  note nb = new_box [OF inv n(1) mb [unfolded n_def]]
  let ?m = "mgr\<lparr>pm_message_id := n, pm_boxes := pm_boxes mgr @ [mbox]\<rparr>"
  have inv': "pm_inv ?m" using nb(1) by (simp add: n_def)
  have box: "pm_box ?m a = mbox" by (simp add: pm_box_def a_def)
  have id: "mb_message_id (pm_box ?m a) = n" using box nb(6) by (simp add: n_def)
  have reg: "pm_reg ?m = pm_reg mgr" by (simp add: pm_reg_def)
  obtain tb where tb: "table_ok (0x29, 6) tb" "pmboxmgr_register_mailbox 32 ?m a = (0, ?m\<lparr>pm_mailboxes := tb\<rparr>)"
      "table_map tb = (pm_reg mgr)(msg_hash n \<mapsto> (msgid_key 32 n, a))"
    using register_spec [OF pm_invD(1) [OF inv'], of a] up n(2,3) unfolding id reg by (auto simp: n_def Let_def)
  let ?m2 = "?m\<lparr>pm_mailboxes := tb\<rparr>"
  have reg2: "pm_reg ?m2 = (pm_reg mgr)(msg_hash n \<mapsto> (msgid_key 32 n, a))" using tb(3) by (simp add: pm_reg_def)
  have inv2: "pm_inv ?m2"
  proof -
    have "x = msg_hash n \<and> k = msgid_key 32 n \<and> a' = a \<or> pm_reg ?m x = Some (k, a')"
      if "pm_reg ?m2 x = Some (k, a')" for x k a'
      using that reg reg2 by (auto split: if_splits)
    then have "a' < length (pm_boxes ?m2) \<and> k = msgid_key 32 (mb_message_id (pm_box ?m2 a')) \<and> x = ko_hashkey k
        \<and> \<not> etchmbox_is_closed (pm_box ?m2 a')" if "pm_reg ?m2 x = Some (k, a')" for x k a'
      using pm_invD(4) [OF inv', of x k a'] that id box nb(4) by (fastforce simp: a_def)
    moreover have "\<forall>b \<in> set (pm_boxes ?m2). one_slot b \<and> mb_max_message_delay b = ETCH_INFWAIT"
      using inv' by (simp add: pm_inv_def)
    ultimately show ?thesis using tb(1) up pm_invD(2) [OF inv] by (simp add: pm_inv_def)
  qed
  have call: "pmboxmgr_transport_call 32 tm mgr t w msg =
    (if fst (tm t w m) = 0 then (0, Some a, m, ?m2, snd (tm t w m))
     else (fst (tm t w m), None, m, snd (pmboxmgr_unregister 32 ?m2 a), snd (tm t w m)))"
    using msg mb tb(2) pm_invD(2) [OF inv]
    by (simp add: pmboxmgr_transport_call_def generate_message_id_def n_def [symmetric] m_def Let_def
        split_beta a_def)
  show ?thesis
  proof (cases "fst (tm t w m) = 0")
    case True
    then show ?thesis using call inv2 reg2 id box nb up
      by (intro exI [of _ ?m2]) (simp add: pm_box_def nth_append a_def)
  next
    case False
    obtain r t2 where u: "pmboxmgr_unregister 32 ?m2 a = (r, ?m2\<lparr>pm_mailboxes := t2\<rparr>)" "table_ok (0x29, 6) t2"
      "table_map t2 = (pm_reg ?m2)(msg_hash n := None)"
      using unregister_spec [OF pm_invD(1) [OF inv2], of a] id by auto
    have "pm_inv (?m2\<lparr>pm_mailboxes := t2\<rparr>)"
      by (rule pm_inv_table [OF inv2 u(2)]) (simp add: u(3) split: if_splits)
    moreover have "table_map t2 = pm_reg mgr" unfolding u(3) reg2 using n(3) by (auto simp: n_def fun_eq_iff)
    then have "pm_reg (?m2\<lparr>pm_mailboxes := t2\<rparr>) = pm_reg mgr" by (simp add: pm_reg_def)
    ultimately show ?thesis using False call id box nb up u(1)
      by (intro exI [of _ "?m2\<lparr>pm_mailboxes := t2\<rparr>"]) (simp add: pm_box_def nth_append a_def)
  qed
qed

text \<open>A call whose new id has the hash of a registered mailbox removes that registration.\<close>

lemma call_collision:
  fixes mgr :: "('b, 'w, 'n) pmboxmgr"
  assumes inv: "pm_inv mgr" and up: "pm_is_connection_up mgr"
    and msg: "msg_id msg = None" "msg_in_reply_to msg = None"
    and n: "pm_message_id mgr + 1 \<noteq> 0" "pm_reg mgr (msg_hash (pm_message_id mgr + 1)) \<noteq> None"
  shows "\<exists>mgr' m. pmboxmgr_transport_call 32 tm mgr t w msg = (- 1, None, m, mgr', t) \<and> pm_inv mgr'
    \<and> pm_reg mgr' = (pm_reg mgr)(msg_hash (pm_message_id mgr + 1) := None) \<and> pm_le mgr mgr'"
proof -
  let ?n = "pm_message_id mgr + 1" and ?a = "length (pm_boxes mgr)"
  let ?msg = "msg\<lparr>msg_id := Some ?n\<rparr>"
  obtain mbox :: "('b, 'w, 'n) etch_plainmailbox" where mb: "new_mailbox ?n ETCH_INFWAIT 0 1 = Some mbox"
    using new_mailbox_one_slot [OF n(1)] by blast
  note nb = new_box [OF inv n(1) mb]
  let ?m = "mgr\<lparr>pm_message_id := ?n, pm_boxes := pm_boxes mgr @ [mbox]\<rparr>"
  have id: "mb_message_id (pm_box ?m ?a) = ?n" using nb(6) by (simp add: pm_box_def)
  have reg: "pm_reg ?m = pm_reg mgr" by (simp add: pm_reg_def)
  obtain tb where tb: "table_ok (0x29, 6) tb" "pmboxmgr_register_mailbox 32 ?m ?a = (- 1, ?m\<lparr>pm_mailboxes := tb\<rparr>)"
      "table_map tb = pm_reg mgr"
    using register_spec [OF pm_invD(1) [OF nb(1)], of ?a] up n(2) unfolding id reg by (auto simp: Let_def)
  let ?m2 = "?m\<lparr>pm_mailboxes := tb\<rparr>"
  have inv2: "pm_inv ?m2" by (rule pm_inv_table [OF nb(1) tb(1)]) (simp add: tb(3) reg)
  obtain r t2 where u: "pmboxmgr_unregister 32 ?m2 ?a = (r, ?m2\<lparr>pm_mailboxes := t2\<rparr>)" "table_ok (0x29, 6) t2"
    "table_map t2 = (pm_reg ?m2)(msg_hash ?n := None)"
    using unregister_spec [OF pm_invD(1) [OF inv2], of ?a] id by auto
  have inv3: "pm_inv (?m2\<lparr>pm_mailboxes := t2\<rparr>)"
    by (rule pm_inv_table [OF inv2 u(2)]) (simp add: u(3) split: if_splits)
  have reg3: "pm_reg (?m2\<lparr>pm_mailboxes := t2\<rparr>) = (pm_reg mgr)(msg_hash ?n := None)"
    using u(3) tb(3) by (simp add: pm_reg_def)
  have call: "pmboxmgr_transport_call 32 tm mgr t w msg = (- 1, None, ?msg, ?m2\<lparr>pm_mailboxes := t2\<rparr>, t)"
    using msg mb tb(2) pm_invD(2) [OF inv] u(1)
    by (simp add: pmboxmgr_transport_call_def generate_message_id_def Let_def split_beta)
  show ?thesis by (intro exI conjI) (rule call, rule inv3, rule reg3, rule pm_le_append [of _ _ mbox], simp)
qed

section \<open>A reply\<close>

lemma set_box:
  assumes inv: "pm_inv mgr" and a: "a < length (pm_boxes mgr)"
    and b: "one_slot b" "mb_max_message_delay b = ETCH_INFWAIT" "mb_message_id b = mb_message_id (pm_box mgr a)"
      "\<not> etchmbox_is_closed (pm_box mgr a) \<Longrightarrow> \<not> etchmbox_is_closed b"
  shows "pm_inv (pm_update a (\<lambda>_. b) mgr)"
proof (rule pm_inv_change [OF inv])
  show "one_slot (pm_box (pm_update a (\<lambda>_. b) mgr) i) \<and> mb_max_message_delay (pm_box (pm_update a (\<lambda>_. b) mgr) i) = ETCH_INFWAIT"
    if "i < length (pm_boxes (pm_update a (\<lambda>_. b) mgr))" for i
    using that b pm_invD(3) [OF inv, of i] by (simp add: pm_box_update)
  show "pm_reg mgr x = Some (k, a') \<and> a' < length (pm_boxes (pm_update a (\<lambda>_. b) mgr))
      \<and> mb_message_id (pm_box (pm_update a (\<lambda>_. b) mgr) a') = mb_message_id (pm_box mgr a')
      \<and> \<not> etchmbox_is_closed (pm_box (pm_update a (\<lambda>_. b) mgr) a')"
    if "pm_reg (pm_update a (\<lambda>_. b) mgr) x = Some (k, a')" for x k a'
    using that b(3,4) pm_invD(4) [OF inv, of x k a'] by (auto simp: pm_box_update)
qed (use pm_invD(1) [OF inv] in simp_all)

lemma session_message_spec:
  assumes inv: "pm_inv mgr" and r: "msg_in_reply_to msg = Some v"
  shows "case pm_reg mgr (msg_hash v) of
      None \<Rightarrow> \<exists>mgr'. pmboxmgr_session_message 32 cw sm mgr s w (Some msg) = Returns (- 1, mgr', s) \<and> pm_inv mgr'
        \<and> pm_reg mgr' = pm_reg mgr \<and> pm_boxes mgr' = pm_boxes mgr
    | Some (k, a) \<Rightarrow>
        (case mbox_list (pm_box mgr a) of
           [] \<Rightarrow> \<exists>mgr'. pmboxmgr_session_message 32 cw sm mgr s w (Some msg) = Returns (0, mgr', s) \<and> pm_inv mgr'
             \<and> pm_reg mgr' = pm_reg mgr \<and> length (pm_boxes mgr') = length (pm_boxes mgr)
             \<and> mbox_list (pm_box mgr' a) = [\<lparr>me_msg = msg, me_whofrom = w\<rparr>]
             \<and> (\<forall>i. i \<noteq> a \<longrightarrow> pm_box mgr' i = pm_box mgr i) \<and> pm_le mgr mgr'
         | e # es \<Rightarrow>
             if msg_addr (me_msg e) = msg_addr msg
             then \<exists>mgr'. pmboxmgr_session_message 32 cw sm mgr s w (Some msg) = Returns (- 1, mgr', s) \<and> pm_inv mgr'
               \<and> pm_reg mgr' = pm_reg mgr \<and> pm_boxes mgr' = pm_boxes mgr
             else pmboxmgr_session_message 32 cw sm mgr s w (Some msg) = Fault)"
proof -
  obtain tb where g: "pmboxmgr_get_mailbox 32 mgr v = (map_option snd (pm_reg mgr (msg_hash v)), mgr\<lparr>pm_mailboxes := tb\<rparr>)"
    and tb: "table_ok (0x29, 6) tb" "table_map tb = pm_reg mgr"
    using get_mailbox_spec [OF pm_invD(1) [OF inv], of v] by blast
  let ?m = "mgr\<lparr>pm_mailboxes := tb\<rparr>"
  have inv': "pm_inv ?m" by (rule pm_inv_table [OF inv tb(1)]) (simp add: tb(2))
  have reg: "pm_reg ?m = pm_reg mgr" using tb(2) by (simp add: pm_reg_def)
  show ?thesis
  proof (cases "pm_reg mgr (msg_hash v)")
    case None
    then show ?thesis using inv' reg r g by (simp add: pmboxmgr_session_message_def)
  next
    case (Some e)
    obtain k a where e: "e = (k, a)" by (cases e)
    have a: "a < length (pm_boxes ?m)" "\<not> etchmbox_is_closed (pm_box ?m a)"
      using pm_invD(4) [OF inv, of "msg_hash v" k a] Some e by simp_all
    then have b: "one_slot (pm_box ?m a)" "mb_max_message_delay (pm_box ?m a) = ETCH_INFWAIT"
      using pm_invD(3) [OF inv'] by blast+
    have sm: "pmboxmgr_session_message 32 cw sm mgr s w (Some msg) =
      (case etchmbox_message cw (pm_box ?m a) w msg of
         Returns (result, thisx) \<Rightarrow> Returns (if result \<noteq> 0 then - 1 else 0, pm_update a (\<lambda>_. thisx) ?m, s)
       | Fault \<Rightarrow> Fault | Diverges \<Rightarrow> Diverges)"
      using r g Some e a(2) by (simp add: pmboxmgr_session_message_def)
    from one_slot_data(3) [OF b(1)] consider (empty) "mbox_list (pm_box ?m a) = []"
      | (full) x where "mbox_list (pm_box ?m a) = [x]" by blast
    then show ?thesis
    proof cases
      case empty
      obtain b' where b': "etchmbox_message cw (pm_box ?m a) w msg = Returns (0, b')" "one_slot b'"
        "mbox_list b' = [\<lparr>me_msg = msg, me_whofrom = w\<rparr>]" "\<not> etchmbox_is_closed b'"
        "mb_message_id b' = mb_message_id (pm_box ?m a)" "mb_max_message_delay b' = ETCH_INFWAIT"
        "mb_state b' = mb_state (pm_box ?m a)"
        using message_empty [OF b(1) empty a(2) b(2)] by blast
      have "pm_inv (pm_update a (\<lambda>_. b') ?m)" by (rule set_box [OF inv' a(1) b'(2,6,5,4)])
      moreover have "pm_le mgr (pm_update a (\<lambda>_. b') ?m)" using b'(7) by (simp add: pm_le_def pm_box_update)
      ultimately show ?thesis using Some e empty b' sm reg a by (simp add: pm_box_update)
    next
      case (full x)
      have same: "pm_update a (\<lambda>_. pm_box ?m a) ?m = ?m" by (simp add: pm_update_def pm_box_def)
      show ?thesis
      proof (cases "msg_addr (me_msg x) = msg_addr msg")
        case True
        then have "pmboxmgr_session_message 32 cw sm mgr s w (Some msg) = Returns (- 1, ?m, s)"
          unfolding sm message_full [OF b(1) full] using same by (simp add: ETCH_MAILBOX_DUPLICATE_def)
        then show ?thesis using Some e full True inv' reg by simp
      next
        case False
        then have "pmboxmgr_session_message 32 cw sm mgr s w (Some msg) = Fault"
          unfolding sm message_full [OF b(1) full] by simp
        then show ?thesis using Some e full False by simp
      qed
    qed
  qed
qed

section \<open>The end of a call\<close>

lemma close_read_empty:
  assumes inv: "pm_inv mgr" and a: "a < length (pm_boxes mgr)" and e: "mbox_list (pm_box mgr a) = []"
    and c: "\<not> etchmbox_is_closed (pm_box mgr a)"
  shows "\<exists>mgr'. etchmbox_close_read (Suc fuel) 32 d mgr a = Returns (0, [], mgr')
    \<and> pm_reg mgr' = (pm_reg mgr)(msg_hash (mb_message_id (pm_box mgr a)) := None)
    \<and> mb_state (pm_box mgr' a) = ETCH_MAILBOX_STATE_CLOSED_READ \<and> etchmbox_is_closed (pm_box mgr' a)
    \<and> (\<forall>i. i \<noteq> a \<longrightarrow> pm_box mgr' i = pm_box mgr i) \<and> pm_inv mgr'"
proof -
  let ?m = "snd (etchmbox_close_delivery 32 mgr a)"
  let ?f = "\<lambda>b. if mb_state b < ETCH_MAILBOX_STATE_CLOSED_READ then b\<lparr>mb_state := ETCH_MAILBOX_STATE_CLOSED_READ\<rparr> else b"
  note cd = close_delivery_spec [OF inv a]
  have m: "fst (etchmbox_close_delivery 32 mgr a) = 0" "pm_inv ?m" "length (pm_boxes ?m) = length (pm_boxes mgr)"
    "pm_reg ?m = (pm_reg mgr)(msg_hash (mb_message_id (pm_box mgr a)) := None)"
    "\<forall>i. i \<noteq> a \<longrightarrow> pm_box ?m i = pm_box mgr i"
    "etchmbox_is_closed (pm_box ?m a)" "mb_state (pm_box ?m a) = ETCH_MAILBOX_STATE_CLOSED_DELIVERY"
    "mbox_list (pm_box ?m a) = []" using cd c e by simp_all
  let ?b = "?f (pm_box ?m a)"
  have st: "mb_state ?b = ETCH_MAILBOX_STATE_CLOSED_READ" using m(7) by (simp add: mbox_defs)
  have b: "one_slot (pm_box ?m a)" "mb_max_message_delay (pm_box ?m a) = ETCH_INFWAIT"
    using pm_invD(3) [OF m(2)] a m(3) by simp_all
  then have b': "one_slot ?b" "etchmbox_is_closed ?b" "mbox_list ?b = []"
    "mb_max_message_delay ?b = ETCH_INFWAIT" "mb_message_id ?b = mb_message_id (pm_box ?m a)"
    using m(6,7,8) by (simp_all add: one_slot_def mbox_ok_def mbox_defs mbox_list_def)
  let ?n = "pm_update a ?f ?m"
  have n: "?n = pm_update a (\<lambda>_. ?b) ?m" by (simp add: pm_update_def pm_box_def)
  have inv_n: "pm_inv ?n" unfolding n
    by (rule set_box [OF m(2)]) (use a m(3,6) b' in simp_all)
  have box_n: "pm_box ?n a = ?b" using a m(3) by (simp add: pm_box_update)
  have rd: "etchmbox_read_withwait (\<lambda>_ q. (APR_EINTR, q)) (pm_box ?n a) ETCHQUEUE_CLEARING_CLOSED_QUEUE
      = Some (ETCH_QUEUE_EOF, Out_null, pm_box ?n a)"
    unfolding box_n by (rule read_clearing(1)) (use b' in \<open>simp_all add: one_slot_def\<close>)
  have same: "pm_update a (\<lambda>_. pm_box ?n a) ?n = ?n" by (simp add: pm_update_def pm_box_def)
  have loop: "close_read_loop (Suc fuel) 32 d ?n a [] = Returns ([], ?n)"
    using rd same by (simp add: ETCH_QUEUE_EOF_def)
  have "etchmbox_close_read (Suc fuel) 32 d mgr a = Returns (0, [], ?n)"
    unfolding etchmbox_close_read_def using m(1) loop by (simp add: split_beta Let_def del: close_read_loop.simps)
  moreover have "pm_reg ?n = (pm_reg mgr)(msg_hash (mb_message_id (pm_box mgr a)) := None)" using m(4) by simp
  ultimately show ?thesis using inv_n st b' m(5) box_n
    by (intro exI [of _ ?n]) (simp add: pm_box_update)
qed

section \<open>The end of the session\<close>

lemma copy_iterates:
  assumes "htab_inv t" and "length (iterate_entries n t it) < n"
  shows "\<exists>t'. copy_mailboxes n t it = Returns (map snd (iterate_entries n t it), t') \<and> htab_inv t' \<and> ht_items t' = ht_items t"
  using assms
proof (induction n arbitrary: t it)
  case (Suc n)
  show ?case
  proof (cases "hashtable_iterable_has_next it")
    case False
    then show ?thesis using Suc.prems(1) by (auto split: option.splits)
  next
    case True
    then obtain e where e: "hit_current it = Some e" "hit_ordinal it \<noteq> 0"
      by (auto simp: hashtable_iterable_has_next_def)
    let ?r = "hashtable_iterable_next t it"
    let ?it = "fst (snd ?r)" and ?t = "snd (snd ?r)"
    have t: "?t = snd (hnext t)" using e(2) by (simp add: hashtable_iterable_next_def jenkins_next_def split_beta)
    then have inv: "htab_inv ?t" "ht_items ?t = ht_items t" using hnext_inv [OF Suc.prems(1)] by simp_all
    have it: "iterate_entries (Suc n) t it = e # iterate_entries n ?t ?it"
      using True e by (simp add: split_beta)
    then have "length (iterate_entries n ?t ?it) < n" using Suc.prems(2) by simp
    from Suc.IH [OF inv(1) this] obtain t' where
      c: "copy_mailboxes n ?t ?it = Returns (map snd (iterate_entries n ?t ?it), t')" "htab_inv t'" "ht_items t' = ht_items ?t"
      by blast
    then have "copy_mailboxes (Suc n) t it = Returns (snd e # map snd (iterate_entries n ?t ?it), t')"
      using True e by (simp add: split_beta)
    then show ?thesis using it c inv by simp
  qed
qed simp

text \<open>Closing a list of mailboxes unregisters each of them.\<close>

lemma close_list:
  assumes "pm_inv mgr" and "\<forall>a \<in> set as. a < length (pm_boxes mgr)"
    and "\<forall>x k a. pm_reg mgr x = Some (k, a) \<longrightarrow> a \<in> set as"
  shows "let mgr' = fold (\<lambda>a mgr. snd (etchmbox_close_delivery 32 mgr a)) as mgr in
    pm_inv mgr' \<and> pm_reg mgr' = Map.empty \<and> length (pm_boxes mgr') = length (pm_boxes mgr)
    \<and> pm_is_connection_up mgr' = pm_is_connection_up mgr
    \<and> (\<forall>i. etchmbox_is_closed (pm_box mgr' i) = (i \<in> set as \<or> etchmbox_is_closed (pm_box mgr i)))
    \<and> pm_le mgr mgr' \<and> (\<forall>i. mbox_list (pm_box mgr' i) = mbox_list (pm_box mgr i))"
  using assms
proof (induction as arbitrary: mgr)
  case Nil
  have "pm_reg mgr x = None" for x using Nil.prems(3) by (cases "pm_reg mgr x") auto
  with Nil show ?case by (simp add: Let_def fun_eq_iff)
next
  case (Cons a as)
  let ?m = "snd (etchmbox_close_delivery 32 mgr a)"
  have a: "a < length (pm_boxes mgr)" using Cons.prems(2) by simp
  note cd = close_delivery_spec [OF Cons.prems(1) a]
  have m: "pm_inv ?m" "length (pm_boxes ?m) = length (pm_boxes mgr)" "pm_is_connection_up ?m = pm_is_connection_up mgr"
    "\<And>i. etchmbox_is_closed (pm_box ?m i) = (i = a \<or> etchmbox_is_closed (pm_box mgr i))"
    "\<And>x k b. pm_reg ?m x = Some (k, b) \<Longrightarrow> pm_reg mgr x = Some (k, b) \<and> b \<noteq> a"
  proof -
    show "pm_inv ?m" "length (pm_boxes ?m) = length (pm_boxes mgr)" "pm_is_connection_up ?m = pm_is_connection_up mgr"
      using cd Cons.prems(1) by (auto split: if_splits)
    show "etchmbox_is_closed (pm_box ?m i) = (i = a \<or> etchmbox_is_closed (pm_box mgr i))" for i
      using cd by (cases "i = a") (auto split: if_splits)
    show "pm_reg mgr x = Some (k, b) \<and> b \<noteq> a" if r: "pm_reg ?m x = Some (k, b)" for x k b
    proof (cases "etchmbox_is_closed (pm_box mgr a)")
      case True
      then have "pm_reg mgr x = Some (k, b)" using cd r by simp
      with True show ?thesis using pm_invD(4) [OF Cons.prems(1)] by auto
    next
      case False
      then have "pm_reg mgr x = Some (k, b)" "x \<noteq> msg_hash (mb_message_id (pm_box mgr a))"
        using cd r by (auto split: if_splits)
      then show ?thesis using pm_invD(4) [OF Cons.prems(1)] by auto
    qed
  qed
  have "\<forall>a \<in> set as. a < length (pm_boxes ?m)" using Cons.prems(2) m(2) by simp
  moreover have "\<forall>x k b. pm_reg ?m x = Some (k, b) \<longrightarrow> b \<in> set as"
    using m(5) Cons.prems(3) by fastforce
  moreover have "pm_le mgr ?m" by (rule close_delivery_le [OF Cons.prems(1) a])
  moreover have "mbox_list (pm_box ?m i) = mbox_list (pm_box mgr i)" for i
    using cd by (cases "i = a") (auto split: if_splits)
  ultimately show ?case using Cons.IH [OF m(1)] m(2,3,4) by (auto simp: Let_def intro: pm_le_trans)
qed

text \<open>The registered mailboxes are the values of the table.\<close>

lemma registered_items:
  assumes inv: "pm_inv mgr"
  shows "(\<exists>x k. pm_reg mgr x = Some (k, a)) \<longleftrightarrow> a \<in> set (map hi_stuff (ht_items (pm_mailboxes mgr)))"
proof -
  let ?t = "pm_mailboxes mgr"
  have tok: "table_ok (0x29, 6) ?t" and b: "ht_buckets_ok ?t"
    using pm_invD(1) [OF inv] by (simp_all add: table_ok_def htab_inv_def)
  show ?thesis
  proof
    assume "\<exists>x k. pm_reg mgr x = Some (k, a)"
    then obtain x k where "pm_reg mgr x = Some (k, a)" by blast
    then have "ht_map ?t (unat x) = Some (k, a)" by (simp add: pm_reg_def table_map_def)
    then show "a \<in> set (map hi_stuff (ht_items ?t))" unfolding ht_map_Some [OF b] by auto
  next
    assume "a \<in> set (map hi_stuff (ht_items ?t))"
    then obtain h where h: "h \<in> set (ht_items ?t)" "a = hi_stuff h" by auto
    then have "hi_hval h = unat (ko_hashkey (hi_key h))" using tok by (simp add: table_ok_def)
    with h have "ht_map ?t (unat (ko_hashkey (hi_key h))) = Some (hi_key h, a)"
      unfolding ht_map_Some [OF b] by auto
    then show "\<exists>x k. pm_reg mgr x = Some (k, a)" by (auto simp: pm_reg_def table_map_def)
  qed
qed

lemma unregister_all_spec:
  assumes inv: "pm_inv mgr"
  shows "\<exists>mgr'. pmboxmgr_unregister_all 32 mgr = Returns mgr' \<and> pm_inv mgr' \<and> pm_reg mgr' = Map.empty
    \<and> length (pm_boxes mgr') = length (pm_boxes mgr) \<and> pm_is_connection_up mgr' = pm_is_connection_up mgr
    \<and> (\<forall>i. etchmbox_is_closed (pm_box mgr' i)
         = ((\<exists>x k. pm_reg mgr x = Some (k, i)) \<or> etchmbox_is_closed (pm_box mgr i)))
    \<and> pm_le mgr mgr' \<and> (\<forall>i. mbox_list (pm_box mgr' i) = mbox_list (pm_box mgr i))"
proof -
  let ?t = "pm_mailboxes mgr"
  have tok: "table_ok (0x29, 6) ?t" and t: "htab_inv ?t"
    using pm_invD(1) [OF inv] by (simp_all add: table_ok_def)
  have b: "ht_buckets_ok ?t" and c: "ht_count ?t = length (ht_items ?t)" using t by (simp_all add: htab_inv_def)
  note reg = registered_items [OF inv]
  show ?thesis
  proof (cases "ht_items ?t = []")
    case True
    then have "pm_reg mgr x = None" for x by (simp add: pm_reg_def table_map_def ht_map_def)
    with True c show ?thesis using inv
      by (simp add: pmboxmgr_unregister_all_def pmboxmgr_size_def jenkins_count_def fun_eq_iff)
  next
    case False
    obtain it t1 where s: "set_hash_iterator ?t = (it, t1)" by force
    have t1: "t1 = snd (hfirst ?t)"
      using s by (simp add: set_hash_iterator_def hashtable_iterable_first_def jenkins_first_def split_beta Let_def split: if_splits)
    have inv1: "htab_inv t1" "ht_items t1 = ht_items ?t" using hfirst_inv [OF t] t1 by simp_all
    let ?n = "Suc (pmboxmgr_size mgr)"
    have n: "pmboxmgr_size mgr = length (ht_items ?t)" using c by (simp add: pmboxmgr_size_def jenkins_count_def)
    have it: "iterate_entries ?n t1 it = map entry (ht_items ?t)"
      using hash_iteration [OF t, of ?n] n c s by simp
    then have "length (iterate_entries ?n t1 it) < ?n" using n by simp
    from copy_iterates [OF inv1(1) this] obtain t2 where
      cp: "copy_mailboxes ?n t1 it = Returns (map snd (map entry (ht_items ?t)), t2)" "htab_inv t2" "ht_items t2 = ht_items ?t"
      using it inv1(2) by auto
    let ?m = "mgr\<lparr>pm_mailboxes := t2\<rparr>" and ?as = "map hi_stuff (ht_items ?t)"
    have "map snd (map entry (ht_items ?t)) = ?as" by (simp add: entry_def comp_def)
    note cp' = cp(1) [unfolded this]
    have t2: "table_ok (0x29, 6) t2" "table_map t2 = pm_reg mgr"
      using table_ok_items [OF tok cp(2,3)] by (simp_all add: pm_reg_def)
    have inv2: "pm_inv ?m" by (rule pm_inv_table [OF inv t2(1)]) (simp add: t2(2))
    have reg2: "pm_reg ?m = pm_reg mgr" using t2(2) by (simp add: pm_reg_def)
    have as: "\<forall>a \<in> set ?as. a < length (pm_boxes ?m)"
      using reg pm_invD(4) [OF inv] by fastforce
    have "\<forall>x k a. pm_reg ?m x = Some (k, a) \<longrightarrow> a \<in> set ?as" unfolding reg2 using reg by blast
    note cl = close_list [OF inv2 as this]
    have "pmboxmgr_unregister_all 32 mgr
        = Returns (fold (\<lambda>a mgr. snd (etchmbox_close_delivery 32 mgr a)) ?as ?m)"
    proof -
      have "pmboxmgr_size mgr \<noteq> 0" using False n by simp
      then show ?thesis unfolding pmboxmgr_unregister_all_def using s cp' by (simp del: copy_mailboxes.simps)
    qed
    moreover have "pm_le mgr ?m" by simp
    ultimately show ?thesis using cl reg pm_le_trans [of mgr ?m] by (simp add: Let_def)
  qed
qed

text \<open>Closing does not look at the state of the connection.\<close>

lemma unregister_up:
  "pmboxmgr_unregister n (mgr\<lparr>pm_is_connection_up := u\<rparr>) a
     = (fst (pmboxmgr_unregister n mgr a), (snd (pmboxmgr_unregister n mgr a))\<lparr>pm_is_connection_up := u\<rparr>)"
  by (simp add: pmboxmgr_unregister_def pm_box_def split_beta Let_def)

lemma update_up: "pm_update a f (mgr\<lparr>pm_is_connection_up := u\<rparr>) = (pm_update a f mgr)\<lparr>pm_is_connection_up := u\<rparr>"
  by (simp add: pm_update_def)

lemma box_up [simp]: "pm_box (mgr\<lparr>pm_is_connection_up := u\<rparr>) a = pm_box mgr a"
  by (simp add: pm_box_def)

lemma close_delivery_up:
  "snd (etchmbox_close_delivery n (mgr\<lparr>pm_is_connection_up := u\<rparr>) a)
     = (snd (etchmbox_close_delivery n mgr a))\<lparr>pm_is_connection_up := u\<rparr>"
  by (simp add: etchmbox_close_delivery_def Let_def update_up unregister_up)

lemma close_list_up:
  "fold (\<lambda>a mgr. snd (etchmbox_close_delivery n mgr a)) as (mgr\<lparr>pm_is_connection_up := u\<rparr>)
     = (fold (\<lambda>a mgr. snd (etchmbox_close_delivery n mgr a)) as mgr)\<lparr>pm_is_connection_up := u\<rparr>"
  by (induction as arbitrary: mgr) (simp_all add: close_delivery_up)

lemma unregister_all_up:
  assumes "pmboxmgr_unregister_all n mgr = Returns mgr'"
  shows "pmboxmgr_unregister_all n (mgr\<lparr>pm_is_connection_up := u\<rparr>) = Returns (mgr'\<lparr>pm_is_connection_up := u\<rparr>)"
proof -
  have t: "(mgr\<lparr>pm_is_connection_up := u\<rparr>)\<lparr>pm_mailboxes := t\<rparr> = (mgr\<lparr>pm_mailboxes := t\<rparr>)\<lparr>pm_is_connection_up := u\<rparr>" for t
    by simp
  show ?thesis using assms
    by (auto simp: pmboxmgr_unregister_all_def pmboxmgr_size_def t close_list_up
        simp del: copy_mailboxes.simps split: if_splits outcome.splits prod.splits)
qed

lemma session_down:
  assumes inv: "pm_inv mgr"
  shows "\<exists>mgr'. pmboxmgr_unregister_all 32 (mgr\<lparr>pm_is_connection_up := False\<rparr>) = Returns mgr' \<and> pm_inv mgr'
    \<and> pm_reg mgr' = Map.empty \<and> length (pm_boxes mgr') = length (pm_boxes mgr) \<and> \<not> pm_is_connection_up mgr'
    \<and> (\<forall>i. etchmbox_is_closed (pm_box mgr' i)
         = ((\<exists>x k. pm_reg mgr x = Some (k, i)) \<or> etchmbox_is_closed (pm_box mgr i)))
    \<and> pm_le mgr mgr' \<and> (\<forall>i. mbox_list (pm_box mgr' i) = mbox_list (pm_box mgr i))"
proof -
  obtain m where m: "pmboxmgr_unregister_all 32 mgr = Returns m" "pm_inv m" "pm_reg m = Map.empty"
    "length (pm_boxes m) = length (pm_boxes mgr)"
    "\<forall>i. etchmbox_is_closed (pm_box m i) = ((\<exists>x k. pm_reg mgr x = Some (k, i)) \<or> etchmbox_is_closed (pm_box mgr i))" "pm_le mgr m"
    "\<forall>i. mbox_list (pm_box m i) = mbox_list (pm_box mgr i)"
    using unregister_all_spec [OF inv] by blast
  have r: "pm_reg (m\<lparr>pm_is_connection_up := False\<rparr>) = Map.empty" using m(3) by (simp add: pm_reg_def)
  then have "pm_inv (m\<lparr>pm_is_connection_up := False\<rparr>)" using m(2) by (simp add: pm_inv_def)
  with r m show ?thesis
    by (intro exI [of _ "m\<lparr>pm_is_connection_up := False\<rparr>"]) (simp add: unregister_all_up [OF m(1)] pm_le_def)
qed

section \<open>Every operation keeps the invariant\<close>

lemma call_inv:
  fixes mgr :: "('b, 'w, 'n) pmboxmgr"
  assumes inv: "pm_inv mgr" and c: "pmboxmgr_transport_call 32 tm mgr t w msg = (r, out, m, mgr', t')"
  shows "pm_inv mgr' \<and> pm_le mgr mgr'"
proof -
  let ?n = "pm_message_id mgr + 1"
  have id_only: "pm_inv (mgr\<lparr>pm_message_id := ?n\<rparr>)"
    using inv by (simp add: pm_inv_def pm_reg_def pm_box_def)
  consider (sent) "msg_id msg \<noteq> None \<or> msg_in_reply_to msg \<noteq> None"
    | (zero) "msg_id msg = None" "msg_in_reply_to msg = None" "?n = 0"
    | (down) "msg_id msg = None" "msg_in_reply_to msg = None" "?n \<noteq> 0" "\<not> pm_is_connection_up mgr"
    | (bound) "msg_id msg = None" "msg_in_reply_to msg = None" "?n \<noteq> 0" "pm_is_connection_up mgr"
        "pm_reg mgr (msg_hash ?n) \<noteq> None"
    | (nohash) "msg_id msg = None" "msg_in_reply_to msg = None" "?n \<noteq> 0" "pm_is_connection_up mgr"
        "pm_reg mgr (msg_hash ?n) = None" "msg_hash ?n = 0"
    | (fresh) "msg_id msg = None" "msg_in_reply_to msg = None" "?n \<noteq> 0" "pm_is_connection_up mgr"
        "pm_reg mgr (msg_hash ?n) = None" "msg_hash ?n \<noteq> 0" by blast
  then show ?thesis
  proof cases
    case sent
    then show ?thesis using c inv by (auto simp: pmboxmgr_transport_call_def split: if_splits)
  next
    case zero
    then show ?thesis using c id_only
      by (auto simp: pmboxmgr_transport_call_def generate_message_id_def new_mailbox_def)
  next
    case bound
    then show ?thesis using c call_collision [OF inv bound(4,1,2,3,5), of tm t w] by auto
  next
    case fresh
    then show ?thesis using c call_spec [OF inv fresh(4,1,2,3,6,5), of tm t w] by (auto simp: pm_le_def split: if_splits)
  next
    case down
    obtain mbox :: "('b, 'w, 'n) etch_plainmailbox" where mb: "new_mailbox ?n ETCH_INFWAIT 0 1 = Some mbox"
      using new_mailbox_one_slot [OF down(3)] by blast
    let ?m = "mgr\<lparr>pm_message_id := ?n, pm_boxes := pm_boxes mgr @ [mbox]\<rparr>" and ?a = "length (pm_boxes mgr)"
    note nb = new_box [OF inv down(3) mb]
    obtain r' t2 where u: "pmboxmgr_unregister 32 ?m ?a = (r', ?m\<lparr>pm_mailboxes := t2\<rparr>)" "table_ok (0x29, 6) t2"
      "table_map t2 = (pm_reg ?m)(msg_hash (mb_message_id (pm_box ?m ?a)) := None)"
      using unregister_spec [OF pm_invD(1) [OF nb(1)], of ?a] by auto
    have "pm_inv (?m\<lparr>pm_mailboxes := t2\<rparr>)"
      by (rule pm_inv_table [OF nb(1) u(2)]) (simp add: u(3) split: if_splits)
    moreover have "pm_le mgr (?m\<lparr>pm_mailboxes := t2\<rparr>)" by (rule pm_le_append [of _ _ mbox]) simp
    ultimately show ?thesis using c down mb u(1) pm_invD(2) [OF inv]
      by (auto simp: pmboxmgr_transport_call_def generate_message_id_def pmboxmgr_register_mailbox_def Let_def)
  next
    case nohash
    obtain mbox :: "('b, 'w, 'n) etch_plainmailbox" where mb: "new_mailbox ?n ETCH_INFWAIT 0 1 = Some mbox"
      using new_mailbox_one_slot [OF nohash(3)] by blast
    let ?m = "mgr\<lparr>pm_message_id := ?n, pm_boxes := pm_boxes mgr @ [mbox]\<rparr>" and ?a = "length (pm_boxes mgr)"
    note nb = new_box [OF inv nohash(3) mb]
    have id: "mb_message_id (pm_box ?m ?a) = ?n" using nb(6) by (simp add: pm_box_def)
    obtain tb where tb: "table_ok (0x29, 6) tb" "pmboxmgr_register_mailbox 32 ?m ?a = (- 1, ?m\<lparr>pm_mailboxes := tb\<rparr>)"
      "table_map tb = pm_reg ?m"
      using register_spec [OF pm_invD(1) [OF nb(1)], of ?a] nohash unfolding id by (auto simp: Let_def)
    let ?m2 = "?m\<lparr>pm_mailboxes := tb\<rparr>"
    have inv2: "pm_inv ?m2" by (rule pm_inv_table [OF nb(1) tb(1)]) (simp add: tb(3))
    obtain r' t2 where u: "pmboxmgr_unregister 32 ?m2 ?a = (r', ?m2\<lparr>pm_mailboxes := t2\<rparr>)" "table_ok (0x29, 6) t2"
      "table_map t2 = (pm_reg ?m2)(msg_hash (mb_message_id (pm_box ?m2 ?a)) := None)"
      using unregister_spec [OF pm_invD(1) [OF inv2], of ?a] by auto
    have "pm_inv (?m2\<lparr>pm_mailboxes := t2\<rparr>)"
      by (rule pm_inv_table [OF inv2 u(2)]) (simp add: u(3) split: if_splits)
    moreover have "pm_le mgr (?m2\<lparr>pm_mailboxes := t2\<rparr>)" by (rule pm_le_append [of _ _ mbox]) simp
    ultimately show ?thesis using c nohash mb tb(2) u(1) pm_invD(2) [OF inv]
      by (auto simp: pmboxmgr_transport_call_def generate_message_id_def Let_def split_beta)
  qed
qed

lemma session_message_inv:
  assumes inv: "pm_inv mgr" and r: "pmboxmgr_session_message 32 cw sm mgr s w msg = Returns (r, mgr', s')"
  shows "pm_inv mgr' \<and> pm_le mgr mgr'"
proof (cases msg)
  case None
  then show ?thesis using r inv by (auto simp: pmboxmgr_session_message_def)
next
  case (Some m)
  show ?thesis
  proof (cases "msg_in_reply_to m")
    case None
    then show ?thesis using Some r inv by (auto simp: pmboxmgr_session_message_def split_beta Let_def)
  next
    case (Some v)
    note spec = session_message_spec [OF inv Some, of cw sm s w] and r' = r [unfolded \<open>msg = Some m\<close>]
    show ?thesis
    proof (cases "pm_reg mgr (msg_hash v)")
      case None
      then show ?thesis using spec r' by auto
    next
      case (Some e)
      obtain k a where "e = (k, a)" by (cases e)
      then show ?thesis using spec r' Some by (cases "mbox_list (pm_box mgr a)") (auto split: if_splits)
    qed
  qed
qed

lemma close_delivery_inv:
  assumes "pm_inv mgr" and "a < length (pm_boxes mgr)"
  shows "pm_inv (snd (etchmbox_close_delivery 32 mgr a))"
    and "length (pm_boxes (snd (etchmbox_close_delivery 32 mgr a))) = length (pm_boxes mgr)"
  using close_delivery_spec [OF assms] assms(1) by (auto split: if_splits)

lemma current_registered:
  assumes inv: "pm_inv mgr" and t: "htab_inv t" "ht_items t = ht_items (pm_mailboxes mgr)"
    and c: "hcurrent t = Some (k, a)"
  shows "a < length (pm_boxes mgr)"
proof -
  obtain j where j: "ht_ipos t = Some j" "k = hi_key (ht_table t ! ht_apos t ! j)" "a = hi_stuff (ht_table t ! ht_apos t ! j)"
    using c by (auto simp: hcurrent_def hitem_at_def)
  let ?h = "ht_table t ! ht_apos t ! j"
  have "ht_apos t < length (ht_table t)" "j < length (ht_table t ! ht_apos t)"
    using t(1) j(1) by (auto simp: htab_inv_def ht_pos_ok_def)
  then have "?h \<in> set (ht_items t)" using in_items [of ?h t] nth_mem by blast
  then have h: "?h \<in> set (ht_items (pm_mailboxes mgr))" unfolding t(2) .
  have tok: "table_ok (0x29, 6) (pm_mailboxes mgr)" by (rule pm_invD(1) [OF inv])
  then have b: "ht_buckets_ok (pm_mailboxes mgr)" and v: "hi_hval ?h = unat (ko_hashkey (hi_key ?h))"
    using h by (simp_all add: table_ok_def htab_inv_def)
  have "ht_map (pm_mailboxes mgr) (unat (ko_hashkey (hi_key ?h))) = Some (hi_key ?h, hi_stuff ?h)"
    unfolding ht_map_Some [OF b] using h v by auto
  then have "pm_reg mgr (ko_hashkey (hi_key ?h)) = Some (hi_key ?h, a)" using j by (simp add: pm_reg_def table_map_def)
  then show ?thesis using pm_invD(4) [OF inv] by blast
qed

lemma redeliver_loop_inv:
  assumes "pm_inv mgr" and "\<And>k a. hit_current it = Some (k, a) \<Longrightarrow> a < length (pm_boxes mgr)"
    and "redeliver_loop fuel 32 it mgr = Returns mgr'"
  shows "pm_inv mgr' \<and> length (pm_boxes mgr') = length (pm_boxes mgr)
    \<and> pm_le mgr mgr'"
  using assms
proof (induction fuel arbitrary: it mgr)
  case (Suc fuel)
  show ?case
  proof (cases "hashtable_iterable_has_next it")
    case False
    then show ?thesis using Suc.prems by simp
  next
    case True
    then obtain k a where e: "hit_current it = Some (k, a)" "hit_ordinal it \<noteq> 0"
      by (auto simp: hashtable_iterable_has_next_def)
    let ?m = "snd (etchmbox_close_delivery 32 mgr a)"
    have a: "a < length (pm_boxes mgr)" by (rule Suc.prems(2) [OF e(1)])
    note cd = close_delivery_inv [OF Suc.prems(1) a]
    let ?r = "hashtable_iterable_next (pm_mailboxes ?m) it"
    let ?it = "fst (snd ?r)" and ?t = "snd (snd ?r)"
    have t: "?t = snd (hnext (pm_mailboxes ?m))"
      using e(2) by (simp add: hashtable_iterable_next_def jenkins_next_def split_beta)
    have tok: "table_ok (0x29, 6) (pm_mailboxes ?m)" by (rule pm_invD(1) [OF cd(1)])
    then have hi: "htab_inv ?t" "ht_items ?t = ht_items (pm_mailboxes ?m)"
      using hnext_inv [of "pm_mailboxes ?m"] t by (simp_all add: table_ok_def)
    have "table_ok (0x29, 6) ?t \<and> table_map ?t = pm_reg ?m"
      using table_ok_items [OF tok hi] by (simp add: pm_reg_def)
    then have inv2: "pm_inv (?m\<lparr>pm_mailboxes := ?t\<rparr>)" by (intro pm_inv_table [OF cd(1)]) simp_all
    have cur: "a' < length (pm_boxes (?m\<lparr>pm_mailboxes := ?t\<rparr>))" if "hit_current ?it = Some (k', a')" for k' a'
    proof -
      have "hcurrent ?t = Some (k', a')" using that e(2) t
        by (auto simp: hashtable_iterable_next_def jenkins_next_def split_beta split: if_splits)
      then show ?thesis using current_registered [OF cd(1) hi] by simp
    qed
    have "redeliver_loop fuel 32 ?it (?m\<lparr>pm_mailboxes := ?t\<rparr>) = Returns mgr'"
      using Suc.prems(3) True e by (simp add: split_beta Let_def)
    from Suc.IH [OF inv2 cur this] have ih: "pm_inv mgr'" "length (pm_boxes mgr') = length (pm_boxes ?m)"
      "pm_le (?m\<lparr>pm_mailboxes := ?t\<rparr>) mgr'" by simp_all
    have "pm_le mgr (?m\<lparr>pm_mailboxes := ?t\<rparr>)"
      using close_delivery_le [OF Suc.prems(1) a] by (simp add: pm_le_def)
    then have "pm_le mgr mgr'" using ih(3) by (rule pm_le_trans)
    with ih cd(2) show ?thesis by simp
  qed
qed simp

lemma redeliver_inv:
  assumes inv: "pm_inv mgr" and r: "pmboxmgr_redeliver fuel 32 mgr w m = Returns (r, mgr')"
  shows "pm_inv mgr' \<and> length (pm_boxes mgr') = length (pm_boxes mgr) \<and> r = 0
    \<and> pm_le mgr mgr'"
proof -
  let ?t = "pm_mailboxes mgr"
  obtain it t1 where s: "set_hash_iterator ?t = (it, t1)" by force
  have t1: "t1 = snd (hfirst ?t)" and it: "hit_current it = None \<or> hit_current it = hcurrent t1"
    using s by (auto simp: set_hash_iterator_def hashtable_iterable_first_def jenkins_first_def split_beta Let_def split: if_splits)
  have tok: "table_ok (0x29, 6) ?t" by (rule pm_invD(1) [OF inv])
  then have hi: "htab_inv t1" "ht_items t1 = ht_items ?t"
    using hfirst_inv [of ?t] t1 by (simp_all add: table_ok_def)
  have "table_ok (0x29, 6) t1 \<and> table_map t1 = pm_reg mgr" using table_ok_items [OF tok hi] by (simp add: pm_reg_def)
  then have inv2: "pm_inv (mgr\<lparr>pm_mailboxes := t1\<rparr>)" by (intro pm_inv_table [OF inv]) simp_all
  have cur: "a < length (pm_boxes (mgr\<lparr>pm_mailboxes := t1\<rparr>))" if "hit_current it = Some (k, a)" for k a
  proof -
    have "hcurrent t1 = Some (k, a)" using that it by auto
    from current_registered [OF inv hi this] show ?thesis by simp
  qed
  have "redeliver_loop fuel 32 it (mgr\<lparr>pm_mailboxes := t1\<rparr>) = Returns mgr'" "r = 0"
    using r s by (simp_all add: pmboxmgr_redeliver_def split: outcome.splits)
  moreover note redeliver_loop_inv [OF inv2 cur this(1)]
  ultimately show ?thesis by (simp add: pm_le_def)
qed

lemma close_read_loop_inv:
  assumes "pm_inv mgr" and "a < length (pm_boxes mgr)" and "etchmbox_is_closed (pm_box mgr a)"
    and "close_read_loop fuel 32 d mgr a del = Returns (del', mgr')"
  shows "pm_inv mgr' \<and> length (pm_boxes mgr') = length (pm_boxes mgr) \<and> pm_le mgr mgr'"
  using assms
proof (induction fuel arbitrary: mgr del)
  case (Suc fuel)
  let ?b = "pm_box mgr a"
  have b: "one_slot ?b" "mb_max_message_delay ?b = ETCH_INFWAIT" using pm_invD(3) [OF Suc.prems(1,2)] by blast+
  then have ok: "mbox_ok ?b" by (simp add: one_slot_def)
  show ?case
  proof (cases "mbox_list ?b")
    case Nil
    have "pm_update a (\<lambda>_. ?b) mgr = mgr" by (simp add: pm_update_def pm_box_def)
    then show ?thesis using read_clearing(1) [OF Suc.prems(3) ok Nil] Suc.prems(1,4)
      by (simp add: ETCH_QUEUE_EOF_def)
  next
    case (Cons e es)
    obtain b' where b': "etchmbox_read_withwait (\<lambda>_ q. (APR_EINTR, q)) ?b ETCHQUEUE_CLEARING_CLOSED_QUEUE = Some (0, Out_element e, b')"
      "mbox_ok b'" "mbox_list b' = es" "etchmbox_is_closed b'" "mb_message_id b' = mb_message_id ?b"
      "mb_state b' = mb_state ?b" "aq_bounds (mb_queue b') = aq_bounds (mb_queue ?b)"
      using read_clearing(2) [OF Suc.prems(3) ok Cons] by blast
    have delay: "mb_max_message_delay b' = ETCH_INFWAIT"
      using b'(1) b(2) by (auto simp: etchmbox_read_withwait_def bind_eq_Some_conv split_beta Let_def)
    have one: "one_slot b'" using b' b by (simp add: one_slot_def)
    let ?m = "pm_update a (\<lambda>_. b') mgr"
    have inv2: "pm_inv ?m" by (rule set_box [OF Suc.prems(1,2) one delay b'(5)]) (simp add: Suc.prems(3))
    have a2: "a < length (pm_boxes ?m)" using Suc.prems(2) by simp
    have le2: "pm_le mgr ?m" by (rule pm_le_update) (simp add: b'(6))
    have c2: "etchmbox_is_closed (pm_box ?m a)" using b'(4) Suc.prems(2) by (simp add: pm_box_update)
    show ?thesis
    proof (cases "d \<and> mb_state b' = ETCH_MAILBOX_STATE_SHUTDOWN")
      case True
      then have "close_read_loop fuel 32 d ?m a (del @ [me_msg e]) = Returns (del', mgr')"
        using Suc.prems(4) b'(1) by (simp add: Let_def)
      from Suc.IH [OF inv2 a2 c2 this] show ?thesis using pm_le_trans [OF le2] by simp
    next
      case False
      then obtain r m2 where m2: "pmboxmgr_redeliver (Suc fuel) 32 ?m (me_whofrom e) (me_msg e) = Returns (r, m2)"
        "close_read_loop fuel 32 d m2 a (if r \<noteq> 0 then del @ [me_msg e] else del) = Returns (del', mgr')"
        using Suc.prems(4) b'(1) by (auto simp: Let_def split: outcome.splits)
      note rd = redeliver_inv [OF inv2 m2(1)]
      have "etchmbox_is_closed (pm_box m2 a)" using pm_le_closed [OF _ inv2 _ a2 c2] rd by blast
      from Suc.IH [OF _ _ this m2(2)] rd a2 show ?thesis
        using pm_le_trans [OF le2, of m2] pm_le_trans [of mgr m2 mgr'] by simp
    qed
  qed
qed simp

lemma close_read_inv:
  assumes inv: "pm_inv mgr" and a: "a < length (pm_boxes mgr)"
    and r: "etchmbox_close_read fuel 32 d mgr a = Returns (r, del, mgr')"
  shows "pm_inv mgr' \<and> pm_le mgr mgr'"
proof -
  let ?m = "snd (etchmbox_close_delivery 32 mgr a)"
  let ?f = "\<lambda>b. if mb_state b < ETCH_MAILBOX_STATE_CLOSED_READ then b\<lparr>mb_state := ETCH_MAILBOX_STATE_CLOSED_READ\<rparr> else b"
  note cd = close_delivery_inv [OF inv a]
  have nn: "\<not> fst (etchmbox_close_delivery 32 mgr a) < 0"
    using close_delivery_spec [OF inv a] by (auto simp: ETCH_MAILBOX_RESULT_ALREADY_CLOSED_def split: if_splits)
  have c: "etchmbox_is_closed (pm_box ?m a)"
    using close_delivery_spec [OF inv a] by (auto split: if_splits)
  have a2: "a < length (pm_boxes ?m)" using a cd(2) by simp
  let ?b = "?f (pm_box ?m a)"
  have b: "one_slot (pm_box ?m a)" "mb_max_message_delay (pm_box ?m a) = ETCH_INFWAIT"
    using pm_invD(3) [OF cd(1) a2] by blast+
  then have b': "one_slot ?b" "etchmbox_is_closed ?b" "mb_max_message_delay ?b = ETCH_INFWAIT"
    "mb_message_id ?b = mb_message_id (pm_box ?m a)"
    using c by (simp_all add: one_slot_def mbox_ok_def mbox_defs)
  have n: "pm_update a ?f ?m = pm_update a (\<lambda>_. ?b) ?m" by (simp add: pm_update_def pm_box_def)
  have inv_n: "pm_inv (pm_update a ?f ?m)" unfolding n
    by (rule set_box [OF cd(1) a2 b'(1,3,4)]) (simp add: c)
  have cl: "etchmbox_is_closed (pm_box (pm_update a ?f ?m) a)" using b'(2) a2 by (simp add: pm_box_update)
  obtain del' where "close_read_loop fuel 32 d (pm_update a ?f ?m) a [] = Returns (del', mgr')"
    using r nn by (auto simp: etchmbox_close_read_def split_beta Let_def split: outcome.splits)
  moreover have "pm_le ?m (pm_update a ?f ?m)" unfolding n by (rule pm_le_update) simp
  ultimately show ?thesis
    using close_read_loop_inv [OF inv_n _ cl] a2 close_delivery_le [OF inv a] pm_le_trans [of mgr ?m]
      pm_le_trans [of mgr "pm_update a ?f ?m" mgr'] by simp
qed

lemma session_notify_inv:
  assumes inv: "pm_inv mgr" and r: "pmboxmgr_session_notify 32 sn mgr s evt = Returns (r, mgr', s')"
  shows "pm_inv mgr' \<and> pm_le mgr mgr'"
proof -
  have up: "pm_inv (mgr\<lparr>pm_is_connection_up := True\<rparr>)"
    using inv by (simp add: pm_inv_def pm_reg_def pm_box_def)
  consider "evt = ETCHEVT_SESSION_UP" | "evt = ETCHEVT_SESSION_DOWN" "evt \<noteq> ETCHEVT_SESSION_UP"
    | "evt \<noteq> ETCHEVT_SESSION_UP" "evt \<noteq> ETCHEVT_SESSION_DOWN" by blast
  then show ?thesis
  proof cases
    case 1
    then show ?thesis using r up by (auto simp: pmboxmgr_session_notify_def split_beta)
  next
    case 2
    then obtain m where m: "pmboxmgr_unregister_all 32 (mgr\<lparr>pm_is_connection_up := False\<rparr>) = Returns m" "mgr' = m"
      using r by (auto simp: pmboxmgr_session_notify_def split_beta split: outcome.splits)
    with session_down [OF inv] show ?thesis by auto
  next
    case 3
    then show ?thesis using r inv by (auto simp: pmboxmgr_session_notify_def split_beta)
  qed
qed

text \<open>Closing a closed mailbox that still holds a message, when nothing is registered.\<close>

lemma redeliver_nothing:
  assumes inv: "pm_inv mgr" and r: "pm_reg mgr = Map.empty"
  shows "\<exists>t. pmboxmgr_redeliver (Suc fuel) 32 mgr w m = Returns (0, mgr\<lparr>pm_mailboxes := t\<rparr>)"
proof -
  let ?t = "pm_mailboxes mgr"
  have "a \<notin> set (map hi_stuff (ht_items ?t))" for a using registered_items [OF inv, of a] r by simp
  then have "ht_items ?t = []" by (cases "ht_items ?t") auto
  moreover have "htab_inv ?t" using pm_invD(1) [OF inv] by (simp add: table_ok_def)
  ultimately have "\<not> fst (hfirst ?t)"
    using hfirst_pos [of ?t] no_items_no_position [of ?t] by (auto simp: htab_inv_def)
  then have "hit_current (fst (set_hash_iterator ?t)) = None"
    by (simp add: set_hash_iterator_def hashtable_iterable_first_def jenkins_first_def split_beta)
  then show ?thesis
    by (intro exI [of _ "snd (set_hash_iterator ?t)"])
       (simp add: pmboxmgr_redeliver_def split_beta hashtable_iterable_has_next_def)
qed

lemma close_read_pop:
  assumes "etchmbox_read_withwait (\<lambda>_ q. (APR_EINTR, q)) (pm_box mgr a) ETCHQUEUE_CLEARING_CLOSED_QUEUE
      = Some (0, Out_element e, b)" and "mb_state b \<noteq> ETCH_MAILBOX_STATE_SHUTDOWN"
    and "pmboxmgr_redeliver (Suc n) 32 (pm_update a (\<lambda>_. b) mgr) (me_whofrom e) (me_msg e) = Returns (0, mgr')"
  shows "close_read_loop (Suc n) 32 d mgr a del = close_read_loop n 32 d mgr' a del"
  using assms by (simp add: Let_def)

lemma close_read_end:
  assumes "etchmbox_read_withwait (\<lambda>_ q. (APR_EINTR, q)) (pm_box mgr a) ETCHQUEUE_CLEARING_CLOSED_QUEUE
      = Some (ETCH_QUEUE_EOF, Out_null, pm_box mgr a)"
  shows "close_read_loop (Suc n) 32 d mgr a del = Returns (del, mgr)"
proof -
  have "pm_update a (\<lambda>_. pm_box mgr a) mgr = mgr" by (simp add: pm_update_def pm_box_def)
  then show ?thesis using assms by (simp add: ETCH_QUEUE_EOF_def)
qed

lemma close_read_closed_drops:
  assumes inv: "pm_inv mgr" and a: "a < length (pm_boxes mgr)" and c: "etchmbox_is_closed (pm_box mgr a)"
    and e: "mbox_list (pm_box mgr a) = [e]" and r: "pm_reg mgr = Map.empty"
  shows "\<exists>mgr'. etchmbox_close_read 2 32 d mgr a = Returns (0, [], mgr') \<and> mbox_list (pm_box mgr' a) = []"
proof -
  let ?f = "\<lambda>b. if mb_state b < ETCH_MAILBOX_STATE_CLOSED_READ then b\<lparr>mb_state := ETCH_MAILBOX_STATE_CLOSED_READ\<rparr> else b"
  let ?b = "?f (pm_box mgr a)"
  have b: "one_slot (pm_box mgr a)" "mb_max_message_delay (pm_box mgr a) = ETCH_INFWAIT"
    using pm_invD(3) [OF inv a] by blast+
  then have b1: "one_slot ?b" "etchmbox_is_closed ?b" "mb_max_message_delay ?b = ETCH_INFWAIT"
    "mb_message_id ?b = mb_message_id (pm_box mgr a)" "mbox_list ?b = [e]"
    using c e by (simp_all add: one_slot_def mbox_ok_def mbox_defs mbox_list_def)
  let ?n = "pm_update a (\<lambda>_. ?b) mgr"
  have n: "pm_update a ?f mgr = ?n" by (simp add: pm_update_def pm_box_def)
  have inv1: "pm_inv ?n" by (rule set_box [OF inv a b1(1,3,4)]) (simp add: c)
  have box1: "pm_box ?n a = ?b" using a by (simp add: pm_box_update)
  have close: "etchmbox_close_read 2 32 d mgr a = (case close_read_loop 2 32 d ?n a [] of
      Returns (destroyed, mgr) \<Rightarrow> Returns (0, destroyed, mgr) | Fault \<Rightarrow> Fault | Diverges \<Rightarrow> Diverges)"
    using close_delivery_spec [OF inv a] c n
    by (simp add: etchmbox_close_read_def ETCH_MAILBOX_RESULT_ALREADY_CLOSED_def Let_def del: close_read_loop.simps)
  have open': "mb_state ?b \<noteq> ETCH_MAILBOX_STATE_SHUTDOWN" using b1(1) by (simp add: one_slot_def mbox_ok_def mbox_defs)
  obtain b2 where b2: "etchmbox_read_withwait (\<lambda>_ q. (APR_EINTR, q)) ?b ETCHQUEUE_CLEARING_CLOSED_QUEUE = Some (0, Out_element e, b2)"
    "mbox_ok b2" "mbox_list b2 = []" "etchmbox_is_closed b2" "mb_message_id b2 = mb_message_id ?b"
    "mb_state b2 = mb_state ?b" "aq_bounds (mb_queue b2) = aq_bounds (mb_queue ?b)"
    using read_clearing(2) [OF b1(2) _ b1(5)] b1(1) unfolding one_slot_def by blast
  have delay: "mb_max_message_delay b2 = ETCH_INFWAIT"
    using b2(1) b1(3) by (auto simp: etchmbox_read_withwait_def bind_eq_Some_conv split_beta Let_def)
  have one: "one_slot b2" using b2 b1(1) by (simp add: one_slot_def)
  let ?m = "pm_update a (\<lambda>_. b2) ?n"
  have inv2: "pm_inv ?m"
    by (rule set_box [OF inv1 _ one delay]) (use a b2(5) box1 b1(2) in simp_all)
  obtain t where t: "pmboxmgr_redeliver 2 32 ?m (me_whofrom e) (me_msg e) = Returns (0, ?m\<lparr>pm_mailboxes := t\<rparr>)"
    using redeliver_nothing [OF inv2, of 1] r by (auto simp: numeral_2_eq_2)
  let ?k = "?m\<lparr>pm_mailboxes := t\<rparr>"
  have box3: "pm_box ?k a = b2" using a by (simp add: pm_box_update)
  have rd1: "etchmbox_read_withwait (\<lambda>_ q. (APR_EINTR, q)) (pm_box ?n a) ETCHQUEUE_CLEARING_CLOSED_QUEUE
      = Some (0, Out_element e, b2)" unfolding box1 by (rule b2(1))
  have st2: "mb_state b2 \<noteq> ETCH_MAILBOX_STATE_SHUTDOWN" unfolding b2(6) by (rule open')
  have rd2: "etchmbox_read_withwait (\<lambda>_ q. (APR_EINTR, q)) (pm_box ?k a) ETCHQUEUE_CLEARING_CLOSED_QUEUE
      = Some (ETCH_QUEUE_EOF, Out_null, pm_box ?k a)"
    unfolding box3 by (rule read_clearing(1) [OF b2(4,2,3)])
  have "close_read_loop 2 32 d ?n a [] = Returns ([], ?k)"
    using close_read_pop [OF rd1 st2, of "Suc 0"] t close_read_end [OF rd2, of 0]
    by (simp add: numeral_2_eq_2 del: close_read_loop.simps)
  then show ?thesis using close b2(3) box3 by simp
qed

section \<open>Runs of the manager\<close>

text \<open>
  One call of an operation.  The layer below and the session above give any result; their states do
  not matter here.  A read is taken when it does not have to wait: a message is there or the mailbox
  is closed.
\<close>

inductive pm_step :: "('b, 'w, 'n) pmboxmgr \<Rightarrow> ('b, 'w, 'n) pmboxmgr \<Rightarrow> bool" where
  call: "pmboxmgr_transport_call 32 (\<lambda>_ _ _. (sent, ())) mgr () w msg = (r, out, m, mgr', ()) \<Longrightarrow> pm_step mgr mgr'"
| message: "pmboxmgr_session_message 32 cw (\<lambda>_ _ _. (handled, ())) mgr () w msg' = Returns (r, mgr', ()) \<Longrightarrow> pm_step mgr mgr'"
| notify: "pmboxmgr_session_notify 32 (\<lambda>_ _. (notified, ())) mgr () evt = Returns (r, mgr', ()) \<Longrightarrow> pm_step mgr mgr'"
| close_delivery: "a < length (pm_boxes mgr) \<Longrightarrow> pm_step mgr (snd (etchmbox_close_delivery 32 mgr a))"
| close_read: "a < length (pm_boxes mgr) \<Longrightarrow> etchmbox_close_read fuel 32 d mgr a = Returns (r, del, mgr')
    \<Longrightarrow> pm_step mgr mgr'"
| read: "a < length (pm_boxes mgr) \<Longrightarrow> mbox_list (pm_box mgr a) \<noteq> [] \<or> etchmbox_is_closed (pm_box mgr a)
    \<Longrightarrow> 0 \<le> wait \<Longrightarrow> wait * 1000 \<le> 2147483647
    \<Longrightarrow> etchmbox_read_withwait cw (pm_box mgr a) wait = Some (r, item, b)
    \<Longrightarrow> pm_step mgr (pm_update a (\<lambda>_. b) mgr)"
| register_notify: "a < length (pm_boxes mgr)
    \<Longrightarrow> pm_step mgr (pm_update a (\<lambda>b. snd (etchmbox_register_notify b pfn st delay)) mgr)"
| unregister_notify: "a < length (pm_boxes mgr)
    \<Longrightarrow> pm_step mgr (pm_update a (\<lambda>b. snd (etchmbox_unregister_notify b pfn)) mgr)"

inductive_cases pm_stepE: "pm_step mgr mgr'"

inductive pm_reach :: "int64 \<Rightarrow> ('b, 'w, 'n) pmboxmgr \<Rightarrow> bool" for now where
  start: "pm_reach now (new_plain_mailbox_manager now)"
| step: "pm_reach now mgr \<Longrightarrow> pm_step mgr mgr' \<Longrightarrow> pm_reach now mgr'"

lemma start_inv_pm: "pm_inv (new_plain_mailbox_manager now)"
  using create_ok by (simp add: pm_inv_def new_plain_mailbox_manager_def pm_reg_def)

lemma same_queue_box:
  assumes inv: "pm_inv mgr" and a: "a < length (pm_boxes mgr)"
    and f: "mb_queue (f (pm_box mgr a)) = mb_queue (pm_box mgr a)" "mb_state (f (pm_box mgr a)) = mb_state (pm_box mgr a)"
      "mb_message_id (f (pm_box mgr a)) = mb_message_id (pm_box mgr a)"
      "mb_max_message_delay (f (pm_box mgr a)) = mb_max_message_delay (pm_box mgr a)"
  shows "pm_inv (pm_update a f mgr) \<and> pm_le mgr (pm_update a f mgr)"
proof -
  let ?b = "f (pm_box mgr a)"
  have u: "pm_update a f mgr = pm_update a (\<lambda>_. ?b) mgr" by (simp add: pm_update_def pm_box_def)
  have "one_slot ?b" "mb_max_message_delay ?b = ETCH_INFWAIT"
    using pm_invD(3) [OF inv a] f by (simp_all add: one_slot_def mbox_ok_def mbox_defs)
  then show ?thesis unfolding u
    by (intro conjI set_box [OF inv a _ _ f(3)] pm_le_update) (simp_all add: f etchmbox_is_closed_def)
qed

lemma fire_delay [simp]: "mb_max_message_delay (etchmbox_fire_notify b) = mb_max_message_delay b"
  by (simp add: etchmbox_fire_notify_def split: option.splits)

lemma pm_step_inv:
  assumes "pm_step mgr mgr'" and "pm_inv mgr"
  shows "pm_inv mgr' \<and> pm_le mgr mgr'"
  using assms
proof (cases rule: pm_step.cases)
  case call
  then show ?thesis by (rule call_inv [OF assms(2)])
next
  case message
  then show ?thesis by (rule session_message_inv [OF assms(2)])
next
  case notify
  then show ?thesis by (rule session_notify_inv [OF assms(2)])
next
  case (close_delivery a)
  then show ?thesis using close_delivery_inv [OF assms(2)] close_delivery_le [OF assms(2)] by blast
next
  case close_read
  then show ?thesis using close_read_inv [OF assms(2)] by blast
next
  case (read a wait cw r item b)
  let ?b = "pm_box mgr a"
  have ok: "one_slot ?b" "mb_max_message_delay ?b = ETCH_INFWAIT" using pm_invD(3) [OF assms(2) read(2)] by blast+
  have delay: "mb_max_message_delay b = mb_max_message_delay ?b"
    using read(6) by (auto simp: etchmbox_read_withwait_def bind_eq_Some_conv split_beta Let_def)
  show ?thesis
  proof (cases "etchmbox_is_closed ?b")
    case True
    then have "b = ?b" using read_closed [OF True read(4,5)] read(6) by simp
    then have "pm_update a (\<lambda>_. b) mgr = mgr" by (simp add: pm_update_def pm_box_def)
    then show ?thesis using read(1) assms(2) by simp
  next
    case False
    then obtain e where "mbox_list ?b = [e]" using read(3) one_slot_data(3) [OF ok(1)] by auto
    from read_open [OF ok(1) this False read(4,5), of cw] read(6)
    have b: "one_slot b" "\<not> etchmbox_is_closed b" "mb_message_id b = mb_message_id ?b" "mb_state b = mb_state ?b"
      by auto
    then show ?thesis unfolding read(1)
      by (intro conjI set_box [OF assms(2) read(2) b(1) _ b(3)] pm_le_update) (simp_all add: delay ok)
  qed
next
  case (register_notify a pfn st delay)
  show ?thesis unfolding register_notify(1)
    by (rule same_queue_box [OF assms(2) register_notify(2)])
       (simp_all add: etchmbox_register_notify_def etchmbox_set_duration_def Let_def)
next
  case (unregister_notify a pfn)
  show ?thesis unfolding unregister_notify(1)
    by (rule same_queue_box [OF assms(2) unregister_notify(2)]) (simp_all add: etchmbox_unregister_notify_def)
qed

lemma pm_reach_inv: "pm_reach now mgr \<Longrightarrow> pm_inv mgr"
  by (induction rule: pm_reach.induct) (auto simp: start_inv_pm dest: pm_step_inv)


text \<open>
  C15. A remote call end to end: with the connection up and a new id whose hash is not 0 and not in use,
  \<open>begincall\<close> sends the message with this id and registers a mailbox; the reply that refers to the id is
  put into this mailbox, not handed to the session; \<open>endcall\<close> returns the result object of exactly this
  reply, and afterwards the mailbox is closed and the registrations are those of before the call.
\<close>

theorem call_reply_returns:
  assumes inv: "pm_inv mgr" and up: "pm_is_connection_up mgr"
    and msg: "msg_id msg = None" "msg_in_reply_to msg = None"
    and n: "pm_message_id mgr + 1 \<noteq> 0" "msg_hash (pm_message_id mgr + 1) \<noteq> 0"
      "pm_reg mgr (msg_hash (pm_message_id mgr + 1)) = None"
    and tm: "tm t w (msg\<lparr>msg_id := Some (pm_message_id mgr + 1)\<rparr>) = (0, t')"
    and reply: "msg_in_reply_to rep = Some (pm_message_id mgr + 1)" "result_of rep = Some obj"
    and wait: "0 < timeout" "timeout * 1000 \<le> 2147483647"
  shows "\<exists>a m mgr1 mgr2 mgr3.
      tcpdelsvc_begincall 32 tm mgr t w msg = (0, Some a, m, mgr1, t') \<and> msg_id m = Some (pm_message_id mgr + 1)
    \<and> pmboxmgr_session_message 32 cw sm mgr1 s w' (Some rep) = Returns (0, mgr2, s)
    \<and> tcpdelsvc_endcall (Suc fuel) 32 d cw2 result_of timeout default_timeout mgr2 a = Returns (0, Call_object obj, mgr3)
    \<and> pm_inv mgr3 \<and> pm_reg mgr3 = pm_reg mgr \<and> etchmbox_is_closed (pm_box mgr3 a)"
proof -
  let ?n = "pm_message_id mgr + 1" and ?a = "length (pm_boxes mgr)"
  let ?m = "msg\<lparr>msg_id := Some ?n\<rparr>"
  from call_spec [OF inv up msg n, of tm t w] tm obtain mgr1 where
    m1: "pm_inv mgr1" "length (pm_boxes mgr1) = ?a + 1" "mbox_list (pm_box mgr1 ?a) = []"
      "mb_message_id (pm_box mgr1 ?a) = ?n" "pm_reg mgr1 = (pm_reg mgr)(msg_hash ?n \<mapsto> (msgid_key 32 ?n, ?a))"
      "pmboxmgr_transport_call 32 tm mgr t w msg = (0, Some ?a, ?m, mgr1, t')" by auto
  from session_message_spec [OF m1(1) reply(1), of cw sm s w'] m1(3,5) obtain mgr2 where
    m2: "pmboxmgr_session_message 32 cw sm mgr1 s w' (Some rep) = Returns (0, mgr2, s)" "pm_inv mgr2"
      "pm_reg mgr2 = pm_reg mgr1" "length (pm_boxes mgr2) = length (pm_boxes mgr1)"
      "mbox_list (pm_box mgr2 ?a) = [\<lparr>me_msg = rep, me_whofrom = w'\<rparr>]" by auto
  have a2: "?a < length (pm_boxes mgr2)" using m1(2) m2(4) by simp
  have r2: "pm_reg mgr2 (msg_hash ?n) = Some (msgid_key 32 ?n, ?a)" using m1(5) m2(3) by simp
  from pm_invD(4) [OF m2(2) r2] have
    c2: "\<not> etchmbox_is_closed (pm_box mgr2 ?a)" and "msg_hash (mb_message_id (pm_box mgr2 ?a)) = msg_hash ?n"
    and id2: "msgid_key 32 (mb_message_id (pm_box mgr2 ?a)) = msgid_key 32 ?n" by simp_all
  have o2: "one_slot (pm_box mgr2 ?a)" "mb_max_message_delay (pm_box mgr2 ?a) = ETCH_INFWAIT"
    using pm_invD(3) [OF m2(2) a2] by blast+
  obtain b where b: "etchmbox_read_withwait cw2 (pm_box mgr2 ?a) timeout
      = Some (0, Out_element \<lparr>me_msg = rep, me_whofrom = w'\<rparr>, b)" "one_slot b" "mbox_list b = []"
      "\<not> etchmbox_is_closed b" "mb_message_id b = mb_message_id (pm_box mgr2 ?a)"
    using read_open [OF o2(1) m2(5) c2 _ wait(2), of cw2] wait(1) by auto
  have delay: "mb_max_message_delay b = ETCH_INFWAIT"
    using b(1) o2(2) by (auto simp: etchmbox_read_withwait_def bind_eq_Some_conv split_beta Let_def)
  let ?u = "pm_update ?a (\<lambda>_. b) mgr2"
  have u: "pm_inv ?u" "?a < length (pm_boxes ?u)" "pm_box ?u ?a = b"
    using set_box [OF m2(2) a2 b(2) delay b(5)] b(4) a2 by (simp_all add: pm_box_update)
  obtain mgr3 where m3: "etchmbox_close_read (Suc fuel) 32 d ?u ?a = Returns (0, [], mgr3)"
    "pm_reg mgr3 = (pm_reg ?u)(msg_hash (mb_message_id b) := None)" "etchmbox_is_closed (pm_box mgr3 ?a)" "pm_inv mgr3"
    using close_read_empty [OF u(1,2), of fuel d] u(3) b(3,4) by auto
  have "msg_hash (mb_message_id b) = msg_hash ?n" using b(5) id2 by (metis key_fields(1))
  then have "pm_reg mgr3 = pm_reg mgr" using m3(2) m2(3) m1(5) n(3) by (auto simp: fun_eq_iff)
  moreover have "tcpdelsvc_endcall (Suc fuel) 32 d cw2 result_of timeout default_timeout mgr2 ?a = Returns (0, Call_object obj, mgr3)"
    unfolding tcpdelsvc_endcall_def using wait b(1) m3(1) reply(2) by (simp add: Let_def)
  ultimately show ?thesis using m1(6) m2(1) m3(3,4)
    by (intro exI conjI) (auto simp: tcpdelsvc_begincall_def)
qed

text \<open>
  C16. A call that fails leaves no trace in the registrations: whatever error the transport returns is
  returned to the caller, the registrations are those of before, no mailbox is handed out, the
  invariant holds; but the message keeps the id it was given, so that trying again fails with -1.
\<close>

theorem failed_call_unregisters:
  assumes inv: "pm_inv mgr" and up: "pm_is_connection_up mgr"
    and msg: "msg_id msg = None" "msg_in_reply_to msg = None"
    and n: "pm_message_id mgr + 1 \<noteq> 0" "msg_hash (pm_message_id mgr + 1) \<noteq> 0"
      "pm_reg mgr (msg_hash (pm_message_id mgr + 1)) = None"
    and tm: "tm t w (msg\<lparr>msg_id := Some (pm_message_id mgr + 1)\<rparr>) = (err, t')" "err \<noteq> 0"
  shows "\<exists>m mgr'. pmboxmgr_transport_call 32 tm mgr t w msg = (err, None, m, mgr', t')
    \<and> pm_inv mgr' \<and> pm_reg mgr' = pm_reg mgr
    \<and> (\<forall>tm2 t2. pmboxmgr_transport_call 32 tm2 mgr' t2 w m = (- 1, None, m, mgr', t2))"
proof -
  from call_spec [OF inv up msg n, of tm t w] tm obtain mgr' where
    "pm_inv mgr'" "pm_reg mgr' = pm_reg mgr"
    "pmboxmgr_transport_call 32 tm mgr t w msg
      = (err, None, msg\<lparr>msg_id := Some (pm_message_id mgr + 1)\<rparr>, mgr', t')" by auto
  then show ?thesis by (intro exI conjI) (assumption+, simp add: pmboxmgr_transport_call_def)
qed

text \<open>
  C32. A second reply to a message whose first reply has not been read makes
  \<open>etchmbox_contains_message\<close> read behind the end of the queue's array, which has one slot: the
  iterator stops only when its position exceeds the number of elements, after it has read one more.
\<close>

theorem second_reply_reads_out_of_bounds:
  assumes "pm_inv mgr" and "pm_reg mgr (msg_hash v) = Some (k, a)" and "mbox_list (pm_box mgr a) = [e]"
    and "msg_in_reply_to msg = Some v" and "msg_addr (me_msg e) \<noteq> msg_addr msg"
  shows "pmboxmgr_session_message 32 cw sm mgr s w (Some msg) = Fault"
  using session_message_spec [OF assms(1,4), of cw sm s w] assms(2,3,5) by simp

text \<open>
  C17. When the session goes down every registered mailbox is closed, nothing stays registered, the
  event is passed on to the session, and from then on every call fails without sending anything.
\<close>

theorem session_down_closes_all:
  assumes inv: "pm_inv mgr"
  shows "\<exists>mgr'. pmboxmgr_session_notify 32 sn mgr s ETCHEVT_SESSION_DOWN
      = Returns (fst (sn s ETCHEVT_SESSION_DOWN), mgr', snd (sn s ETCHEVT_SESSION_DOWN))
    \<and> pm_inv mgr' \<and> pm_reg mgr' = Map.empty \<and> length (pm_boxes mgr') = length (pm_boxes mgr)
    \<and> (\<forall>x k a. pm_reg mgr x = Some (k, a) \<longrightarrow> etchmbox_is_closed (pm_box mgr' a))
    \<and> (\<forall>tm (t :: 't) w msg. fst (pmboxmgr_transport_call 32 tm mgr' t w msg) = - 1
         \<and> snd (snd (snd (snd (pmboxmgr_transport_call 32 tm mgr' t w msg)))) = t)"
proof -
  obtain mgr' where m: "pmboxmgr_unregister_all 32 (mgr\<lparr>pm_is_connection_up := False\<rparr>) = Returns mgr'" "pm_inv mgr'"
    "pm_reg mgr' = Map.empty" "length (pm_boxes mgr') = length (pm_boxes mgr)" "\<not> pm_is_connection_up mgr'"
    "\<forall>i. etchmbox_is_closed (pm_box mgr' i) = ((\<exists>x k. pm_reg mgr x = Some (k, i)) \<or> etchmbox_is_closed (pm_box mgr i))"
    using session_down [OF inv] by blast
  have "pmboxmgr_session_notify 32 sn mgr s ETCHEVT_SESSION_DOWN
      = Returns (fst (sn s ETCHEVT_SESSION_DOWN), mgr', snd (sn s ETCHEVT_SESSION_DOWN))"
    using m(1) by (simp add: pmboxmgr_session_notify_def ETCHEVT_SESSION_DOWN_def ETCHEVT_SESSION_UP_def split_beta)
  moreover have "fst (pmboxmgr_transport_call 32 tm mgr' t w msg) = - 1
         \<and> snd (snd (snd (snd (pmboxmgr_transport_call 32 tm mgr' t w msg)))) = t" for tm and t :: 't and w msg
    using m(5) by (simp add: pmboxmgr_transport_call_def generate_message_id_def pmboxmgr_register_mailbox_def
        Let_def split: option.split)
  ultimately show ?thesis using m by (intro exI [of _ mgr']) auto
qed

text \<open>
  A reply that has arrived but has not been read is lost when the session goes down: the mailbox is
  closed, so \<open>endcall\<close> reports a read error although the reply is queued, and closing the mailbox
  takes the reply out and passes it to \<open>redeliver\<close>, which returns 0 without doing anything with it: the
  reply is neither delivered to anyone nor destroyed.
\<close>

theorem unread_reply_is_lost:
  assumes inv: "pm_inv mgr" and r: "pm_reg mgr x = Some (k, a)" and e: "mbox_list (pm_box mgr a) = [e]"
    and wait: "0 < timeout" "timeout * 1000 \<le> 2147483647"
  shows "\<exists>mgr1 mgr2. pmboxmgr_session_notify 32 sn mgr s ETCHEVT_SESSION_DOWN
      = Returns (fst (sn s ETCHEVT_SESSION_DOWN), mgr1, snd (sn s ETCHEVT_SESSION_DOWN))
    \<and> mbox_list (pm_box mgr1 a) = [e]
    \<and> tcpdelsvc_endcall 2 32 d cw result_of timeout default_timeout mgr1 a
        = Returns (- 1, Call_exception ''mailbox read error'', mgr2)
    \<and> etchmbox_close_read 2 32 d mgr1 a = Returns (0, [], mgr2) \<and> mbox_list (pm_box mgr2 a) = []"
proof -
  obtain mgr1 where m: "pmboxmgr_unregister_all 32 (mgr\<lparr>pm_is_connection_up := False\<rparr>) = Returns mgr1" "pm_inv mgr1"
    "pm_reg mgr1 = Map.empty" "length (pm_boxes mgr1) = length (pm_boxes mgr)"
    "etchmbox_is_closed (pm_box mgr1 a)" "mbox_list (pm_box mgr1 a) = [e]"
  proof -
    from session_down [OF inv] obtain mgr1 where
      "pmboxmgr_unregister_all 32 (mgr\<lparr>pm_is_connection_up := False\<rparr>) = Returns mgr1" "pm_inv mgr1"
      "pm_reg mgr1 = Map.empty" "length (pm_boxes mgr1) = length (pm_boxes mgr)"
      "\<forall>i. etchmbox_is_closed (pm_box mgr1 i) = ((\<exists>x k. pm_reg mgr x = Some (k, i)) \<or> etchmbox_is_closed (pm_box mgr i))"
      "\<forall>i. mbox_list (pm_box mgr1 i) = mbox_list (pm_box mgr i)" by blast
    then show thesis using r e by (intro that [of mgr1]) auto
  qed
  have a: "a < length (pm_boxes mgr1)" using pm_invD(4) [OF inv r] m(4) by simp
  have down: "pmboxmgr_session_notify 32 sn mgr s ETCHEVT_SESSION_DOWN
      = Returns (fst (sn s ETCHEVT_SESSION_DOWN), mgr1, snd (sn s ETCHEVT_SESSION_DOWN))"
    using m(1) by (simp add: pmboxmgr_session_notify_def ETCHEVT_SESSION_DOWN_def ETCHEVT_SESSION_UP_def split_beta)
  obtain mgr2 where cr: "etchmbox_close_read 2 32 d mgr1 a = Returns (0, [], mgr2)" "mbox_list (pm_box mgr2 a) = []"
    using close_read_closed_drops [OF m(2) a m(5,6,3), of d] by blast
  have same: "pm_update a (\<lambda>_. pm_box mgr1 a) mgr1 = mgr1" by (simp add: pm_update_def pm_box_def)
  have "tcpdelsvc_endcall 2 32 d cw result_of timeout default_timeout mgr1 a
      = Returns (- 1, Call_exception ''mailbox read error'', mgr2)"
    unfolding tcpdelsvc_endcall_def
    using read_closed [OF m(5), of timeout cw] wait cr(1) same by (simp add: Let_def)
  then show ?thesis using down cr m(6) by blast
qed

text \<open>
  C31. Mailboxes are told apart by the 32-bit hash of the message id only: a call whose new id has the
  hash of the id of an open call fails, and takes the registration of the other call with it, so that
  the reply to the other call is rejected.
\<close>

theorem colliding_id_evicts_mailbox:
  assumes inv: "pm_inv mgr" and up: "pm_is_connection_up mgr"
    and msg: "msg_id msg = None" "msg_in_reply_to msg = None" and n: "pm_message_id mgr + 1 \<noteq> 0"
    and old: "pm_reg mgr (msg_hash v) \<noteq> None" and same: "msg_hash (pm_message_id mgr + 1) = msg_hash v"
    and rep: "msg_in_reply_to rep = Some v"
  shows "\<exists>m mgr' mgr''. pmboxmgr_transport_call 32 tm mgr t w msg = (- 1, None, m, mgr', t)
    \<and> pm_reg mgr' (msg_hash v) = None
    \<and> pmboxmgr_session_message 32 cw sm mgr' s w (Some rep) = Returns (- 1, mgr'', s)"
proof -
  have "pm_reg mgr (msg_hash (pm_message_id mgr + 1)) \<noteq> None" using old same by simp
  from call_collision [OF inv up msg n this, of tm t w] obtain mgr' m where
    m: "pmboxmgr_transport_call 32 tm mgr t w msg = (- 1, None, m, mgr', t)" "pm_inv mgr'"
      "pm_reg mgr' = (pm_reg mgr)(msg_hash (pm_message_id mgr + 1) := None)" by blast
  then have "pm_reg mgr' (msg_hash v) = None" using same by simp
  then show ?thesis using m(1) session_message_spec [OF m(2) rep, of cw sm s w] by auto
qed

section \<open>Witnesses\<close>

type_synonym sample_mgr = "(nat, unit, unit) pmboxmgr"

definition sample_up :: "int64 \<Rightarrow> sample_mgr" where
  "sample_up now = (new_plain_mailbox_manager now)\<lparr>pm_is_connection_up := True\<rparr>"

definition sample_msg :: "nat \<Rightarrow> int64 option \<Rightarrow> nat etch_message" where
  "sample_msg addr irt = \<lparr>msg_addr = addr, msg_id = None, msg_in_reply_to = irt, msg_body = 7\<rparr>"

definition sample_ok :: "nat \<Rightarrow> unit \<Rightarrow> nat etch_message \<Rightarrow> int \<times> nat" where
  "sample_ok t w m = (0, t + 1)"

definition sample_wait :: "int \<Rightarrow> 'q \<Rightarrow> apr_status \<times> 'q" where
  "sample_wait timeout q = (APR_TIMEUP, q)"

lemma sample_up_inv [simp]: "pm_inv (sample_up now)"
  using create_ok by (simp add: sample_up_def new_plain_mailbox_manager_def pm_inv_def pm_reg_def)

lemma sample_up_fields [simp]:
  "pm_reg (sample_up now) = Map.empty" "pm_is_connection_up (sample_up now)" "pm_message_id (sample_up now) = now"
  by (simp_all add: sample_up_def new_plain_mailbox_manager_def pm_reg_def)

lemma sample_msg_fields [simp]:
  "msg_addr (sample_msg a i) = a" "msg_id (sample_msg a i) = None" "msg_in_reply_to (sample_msg a i) = i"
  by (simp_all add: sample_msg_def)

text \<open>Two message ids with the same hash.\<close>

lemma sample_hash: "msg_hash 5735 = 1003314864" "msg_hash 15515 = 1003314864"
  by (code_simp, code_simp)

text \<open>A manager with an open call whose reply has arrived.\<close>

lemma sample_replied:
  "\<exists>mgr :: sample_mgr. \<exists>k a. pm_inv mgr \<and> pm_is_connection_up mgr \<and> pm_reg mgr (msg_hash 5735) = Some (k, a)
    \<and> mbox_list (pm_box mgr a) = [\<lparr>me_msg = sample_msg 1 (Some 5735), me_whofrom = ()\<rparr>]"
proof -
  let ?m = "sample_up 5734"
  have "pm_message_id ?m + 1 \<noteq> 0" "msg_hash (pm_message_id ?m + 1) \<noteq> 0" by (simp_all add: sample_hash)
  from call_spec [OF sample_up_inv sample_up_fields(2) _ _ this, of "sample_msg 0 None" sample_ok 0 "()"]
  obtain m1 :: sample_mgr where m1: "pm_inv m1" "pm_reg m1 = [msg_hash 5735 \<mapsto> (msgid_key 32 5735, 0)]"
    "mbox_list (pm_box m1 0) = []"
    by (auto simp: sample_ok_def sample_up_def new_plain_mailbox_manager_def pm_reg_def sample_hash)
  have "msg_in_reply_to (sample_msg 1 (Some 5735)) = Some 5735" by simp
  from session_message_spec [OF m1(1) this, of sample_wait "\<lambda>s w m. (0, s)" "()" "()"] m1(2,3)
  obtain m2 :: sample_mgr where m2: "pm_inv m2" "pm_reg m2 = pm_reg m1"
    "mbox_list (pm_box m2 0) = [\<lparr>me_msg = sample_msg 1 (Some 5735), me_whofrom = ()\<rparr>]" by auto
  have "pm_is_connection_up m2" using pm_invD(5) [OF m2(1)] m2(2) m1(2) by (metis fun_upd_same option.distinct(1))
  then show ?thesis using m1(2) m2 by (intro exI [of _ m2] exI [of _ "msgid_key 32 5735"] exI [of _ 0]) simp
qed


lemma call_reply_returns_witness:
  "\<exists>a m mgr1 mgr2 mgr3.
      tcpdelsvc_begincall 32 sample_ok (sample_up 5734) 0 () (sample_msg 0 None) = (0, Some a, m, mgr1, 1)
    \<and> msg_id m = Some 5735
    \<and> pmboxmgr_session_message 32 sample_wait (\<lambda>s w m. (0, s)) mgr1 () () (Some (sample_msg 1 (Some 5735))) = Returns (0, mgr2, ())
    \<and> tcpdelsvc_endcall 1 32 False sample_wait (\<lambda>m. Some (msg_body m)) 4000 0 mgr2 a = Returns (0, Call_object 7, mgr3)"
proof -
  have h: "pm_message_id (sample_up 5734) + 1 = 5735" by simp
  have n: "pm_message_id (sample_up 5734) + 1 \<noteq> 0" "msg_hash (pm_message_id (sample_up 5734) + 1) \<noteq> 0"
    "pm_reg (sample_up 5734) (msg_hash (pm_message_id (sample_up 5734) + 1)) = None" by (simp_all add: sample_hash)
  have t: "sample_ok 0 () ((sample_msg 0 None)\<lparr>msg_id := Some (pm_message_id (sample_up 5734) + 1)\<rparr>) = (0, 1)"
    by (simp add: sample_ok_def)
  note r = call_reply_returns [where mgr = "sample_up 5734" and msg = "sample_msg 0 None" and tm = sample_ok
      and t = 0 and t' = 1 and w = "()" and rep = "sample_msg 1 (Some 5735)" and result_of = "\<lambda>m. Some (msg_body m)"
      and obj = 7 and timeout = 4000 and fuel = 0 and d = False and cw = sample_wait
      and sm = "\<lambda>s w m. (0, s)" and s = "()" and w' = "()"
      and default_timeout = 0, unfolded h]
  show ?thesis using r [of sample_wait] n t unfolding h by (simp add: sample_msg_def) blast
qed

lemma failed_call_unregisters_witness:
  "\<exists>m mgr'. pmboxmgr_transport_call 32 (\<lambda>t w m. (- 1, t)) (sample_up 5734) (0 :: nat) () (sample_msg 0 None)
      = (- 1, None, m, mgr', 0) \<and> pm_reg mgr' = Map.empty"
proof -
  have n: "pm_message_id (sample_up 5734) + 1 \<noteq> 0" "msg_hash (pm_message_id (sample_up 5734) + 1) \<noteq> 0"
    "pm_reg (sample_up 5734) (msg_hash (pm_message_id (sample_up 5734) + 1)) = None" by (simp_all add: sample_hash)
  from failed_call_unregisters [where tm = "\<lambda>t w m. (- 1, t)" and err = "- 1" and t = "0 :: nat" and t' = 0,
      OF sample_up_inv sample_up_fields(2) sample_msg_fields(2,3) n]
  show ?thesis by simp blast
qed

lemma second_reply_reads_out_of_bounds_witness:
  "\<exists>mgr :: sample_mgr. pmboxmgr_session_message 32 sample_wait (\<lambda>s w m. (0, s)) mgr () ()
      (Some (sample_msg 2 (Some 5735))) = Fault"
proof -
  obtain mgr :: sample_mgr and k a where m: "pm_inv mgr" "pm_reg mgr (msg_hash 5735) = Some (k, a)"
    "mbox_list (pm_box mgr a) = [\<lparr>me_msg = sample_msg 1 (Some 5735), me_whofrom = ()\<rparr>]"
    using sample_replied by blast
  show ?thesis
    by (rule exI, rule second_reply_reads_out_of_bounds [OF m]) simp_all
qed

lemma session_down_closes_all_witness:
  "\<exists>mgr'. pmboxmgr_session_notify 32 (\<lambda>s e. (0, s)) (sample_up 5) () ETCHEVT_SESSION_DOWN = Returns (0, mgr', ())
    \<and> pm_reg mgr' = Map.empty"
  using session_down_closes_all [OF sample_up_inv [of 5], of "\<lambda>s e. (0, s)" "()"] by auto

lemma unread_reply_is_lost_witness:
  "\<exists>mgr mgr1 mgr2 :: sample_mgr. \<exists>a.
      pmboxmgr_session_notify 32 (\<lambda>s e. (0, s)) mgr () ETCHEVT_SESSION_DOWN = Returns (0, mgr1, ())
    \<and> mbox_list (pm_box mgr1 a) = [\<lparr>me_msg = sample_msg 1 (Some 5735), me_whofrom = ()\<rparr>]
    \<and> tcpdelsvc_endcall 2 32 False sample_wait (\<lambda>m. Some (msg_body m)) 4000 0 mgr1 a
        = Returns (- 1, Call_exception ''mailbox read error'', mgr2)"
proof -
  obtain mgr :: sample_mgr and k a where m: "pm_inv mgr" "pm_reg mgr (msg_hash 5735) = Some (k, a)"
    "mbox_list (pm_box mgr a) = [\<lparr>me_msg = sample_msg 1 (Some 5735), me_whofrom = ()\<rparr>]"
    using sample_replied by blast
  from unread_reply_is_lost [OF m, of 4000 "\<lambda>s e. (0, s)" "()" False sample_wait "\<lambda>m. Some (msg_body m)" 0]
  show ?thesis by auto
qed

lemma colliding_id_evicts_mailbox_witness:
  "\<exists>(mgr :: sample_mgr) m mgr' mgr''. pm_reg mgr (msg_hash 5735) \<noteq> None
    \<and> pmboxmgr_transport_call 32 sample_ok mgr 0 () (sample_msg 3 None) = (- 1, None, m, mgr', 0)
    \<and> pmboxmgr_session_message 32 sample_wait (\<lambda>s w m. (0, s)) mgr' () () (Some (sample_msg 1 (Some 5735)))
        = Returns (- 1, mgr'', ())"
proof -
  obtain mgr :: sample_mgr and k a where m: "pm_inv mgr" "pm_reg mgr (msg_hash 5735) = Some (k, a)" "pm_is_connection_up mgr"
    using sample_replied by blast
  let ?m = "mgr\<lparr>pm_message_id := 15514\<rparr>"
  have i: "pm_inv ?m" "pm_reg ?m (msg_hash 5735) \<noteq> None" "pm_is_connection_up ?m"
    using m by (simp_all add: pm_inv_def pm_reg_def pm_box_def)
  have n: "pm_message_id ?m + 1 \<noteq> 0" "msg_hash (pm_message_id ?m + 1) = msg_hash 5735" by (simp_all add: sample_hash)
  show ?thesis
    using colliding_id_evicts_mailbox [where msg = "sample_msg 3 None" and rep = "sample_msg 1 (Some 5735)"
        and tm = sample_ok and t = 0 and w = "()" and cw = sample_wait and sm = "\<lambda>s w m. (0, s)" and s = "()",
        OF i(1,3) _ _ n(1) i(2) n(2)] i(2) by auto
qed

end
