(* ===== verification/Names.thy ===== *)
theory Names
  imports HashFunc
begin

text \<open>
  Names of types and fields, \<open>src/main/bindings/msg/etch_id_name.c\<close>: the id that is sent on the wire and
  the hash that the tables use.

  \<^item> A wide string is the list of its characters, of four bytes each, without the final zero.
  \<^item> \<open>transcode\<close> is \<open>etch_encoding_transcode_wchar\<close> to UTF-8; \<open>None\<close> is its error.
  \<^item> Whether \<open>char\<close> is signed depends on the platform: \<open>signed_char\<close>.  The arithmetic on \<open>int\<close> wraps.
\<close>

type_synonym wchar = int32

section \<open>The id of a name\<close>

definition char_int :: "bool \<Rightarrow> byte \<Rightarrow> int32" where
  "char_int signed_char c = (if signed_char then scast c else ucast c)"

definition id_step :: "int32 \<Rightarrow> int32 \<Rightarrow> int32" where
  "id_step c hash = (let h6 = push_bit 6 hash in push_bit 10 h6 + h6 - hash + c)"

definition compute_id_name_id :: "bool \<Rightarrow> byte list \<Rightarrow> int32" where
  "compute_id_name_id signed_char name = fold (\<lambda>c. id_step (char_int signed_char c)) name 5381"

definition compute_id_name_id_from_widename :: "(wchar list \<Rightarrow> byte list option) \<Rightarrow> bool \<Rightarrow> wchar list \<Rightarrow> int32" where
  "compute_id_name_id_from_widename transcode signed_char name =
     (case transcode name of None \<Rightarrow> - 1 | Some cbuf \<Rightarrow> compute_id_name_id signed_char cbuf)"

text \<open>The algorithm of the Java binding, on the UTF-16 characters of the name (\<open>Hash.java\<close>).\<close>

definition java_hash :: "int16 list \<Rightarrow> int32" where
  "java_hash name =
     fold (\<lambda>c hash. let h6 = push_bit 6 hash in push_bit 10 h6 + h6 - hash + ucast c) name 5381"

section \<open>The hash key of a name\<close>

definition wchar_bytes :: "wchar list \<Rightarrow> byte list" where
  "wchar_bytes s = concat (map (\<lambda>c. le_bytes 4 (ucast c)) s)"

definition etch_get_wchar_hashkey :: "nat \<Rightarrow> wchar list \<Rightarrow> int32" where
  "etch_get_wchar_hashkey ub4_bits s =
     (let keybytelen = length s * 4 in if keybytelen \<noteq> 0 then etchhash ub4_bits (wchar_bytes s) 0 else 0)"

section \<open>Names\<close>

record etch_id_name =
  idn_hashkey :: int32
  idn_obj_type :: int16
  idn_class_id :: int16
  idn_id :: int32
  idn_namebytelen :: nat
  idn_name :: "wchar list"
  idn_aname :: "byte list"

definition new_id_name :: "(wchar list \<Rightarrow> byte list option) \<Rightarrow> bool \<Rightarrow> nat \<Rightarrow> wchar list \<Rightarrow> etch_id_name option" where
  "new_id_name transcode signed_char ub4_bits name =
     (case transcode name of
        None \<Rightarrow> None
      | Some aname \<Rightarrow>
          Some \<lparr>idn_hashkey = etch_get_wchar_hashkey ub4_bits name, idn_obj_type = 0x14, idn_class_id = 0x23,
                idn_id = compute_id_name_id_from_widename transcode signed_char name,
                idn_namebytelen = (length name + 1) * 4, idn_name = name, idn_aname = aname\<rparr>)"

definition new_type :: "(wchar list \<Rightarrow> byte list option) \<Rightarrow> bool \<Rightarrow> nat \<Rightarrow> wchar list \<Rightarrow> etch_id_name option" where
  "new_type transcode signed_char ub4_bits name =
     map_option (\<lambda>newtype. newtype\<lparr>idn_obj_type := 0x16, idn_class_id := 0x25\<rparr>)
       (new_id_name transcode signed_char ub4_bits name)"

definition is_equal_id_names :: "etch_id_name \<Rightarrow> etch_id_name \<Rightarrow> bool" where
  "is_equal_id_names thisx thatx \<longleftrightarrow> idn_class_id thisx = idn_class_id thatx \<and> idn_id thisx = idn_id thatx"

section \<open>Properties\<close>

lemma id_step_mult: "id_step c hash = 65599 * hash + c"
proof -
  have "push_bit 10 (push_bit 6 hash) = 65536 * hash" "push_bit 6 hash = 64 * hash"
    by (simp_all add: push_bit_eq_mult ac_simps)
  then show ?thesis by (simp add: id_step_def Let_def algebra_simps)
qed

text \<open>The value of a polynomial with the characters as coefficients.\<close>

fun id_poly :: "int32 list \<Rightarrow> int32 \<Rightarrow> int32" where
  "id_poly [] h = h"
| "id_poly (c # cs) h = id_poly cs (65599 * h + c)"

lemma id_poly_sum: "id_poly cs h = 65599 ^ length cs * h + (\<Sum>i < length cs. 65599 ^ (length cs - 1 - i) * cs ! i)"
proof (induction cs arbitrary: h)
  case (Cons c cs)
  have "(\<Sum>i < length (c # cs). 65599 ^ (length (c # cs) - 1 - i) * (c # cs) ! i)
      = 65599 ^ length cs * c + (\<Sum>i < length cs. 65599 ^ (length cs - 1 - i) * cs ! i)"
    by (simp add: sum.lessThan_Suc_shift del: sum.lessThan_Suc)
  then show ?case using Cons.IH [of "65599 * h + c"] by (simp add: algebra_simps)
qed simp

lemma compute_id_poly: "compute_id_name_id s name = id_poly (map (char_int s) name) 5381"
proof -
  have "fold (\<lambda>c. id_step (char_int s c)) name h = id_poly (map (char_int s) name) h" for h
    by (induction name arbitrary: h) (simp_all add: id_step_mult)
  then show ?thesis by (simp add: compute_id_name_id_def)
qed

lemma java_poly: "java_hash name = id_poly (map ucast name) 5381"
proof -
  have "fold (\<lambda>c hash. let h6 = push_bit 6 hash in push_bit 10 h6 + h6 - hash + ucast c) name h = id_poly (map ucast name) h" for h
    by (induction name arbitrary: h) (simp_all add: id_step_mult [unfolded id_step_def])
  then show ?thesis by (simp add: java_hash_def)
qed

lemma char_int_ascii:
  assumes "c < 128"
  shows "char_int s c = ucast (ucast c :: int16)"
proof -
  have m: "\<not> bit c 7"
  proof
    assume "bit c 7"
    then have "bit (unat c) 7" by (simp add: bit_unsigned_iff)
    then have "odd (unat c div 2 ^ 7)" unfolding bit_iff_odd .
    moreover have "unat c < 128" using assms by (simp add: word_less_nat_alt)
    ultimately show False by simp
  qed
  have "\<not> bit c n" if "7 \<le> n" for n
    using m that bit_imp_le_length [of c n] by (cases "n = 7") auto
  then show ?thesis
    by (intro bit_word_eqI) (auto simp: char_int_def bit_simps min_def)
qed

text \<open>
  C25. The id of a name is the value at 65599 of the polynomial whose coefficients are 5381 and the
  characters, modulo \<open>2 ^ 32\<close>; for a name of ASCII characters it is the id that the Java binding
  computes, whether \<open>char\<close> is signed or not.
\<close>

theorem name_ids_agree_with_java:
  assumes "\<forall>c \<in> set name. c < 128"
  shows "compute_id_name_id signed_char name = java_hash (map ucast name)
    \<and> compute_id_name_id signed_char name = 65599 ^ length name * 5381
        + (\<Sum>i < length name. 65599 ^ (length name - 1 - i) * ucast (name ! i))"
proof -
  have "map (char_int signed_char) name = map ucast (map ucast name :: int16 list)"
    using assms by (simp add: char_int_ascii)
  moreover have "char_int signed_char (name ! i) = ucast (name ! i)" if "i < length name" for i
    using that assms char_int_ascii [of "name ! i" signed_char] char_int_ascii [of "name ! i" False]
    by (simp add: char_int_def)
  ultimately show ?thesis
    using compute_id_poly [of signed_char name] java_poly [of "map ucast name"]
    by (simp add: id_poly_sum)
qed

lemma name_ids_agree_with_java_witness:
  "compute_id_name_id True [97, 98, 99] = 669497117 \<and> java_hash [97, 98, 99] = 669497117"
proof -
  have "java_hash [97, 98, 99] = 669497117" by code_simp
  then show ?thesis using name_ids_agree_with_java [of "[97, 98, 99]" True] by simp
qed

text \<open>For a character outside ASCII, here e with an acute accent, the two bindings disagree.\<close>

lemma name_ids_differ_outside_ascii:
  "compute_id_name_id s [0xc3, 0xa9] \<noteq> java_hash [0xe9]"
  by (cases s) (simp_all, code_simp+)

end
