(* ===== verification/ArrayList.thy ===== *)
theory ArrayList
  imports HashTable
begin

text \<open>
  The array list of \<open>src/main/common/etch_arraylist.c\<close>, the lists \<open>get_map_keys\<close> and
  \<open>get_map_values\<close> of \<open>etch_hash.c\<close> and \<open>defvf_get_types\<close> of \<open>etch_default_value_factory.c\<close>.

  \<^item> An entry is a pointer: \<open>None\<close> is the null pointer.  \<open>al_base\<close> are the slots of the allocated block,
    \<open>al_size\<close> and \<open>al_delta\<close> count its bytes, as the code does; a pointer has 8 bytes.
  \<^item> The \<open>unsigned int\<close> fields are numbers whose wrap-around at \<open>2 ^ 32\<close> is written out (\<open>u32\<close>).
  \<^item> An operation returns \<open>None\<close> when it touches a slot outside the block.
  \<^item> An entry that is freed or whose destructor is called is returned in a list.  The hook
    \<open>al_freehook\<close> says of an index and an entry whether it took care of it.
  \<^item> Locks succeed; the lists of the model are not null.
\<close>

definition u32 :: "nat \<Rightarrow> nat" where
  "u32 n = n mod 4294967296"

text \<open>An \<open>unsigned int\<close> stored in an \<open>int\<close>, and back.\<close>

definition s32 :: "nat \<Rightarrow> int" where
  "s32 n = (if n < 2147483648 then int n else int n - 4294967296)"

definition s32_to_u32 :: "int \<Rightarrow> nat" where
  "s32_to_u32 i = nat (i mod 4294967296)"

definition sizeof_ptr :: nat where "sizeof_ptr = 8"
definition ETCHARRAYLIST_DEFSIZE :: nat where "ETCHARRAYLIST_DEFSIZE = 128"
definition ETCHARRAYLIST_CONTENT_SIMPLE :: nat where "ETCHARRAYLIST_CONTENT_SIMPLE = 0"
definition ETCHARRAYLIST_CONTENT_OBJECT :: nat where "ETCHARRAYLIST_CONTENT_OBJECT = 1"
definition CLASSID_ETCH_ARRAYLIST :: nat where "CLASSID_ETCH_ARRAYLIST = 0x2e"

record 'e etch_arraylist =
  al_class_id :: nat
  al_is_static :: nat
  al_base :: "'e option list"
  al_content_obj_type :: nat
  al_content_class_id :: nat
  al_count :: nat
  al_delta :: nat
  al_size :: nat
  al_is_readonly :: bool
  al_content_type :: nat
  al_freehook :: "(nat \<Rightarrow> 'e option \<Rightarrow> bool) option"

section \<open>Construction\<close>

definition new_etch_arraylist :: "nat \<Rightarrow> nat \<Rightarrow> 'e etch_arraylist" where
  "new_etch_arraylist initsize deltsize =
     (let size = (if initsize > 0 then initsize else ETCHARRAYLIST_DEFSIZE);
          delta = (if deltsize > 0 then deltsize else size);
          size = u32 (size * sizeof_ptr); delta = u32 (delta * sizeof_ptr)
      in \<lparr>al_class_id = CLASSID_ETCH_ARRAYLIST, al_is_static = 0,
          al_base = replicate (size div sizeof_ptr) None, al_content_obj_type = 0, al_content_class_id = 0,
          al_count = 0, al_delta = delta, al_size = size, al_is_readonly = False,
          al_content_type = ETCHARRAYLIST_CONTENT_SIMPLE, al_freehook = None\<rparr>)"

definition etch_arraylist_copyattrs :: "'e etch_arraylist \<Rightarrow> 'e etch_arraylist \<Rightarrow> 'e etch_arraylist" where
  "etch_arraylist_copyattrs to from =
     to\<lparr>al_class_id := al_class_id from, al_content_obj_type := al_content_obj_type from,
        al_content_class_id := al_content_class_id from, al_is_static := al_is_static from,
        al_content_type := al_content_type from, al_is_readonly := al_is_readonly from,
        al_freehook := al_freehook from\<rparr>"

text \<open>\<open>memcpy\<close> of \<open>n\<close> pointers to the front of a block.\<close>

definition copy_slots :: "'e option list \<Rightarrow> 'e option list \<Rightarrow> nat \<Rightarrow> 'e option list option" where
  "copy_slots to from n =
     (if n \<le> length from \<and> n \<le> length to then Some (take n from @ drop n to) else None)"

definition new_etch_arraylist_from :: "'e etch_arraylist \<Rightarrow> 'e etch_arraylist option" where
  "new_etch_arraylist_from thatlist =
     (let thislist = etch_arraylist_copyattrs (new_etch_arraylist (al_size thatlist) (al_delta thatlist)) thatlist
      in case copy_slots (al_base thislist) (al_base thatlist) (al_count thatlist) of
           None \<Rightarrow> None
         | Some base \<Rightarrow> Some (thislist\<lparr>al_base := base, al_count := al_count thatlist\<rparr>))"

section \<open>Maintenance\<close>

definition arraylist_realloc :: "'e etch_arraylist \<Rightarrow> nat \<Rightarrow> 'e etch_arraylist option" where
  "arraylist_realloc list bytes =
     (let newsize = (if bytes > al_size list then bytes else u32 (al_size list + al_delta list));
          copylength = u32 (al_count list * sizeof_ptr)
      in case copy_slots (replicate (newsize div sizeof_ptr) None) (al_base list) (copylength div sizeof_ptr) of
           None \<Rightarrow> None
         | Some newbase \<Rightarrow> Some (list\<lparr>al_base := newbase, al_size := newsize\<rparr>))"

definition arraylist_checksize :: "'e etch_arraylist \<Rightarrow> nat \<Rightarrow> (int \<times> 'e etch_arraylist) option" where
  "arraylist_checksize list pendingitems =
     (let newspace = u32 (pendingitems * sizeof_ptr); currsize = u32 (al_count list * sizeof_ptr)
      in if u32 (currsize + newspace) > al_size list
         then (case arraylist_realloc list (if newspace > al_delta list then newspace else 0) of
                 None \<Rightarrow> None
               | Some list \<Rightarrow> Some (1, list))
         else Some (0, list))"

text \<open>What is freed of one entry; the destructor of a null object faults.\<close>

definition free_entry :: "'e etch_arraylist \<Rightarrow> nat \<Rightarrow> 'e option \<Rightarrow> 'e list option" where
  "free_entry list i p =
     (let freehandled = (case al_freehook list of None \<Rightarrow> False | Some callback \<Rightarrow> callback i p)
      in if freehandled then Some []
         else case p of
                Some content \<Rightarrow> Some [content]
              | None \<Rightarrow> if al_content_type list = ETCHARRAYLIST_CONTENT_OBJECT then None else Some [])"

fun free_entries :: "'e etch_arraylist \<Rightarrow> nat \<Rightarrow> 'e option list \<Rightarrow> 'e list option" where
  "free_entries list i [] = Some []"
| "free_entries list i (p # ps) =
     (case free_entry list i p of
        None \<Rightarrow> None
      | Some freed \<Rightarrow> map_option (\<lambda>rest. freed @ rest) (free_entries list (i + 1) ps))"

definition etch_arraylist_clear :: "'e etch_arraylist \<Rightarrow> bool \<Rightarrow> ('e list \<times> 'e etch_arraylist) option" where
  "etch_arraylist_clear list is_free_content =
     (let items = al_count list in
      if items > length (al_base list) then None
      else case (if is_free_content \<and> \<not> al_is_readonly list
                 then free_entries list 0 (take items (al_base list)) else Some []) of
             None \<Rightarrow> None
           | Some freed \<Rightarrow>
               Some (freed, list\<lparr>al_base := replicate items None @ drop items (al_base list), al_count := 0\<rparr>))"

section \<open>Operations\<close>

text \<open>\<open>list->base[list->count++] = content\<close>, and a store to a slot.\<close>

definition put_slot :: "'e option list \<Rightarrow> nat \<Rightarrow> 'e option \<Rightarrow> 'e option list option" where
  "put_slot base i content = (if i < length base then Some (base[i := content]) else None)"

definition etch_arraylist_add :: "'e etch_arraylist \<Rightarrow> 'e option \<Rightarrow> (int \<times> 'e etch_arraylist) option" where
  "etch_arraylist_add list content = do {
     (_, list) \<leftarrow> arraylist_checksize list 1;
     base \<leftarrow> put_slot (al_base list) (al_count list) content;
     Some (0, list\<lparr>al_base := base, al_count := u32 (al_count list + 1)\<rparr>)
   }"

text \<open>Moving \<open>n\<close> entries up, from slot \<open>q - 1\<close> to slot \<open>q\<close> and on downwards; moving entries down.\<close>

fun shift_up :: "nat \<Rightarrow> nat \<Rightarrow> 'e option list \<Rightarrow> 'e option list option" where
  "shift_up 0 q base = Some base"
| "shift_up (Suc n) q base =
     (if 0 < q \<and> q < length base then shift_up n (q - 1) (base[q := base ! (q - 1)]) else None)"

fun shift_down :: "nat \<Rightarrow> nat \<Rightarrow> 'e option list \<Rightarrow> 'e option list option" where
  "shift_down 0 p base = Some base"
| "shift_down (Suc n) p base =
     (if p + 1 < length base then shift_down n (p + 1) (base[p := base ! (p + 1)]) else None)"

definition etch_arraylist_insert ::
  "'e etch_arraylist \<Rightarrow> nat \<Rightarrow> 'e option \<Rightarrow> (int \<times> 'e etch_arraylist) option" where
  "etch_arraylist_insert list i content = do {
     (_, list) \<leftarrow> arraylist_checksize list 1;
     (if i \<le> al_count list
      then do {
        base \<leftarrow> shift_up (al_count list - i) (al_count list) (al_base list);
        base \<leftarrow> put_slot base i content;
        Some (0, list\<lparr>al_base := base, al_count := u32 (al_count list + 1)\<rparr>)
      }
      else Some (- 1, list))
   }"

definition etch_arraylist_count :: "'e etch_arraylist \<Rightarrow> int" where
  "etch_arraylist_count list = s32 (al_count list)"

text \<open>The search loop, with the test of an entry as argument.\<close>

fun indexof_loop :: "('e option \<Rightarrow> bool) \<Rightarrow> 'e option list \<Rightarrow> nat \<Rightarrow> nat \<Rightarrow> int option" where
  "indexof_loop test base i 0 = Some (- 1)"
| "indexof_loop test base i (Suc n) =
     (if i < length base
      then if test (base ! i) then Some (s32 i) else indexof_loop test base (i + 1) n
      else None)"

definition etch_arraylist_indexofp :: "'e etch_arraylist \<Rightarrow> 'e option \<Rightarrow> nat \<Rightarrow> int option" where
  "etch_arraylist_indexofp list content startat =
     (if startat < al_count list
      then indexof_loop (\<lambda>p. p = content) (al_base list) startat (al_count list - startat)
      else Some (- 1))"

definition etch_arraylist_containsp :: "'e etch_arraylist \<Rightarrow> 'e option \<Rightarrow> nat \<Rightarrow> bool option" where
  "etch_arraylist_containsp list content startat =
     map_option (\<lambda>r. r \<noteq> - 1) (etch_arraylist_indexofp list content startat)"

definition etch_arraylist_indexof ::
  "'e etch_arraylist \<Rightarrow> 'e option \<Rightarrow> nat \<Rightarrow> ('e option \<Rightarrow> 'e option \<Rightarrow> int) \<Rightarrow> int option" where
  "etch_arraylist_indexof list content startat compare =
     (if startat < al_count list
      then indexof_loop (\<lambda>p. compare content p = 0) (al_base list) startat (al_count list - startat)
      else Some (- 1))"

definition etch_arraylist_contains ::
  "'e etch_arraylist \<Rightarrow> 'e option \<Rightarrow> nat \<Rightarrow> ('e option \<Rightarrow> 'e option \<Rightarrow> int) \<Rightarrow> bool option" where
  "etch_arraylist_contains list content startat compare =
     map_option (\<lambda>r. r \<noteq> - 1) (etch_arraylist_indexof list content startat compare)"

definition etch_arraylist_set ::
  "'e etch_arraylist \<Rightarrow> nat \<Rightarrow> 'e option \<Rightarrow> (int \<times> 'e etch_arraylist) option" where
  "etch_arraylist_set list i content =
     (if i < al_count list
      then map_option (\<lambda>base. (0, list\<lparr>al_base := base\<rparr>)) (put_slot (al_base list) i content)
      else Some (- 1, list))"

definition etch_arraylist_get :: "'e etch_arraylist \<Rightarrow> nat \<Rightarrow> 'e option option" where
  "etch_arraylist_get list i =
     (if i < al_count list
      then if i < length (al_base list) then Some (al_base list ! i) else None
      else Some None)"

definition etch_arraylist_remove ::
  "'e etch_arraylist \<Rightarrow> nat \<Rightarrow> bool \<Rightarrow> (int \<times> 'e list \<times> 'e etch_arraylist) option" where
  "etch_arraylist_remove list i is_free_content =
     (if i < al_count list
      then do {
        freed \<leftarrow> (if is_free_content \<and> \<not> al_is_readonly list
                  then do { content \<leftarrow> etch_arraylist_get list i;
                            (if content \<noteq> None then free_entry list i content else Some []) }
                  else Some []);
        let newcount = al_count list - 1;
        base \<leftarrow> shift_down (newcount - i) i (al_base list);
        base \<leftarrow> put_slot base newcount None;
        Some (0, freed, list\<lparr>al_base := base, al_count := newcount\<rparr>)
      }
      else Some (- 1, [], list))"

definition etch_arraylist_remove_content ::
  "'e etch_arraylist \<Rightarrow> 'e option \<Rightarrow> nat \<Rightarrow> ('e option \<Rightarrow> 'e option \<Rightarrow> int)
     \<Rightarrow> (int \<times> 'e list \<times> 'e etch_arraylist) option" where
  "etch_arraylist_remove_content list content startat compare = do {
     index \<leftarrow> etch_arraylist_indexof list content startat compare;
     (if index \<noteq> - 1 then etch_arraylist_remove list (s32_to_u32 index) True else Some (- 1, [], list))
   }"

section \<open>Iteration\<close>

record 'e list_iterator =
  li_current :: "'e option"
  li_ordinal :: int

definition etch_arraylist_iterable_first ::
  "'e etch_arraylist \<Rightarrow> 'e list_iterator \<Rightarrow> (int \<times> 'e list_iterator) option" where
  "etch_arraylist_iterable_first list iter =
     (if al_count list = 0 then Some (- 1, iter)
      else do {
        cur \<leftarrow> etch_arraylist_get list 0;
        let ord = (if cur \<noteq> None then 1 else 0);
        Some (if ord \<noteq> 0 then 0 else - 1, \<lparr>li_current = cur, li_ordinal = ord\<rparr>)
      })"

definition etch_arraylist_iterable_next ::
  "'e etch_arraylist \<Rightarrow> 'e list_iterator \<Rightarrow> (int \<times> 'e list_iterator) option" where
  "etch_arraylist_iterable_next list iter =
     (if s32 (al_count list) = 0 \<or> li_ordinal iter = 0 then Some (- 1, iter)
      else do {
        cur \<leftarrow> etch_arraylist_get list (s32_to_u32 (li_ordinal iter));
        let ord = (if cur \<noteq> None then li_ordinal iter + 1 else 0);
        Some (if ord \<noteq> 0 then 0 else - 1, \<lparr>li_current = cur, li_ordinal = ord\<rparr>)
      })"

definition etch_arraylist_iterable_has_next :: "'e etch_arraylist \<Rightarrow> 'e list_iterator \<Rightarrow> bool" where
  "etch_arraylist_iterable_has_next list iter \<longleftrightarrow>
     s32 (al_count list) \<noteq> 0 \<and> li_ordinal iter \<noteq> 0 \<and> li_ordinal iter \<le> s32 (al_count list)"

definition set_list_iterator :: "'e etch_arraylist \<Rightarrow> 'e list_iterator option" where
  "set_list_iterator list =
     map_option snd (etch_arraylist_iterable_first list \<lparr>li_current = None, li_ordinal = 0\<rparr>)"

section \<open>Adding the entries of another list\<close>

fun add_from_loop ::
  "nat \<Rightarrow> ('e option \<Rightarrow> 'e option \<Rightarrow> int) \<Rightarrow> 'e etch_arraylist \<Rightarrow> 'e list_iterator \<Rightarrow> 'e etch_arraylist \<Rightarrow> int
     \<Rightarrow> (int \<times> 'e etch_arraylist) outcome" where
  "add_from_loop 0 compare newitems iter list count = Diverges"
| "add_from_loop (Suc fuel) compare newitems iter list count =
     (if etch_arraylist_iterable_has_next newitems iter
      then (case etch_arraylist_contains list (li_current iter) 0 compare of
              None \<Rightarrow> Fault
            | Some True \<Rightarrow> add_from_loop fuel compare newitems iter list count
            | Some False \<Rightarrow>
                (case etch_arraylist_add list (li_current iter) of
                   None \<Rightarrow> Fault
                 | Some (_, list) \<Rightarrow>
                     (case etch_arraylist_iterable_next newitems iter of
                        None \<Rightarrow> Fault
                      | Some (_, iter) \<Rightarrow> add_from_loop fuel compare newitems iter list (count + 1))))
      else Returns (count, list))"

definition etch_arraylist_add_from ::
  "nat \<Rightarrow> 'e etch_arraylist \<Rightarrow> 'e etch_arraylist \<Rightarrow> ('e option \<Rightarrow> 'e option \<Rightarrow> int)
     \<Rightarrow> (int \<times> 'e etch_arraylist) outcome" where
  "etch_arraylist_add_from fuel list newitems compare =
     (if al_count newitems = 0 then Returns (0, list)
      else case set_list_iterator newitems of
             None \<Rightarrow> Fault
           | Some iter \<Rightarrow> add_from_loop fuel compare newitems iter list 0)"

section \<open>The lists of a hash table\<close>

fun map_list_loop ::
  "nat \<Rightarrow> ('k \<times> 'v \<Rightarrow> 'e) \<Rightarrow> ('k, 'v) htab \<Rightarrow> ('k \<times> 'v) hash_iterator \<Rightarrow> 'e etch_arraylist
     \<Rightarrow> ('e etch_arraylist \<times> ('k, 'v) htab) outcome" where
  "map_list_loop 0 f t iter list = Diverges"
| "map_list_loop (Suc fuel) f t iter list =
     (if hashtable_iterable_has_next iter
      then (case etch_arraylist_add list (map_option f (hit_current iter)) of
              None \<Rightarrow> Fault
            | Some (_, list) \<Rightarrow>
                (case hashtable_iterable_next t iter of (_, iter, t) \<Rightarrow> map_list_loop fuel f t iter list))
      else Returns (list, t))"

definition get_map_keys :: "nat \<Rightarrow> ('k, 'v) htab \<Rightarrow> ('k etch_arraylist \<times> ('k, 'v) htab) outcome" where
  "get_map_keys fuel t =
     (let list = (new_etch_arraylist (jenkins_count t) 0)
                   \<lparr>al_content_type := ETCHARRAYLIST_CONTENT_OBJECT, al_is_readonly := True\<rparr>
      in case set_hash_iterator t of (iter, t) \<Rightarrow> map_list_loop fuel fst t iter list)"

definition get_map_values :: "nat \<Rightarrow> nat \<Rightarrow> ('k, 'v) htab \<Rightarrow> ('v etch_arraylist \<times> ('k, 'v) htab) outcome" where
  "get_map_values fuel content_type t =
     (let list = (new_etch_arraylist (jenkins_count t) 0)
                   \<lparr>al_content_type := content_type, al_is_readonly := True\<rparr>
      in case set_hash_iterator t of (iter, t) \<Rightarrow> map_list_loop fuel snd t iter list)"

end
