(* ===== verification/ValueFactory.thy ===== *)
theory ValueFactory
  imports Names ArrayList
begin

text \<open>
  The types of a value factory, \<open>src/main/bindings/msg/etch_default_value_factory.c\<close>, and the list
  of the keys of a table (\<open>get_map_keys\<close> in \<open>ArrayList\<close>) that it returns.

  \<^item> A type object is known by its address; \<open>vt_id\<close> and \<open>vt_name\<close> are its id and name.  It is the key of
    the table of types, under the hash of its name; the table has no values.
  \<^item> The value factories are a list, a factory is known by its index; \<open>dvf_mixins\<close> holds indices.
    Walking over a table moves its position, so that a lookup returns the factories too.
  \<^item> Imported and exported values, the class map and the fields of messages are parameters of the
    serializer.  Locks succeed.
\<close>

record vf_type =
  vt_addr :: nat
  vt_id :: int32
  vt_name :: "wchar list"

record default_value_factory =
  dvf_types :: "(vf_type etch_key, unit) htab"
  dvf_mixins :: "nat etch_arraylist"

definition ETCH_DEVVF_MIXINS_DEFINITSIZE :: nat where "ETCH_DEVVF_MIXINS_DEFINITSIZE = 4"

text \<open>The header of a type object: the hash of its name, \<open>ETCHTYPEB_TYPE\<close> and \<open>CLASSID_ID_TYPE\<close>.\<close>

definition type_key :: "nat \<Rightarrow> vf_type \<Rightarrow> vf_type etch_key" where
  "type_key ub4_bits type =
     \<lparr>ko_hashkey = etch_get_wchar_hashkey ub4_bits (vt_name type), ko_obj_type = 0x16, ko_class_id = 0x25,
      ko_content = type\<rparr>"

definition new_vf_mixin_collection :: "nat etch_arraylist" where
  "new_vf_mixin_collection =
     (new_etch_arraylist ETCH_DEVVF_MIXINS_DEFINITSIZE 0)
       \<lparr>al_content_type := ETCHARRAYLIST_CONTENT_OBJECT, al_is_readonly := False\<rparr>"

definition new_default_value_factory :: "(vf_type etch_key, unit) htab \<Rightarrow> default_value_factory" where
  "new_default_value_factory typemap = \<lparr>dvf_types = typemap, dvf_mixins = new_vf_mixin_collection\<rparr>"

definition defvf_add_mixin ::
  "default_value_factory list \<Rightarrow> nat \<Rightarrow> nat \<Rightarrow> (int \<times> default_value_factory list) option" where
  "defvf_add_mixin vfs vf mixedin_vf =
     (case etch_arraylist_add (dvf_mixins (vfs ! vf)) (Some mixedin_vf) of
        None \<Rightarrow> None
      | Some (result, mixins) \<Rightarrow> Some (result, vfs[vf := (vfs ! vf)\<lparr>dvf_mixins := mixins\<rparr>]))"

section \<open>Lookup in one table\<close>

definition get_idname_by_name ::
  "nat \<Rightarrow> (vf_type etch_key, unit) htab \<Rightarrow> wchar list \<Rightarrow> vf_type option \<times> (vf_type etch_key, unit) htab" where
  "get_idname_by_name ub4_bits typemap name =
     (let (result, thisitem, typemap) = jenkins_findh typemap (etch_get_wchar_hashkey ub4_bits name)
      in (if result = 0 then map_option (ko_content \<circ> fst) thisitem else None, typemap))"

fun idname_by_id_loop ::
  "nat \<Rightarrow> int32 \<Rightarrow> (vf_type etch_key, unit) htab \<Rightarrow> (vf_type etch_key \<times> unit) hash_iterator
     \<Rightarrow> (vf_type option \<times> (vf_type etch_key, unit) htab) outcome" where
  "idname_by_id_loop 0 tid typemap iter = Diverges"
| "idname_by_id_loop (Suc fuel) tid typemap iter =
     (if hashtable_iterable_has_next iter
      then (case hit_current iter of
              None \<Rightarrow> Fault
            | Some (this_idname, _) \<Rightarrow>
                (if vt_id (ko_content this_idname) = tid then Returns (Some (ko_content this_idname), typemap)
                 else case hashtable_iterable_next typemap iter of (_, iter, typemap) \<Rightarrow> idname_by_id_loop fuel tid typemap iter))
      else Returns (None, typemap))"

definition get_idname_by_id ::
  "(vf_type etch_key, unit) htab \<Rightarrow> int32 \<Rightarrow> (vf_type option \<times> (vf_type etch_key, unit) htab) outcome" where
  "get_idname_by_id typemap tid =
     (case set_hash_iterator typemap of (iter, typemap) \<Rightarrow> idname_by_id_loop (Suc (jenkins_count typemap)) tid typemap iter)"

section \<open>Lookup through the mixins\<close>

text \<open>
  \<open>defvf_get_type_by_name\<close> and \<open>defvf_get_type_by_id\<close> differ in the lookup of their own table,
  \<open>own\<close>; the rest of both is this function and the loop over the mixins.
\<close>

fun vf_get_type ::
  "((vf_type etch_key, unit) htab \<Rightarrow> (vf_type option \<times> (vf_type etch_key, unit) htab) outcome)
     \<Rightarrow> nat \<Rightarrow> default_value_factory list \<Rightarrow> nat
     \<Rightarrow> (vf_type option \<times> default_value_factory list) outcome"
  and vf_mixins_loop ::
  "((vf_type etch_key, unit) htab \<Rightarrow> (vf_type option \<times> (vf_type etch_key, unit) htab) outcome)
     \<Rightarrow> nat \<Rightarrow> default_value_factory list \<Rightarrow> nat \<Rightarrow> nat list_iterator
     \<Rightarrow> (vf_type option \<times> default_value_factory list) outcome" where
  "vf_get_type own 0 vfs vf = Diverges"
| "vf_get_type own (Suc fuel) vfs vf =
     (case own (dvf_types (vfs ! vf)) of
        Returns (type, typemap) \<Rightarrow>
          let vfs = vfs[vf := (vfs ! vf)\<lparr>dvf_types := typemap\<rparr>] in
          if type \<noteq> None then Returns (type, vfs)
          else if al_count (dvf_mixins (vfs ! vf)) \<noteq> 0
          then (case set_list_iterator (dvf_mixins (vfs ! vf)) of
                  None \<Rightarrow> Fault
                | Some iterator \<Rightarrow> vf_mixins_loop own fuel vfs vf iterator)
          else Returns (None, vfs)
      | Fault \<Rightarrow> Fault
      | Diverges \<Rightarrow> Diverges)"
| "vf_mixins_loop own 0 vfs vf iterator = Diverges"
| "vf_mixins_loop own (Suc fuel) vfs vf iterator =
     (if etch_arraylist_iterable_has_next (dvf_mixins (vfs ! vf)) iterator
      then (case (if li_current iterator \<noteq> None \<and> li_current iterator \<noteq> Some vf
                  then vf_get_type own fuel vfs (the (li_current iterator)) else Returns (None, vfs)) of
              Returns (type, vfs) \<Rightarrow>
                if type \<noteq> None then Returns (type, vfs)
                else (case etch_arraylist_iterable_next (dvf_mixins (vfs ! vf)) iterator of
                        None \<Rightarrow> Fault
                      | Some (_, iterator) \<Rightarrow> vf_mixins_loop own fuel vfs vf iterator)
            | Fault \<Rightarrow> Fault
            | Diverges \<Rightarrow> Diverges)
      else Returns (None, vfs))"

definition defvf_get_type_by_name ::
  "nat \<Rightarrow> nat \<Rightarrow> default_value_factory list \<Rightarrow> nat \<Rightarrow> wchar list
     \<Rightarrow> (vf_type option \<times> default_value_factory list) outcome" where
  "defvf_get_type_by_name ub4_bits fuel vfs vf name =
     vf_get_type (\<lambda>typemap. Returns (get_idname_by_name ub4_bits typemap name)) fuel vfs vf"

definition defvf_get_type_by_id ::
  "nat \<Rightarrow> default_value_factory list \<Rightarrow> nat \<Rightarrow> int32
     \<Rightarrow> (vf_type option \<times> default_value_factory list) outcome" where
  "defvf_get_type_by_id fuel vfs vf tid = vf_get_type (\<lambda>typemap. get_idname_by_id typemap tid) fuel vfs vf"

section \<open>Adding a type\<close>

text \<open>The result: the effective type, whether the given one was destroyed, and the factories.\<close>

definition defvf_add_type ::
  "nat \<Rightarrow> nat \<Rightarrow> default_value_factory list \<Rightarrow> nat \<Rightarrow> vf_type
     \<Rightarrow> (vf_type option \<times> bool \<times> default_value_factory list) outcome" where
  "defvf_add_type ub4_bits fuel vfs vf type =
     (case jenkins_inserth ub4_bits (dvf_types (vfs ! vf)) (type_key ub4_bits type) () of
        (result, typemap) \<Rightarrow>
          let vfs = vfs[vf := (vfs ! vf)\<lparr>dvf_types := typemap\<rparr>] in
          (case (if result = - 1 then defvf_get_type_by_name ub4_bits fuel vfs vf (vt_name type)
                 else Returns (Some type, vfs)) of
             Returns (effective_type, vfs) \<Rightarrow>
               Returns (effective_type,
                 effective_type \<noteq> None \<and> map_option vt_addr effective_type \<noteq> Some (vt_addr type), vfs)
           | Fault \<Rightarrow> Fault
           | Diverges \<Rightarrow> Diverges))"

section \<open>The list of all types\<close>

definition etchtypelist_comparator :: "vf_type etch_key option \<Rightarrow> vf_type etch_key option \<Rightarrow> int" where
  "etchtypelist_comparator a b =
     (case (a, b) of
        (Some a, Some b) \<Rightarrow> if vt_id (ko_content a) = vt_id (ko_content b) then 1 else 0
      | _ \<Rightarrow> 0)"

fun get_types_loop ::
  "nat \<Rightarrow> default_value_factory list \<Rightarrow> nat \<Rightarrow> nat list_iterator \<Rightarrow> vf_type etch_key etch_arraylist
     \<Rightarrow> (vf_type etch_key etch_arraylist \<times> default_value_factory list) outcome" where
  "get_types_loop 0 vfs vf iterator typeslist = Diverges"
| "get_types_loop (Suc fuel) vfs vf iterator typeslist =
     (if etch_arraylist_iterable_has_next (dvf_mixins (vfs ! vf)) iterator
      then (case (if li_current iterator \<noteq> None \<and> li_current iterator \<noteq> Some vf
                  then (let mvf = the (li_current iterator) in
                        case get_map_keys (Suc (jenkins_count (dvf_types (vfs ! mvf)))) (dvf_types (vfs ! mvf)) of
                          Returns (mvflist, typemap) \<Rightarrow>
                            (case etch_arraylist_add_from fuel typeslist mvflist etchtypelist_comparator of
                               Returns (_, typeslist) \<Rightarrow> Returns (typeslist, vfs[mvf := (vfs ! mvf)\<lparr>dvf_types := typemap\<rparr>])
                             | Fault \<Rightarrow> Fault
                             | Diverges \<Rightarrow> Diverges)
                        | Fault \<Rightarrow> Fault
                        | Diverges \<Rightarrow> Diverges)
                  else Returns (typeslist, vfs)) of
              Returns (typeslist, vfs) \<Rightarrow>
                (case etch_arraylist_iterable_next (dvf_mixins (vfs ! vf)) iterator of
                   None \<Rightarrow> Fault
                 | Some (_, iterator) \<Rightarrow> get_types_loop fuel vfs vf iterator typeslist)
            | Fault \<Rightarrow> Fault
            | Diverges \<Rightarrow> Diverges)
      else Returns (typeslist, vfs))"

definition defvf_get_types ::
  "nat \<Rightarrow> default_value_factory list \<Rightarrow> nat
     \<Rightarrow> (vf_type etch_key etch_arraylist \<times> default_value_factory list) outcome" where
  "defvf_get_types fuel vfs vf =
     (case get_map_keys (Suc (jenkins_count (dvf_types (vfs ! vf)))) (dvf_types (vfs ! vf)) of
        Returns (typeslist, typemap) \<Rightarrow>
          let vfs = vfs[vf := (vfs ! vf)\<lparr>dvf_types := typemap\<rparr>] in
          if al_count (dvf_mixins (vfs ! vf)) \<noteq> 0
          then (case set_list_iterator (dvf_mixins (vfs ! vf)) of
                  None \<Rightarrow> Fault
                | Some iterator \<Rightarrow> get_types_loop fuel vfs vf iterator typeslist)
          else Returns (typeslist, vfs)
      | Fault \<Rightarrow> Fault
      | Diverges \<Rightarrow> Diverges)"

end
