(* ===== verification/ListContract.thy ===== *)
theory ListContract
  imports Prelude
begin

text \<open>
  The contract of an object whose calls are those of a simple specification: from every state of the
  invariant, while there is room, a call gives the result of the specification, undefined behaviour
  included, and leads to the state that the specification leads to.  It is interpreted on the array
  list and on the linked list, whose specifications are functions on HOL lists.
\<close>

primrec run_calls :: "('op \<Rightarrow> 's \<Rightarrow> ('r \<times> 's) outcome) \<Rightarrow> 'op list \<Rightarrow> 's \<Rightarrow> ('r list \<times> 's) outcome" where
  "run_calls exec [] s = Returns ([], s)"
| "run_calls exec (op # ops) s =
     (case exec op s of
        Returns (r, s) \<Rightarrow>
          (case run_calls exec ops s of
             Returns (rs, s) \<Rightarrow> Returns (r # rs, s)
           | Fault \<Rightarrow> Fault
           | Diverges \<Rightarrow> Diverges)
      | Fault \<Rightarrow> Fault
      | Diverges \<Rightarrow> Diverges)"

locale list_object =
  fixes inv :: "'s \<Rightarrow> bool"
    and abs_list :: "'s \<Rightarrow> 'e list"
    and exec :: "'op \<Rightarrow> 's \<Rightarrow> ('r \<times> 's) outcome"
    and spec :: "'op \<Rightarrow> 'e list \<Rightarrow> ('r \<times> 'e list) outcome"
    and room :: nat
  assumes refines: "inv s \<Longrightarrow> length (abs_list s) < room \<Longrightarrow>
      (case spec op (abs_list s) of
         Returns (r, l) \<Rightarrow> \<exists>s'. exec op s = Returns (r, s') \<and> inv s' \<and> abs_list s' = l
       | Fault \<Rightarrow> exec op s = Fault
       | Diverges \<Rightarrow> exec op s = Diverges)"
    and grows: "spec op l = Returns (r, l') \<Longrightarrow> length l' \<le> length l + 1"
begin

lemma run_refines:
  assumes "inv s" and "length (abs_list s) + length ops \<le> room"
  shows "case run_calls spec ops (abs_list s) of
           Returns (rs, l) \<Rightarrow> \<exists>s'. run_calls exec ops s = Returns (rs, s') \<and> inv s' \<and> abs_list s' = l
         | Fault \<Rightarrow> run_calls exec ops s = Fault
         | Diverges \<Rightarrow> run_calls exec ops s = Diverges"
  using assms
proof (induction ops arbitrary: s)
  case Nil
  then show ?case by simp
next
  case (Cons op ops)
  from Cons.prems have room: "length (abs_list s) < room" by simp
  show ?case
  proof (cases "spec op (abs_list s)")
    case (Returns p)
    then obtain r l where rl: "spec op (abs_list s) = Returns (r, l)" by (cases p) auto
    from refines [OF Cons.prems(1) room, of op] rl obtain s' where
      s': "exec op s = Returns (r, s')" "inv s'" "abs_list s' = l" by auto
    have "length (abs_list s') + length ops \<le> room"
      using grows [OF rl] Cons.prems(2) s'(3) by simp
    from Cons.IH [OF s'(2) this] show ?thesis
      using rl s' by (auto split: outcome.splits)
  qed (use refines [OF Cons.prems(1) room, of op] in simp_all)
qed

end

end
