(* ===== verification/ArrayList_Correct.thy ===== *)
theory ArrayList_Correct
  imports ArrayList ListContract HashTable_Correct
begin

text \<open>
  The array list behaves as a list: the invariant of its block, the effect of every operation on the
  list of its entries, and the interpretation of the contract \<open>list_object\<close>.  Adding the entries of
  another list ends exactly when no entry is found equal to one that is there; copies of copies
  overflow.
\<close>

section \<open>Invariant and abstraction\<close>

definition al_ok :: "'e etch_arraylist \<Rightarrow> bool" where
  "al_ok l \<longleftrightarrow> al_size l = 8 * length (al_base l) \<and> al_count l \<le> length (al_base l)
     \<and> 8 dvd al_delta l \<and> 0 < al_delta l \<and> al_delta l < 4294967296 \<and> al_size l < 4294967296"

definition al_list :: "'e etch_arraylist \<Rightarrow> 'e option list" where
  "al_list l = take (al_count l) (al_base l)"

text \<open>The number of entries below which an entry can be added without a wrap-around of the sizes.\<close>

definition al_room :: "'e etch_arraylist \<Rightarrow> nat" where
  "al_room l = (4294967295 - al_delta l) div 8 + 1"

definition al_same :: "'e etch_arraylist \<Rightarrow> 'e etch_arraylist \<Rightarrow> bool" where
  "al_same a l \<longleftrightarrow> al_delta l = al_delta a \<and> al_is_readonly l = al_is_readonly a
     \<and> al_content_type l = al_content_type a \<and> al_freehook l = al_freehook a"

lemmas al_defs = al_ok_def al_list_def al_room_def al_same_def

lemma length_al_list [simp]: "al_ok l \<Longrightarrow> length (al_list l) = al_count l"
  by (simp add: al_defs)

lemma al_list_nth: "i < al_count l \<Longrightarrow> al_list l ! i = al_base l ! i"
  by (simp add: al_list_def)

lemma al_room_bound:
  assumes "n < al_room l" and "al_ok l"
  shows "8 * n + al_delta l < 4294967296" and "8 * (n + 1) < 4294967297"
proof -
  from assms(1) have "8 * n \<le> 4294967295 - al_delta l" by (simp add: al_room_def)
  moreover have "al_delta l < 4294967296" using assms(2) by (simp add: al_ok_def)
  ultimately show "8 * n + al_delta l < 4294967296" by arith
  moreover have "8 \<le> al_delta l" using assms(2) by (auto simp: al_ok_def dvd_def)
  ultimately show "8 * (n + 1) < 4294967297" by simp
qed

lemma al_same_refl [simp]: "al_same l l"
  by (simp add: al_same_def)

lemma free_entry_same: "al_same a l \<Longrightarrow> free_entry l = free_entry a"
  by (simp add: al_same_def free_entry_def fun_eq_iff)

lemma free_entries_same: "al_same a l \<Longrightarrow> free_entries l i ps = free_entries a i ps"
  by (induction ps arbitrary: i) (auto simp: free_entry_same split: option.split)

lemma new_arraylist_ok:
  assumes "n < 536870912" and "d < 536870912"
  shows "al_ok (new_etch_arraylist n d)" and "al_list (new_etch_arraylist n d) = []"
  using assms by (auto simp: new_etch_arraylist_def al_defs Let_def u32_def sizeof_ptr_def ETCHARRAYLIST_DEFSIZE_def)

section \<open>Room for one more entry\<close>

lemma checksize_room:
  assumes ok: "al_ok l" and room: "al_count l < al_room l"
  obtains r b s where "arraylist_checksize l 1 = Some (r, l\<lparr>al_base := b, al_size := s\<rparr>)"
    and "s = 8 * length b" and "s < 4294967296" and "al_count l < length b"
    and "take (al_count l) b = take (al_count l) (al_base l)"
proof -
  note bd = al_room_bound [OF room ok]
  have d: "8 \<le> al_delta l" using ok by (auto simp: al_ok_def dvd_def)
  have c: "8 * al_count l + 8 < 4294967296 \<or> al_delta l = 8" using bd d by linarith
  show thesis
  proof (cases "al_count l < length (al_base l)")
    case True
    then have "8 * al_count l + 8 \<le> al_size l" "al_size l < 4294967296" using ok by (simp_all add: al_ok_def)
    then have "arraylist_checksize l 1 = Some (0, l\<lparr>al_base := al_base l, al_size := al_size l\<rparr>)"
      by (simp add: arraylist_checksize_def sizeof_ptr_def u32_def mult.commute)
    then show thesis by (rule that) (use ok True in \<open>simp_all add: al_ok_def\<close>)
  next
    case False
    then have full: "length (al_base l) = al_count l" "al_size l = 8 * al_count l"
      using ok by (simp_all add: al_ok_def)
    have more: "8 * al_count l + 8 < 4294967296" using bd d by linarith
    obtain k where k: "al_delta l = 8 * k" using ok by (auto simp: al_ok_def dvd_def)
    then have k1: "8 * (al_count l + k) < 4294967296" "0 < k" using bd d by simp_all
    define b where "b = al_base l @ replicate k None"
    have "arraylist_checksize l 1 = Some (1, l\<lparr>al_base := b, al_size := 8 * (al_count l + k)\<rparr>)"
      using full more k k1 d
      by (simp add: arraylist_checksize_def arraylist_realloc_def copy_slots_def sizeof_ptr_def u32_def b_def
          mult.commute distrib_left flip: distrib_left)
    then show thesis by (rule that) (use full k1 in \<open>simp_all add: b_def\<close>)
  qed
qed

section \<open>Moving entries\<close>

lemma shift_up_nth:
  "n \<le> q \<Longrightarrow> q < length b \<Longrightarrow> \<exists>b'. shift_up n q b = Some b' \<and> length b' = length b
     \<and> (\<forall>j < length b. b' ! j = (if q - n < j \<and> j \<le> q then b ! (j - 1) else b ! j))"
proof (induction n arbitrary: q b)
  case (Suc n)
  let ?b = "b[q := b ! (q - 1)]"
  have "n \<le> q - 1" "q - 1 < length ?b" using Suc.prems by simp_all
  from Suc.IH [OF this] obtain b' where b': "shift_up n (q - 1) ?b = Some b'" "length b' = length ?b"
    "\<forall>j < length ?b. b' ! j = (if q - 1 - n < j \<and> j \<le> q - 1 then ?b ! (j - 1) else ?b ! j)" by blast
  have "b' ! j = (if q - Suc n < j \<and> j \<le> q then b ! (j - 1) else b ! j)" if "j < length b" for j
    using that b'(3) Suc.prems by (auto simp: nth_list_update)
  then show ?case using b' Suc.prems by simp
qed auto

lemma shift_down_nth:
  "p + n < length b \<Longrightarrow> \<exists>b'. shift_down n p b = Some b' \<and> length b' = length b
     \<and> (\<forall>j < length b. b' ! j = (if p \<le> j \<and> j < p + n then b ! (j + 1) else b ! j))"
proof (induction n arbitrary: p b)
  case (Suc n)
  let ?b = "b[p := b ! (p + 1)]"
  have "p + 1 + n < length ?b" using Suc.prems by simp
  from Suc.IH [OF this] obtain b' where b': "shift_down n (p + 1) ?b = Some b'" "length b' = length ?b"
    "\<forall>j < length ?b. b' ! j = (if p + 1 \<le> j \<and> j < p + 1 + n then ?b ! (j + 1) else ?b ! j)" by blast
  have "b' ! j = (if p \<le> j \<and> j < p + Suc n then b ! (j + 1) else b ! j)" if "j < length b" for j
    using that b'(3) Suc.prems by (auto simp: nth_list_update)
  then show ?case using b' Suc.prems by simp
qed auto

lemma insert_slots:
  assumes "i \<le> c" and "c < length b"
  shows "\<exists>b'. shift_up (c - i) c b = Some b' \<and> i < length b' \<and> length b' = length b
    \<and> take (c + 1) (b'[i := x]) = take i (take c b) @ x # drop i (take c b)"
proof -
  have i: "c - (c - i) = i" using assms by simp
  from shift_up_nth [of "c - i" c b, unfolded i] assms obtain b' where b': "shift_up (c - i) c b = Some b'"
    "length b' = length b" "\<forall>j < length b. b' ! j = (if i < j \<and> j \<le> c then b ! (j - 1) else b ! j)" by auto
  have "take (c + 1) (b'[i := x]) = take i (take c b) @ x # drop i (take c b)"
  proof (rule nth_equalityI)
    fix j assume "j < length (take (c + 1) (b'[i := x]))"
    then have j: "j \<le> c" "j < length b" using b'(2) assms by auto
    show "take (c + 1) (b'[i := x]) ! j = (take i (take c b) @ x # drop i (take c b)) ! j"
      using j assms b' by (auto simp: nth_append nth_list_update nth_Cons' min_def)
  qed (use assms b' in simp)
  then show ?thesis using b' assms by (intro exI [of _ b']) simp
qed

lemma remove_slots:
  assumes "i < c" and "c \<le> length b"
  shows "\<exists>b'. shift_down (c - 1 - i) i b = Some b' \<and> length b' = length b
    \<and> take (c - 1) (b'[c - 1 := x]) = take i (take c b) @ drop (i + 1) (take c b)"
proof -
  have i: "i + (c - 1 - i) = c - 1" "c - 1 < length b" using assms by simp_all
  from shift_down_nth [of i "c - 1 - i" b, unfolded i(1), OF i(2)] obtain b' where
    b': "shift_down (c - 1 - i) i b = Some b'" "length b' = length b"
      "\<forall>j < length b. b' ! j = (if i \<le> j \<and> j < c - 1 then b ! (j + 1) else b ! j)" by blast
  have "take (c - 1) (b'[c - 1 := x]) = take i (take c b) @ drop (i + 1) (take c b)"
  proof (rule nth_equalityI)
    fix j assume "j < length (take (c - 1) (b'[c - 1 := x]))"
    then have j: "j < c - 1" "j < length b" using b'(2) assms by auto
    show "take (c - 1) (b'[c - 1 := x]) ! j = (take i (take c b) @ drop (i + 1) (take c b)) ! j"
      using j assms b' by (auto simp: nth_append nth_list_update min_def)
  qed (use assms b' in simp)
  then show ?thesis using b' by (intro exI [of _ b']) simp
qed

section \<open>Searching\<close>

definition index_from :: "('a \<Rightarrow> bool) \<Rightarrow> 'a list \<Rightarrow> nat \<Rightarrow> int" where
  "index_from P xs startat = (case find (\<lambda>i. P (xs ! i)) [startat..<length xs] of None \<Rightarrow> - 1 | Some i \<Rightarrow> int i)"

lemma index_from_bound: "index_from P xs s \<noteq> - 1 \<Longrightarrow> 0 \<le> index_from P xs s \<and> index_from P xs s < int (length xs)"
  by (auto simp: index_from_def find_Some_iff split: option.splits)

lemma index_from_none: "index_from P xs s = - 1 \<longleftrightarrow> (\<forall>i. s \<le> i \<longrightarrow> i < length xs \<longrightarrow> \<not> P (xs ! i))"
proof -
  have "index_from P xs s = - 1 \<longleftrightarrow> find (\<lambda>i. P (xs ! i)) [s..<length xs] = None"
    by (simp add: index_from_def split: option.split)
  then show ?thesis by (auto simp: find_None_iff)
qed

lemma indexof_loop_find:
  assumes "i + n \<le> length b" and "length b < 2147483648"
  shows "indexof_loop P b i n = Some (case find (\<lambda>j. P (b ! j)) [i..<i + n] of None \<Rightarrow> - 1 | Some j \<Rightarrow> int j)"
  using assms
proof (induction n arbitrary: i)
  case (Suc n)
  have "[i..<i + Suc n] = i # [i + 1..<i + 1 + n]" by (simp add: upt_conv_Cons del: upt_Suc)
  then show ?case using Suc by (simp add: s32_def del: upt_Suc)
qed simp

lemma find_nth_take: "n \<le> length b \<Longrightarrow> find (\<lambda>j. P (take n b ! j)) [s..<n] = find (\<lambda>j. P (b ! j)) [s..<n]"
  by (rule find_cong) auto

lemma room_small: "al_ok l \<Longrightarrow> al_count l < al_room l \<Longrightarrow> al_count l < 536870912"
  using al_room_bound(1) [of "al_count l" l] by (simp add: al_ok_def)

lemma indexof_al:
  assumes ok: "al_ok l" and room: "al_count l \<le> al_room l"
  shows "(if s < al_count l then indexof_loop P (al_base l) s (al_count l - s) else Some (- 1))
    = Some (index_from P (al_list l) s)"
proof (cases "s < al_count l")
  case True
  let ?b = "al_base l" and ?c = "al_count l"
  have c: "?c \<le> length ?b" "length ?b < 2147483648" using ok by (simp_all add: al_ok_def)
  have "indexof_loop P ?b s (?c - s) = Some (case find (\<lambda>j. P (?b ! j)) [s..<?c] of None \<Rightarrow> - 1 | Some j \<Rightarrow> int j)"
    using indexof_loop_find [of s "?c - s" ?b P] c True by simp
  then show ?thesis using True c ok find_nth_take [OF c(1), of P s] by (simp add: index_from_def al_list_def min_def)
qed (use ok in \<open>simp add: index_from_def\<close>)

section \<open>The operations\<close>

lemma al_list_update: "take n (b[i := x]) = (take n b)[i := x]"
  by (rule take_update_swap)

lemma u32_small: "n < 4294967296 \<Longrightarrow> u32 n = n"
  by (simp add: u32_def)

lemma add_al:
  assumes ok: "al_ok l" and room: "al_count l < al_room l"
  shows "\<exists>l'. etch_arraylist_add l x = Some (0, l') \<and> al_ok l' \<and> al_same l l' \<and> al_list l' = al_list l @ [x]"
proof -
  from checksize_room [OF assms] obtain r b s where
    b: "arraylist_checksize l 1 = Some (r, l\<lparr>al_base := b, al_size := s\<rparr>)" "s = 8 * length b" "s < 4294967296"
      "al_count l < length b" "take (al_count l) b = take (al_count l) (al_base l)" .
  have u: "u32 (al_count l + 1) = al_count l + 1" using room_small [OF assms] by (simp add: u32_def)
  let ?l = "l\<lparr>al_base := b[al_count l := x], al_size := s, al_count := al_count l + 1\<rparr>"
  have "etch_arraylist_add l x = Some (0, ?l)" using b u by (simp add: etch_arraylist_add_def put_slot_def)
  moreover have "al_list ?l = al_list l @ [x]" using b(4,5) ok
    by (simp add: al_list_def take_Suc_conv_app_nth al_list_update list_update_append al_ok_def min_def)
  moreover have "al_ok ?l \<and> al_same l ?l" using ok b by (simp add: al_ok_def al_same_def)
  ultimately show ?thesis by blast
qed

lemma insert_al:
  assumes ok: "al_ok l" and room: "al_count l < al_room l"
  shows "\<exists>l'. etch_arraylist_insert l i x = Some (if i \<le> al_count l then 0 else - 1, l') \<and> al_ok l' \<and> al_same l l'
    \<and> al_list l' = (if i \<le> al_count l then take i (al_list l) @ x # drop i (al_list l) else al_list l)"
proof -
  from checksize_room [OF assms] obtain r b s where
    b: "arraylist_checksize l 1 = Some (r, l\<lparr>al_base := b, al_size := s\<rparr>)" "s = 8 * length b" "s < 4294967296"
      "al_count l < length b" "take (al_count l) b = take (al_count l) (al_base l)" .
  have u: "u32 (al_count l + 1) = al_count l + 1" using room_small [OF assms] by (simp add: u32_def)
  show ?thesis
  proof (cases "i \<le> al_count l")
    case True
    from insert_slots [OF True b(4), of x] obtain b' where b': "shift_up (al_count l - i) (al_count l) b = Some b'"
      "i < length b'" "length b' = length b"
      "take (al_count l + 1) (b'[i := x]) = take i (take (al_count l) b) @ x # drop i (take (al_count l) b)" by blast
    let ?l = "l\<lparr>al_base := b'[i := x], al_size := s, al_count := al_count l + 1\<rparr>"
    have "etch_arraylist_insert l i x = Some (0, ?l)"
      using b b' u True by (simp add: etch_arraylist_insert_def put_slot_def)
    moreover have "al_list ?l = take i (al_list l) @ x # drop i (al_list l)" using b'(4) b(5) by (simp add: al_list_def)
    moreover have "al_ok ?l \<and> al_same l ?l" using ok b b' by (simp add: al_ok_def al_same_def)
    ultimately show ?thesis using True by auto
  next
    case False
    let ?l = "l\<lparr>al_base := b, al_size := s\<rparr>"
    have "etch_arraylist_insert l i x = Some (- 1, ?l)" using b False by (simp add: etch_arraylist_insert_def)
    moreover have "al_list ?l = al_list l" using b(5) by (simp add: al_list_def)
    moreover have "al_ok ?l \<and> al_same l ?l" using ok b by (simp add: al_ok_def al_same_def)
    ultimately show ?thesis using False by auto
  qed
qed

lemma set_al:
  assumes ok: "al_ok l"
  shows "\<exists>l'. etch_arraylist_set l i x = Some (if i < al_count l then 0 else - 1, l') \<and> al_ok l' \<and> al_same l l'
    \<and> al_list l' = (al_list l)[i := x]"
proof (cases "i < al_count l")
  case True
  then show ?thesis using ok
    by (auto simp: etch_arraylist_set_def put_slot_def al_ok_def al_same_def al_list_def al_list_update)
qed (use ok in \<open>simp add: etch_arraylist_set_def list_update_beyond\<close>)

lemma get_al: "al_ok l \<Longrightarrow> etch_arraylist_get l i = Some (if i < al_count l then al_list l ! i else None)"
  by (simp add: etch_arraylist_get_def al_ok_def al_list_nth)

text \<open>What a removal or a clearing frees.\<close>

definition removed_entry :: "'e etch_arraylist \<Rightarrow> bool \<Rightarrow> nat \<Rightarrow> 'e option \<Rightarrow> 'e list option" where
  "removed_entry l f i p = (if f \<and> \<not> al_is_readonly l \<and> p \<noteq> None then free_entry l i p else Some [])"

lemma removed_entry_not_None: "removed_entry l f i p \<noteq> None"
  by (auto simp: removed_entry_def free_entry_def)

lemma remove_al:
  assumes ok: "al_ok l"
  shows "\<exists>l'. etch_arraylist_remove l i f = Some (if i < al_count l then 0 else - 1,
        if i < al_count l then the (removed_entry l f i (al_list l ! i)) else [], l') \<and> al_ok l' \<and> al_same l l'
    \<and> al_list l' = (if i < al_count l then take i (al_list l) @ drop (i + 1) (al_list l) else al_list l)"
proof (cases "i < al_count l")
  case True
  let ?c = "al_count l"
  have c: "?c \<le> length (al_base l)" using ok by (simp add: al_ok_def)
  from remove_slots [OF True c, of None] obtain b' where b': "shift_down (?c - 1 - i) i (al_base l) = Some b'"
    "length b' = length (al_base l)"
    "take (?c - 1) (b'[?c - 1 := None]) = take i (take ?c (al_base l)) @ drop (i + 1) (take ?c (al_base l))" by blast
  obtain fr where fr: "removed_entry l f i (al_list l ! i) = Some fr"
    using removed_entry_not_None [of l f i "al_list l ! i"] by auto
  let ?l = "l\<lparr>al_base := b'[?c - 1 := None], al_count := ?c - 1\<rparr>"
  have "etch_arraylist_remove l i f = Some (0, fr, ?l)"
    using True c b'(1,2) fr get_al [OF ok, of i]
    by (auto simp: etch_arraylist_remove_def removed_entry_def put_slot_def Let_def split: if_splits)
  moreover have "al_list ?l = take i (al_list l) @ drop (i + 1) (al_list l)" using b'(3) by (simp add: al_list_def)
  moreover have "al_ok ?l \<and> al_same l ?l" using ok b' by (auto simp: al_ok_def al_same_def)
  ultimately show ?thesis using True fr by auto
qed (use ok in \<open>simp add: etch_arraylist_remove_def\<close>)

definition cleared :: "'e etch_arraylist \<Rightarrow> bool \<Rightarrow> 'e option list \<Rightarrow> 'e list option" where
  "cleared l f ps = (if f \<and> \<not> al_is_readonly l then free_entries l 0 ps else Some [])"

lemma clear_al:
  assumes ok: "al_ok l"
  shows "case cleared l f (al_list l) of
      None \<Rightarrow> etch_arraylist_clear l f = None
    | Some fr \<Rightarrow> \<exists>l'. etch_arraylist_clear l f = Some (fr, l') \<and> al_ok l' \<and> al_same l l' \<and> al_list l' = []"
  using ok by (auto simp: cleared_def etch_arraylist_clear_def Let_def al_ok_def al_same_def al_list_def
      split: option.split)

section \<open>Calls\<close>

datatype 'e al_op =
    Al_add "'e option"
  | Al_insert nat "'e option"
  | Al_set nat "'e option"
  | Al_get nat
  | Al_remove nat bool
  | Al_remove_content "'e option" nat "'e option \<Rightarrow> 'e option \<Rightarrow> int"
  | Al_indexof "'e option" nat "'e option \<Rightarrow> 'e option \<Rightarrow> int"
  | Al_indexofp "'e option" nat
  | Al_contains "'e option" nat "'e option \<Rightarrow> 'e option \<Rightarrow> int"
  | Al_clear bool
  | Al_count

datatype 'e al_result = Al_int int | Al_freed int "'e list" | Al_entry "'e option" | Al_bool bool

definition to_outcome :: "('b \<Rightarrow> 'c) \<Rightarrow> 'b option \<Rightarrow> 'c outcome" where
  "to_outcome f r = (case r of None \<Rightarrow> Fault | Some x \<Rightarrow> Returns (f x))"

fun al_exec :: "'e al_op \<Rightarrow> 'e etch_arraylist \<Rightarrow> ('e al_result \<times> 'e etch_arraylist) outcome" where
  "al_exec (Al_add x) l = to_outcome (\<lambda>(r, l). (Al_int r, l)) (etch_arraylist_add l x)"
| "al_exec (Al_insert i x) l = to_outcome (\<lambda>(r, l). (Al_int r, l)) (etch_arraylist_insert l i x)"
| "al_exec (Al_set i x) l = to_outcome (\<lambda>(r, l). (Al_int r, l)) (etch_arraylist_set l i x)"
| "al_exec (Al_get i) l = to_outcome (\<lambda>p. (Al_entry p, l)) (etch_arraylist_get l i)"
| "al_exec (Al_remove i f) l = to_outcome (\<lambda>(r, fr, l). (Al_freed r fr, l)) (etch_arraylist_remove l i f)"
| "al_exec (Al_remove_content x s cmp) l =
     to_outcome (\<lambda>(r, fr, l). (Al_freed r fr, l)) (etch_arraylist_remove_content l x s cmp)"
| "al_exec (Al_indexof x s cmp) l = to_outcome (\<lambda>r. (Al_int r, l)) (etch_arraylist_indexof l x s cmp)"
| "al_exec (Al_indexofp x s) l = to_outcome (\<lambda>r. (Al_int r, l)) (etch_arraylist_indexofp l x s)"
| "al_exec (Al_contains x s cmp) l = to_outcome (\<lambda>r. (Al_bool r, l)) (etch_arraylist_contains l x s cmp)"
| "al_exec (Al_clear f) l = to_outcome (\<lambda>(fr, l). (Al_freed 0 fr, l)) (etch_arraylist_clear l f)"
| "al_exec Al_count l = Returns (Al_int (etch_arraylist_count l), l)"

text \<open>The specification, on the list of the entries; \<open>a\<close> is a list with the attributes.\<close>

definition spec_remove ::
  "'e etch_arraylist \<Rightarrow> int \<Rightarrow> bool \<Rightarrow> 'e option list \<Rightarrow> ('e al_result \<times> 'e option list) outcome" where
  "spec_remove a i f xs =
     (if 0 \<le> i \<and> i < int (length xs)
      then Returns (Al_freed 0 (the (removed_entry a f (nat i) (xs ! nat i))), take (nat i) xs @ drop (nat i + 1) xs)
      else Returns (Al_freed (- 1) [], xs))"

fun al_spec :: "'e etch_arraylist \<Rightarrow> 'e al_op \<Rightarrow> 'e option list \<Rightarrow> ('e al_result \<times> 'e option list) outcome" where
  "al_spec a (Al_add x) xs = Returns (Al_int 0, xs @ [x])"
| "al_spec a (Al_insert i x) xs =
     (if i \<le> length xs then Returns (Al_int 0, take i xs @ x # drop i xs) else Returns (Al_int (- 1), xs))"
| "al_spec a (Al_set i x) xs = Returns (Al_int (if i < length xs then 0 else - 1), xs[i := x])"
| "al_spec a (Al_get i) xs = Returns (Al_entry (if i < length xs then xs ! i else None), xs)"
| "al_spec a (Al_remove i f) xs = spec_remove a (int i) f xs"
| "al_spec a (Al_remove_content x s cmp) xs = spec_remove a (index_from (\<lambda>p. cmp x p = 0) xs s) True xs"
| "al_spec a (Al_indexof x s cmp) xs = Returns (Al_int (index_from (\<lambda>p. cmp x p = 0) xs s), xs)"
| "al_spec a (Al_indexofp x s) xs = Returns (Al_int (index_from (\<lambda>p. p = x) xs s), xs)"
| "al_spec a (Al_contains x s cmp) xs = Returns (Al_bool (\<exists>p \<in> set (drop s xs). cmp x p = 0), xs)"
| "al_spec a (Al_clear f) xs =
     (case cleared a f xs of None \<Rightarrow> Fault | Some fr \<Rightarrow> Returns (Al_freed 0 fr, []))"
| "al_spec a Al_count xs = Returns (Al_int (int (length xs)), xs)"

definition al_inv :: "'e etch_arraylist \<Rightarrow> 'e etch_arraylist \<Rightarrow> bool" where
  "al_inv a l \<longleftrightarrow> al_ok l \<and> al_same a l"

lemma contains_drop: "index_from P xs s \<noteq> - 1 \<longleftrightarrow> (\<exists>p \<in> set (drop s xs). P p)"
proof
  assume "index_from P xs s \<noteq> - 1"
  then obtain i where i: "s \<le> i" "i < length xs" "P (xs ! i)" by (auto simp: index_from_none)
  then have "drop s xs ! (i - s) = xs ! i" "i - s < length (drop s xs)" by simp_all
  then have "xs ! i \<in> set (drop s xs)" by (metis nth_mem)
  then show "\<exists>p \<in> set (drop s xs). P p" using i(3) by blast
next
  assume "\<exists>p \<in> set (drop s xs). P p"
  then obtain j where "j < length (drop s xs)" "P (drop s xs ! j)" by (auto simp: in_set_conv_nth)
  then show "index_from P xs s \<noteq> - 1" unfolding index_from_none by (auto intro!: exI [of _ "s + j"])
qed

lemma al_sameD:
  assumes "al_same a l"
  shows "removed_entry l = removed_entry a" and "cleared l = cleared a" and "al_room l = al_room a"
proof -
  show "removed_entry l = removed_entry a" "al_room l = al_room a"
    using assms free_entry_same [OF assms] by (simp_all add: removed_entry_def al_room_def al_same_def fun_eq_iff)
  have "cleared l f ps = cleared a f ps" for f ps
    using assms free_entries_same [OF assms] by (simp add: cleared_def al_same_def)
  then show "cleared l = cleared a" by (simp add: fun_eq_iff)
qed

lemma al_same_trans: "al_same a l \<Longrightarrow> al_same l l' \<Longrightarrow> al_same a l'"
  by (simp add: al_same_def)

lemma al_op_refines:
  assumes inv: "al_inv a l" and room: "length (al_list l) < al_room a"
  shows "case al_spec a op (al_list l) of
      Returns (r, xs) \<Rightarrow> \<exists>l'. al_exec op l = Returns (r, l') \<and> al_inv a l' \<and> al_list l' = xs
    | Fault \<Rightarrow> al_exec op l = Fault
    | Diverges \<Rightarrow> al_exec op l = Diverges"
proof -
  have ok: "al_ok l" and same: "al_same a l" using inv by (simp_all add: al_inv_def)
  have r: "al_count l < al_room l" using room ok al_sameD(3) [OF same] by simp
  have keep: "al_inv a l'" if "al_ok l'" "al_same l l'" for l'
    using that same by (simp add: al_inv_def al_same_trans)
  note attr = al_sameD [OF same, symmetric]
  have ix: "etch_arraylist_indexof l x s cmp = Some (index_from (\<lambda>p. cmp x p = 0) (al_list l) s)" for x s cmp
    using indexof_al [OF ok, of s "\<lambda>p. cmp x p = 0"] r by (simp add: etch_arraylist_indexof_def)
  have remove: "case spec_remove a (int i) f (al_list l) of
      Returns (q, xs) \<Rightarrow> \<exists>fr q' l'. etch_arraylist_remove l i f = Some (q', fr, l') \<and> Al_freed q' fr = q
        \<and> al_inv a l' \<and> al_list l' = xs | _ \<Rightarrow> False" for i f
    using remove_al [OF ok, of i f] keep ok by (auto simp: spec_remove_def attr)
  show ?thesis
  proof (cases op)
    case (Al_add x)
    then show ?thesis using add_al [OF ok r, of x] keep by (auto simp: to_outcome_def)
  next
    case (Al_insert i x)
    then show ?thesis using insert_al [OF ok r, of i x] keep ok by (auto simp: to_outcome_def)
  next
    case (Al_set i x)
    then show ?thesis using set_al [OF ok, of i x] keep ok by (auto simp: to_outcome_def)
  next
    case (Al_get i)
    then show ?thesis using get_al [OF ok, of i] inv ok by (simp add: to_outcome_def)
  next
    case (Al_remove i f)
    then show ?thesis using remove [of i f] by (auto simp: to_outcome_def split: outcome.splits)
  next
    case (Al_remove_content x s cmp)
    let ?i = "index_from (\<lambda>p. cmp x p = 0) (al_list l) s"
    show ?thesis
    proof (cases "?i = - 1")
      case True
      then show ?thesis using Al_remove_content ix [of x s cmp] inv
        by (simp add: to_outcome_def etch_arraylist_remove_content_def spec_remove_def)
    next
      case False
      then have i: "0 \<le> ?i" "?i < int (length (al_list l))" using index_from_bound by blast+
      then have "s32_to_u32 ?i = nat ?i" using room_small [OF ok r] ok by (simp add: s32_to_u32_def)
      then show ?thesis using Al_remove_content ix [of x s cmp] remove [of "nat ?i" True] i False
        by (auto simp: to_outcome_def etch_arraylist_remove_content_def split: outcome.splits)
    qed
  next
    case (Al_indexof x s cmp)
    then show ?thesis using ix inv by (simp add: to_outcome_def)
  next
    case (Al_indexofp x s)
    then show ?thesis using indexof_al [OF ok, of s "\<lambda>p. p = x"] r inv
      by (simp add: to_outcome_def etch_arraylist_indexofp_def)
  next
    case (Al_contains x s cmp)
    then show ?thesis using ix inv by (simp add: to_outcome_def etch_arraylist_contains_def contains_drop)
  next
    case (Al_clear f)
    then show ?thesis using clear_al [OF ok, of f] keep
      by (auto simp: to_outcome_def attr split: option.splits)
  next
    case Al_count
    then show ?thesis using room_small [OF ok r] inv ok by (simp add: etch_arraylist_count_def s32_def)
  qed
qed

lemma al_spec_grows: "al_spec a op xs = Returns (r, ys) \<Longrightarrow> length ys \<le> length xs + 1"
  by (cases op) (auto simp: spec_remove_def split: if_splits option.splits)

interpretation al: list_object "al_inv a" al_list al_exec "al_spec a" "al_room a" for a :: "'e etch_arraylist"
  by unfold_locales (rule al_op_refines, assumption+, rule al_spec_grows)


section \<open>Adding the entries of another list\<close>

definition li_at :: "'e option list \<Rightarrow> nat \<Rightarrow> 'e list_iterator" where
  "li_at ys k = (if k < length ys \<and> ys ! k \<noteq> None then \<lparr>li_current = ys ! k, li_ordinal = int k + 1\<rparr>
     else \<lparr>li_current = None, li_ordinal = 0\<rparr>)"

lemma li_has_next:
  assumes "al_ok n" and "al_count n < 2147483648"
  shows "etch_arraylist_iterable_has_next n (li_at (al_list n) k) \<longleftrightarrow> k < al_count n \<and> al_list n ! k \<noteq> None"
  using assms by (auto simp: etch_arraylist_iterable_has_next_def li_at_def s32_def)

lemma li_next:
  assumes "al_ok n" and "al_count n < 2147483648" and "k < al_count n" and "al_list n ! k \<noteq> None"
  shows "\<exists>r. etch_arraylist_iterable_next n (li_at (al_list n) k) = Some (r, li_at (al_list n) (k + 1))"
proof -
  have u: "s32_to_u32 (int k + 1) = k + 1" using assms by (simp add: s32_to_u32_def nat_add_distrib)
  show ?thesis using assms get_al [OF assms(1), of "k + 1"]
    by (auto simp: etch_arraylist_iterable_next_def li_at_def s32_def u Let_def)
qed

lemma li_first:
  assumes "al_ok n"
  shows "set_list_iterator n = Some (li_at (al_list n) 0)"
  using assms get_al [OF assms, of 0]
  by (auto simp: set_list_iterator_def etch_arraylist_iterable_first_def li_at_def Let_def)

text \<open>No entry is found equal to one that is there or was added before it.\<close>

fun all_new :: "('e option \<Rightarrow> 'e option \<Rightarrow> int) \<Rightarrow> 'e option list \<Rightarrow> 'e option list \<Rightarrow> bool" where
  "all_new compare xs [] = True"
| "all_new compare xs (y # ys) \<longleftrightarrow> (\<forall>x \<in> set xs. compare y x \<noteq> 0) \<and> all_new compare (xs @ [y]) ys"

text \<open>The entries up to the first null pointer.\<close>

definition entries_of :: "'e option list \<Rightarrow> 'e option list" where
  "entries_of ys = takeWhile (\<lambda>p. p \<noteq> None) ys"

lemma entries_drop:
  "entries_of (drop k ys) = (if k < length ys \<and> ys ! k \<noteq> None then ys ! k # entries_of (drop (k + 1) ys) else [])"
  by (cases "k < length ys") (auto simp: entries_of_def Cons_nth_drop_Suc [symmetric])

lemma contains_al:
  assumes "al_ok l" and "al_count l < al_room l"
  shows "etch_arraylist_contains l x 0 cmp = Some (\<exists>p \<in> set (al_list l). cmp x p = 0)"
  using indexof_al [OF assms(1), of 0 "\<lambda>p. cmp x p = 0"] contains_drop [of "\<lambda>p. cmp x p = 0" "al_list l" 0] assms
  by (simp add: etch_arraylist_contains_def etch_arraylist_indexof_def)

lemma add_from_loop_spec:
  assumes "al_ok n" and "al_count n < 2147483648" and "al_ok l"
    and "al_count l + length (entries_of (drop k (al_list n))) \<le> al_room l"
  shows "(all_new cmp (al_list l) (entries_of (drop k (al_list n))) \<longrightarrow>
            length (entries_of (drop k (al_list n))) < fuel \<longrightarrow>
            (\<exists>l'. add_from_loop fuel cmp n (li_at (al_list n) k) l c
               = Returns (c + int (length (entries_of (drop k (al_list n)))), l')
             \<and> al_inv l l' \<and> al_list l' = al_list l @ entries_of (drop k (al_list n))))
       \<and> (\<not> all_new cmp (al_list l) (entries_of (drop k (al_list n))) \<longrightarrow>
            add_from_loop fuel cmp n (li_at (al_list n) k) l c = Diverges)"
  using assms
proof (induction fuel arbitrary: k l c)
  case (Suc fuel)
  let ?ys = "al_list n" and ?it = "li_at (al_list n) k"
  show ?case
  proof (cases "k < al_count n \<and> ?ys ! k \<noteq> None")
    case False
    then have "entries_of (drop k ?ys) = []" using Suc.prems(1) by (subst entries_drop) simp
    moreover have "\<not> etch_arraylist_iterable_has_next n ?it" using False li_has_next [OF Suc.prems(1,2), of k] by blast
    ultimately show ?thesis using Suc.prems(3) by (simp add: al_inv_def)
  next
    case True
    let ?y = "?ys ! k"
    have e: "entries_of (drop k ?ys) = ?y # entries_of (drop (k + 1) ?ys)"
      using True Suc.prems(1) by (subst entries_drop) simp
    have room: "al_count l < al_room l" using Suc.prems(4) e by simp
    have cur: "li_current ?it = ?y" using True Suc.prems(1) by (simp add: li_at_def)
    have has: "etch_arraylist_iterable_has_next n ?it" using True li_has_next [OF Suc.prems(1,2), of k] by simp
    have con: "etch_arraylist_contains l ?y 0 cmp = Some (\<exists>p \<in> set (al_list l). cmp ?y p = 0)"
      by (rule contains_al [OF Suc.prems(3) room])
    show ?thesis
    proof (cases "\<exists>p \<in> set (al_list l). cmp ?y p = 0")
      case dup: True
      then have "\<not> all_new cmp (al_list l) (entries_of (drop k ?ys))" by (auto simp: e)
      moreover have "add_from_loop (Suc fuel) cmp n ?it l c = add_from_loop fuel cmp n ?it l c"
        using has con dup by (simp add: cur)
      ultimately show ?thesis using Suc.IH [OF Suc.prems] by simp
    next
      case new: False
      obtain l1 where l1: "etch_arraylist_add l ?y = Some (0, l1)" "al_ok l1" "al_same l l1" "al_list l1 = al_list l @ [?y]"
        using add_al [OF Suc.prems(3) room, of ?y] by blast
      obtain r where r: "etch_arraylist_iterable_next n ?it = Some (r, li_at ?ys (k + 1))"
        using li_next [OF Suc.prems(1,2)] True by blast
      have "al_count l1 = al_count l + 1"
        using l1(4) length_al_list [OF l1(2)] length_al_list [OF Suc.prems(3)] by simp
      then have room1: "al_count l1 + length (entries_of (drop (k + 1) ?ys)) \<le> al_room l1"
        using Suc.prems(4) e al_sameD(3) [OF l1(3)] by simp
      have step: "add_from_loop (Suc fuel) cmp n ?it l c = add_from_loop fuel cmp n (li_at ?ys (k + 1)) l1 (c + 1)"
        using has con new l1(1) r by (simp add: cur)
      have an: "all_new cmp (al_list l) (entries_of (drop k ?ys)) = all_new cmp (al_list l1) (entries_of (drop (k + 1) ?ys))"
        using new by (simp add: e l1(4))
      from Suc.IH [OF Suc.prems(1,2) l1(2) room1, of "c + 1"] show ?thesis
        unfolding step an using l1(3,4) by (auto simp: e al_inv_def intro: al_same_trans)
    qed
  qed
qed simp

text \<open>
  C24. \<open>etch_arraylist_add_from\<close> ends only when none of the entries it adds is found equal to one that
  is there already: then it appends them all and returns their number.  As soon as one is found, the
  loop goes on without moving the iterator and never returns.
\<close>

theorem arraylist_add_from_ends_iff_new:
  assumes "al_ok l" and "al_ok newitems" and "al_count newitems < 2147483648"
    and "al_count l + al_count newitems \<le> al_room l"
  defines "ys \<equiv> entries_of (al_list newitems)"
  shows "if all_new compare (al_list l) ys
    then \<forall>fuel > al_count newitems. \<exists>l'. etch_arraylist_add_from fuel l newitems compare = Returns (int (length ys), l')
           \<and> al_inv l l' \<and> al_list l' = al_list l @ ys
    else \<forall>fuel. etch_arraylist_add_from fuel l newitems compare = Diverges"
proof (cases "al_count newitems = 0")
  case True
  then have "ys = []" by (simp add: ys_def al_list_def entries_of_def)
  then show ?thesis using True assms(1) by (simp add: etch_arraylist_add_from_def al_inv_def)
next
  case False
  have len: "length ys \<le> al_count newitems"
    using length_takeWhile_le [of "\<lambda>p. p \<noteq> None" "al_list newitems"] assms(2) by (simp add: ys_def entries_of_def)
  have room: "al_count l + length (entries_of (drop 0 (al_list newitems))) \<le> al_room l"
    using len assms(4) by (simp add: ys_def)
  have run: "etch_arraylist_add_from fuel l newitems compare
      = add_from_loop fuel compare newitems (li_at (al_list newitems) 0) l 0" for fuel
    using False li_first [OF assms(2)] by (simp add: etch_arraylist_add_from_def)
  show ?thesis
    unfolding run using add_from_loop_spec [OF assms(2,3,1) room, where cmp = compare and c = 0] len
    by (auto simp: ys_def)
qed

section \<open>Copies\<close>

lemma copy_al:
  assumes ok: "al_ok l" and small: "8 * al_size l < 4294967296" "8 * al_delta l < 4294967296" and pos: "0 < al_size l"
  shows "\<exists>l'. new_etch_arraylist_from l = Some l' \<and> al_ok l' \<and> al_list l' = al_list l \<and> al_size l' = 8 * al_size l
    \<and> al_delta l' = 8 * al_delta l \<and> al_count l' = al_count l"
  using assms
  by (auto simp: new_etch_arraylist_from_def new_etch_arraylist_def etch_arraylist_copyattrs_def copy_slots_def Let_def
      al_ok_def al_list_def u32_def sizeof_ptr_def min_def)

text \<open>A copy of a copy and so on, \<open>k\<close> times.\<close>

primrec copies :: "nat \<Rightarrow> 'e etch_arraylist \<Rightarrow> 'e etch_arraylist option" where
  "copies 0 l = Some l"
| "copies (Suc k) l = (case copies k l of None \<Rightarrow> None | Some l \<Rightarrow> new_etch_arraylist_from l)"

lemma copies_grow:
  assumes ok: "al_ok l" and sz: "al_size l = 1024" "al_delta l \<le> 1024" and k: "k \<le> 7"
  shows "\<exists>l'. copies k l = Some l' \<and> al_ok l' \<and> al_list l' = al_list l \<and> al_size l' = 1024 * 8 ^ k
    \<and> al_delta l' = al_delta l * 8 ^ k \<and> al_count l' = al_count l"
  using k
proof (induction k)
  case 0
  then show ?case using ok sz by simp
next
  case (Suc k)
  then obtain l' where l': "copies k l = Some l'" "al_ok l'" "al_list l' = al_list l" "al_size l' = 1024 * 8 ^ k"
    "al_delta l' = al_delta l * 8 ^ k" "al_count l' = al_count l" by auto
  have "(8::nat) ^ k \<le> 8 ^ 6" using Suc.prems by (intro power_increasing) simp_all
  then have "8 * al_size l' < 4294967296" "al_delta l' \<le> al_size l'" "0 < al_size l'" using l'(4,5) sz(2) by simp_all
  with copy_al [OF l'(2)] l' show ?case by (auto simp: ac_simps)
qed

text \<open>
  A copy of a list has the same entries and room for eight times as many, because the size in bytes
  is passed as a number of entries; so the eighth copy of a copy of a list of the default size computes
  a size of 0, and writes the entries behind the end of an empty block.
\<close>

theorem arraylist_eighth_copy_overruns:
  assumes "al_ok l" and "al_size l = 1024" and "al_delta l \<le> 1024" and "al_list l \<noteq> []"
  shows "(\<forall>k \<le> 7. \<exists>l'. copies k l = Some l' \<and> al_list l' = al_list l \<and> al_size l' = 1024 * 8 ^ k)
    \<and> copies 8 l = None"
proof
  show "\<forall>k \<le> 7. \<exists>l'. copies k l = Some l' \<and> al_list l' = al_list l \<and> al_size l' = 1024 * 8 ^ k"
    using copies_grow [OF assms(1-3)] by blast
  obtain l' where l': "copies 7 l = Some l'" "al_size l' = 1024 * 8 ^ 7" "al_list l' = al_list l" "al_ok l'"
    using copies_grow [OF assms(1-3), of 7] by auto
  have "al_count l' \<noteq> 0" using length_al_list [OF l'(4)] l'(3) assms(4)
    by (metis length_0_conv)
  then have "new_etch_arraylist_from l' = None"
    using l'(2) by (simp add: new_etch_arraylist_from_def new_etch_arraylist_def etch_arraylist_copyattrs_def
        copy_slots_def Let_def u32_def sizeof_ptr_def)
  moreover have "copies 8 l = (case copies 7 l of None \<Rightarrow> None | Some l \<Rightarrow> new_etch_arraylist_from l)"
    using copies.simps(2) [of 7 l] by simp
  ultimately show "copies 8 l = None" using l'(1) by simp
qed

section \<open>Witnesses\<close>

definition sample_list :: "nat \<Rightarrow> nat \<Rightarrow> nat etch_arraylist" where
  "sample_list n x = (new_etch_arraylist n 1)\<lparr>al_base := Some x # replicate (n - 1) None, al_count := 1\<rparr>"

lemma sample_list_ok:
  assumes "0 < n" and "n < 536870912"
  shows "al_ok (sample_list n x)" and "al_list (sample_list n x) = [Some x]" and "al_count (sample_list n x) = 1"
    and "al_size (sample_list n x) = 8 * n" and "al_delta (sample_list n x) = 8" and "al_room (sample_list n x) = 536870911"
  using assms by (simp_all add: sample_list_def new_etch_arraylist_def al_defs Let_def u32_def sizeof_ptr_def)

definition sample_compare :: "nat option \<Rightarrow> nat option \<Rightarrow> int" where
  "sample_compare a b = (if a = b then 0 else 1)"


lemma arraylist_add_from_ends_iff_new_witness:
  "\<forall>fuel. etch_arraylist_add_from fuel (sample_list 1 5) (sample_list 1 5) sample_compare = Diverges"
  using arraylist_add_from_ends_iff_new [of "sample_list 1 5" "sample_list 1 5" sample_compare]
  by (simp add: sample_list_ok entries_of_def sample_compare_def)

lemma arraylist_eighth_copy_overruns_witness: "copies 8 (sample_list 128 5) = None"
  using arraylist_eighth_copy_overruns [of "sample_list 128 5"] by (simp add: sample_list_ok)

end
