(* ===== verification/ValueFactory_Correct.thy ===== *)
theory ValueFactory_Correct
  imports ValueFactory ArrayList_Correct HashIteration
begin

text \<open>
  The types of a value factory: what adding and looking up return, lookup through mixed-in factories,
  and the list of all types, which ends only in the simplest cases.
\<close>

section \<open>The keys of a table as a list\<close>

lemma map_list_loop_spec:
  assumes "it_rest t it es" and "al_ok l" and "al_count l + length es \<le> al_room l" and "length es < fuel"
  shows "\<exists>l' t'. map_list_loop fuel f t it l = Returns (l', t') \<and> al_ok l' \<and> al_same l l'
    \<and> al_list l' = al_list l @ map (Some \<circ> f) es \<and> htab_inv t' \<and> ht_items t' = ht_items t"
  using assms
proof (induction es arbitrary: fuel t it l)
  case Nil
  then obtain n where "fuel = Suc n" by (cases fuel) auto
  then show ?case using it_rest_Nil [OF Nil.prems(1)] Nil.prems by (simp add: it_rest_def)
next
  case (Cons e es)
  then obtain n where n: "fuel = Suc n" by (cases fuel) auto
  from it_rest_Cons [OF Cons.prems(1)] obtain r it' t' where
    s: "hashtable_iterable_has_next it" "hit_current it = Some e" "hashtable_iterable_next t it = (r, it', t')"
      "it_rest t' it' es" "ht_items t' = ht_items t" by blast
  have "al_count l < al_room l" using Cons.prems(3) by simp
  from add_al [OF Cons.prems(2) this, of "Some (f e)"] obtain l1 where
    l1: "etch_arraylist_add l (Some (f e)) = Some (0, l1)" "al_ok l1" "al_same l l1" "al_list l1 = al_list l @ [Some (f e)]"
    by blast
  have "al_count l1 = al_count l + 1"
    using l1(4) length_al_list [OF l1(2)] length_al_list [OF Cons.prems(2)] by simp
  then have "al_count l1 + length es \<le> al_room l1" "length es < n"
    using Cons.prems(3,4) al_sameD(3) [OF l1(3)] n by simp_all
  from Cons.IH [OF s(4) l1(2) this] show ?case
    using s l1 n by (auto intro: al_same_trans)
qed

lemma get_map_keys_spec:
  assumes t: "table_ok c t" and n: "ht_count t < n" "ht_count t < 268435456"
  shows "\<exists>l t'. get_map_keys n t = Returns (l, t') \<and> al_ok l \<and> al_list l = map (Some \<circ> hi_key) (ht_items t)
    \<and> table_ok c t' \<and> ht_items t' = ht_items t \<and> 536870911 - ht_count t - 128 \<le> al_room l \<and> al_count l = ht_count t"
proof -
  let ?l = "(new_etch_arraylist (jenkins_count t) 0 :: 'a etch_key etch_arraylist)
    \<lparr>al_content_type := ETCHARRAYLIST_CONTENT_OBJECT, al_is_readonly := True\<rparr>"
  obtain it t1 where i: "set_hash_iterator t = (it, t1)" "it_rest t1 it (map entry (ht_items t))" "table_ok c t1"
      "ht_items t1 = ht_items t"
    using set_iterator_rest [OF t] by blast
  have c: "length (ht_items t) = ht_count t" using t by (simp add: table_ok_def htab_inv_def)
  have ok: "al_ok ?l" and nil: "al_list ?l = []" and z: "al_count ?l = 0"
    using new_arraylist_ok [of "jenkins_count t" 0] n(2)
    by (simp_all add: jenkins_count_def al_ok_def al_list_def new_etch_arraylist_def Let_def)
  have d: "al_delta ?l = 8 * (if 0 < ht_count t then ht_count t else 128)"
    using n(2) by (simp add: new_etch_arraylist_def Let_def jenkins_count_def u32_def sizeof_ptr_def ETCHARRAYLIST_DEFSIZE_def)
  then have room: "ht_count t \<le> al_room ?l" "536870911 - ht_count t - 128 \<le> al_room ?l"
    using n(2) by (auto simp: al_room_def split: if_splits)
  from map_list_loop_spec [OF i(2) ok, of n fst] obtain l t' where
    l: "map_list_loop n fst t1 it ?l = Returns (l, t')" "al_ok l" "al_same ?l l"
      "al_list l = al_list ?l @ map (Some \<circ> fst) (map entry (ht_items t))" "htab_inv t'" "ht_items t' = ht_items t1"
    using room(1) n(1) c z by auto
  have "al_list l = map (Some \<circ> hi_key) (ht_items t)" using l(4) nil by (simp add: entry_def comp_def)
  moreover have "table_ok c t'" using table_ok_items [OF i(3) l(5,6)] by blast
  moreover have "al_room l = al_room ?l" using al_sameD(3) [OF l(3)] by simp
  moreover have "get_map_keys n t = Returns (l, t')" using i(1) l(1) by (simp add: get_map_keys_def)
  ultimately show ?thesis using l(2,6) i(4) room(2) c length_al_list [OF l(2)] by (metis length_map)
qed

section \<open>Factories\<close>

definition vf_ok :: "default_value_factory \<Rightarrow> bool" where
  "vf_ok v \<longleftrightarrow> table_ok (0x16, 0x25) (dvf_types v) \<and> ht_count (dvf_types v) < 134217728
     \<and> al_ok (dvf_mixins v) \<and> al_count (dvf_mixins v) < 2147483648"

definition types_of :: "default_value_factory \<Rightarrow> vf_type etch_key list" where
  "types_of v = map hi_key (ht_items (dvf_types v))"

lemma comparator_zero:
  "etchtypelist_comparator (Some a) (Some b) = 0 \<longleftrightarrow> vt_id (ko_content a) \<noteq> vt_id (ko_content b)"
  by (simp add: etchtypelist_comparator_def)

lemma entries_of_Some: "entries_of (map (Some \<circ> f) xs) = map (Some \<circ> f) xs"
  by (induction xs) (simp_all add: entries_of_def)

lemma not_all_new:
  assumes "x \<in> set xs" and "vt_id (ko_content x) \<noteq> vt_id (ko_content y)"
  shows "\<not> all_new etchtypelist_comparator (map Some xs) (map Some (y # ys))"
  using assms comparator_zero [of y x] by auto

text \<open>
  \<open>defvf_get_types\<close> returns the types of the factory, each exactly once, when no factory is mixed
  in.  But its comparator is the wrong way round, it returns 0 for types with different ids: as soon as
  the first mixed-in factory has a type, and the factory itself one with a different id from the first
  of these, the call never returns.
\<close>

theorem get_types_hangs_on_mixin:
  assumes "\<forall>v \<in> set vfs. vf_ok v" and "vf < length vfs"
  shows "(al_list (dvf_mixins (vfs ! vf)) = [] \<longrightarrow>
      (\<forall>fuel. \<exists>l vfs'. defvf_get_types fuel vfs vf = Returns (l, vfs') \<and> al_list l = map Some (types_of (vfs ! vf))
         \<and> distinct (map ko_hashkey (types_of (vfs ! vf)))))
    \<and> (\<forall>m ms t u us. al_list (dvf_mixins (vfs ! vf)) = Some m # ms \<longrightarrow> m < length vfs \<longrightarrow> m \<noteq> vf \<longrightarrow>
         types_of (vfs ! m) = u # us \<longrightarrow> t \<in> set (types_of (vfs ! vf)) \<longrightarrow>
         vt_id (ko_content t) \<noteq> vt_id (ko_content u) \<longrightarrow> (\<forall>fuel. defvf_get_types fuel vfs vf = Diverges))"
proof -
  let ?v = "vfs ! vf"
  have v: "vf_ok ?v" using assms by simp
  then have t: "table_ok (0x16, 0x25) (dvf_types ?v)" and c: "ht_count (dvf_types ?v) < 268435456"
    and mx: "al_ok (dvf_mixins ?v)" "al_count (dvf_mixins ?v) < 2147483648" by (simp_all add: vf_ok_def)
  from get_map_keys_spec [OF t _ c, of "Suc (ht_count (dvf_types ?v))"] obtain l tm where
    l: "get_map_keys (Suc (ht_count (dvf_types ?v))) (dvf_types ?v) = Returns (l, tm)" "al_ok l"
      "al_list l = map Some (types_of ?v)" "536870911 - ht_count (dvf_types ?v) - 128 \<le> al_room l"
      "al_count l = ht_count (dvf_types ?v)" by (auto simp: types_of_def)
  let ?vfs = "vfs[vf := ?v\<lparr>dvf_types := tm\<rparr>]"
  have dist: "distinct (map ko_hashkey (types_of ?v))"
  proof -
    have b: "ht_buckets_ok (dvf_types ?v)" and h: "\<forall>h \<in> set (ht_items (dvf_types ?v)). hi_hval h = unat (ko_hashkey (hi_key h))"
      using t by (simp_all add: table_ok_def htab_inv_def)
    have "map hi_hval (ht_items (dvf_types ?v)) = map unat (map ko_hashkey (types_of ?v))"
      using h by (simp add: types_of_def)
    then show ?thesis using b by (metis ht_buckets_ok_def distinct_map)
  qed
  have none: "al_list (dvf_mixins ?v) = [] \<Longrightarrow> \<exists>l vfs'. defvf_get_types fuel vfs vf = Returns (l, vfs')
      \<and> al_list l = map Some (types_of ?v) \<and> distinct (map ko_hashkey (types_of ?v))" for fuel
    using l length_al_list [OF mx(1)] dist assms(2) by (simp add: defvf_get_types_def jenkins_count_def Let_def)
  have hang: "defvf_get_types fuel vfs vf = Diverges"
    if m: "al_list (dvf_mixins ?v) = Some m # ms" "m < length vfs" "m \<noteq> vf" "types_of (vfs ! m) = u # us"
      "x \<in> set (types_of ?v)" "vt_id (ko_content x) \<noteq> vt_id (ko_content u)" for m ms x u us fuel
  proof -
    have w: "vf_ok (vfs ! m)" using assms(1) m(2) by simp
    then have tm': "table_ok (0x16, 0x25) (dvf_types (vfs ! m))" and cm: "ht_count (dvf_types (vfs ! m)) < 268435456"
      by (simp_all add: vf_ok_def)
    from get_map_keys_spec [OF tm' _ cm, of "Suc (ht_count (dvf_types (vfs ! m)))"] obtain l2 tm2 where
      l2: "get_map_keys (Suc (ht_count (dvf_types (vfs ! m)))) (dvf_types (vfs ! m)) = Returns (l2, tm2)" "al_ok l2"
        "al_list l2 = map Some (types_of (vfs ! m))" "al_count l2 = ht_count (dvf_types (vfs ! m))"
      by (auto simp: types_of_def)
    have room: "al_count l + al_count l2 \<le> al_room l" and small: "al_count l2 < 2147483648"
      using l(4,5) l2(4) v w unfolding vf_ok_def by arith+
    have "entries_of (al_list l2) = map Some (u # us)"
      using l2(3) m(4) entries_of_Some [of id "u # us"] by simp
    then have "\<not> all_new etchtypelist_comparator (al_list l) (entries_of (al_list l2))"
      using not_all_new [OF m(5,6)] l(3) by (simp del: all_new.simps list.map)
    then have div: "etch_arraylist_add_from f l l2 etchtypelist_comparator = Diverges" for f
      using add_from_loop_spec [OF l2(2) small l(2), of 0 etchtypelist_comparator f 0] room li_first [OF l2(2)]
        length_takeWhile_le [of "\<lambda>p. p \<noteq> None" "al_list l2"] length_al_list [OF l2(2)] m(4) l2(3)
      by (auto simp: etch_arraylist_add_from_def entries_of_def)
    let ?ys = "al_list (dvf_mixins ?v)"
    have cnt: "al_count (dvf_mixins ?v) \<noteq> 0" using m(1) length_al_list [OF mx(1)] by auto
    have cur: "li_current (li_at ?ys 0) = Some m" using m(1) by (simp add: li_at_def)
    have has: "etch_arraylist_iterable_has_next (dvf_mixins ?v) (li_at ?ys 0)"
      using li_has_next [OF mx, of 0] m(1) cnt by simp
    have "get_types_loop fuel ?vfs vf (li_at ?ys 0) l = Diverges"
      using has cur m(3) l2(1) div assms(2) by (cases fuel) (simp_all add: jenkins_count_def Let_def)
    then show ?thesis
      using l(1) cnt li_first [OF mx(1)] assms(2) by (simp add: defvf_get_types_def jenkins_count_def Let_def)
  qed
  show ?thesis using none hang by blast
qed

section \<open>Lookup\<close>

text \<open>Factories that differ only in the positions of their tables.\<close>

definition vf_same :: "default_value_factory list \<Rightarrow> default_value_factory list \<Rightarrow> bool" where
  "vf_same vfs vfs' \<longleftrightarrow> length vfs' = length vfs \<and> (\<forall>i < length vfs. dvf_mixins (vfs' ! i) = dvf_mixins (vfs ! i)
     \<and> htab_inv (dvf_types (vfs' ! i)) \<and> ht_items (dvf_types (vfs' ! i)) = ht_items (dvf_types (vfs ! i)))"

text \<open>A lookup in the own table of each factory: \<open>R\<close> are its results, the table keeps its entries.\<close>

definition own_finds ::
  "default_value_factory list \<Rightarrow> ((vf_type etch_key, unit) htab \<Rightarrow> (vf_type option \<times> (vf_type etch_key, unit) htab) outcome)
     \<Rightarrow> (nat \<Rightarrow> vf_type option) \<Rightarrow> bool" where
  "own_finds vfs own R \<longleftrightarrow> (\<forall>i < length vfs. \<forall>t. htab_inv t \<longrightarrow> ht_items t = ht_items (dvf_types (vfs ! i)) \<longrightarrow>
     (\<exists>t'. own t = Returns (R i, t') \<and> htab_inv t' \<and> ht_items t' = ht_items t))"

lemma own_by_name:
  assumes "\<forall>v \<in> set vfs. vf_ok v"
  shows "own_finds vfs (\<lambda>t. Returns (get_idname_by_name 32 t name))
    (\<lambda>i. map_option (ko_content \<circ> fst) (table_map (dvf_types (vfs ! i)) (etch_get_wchar_hashkey 32 name)))"
proof -
  let ?h = "etch_get_wchar_hashkey 32 name"
  have "\<exists>t'. Returns (get_idname_by_name 32 t name)
        = Returns (map_option (ko_content \<circ> fst) (table_map (dvf_types (vfs ! i)) ?h), t') \<and> htab_inv t' \<and> ht_items t' = ht_items t"
    if i: "i < length vfs" "htab_inv t" "ht_items t = ht_items (dvf_types (vfs ! i))" for i t
  proof -
    have ok: "table_ok (0x16, 0x25) (dvf_types (vfs ! i))" using assms i(1) by (simp add: vf_ok_def)
    then have t: "table_ok (0x16, 0x25) t" "table_map t = table_map (dvf_types (vfs ! i))"
      using table_ok_items [OF ok i(2,3)] by simp_all
    obtain r e t' where f: "jenkins_findh t ?h = (r, e, t')" by (metis prod_cases3)
    have "r = (if table_map t ?h = None then - 1 else 0)" "e = table_map t ?h" "table_ok (0x16, 0x25) t'"
      using find_spec [OF t(1), of ?h] f by simp_all
    moreover have "ht_items t' = ht_items t"
      using f by (auto simp: jenkins_findh_def split_beta Let_def split: if_splits)
    ultimately show ?thesis using f t(2) by (auto simp: get_idname_by_name_def table_ok_def)
  qed
  then show ?thesis by (simp add: own_finds_def)
qed

lemma idname_by_id_spec:
  assumes "it_rest t it es" and "length es < fuel"
  shows "\<exists>t'. idname_by_id_loop fuel x t it = Returns (find (\<lambda>ty. vt_id ty = x) (map (ko_content \<circ> fst) es), t')
    \<and> htab_inv t' \<and> ht_items t' = ht_items t"
  using assms
proof (induction es arbitrary: fuel t it)
  case Nil
  then obtain n where "fuel = Suc n" by (cases fuel) auto
  then show ?case using it_rest_Nil [OF Nil.prems(1)] Nil.prems(1) by (simp add: it_rest_def)
next
  case (Cons e es)
  then obtain n where n: "fuel = Suc n" by (cases fuel) auto
  from it_rest_Cons [OF Cons.prems(1)] obtain r it' t' where
    s: "hashtable_iterable_has_next it" "hit_current it = Some e" "hashtable_iterable_next t it = (r, it', t')"
      "it_rest t' it' es" "ht_items t' = ht_items t" by blast
  have "htab_inv t" using Cons.prems(1) by (simp add: it_rest_def)
  then show ?case using Cons.IH [OF s(4), of n] Cons.prems(2) s n by (auto simp: split_beta)
qed

lemma own_by_id:
  assumes "\<forall>v \<in> set vfs. vf_ok v"
  shows "own_finds vfs (\<lambda>t. get_idname_by_id t x)
    (\<lambda>i. find (\<lambda>ty. vt_id ty = x) (map ko_content (types_of (vfs ! i))))"
proof -
  have "\<exists>t'. get_idname_by_id t x = Returns (find (\<lambda>ty. vt_id ty = x) (map ko_content (types_of (vfs ! i))), t')
      \<and> htab_inv t' \<and> ht_items t' = ht_items t"
    if i: "i < length vfs" "htab_inv t" "ht_items t = ht_items (dvf_types (vfs ! i))" for i t
  proof -
    have ok: "table_ok (0x16, 0x25) (dvf_types (vfs ! i))" using assms i(1) by (simp add: vf_ok_def)
    then have t: "table_ok (0x16, 0x25) t" using table_ok_items [OF ok i(2,3)] by simp
    obtain it t1 where s: "set_hash_iterator t = (it, t1)" "it_rest t1 it (map entry (ht_items t))" "table_ok (0x16, 0x25) t1"
        "ht_items t1 = ht_items t"
      using set_iterator_rest [OF t] by blast
    have "jenkins_count t1 = length (ht_items t)"
      using s(3,4) by (simp add: jenkins_count_def table_ok_def htab_inv_def)
    with idname_by_id_spec [OF s(2), of "Suc (jenkins_count t1)" x] s(1,4) i(3) show ?thesis
      by (auto simp: get_idname_by_id_def types_of_def entry_def comp_def simp del: idname_by_id_loop.simps)
  qed
  then show ?thesis by (simp add: own_finds_def)
qed

text \<open>The factories that are mixed in, and those that a lookup visits.\<close>

definition mixins_of :: "default_value_factory list \<Rightarrow> nat \<Rightarrow> nat list" where
  "mixins_of vfs i = map the (entries_of (al_list (dvf_mixins (vfs ! i))))"

definition mixed_in :: "default_value_factory list \<Rightarrow> (nat \<times> nat) set" where
  "mixed_in vfs = {(i, m). i < length vfs \<and> m \<in> set (mixins_of vfs i) \<and> m \<noteq> i}"

definition vfs_ok :: "default_value_factory list \<Rightarrow> bool" where
  "vfs_ok vfs \<longleftrightarrow> (\<forall>v \<in> set vfs. vf_ok v) \<and> (\<forall>i < length vfs. \<forall>m \<in> set (mixins_of vfs i). m < length vfs)"

lemma vf_same_refl: "vfs_ok vfs \<Longrightarrow> vf_same vfs vfs"
  by (simp add: vf_same_def vfs_ok_def vf_ok_def table_ok_def)

lemma vf_same_mixins: "vf_same vfs vfs' \<Longrightarrow> i < length vfs \<Longrightarrow> dvf_mixins (vfs' ! i) = dvf_mixins (vfs ! i)"
  by (simp add: vf_same_def)

lemma vf_same_update:
  assumes "vf_same vfs vfs'" and "i < length vfs" and "htab_inv t" and "ht_items t = ht_items (dvf_types (vfs ! i))"
  shows "vf_same vfs (vfs'[i := (vfs' ! i)\<lparr>dvf_types := t\<rparr>])"
  using assms by (auto simp: vf_same_def nth_list_update)

lemma own_step:
  assumes "own_finds vfs own R" and "vf_same vfs vfs'" and "i < length vfs"
  shows "\<exists>t. own (dvf_types (vfs' ! i)) = Returns (R i, t)
    \<and> vf_same vfs (vfs'[i := (vfs' ! i)\<lparr>dvf_types := t\<rparr>])"
proof -
  have "htab_inv (dvf_types (vfs' ! i))" "ht_items (dvf_types (vfs' ! i)) = ht_items (dvf_types (vfs ! i))"
    using assms(2,3) by (simp_all add: vf_same_def)
  with assms(1,3) obtain t where "own (dvf_types (vfs' ! i)) = Returns (R i, t)" "htab_inv t"
    "ht_items t = ht_items (dvf_types (vfs ! i))" unfolding own_finds_def by metis
  then show ?thesis using vf_same_update [OF assms(2,3)] by blast
qed

text \<open>A correct result of a lookup from a factory, and of the rest of a loop over mixins.\<close>

definition right_result :: "(nat \<Rightarrow> vf_type option) \<Rightarrow> nat set \<Rightarrow> vf_type option \<Rightarrow> bool" where
  "right_result R S r \<longleftrightarrow> (case r of None \<Rightarrow> \<forall>m \<in> S. R m = None | Some ty \<Rightarrow> \<exists>m \<in> S. R m = Some ty)"

lemma right_result_union: "right_result R S None \<Longrightarrow> right_result R T r \<Longrightarrow> right_result R (S \<union> T) r"
  by (auto simp: right_result_def split: option.splits)

lemma right_result_more: "right_result R S (Some ty) \<Longrightarrow> S \<subseteq> T \<Longrightarrow> right_result R T (Some ty)"
  by (auto simp: right_result_def)

definition visits :: "default_value_factory list \<Rightarrow> nat \<Rightarrow> nat set" where
  "visits vfs i = (mixed_in vfs)\<^sup>* `` {i}"

lemma visits_step:
  assumes "i < length vfs"
  shows "visits vfs i = insert i (\<Union>m \<in> set (mixins_of vfs i) - {i}. visits vfs m)"
proof
  show "visits vfs i \<subseteq> insert i (\<Union>m \<in> set (mixins_of vfs i) - {i}. visits vfs m)"
    by (auto simp: visits_def mixed_in_def elim: converse_rtranclE)
  show "insert i (\<Union>m \<in> set (mixins_of vfs i) - {i}. visits vfs m) \<subseteq> visits vfs i"
    using assms by (auto simp: visits_def mixed_in_def intro: converse_rtrancl_into_rtrancl)
qed

definition gives ::
  "default_value_factory list \<Rightarrow> (nat \<Rightarrow> default_value_factory list \<Rightarrow> (vf_type option \<times> default_value_factory list) outcome)
     \<Rightarrow> vf_type option \<Rightarrow> bool" where
  "gives vfs call r \<longleftrightarrow> (\<exists>n. \<forall>fuel \<ge> n. \<forall>vfs'. vf_same vfs vfs' \<longrightarrow>
     (\<exists>vfs''. call fuel vfs' = Returns (r, vfs'') \<and> vf_same vfs vfs''))"

lemma givesI:
  assumes "\<And>fuel vfs'. n \<le> fuel \<Longrightarrow> vf_same vfs vfs' \<Longrightarrow> \<exists>vfs''. call (Suc fuel) vfs' = Returns (r, vfs'') \<and> vf_same vfs vfs''"
  shows "gives vfs call r"
  unfolding gives_def
proof (intro exI [of _ "Suc n"] allI impI)
  fix fuel vfs' assume "Suc n \<le> fuel" "vf_same vfs vfs'"
  then show "\<exists>vfs''. call fuel vfs' = Returns (r, vfs'') \<and> vf_same vfs vfs''"
    using assms [of "fuel - 1" vfs'] by (cases fuel) auto
qed

lemma mixins_loop_gives:
  assumes ok: "vfs_ok vfs" and vf: "vf < length vfs"
    and each: "\<And>m. m \<in> set (mixins_of vfs vf) \<Longrightarrow> m \<noteq> vf \<Longrightarrow>
      \<exists>r. gives vfs (\<lambda>f v. vf_get_type own f v m) r \<and> right_result R (visits vfs m) r"
  shows "zs = entries_of (drop k (al_list (dvf_mixins (vfs ! vf)))) \<Longrightarrow> set (map the zs) \<subseteq> set (mixins_of vfs vf) \<Longrightarrow>
    \<exists>r. gives vfs (\<lambda>f v. vf_mixins_loop own f v vf (li_at (al_list (dvf_mixins (vfs ! vf))) k)) r
      \<and> right_result R (\<Union>m \<in> set (map the zs) - {vf}. visits vfs m) r"
proof (induction zs arbitrary: k)
  case Nil
  let ?mx = "dvf_mixins (vfs ! vf)"
  have mx: "al_ok ?mx" "al_count ?mx < 2147483648" using ok vf by (simp_all add: vfs_ok_def vf_ok_def)
  have "\<not> (k < al_count ?mx \<and> al_list ?mx ! k \<noteq> None)"
    using Nil.prems(1) entries_drop [of k "al_list ?mx"] length_al_list [OF mx(1)]
    by (auto split: if_splits)
  then have "\<not> etch_arraylist_iterable_has_next ?mx (li_at (al_list ?mx) k)" using li_has_next [OF mx, of k] by blast
  then have "gives vfs (\<lambda>f v. vf_mixins_loop own f v vf (li_at (al_list ?mx) k)) None"
    using vf by (intro givesI [of 0]) (auto simp: vf_same_mixins)
  then show ?case by (intro exI [of _ None]) (simp add: right_result_def)
next
  case (Cons z zs)
  let ?mx = "dvf_mixins (vfs ! vf)"
  let ?it = "li_at (al_list ?mx) k" and ?it' = "li_at (al_list ?mx) (k + 1)"
  have mx: "al_ok ?mx" "al_count ?mx < 2147483648" using ok vf by (simp_all add: vfs_ok_def vf_ok_def)
  have k: "k < al_count ?mx" "al_list ?mx ! k \<noteq> None" "z = al_list ?mx ! k" "zs = entries_of (drop (k + 1) (al_list ?mx))"
    using Cons.prems(1) length_al_list [OF mx(1)] by (subst (asm) entries_drop, simp split: if_splits)+
  then obtain m where m: "z = Some m" by auto
  have cur: "li_current ?it = Some m" using k m length_al_list [OF mx(1)] by (simp add: li_at_def)
  have has: "etch_arraylist_iterable_has_next ?mx ?it" using k li_has_next [OF mx, of k] by simp
  obtain q where nx: "etch_arraylist_iterable_next ?mx ?it = Some (q, ?it')"
    using li_next [OF mx k(1,2)] by blast
  from Cons.IH [OF k(4)] Cons.prems(2) obtain r1 where
    r1: "gives vfs (\<lambda>f v. vf_mixins_loop own f v vf ?it') r1"
      "right_result R (\<Union>m \<in> set (map the zs) - {vf}. visits vfs m) r1" by auto
  then obtain n1 where n1: "\<And>fuel vfs'. n1 \<le> fuel \<Longrightarrow> vf_same vfs vfs' \<Longrightarrow>
      \<exists>vfs''. vf_mixins_loop own fuel vfs' vf ?it' = Returns (r1, vfs'') \<and> vf_same vfs vfs''"
    unfolding gives_def by blast
  show ?case
  proof (cases "m = vf")
    case True
    have "gives vfs (\<lambda>f v. vf_mixins_loop own f v vf ?it) r1"
    proof (rule givesI [of n1])
      fix fuel vfs' assume a: "n1 \<le> fuel" "vf_same vfs vfs'"
      have "vf_mixins_loop own (Suc fuel) vfs' vf ?it = vf_mixins_loop own fuel vfs' vf ?it'"
        using has nx cur True vf_same_mixins [OF a(2) vf] by simp
      then show "\<exists>vfs''. vf_mixins_loop own (Suc fuel) vfs' vf ?it = Returns (r1, vfs'') \<and> vf_same vfs vfs''"
        using n1 [OF a] by simp
    qed
    moreover have "set (map the (z # zs)) - {vf} = set (map the zs) - {vf}" using m True by auto
    ultimately show ?thesis using r1(2) by (intro exI [of _ r1]) simp
  next
    case False
    have "m \<in> set (mixins_of vfs vf)" using Cons.prems(2) m by simp
    from each [OF this False] obtain r0 where
      r0: "gives vfs (\<lambda>f v. vf_get_type own f v m) r0" "right_result R (visits vfs m) r0" by blast
    then obtain n0 where n0: "\<And>fuel vfs'. n0 \<le> fuel \<Longrightarrow> vf_same vfs vfs' \<Longrightarrow>
        \<exists>vfs''. vf_get_type own fuel vfs' m = Returns (r0, vfs'') \<and> vf_same vfs vfs''"
      unfolding gives_def by blast
    let ?r = "if r0 \<noteq> None then r0 else r1"
    have "gives vfs (\<lambda>f v. vf_mixins_loop own f v vf ?it) ?r"
    proof (rule givesI [of "n0 + n1"])
      fix fuel vfs' assume a: "n0 + n1 \<le> fuel" "vf_same vfs vfs'"
      obtain vfs1 where v1: "vf_get_type own fuel vfs' m = Returns (r0, vfs1)" "vf_same vfs vfs1"
        using n0 [of fuel vfs'] a by auto
      obtain vfs2 where v2: "vf_mixins_loop own fuel vfs1 vf ?it' = Returns (r1, vfs2)" "vf_same vfs vfs2"
        using n1 [of fuel vfs1] a(1) v1(2) by auto
      show "\<exists>vfs''. vf_mixins_loop own (Suc fuel) vfs' vf ?it = Returns (?r, vfs'') \<and> vf_same vfs vfs''"
        using has nx cur False v1 v2 vf_same_mixins [OF a(2) vf] vf_same_mixins [OF v1(2) vf] by simp
    qed
    moreover have "set (map the (z # zs)) - {vf} = insert m (set (map the zs) - {vf})" using m False by auto
    moreover have "right_result R (visits vfs m \<union> (\<Union>m \<in> set (map the zs) - {vf}. visits vfs m)) ?r"
      using r0(2) r1(2) right_result_union [of R "visits vfs m"] right_result_more by (cases r0) auto
    ultimately show ?thesis by (intro exI [of _ ?r]) simp
  qed
qed

lemma get_type_gives:
  assumes ok: "vfs_ok vfs" and own: "own_finds vfs own R"
    and ac: "\<And>i m. (i, m) \<in> mixed_in vfs \<Longrightarrow> (rank m :: nat) < rank i"
  shows "vf < length vfs \<Longrightarrow> \<exists>r. gives vfs (\<lambda>f v. vf_get_type own f v vf) r
    \<and> right_result R (visits vfs vf) r \<and> (R vf \<noteq> None \<longrightarrow> r = R vf)"
proof (induction "rank vf" arbitrary: vf rule: less_induct)
  case less
  let ?mx = "dvf_mixins (vfs ! vf)"
  have mx: "al_ok ?mx" using ok less.prems by (simp add: vfs_ok_def vf_ok_def)
  have zs: "set (map the (entries_of (drop 0 (al_list ?mx)))) \<subseteq> set (mixins_of vfs vf)" by (simp add: mixins_of_def)
  have each: "\<exists>r. gives vfs (\<lambda>f v. vf_get_type own f v m) r \<and> right_result R (visits vfs m) r"
    if "m \<in> set (mixins_of vfs vf)" "m \<noteq> vf" for m
  proof -
    have "(vf, m) \<in> mixed_in vfs" using that less.prems by (simp add: mixed_in_def)
    moreover have "m < length vfs" using ok less.prems that(1) by (auto simp: vfs_ok_def)
    ultimately show ?thesis using less.hyps [OF ac] by blast
  qed
  from mixins_loop_gives [OF ok less.prems each refl zs] obtain r1 where
    r1: "gives vfs (\<lambda>f v. vf_mixins_loop own f v vf (li_at (al_list ?mx) 0)) r1"
      "right_result R (\<Union>m \<in> set (mixins_of vfs vf) - {vf}. visits vfs m) r1" by (auto simp: mixins_of_def)
  then obtain n1 where n1: "\<And>fuel vfs'. n1 \<le> fuel \<Longrightarrow> vf_same vfs vfs' \<Longrightarrow>
      \<exists>vfs''. vf_mixins_loop own fuel vfs' vf (li_at (al_list ?mx) 0) = Returns (r1, vfs'') \<and> vf_same vfs vfs''"
    unfolding gives_def by blast
  let ?r = "if R vf \<noteq> None then R vf else if al_count ?mx \<noteq> 0 then r1 else None"
  have "gives vfs (\<lambda>f v. vf_get_type own f v vf) ?r"
  proof (rule givesI [of n1])
    fix fuel vfs' assume a: "n1 \<le> fuel" "vf_same vfs vfs'"
    from own_step [OF own a(2) less.prems] obtain t where
      t: "own (dvf_types (vfs' ! vf)) = Returns (R vf, t)" "vf_same vfs (vfs'[vf := (vfs' ! vf)\<lparr>dvf_types := t\<rparr>])" by blast
    have len: "vf < length vfs'" using a(2) less.prems by (simp add: vf_same_def)
    show "\<exists>vfs''. vf_get_type own (Suc fuel) vfs' vf = Returns (?r, vfs'') \<and> vf_same vfs vfs''"
      using t n1 [OF a(1) t(2)] len li_first [OF mx] vf_same_mixins [OF a(2) less.prems] by (auto simp: Let_def)
  qed
  moreover have "right_result R (visits vfs vf) ?r"
  proof -
    have "r1 = None \<or> right_result R (visits vfs vf) r1"
      using r1(2) right_result_more [of R _ _ "visits vfs vf"] visits_step [OF less.prems] by (cases r1) blast+
    moreover have "right_result R (visits vfs vf) None" if "R vf = None" "r1 = None"
      using r1(2) that visits_step [OF less.prems] by (auto simp: right_result_def)
    moreover have "r1 = None" if "al_count ?mx = 0"
      using r1(2) that length_al_list [OF mx] by (auto simp: mixins_of_def entries_of_def right_result_def split: option.splits)
    moreover have "vf \<in> visits vfs vf" by (simp add: visits_def)
    ultimately show ?thesis by (auto simp: right_result_def)
  qed
  ultimately show ?case by (intro exI [of _ ?r]) simp
qed

text \<open>
  When no factory is mixed into itself through others, looking up a type by name or by id returns:
  the own type of the factory when it has one, else a type of a factory that is mixed in, directly or
  through others, and nothing only when none of these factories has one.  The tables keep their types.
\<close>

theorem vf_lookup_searches_mixins:
  fixes name :: "wchar list" and x :: int32 and vfs :: "default_value_factory list"
  assumes "vfs_ok vfs" and "vf < length vfs" and "\<forall>(i, m) \<in> mixed_in vfs. (rank m :: nat) < rank i"
  defines "named i \<equiv> map_option (ko_content \<circ> fst) (table_map (dvf_types (vfs ! i)) (etch_get_wchar_hashkey 32 name))"
    and "with_id i \<equiv> find (\<lambda>ty. vt_id ty = x) (map ko_content (types_of (vfs ! i)))"
  shows "(\<exists>r n. (\<forall>fuel \<ge> n. \<exists>vfs'. defvf_get_type_by_name 32 fuel vfs vf name = Returns (r, vfs') \<and> vf_same vfs vfs')
      \<and> right_result named (visits vfs vf) r \<and> (named vf \<noteq> None \<longrightarrow> r = named vf))
    \<and> (\<exists>r n. (\<forall>fuel \<ge> n. \<exists>vfs'. defvf_get_type_by_id fuel vfs vf x = Returns (r, vfs') \<and> vf_same vfs vfs')
      \<and> right_result with_id (visits vfs vf) r \<and> (with_id vf \<noteq> None \<longrightarrow> r = with_id vf))"
proof -
  have all: "\<forall>v \<in> set vfs. vf_ok v" using assms(1) by (simp add: vfs_ok_def)
  have ac: "\<And>i m. (i, m) \<in> mixed_in vfs \<Longrightarrow> rank m < rank i" using assms(3) by blast
  have start: "\<exists>n. \<forall>fuel \<ge> n. \<exists>vfs'. call fuel vfs = Returns (r, vfs') \<and> vf_same vfs vfs'"
    if "gives vfs call r" for call r
    using that vf_same_refl [OF assms(1)] unfolding gives_def by blast
  obtain r1 where r1: "gives vfs (\<lambda>f v. defvf_get_type_by_name 32 f v vf name) r1"
    "right_result named (visits vfs vf) r1" "named vf \<noteq> None \<longrightarrow> r1 = named vf"
    using get_type_gives [where rank = rank, OF assms(1) own_by_name [OF all, of name] ac assms(2)]
    unfolding named_def defvf_get_type_by_name_def by blast
  obtain r2 where r2: "gives vfs (\<lambda>f v. defvf_get_type_by_id f v vf x) r2"
    "right_result with_id (visits vfs vf) r2" "with_id vf \<noteq> None \<longrightarrow> r2 = with_id vf"
    using get_type_gives [where rank = rank, OF assms(1) own_by_id [OF all, of x] ac assms(2)]
    unfolding with_id_def defvf_get_type_by_id_def by blast
  obtain n1 where n1: "\<forall>fuel \<ge> n1. \<exists>vfs'. defvf_get_type_by_name 32 fuel vfs vf name = Returns (r1, vfs') \<and> vf_same vfs vfs'"
    using start [OF r1(1)] by blast
  obtain n2 where n2: "\<forall>fuel \<ge> n2. \<exists>vfs'. defvf_get_type_by_id fuel vfs vf x = Returns (r2, vfs') \<and> vf_same vfs vfs'"
    using start [OF r2(1)] by blast
  show ?thesis by (intro conjI exI) (fact n1 n2 r1 r2)+
qed

text \<open>A lookup that goes round in a set of factories, each of which mixes in another one first.\<close>

lemma cycle_diverges:
  assumes ok: "vfs_ok vfs" and own: "own_finds vfs own R"
    and cyc: "\<And>i. i \<in> S \<Longrightarrow> i < length vfs \<and> R i = None
      \<and> (\<exists>m ms. al_list (dvf_mixins (vfs ! i)) = Some m # ms \<and> m \<noteq> i \<and> m \<in> S)"
  shows "i \<in> S \<Longrightarrow> vf_same vfs vfs' \<Longrightarrow> vf_get_type own fuel vfs' i = Diverges"
proof (induction fuel arbitrary: i vfs' rule: less_induct)
  case (less fuel)
  show ?case
  proof (cases fuel)
    case (Suc n)
    let ?mx = "dvf_mixins (vfs ! i)"
    obtain m ms where i: "i < length vfs" "R i = None" "al_list ?mx = Some m # ms" "m \<noteq> i" "m \<in> S"
      using cyc [OF less.prems(1)] by blast
    have mx: "al_ok ?mx" "al_count ?mx < 2147483648" using ok i(1) by (simp_all add: vfs_ok_def vf_ok_def)
    have cnt: "al_count ?mx \<noteq> 0" using i(3) length_al_list [OF mx(1)] by auto
    have has: "etch_arraylist_iterable_has_next ?mx (li_at (al_list ?mx) 0)" using li_has_next [OF mx, of 0] i(3) cnt by simp
    have cur: "li_current (li_at (al_list ?mx) 0) = Some m" using i(3) by (simp add: li_at_def)
    from own_step [OF own less.prems(2) i(1)] obtain t where
      t: "own (dvf_types (vfs' ! i)) = Returns (R i, t)" "vf_same vfs (vfs'[i := (vfs' ! i)\<lparr>dvf_types := t\<rparr>])" by blast
    let ?vfs = "vfs'[i := (vfs' ! i)\<lparr>dvf_types := t\<rparr>]"
    have same: "dvf_mixins (?vfs ! i) = ?mx" by (rule vf_same_mixins [OF t(2) i(1)])
    have "vf_mixins_loop own n ?vfs i (li_at (al_list ?mx) 0) = Diverges"
    proof (cases n)
      case (Suc k)
      then have "vf_get_type own k ?vfs m = Diverges" using less.IH [OF _ i(5) t(2), of k] \<open>fuel = Suc n\<close> by simp
      then show ?thesis using Suc has cur i(4) same by simp
    qed simp
    then show ?thesis using Suc t i(2) same cnt li_first [OF mx(1)] by (simp add: Let_def)
  qed simp
qed

text \<open>
  C23. Two factories that are mixed into each other make every lookup of a name that neither has run on
  for ever, because only a factory mixed into itself is left out.
\<close>

theorem mixin_cycle_never_returns:
  assumes "vfs_ok vfs" and "a < length vfs" and "b < length vfs" and "a \<noteq> b"
    and "al_list (dvf_mixins (vfs ! a)) = [Some b]" and "al_list (dvf_mixins (vfs ! b)) = [Some a]"
    and "table_map (dvf_types (vfs ! a)) (etch_get_wchar_hashkey 32 name) = None"
    and "table_map (dvf_types (vfs ! b)) (etch_get_wchar_hashkey 32 name) = None"
  shows "\<forall>fuel. defvf_get_type_by_name 32 fuel vfs a name = Diverges"
proof -
  have all: "\<forall>v \<in> set vfs. vf_ok v" using assms(1) by (simp add: vfs_ok_def)
  show ?thesis
    unfolding defvf_get_type_by_name_def
    by (intro allI cycle_diverges [OF assms(1) own_by_name [OF all], where S = "{a, b}"])
      (use assms in \<open>auto simp: vf_same_refl\<close>)
qed

section \<open>Adding a type\<close>

lemma type_key_fields [simp]:
  "ko_hashkey (type_key n ty) = etch_get_wchar_hashkey n (vt_name ty)" "key_kind (type_key n ty) = (0x16, 0x25)"
  "ko_content (type_key n ty) = ty"
  by (simp_all add: type_key_def key_kind_def)

lemma get_by_name_own:
  assumes "table_ok (0x16, 0x25) (dvf_types (vfs ! vf))"
    and "table_map (dvf_types (vfs ! vf)) (etch_get_wchar_hashkey 32 name) = Some (k, u)" and "vf < length vfs"
  shows "\<exists>vfs'. defvf_get_type_by_name 32 (Suc fuel) vfs vf name = Returns (Some (ko_content k), vfs')
    \<and> table_map (dvf_types (vfs' ! vf)) = table_map (dvf_types (vfs ! vf))"
  using find_spec [OF assms(1), of "etch_get_wchar_hashkey 32 name"] assms(2,3)
  by (auto simp: defvf_get_type_by_name_def get_idname_by_name_def split_beta Let_def)

text \<open>
  C22. A type with a new name is added, and a lookup of its name returns it; a type whose name has the
  hash of a type that is there is refused: the type that is there is returned, the new one is destroyed
  unless it is the same object, and the table stays as it was.  A name whose hash is 0, as the empty one
  is, cannot be added.
\<close>

theorem add_type_then_lookup:
  fixes ty :: vf_type and vfs :: "default_value_factory list" and vf fuel :: nat
  assumes "vf_ok (vfs ! vf)" and "vf < length vfs"
  defines "h \<equiv> etch_get_wchar_hashkey 32 (vt_name ty)" and "types \<equiv> table_map (dvf_types (vfs ! vf))"
  shows "case types h of
      Some (k, _) \<Rightarrow> \<exists>vfs'. defvf_add_type 32 (Suc fuel) vfs vf ty
          = Returns (Some (ko_content k), vt_addr (ko_content k) \<noteq> vt_addr ty, vfs')
        \<and> table_map (dvf_types (vfs' ! vf)) = types
    | None \<Rightarrow> (if h \<noteq> 0
        then \<exists>vfs'. defvf_add_type 32 fuel vfs vf ty = Returns (Some ty, False, vfs')
          \<and> table_map (dvf_types (vfs' ! vf)) = types(h \<mapsto> (type_key 32 ty, ()))
          \<and> (\<exists>vfs''. defvf_get_type_by_name 32 (Suc fuel) vfs' vf (vt_name ty) = Returns (Some ty, vfs''))
        else al_count (dvf_mixins (vfs ! vf)) = 0 \<longrightarrow> (\<exists>vfs'. defvf_add_type 32 (Suc fuel) vfs vf ty = Returns (None, False, vfs')
          \<and> table_map (dvf_types (vfs' ! vf)) = types))"
proof -
  let ?t = "dvf_types (vfs ! vf)" and ?k = "type_key 32 ty"
  have t: "table_ok (0x16, 0x25) ?t" using assms(1) by (simp add: vf_ok_def)
  let ?t' = "snd (jenkins_inserth 32 ?t ?k ())"
  let ?vfs = "vfs[vf := (vfs ! vf)\<lparr>dvf_types := ?t'\<rparr>]"
  have at: "dvf_types (?vfs ! vf) = ?t'" "dvf_mixins (?vfs ! vf) = dvf_mixins (vfs ! vf)" using assms(2) by simp_all
  show ?thesis
  proof (cases "types h = None \<and> h \<noteq> 0")
    case True
    then have new: "table_map ?t (ko_hashkey ?k) = None" "ko_hashkey ?k \<noteq> 0" by (simp_all add: h_def types_def)
    note i = insert_new [OF t _ new(2,1), of "()"]
    have "table_map (dvf_types (?vfs ! vf)) (etch_get_wchar_hashkey 32 (vt_name ty)) = Some (?k, ())" using i at by simp
    then obtain vfs'' where "defvf_get_type_by_name 32 (Suc fuel) ?vfs vf (vt_name ty) = Returns (Some ty, vfs'')"
      using get_by_name_own [of ?vfs vf "vt_name ty" ?k "()" fuel] i at assms(2) by auto
    moreover have "defvf_add_type 32 fuel vfs vf ty = Returns (Some ty, False, ?vfs)"
      using i by (simp add: defvf_add_type_def split_beta Let_def)
    ultimately show ?thesis using True i at by (auto simp: h_def types_def)
  next
    case False
    then have old: "ko_hashkey ?k = 0 \<or> table_map ?t (ko_hashkey ?k) \<noteq> None" by (auto simp: h_def types_def)
    note i = insert_refused [OF t _ old, of "()"]
    have add: "defvf_add_type 32 (Suc fuel) vfs vf ty =
        (case defvf_get_type_by_name 32 (Suc fuel) ?vfs vf (vt_name ty) of
           Returns (e, vfs) \<Rightarrow> Returns (e, e \<noteq> None \<and> map_option vt_addr e \<noteq> Some (vt_addr ty), vfs)
         | Fault \<Rightarrow> Fault | Diverges \<Rightarrow> Diverges)"
      using i by (simp add: defvf_add_type_def split_beta Let_def)
    show ?thesis
    proof (cases "types h")
      case (Some p)
      then obtain k where k: "types h = Some (k, ())" by (cases p) auto
      then have "table_map (dvf_types (?vfs ! vf)) (etch_get_wchar_hashkey 32 (vt_name ty)) = Some (k, ())"
        using i at by (simp add: h_def types_def)
      then obtain vfs'' where "defvf_get_type_by_name 32 (Suc fuel) ?vfs vf (vt_name ty) = Returns (Some (ko_content k), vfs'')"
        "table_map (dvf_types (vfs'' ! vf)) = table_map ?t'"
        using get_by_name_own [of ?vfs vf "vt_name ty" k "()" fuel] i at assms(2) by auto
      then show ?thesis using k add i by (auto simp: types_def)
    next
      case None
      then have z: "h = 0" "table_map ?t' h = None" using False i by (simp_all add: types_def)
      have f: "table_ok (0x16, 0x25) ?t'" using i by simp
      have "\<exists>vfs'. defvf_add_type 32 (Suc fuel) vfs vf ty = Returns (None, False, vfs')
          \<and> table_map (dvf_types (vfs' ! vf)) = types" if "al_count (dvf_mixins (vfs ! vf)) = 0"
        using that find_spec [OF f, of h] z(2) at assms(2) i
        by (auto simp: add defvf_get_type_by_name_def get_idname_by_name_def split_beta Let_def h_def [symmetric] types_def)
      then show ?thesis using None z(1) by simp
    qed
  qed
qed

section \<open>Witnesses\<close>

definition sample_type :: "nat \<Rightarrow> vf_type" where
  "sample_type n = \<lparr>vt_addr = n, vt_id = of_nat n, vt_name = [of_nat (96 + n)]\<rparr>"

text \<open>A factory with one type and one mixed-in factory.\<close>

definition sample_factory :: "nat \<Rightarrow> nat \<Rightarrow> default_value_factory" where
  "sample_factory n m =
     \<lparr>dvf_types = snd (jenkins_inserth 32 (jenkins_create 8) (type_key 32 (sample_type n)) ()), dvf_mixins = sample_list 4 m\<rparr>"

lemma sample_hashes:
  "etch_get_wchar_hashkey 32 [97] \<noteq> 0" "etch_get_wchar_hashkey 32 [98] \<noteq> 0" "etch_get_wchar_hashkey 32 [99] \<noteq> 0"
  "etch_get_wchar_hashkey 32 [97] \<noteq> etch_get_wchar_hashkey 32 [98]"
  "etch_get_wchar_hashkey 32 [99] \<noteq> etch_get_wchar_hashkey 32 [97]"
  "etch_get_wchar_hashkey 32 [99] \<noteq> etch_get_wchar_hashkey 32 [98]"
  by code_simp+

lemma sample_factory_ok:
  assumes "n = 1 \<or> n = 2"
  shows "vf_ok (sample_factory n m)" and "types_of (sample_factory n m) = [type_key 32 (sample_type n)]"
    and "table_map (dvf_types (sample_factory n m))
      = [etch_get_wchar_hashkey 32 [of_nat (96 + n)] \<mapsto> (type_key 32 (sample_type n), ())]"
    and "al_list (dvf_mixins (sample_factory n m)) = [Some m]"
proof -
  let ?k = "type_key 32 (sample_type n)"
  let ?t = "snd (jenkins_inserth 32 (jenkins_create 8) ?k ())"
  have nz: "ko_hashkey ?k \<noteq> 0" using assms sample_hashes(1,2) by (auto simp: sample_type_def)
  have t0: "htab_inv (jenkins_create 8 :: (vf_type etch_key, unit) htab)" "ht_items (jenkins_create 8 :: (vf_type etch_key, unit) htab) = []"
    using create_ok [of "(0, 0)" 8] by (simp_all add: table_ok_def jenkins_create_def Let_def)
  have i: "table_ok (0x16, 0x25) ?t" "table_map ?t = [ko_hashkey ?k \<mapsto> (?k, ())]"
    using insert_new [OF create_ok [of "(0x16, 0x25)" 8], of ?k "()"] nz by simp_all
  have "key_ub4 32 ?k \<noteq> 0" using nz by (simp add: unat_eq_zero)
  from haddx_new [OF t0(1) this, of "()"]
  have "mset (ht_items ?t) = {#\<lparr>hi_key = ?k, hi_keyl = 8, hi_stuff = (), hi_hval = unat (ko_hashkey ?k)\<rparr>#}"
    using t0(2) by (simp add: jenkins_inserth_def split_beta ht_map_def find_None_iff)
  then have it: "ht_items ?t = [\<lparr>hi_key = ?k, hi_keyl = 8, hi_stuff = (), hi_hval = unat (ko_hashkey ?k)\<rparr>]"
    by simp
  then have "ht_count ?t = 1" using i(1) by (simp add: table_ok_def htab_inv_def)
  then show "vf_ok (sample_factory n m)" using i(1) by (simp add: vf_ok_def sample_factory_def sample_list_ok)
  show "types_of (sample_factory n m) = [?k]" using it by (simp add: types_of_def sample_factory_def)
  show "table_map (dvf_types (sample_factory n m)) = [etch_get_wchar_hashkey 32 [of_nat (96 + n)] \<mapsto> (?k, ())]"
    using i(2) by (simp add: sample_factory_def sample_type_def)
  show "al_list (dvf_mixins (sample_factory n m)) = [Some m]" by (simp add: sample_factory_def sample_list_ok)
qed

lemma sample_type_ids: "vt_id (sample_type 1) = 1" "vt_id (sample_type 2) = 2" "vt_name (sample_type 1) = [97]"
    "vt_name (sample_type 2) = [98]" "vt_name (sample_type 3) = [99]"
  by (simp_all add: sample_type_def)

text \<open>Factory 0 mixes in factory 1, which mixes in itself; then both mix in each other.\<close>

lemma sample_factories_ok:
  assumes "m < 2" and "k < 2"
  shows "vfs_ok [sample_factory 1 m, sample_factory 2 k]"
    and "mixins_of [sample_factory 1 m, sample_factory 2 k] 0 = [m]"
    and "mixins_of [sample_factory 1 m, sample_factory 2 k] 1 = [k]"
  using assms by (auto simp: vfs_ok_def mixins_of_def entries_of_def sample_factory_ok nth_Cons less_Suc_eq numeral_2_eq_2)

lemma get_types_hangs_on_mixin_witness:
  "\<forall>fuel. defvf_get_types fuel [sample_factory 1 1, sample_factory 2 1] 0 = Diverges"
  using get_types_hangs_on_mixin [of "[sample_factory 1 1, sample_factory 2 1]" 0]
  by (simp add: sample_factory_ok sample_type_ids del: One_nat_def)

lemma vf_lookup_searches_mixins_witness:
  "\<exists>n. \<forall>fuel \<ge> n. \<exists>vfs'. defvf_get_type_by_name 32 fuel [sample_factory 1 1, sample_factory 2 1] 0 [98]
      = Returns (Some (sample_type 2), vfs')"
proof -
  let ?vfs = "[sample_factory 1 1, sample_factory 2 1]"
  have m: "mixed_in ?vfs = {(0, 1)}"
    using sample_factories_ok(2,3) [of 1 1] by (auto simp: mixed_in_def less_Suc_eq)
  then have v: "visits ?vfs 0 = {0, 1}"
    by (auto simp: visits_def rtrancl_insert elim: rtranclE)
  have n: "table_map (dvf_types (?vfs ! 0)) (etch_get_wchar_hashkey 32 [98]) = None"
    "table_map (dvf_types (?vfs ! 1)) (etch_get_wchar_hashkey 32 [98]) = Some (type_key 32 (sample_type 2), ())"
    using sample_hashes(4) by (simp_all add: sample_factory_ok del: One_nat_def)
  have "\<forall>(i, m) \<in> mixed_in ?vfs. 1 - m < 1 - i" unfolding m by simp
  have len: "0 < length ?vfs" and ok: "vfs_ok ?vfs" by (simp, rule sample_factories_ok) simp_all
  obtain r k where r: "\<forall>fuel \<ge> k. \<exists>vfs'. defvf_get_type_by_name 32 fuel ?vfs 0 [98] = Returns (r, vfs') \<and> vf_same ?vfs vfs'"
    "right_result (\<lambda>i. map_option (ko_content \<circ> fst) (table_map (dvf_types (?vfs ! i)) (etch_get_wchar_hashkey 32 [98])))
       (visits ?vfs 0) r"
    using vf_lookup_searches_mixins [where rank = "\<lambda>i. 1 - i" and name = "[98]" and x = 0,
        OF ok len \<open>\<forall>(i, m) \<in> mixed_in ?vfs. 1 - m < 1 - i\<close>, THEN conjunct1]
    by blast
  have "r = Some (sample_type 2)" using r(2) n unfolding v by (auto simp: right_result_def split: option.splits)
  then show ?thesis using r(1) by blast
qed

lemma mixin_cycle_never_returns_witness:
  "\<forall>fuel. defvf_get_type_by_name 32 fuel [sample_factory 1 1, sample_factory 2 0] 0 [99] = Diverges"
proof -
  have "vfs_ok [sample_factory 1 1, sample_factory 2 0]" by (rule sample_factories_ok) simp_all
  then show ?thesis
    by (rule mixin_cycle_never_returns [where b = 1])
      (simp_all add: sample_factory_ok sample_hashes del: One_nat_def)
qed

lemma add_type_then_lookup_witness:
  "\<exists>vfs' vfs''. defvf_add_type 32 0 [sample_factory 1 0] 0 (sample_type 3) = Returns (Some (sample_type 3), False, vfs')
    \<and> defvf_get_type_by_name 32 1 vfs' 0 [99] = Returns (Some (sample_type 3), vfs'')"
  using add_type_then_lookup [of "[sample_factory 1 0]" 0 "sample_type 3" 0]
  by (auto simp: sample_factory_ok sample_hashes sample_type_ids)

end
