(* ===== verification/LinkedList.thy ===== *)
theory LinkedList
  imports Prelude
begin

text \<open>
  The linked list of \<open>src/main/common/etch_linked_list.c\<close>: nodes in memory, linked by pointers.

  \<^item> \<open>ll_heap\<close> is the memory of the nodes: \<open>malloc\<close> returns the address \<open>ll_brk\<close>, which it never
    returns again, \<open>free\<close> takes the node away.  Reading or writing a node that is not there is \<open>Fault\<close>,
    as is an assertion that fails.
  \<^item> A pointer is an option, \<open>None\<close> the null pointer.  Data that is freed is returned in a list.
  \<^item> \<open>count\<close>, \<open>index\<close> and the loop counters are 32-bit words.  A walk over the nodes has one unit of
    fuel per round.  The list itself is not null.
\<close>

definition ETCH_SUCCESS :: int where "ETCH_SUCCESS = 0"
definition ETCH_ERROR :: int where "ETCH_ERROR = 1"
definition ETCH_EINVAL :: int where "ETCH_EINVAL = 2"
definition ETCH_EOUTOFBOUNDS :: int where "ETCH_EOUTOFBOUNDS = 9"

definition ETCH_LINKED_LIST_DATA_FREE :: byte where "ETCH_LINKED_LIST_DATA_FREE = 2"

record 'd etch_linked_list_node =
  nd_data :: 'd
  nd_next :: "nat option"

record 'd etch_linked_list_t =
  ll_heap :: "nat \<rightharpoonup> 'd etch_linked_list_node"
  ll_brk :: nat
  ll_count :: int32
  ll_head :: "nat option"
  ll_tail :: "nat option"
  ll_flags :: byte

definition etch_linked_list_create :: "byte \<Rightarrow> 'd etch_linked_list_t" where
  "etch_linked_list_create flags =
     \<lparr>ll_heap = Map.empty, ll_brk = 0, ll_count = 0, ll_head = None, ll_tail = None, ll_flags = flags\<rparr>"

text \<open>A new node with the data, its \<open>next\<close> null; storing the \<open>next\<close> of a node; freeing a node.\<close>

definition new_node :: "'d etch_linked_list_t \<Rightarrow> 'd \<Rightarrow> nat \<times> 'd etch_linked_list_t" where
  "new_node list data =
     (ll_brk list, list\<lparr>ll_heap := (ll_heap list)(ll_brk list \<mapsto> \<lparr>nd_data = data, nd_next = None\<rparr>),
                        ll_brk := ll_brk list + 1\<rparr>)"

definition set_next :: "'d etch_linked_list_t \<Rightarrow> nat \<Rightarrow> nat option \<Rightarrow> 'd etch_linked_list_t outcome" where
  "set_next list a q =
     (case ll_heap list a of
        None \<Rightarrow> Fault
      | Some node \<Rightarrow> Returns (list\<lparr>ll_heap := (ll_heap list)(a \<mapsto> node\<lparr>nd_next := q\<rparr>)\<rparr>))"

definition free_node :: "'d etch_linked_list_t \<Rightarrow> nat \<Rightarrow> ('d list \<times> 'd etch_linked_list_t) outcome" where
  "free_node list a =
     (case ll_heap list a of
        None \<Rightarrow> Fault
      | Some node \<Rightarrow>
          Returns (if ll_flags list AND ETCH_LINKED_LIST_DATA_FREE \<noteq> 0 then [nd_data node] else [],
                   list\<lparr>ll_heap := (ll_heap list)(a := None)\<rparr>))"

section \<open>Adding\<close>

definition etch_linked_list_add :: "'d etch_linked_list_t \<Rightarrow> 'd option \<Rightarrow> (int \<times> 'd etch_linked_list_t) outcome" where
  "etch_linked_list_add list data =
     (case data of
        None \<Rightarrow> Returns (ETCH_EINVAL, list)
      | Some data \<Rightarrow>
          (case new_node list data of (newnode, list) \<Rightarrow>
             (case (case ll_head list of
                      None \<Rightarrow> Returns (list\<lparr>ll_head := Some newnode\<rparr>)
                    | Some _ \<Rightarrow>
                        (case ll_tail list of None \<Rightarrow> Fault | Some t \<Rightarrow> set_next list t (Some newnode))) of
                Returns list \<Rightarrow>
                  Returns (ETCH_SUCCESS, list\<lparr>ll_tail := Some newnode, ll_count := ll_count list + 1\<rparr>)
              | Fault \<Rightarrow> Fault
              | Diverges \<Rightarrow> Diverges)))"

fun insert_loop ::
  "nat \<Rightarrow> int32 \<Rightarrow> nat \<Rightarrow> int32 \<Rightarrow> nat option \<Rightarrow> 'd etch_linked_list_t \<Rightarrow> (int \<times> 'd etch_linked_list_t) outcome" where
  "insert_loop 0 index newnode i p list = Diverges"
| "insert_loop (Suc fuel) index newnode i p list =
     (case p of
        None \<Rightarrow> Returns (ETCH_ERROR, list)
      | Some a \<Rightarrow>
          if index = 0
          then (case set_next list newnode (ll_head list) of
                  Returns list \<Rightarrow> Returns (ETCH_SUCCESS, list\<lparr>ll_head := Some newnode\<rparr>)
                | Fault \<Rightarrow> Fault
                | Diverges \<Rightarrow> Diverges)
          else (case ll_heap list a of
                  None \<Rightarrow> Fault
                | Some node \<Rightarrow>
                    if index - 1 = i
                    then (case set_next list newnode (nd_next node) of
                            Returns list \<Rightarrow>
                              (case set_next list a (Some newnode) of
                                 Returns list \<Rightarrow> Returns (ETCH_SUCCESS, list)
                               | Fault \<Rightarrow> Fault
                               | Diverges \<Rightarrow> Diverges)
                          | Fault \<Rightarrow> Fault
                          | Diverges \<Rightarrow> Diverges)
                    else insert_loop fuel index newnode (i + 1) (nd_next node) list))"

definition etch_linked_list_insert ::
  "nat \<Rightarrow> 'd etch_linked_list_t \<Rightarrow> int32 \<Rightarrow> 'd option \<Rightarrow> (int \<times> 'd etch_linked_list_t) outcome" where
  "etch_linked_list_insert fuel list index data =
     (case data of
        None \<Rightarrow> Returns (ETCH_EINVAL, list)
      | Some d \<Rightarrow>
          if ll_count list \<le> index \<or> index <s 0 then Returns (ETCH_EOUTOFBOUNDS, list)
          else if ll_head list = None then etch_linked_list_add list data
          else (case new_node list d of (newnode, list) \<Rightarrow>
                  (case insert_loop fuel index newnode 0 (ll_head list) list of
                     Returns (rv, list) \<Rightarrow>
                       if rv = ETCH_SUCCESS then Returns (rv, list\<lparr>ll_count := ll_count list + 1\<rparr>) else Fault
                   | Fault \<Rightarrow> Fault
                   | Diverges \<Rightarrow> Diverges)))"

section \<open>Looking\<close>

text \<open>\<open>data\<close> is what the caller's variable holds: it is left alone when the index is not reached.\<close>

fun get_loop ::
  "nat \<Rightarrow> int32 \<Rightarrow> int32 \<Rightarrow> nat option \<Rightarrow> 'd etch_linked_list_t \<Rightarrow> 'd option \<Rightarrow> 'd option outcome" where
  "get_loop 0 index i p list data = Diverges"
| "get_loop (Suc fuel) index i p list data =
     (case p of
        None \<Rightarrow> Returns data
      | Some a \<Rightarrow>
          (case ll_heap list a of
             None \<Rightarrow> Fault
           | Some node \<Rightarrow>
               if index = i then Returns (Some (nd_data node))
               else get_loop fuel index (i + 1) (nd_next node) list data))"

definition etch_linked_list_get ::
  "nat \<Rightarrow> 'd etch_linked_list_t \<Rightarrow> int32 \<Rightarrow> 'd option \<Rightarrow> (int \<times> 'd option) outcome" where
  "etch_linked_list_get fuel list index data =
     (if ll_count list \<le> index \<or> index <s 0 then Returns (ETCH_EINVAL, data)
      else case get_loop fuel index 0 (ll_head list) list data of
             Returns data \<Rightarrow> Returns (ETCH_SUCCESS, data)
           | Fault \<Rightarrow> Fault
           | Diverges \<Rightarrow> Diverges)"

fun index_of_loop :: "nat \<Rightarrow> 'd \<Rightarrow> int32 \<Rightarrow> nat option \<Rightarrow> 'd etch_linked_list_t \<Rightarrow> int32 outcome" where
  "index_of_loop 0 data i p list = Diverges"
| "index_of_loop (Suc fuel) data i p list =
     (case p of
        None \<Rightarrow> Returns (- 1)
      | Some a \<Rightarrow>
          (case ll_heap list a of
             None \<Rightarrow> Fault
           | Some node \<Rightarrow>
               if nd_data node = data then Returns i
               else index_of_loop fuel data (i + 1) (nd_next node) list))"

definition etch_linked_list_index_of ::
  "nat \<Rightarrow> 'd etch_linked_list_t \<Rightarrow> 'd option \<Rightarrow> int32 outcome" where
  "etch_linked_list_index_of fuel list data =
     (case data of
        None \<Rightarrow> Returns (word_of_int ETCH_EINVAL)
      | Some data \<Rightarrow> index_of_loop fuel data 0 (ll_head list) list)"

fun contains_loop :: "nat \<Rightarrow> 'd \<Rightarrow> nat option \<Rightarrow> 'd etch_linked_list_t \<Rightarrow> bool outcome" where
  "contains_loop 0 data p list = Diverges"
| "contains_loop (Suc fuel) data p list =
     (case p of
        None \<Rightarrow> Returns False
      | Some a \<Rightarrow>
          (case ll_heap list a of
             None \<Rightarrow> Fault
           | Some node \<Rightarrow>
               if nd_data node = data then Returns True else contains_loop fuel data (nd_next node) list))"

definition etch_linked_list_contains :: "nat \<Rightarrow> 'd etch_linked_list_t \<Rightarrow> 'd option \<Rightarrow> bool outcome" where
  "etch_linked_list_contains fuel list data =
     (case data of None \<Rightarrow> Returns False | Some data \<Rightarrow> contains_loop fuel data (ll_head list) list)"

definition etch_linked_list_count :: "'d etch_linked_list_t \<Rightarrow> int32" where
  "etch_linked_list_count list = ll_count list"

section \<open>Removing\<close>

text \<open>The loop returns the node to remove.\<close>

fun remove_at_loop ::
  "nat \<Rightarrow> int32 \<Rightarrow> int32 \<Rightarrow> nat option \<Rightarrow> 'd etch_linked_list_t \<Rightarrow> (nat option \<times> 'd etch_linked_list_t) outcome" where
  "remove_at_loop 0 index i p list = Diverges"
| "remove_at_loop (Suc fuel) index i p list =
     (case p of
        None \<Rightarrow> Returns (None, list)
      | Some a \<Rightarrow>
          (case ll_heap list a of
             None \<Rightarrow> Fault
           | Some node \<Rightarrow>
               if index = 0 then Returns (Some a, list\<lparr>ll_head := nd_next node\<rparr>)
               else if index - 1 = i \<and> index = ll_count list - 1
               then (case set_next list a None of
                       Returns list \<Rightarrow> Returns (nd_next node, list\<lparr>ll_tail := Some a\<rparr>)
                     | Fault \<Rightarrow> Fault
                     | Diverges \<Rightarrow> Diverges)
               else if index - 1 = i
               then (case nd_next node of
                       None \<Rightarrow> Fault
                     | Some b \<Rightarrow>
                         (case ll_heap list b of
                            None \<Rightarrow> Fault
                          | Some node' \<Rightarrow>
                              (case set_next list a (nd_next node') of
                                 Returns list \<Rightarrow> Returns (Some b, list)
                               | Fault \<Rightarrow> Fault
                               | Diverges \<Rightarrow> Diverges)))
               else remove_at_loop fuel index (i + 1) (nd_next node) list))"

definition etch_linked_list_remove_at ::
  "nat \<Rightarrow> 'd etch_linked_list_t \<Rightarrow> int32 \<Rightarrow> (int \<times> 'd list \<times> 'd etch_linked_list_t) outcome" where
  "etch_linked_list_remove_at fuel list index =
     (if ll_count list \<le> index \<or> index <s 0 then Returns (ETCH_EOUTOFBOUNDS, [], list)
      else if ll_count list = 1
      then (case ll_head list of
              None \<Rightarrow> Fault
            | Some a \<Rightarrow>
                (case free_node list a of
                   Returns (freed, list) \<Rightarrow>
                     Returns (ETCH_SUCCESS, freed, list\<lparr>ll_head := None, ll_tail := None, ll_count := 0\<rparr>)
                 | Fault \<Rightarrow> Fault
                 | Diverges \<Rightarrow> Diverges))
      else (case remove_at_loop fuel index 0 (ll_head list) list of
              Returns (None, list) \<Rightarrow> Fault
            | Returns (Some rmnode, list) \<Rightarrow>
                (case free_node list rmnode of
                   Returns (freed, list) \<Rightarrow> Returns (ETCH_SUCCESS, freed, list\<lparr>ll_count := ll_count list - 1\<rparr>)
                 | Fault \<Rightarrow> Fault
                 | Diverges \<Rightarrow> Diverges)
            | Fault \<Rightarrow> Fault
            | Diverges \<Rightarrow> Diverges))"

definition etch_linked_list_remove ::
  "nat \<Rightarrow> 'd etch_linked_list_t \<Rightarrow> 'd option \<Rightarrow> (int \<times> 'd list \<times> 'd etch_linked_list_t) outcome" where
  "etch_linked_list_remove fuel list data =
     (case data of
        None \<Rightarrow> Returns (ETCH_EINVAL, [], list)
      | Some _ \<Rightarrow>
          (case etch_linked_list_index_of fuel list data of
             Returns index \<Rightarrow> etch_linked_list_remove_at fuel list index
           | Fault \<Rightarrow> Fault
           | Diverges \<Rightarrow> Diverges))"

fun clear_nodes :: "nat \<Rightarrow> nat option \<Rightarrow> 'd etch_linked_list_t \<Rightarrow> ('d list \<times> 'd etch_linked_list_t) outcome" where
  "clear_nodes 0 p list = Diverges"
| "clear_nodes (Suc fuel) p list =
     (case p of
        None \<Rightarrow> Returns ([], list)
      | Some a \<Rightarrow>
          (case ll_heap list a of
             None \<Rightarrow> Fault
           | Some node \<Rightarrow>
               (case free_node list a of
                  Returns (freed, list) \<Rightarrow>
                    (case clear_nodes fuel (nd_next node) list of
                       Returns (rest, list) \<Rightarrow> Returns (freed @ rest, list)
                     | Fault \<Rightarrow> Fault
                     | Diverges \<Rightarrow> Diverges)
                | Fault \<Rightarrow> Fault
                | Diverges \<Rightarrow> Diverges)))"

definition etch_linked_list_clear ::
  "nat \<Rightarrow> 'd etch_linked_list_t \<Rightarrow> (int \<times> 'd list \<times> 'd etch_linked_list_t) outcome" where
  "etch_linked_list_clear fuel list =
     (case clear_nodes fuel (ll_head list) list of
        Returns (freed, list) \<Rightarrow>
          Returns (ETCH_SUCCESS, freed, list\<lparr>ll_head := None, ll_tail := None, ll_count := 0\<rparr>)
      | Fault \<Rightarrow> Fault
      | Diverges \<Rightarrow> Diverges)"

text \<open>The list itself is freed too: what is left of it is its memory.\<close>

definition etch_linked_list_destroy ::
  "nat \<Rightarrow> 'd etch_linked_list_t \<Rightarrow> (int \<times> 'd list \<times> (nat \<rightharpoonup> 'd etch_linked_list_node)) outcome" where
  "etch_linked_list_destroy fuel list =
     (case etch_linked_list_clear fuel list of
        Returns (_, freed, list) \<Rightarrow> Returns (ETCH_SUCCESS, freed, ll_heap list)
      | Fault \<Rightarrow> Fault
      | Diverges \<Rightarrow> Diverges)"

end
