(* ===== verification/LinkedList_Correct.thy ===== *)
theory LinkedList_Correct
  imports LinkedList ListContract "HOL-Library.Multiset"
begin

text \<open>
  The linked list behaves as a list of its data, whatever is called on it, and leaks no node: the
  interpretation of \<open>list_object\<close> on the calls of \<open>etch_linked_list.c\<close>.
\<close>

section \<open>Chains of nodes\<close>

text \<open>From \<open>p\<close> to \<open>q\<close> through nodes at these addresses with these data.\<close>

fun seg :: "(nat \<rightharpoonup> 'd etch_linked_list_node) \<Rightarrow> nat option \<Rightarrow> (nat \<times> 'd) list \<Rightarrow> nat option \<Rightarrow> bool" where
  "seg h p [] q \<longleftrightarrow> p = q"
| "seg h p ((a, d) # xs) q \<longleftrightarrow> p = Some a \<and> (\<exists>r. h a = Some \<lparr>nd_data = d, nd_next = r\<rparr> \<and> seg h r xs q)"

lemma seg_append: "seg h p (xs @ ys) q \<longleftrightarrow> (\<exists>r. seg h p xs r \<and> seg h r ys q)"
  by (induction h p xs q rule: seg.induct) auto

lemma seg_upd: "a \<notin> fst ` set xs \<Longrightarrow> seg (h(a := v)) p xs q = seg h p xs q"
  by (induction xs arbitrary: p) auto

lemma seg_dom: "seg h p xs q \<Longrightarrow> fst ` set xs \<subseteq> dom h"
  by (induction h p xs q rule: seg.induct) auto

text \<open>The first of the remaining nodes.\<close>

definition first_of :: "(nat \<times> 'd) list \<Rightarrow> nat option" where
  "first_of xs = (case xs of [] \<Rightarrow> None | x # _ \<Rightarrow> Some (fst x))"

lemma first_of_simps [simp]: "first_of [] = None" "first_of ((a, d) # xs) = Some a"
  by (simp_all add: first_of_def)

lemma seg_None: "seg h p xs None \<Longrightarrow> p = first_of xs"
  by (cases xs) auto

lemma seg_nth:
  assumes "seg h p xs None" and "k < length xs"
  shows "h (fst (xs ! k)) = Some \<lparr>nd_data = snd (xs ! k), nd_next = first_of (drop (k + 1) xs)\<rparr>"
  using assms
proof (induction xs arbitrary: p k)
  case (Cons x xs)
  obtain a d where x: "x = (a, d)" by (cases x)
  then obtain r where r: "h a = Some \<lparr>nd_data = d, nd_next = r\<rparr>" "seg h r xs None" using Cons.prems(1) by auto
  then show ?case using Cons.IH [OF r(2)] Cons.prems(2) x seg_None [OF r(2)] by (cases k) auto
qed simp

text \<open>
  A heap is the chain of a list of distinct nodes exactly when every node has its data and the address
  of the next one.
\<close>

lemma seg_intro:
  assumes "\<And>k. k < length xs \<Longrightarrow> h (fst (xs ! k)) = Some \<lparr>nd_data = snd (xs ! k), nd_next = first_of (drop (k + 1) xs)\<rparr>"
  shows "seg h (first_of xs) xs None"
  using assms
proof (induction xs)
  case (Cons x xs)
  have "seg h (first_of xs) xs None"
  proof (rule Cons.IH)
    fix k assume "k < length xs"
    then show "h (fst (xs ! k)) = Some \<lparr>nd_data = snd (xs ! k), nd_next = first_of (drop (k + 1) xs)\<rparr>"
      using Cons.prems [of "k + 1"] by simp
  qed
  then show ?case using Cons.prems [of 0] by (cases x) simp
qed simp

section \<open>The invariant\<close>

lemma unat32: "n < 4294967296 \<Longrightarrow> unat (of_nat n :: int32) = n"
  by (simp add: unat_of_nat)

definition nodes :: "'d etch_linked_list_t \<Rightarrow> (nat \<times> 'd) list \<Rightarrow> bool" where
  "nodes l xs \<longleftrightarrow> seg (ll_heap l) (ll_head l) xs None \<and> distinct (map fst xs)
     \<and> dom (ll_heap l) = fst ` set xs \<and> (\<forall>a \<in> dom (ll_heap l). a < ll_brk l)
     \<and> ll_count l = of_nat (length xs) \<and> length xs < 4294967296
     \<and> ll_tail l = (if xs = [] then None else Some (fst (last xs)))"

definition ll_inv :: "byte \<Rightarrow> 'd etch_linked_list_t \<Rightarrow> bool" where
  "ll_inv flags l \<longleftrightarrow> ll_flags l = flags \<and> (\<exists>xs. nodes l xs)"

primrec walk :: "(nat \<rightharpoonup> 'd etch_linked_list_node) \<Rightarrow> nat \<Rightarrow> nat option \<Rightarrow> 'd list" where
  "walk h 0 p = []"
| "walk h (Suc n) p =
     (case p of None \<Rightarrow> [] | Some a \<Rightarrow> (case h a of None \<Rightarrow> [] | Some node \<Rightarrow> nd_data node # walk h n (nd_next node)))"

definition ll_list :: "'d etch_linked_list_t \<Rightarrow> 'd list" where
  "ll_list l = walk (ll_heap l) (unat (ll_count l)) (ll_head l)"

lemma walk_seg: "seg h p xs None \<Longrightarrow> walk h (length xs) p = map snd xs"
  by (induction xs arbitrary: p) auto

lemma ll_list_nodes:
  assumes "nodes l xs"
  shows "ll_list l = map snd xs"
proof -
  have "unat (ll_count l) = length xs" using assms by (simp add: nodes_def unat32)
  then show ?thesis using walk_seg [of "ll_heap l" "ll_head l" xs] assms by (simp add: ll_list_def nodes_def)
qed

lemma nodesD:
  assumes "nodes l xs"
  shows "seg (ll_heap l) (ll_head l) xs None" and "distinct (map fst xs)" and "dom (ll_heap l) = fst ` set xs"
    and "ll_head l = first_of xs" and "ll_count l = of_nat (length xs)" and "unat (ll_count l) = length xs"
    and "ll_brk l \<notin> fst ` set xs"
proof -
  show "seg (ll_heap l) (ll_head l) xs None" "distinct (map fst xs)" "ll_head l = first_of xs"
    "ll_count l = of_nat (length xs)" "unat (ll_count l) = length xs"
    using assms seg_None [of "ll_heap l" "ll_head l" xs] by (simp_all add: nodes_def unat32)
  show d: "dom (ll_heap l) = fst ` set xs" using assms by (simp add: nodes_def)
  have "\<forall>a \<in> dom (ll_heap l). a < ll_brk l" using assms by (simp add: nodes_def)
  then show "ll_brk l \<notin> fst ` set xs" unfolding d by blast
qed

lemma nodes_below: "nodes l xs \<Longrightarrow> b \<in> dom (ll_heap l) \<Longrightarrow> b < Suc (ll_brk l)"
  by (auto simp: nodes_def intro: less_SucI)

text \<open>The check of an index.\<close>

lemma index_check:
  assumes "n < 2147483648"
  shows "(of_nat n \<le> index \<or> index <s 0) \<longleftrightarrow> \<not> unat (index :: int32) < n"
proof (cases "unat index < 2147483648")
  case True
  then have "uint index < 2147483648" "- 2147483648 \<le> uint index" using uint_nat [of index] uint_ge_0 [of index] by linarith+
  then have "sint index = uint index" by (simp add: sint_uint signed_take_bit_int_eq_self)
  then show ?thesis using assms by (auto simp: word_sless_alt word_le_nat_alt unat32)
qed (use assms in \<open>auto simp: word_le_nat_alt unat32\<close>)

lemma of_nat_steps:
  assumes "Suc k < 4294967296"
  shows "(i :: int32) + of_nat (Suc k) \<noteq> i"
  using assms unat32 [of "Suc k"] by auto

section \<open>Walking\<close>

lemma insert_loop_walk:
  assumes "seg (ll_heap l) p us (Some a)" and "index \<noteq> 0" and "index - 1 = i + of_nat (length us)"
    and "length us < 4294967296"
  shows "insert_loop (length us + fuel) index n i p l = insert_loop fuel index n (index - 1) (Some a) l"
  using assms
proof (induction us arbitrary: p i)
  case (Cons u us)
  obtain b e where u: "u = (b, e)" by (cases u)
  have "index - 1 \<noteq> i" using of_nat_steps [of "length us" i] Cons.prems(3,4) by simp
  moreover have "index - 1 = (i + 1) + of_nat (length us)" using Cons.prems(3) by (simp add: algebra_simps)
  moreover obtain r where "p = Some b" "ll_heap l b = Some \<lparr>nd_data = e, nd_next = r\<rparr>" "seg (ll_heap l) r us (Some a)"
    using Cons.prems(1) u by auto
  ultimately show ?case using Cons.IH [of r "i + 1"] Cons.prems(2,4) u by simp
qed simp

lemma get_loop_walk:
  assumes "seg (ll_heap l) p us (Some a)" and "index = i + of_nat (length us)" and "length us < 4294967296"
  shows "get_loop (length us + fuel) index i p l x = get_loop fuel index index (Some a) l x"
  using assms
proof (induction us arbitrary: p i)
  case (Cons u us)
  obtain b e where u: "u = (b, e)" by (cases u)
  have "index \<noteq> i" using of_nat_steps [of "length us" i] Cons.prems(2,3) by simp
  moreover have "index = (i + 1) + of_nat (length us)" using Cons.prems(2) by (simp add: algebra_simps)
  ultimately show ?case using Cons u by auto
qed simp

lemma remove_at_loop_walk:
  assumes "seg (ll_heap l) p us (Some a)" and "index \<noteq> 0" and "index - 1 = i + of_nat (length us)"
    and "length us < 4294967296"
  shows "remove_at_loop (length us + fuel) index i p l = remove_at_loop fuel index (index - 1) (Some a) l"
  using assms
proof (induction us arbitrary: p i)
  case (Cons u us)
  obtain b e where u: "u = (b, e)" by (cases u)
  have "index - 1 \<noteq> i" using of_nat_steps [of "length us" i] Cons.prems(3,4) by simp
  moreover have "index - 1 = (i + 1) + of_nat (length us)" using Cons.prems(3) by (simp add: algebra_simps)
  moreover obtain r where "p = Some b" "ll_heap l b = Some \<lparr>nd_data = e, nd_next = r\<rparr>" "seg (ll_heap l) r us (Some a)"
    using Cons.prems(1) u by auto
  ultimately show ?case using Cons.IH [of r "i + 1"] Cons.prems(2,4) u by simp
qed simp

lemma index_of_loop_seg:
  assumes "seg (ll_heap l) p xs None" and "length xs < fuel"
  shows "index_of_loop fuel d i p l = Returns (case find (\<lambda>k. snd (xs ! k) = d) [0..<length xs] of
      None \<Rightarrow> - 1 | Some k \<Rightarrow> i + of_nat k)"
  using assms
proof (induction xs arbitrary: p i fuel)
  case Nil
  then show ?case by (cases fuel) auto
next
  case (Cons x xs)
  obtain a e where x: "x = (a, e)" by (cases x)
  obtain n where n: "fuel = Suc n" using Cons.prems(2) by (cases fuel) auto
  have "[0..<length (x # xs)] = 0 # map Suc [0..<length xs]" by (simp add: upt_conv_Cons map_Suc_upt del: upt_Suc)
  moreover have "find (\<lambda>k. snd ((x # xs) ! k) = d) (map Suc ks) = map_option Suc (find (\<lambda>k. snd (xs ! k) = d) ks)" for ks
    by (induction ks) simp_all
  ultimately have f: "find (\<lambda>k. snd ((x # xs) ! k) = d) [0..<length (x # xs)] =
      (if e = d then Some 0 else map_option Suc (find (\<lambda>k. snd (xs ! k) = d) [0..<length xs]))"
    using x by (simp del: upt_Suc)
  show ?case unfolding f using Cons.IH [of _ n "i + 1"] Cons.prems x n by (auto simp: algebra_simps split: option.splits)
qed

lemma contains_loop_seg:
  assumes "seg (ll_heap l) p xs None" and "length xs < fuel"
  shows "contains_loop fuel d p l = Returns (d \<in> snd ` set xs)"
  using assms
proof (induction xs arbitrary: p fuel)
  case Nil
  then show ?case by (cases fuel) auto
next
  case (Cons x xs)
  obtain a e where x: "x = (a, e)" by (cases x)
  obtain n where n: "fuel = Suc n" using Cons.prems(2) by (cases fuel) auto
  show ?case using Cons.IH [of _ n] Cons.prems x n by auto
qed

lemma clear_nodes_seg:
  assumes "seg (ll_heap l) p xs None" and "distinct (map fst xs)" and "dom (ll_heap l) = fst ` set xs" and "length xs < fuel"
  shows "clear_nodes fuel p l = Returns (if ll_flags l AND ETCH_LINKED_LIST_DATA_FREE \<noteq> 0 then map snd xs else [],
      l\<lparr>ll_heap := Map.empty\<rparr>)"
  using assms
proof (induction xs arbitrary: p fuel l)
  case Nil
  then show ?case by (cases fuel) auto
next
  case (Cons x xs)
  obtain a e where x: "x = (a, e)" by (cases x)
  obtain n where n: "fuel = Suc n" using Cons.prems(4) by (cases fuel) auto
  obtain r where r: "p = Some a" "ll_heap l a = Some \<lparr>nd_data = e, nd_next = r\<rparr>" "seg (ll_heap l) r xs None"
    using Cons.prems(1) x by auto
  let ?l = "l\<lparr>ll_heap := (ll_heap l)(a := None)\<rparr>"
  have nin: "a \<notin> fst ` set xs" using Cons.prems(2) x by simp
  have "seg (ll_heap ?l) r xs None" using r(3) seg_upd [OF nin] by simp
  moreover have "dom (ll_heap ?l) = fst ` set xs" using Cons.prems(3) x nin by auto
  ultimately have "clear_nodes n r ?l = Returns (if ll_flags ?l AND ETCH_LINKED_LIST_DATA_FREE \<noteq> 0 then map snd xs else [],
      ?l\<lparr>ll_heap := Map.empty\<rparr>)"
    using Cons.IH [of ?l r n] Cons.prems(2,4) x n by (simp del: fun_upd_apply)
  then show ?case using r x n by (simp add: free_node_def)
qed

section \<open>The operations\<close>

lemma create_nodes: "nodes (etch_linked_list_create flags) []"
  by (simp add: nodes_def etch_linked_list_create_def)

lemma split_at: "k < length xs \<Longrightarrow> \<exists>a e. xs = take k xs @ (a, e) # drop (k + 1) xs"
  using id_take_nth_drop [of k xs] by (metis Suc_eq_plus1 surj_pair)

lemma add_nodes:
  assumes n: "nodes l xs" and room: "length xs + 1 < 4294967296"
  shows "\<exists>l'. etch_linked_list_add l (Some d) = Returns (ETCH_SUCCESS, l') \<and> nodes l' (xs @ [(ll_brk l, d)])
    \<and> ll_flags l' = ll_flags l"
proof (cases xs rule: rev_cases)
  case Nil
  then have "ll_heap l = Map.empty" "ll_head l = None" using n by (auto simp: nodes_def)
  then show ?thesis using Nil n
    by (auto simp: etch_linked_list_add_def new_node_def nodes_def)
next
  case (snoc us x)
  obtain a e where x: "x = (a, e)" by (cases x)
  note D = nodesD [OF n]
  have fresh: "ll_brk l \<notin> fst ` set us" "ll_brk l \<noteq> a" using D(7) snoc x by auto
  have a: "a \<notin> fst ` set us" using D(2) snoc x by auto
  obtain hd where hd: "ll_head l = Some hd" using D(4) snoc by (cases us) (auto simp: first_of_def)
  have tl: "ll_tail l = Some a" using n snoc x by (simp add: nodes_def)
  have seg: "seg (ll_heap l) (ll_head l) us (Some a)" "ll_heap l a = Some \<lparr>nd_data = e, nd_next = None\<rparr>"
    using D(1) snoc x by (auto simp: seg_append)
  let ?h = "(ll_heap l)(ll_brk l \<mapsto> \<lparr>nd_data = d, nd_next = None\<rparr>, a \<mapsto> \<lparr>nd_data = e, nd_next = Some (ll_brk l)\<rparr>)"
  let ?l = "l\<lparr>ll_heap := ?h, ll_brk := ll_brk l + 1, ll_tail := Some (ll_brk l), ll_count := ll_count l + 1\<rparr>"
  have run: "etch_linked_list_add l (Some d) = Returns (ETCH_SUCCESS, ?l)"
    using hd tl seg(2) fresh by (simp add: etch_linked_list_add_def new_node_def set_next_def)
  have "seg ?h (ll_head l) us (Some a)" using seg(1) seg_upd [OF a] seg_upd [OF fresh(1)] by simp
  then have "seg ?h (ll_head l) (xs @ [(ll_brk l, d)]) None" using snoc x fresh(2) by (auto simp: seg_append)
  moreover have "dom ?h = fst ` set (xs @ [(ll_brk l, d)])" using D(3) snoc x by auto
  moreover have "\<forall>b \<in> dom ?h. b < ll_brk l + 1" using seg(2) nodes_below [OF n] by auto
  moreover have "distinct (map fst (xs @ [(ll_brk l, d)]))" using D(2,7) by (auto simp: image_iff)
  ultimately have "nodes ?l (xs @ [(ll_brk l, d)])" using room D(5) by (simp add: nodes_def)
  then show ?thesis using run by auto
qed

lemma insert_nodes:
  assumes n: "nodes l xs" and room: "length xs + 1 < 2147483648" and k: "unat index < length xs" and fuel: "length xs < fuel"
  shows "\<exists>l'. etch_linked_list_insert fuel l index (Some d) = Returns (ETCH_SUCCESS, l') \<and> ll_flags l' = ll_flags l
    \<and> nodes l' (take (unat index) xs @ (ll_brk l, d) # drop (unat index) xs)"
proof -
  note D = nodesD [OF n]
  let ?n = "ll_brk l" and ?k = "unat index"
  let ?xs = "take ?k xs @ (?n, d) # drop ?k xs"
  have len: "length xs < 2147483648" using room by simp
  have chk: "\<not> (ll_count l \<le> index \<or> index <s 0)" using index_check [OF len, of index] k D(5) by simp
  have ne: "ll_head l \<noteq> None" using D(4) k by (cases xs) auto
  have fresh: "?n \<notin> fst ` set xs" by (rule D(7))
  let ?l1 = "l\<lparr>ll_heap := (ll_heap l)(?n \<mapsto> \<lparr>nd_data = d, nd_next = None\<rparr>), ll_brk := ?n + 1\<rparr>"
  have seg1: "seg (ll_heap ?l1) (ll_head l) xs None" using D(1) seg_upd [OF fresh] by simp
  obtain m where m: "fuel = ?k + Suc m" using fuel k by (metis add_Suc_right less_imp_Suc_add less_trans)
  have set: "set ?xs = insert (?n, d) (set xs)"
    by (metis Un_insert_right append_take_drop_id list.simps(15) set_append)
  have dist: "distinct (map fst ?xs)"
  proof -
    have "mset ?xs = add_mset (?n, d) (mset (take ?k xs @ drop ?k xs))" by (simp del: append_take_drop_id)
    then have "mset ?xs = mset (xs @ [(?n, d)])" by simp
    then have "mset (map fst ?xs) = mset (map fst (xs @ [(?n, d)]))" by (metis mset_map)
    moreover have "distinct (map fst (xs @ [(?n, d)]))" using D(2) fresh by (auto simp: image_iff)
    ultimately show ?thesis by (metis mset_eq_imp_distinct_iff)
  qed
  have len': "length ?xs = length xs + 1" using k by simp
  have last: "last ?xs = last xs" using k by simp
  show ?thesis
  proof (cases "index = 0")
    case True
    let ?h = "(ll_heap l)(?n \<mapsto> \<lparr>nd_data = d, nd_next = ll_head l\<rparr>)"
    let ?l = "l\<lparr>ll_heap := ?h, ll_brk := ?n + 1, ll_head := Some ?n, ll_count := ll_count l + 1\<rparr>"
    have run: "etch_linked_list_insert fuel l index (Some d) = Returns (ETCH_SUCCESS, ?l)"
      using chk ne True m by (auto simp: etch_linked_list_insert_def new_node_def set_next_def)
    have "seg ?h (Some ?n) ?xs None" using True D(1) seg_upd [OF fresh] by simp
    moreover have "dom ?h = fst ` set ?xs" using D(3) set by simp
    moreover have "\<forall>b \<in> dom ?h. b < ?n + 1" using nodes_below [OF n] by auto
    ultimately have "nodes ?l ?xs" using dist len' last n room k D(5) by (auto simp: nodes_def)
    then show ?thesis using run by auto
  next
    case False
    then have pos: "0 < ?k" by (simp add: unat_gt_0)
    let ?j = "?k - 1"
    have j: "?j < length xs" using k by simp
    obtain a e where ae: "xs = take ?j xs @ (a, e) # drop ?k xs" using split_at [OF j] pos by auto
    let ?us = "take ?j xs"
    have us: "length ?us = ?j" using j by simp
    have ix: "index - 1 = of_nat ?j" using pos by (simp add: of_nat_diff)
    obtain q where q: "seg (ll_heap ?l1) (ll_head l) ?us (Some a)" "ll_heap ?l1 a = Some \<lparr>nd_data = e, nd_next = q\<rparr>"
        "seg (ll_heap ?l1) q (drop ?k xs) None"
      using seg1 by (subst (asm) ae) (auto simp: seg_append)
    have an: "a \<noteq> ?n" using fresh by (subst (asm) ae) auto
    let ?h = "(ll_heap l)(?n \<mapsto> \<lparr>nd_data = d, nd_next = q\<rparr>, a \<mapsto> \<lparr>nd_data = e, nd_next = Some ?n\<rparr>)"
    let ?l = "l\<lparr>ll_heap := ?h, ll_brk := ?n + 1, ll_count := ll_count l + 1\<rparr>"
    have "fuel = length ?us + Suc (Suc m)" using m us pos by simp
    then have "insert_loop fuel index ?n 0 (ll_head l) ?l1 = insert_loop (Suc (Suc m)) index ?n (index - 1) (Some a) ?l1"
      using insert_loop_walk [OF q(1) False, of 0 "Suc (Suc m)" ?n] ix us len j by simp
    also have "\<dots> = Returns (ETCH_SUCCESS, ?l\<lparr>ll_count := ll_count l\<rparr>)"
      using False q(2) an by (simp add: set_next_def)
    finally have run: "etch_linked_list_insert fuel l index (Some d) = Returns (ETCH_SUCCESS, ?l)"
      using chk ne by (auto simp: etch_linked_list_insert_def new_node_def)
    have d: "distinct (map fst (?us @ (a, e) # drop ?k xs))" using D(2) ae by simp
    have fr: "?n \<notin> fst ` set (?us @ (a, e) # drop ?k xs)" using fresh ae by simp
    have out: "a \<notin> fst ` set ?us" "a \<notin> fst ` set (drop ?k xs)" "?n \<notin> fst ` set ?us" "?n \<notin> fst ` set (drop ?k xs)"
      using d fr by (simp_all add: image_Un)
    have "seg ?h (ll_head l) ?us (Some a)" "seg ?h q (drop ?k xs) None"
      using q(1,3) by (simp_all add: seg_upd [OF out(1)] seg_upd [OF out(2)] seg_upd [OF out(3)] seg_upd [OF out(4)] del: One_nat_def)
    moreover have "?xs = ?us @ (a, e) # (?n, d) # drop ?k xs" 
      using ae us pos by (metis (no_types, lifting) Suc_diff_1 append.assoc append_Cons append_Nil append_eq_conv_conj j length_append_singleton)
    ultimately have "seg ?h (ll_head l) ?xs None" using an by (auto simp: seg_append)
    moreover have "a \<in> fst ` set xs" by (subst ae) auto
    then have "dom ?h = fst ` set ?xs" using D(3) set by auto
    moreover have "\<forall>b \<in> dom ?h. b < ?n + 1" using nodes_below [OF n] \<open>a \<in> fst ` set xs\<close> D(3) by auto
    ultimately have "nodes ?l ?xs" using dist len' last n room k D(5) by (auto simp: nodes_def)
    then show ?thesis using run by auto
  qed
qed

definition freed_data :: "byte \<Rightarrow> 'd list \<Rightarrow> 'd list" where
  "freed_data flags ds = (if flags AND ETCH_LINKED_LIST_DATA_FREE \<noteq> 0 then ds else [])"

lemma remove_at_nodes:
  assumes n: "nodes l xs" and len: "length xs < 2147483648" and k: "unat index < length xs" and fuel: "length xs < fuel"
  shows "\<exists>l'. etch_linked_list_remove_at fuel l index
      = Returns (ETCH_SUCCESS, freed_data (ll_flags l) [snd (xs ! unat index)], l') \<and> ll_flags l' = ll_flags l
    \<and> nodes l' (take (unat index) xs @ drop (unat index + 1) xs)"
proof -
  note D = nodesD [OF n]
  let ?k = "unat index"
  let ?xs = "take ?k xs @ drop (?k + 1) xs"
  have chk: "\<not> (ll_count l \<le> index \<or> index <s 0)" using index_check [OF len, of index] k D(5) by simp
  obtain b f where bf: "xs = take ?k xs @ (b, f) # drop (?k + 1) xs" using split_at [OF k] by blast
  let ?vs = "drop (?k + 1) xs"
  have kth: "xs ! ?k = (b, f)" by (subst bf) (use k in \<open>simp add: nth_append\<close>)
  have d: "distinct (map fst (take ?k xs @ (b, f) # ?vs))" using D(2) bf by simp
  then have out: "b \<notin> fst ` set (take ?k xs)" "b \<notin> fst ` set ?vs" and dist: "distinct (map fst ?xs)" by auto
  have dom: "dom (ll_heap l) = insert b (fst ` set ?xs)" unfolding D(3) by (subst bf) auto
  have segs: "seg (ll_heap l) (ll_head l) (take ?k xs) (Some b)"
    "ll_heap l b = Some \<lparr>nd_data = f, nd_next = first_of ?vs\<rparr>" "seg (ll_heap l) (first_of ?vs) ?vs None"
  proof -
    have "seg (ll_heap l) (ll_head l) (take ?k xs @ (b, f) # ?vs) None" using D(1) bf by simp
    then obtain r where r: "seg (ll_heap l) (ll_head l) (take ?k xs) (Some b)"
      "ll_heap l b = Some \<lparr>nd_data = f, nd_next = r\<rparr>" "seg (ll_heap l) r ?vs None" by (auto simp: seg_append)
    then show "seg (ll_heap l) (ll_head l) (take ?k xs) (Some b)"
      "ll_heap l b = Some \<lparr>nd_data = f, nd_next = first_of ?vs\<rparr>" "seg (ll_heap l) (first_of ?vs) ?vs None"
      using seg_None [OF r(3)] by simp_all
  qed
  have len': "length ?xs = length xs - 1" using k by simp
  have cnt: "ll_count l - 1 = of_nat (length ?xs)" using D(5) k by (simp add: of_nat_diff)
  show ?thesis
  proof (cases "length xs = 1")
    case True
    then have z: "?k = 0" "index = 0" "?xs = []" using k by (simp_all add: unat_eq_zero)
    have one: "ll_count l = 1" "ll_head l = Some b" using D(5) True segs(1) z by simp_all
    let ?l = "l\<lparr>ll_heap := (ll_heap l)(b := None), ll_head := None, ll_tail := None, ll_count := 0\<rparr>"
    have "etch_linked_list_remove_at fuel l index = Returns (ETCH_SUCCESS, freed_data (ll_flags l) [f], ?l)"
      using chk one segs(2) by (simp add: etch_linked_list_remove_at_def free_node_def freed_data_def)
    moreover have "nodes ?l ?xs" using n dom z by (auto simp: nodes_def)
    ultimately show ?thesis using kth by auto
  next
    case False
    then have more: "ll_count l \<noteq> 1"
      using D(6) by (metis unat_1)
    obtain m where m: "fuel = ?k + Suc m" using fuel k by (metis add_Suc_right less_imp_Suc_add less_trans)
    have finish: "\<exists>l'. etch_linked_list_remove_at fuel l index = Returns (ETCH_SUCCESS, freed_data (ll_flags l) [f], l')
        \<and> ll_flags l' = ll_flags l \<and> nodes l' ?xs"
      if run: "remove_at_loop fuel index 0 (ll_head l) l = Returns (Some b, l1)"
        and l1: "ll_heap l1 b = ll_heap l b" "ll_flags l1 = ll_flags l" "ll_count l1 = ll_count l" "ll_brk l1 = ll_brk l"
          "dom (ll_heap l1) = dom (ll_heap l)" "seg (ll_heap l1) (ll_head l1) ?xs None" "ll_tail l1 = Some (fst (last ?xs))"
      for l1
    proof -
      let ?l = "l1\<lparr>ll_heap := (ll_heap l1)(b := None), ll_count := ll_count l1 - 1\<rparr>"
      have "etch_linked_list_remove_at fuel l index = Returns (ETCH_SUCCESS, freed_data (ll_flags l) [f], ?l)"
        using chk more run l1(1,2) segs(2) by (simp add: etch_linked_list_remove_at_def free_node_def freed_data_def)
      moreover have "seg (ll_heap ?l) (ll_head ?l) ?xs None"
        using l1(6) out by (simp add: seg_upd image_Un)
      moreover have "b \<notin> fst ` set ?xs" using out by (simp add: image_Un)
      then have "dom (ll_heap ?l) = fst ` set ?xs" using l1(5) dom by auto
      moreover have "?xs \<noteq> []" using len' False k by (metis One_nat_def diff_is_0_eq le_antisym length_0_conv less_eq_Suc_le not_less_zero linorder_not_less less_one)
      moreover have "\<forall>a \<in> dom (ll_heap l). a < ll_brk l" using n by (simp add: nodes_def)
      ultimately have "nodes ?l ?xs" using dist len' cnt l1 len by (auto simp: nodes_def)
      then show ?thesis using \<open>etch_linked_list_remove_at fuel l index = _\<close> l1(2) by auto
    qed
    have lastxs: "last ?xs = last xs" if "?vs \<noteq> []" using that by (subst (2) bf) simp
    have tl: "ll_tail l = Some (fst (last xs))" using n k by (auto simp: nodes_def)
    show ?thesis unfolding kth snd_conv
    proof (cases "index = 0")
      case True
      moreover have "1 < length xs" using False k by arith
      ultimately have vs: "?vs \<noteq> []" by simp
      let ?l = "l\<lparr>ll_head := first_of ?vs\<rparr>"
      have "remove_at_loop fuel index 0 (ll_head l) l = Returns (Some b, ?l)"
        using \<open>index = 0\<close> m segs by simp
      then show "\<exists>l'. etch_linked_list_remove_at fuel l index = Returns (ETCH_SUCCESS, freed_data (ll_flags l) [f], l')
        \<and> ll_flags l' = ll_flags l \<and> nodes l' ?xs"
        by (rule finish) (use \<open>index = 0\<close> segs tl lastxs [OF vs] in simp_all)
    next
      case nz: False
      then have pos: "0 < ?k" by (simp add: unat_gt_0)
      let ?j = "?k - 1" and ?us = "take (?k - 1) xs"
      have j: "?j < length xs" using k by simp
      obtain a e where ae: "take ?k xs = ?us @ [(a, e)]"
        using pos k by (metis Suc_diff_1 j surj_pair take_Suc_conv_app_nth)
      have us: "length ?us = ?j" using j by simp
      have ix: "index - 1 = of_nat ?j" using pos by (simp add: of_nat_diff)
      have seg1: "seg (ll_heap l) (ll_head l) ?us (Some a)" "ll_heap l a = Some \<lparr>nd_data = e, nd_next = Some b\<rparr>"
        using segs(1) unfolding ae by (auto simp: seg_append)
      have an: "a \<noteq> b" and anot: "a \<notin> fst ` set ?us" "a \<notin> fst ` set ?vs" using d unfolding ae by auto
      have "fuel = length ?us + Suc (Suc m)" using m us pos by simp
      then have walk: "remove_at_loop fuel index 0 (ll_head l) l = remove_at_loop (Suc (Suc m)) index (index - 1) (Some a) l"
        using remove_at_loop_walk [OF seg1(1) nz, of 0 "Suc (Suc m)"] ix us len j by simp
      have last: "index = ll_count l - 1 \<longleftrightarrow> ?vs = []"
      proof -
        have "ll_count l - 1 = of_nat (length xs - 1)" using cnt len' by (simp only:)
        then have "index = ll_count l - 1 \<longleftrightarrow> ?k = length xs - 1"
          using len by (simp only: word_unat_eq_iff unat32)
        then show ?thesis using k by auto
      qed
      let ?h = "(ll_heap l)(a \<mapsto> \<lparr>nd_data = e, nd_next = first_of ?vs\<rparr>)"
      let ?l = "l\<lparr>ll_heap := ?h, ll_tail := Some (fst (last ?xs))\<rparr>"
      have run: "remove_at_loop fuel index 0 (ll_head l) l = Returns (Some b, ?l)"
      proof (cases "?vs = []")
        case True
        then have "fst (last ?xs) = a" using ae by simp
        then show ?thesis unfolding walk using True last nz seg1(2) by (simp add: set_next_def)
      next
        case False
        then show ?thesis unfolding walk using last nz seg1(2) segs(2) an tl lastxs [OF False] by (simp add: set_next_def)
      qed
      have sg: "seg ?h (ll_head l) ?xs None"
        unfolding ae using seg1(1) segs(3) anot by (auto simp: seg_append seg_upd)
      show "\<exists>l'. etch_linked_list_remove_at fuel l index = Returns (ETCH_SUCCESS, freed_data (ll_flags l) [f], l')
        \<and> ll_flags l' = ll_flags l \<and> nodes l' ?xs"
        by (rule finish [OF run]) (use an seg1(2) sg in \<open>auto simp: insert_absorb\<close>)
    qed
  qed
qed

lemma get_nodes:
  assumes n: "nodes l xs" and len: "length xs < 2147483648" and fuel: "length xs < fuel"
  shows "etch_linked_list_get fuel l index x = Returns (if unat index < length xs then (ETCH_SUCCESS, Some (snd (xs ! unat index)))
    else (ETCH_EINVAL, x))"
proof (cases "unat index < length xs")
  case True
  note D = nodesD [OF n]
  let ?k = "unat index"
  obtain b f where bf: "xs = take ?k xs @ (b, f) # drop (?k + 1) xs" using split_at [OF True] by blast
  have kth: "xs ! ?k = (b, f)" by (subst bf) (use True in \<open>simp add: nth_append\<close>)
  have "seg (ll_heap l) (ll_head l) (take ?k xs @ (b, f) # drop (?k + 1) xs) None" using D(1) bf by simp
  then obtain r where r: "seg (ll_heap l) (ll_head l) (take ?k xs) (Some b)" "ll_heap l b = Some \<lparr>nd_data = f, nd_next = r\<rparr>"
    by (auto simp: seg_append)
  obtain m where m: "fuel = ?k + Suc m" using fuel True by (metis add_Suc_right less_imp_Suc_add less_trans)
  have "get_loop fuel index 0 (ll_head l) l x = Returns (Some f)"
    using get_loop_walk [OF r(1), of index 0 "Suc m" x] r(2) m True len by simp
  then show ?thesis using index_check [OF len, of index] True D(5) kth by (simp add: etch_linked_list_get_def)
qed (use index_check [OF len, of index] nodesD(5) [OF n] in \<open>simp add: etch_linked_list_get_def\<close>)

lemma clear_list_nodes:
  assumes n: "nodes l xs" and fuel: "length xs < fuel"
  shows "\<exists>l'. etch_linked_list_clear fuel l = Returns (ETCH_SUCCESS, freed_data (ll_flags l) (map snd xs), l')
    \<and> ll_flags l' = ll_flags l \<and> nodes l' []"
  using clear_nodes_seg [OF nodesD(1-3) [OF n] fuel]
  by (simp add: etch_linked_list_clear_def freed_data_def nodes_def)

section \<open>Calls\<close>

datatype 'd ll_op =
    Ll_add "'d option"
  | Ll_insert int32 "'d option"
  | Ll_get int32 "'d option"
  | Ll_index_of "'d option"
  | Ll_contains "'d option"
  | Ll_remove_at int32
  | Ll_remove "'d option"
  | Ll_clear
  | Ll_count

datatype 'd ll_result = Ll_status int | Ll_freed int "'d list" | Ll_data int "'d option" | Ll_word int32 | Ll_bool bool

definition map_outcome :: "('b \<Rightarrow> 'c) \<Rightarrow> 'b outcome \<Rightarrow> 'c outcome" where
  "map_outcome f r = (case r of Returns x \<Rightarrow> Returns (f x) | Fault \<Rightarrow> Fault | Diverges \<Rightarrow> Diverges)"

lemma map_outcome_Returns [simp]: "map_outcome f (Returns x) = Returns (f x)"
  by (simp add: map_outcome_def)

fun ll_exec :: "nat \<Rightarrow> 'd ll_op \<Rightarrow> 'd etch_linked_list_t \<Rightarrow> ('d ll_result \<times> 'd etch_linked_list_t) outcome" where
  "ll_exec n (Ll_add x) l = map_outcome (\<lambda>(r, l). (Ll_status r, l)) (etch_linked_list_add l x)"
| "ll_exec n (Ll_insert i x) l = map_outcome (\<lambda>(r, l). (Ll_status r, l)) (etch_linked_list_insert n l i x)"
| "ll_exec n (Ll_get i x) l = map_outcome (\<lambda>(r, x). (Ll_data r x, l)) (etch_linked_list_get n l i x)"
| "ll_exec n (Ll_index_of x) l = map_outcome (\<lambda>i. (Ll_word i, l)) (etch_linked_list_index_of n l x)"
| "ll_exec n (Ll_contains x) l = map_outcome (\<lambda>b. (Ll_bool b, l)) (etch_linked_list_contains n l x)"
| "ll_exec n (Ll_remove_at i) l = map_outcome (\<lambda>(r, fr, l). (Ll_freed r fr, l)) (etch_linked_list_remove_at n l i)"
| "ll_exec n (Ll_remove x) l = map_outcome (\<lambda>(r, fr, l). (Ll_freed r fr, l)) (etch_linked_list_remove n l x)"
| "ll_exec n Ll_clear l = map_outcome (\<lambda>(r, fr, l). (Ll_freed r fr, l)) (etch_linked_list_clear n l)"
| "ll_exec n Ll_count l = Returns (Ll_word (etch_linked_list_count l), l)"

text \<open>The specification, on the list of the data; \<open>flags\<close> says whether data is freed.\<close>

definition spec_index :: "'d \<Rightarrow> 'd list \<Rightarrow> nat option" where
  "spec_index d ds = find (\<lambda>k. ds ! k = d) [0..<length ds]"

definition spec_remove_at :: "byte \<Rightarrow> nat \<Rightarrow> 'd list \<Rightarrow> ('d ll_result \<times> 'd list) outcome" where
  "spec_remove_at flags k ds =
     Returns (if k < length ds then (Ll_freed ETCH_SUCCESS (freed_data flags [ds ! k]), take k ds @ drop (k + 1) ds)
              else (Ll_freed ETCH_EOUTOFBOUNDS [], ds))"

fun ll_spec :: "byte \<Rightarrow> 'd ll_op \<Rightarrow> 'd list \<Rightarrow> ('d ll_result \<times> 'd list) outcome" where
  "ll_spec flags (Ll_add None) ds = Returns (Ll_status ETCH_EINVAL, ds)"
| "ll_spec flags (Ll_add (Some d)) ds = Returns (Ll_status ETCH_SUCCESS, ds @ [d])"
| "ll_spec flags (Ll_insert i None) ds = Returns (Ll_status ETCH_EINVAL, ds)"
| "ll_spec flags (Ll_insert i (Some d)) ds =
     Returns (if unat i < length ds then (Ll_status ETCH_SUCCESS, take (unat i) ds @ d # drop (unat i) ds)
              else (Ll_status ETCH_EOUTOFBOUNDS, ds))"
| "ll_spec flags (Ll_get i x) ds =
     Returns (if unat i < length ds then Ll_data ETCH_SUCCESS (Some (ds ! unat i)) else Ll_data ETCH_EINVAL x, ds)"
| "ll_spec flags (Ll_index_of None) ds = Returns (Ll_word 2, ds)"
| "ll_spec flags (Ll_index_of (Some d)) ds =
     Returns (Ll_word (case spec_index d ds of None \<Rightarrow> - 1 | Some k \<Rightarrow> of_nat k), ds)"
| "ll_spec flags (Ll_contains x) ds = Returns (Ll_bool (x \<in> Some ` set ds), ds)"
| "ll_spec flags (Ll_remove_at i) ds = spec_remove_at flags (unat i) ds"
| "ll_spec flags (Ll_remove None) ds = Returns (Ll_freed ETCH_EINVAL [], ds)"
| "ll_spec flags (Ll_remove (Some d)) ds =
     (case spec_index d ds of
        None \<Rightarrow> Returns (Ll_freed ETCH_EOUTOFBOUNDS [], ds)
      | Some k \<Rightarrow> spec_remove_at flags k ds)"
| "ll_spec flags Ll_clear ds = Returns (Ll_freed ETCH_SUCCESS (freed_data flags ds), [])"
| "ll_spec flags Ll_count ds = Returns (Ll_word (of_nat (length ds)), ds)"

lemma spec_index_Some: "spec_index d ds = Some k \<Longrightarrow> k < length ds \<and> ds ! k = d"
  by (auto simp: spec_index_def find_Some_iff)

lemma index_of_nodes:
  assumes "nodes l xs" and "length xs < fuel"
  shows "etch_linked_list_index_of fuel l (Some d)
    = Returns (case spec_index d (map snd xs) of None \<Rightarrow> - 1 | Some k \<Rightarrow> of_nat k)"
proof -
  have "find (\<lambda>k. map snd xs ! k = d) [0..<length xs] = find (\<lambda>k. snd (xs ! k) = d) [0..<length xs]"
    by (rule find_cong) simp_all
  then show ?thesis using index_of_loop_seg [OF nodesD(1) [OF assms(1)] assms(2), of d 0]
    by (simp add: etch_linked_list_index_of_def spec_index_def split: option.split)
qed

lemma remove_at_outside:
  assumes "nodes l xs" and "length xs < 2147483648" and "\<not> unat index < length xs"
  shows "etch_linked_list_remove_at fuel l index = Returns (ETCH_EOUTOFBOUNDS, [], l)"
  using index_check [OF assms(2), of index] assms(3) nodesD(5) [OF assms(1)]
  by (simp add: etch_linked_list_remove_at_def)

lemma remove_at_refines:
  assumes n: "nodes l xs" and len: "length xs < 2147483648" and fuel: "length xs < fuel"
  shows "\<exists>rv fr l' xs'. spec_remove_at (ll_flags l) (unat index) (map snd xs) = Returns (Ll_freed rv fr, map snd xs')
    \<and> etch_linked_list_remove_at fuel l index = Returns (rv, fr, l') \<and> ll_flags l' = ll_flags l \<and> nodes l' xs'"
proof (cases "unat index < length xs")
  case True
  from remove_at_nodes [OF n len True fuel] obtain l' where
    "etch_linked_list_remove_at fuel l index = Returns (ETCH_SUCCESS, freed_data (ll_flags l) [snd (xs ! unat index)], l')"
    "ll_flags l' = ll_flags l" "nodes l' (take (unat index) xs @ drop (unat index + 1) xs)" by blast
  then show ?thesis using True by (auto simp: spec_remove_at_def take_map drop_map intro!: exI)
next
  case False
  then show ?thesis using remove_at_outside [OF n len False] n by (auto simp: spec_remove_at_def)
qed

lemma ll_op_refines:
  assumes inv: "ll_inv flags l" and room: "length (ll_list l) < min n 2147483647"
  shows "case ll_spec flags op (ll_list l) of
      Returns (r, ds) \<Rightarrow> \<exists>l'. ll_exec n op l = Returns (r, l') \<and> ll_inv flags l' \<and> ll_list l' = ds
    | Fault \<Rightarrow> ll_exec n op l = Fault
    | Diverges \<Rightarrow> ll_exec n op l = Diverges"
proof -
  obtain xs where n: "nodes l xs" and fl: "ll_flags l = flags" using inv by (auto simp: ll_inv_def)
  have ls: "ll_list l = map snd xs" by (rule ll_list_nodes [OF n])
  then have len: "length xs < n" "length xs + 1 < 2147483648" "length xs < 2147483648" "length xs + 1 < 4294967296"
    using room by simp_all
  have I: "ll_inv flags l' \<and> ll_list l' = map snd ys" if "nodes l' ys" "ll_flags l' = ll_flags l" for l' ys
    using that fl ll_list_nodes by (auto simp: ll_inv_def)
  have remove: "\<exists>rv fr l' ds. spec_remove_at flags (unat index) (map snd xs) = Returns (Ll_freed rv fr, ds)
      \<and> etch_linked_list_remove_at n l index = Returns (rv, fr, l') \<and> ll_inv flags l' \<and> ll_list l' = ds" for index
    using remove_at_refines [OF n len(3,1), of index] I unfolding fl by blast
  show ?thesis
  proof (cases op)
    case (Ll_add x)
    show ?thesis
    proof (cases x)
      case None
      then show ?thesis using Ll_add inv ls by (simp add: etch_linked_list_add_def)
    next
      case (Some d)
      obtain l' where l': "etch_linked_list_add l (Some d) = Returns (ETCH_SUCCESS, l')" "nodes l' (xs @ [(ll_brk l, d)])"
        "ll_flags l' = ll_flags l" using add_nodes [OF n len(4), of d] by blast
      show ?thesis using Ll_add Some l'(1) I [OF l'(2,3)] by (simp add: ls)
    qed
  next
    case (Ll_insert i x)
    show ?thesis
    proof (cases "x = None \<or> \<not> unat i < length xs")
      case True
      then show ?thesis using Ll_insert inv ls index_check [OF len(3), of i] nodesD(5) [OF n]
        by (cases x) (auto simp: etch_linked_list_insert_def)
    next
      case False
      then obtain d where d: "x = Some d" "unat i < length xs" by auto
      obtain l' where l': "etch_linked_list_insert n l i (Some d) = Returns (ETCH_SUCCESS, l')" "ll_flags l' = ll_flags l"
        "nodes l' (take (unat i) xs @ (ll_brk l, d) # drop (unat i) xs)" using insert_nodes [OF n len(2) d(2) len(1), of d] by blast
      show ?thesis using Ll_insert d l'(1) I [OF l'(3,2)] by (simp add: ls take_map drop_map)
    qed
  next
    case (Ll_get i x)
    then show ?thesis using get_nodes [OF n len(3,1), of i x] inv ls by simp
  next
    case (Ll_index_of x)
    then show ?thesis using index_of_nodes [OF n len(1)] inv ls
      by (cases x) (simp_all add: etch_linked_list_index_of_def ETCH_EINVAL_def)
  next
    case (Ll_contains x)
    then show ?thesis using contains_loop_seg [OF nodesD(1) [OF n] len(1)] inv ls
      by (cases x) (auto simp: etch_linked_list_contains_def)
  next
    case (Ll_remove_at i)
    then show ?thesis using remove [of i] by (auto simp: ls)
  next
    case (Ll_remove x)
    show ?thesis
    proof (cases x)
      case None
      then show ?thesis using Ll_remove inv ls by (simp add: etch_linked_list_remove_def)
    next
      case (Some d)
      note ix = index_of_nodes [OF n len(1), of d]
      show ?thesis
      proof (cases "spec_index d (map snd xs)")
        case None
        have "unat (- 1 :: int32) = 4294967295" by (simp add: unsigned_minus_1_eq_mask mask_eq_exp_minus_1)
        then have "\<not> unat (- 1 :: int32) < length xs" using len(3) by simp
        then show ?thesis using Ll_remove Some None ix remove_at_outside [OF n len(3)] inv ls
          by (simp add: etch_linked_list_remove_def)
      next
        case k: (Some k)
        then have "k < length xs" using spec_index_Some by fastforce
        then have "unat (of_nat k :: int32) = k" using len(3) by (simp add: unat32)
        then show ?thesis using Ll_remove \<open>x = Some d\<close> k ix remove [of "of_nat k"]
          by (auto simp: etch_linked_list_remove_def ls)
      qed
    qed
  next
    case Ll_clear
    obtain l' where l': "etch_linked_list_clear n l = Returns (ETCH_SUCCESS, freed_data flags (map snd xs), l')"
      "ll_flags l' = ll_flags l" "nodes l' []" using clear_list_nodes [OF n len(1)] by (auto simp: fl)
    show ?thesis using Ll_clear l'(1) I [OF l'(3,2)] by (simp add: ls)
  next
    case Ll_count
    then show ?thesis using inv ls nodesD(5) [OF n] by (simp add: etch_linked_list_count_def)
  qed
qed

lemma ll_spec_returns: "\<exists>r ds'. ll_spec flags op ds = Returns (r, ds') \<and> length ds' \<le> length ds + 1"
  by (cases "(flags, op, ds)" rule: ll_spec.cases) (auto simp: spec_remove_at_def split: option.split)

interpretation ll: list_object "ll_inv flags" ll_list "ll_exec n" "ll_spec flags" "min n 2147483647"
proof unfold_locales
  fix l :: "'d etch_linked_list_t" and op
  assume "ll_inv flags l" "length (ll_list l) < min n 2147483647"
  then show "case ll_spec flags op (ll_list l) of
      Returns (r, ds) \<Rightarrow> \<exists>l'. ll_exec n op l = Returns (r, l') \<and> ll_inv flags l' \<and> ll_list l' = ds
    | Fault \<Rightarrow> ll_exec n op l = Fault
    | Diverges \<Rightarrow> ll_exec n op l = Diverges"
    by (rule ll_op_refines)
next
  fix op ds r ds'
  assume "ll_spec flags op ds = Returns (r, ds')"
  then show "length ds' \<le> length ds + 1" using ll_spec_returns [of flags op ds] by auto
qed

lemma run_spec_returns:
  "\<exists>rs ds'. run_calls (ll_spec flags) ops ds = Returns (rs, ds') \<and> length ds' \<le> length ds + length ops"
proof (induction ops arbitrary: ds)
  case (Cons op ops)
  from ll_spec_returns [of flags op ds] obtain r d where "ll_spec flags op ds = Returns (r, d)" "length d \<le> length ds + 1"
    by blast
  then show ?case using Cons.IH [of d] by auto
qed simp

text \<open>
  C26. Every sequence of calls on a new linked list returns what the same calls return on a list, and
  leaves the list with exactly one node in memory for each of its entries: nothing is leaked, nothing
  is freed twice, no freed node is read.  Destroying it then frees every node, and the data when the
  list owns it.
\<close>

theorem linked_list_is_a_list:
  assumes "length ops < fuel" and "fuel \<le> 2147483647"
  shows "\<exists>rs ds l. run_calls (ll_spec flags) ops [] = Returns (rs, ds)
    \<and> run_calls (ll_exec fuel) ops (etch_linked_list_create flags) = Returns (rs, l)
    \<and> ll_list l = ds \<and> card (dom (ll_heap l)) = length ds
    \<and> etch_linked_list_destroy fuel l = Returns (ETCH_SUCCESS, freed_data flags ds, Map.empty)"
proof -
  let ?c = "etch_linked_list_create flags :: 'a etch_linked_list_t"
  have c: "ll_inv flags ?c" "ll_list ?c = []"
    using create_nodes [of flags] ll_list_nodes [OF create_nodes [of flags]]
    by (auto simp: ll_inv_def) (simp add: etch_linked_list_create_def)
  obtain rs ds where spec: "run_calls (ll_spec flags) ops [] = Returns (rs, ds)" "length ds \<le> length ops"
    using run_spec_returns [of flags ops "[]"] by auto
  obtain l where l: "run_calls (ll_exec fuel) ops ?c = Returns (rs, l)" "ll_inv flags l" "ll_list l = ds"
    using ll.run_refines [of flags ?c ops fuel] c spec assms by auto
  obtain xs where n: "nodes l xs" and fl: "ll_flags l = flags" using l(2) by (auto simp: ll_inv_def)
  have ds: "ds = map snd xs" using ll_list_nodes [OF n] l(3) by simp
  then have "length xs < fuel" using spec(2) assms(1) by simp
  from clear_nodes_seg [OF nodesD(1-3) [OF n] this]
  have "etch_linked_list_destroy fuel l = Returns (ETCH_SUCCESS, freed_data flags ds, Map.empty)"
    using fl ds by (simp add: etch_linked_list_destroy_def etch_linked_list_clear_def freed_data_def)
  moreover have "card (dom (ll_heap l)) = length ds"
    using distinct_card [OF nodesD(2) [OF n]] nodesD(3) [OF n] ds by simp
  ultimately show ?thesis using spec(1) l(1,3) by blast
qed

lemma linked_list_is_a_list_witness:
  "\<exists>l. run_calls (ll_exec 9) [Ll_add (Some (5 :: nat)), Ll_insert 0 (Some 6), Ll_insert 2 (Some 7), Ll_index_of None, Ll_remove (Some 5)]
      (etch_linked_list_create 2)
    = Returns ([Ll_status ETCH_SUCCESS, Ll_status ETCH_SUCCESS, Ll_status ETCH_EOUTOFBOUNDS, Ll_word 2, Ll_freed ETCH_SUCCESS [5]], l)
    \<and> ll_list l = [6] \<and> card (dom (ll_heap l)) = 1"
  using linked_list_is_a_list [of "[Ll_add (Some (5 :: nat)), Ll_insert 0 (Some 6), Ll_insert 2 (Some 7), Ll_index_of None,
      Ll_remove (Some 5)]" 9 2]
  by (auto simp: spec_index_def spec_remove_at_def freed_data_def ETCH_LINKED_LIST_DATA_FREE_def)

end
