(* ===== verification/StringMap.thy ===== *)
theory StringMap
  imports HashTable Names
begin

text \<open>
  Hash tables whose keys are byte strings: \<open>hfind\<close> and \<open>hadd\<close> of \<open>src/extern/jenkhash/jenkhtab.c\<close>, their
  interface in \<open>src/main/common/etch_hash.c\<close>, and the maps with string and number keys of
  \<open>src/main/common/etch_map.c\<close>.

  \<^item> A key is the list of its bytes, without a final zero.  Keys are compared, not only their hashes.
  \<^item> The type \<open>ub4\<close> of a hash has \<open>ub4_bits\<close> bits, 64 or 32; the hash of an \<open>etch_hashitem\<close> has 32.
  \<^item> A value of an \<open>etch_map\<close> is a pointer, \<open>None\<close> the null pointer.
\<close>

section \<open>The table\<close>

definition string_hash :: "nat \<Rightarrow> byte list \<Rightarrow> nat" where
  "string_hash ub4_bits key =
     (if ub4_bits = 64 then unat (lookup key 0 :: int64) else unat (lookup key 0 :: int32))"

definition same_string :: "byte list \<Rightarrow> nat \<Rightarrow> (byte list, 'v) hitem \<Rightarrow> bool" where
  "same_string key x h \<longleftrightarrow> x = hi_hval h \<and> length key = hi_keyl h \<and> key = take (length key) (hi_key h)"

definition hfind :: "nat \<Rightarrow> (byte list, 'v) htab \<Rightarrow> byte list \<Rightarrow> bool \<times> (byte list, 'v) htab" where
  "hfind ub4_bits t key =
     (let x = string_hash ub4_bits key; y = hbucket t x
      in case chain_index (same_string key x) (ht_table t ! y) of
           None \<Rightarrow> (False, t)
         | Some j \<Rightarrow> (True, t\<lparr>ht_apos := y, ht_ipos := Some j\<rparr>))"

definition hadd :: "nat \<Rightarrow> (byte list, 'v) htab \<Rightarrow> byte list \<Rightarrow> 'v \<Rightarrow> bool \<times> (byte list, 'v) htab" where
  "hadd ub4_bits t key stuff =
     (let x = string_hash ub4_bits key; y = hbucket t x
      in case chain_index (same_string key x) (ht_table t ! y) of
           Some j \<Rightarrow> (False, t\<lparr>ht_apos := y, ht_ipos := Some j\<rparr>)
         | None \<Rightarrow>
             let t = t\<lparr>ht_count := ht_count t + 1\<rparr>;
                 t = (if ht_count t > 2 ^ ht_logsize t then hgrow t else t);
                 y = hbucket t x;
                 h = \<lparr>hi_key = key, hi_keyl = length key, hi_stuff = stuff, hi_hval = x\<rparr>
             in (True, t\<lparr>ht_table := (ht_table t)[y := h # ht_table t ! y], ht_ipos := Some 0, ht_apos := y\<rparr>))"

section \<open>The interface etch_hashtable\<close>

record 'v etch_hashitem =
  hx_key :: "byte list"
  hx_value :: 'v
  hx_hash :: int32

definition current_item :: "(byte list, 'v) htab \<Rightarrow> 'v etch_hashitem option" where
  "current_item t =
     map_option (\<lambda>h. \<lparr>hx_key = hi_key h, hx_value = hi_stuff h, hx_hash = of_nat (hi_hval h)\<rparr>) (hitem_at t)"

definition jenkins_insert ::
  "nat \<Rightarrow> (byte list, 'v) htab \<Rightarrow> byte list \<Rightarrow> 'v \<Rightarrow> int \<times> 'v etch_hashitem option \<times> (byte list, 'v) htab" where
  "jenkins_insert ub4_bits realtable key data =
     (if key = [] then (- 1, None, realtable)
      else let (added, realtable) = hadd ub4_bits realtable key data
           in if added then (0, current_item realtable, realtable) else (- 1, None, realtable))"

definition jenkins_find ::
  "nat \<Rightarrow> (byte list, 'v) htab \<Rightarrow> byte list \<Rightarrow> int \<times> 'v etch_hashitem option \<times> (byte list, 'v) htab" where
  "jenkins_find ub4_bits realtable key =
     (if key = [] then (- 1, None, realtable)
      else let (found, realtable) = hfind ub4_bits realtable key
           in if found then (0, current_item realtable, realtable) else (- 1, None, realtable))"

definition jenkins_remove ::
  "nat \<Rightarrow> (byte list, 'v) htab \<Rightarrow> byte list \<Rightarrow> int \<times> 'v etch_hashitem option \<times> (byte list, 'v) htab" where
  "jenkins_remove ub4_bits realtable key =
     (if key = [] then (- 1, None, realtable)
      else let (found, realtable) = hfind ub4_bits realtable key
           in if found then (0, current_item realtable, snd (hdel realtable)) else (- 1, None, realtable))"

section \<open>Maps with string keys\<close>

type_synonym 'v string_map = "(byte list, 'v option) htab"

definition etchmap_findxl ::
  "nat \<Rightarrow> 'v string_map \<Rightarrow> byte list \<Rightarrow> 'v option \<times> 'v option etch_hashitem option \<times> 'v string_map" where
  "etchmap_findxl ub4_bits m key =
     (case jenkins_find ub4_bits m key of (result, founditem, m) \<Rightarrow>
        if result = - 1 then (None, None, m)
        else (Option.bind founditem hx_value, founditem, m))"

definition etchmap_delxl :: "nat \<Rightarrow> 'v string_map \<Rightarrow> byte list \<Rightarrow> 'v option \<times> 'v string_map" where
  "etchmap_delxl ub4_bits m key =
     (case jenkins_remove ub4_bits m key of (result, founditem, m) \<Rightarrow>
        if result = - 1 then (None, m) else (Option.bind founditem hx_value, m))"

text \<open>
  The hash of the new entry, or of the one that is there, or 0.  \<open>inserteditem\<close> is zero before the test.
  \<open>etchmap_insertxlw\<close> is the same code for wide characters.
\<close>

definition etchmap_insertxl ::
  "nat \<Rightarrow> 'v string_map \<Rightarrow> byte list \<Rightarrow> 'v option \<Rightarrow> bool \<Rightarrow> int32 \<times> 'v string_map" where
  "etchmap_insertxl ub4_bits m key data is_check =
     (case (if is_check then etchmap_findxl ub4_bits m key else (None, None, m)) of (pval, found, m) \<Rightarrow>
        let inserteditem_hash = (case found of None \<Rightarrow> 0 | Some e \<Rightarrow> hx_hash e)
        in if pval \<noteq> None then (inserteditem_hash, m)
           else case jenkins_insert ub4_bits m key data of (_, inserted, m) \<Rightarrow>
                  ((case inserted of None \<Rightarrow> inserteditem_hash | Some e \<Rightarrow> hx_hash e), m))"

definition etchmap_findxw ::
  "nat \<Rightarrow> 'v string_map \<Rightarrow> wchar list \<Rightarrow> 'v option \<times> 'v string_map" where
  "etchmap_findxw ub4_bits m key = (case etchmap_findxl ub4_bits m (wchar_bytes key) of (v, _, m) \<Rightarrow> (v, m))"

definition etchmap_delxw :: "nat \<Rightarrow> 'v string_map \<Rightarrow> wchar list \<Rightarrow> 'v option \<times> 'v string_map" where
  "etchmap_delxw ub4_bits m key = etchmap_delxl ub4_bits m (wchar_bytes key)"

definition etchmap_insertxw ::
  "nat \<Rightarrow> 'v string_map \<Rightarrow> wchar list \<Rightarrow> 'v option \<Rightarrow> bool \<Rightarrow> int32 \<times> 'v string_map" where
  "etchmap_insertxw ub4_bits m key data is_check = etchmap_insertxl ub4_bits m (wchar_bytes key) data is_check"

definition etchmap_addxw :: "nat \<Rightarrow> 'v string_map \<Rightarrow> wchar list \<Rightarrow> 'v option \<Rightarrow> int \<times> 'v string_map" where
  "etchmap_addxw ub4_bits m key data =
     (case etchmap_insertxw ub4_bits m key data True of (hash, m) \<Rightarrow> (if hash \<noteq> 0 then 0 else - 1, m))"

definition etchmap_findx :: "nat \<Rightarrow> 'v string_map \<Rightarrow> byte list \<Rightarrow> 'v option \<times> 'v string_map" where
  "etchmap_findx ub4_bits m key = (case etchmap_findxl ub4_bits m key of (v, _, m) \<Rightarrow> (v, m))"

definition etchmap_delx :: "nat \<Rightarrow> 'v string_map \<Rightarrow> byte list \<Rightarrow> 'v option \<times> 'v string_map" where
  "etchmap_delx ub4_bits m key = etchmap_delxl ub4_bits m key"

definition etchmap_insertx ::
  "nat \<Rightarrow> 'v string_map \<Rightarrow> byte list \<Rightarrow> 'v option \<Rightarrow> bool \<Rightarrow> int32 \<times> 'v string_map" where
  "etchmap_insertx ub4_bits m key data is_check = etchmap_insertxl ub4_bits m key data is_check"

definition etchmap_addx :: "nat \<Rightarrow> 'v string_map \<Rightarrow> byte list \<Rightarrow> 'v option \<Rightarrow> int \<times> 'v string_map" where
  "etchmap_addx ub4_bits m key data =
     (case etchmap_insertx ub4_bits m key data True of (hash, m) \<Rightarrow> (if hash \<noteq> 0 then 0 else - 1, m))"

definition etchmap_count :: "(byte list, 'v) htab option \<Rightarrow> nat" where
  "etchmap_count m = (case m of None \<Rightarrow> 0 | Some m \<Rightarrow> jenkins_count m)"

section \<open>Maps with number keys\<close>

text \<open>The characters that \<open>printf\<close> writes for \<open>%d\<close>.\<close>

fun digits :: "nat \<Rightarrow> byte list" where
  "digits n = (if n < 10 then [of_nat (48 + n)] else digits (n div 10) @ [of_nat (48 + n mod 10)])"

declare digits.simps [simp del]

definition decimal :: "int \<Rightarrow> byte list" where
  "decimal i = (if i < 0 then 45 # digits (nat (- i)) else digits (nat i))"

definition ETCHMAP_MAX_IKEYSIZE :: nat where "ETCHMAP_MAX_IKEYSIZE = 31"

definition make_etchmap_key :: "int32 \<Rightarrow> byte list" where
  "make_etchmap_key key = decimal (sint key)"

definition etchmap_find :: "nat \<Rightarrow> 'v string_map \<Rightarrow> int32 \<Rightarrow> 'v option \<times> 'v string_map" where
  "etchmap_find ub4_bits m objkey =
     (case etchmap_findxl ub4_bits m (make_etchmap_key objkey) of (v, _, m) \<Rightarrow> (v, m))"

definition etchmap_del :: "nat \<Rightarrow> 'v string_map \<Rightarrow> int32 \<Rightarrow> 'v option \<times> 'v string_map" where
  "etchmap_del ub4_bits m objkey = etchmap_delxl ub4_bits m (make_etchmap_key objkey)"

definition etchmap_insert ::
  "nat \<Rightarrow> 'v string_map \<Rightarrow> int32 \<Rightarrow> 'v option \<Rightarrow> bool \<Rightarrow> int32 \<times> 'v string_map" where
  "etchmap_insert ub4_bits m key data is_check = etchmap_insertxl ub4_bits m (make_etchmap_key key) data is_check"

definition etchmap_add :: "nat \<Rightarrow> 'v string_map \<Rightarrow> int32 \<Rightarrow> 'v option \<Rightarrow> int \<times> 'v string_map" where
  "etchmap_add ub4_bits m objkey data =
     (case etchmap_insert ub4_bits m objkey data True of (hash, m) \<Rightarrow> (if hash \<noteq> 0 then 0 else - 1, m))"

end
