(* ===== verification/Url.thy ===== *)
theory Url
  imports StringMap ArrayList
begin

text \<open>
  The URLs of connections: \<open>src/main/transport/etch_url.c\<close>.

  \<^item> A wide string in memory is a block of characters and an index into it; the string ends before the first
    zero at or after the index.  Reading or writing outside of the block is \<open>None\<close>, undefined behaviour.
  \<^item> The parser works on one copy of the URL, which it cuts by writing zeros over the delimiters.
  \<^item> The components of an \<open>etch_url\<close> are blocks too, \<open>None\<close> the null pointer.
  \<^item> \<open>long\<close> has 64 bits.  Memory is never exhausted.
\<close>

section \<open>Wide strings\<close>

definition wch :: "char \<Rightarrow> wchar" where "wch c = of_nat (of_char c)"

definition wstr :: "string \<Rightarrow> wchar list" where "wstr s = map wch s"

definition str_at :: "wchar list \<Rightarrow> nat \<Rightarrow> wchar list option" where
  "str_at buf p =
     (let s = takeWhile (\<lambda>c. c \<noteq> 0) (drop p buf) in if p + length s < length buf then Some s else None)"

definition peek :: "wchar list \<Rightarrow> nat \<Rightarrow> wchar option" where
  "peek buf p = (if p < length buf then Some (buf ! p) else None)"

definition poke :: "wchar list \<Rightarrow> nat \<Rightarrow> wchar \<Rightarrow> wchar list option" where
  "poke buf p c = (if p < length buf then Some (buf[p := c]) else None)"

definition wcslen :: "wchar list \<Rightarrow> nat \<Rightarrow> nat option" where
  "wcslen buf p = map_option length (str_at buf p)"

text \<open>The index of the character, \<open>Some None\<close> when it does not occur.\<close>

definition wcschr :: "wchar list \<Rightarrow> nat \<Rightarrow> wchar \<Rightarrow> nat option option" where
  "wcschr buf p c =
     do { s \<leftarrow> str_at buf p;
          Some (if c \<in> set s then Some (p + length (takeWhile (\<lambda>x. x \<noteq> c) s)) else None) }"

fun slashes :: "wchar list \<Rightarrow> nat option" where
  "slashes (a # b # s) =
     (if a = wch (CHR ''/'') \<and> b = wch (CHR ''/'') then Some 0 else map_option Suc (slashes (b # s)))"
| "slashes _ = None"

definition wcsstr_slashes :: "wchar list \<Rightarrow> nat \<Rightarrow> nat option option" where
  "wcsstr_slashes buf p = do { s \<leftarrow> str_at buf p; Some (map_option (\<lambda>i. p + i) (slashes s)) }"

definition new_wchar :: "wchar list \<Rightarrow> nat \<Rightarrow> wchar list option" where
  "new_wchar buf p = do { s \<leftarrow> str_at buf p; Some (s @ [0]) }"

definition iswspace :: "wchar \<Rightarrow> bool" where
  "iswspace c \<longleftrightarrow> c = 32 \<or> 9 \<le> c \<and> c \<le> 13"

definition iswdigit :: "wchar \<Rightarrow> bool" where
  "iswdigit c \<longleftrightarrow> 48 \<le> c \<and> c \<le> 57"

definition digits_value :: "wchar list \<Rightarrow> int" where
  "digits_value s = fold (\<lambda>c a. 10 * a + (uint c - 48)) (takeWhile iswdigit s) 0"

definition wcstol :: "wchar list \<Rightarrow> int" where
  "wcstol s =
     (let s = dropWhile iswspace s;
          v = (case s of [] \<Rightarrow> 0
               | c # cs \<Rightarrow> if c = wch (CHR ''-'') then - digits_value cs
                           else if c = wch (CHR ''+'') then digits_value cs else digits_value s)
      in max (- 9223372036854775808) (min 9223372036854775807 v))"

definition hexwchar_to_int :: "wchar \<Rightarrow> int32" where
  "hexwchar_to_int c =
     (if 48 \<le> c \<and> c \<le> 57 then c - 48 else if 97 \<le> c \<and> c \<le> 102 then c - 87
      else if 65 \<le> c \<and> c \<le> 70 then c - 55 else - 1)"

section \<open>The URL\<close>

type_synonym term_set = "(wchar list etch_key, unit) htab"

datatype url_value = UrlString "wchar list" | UrlSet term_set

record etch_url =
  url_port :: int32
  url_raw :: "wchar list option"
  url_scheme :: "wchar list option"
  url_user :: "wchar list option"
  url_password :: "wchar list option"
  url_fragment :: "wchar list option"
  url_host :: "wchar list option"
  url_uri :: "wchar list option"
  url_params :: "wchar list etch_arraylist option"
  url_terms :: "url_value string_map option"
  url_charcount :: nat
  url_bytecount :: nat

definition ETCH_URL_DEFAULT_SCHEME :: "wchar list" where "ETCH_URL_DEFAULT_SCHEME = wstr ''http''"
definition ETCH_URL_DEFNUMPARMS :: nat where "ETCH_URL_DEFNUMPARMS = 4"
definition ETCH_URL_DEFNUMTERMS :: int where "ETCH_URL_DEFNUMTERMS = 4"
definition ETCH_URL_DEFSUBTERMS :: int where "ETCH_URL_DEFSUBTERMS = 4"

section \<open>Unescaping\<close>

text \<open>
  The two assignments in conditions leave the \<open>switch\<close> when the character that follows the percent sign is
  there, so that digits are read only behind the end of the string.
\<close>

function etchurl_unescape_loop :: "wchar list \<Rightarrow> nat \<Rightarrow> wchar list \<Rightarrow> nat \<Rightarrow> wchar list option" where
  "etchurl_unescape_loop buf p newstr q =
     (case peek buf p of None \<Rightarrow> None
      | Some c \<Rightarrow>
          if c = 0 then Some newstr
          else if c = wch (CHR ''%'') then
            (case peek buf (p + 1) of None \<Rightarrow> None
             | Some c1 \<Rightarrow>
                 if c1 \<noteq> 0 then etchurl_unescape_loop buf (p + 2) newstr q
                 else (case peek buf (p + 2) of None \<Rightarrow> None
                       | Some c2 \<Rightarrow>
                           if c2 \<noteq> 0 then etchurl_unescape_loop buf (p + 3) newstr q
                           else (case poke newstr q (push_bit 4 (hexwchar_to_int c1) OR hexwchar_to_int c2) of
                                   None \<Rightarrow> None
                                 | Some newstr \<Rightarrow> etchurl_unescape_loop buf (p + 2) newstr (q + 1))))
          else (case poke newstr q (if c = wch (CHR ''+'') then wch (CHR '' '') else c) of
                  None \<Rightarrow> None
                | Some newstr \<Rightarrow> etchurl_unescape_loop buf (p + 1) newstr (q + 1)))"
  by pat_completeness auto

termination
  by (relation "measure (\<lambda>(buf, p, newstr, q). length buf - p)") (auto simp: peek_def split: if_splits)

declare etchurl_unescape_loop.simps [simp del]

definition etchurl_unescape :: "wchar list \<Rightarrow> nat \<Rightarrow> wchar list option" where
  "etchurl_unescape buf s =
     do { charlen \<leftarrow> wcslen buf s; etchurl_unescape_loop buf s (replicate (charlen + 1) 0) 0 }"

text \<open>The test is made after the increment: the first character is never looked at, the final zero is.\<close>

fun only_blanks :: "wchar list \<Rightarrow> bool" where
  "only_blanks [] = True"
| "only_blanks (c # s) = (case s of [] \<Rightarrow> False | d # _ \<Rightarrow> d = wch (CHR '' '') \<and> only_blanks s)"

definition etchurl_is_emptystring :: "wchar list \<Rightarrow> nat \<Rightarrow> bool option" where
  "etchurl_is_emptystring buf p = do { s \<leftarrow> str_at buf p; Some (only_blanks s) }"

section \<open>Terms and parameters\<close>

definition new_etchurl_paramlist :: "wchar list etch_arraylist" where
  "new_etchurl_paramlist =
     (new_etch_arraylist ETCH_URL_DEFNUMPARMS 0)
       \<lparr>al_content_type := ETCHARRAYLIST_CONTENT_OBJECT, al_content_obj_type := 0x29,
        al_content_class_id := 9, al_is_readonly := False\<rparr>"

definition new_etchurl_termmap :: "url_value string_map" where
  "new_etchurl_termmap = jenkins_create ETCH_URL_DEFNUMTERMS"

definition new_etch_term_consolidator_set :: term_set where
  "new_etch_term_consolidator_set = jenkins_create ETCH_URL_DEFSUBTERMS"

text \<open>A wide string object as a key: its class, the hash of its characters and the characters.\<close>

definition string_key :: "nat \<Rightarrow> wchar list \<Rightarrow> wchar list etch_key" where
  "string_key ub4_bits s =
     \<lparr>ko_hashkey = etch_get_wchar_hashkey ub4_bits s, ko_obj_type = 0x29, ko_class_id = 9, ko_content = s\<rparr>"

definition etchmap_set_add :: "nat \<Rightarrow> term_set \<Rightarrow> wchar list \<Rightarrow> int \<times> term_set" where
  "etchmap_set_add ub4_bits thisset key = jenkins_inserth ub4_bits thisset (string_key ub4_bits key) ()"

definition etchurl_remove_term :: "nat \<Rightarrow> etch_url \<Rightarrow> wchar list \<Rightarrow> (url_value option \<times> etch_url) option" where
  "etchurl_remove_term ub4_bits url key =
     do { terms \<leftarrow> url_terms url; k \<leftarrow> str_at key 0;
          (case jenkins_remove ub4_bits terms (wchar_bytes k) of (_, removed, terms) \<Rightarrow>
             Some (Option.bind removed hx_value, url\<lparr>url_terms := Some terms\<rparr>)) }"

text \<open>The value of an item is a pointer: when its object changes, the item has the changed object.\<close>

definition share_value :: "byte list \<Rightarrow> 'v \<Rightarrow> (byte list, 'v) htab \<Rightarrow> (byte list, 'v) htab" where
  "share_value k v t =
     t\<lparr>ht_table := map (map (\<lambda>h. if hi_key h = k then h\<lparr>hi_stuff := v\<rparr> else h)) (ht_table t)\<rparr>"

text \<open>\<open>etchmap_findxw\<close> reads through the map, which must be there.\<close>

definition etchurl_add_term :: "nat \<Rightarrow> etch_url \<Rightarrow> wchar list \<Rightarrow> wchar list \<Rightarrow> (int \<times> etch_url) option" where
  "etchurl_add_term ub4_bits url termname termval =
     do { newval \<leftarrow> str_at termval 0; k \<leftarrow> str_at termname 0; terms \<leftarrow> url_terms url;
          (case etchmap_findxw ub4_bits terms k of
             (None, terms) \<Rightarrow>
               (case etchmap_insertxw ub4_bits terms k (Some (UrlString newval)) False of (hash, terms) \<Rightarrow>
                  Some (if hash \<noteq> 0 then 0 else - 1, url\<lparr>url_terms := Some terms\<rparr>))
           | (Some (UrlSet foundset), terms) \<Rightarrow>
               (case etchmap_set_add ub4_bits foundset newval of (r, foundset) \<Rightarrow>
                  Some (if r \<noteq> 0 then - 1 else 0,
                        url\<lparr>url_terms := Some (share_value (wchar_bytes k) (Some (UrlSet foundset)) terms)\<rparr>))
           | (Some (UrlString foundval), terms) \<Rightarrow>
               let thisset = snd (etchmap_set_add ub4_bits new_etch_term_consolidator_set foundval);
                   thisset = snd (etchmap_set_add ub4_bits thisset newval)
               in (case etchurl_remove_term ub4_bits (url\<lparr>url_terms := Some terms\<rparr>) termname of
                     None \<Rightarrow> None
                   | Some (_, url) \<Rightarrow>
                       do { terms \<leftarrow> url_terms url;
                            (case etchmap_insertxw ub4_bits terms k (Some (UrlSet thisset)) False of (hash, terms) \<Rightarrow>
                               Some (if hash \<noteq> 0 then 0 else - 1, url\<lparr>url_terms := Some terms\<rparr>)) })) }"


definition etchurl_add_integer_term :: "nat \<Rightarrow> etch_url \<Rightarrow> wchar list \<Rightarrow> int32 \<Rightarrow> (int \<times> etch_url) option" where
  "etchurl_add_integer_term ub4_bits url termname termval =
     etchurl_add_term ub4_bits url termname (map ucast (decimal (sint termval)) @ [0])"

definition etchurl_add_param :: "etch_url \<Rightarrow> wchar list \<Rightarrow> (int \<times> etch_url) option" where
  "etchurl_add_param url param =
     do { empty \<leftarrow> etchurl_is_emptystring param 0;
          if empty then Some (- 1, url)
          else do { let params = (case url_params url of None \<Rightarrow> new_etchurl_paramlist | Some l \<Rightarrow> l);
                    s \<leftarrow> str_at param 0;
                    (r, params) \<leftarrow> etch_arraylist_add params (Some s);
                    Some (r, url\<lparr>url_params := Some params\<rparr>) } }"

section \<open>Parsing\<close>

definition etchurl_parseterm :: "nat \<Rightarrow> etch_url \<Rightarrow> wchar list \<Rightarrow> nat \<Rightarrow> (wchar list \<times> etch_url) option" where
  "etchurl_parseterm ub4_bits url buf p =
     do { empty \<leftarrow> etchurl_is_emptystring buf p;
          if empty then Some (buf, url)
          else do { let url = (if url_terms url = None then url\<lparr>url_terms := Some new_etchurl_termmap\<rparr> else url);
                    q \<leftarrow> wcschr buf p (wch (CHR ''=''));
                    (case q of
                       None \<Rightarrow>
                         do { key \<leftarrow> etchurl_unescape buf p;
                              (_, url) \<leftarrow> etchurl_add_term ub4_bits url key [0];
                              Some (buf, url) }
                     | Some q \<Rightarrow>
                         do { let buf = buf[q := 0];
                              key \<leftarrow> etchurl_unescape buf p;
                              empty \<leftarrow> etchurl_is_emptystring buf (q + 1);
                              if \<not> empty
                              then do { val \<leftarrow> etchurl_unescape buf (q + 1);
                                        (_, url) \<leftarrow> etchurl_add_term ub4_bits url key val;
                                        Some (buf, url) }
                              else do { (_, url) \<leftarrow> etchurl_add_term ub4_bits url key [0];
                                        Some (buf, url) } }) } }"

text \<open>A loop over the delimiters of a string has at most as many rounds as the block has characters.\<close>

fun etchurl_parseterms_loop ::
  "nat \<Rightarrow> nat \<Rightarrow> etch_url \<Rightarrow> wchar list \<Rightarrow> nat \<Rightarrow> (wchar list \<times> etch_url) option" where
  "etchurl_parseterms_loop 0 ub4_bits url buf p = None"
| "etchurl_parseterms_loop (Suc n) ub4_bits url buf p =
     do { q \<leftarrow> wcschr buf p (wch (CHR ''&''));
          (case q of
             None \<Rightarrow> etchurl_parseterm ub4_bits url buf p
           | Some q \<Rightarrow>
               do { (buf, url) \<leftarrow> etchurl_parseterm ub4_bits url (buf[q := 0]) p;
                    etchurl_parseterms_loop n ub4_bits url buf (q + 1) }) }"

definition etchurl_parseterms :: "nat \<Rightarrow> etch_url \<Rightarrow> wchar list \<Rightarrow> nat \<Rightarrow> (wchar list \<times> etch_url) option" where
  "etchurl_parseterms ub4_bits url buf p = etchurl_parseterms_loop (length buf + 1) ub4_bits url buf p"

fun etchurl_parseparams_loop :: "nat \<Rightarrow> etch_url \<Rightarrow> wchar list \<Rightarrow> nat \<Rightarrow> (wchar list \<times> etch_url) option" where
  "etchurl_parseparams_loop 0 url buf p = None"
| "etchurl_parseparams_loop (Suc n) url buf p =
     do { q \<leftarrow> wcschr buf p (wch (CHR '';''));
          (case q of
             None \<Rightarrow>
               do { empty \<leftarrow> etchurl_is_emptystring buf p;
                    if \<not> empty
                    then do { a \<leftarrow> new_wchar buf p; (_, url) \<leftarrow> etchurl_add_param url a; Some (buf, url) }
                    else Some (buf, url) }
           | Some q \<Rightarrow>
               do { let buf = buf[q := 0];
                    a \<leftarrow> etchurl_unescape buf p;
                    (_, url) \<leftarrow> etchurl_add_param url a;
                    etchurl_parseparams_loop n url buf (q + 1) }) }"

definition etchurl_parseparams :: "etch_url \<Rightarrow> wchar list \<Rightarrow> nat \<Rightarrow> (wchar list \<times> etch_url) option" where
  "etchurl_parseparams url buf p =
     do { empty \<leftarrow> etchurl_is_emptystring buf p;
          if empty then Some (buf, url) else etchurl_parseparams_loop (length buf + 1) url buf p }"

definition etchurl_parsepass :: "etch_url \<Rightarrow> wchar list \<Rightarrow> nat \<Rightarrow> (wchar list \<times> etch_url) option" where
  "etchurl_parsepass url buf p =
     do { q \<leftarrow> wcschr buf p (wch (CHR '':''));
          (buf, url) \<leftarrow> (case q of
             None \<Rightarrow> Some (buf, url)
           | Some q \<Rightarrow>
               do { let buf = buf[q := 0];
                    a \<leftarrow> etchurl_unescape buf (q + 1);
                    Some (buf, url\<lparr>url_password := Some a\<rparr>) });
          a \<leftarrow> etchurl_unescape buf p;
          Some (buf, url\<lparr>url_user := Some a\<rparr>) }"

definition etchurl_parseport :: "etch_url \<Rightarrow> wchar list \<Rightarrow> nat \<Rightarrow> (wchar list \<times> etch_url) option" where
  "etchurl_parseport url buf p =
     do { q \<leftarrow> wcschr buf p (wch (CHR '':''));
          (buf, url) \<leftarrow> (case q of
             None \<Rightarrow> Some (buf, url)
           | Some q \<Rightarrow>
               do { let buf = buf[q := 0];
                    a \<leftarrow> etchurl_unescape buf (q + 1);
                    s \<leftarrow> str_at a 0;
                    Some (buf, url\<lparr>url_port := word_of_int (wcstol s)\<rparr>) });
          a \<leftarrow> etchurl_unescape buf p;
          Some (buf, url\<lparr>url_host := Some a\<rparr>) }"

definition etchurl_parsehost :: "etch_url \<Rightarrow> wchar list \<Rightarrow> nat \<Rightarrow> (wchar list \<times> etch_url) option" where
  "etchurl_parsehost url buf p =
     do { q \<leftarrow> wcschr buf p (wch (CHR ''@''));
          (case q of
             None \<Rightarrow> etchurl_parseport url buf p
           | Some q \<Rightarrow>
               do { (buf, url) \<leftarrow> etchurl_parsepass url (buf[q := 0]) p;
                    etchurl_parseport url buf (q + 1) }) }"

text \<open>The steps of \<open>etchurl_parse\<close> after the scheme: fragment, terms, parameters, then host and path.\<close>

definition parse_fragment :: "etch_url \<Rightarrow> wchar list \<Rightarrow> nat \<Rightarrow> (wchar list \<times> etch_url) option" where
  "parse_fragment url buf p =
     do { q \<leftarrow> wcschr buf p (wch (CHR ''#''));
          (case q of
             None \<Rightarrow> Some (buf, url)
           | Some q \<Rightarrow>
               do { let buf = buf[q := 0];
                    a \<leftarrow> etchurl_unescape buf (q + 1);
                    Some (buf, url\<lparr>url_fragment := Some a\<rparr>) }) }"

definition parse_query :: "nat \<Rightarrow> etch_url \<Rightarrow> wchar list \<Rightarrow> nat \<Rightarrow> (wchar list \<times> etch_url) option" where
  "parse_query ub4_bits url buf p =
     do { q \<leftarrow> wcschr buf p (wch (CHR ''?''));
          (case q of None \<Rightarrow> Some (buf, url)
           | Some q \<Rightarrow> etchurl_parseterms ub4_bits url (buf[q := 0]) (q + 1)) }"

definition parse_params :: "etch_url \<Rightarrow> wchar list \<Rightarrow> nat \<Rightarrow> (wchar list \<times> etch_url) option" where
  "parse_params url buf p =
     do { q \<leftarrow> wcschr buf p (wch (CHR '';''));
          (case q of None \<Rightarrow> Some (buf, url)
           | Some q \<Rightarrow> etchurl_parseparams url (buf[q := 0]) (q + 1)) }"

definition parse_location :: "etch_url \<Rightarrow> wchar list \<Rightarrow> nat \<Rightarrow> etch_url option" where
  "parse_location url buf p =
     do { ss \<leftarrow> wcsstr_slashes buf p;
          let p = (if ss = Some p then p + 2 else p);
          q \<leftarrow> wcschr buf p (wch (CHR ''/''));
          (buf, url, p) \<leftarrow> (case q of
             Some q \<Rightarrow>
               do { (buf, url) \<leftarrow> etchurl_parsehost url (buf[q := 0]) p; Some (buf, url, q + 1) }
           | None \<Rightarrow>
               do { (buf, url) \<leftarrow> etchurl_parsehost url buf p; Some (buf[p := 0], url, p) });
          a \<leftarrow> etchurl_unescape buf p;
          Some (url\<lparr>url_uri := Some a\<rparr>) }"

definition etchurl_parse :: "nat \<Rightarrow> etch_url \<Rightarrow> wchar list \<Rightarrow> (int \<times> etch_url) option" where
  "etchurl_parse ub4_bits thisx rawurl =
     do { buf \<leftarrow> new_wchar rawurl 0;
          n \<leftarrow> wcslen buf 0;
          let thisx = thisx\<lparr>url_charcount := n, url_bytecount := 4 * n\<rparr>;
          if url_bytecount thisx = 0 then Some (- 1, thisx)
          else do {
            ss \<leftarrow> wcsstr_slashes buf 0;
            q \<leftarrow> wcschr buf 0 (wch (CHR '':''));
            r \<leftarrow> (case (ss, q) of
               (Some ss, Some q) \<Rightarrow>
                 if ss > q
                 then do { let buf = buf[q := 0];
                           a \<leftarrow> etchurl_unescape buf 0;
                           Some (Some (buf, thisx\<lparr>url_scheme := Some a\<rparr>, q + 1)) }
                 else Some None
             | _ \<Rightarrow> Some (Some (buf, thisx\<lparr>url_scheme := Some (ETCH_URL_DEFAULT_SCHEME @ [0])\<rparr>, 0)));
            (case r of
               None \<Rightarrow> Some (- 1, thisx)
             | Some (buf, thisx, p) \<Rightarrow>
                 do { (buf, thisx) \<leftarrow> parse_fragment thisx buf p;
                      (buf, thisx) \<leftarrow> parse_query ub4_bits thisx buf p;
                      (buf, thisx) \<leftarrow> parse_params thisx buf p;
                      thisx \<leftarrow> parse_location thisx buf p;
                      Some (0, thisx) }) } }"

definition new_url :: "nat \<Rightarrow> wchar list \<Rightarrow> etch_url option" where
  "new_url ub4_bits urlstring =
     do { raw \<leftarrow> new_wchar urlstring 0;
          (_, url) \<leftarrow> etchurl_parse ub4_bits
             \<lparr>url_port = 0, url_raw = Some raw, url_scheme = None, url_user = None, url_password = None,
              url_fragment = None, url_host = None, url_uri = None, url_params = None, url_terms = None,
              url_charcount = 0, url_bytecount = 0\<rparr> urlstring;
          Some url }"

section \<open>Reading a URL\<close>

definition etchurl_get_term :: "nat \<Rightarrow> etch_url \<Rightarrow> wchar list \<Rightarrow> url_value option \<times> etch_url" where
  "etchurl_get_term ub4_bits url termname =
     (case url_terms url of
        None \<Rightarrow> (None, url)
      | Some terms \<Rightarrow>
          (case etchmap_findxw ub4_bits terms termname of (v, terms) \<Rightarrow> (v, url\<lparr>url_terms := Some terms\<rparr>)))"

definition etchurl_get_integer_term ::
  "nat \<Rightarrow> etch_url \<Rightarrow> wchar list \<Rightarrow> int32 option \<Rightarrow> int \<times> int32 option \<times> etch_url" where
  "etchurl_get_integer_term ub4_bits url termname out =
     (case etchurl_get_term ub4_bits url termname of
        (Some (UrlString s), url) \<Rightarrow>
          if length s = 0 then (- 1, out, url)
          else let result = word_of_int (wcstol s) :: int32
               in (sint result, map_option (\<lambda>_. result) out, url)
      | (_, url) \<Rightarrow> (- 1, out, url))"

definition etchurl_paramcount :: "etch_url \<Rightarrow> nat" where
  "etchurl_paramcount url = (case url_params url of None \<Rightarrow> 0 | Some l \<Rightarrow> al_count l)"

definition etchurl_termcount :: "etch_url \<Rightarrow> nat" where
  "etchurl_termcount url = etchmap_count (url_terms url)"

definition is_url_scheme :: "etch_url \<Rightarrow> string \<Rightarrow> bool" where
  "is_url_scheme url name =
     (case url_scheme url of None \<Rightarrow> False | Some s \<Rightarrow> str_at s 0 = Some (wstr name))"

definition is_url_scheme_http :: "etch_url \<Rightarrow> bool" where
  "is_url_scheme_http url = is_url_scheme url ''http''"

definition is_url_scheme_tcp :: "etch_url \<Rightarrow> bool" where
  "is_url_scheme_tcp url = is_url_scheme url ''tcp''"

definition is_url_scheme_udp :: "etch_url \<Rightarrow> bool" where
  "is_url_scheme_udp url = is_url_scheme url ''udp''"

end
