(* ===== verification/StringMap_Correct.thy ===== *)
theory StringMap_Correct
  imports StringMap HashTable_Correct
begin

text \<open>
  A table with string keys is a map on the strings: two keys are kept apart even when their hashes are
  the same.  It is another interpretation of the contract \<open>hash_map\<close>.  Maps with number keys are maps
  on numbers, because the decimal strings of different numbers differ.
\<close>

section \<open>The invariant\<close>

definition str_ok :: "nat \<Rightarrow> (byte list, 'v) htab \<Rightarrow> bool" where
  "str_ok b t \<longleftrightarrow> htab_ok t \<and> distinct (map hi_key (ht_items t))
     \<and> (\<forall>h \<in> set (ht_items t). hi_keyl h = length (hi_key h) \<and> hi_hval h = string_hash b (hi_key h) \<and> hi_key h \<noteq> [])"

definition str_map :: "(byte list, 'v) htab \<Rightarrow> byte list \<Rightarrow> (byte list \<times> 'v) option" where
  "str_map t = map_of (map (\<lambda>h. (hi_key h, (hi_key h, hi_stuff h))) (ht_items t))"

lemma str_map_Some:
  assumes "distinct (map hi_key (ht_items t))"
  shows "str_map t k = Some e \<longleftrightarrow> (\<exists>h \<in> set (ht_items t). hi_key h = k \<and> e = (hi_key h, hi_stuff h))"
proof -
  have "distinct (map fst (map (\<lambda>h. (hi_key h, (hi_key h, hi_stuff h))) (ht_items t)))"
    using assms by (simp add: comp_def)
  from map_of_eq_Some_iff [OF this, of k e] show ?thesis by (auto simp: str_map_def)
qed

lemma str_map_None: "str_map t k = None \<longleftrightarrow> k \<notin> hi_key ` set (ht_items t)"
  by (auto simp: str_map_def map_of_eq_None_iff image_image)

lemma str_map_add:
  assumes "distinct (map hi_key (ht_items t))" and "hi_key h \<notin> hi_key ` set (ht_items t)"
    and "mset (ht_items t') = add_mset h (mset (ht_items t))"
  shows "distinct (map hi_key (ht_items t')) \<and> str_map t' = (str_map t)(hi_key h \<mapsto> (hi_key h, hi_stuff h))"
proof -
  have s: "set (ht_items t') = insert h (set (ht_items t))" using arg_cong [OF assms(3), of set_mset] by simp
  have "distinct (map hi_key (h # ht_items t))" using assms(1,2) by simp
  then have d: "distinct (map hi_key (ht_items t'))"
    using mset_buckets_distinct [of "ht_items t'" "h # ht_items t" hi_key] assms(3) by simp
  have "str_map t' k = ((str_map t)(hi_key h \<mapsto> (hi_key h, hi_stuff h))) k" for k
  proof (cases "k = hi_key h")
    case True
    have "str_map t' k = Some (hi_key h, hi_stuff h)" unfolding str_map_Some [OF d] s using True by blast
    then show ?thesis using True by simp
  next
    case False
    then have "str_map t' k = Some e \<longleftrightarrow> str_map t k = Some e" for e
      unfolding str_map_Some [OF d] str_map_Some [OF assms(1)] s by blast
    then have "str_map t' k = str_map t k" by (metis not_None_eq)
    then show ?thesis using False by simp
  qed
  then show ?thesis using d by blast
qed

lemma str_map_remove:
  assumes "distinct (map hi_key (ht_items t))" and "mset (ht_items t) = add_mset h (mset (ht_items t'))"
  shows "distinct (map hi_key (ht_items t')) \<and> str_map t' = (str_map t)(hi_key h := None)"
proof -
  have "distinct (map hi_key (h # ht_items t'))"
    using mset_buckets_distinct [of "ht_items t" "h # ht_items t'" hi_key] assms by simp
  then have d: "distinct (map hi_key (ht_items t'))" "hi_key h \<notin> hi_key ` set (ht_items t')" by simp_all
  from str_map_add [OF d assms(2)] have m: "str_map t = (str_map t')(hi_key h \<mapsto> (hi_key h, hi_stuff h))" by blast
  have "str_map t' (hi_key h) = None" using d(2) by (simp add: str_map_None)
  then show ?thesis unfolding m using d(1) by auto
qed

lemma same_string_iff:
  "hi_keyl h = length (hi_key h) \<Longrightarrow> hi_hval h = string_hash b (hi_key h) \<Longrightarrow>
     same_string key (string_hash b key) h \<longleftrightarrow> hi_key h = key"
  by (auto simp: same_string_def)

section \<open>Finding\<close>

lemma htab_ok_pos: "htab_ok t \<Longrightarrow> ht_items t = [] \<Longrightarrow> ht_ipos t = None"
  using chain_nonempty [of "ht_apos t" t] by (auto simp: htab_ok_def ht_pos_ok_def split: option.splits)

text \<open>The chain of a key holds the item of the key, when the table has one.\<close>

lemma chain_of_key:
  fixes key :: "byte list" and t :: "(byte list, 'v) htab"
  assumes t: "str_ok b t"
  defines "y \<equiv> hbucket t (string_hash b key)"
  shows "case chain_index (same_string key (string_hash b key)) (ht_table t ! y) of
      None \<Rightarrow> str_map t key = None
    | Some j \<Rightarrow> y < length (ht_table t) \<and> j < length (ht_table t ! y) \<and> hi_key (ht_table t ! y ! j) = key
        \<and> ht_table t ! y ! j \<in> set (ht_items t)"
proof -
  let ?P = "same_string key (string_hash b key)"
  have c: "ht_chains_ok t" and good: "\<forall>h \<in> set (ht_items t). hi_keyl h = length (hi_key h) \<and> hi_hval h = string_hash b (hi_key h)"
    using t by (simp_all add: str_ok_def htab_ok_def)
  have y: "y < length (ht_table t)" unfolding y_def by (rule hbucket_less_chains [OF c])
  have iff: "h \<in> set (ht_items t) \<and> (?P h \<longleftrightarrow> hi_key h = key)" if "h \<in> set (ht_table t ! y)" for h
  proof -
    have "h \<in> set (ht_items t)" using that y by (auto simp: in_items)
    then show ?thesis using good same_string_iff by blast
  qed
  show ?thesis
  proof (cases "chain_index ?P (ht_table t ! y)")
    case None
    have "hi_key h \<noteq> key" if h: "h \<in> set (ht_items t)" for h
    proof
      assume "hi_key h = key"
      then have "h \<in> set (ht_table t ! y)" using item_bucket_chains [OF c h] good h by (simp add: y_def)
      then show False using None iff \<open>hi_key h = key\<close> unfolding chain_index_None by blast
    qed
    then show ?thesis using None by (auto simp: str_map_None)
  next
    case (Some j)
    then have j: "j < length (ht_table t ! y)" "?P (ht_table t ! y ! j)" using chain_index_Some by blast+
    then show ?thesis using Some y iff [OF nth_mem [OF j(1)]] by simp
  qed
qed

lemma hfind_spec:
  assumes t: "str_ok b t"
  shows "fst (hfind b t key) = (str_map t key \<noteq> None) \<and> str_ok b (snd (hfind b t key))
    \<and> ht_items (snd (hfind b t key)) = ht_items t
    \<and> (str_map t key \<noteq> None \<longrightarrow> (\<exists>h. hitem_at (snd (hfind b t key)) = Some h \<and> hi_key h = key
        \<and> h \<in> set (ht_items t) \<and> str_map t key = Some (key, hi_stuff h)))"
proof -
  let ?x = "string_hash b key" and ?y = "hbucket t (string_hash b key)"
  have ok: "htab_ok t" and d: "distinct (map hi_key (ht_items t))" using t by (simp_all add: str_ok_def)
  note c = chain_of_key [OF t, of key]
  show ?thesis
  proof (cases "chain_index (same_string key ?x) (ht_table t ! ?y)")
    case None
    then show ?thesis using c t by (simp add: hfind_def Let_def)
  next
    case (Some j)
    let ?h = "ht_table t ! ?y ! j" and ?t = "t\<lparr>ht_apos := ?y, ht_ipos := Some j\<rparr>"
    have h: "?y < length (ht_table t)" "j < length (ht_table t ! ?y)" "hi_key ?h = key" "?h \<in> set (ht_items t)"
      using c Some by simp_all
    have m: "str_map t key = Some (key, hi_stuff ?h)" unfolding str_map_Some [OF d] using h(3,4) by metis
    have "htab_ok ?t" using ok h by (simp add: htab_ok_def ht_pos_ok_def)
    then have "str_ok b ?t" using t by (simp add: str_ok_def)
    then show ?thesis using Some h m by (simp add: hfind_def Let_def hitem_at_def)
  qed
qed

section \<open>Adding\<close>

lemma hadd_existing:
  assumes t: "str_ok b t" and old: "str_map t key \<noteq> None"
  shows "\<not> fst (hadd b t key v) \<and> str_ok b (snd (hadd b t key v)) \<and> ht_items (snd (hadd b t key v)) = ht_items t"
proof -
  obtain j where j: "chain_index (same_string key (string_hash b key)) (ht_table t ! hbucket t (string_hash b key)) = Some j"
    using chain_of_key [OF t, of key] old by (auto split: option.splits)
  then have "hadd b t key v = (False, snd (hfind b t key))" by (simp add: hadd_def hfind_def Let_def)
  then show ?thesis using hfind_spec [OF t, of key] by simp
qed

lemma hadd_new:
  assumes t: "str_ok b t" and new: "str_map t key = None" and key: "key \<noteq> []"
  shows "fst (hadd b t key v) \<and> str_ok b (snd (hadd b t key v)) \<and> str_map (snd (hadd b t key v)) = (str_map t)(key \<mapsto> (key, v))
    \<and> hitem_at (snd (hadd b t key v)) = Some \<lparr>hi_key = key, hi_keyl = length key, hi_stuff = v, hi_hval = string_hash b key\<rparr>"
proof -
  let ?x = "string_hash b key"
  let ?h = "\<lparr>hi_key = key, hi_keyl = length key, hi_stuff = v, hi_hval = ?x\<rparr>"
  let ?t1 = "t\<lparr>ht_count := ht_count t + 1\<rparr>"
  let ?t2 = "if ht_count ?t1 > 2 ^ ht_logsize ?t1 then hgrow ?t1 else ?t1"
  have ok: "ht_chains_ok t" "ht_count t = length (ht_items t)" "ht_pos_ok t" and d: "distinct (map hi_key (ht_items t))"
    using t by (simp_all add: str_ok_def htab_ok_def)
  have none: "chain_index (same_string key ?x) (ht_table t ! hbucket t ?x) = None"
    using chain_of_key [OF t, of key] new
    by (cases "chain_index (same_string key ?x) (ht_table t ! hbucket t ?x)") (auto simp: str_map_None image_iff)
  have "ht_items t = [] \<Longrightarrow> ht_ipos t = None" using t htab_ok_pos by (simp add: str_ok_def)
  then have t2: "ht_chains_ok ?t2" "mset (ht_items ?t2) = mset (ht_items t)" "ht_count ?t2 = ht_count t + 1"
    using hgrow_chains [of ?t1] ok by auto
  note p = put_item_chains [OF t2(1), of ?h]
  have eq: "hadd b t key v = (True, put_item ?h ?t2)"
    using none by (simp add: hadd_def put_item_def Let_def)
  have ms: "mset (ht_items (put_item ?h ?t2)) = add_mset ?h (mset (ht_items t))" using p t2(2) by simp
  have "length (ht_items (put_item ?h ?t2)) = length (ht_items t) + 1" using arg_cong [OF ms, of size] by simp
  then have "htab_ok (put_item ?h ?t2)" using p t2(3) ok(2) by (simp add: htab_ok_def)
  moreover have s: "set (ht_items (put_item ?h ?t2)) = insert ?h (set (ht_items t))"
    using arg_cong [OF ms, of set_mset] by simp
  moreover have "hi_key ?h \<notin> hi_key ` set (ht_items t)" using new by (simp add: str_map_None)
  note add = str_map_add [OF d this ms]
  ultimately have "str_ok b (put_item ?h ?t2)" using t key by (simp add: str_ok_def)
  moreover have "hbucket ?t2 ?x < length (ht_table ?t2)" by (rule hbucket_less_chains [OF t2(1)])
  then have "hitem_at (put_item ?h ?t2) = Some ?h" by (simp add: hitem_at_def put_item_def Let_def)
  ultimately show ?thesis using eq add by simp
qed

section \<open>The contract\<close>

definition entry_of :: "int \<times> 'v etch_hashitem option \<times> 't \<Rightarrow> int \<times> (byte list \<times> 'v) option \<times> 't" where
  "entry_of = (\<lambda>(r, e, t). (r, map_option (\<lambda>e. (hx_key e, hx_value e)) e, t))"

definition inserted_of :: "int \<times> 'v etch_hashitem option \<times> 't \<Rightarrow> int \<times> 't" where
  "inserted_of = (\<lambda>(r, e, t). (r, t))"

lemma str_map_cong: "ht_items t' = ht_items t \<Longrightarrow> str_map t' = str_map t"
  by (simp add: str_map_def)

lemma str_empty_key: "str_ok b t \<Longrightarrow> str_map t [] = None"
  by (auto simp: str_map_None str_ok_def)

interpretation strings: hash_map "str_ok b" str_map "\<lambda>_. True" "\<lambda>k. k \<noteq> []" "\<lambda>k. k"
  "\<lambda>t k v. inserted_of (jenkins_insert b t k v)" "\<lambda>t k. entry_of (jenkins_find b t k)" "\<lambda>t k. entry_of (jenkins_remove b t k)"
proof (unfold_locales, goal_cases)
  case (1 t k v)
  show ?case
  proof (cases "k = [] \<or> str_map t k \<noteq> None")
    case True
    show ?thesis
    proof (cases "k = []")
      case True
      then show ?thesis using 1 by (simp add: jenkins_insert_def inserted_of_def)
    next
      case False
      then have "str_map t k \<noteq> None" using True by blast
      from hadd_existing [OF 1(1) this, of v] str_map_cong show ?thesis using False \<open>str_map t k \<noteq> None\<close>
        by (auto simp: jenkins_insert_def inserted_of_def split_beta Let_def)
    qed
  next
    case False
    then have "str_map t k = None" "k \<noteq> []" by blast+
    from hadd_new [OF 1(1) this, of v] False show ?thesis
      by (simp add: jenkins_insert_def inserted_of_def split_beta Let_def)
  qed
next
  case (2 t k)
  show ?case
  proof (cases "k = []")
    case True
    then show ?thesis using 2 str_empty_key [OF 2] by (simp add: jenkins_find_def entry_of_def)
  next
    case False
    then show ?thesis using hfind_spec [OF 2, of k] str_map_cong [of "snd (hfind b t k)" t]
      by (auto simp: jenkins_find_def entry_of_def split_beta Let_def current_item_def)
  qed
next
  case (3 t k)
  show ?case
  proof (cases "k = [] \<or> str_map t k = None")
    case True
    then show ?thesis using 3 str_empty_key [OF 3] hfind_spec [OF 3, of k] str_map_cong [of "snd (hfind b t k)" t]
      by (auto simp: jenkins_remove_def entry_of_def split_beta Let_def fun_eq_iff)
  next
    case False
    let ?t = "snd (hfind b t k)"
    from hfind_spec [OF 3, of k] False obtain h where h: "fst (hfind b t k)" "hitem_at ?t = Some h" "hi_key h = k"
      "str_ok b ?t" "ht_items ?t = ht_items t" "str_map t k = Some (k, hi_stuff h)" by auto
    have "htab_ok ?t" "distinct (map hi_key (ht_items ?t))" using h(4) by (simp_all add: str_ok_def)
    note dl = hdel_chains [OF this(1) h(2)]
    note rm = str_map_remove [OF \<open>distinct (map hi_key (ht_items ?t))\<close>, of h "snd (hdel ?t)"]
    have "set (ht_items (snd (hdel ?t))) \<subseteq> set (ht_items t)"
      using arg_cong [OF conjunct2 [OF conjunct2 [OF dl]], of set_mset] h(5) by auto
    then have "str_ok b (snd (hdel ?t))" using dl rm h(4,5) by (auto simp: str_ok_def)
    then show ?thesis using dl rm False h str_map_cong [OF h(5)]
      by (simp add: jenkins_remove_def entry_of_def split_beta Let_def current_item_def)
  qed
qed

lemma create_str_ok: "str_ok b (jenkins_create n :: (byte list, 'v) htab)"
proof -
  let ?t = "jenkins_create n :: (byte list, 'v) htab"
  have "htab_ok (hcreate k :: (byte list, 'v) htab)" for k using hcreate_inv [of k] unfolding htab_inv_ok by blast
  then have "htab_ok ?t" unfolding jenkins_create_def Let_def by blast
  moreover have "ht_items ?t = []" unfolding jenkins_create_def Let_def by simp
  ultimately show ?thesis by (simp add: str_ok_def)
qed

lemma create_str_map [simp]: "str_map (jenkins_create n) = Map.empty"
  by (simp add: jenkins_create_def Let_def str_map_def fun_eq_iff)

text \<open>
  C27. A table with string keys behaves as a finite map from byte strings to entries under every sequence
  of \<open>jenkins_insert\<close>, \<open>jenkins_find\<close> and \<open>jenkins_remove\<close>, for hashes of 32 and of 64 bits: strings with
  the same hash are kept apart.  Inserting refuses a string that is bound and the empty string.
\<close>

theorem string_table_is_a_map:
  fixes ops :: "(byte list, byte list, 'v) table_op list"
  shows "fst (run_ops (\<lambda>t k v. inserted_of (jenkins_insert b t k v)) (\<lambda>t k. entry_of (jenkins_find b t k))
      (\<lambda>t k. entry_of (jenkins_remove b t k)) ops (jenkins_create size_items))
    = fst (run_ops (map_insert (\<lambda>k. k \<noteq> []) (\<lambda>k. k)) map_find map_remove ops Map.empty)"
  using strings.run_simulates [OF create_str_ok, of ops b size_items] by simp

section \<open>Maps with string keys\<close>

text \<open>The invariant of an \<open>etch_map\<close> without null values, and the map it stands for.\<close>

definition map_ok :: "nat \<Rightarrow> 'v string_map \<Rightarrow> bool" where
  "map_ok b m \<longleftrightarrow> str_ok b m \<and> (\<forall>h \<in> set (ht_items m). hi_stuff h \<noteq> None)"

definition etch_map_of :: "'v string_map \<Rightarrow> byte list \<rightharpoonup> 'v" where
  "etch_map_of m k = Option.bind (str_map m k) snd"

lemma map_ok_value:
  assumes "map_ok b m" and "str_map m k = Some e"
  shows "snd e \<noteq> None"
proof -
  have "distinct (map hi_key (ht_items m))" using assms(1) by (simp add: map_ok_def str_ok_def)
  from assms(2) [unfolded str_map_Some [OF this]] show ?thesis using assms(1) by (auto simp: map_ok_def)
qed

lemma map_ok_ran: "str_ok b m \<Longrightarrow> map_ok b m \<longleftrightarrow> (\<forall>k e. str_map m k = Some e \<longrightarrow> snd e \<noteq> None)"
  using str_map_Some [of m] by (auto simp: map_ok_def str_ok_def) blast

lemma findxl_spec:
  assumes m: "map_ok b m"
  shows "\<exists>e m'. etchmap_findxl b m k = (etch_map_of m k, e, m') \<and> map_ok b m' \<and> str_map m' = str_map m
    \<and> (etch_map_of m k \<noteq> None \<longrightarrow> (\<exists>v. e = Some \<lparr>hx_key = k, hx_value = v, hx_hash = of_nat (string_hash b k)\<rparr>))
    \<and> (etch_map_of m k = None \<longrightarrow> e = None \<and> str_map m k = None)"
proof (cases "k = [] \<or> str_map m k = None")
  case True
  have s: "str_ok b m" using m by (simp add: map_ok_def)
  have n: "str_map m k = None" using True str_empty_key [OF s] by auto
  then have "etchmap_findxl b m k = (None, None, if k = [] then m else snd (hfind b m k))"
    using hfind_spec [OF s, of k] by (simp add: etchmap_findxl_def jenkins_find_def split_beta Let_def)
  moreover have "map_ok b (snd (hfind b m k))" "str_map (snd (hfind b m k)) = str_map m"
    using hfind_spec [OF s, of k] m str_map_cong [of "snd (hfind b m k)" m] by (simp_all add: map_ok_def)
  ultimately show ?thesis using n m by (simp add: etch_map_of_def)
next
  case False
  have s: "str_ok b m" using m by (simp add: map_ok_def)
  let ?t = "snd (hfind b m k)"
  from hfind_spec [OF s, of k] False obtain h where h: "fst (hfind b m k)" "hitem_at ?t = Some h" "hi_key h = k"
    "str_ok b ?t" "ht_items ?t = ht_items m" "str_map m k = Some (k, hi_stuff h)" "h \<in> set (ht_items m)" by auto
  have "hi_hval h = string_hash b k" using s h(3,7) by (auto simp: str_ok_def)
  then have "etchmap_findxl b m k = (hi_stuff h, Some \<lparr>hx_key = k, hx_value = hi_stuff h, hx_hash = of_nat (string_hash b k)\<rparr>, ?t)"
    using False h by (simp add: etchmap_findxl_def jenkins_find_def split_beta Let_def current_item_def)
  moreover have "map_ok b ?t" using m h(4,5) by (simp add: map_ok_def)
  moreover have "hi_stuff h \<noteq> None" using m h(7) by (simp add: map_ok_def)
  ultimately show ?thesis using h(6) str_map_cong [OF h(5)] by (simp add: etch_map_of_def)
qed

lemma etch_map_None: "map_ok b m \<Longrightarrow> etch_map_of m k = None \<longleftrightarrow> str_map m k = None"
  using map_ok_value [of b m k] by (cases "str_map m k") (auto simp: etch_map_of_def)

lemma insertxl_spec:
  assumes m: "map_ok b m" and k: "k \<noteq> []"
  shows "\<exists>m'. etchmap_insertxl b m k (Some v) chk
      = (if \<not> chk \<and> etch_map_of m k \<noteq> None then 0 else of_nat (string_hash b k), m') \<and> map_ok b m'
    \<and> etch_map_of m' = (if etch_map_of m k = None then (etch_map_of m)(k \<mapsto> v) else etch_map_of m)"
proof -
  obtain e m1 where f: "(if chk then etchmap_findxl b m k else (None, None, m)) = (if chk then etch_map_of m k else None, e, m1)"
    and m1: "map_ok b m1" "str_map m1 = str_map m"
    and e: "chk \<and> etch_map_of m k \<noteq> None \<Longrightarrow> \<exists>v. e = Some \<lparr>hx_key = k, hx_value = v, hx_hash = of_nat (string_hash b k)\<rparr>"
    and e': "\<not> chk \<or> etch_map_of m k = None \<Longrightarrow> e = None"
    using findxl_spec [OF m, of k] m by (cases chk) auto
  have s1: "str_ok b m1" using m1 by (simp add: map_ok_def)
  have mm: "etch_map_of m1 = etch_map_of m" by (simp add: etch_map_of_def fun_eq_iff m1(2))
  show ?thesis
  proof (cases "chk \<and> etch_map_of m k \<noteq> None")
    case True
    then show ?thesis using e f m1 mm by (auto simp: etchmap_insertxl_def)
  next
    case nofind: False
    then have e0: "e = None" and p: "(if chk then etch_map_of m k else None) = None" using e' by auto
    show ?thesis
    proof (cases "etch_map_of m k = None")
      case True
      then have n: "str_map m1 k = None" using etch_map_None [OF m] m1(2) by simp
      let ?t = "snd (hadd b m1 k (Some v))"
      note a = hadd_new [OF s1 n k, of "Some v"]
      have "etchmap_insertxl b m k (Some v) chk = (of_nat (string_hash b k), ?t)"
        unfolding etchmap_insertxl_def f using a k p e0
        by (simp add: jenkins_insert_def split_beta Let_def current_item_def)
      moreover have "map_ok b ?t"
        using a map_ok_ran [OF s1] m1(1) map_ok_ran [of b ?t] by (auto split: if_splits)
      moreover have "etch_map_of ?t = (etch_map_of m)(k \<mapsto> v)" using a m1(2) by (auto simp: etch_map_of_def fun_eq_iff)
      ultimately show ?thesis using True by simp
    next
      case False
      then have chk: "\<not> chk" using nofind by simp
      have n: "str_map m1 k \<noteq> None" using False etch_map_None [OF m] m1(2) by simp
      let ?t = "snd (hadd b m1 k (Some v))"
      note a = hadd_existing [OF s1 n, of "Some v"]
      have "etchmap_insertxl b m k (Some v) chk = (0, ?t)"
        unfolding etchmap_insertxl_def f using a k p e0
        by (simp add: jenkins_insert_def split_beta Let_def)
      moreover have "map_ok b ?t" using a m1(1) by (simp add: map_ok_def)
      moreover have "etch_map_of ?t = etch_map_of m"
        using str_map_cong [of ?t m1] a m1(2) by (simp add: etch_map_of_def fun_eq_iff)
      ultimately show ?thesis using False chk by auto
    qed
  qed
qed

lemma delxl_spec:
  assumes m: "map_ok b m"
  shows "\<exists>m'. etchmap_delxl b m k = (etch_map_of m k, m') \<and> map_ok b m' \<and> etch_map_of m' = (etch_map_of m)(k := None)"
proof -
  have s: "str_ok b m" using m by (simp add: map_ok_def)
  note law = strings.remove_law [OF s, of k]
  obtain r e m' where j: "jenkins_remove b m k = (r, e, m')" by (metis prod_cases3)
  have l: "str_ok b m'" "str_map m' = (str_map m)(k := None)" "r = (if str_map m k = None then - 1 else 0)"
    "map_option (\<lambda>e. (hx_key e, hx_value e)) e = str_map m k" using law j by (simp_all add: entry_of_def)
  have "map_ok b m'" using map_ok_ran [OF s] m map_ok_ran [OF l(1)] l(2) by (auto split: if_splits)
  moreover have "etch_map_of m' = (etch_map_of m)(k := None)" using l(2) by (auto simp: etch_map_of_def fun_eq_iff)
  moreover have "etchmap_delxl b m k = (etch_map_of m k, m')"
    using j l(3,4) by (cases e) (auto simp: etchmap_delxl_def etch_map_of_def)
  ultimately show ?thesis by blast
qed

section \<open>Maps with number keys\<close>

text \<open>Reading the decimal characters back.\<close>

fun read_digits :: "nat \<Rightarrow> byte list \<Rightarrow> nat" where
  "read_digits a [] = a"
| "read_digits a (c # cs) = read_digits (10 * a + (unat c - 48)) cs"

lemma read_digits_append: "read_digits a (xs @ ys) = read_digits (read_digits a xs) ys"
  by (induction xs arbitrary: a) simp_all

lemma unat_digit: "n < 10 \<Longrightarrow> unat (of_nat (48 + n) :: byte) = 48 + n"
  by (simp add: unat_of_nat del: of_nat_add)

lemma read_digits_digits: "read_digits 0 (digits n) = n"
proof (induction n rule: digits.induct)
  case (1 n)
  then show ?case
    by (cases "n < 10") (simp_all add: digits.simps [of n] read_digits_append unat_digit del: of_nat_add)
qed

lemma digits_chars: "digits n \<noteq> [] \<and> (\<forall>c \<in> set (digits n). 48 \<le> unat c)"
proof (induction n rule: digits.induct)
  case (1 n)
  then show ?case
    by (cases "n < 10") (auto simp: digits.simps [of n] unat_digit simp del: of_nat_add)
qed

lemma decimal_inj: "decimal i = decimal j \<longleftrightarrow> i = j"
proof -
  have no: "digits n \<noteq> 45 # xs" for n xs
    using digits_chars [of n] by auto
  have eq: "digits m = digits n \<longleftrightarrow> m = n" for m n by (metis read_digits_digits)
  show ?thesis using no no [symmetric] eq by (auto simp: decimal_def)
qed


lemma make_etchmap_key_inj: "make_etchmap_key i = make_etchmap_key j \<longleftrightarrow> i = j"
  by (auto simp: make_etchmap_key_def decimal_inj intro: signed_word_eqI)

lemma make_etchmap_key_nonempty [simp]: "make_etchmap_key i \<noteq> []"
  using digits_chars by (auto simp: make_etchmap_key_def decimal_def)

text \<open>A key never overflows the buffer of \<open>ETCHMAP_MAX_IKEYSIZE\<close> characters.\<close>

lemma digits_length: "n < 10 ^ m \<Longrightarrow> 0 < m \<Longrightarrow> length (digits n) \<le> m"
proof (induction m arbitrary: n)
  case (Suc m)
  show ?case
  proof (cases "n < 10")
    case True
    then show ?thesis by (simp add: digits.simps [of n])
  next
    case False
    then have "n div 10 < 10 ^ m" "0 < m" using Suc.prems by (auto intro!: gr0I)
    then have "length (digits (n div 10)) \<le> m" by (rule Suc.IH)
    then show ?thesis using False by (simp add: digits.simps [of n])
  qed
qed simp

lemma make_etchmap_key_length: "length (make_etchmap_key i) \<le> 11 \<and> 11 < ETCHMAP_MAX_IKEYSIZE"
proof -
  have "- (2 ^ 31) \<le> sint i" "sint i < 2 ^ 31" using sint_ge [of i] sint_lt [of i] by simp_all
  then have "nat \<bar>sint i\<bar> < 10 ^ 10" by simp
  from digits_length [OF this] show ?thesis
    by (auto simp: make_etchmap_key_def decimal_def ETCHMAP_MAX_IKEYSIZE_def abs_if split: if_splits)
qed

definition number_map :: "'v string_map \<Rightarrow> int32 \<rightharpoonup> 'v" where
  "number_map m i = etch_map_of m (make_etchmap_key i)"

lemma number_map_upd:
  "etch_map_of m' = (etch_map_of m)(make_etchmap_key i := v) \<Longrightarrow> number_map m' = (number_map m)(i := v)"
  by (auto simp: number_map_def make_etchmap_key_inj)

text \<open>
  C28. A map with number keys is a finite map from 32-bit integers to its values: \<open>etchmap_find\<close> and
  \<open>etchmap_del\<close> give the value bound to the key, \<open>etchmap_del\<close> unbinds it, and \<open>etchmap_add\<close> binds a new key
  and leaves a bound one alone.  The result of \<open>etchmap_add\<close> does not tell which: it is -1 exactly when the
  low 32 bits of the hash of the key are zero.
\<close>

theorem number_map_is_a_map:
  assumes "map_ok b m"
  shows "(\<exists>m'. etchmap_find b m i = (number_map m i, m') \<and> map_ok b m' \<and> number_map m' = number_map m)
    \<and> (\<exists>m'. etchmap_del b m i = (number_map m i, m') \<and> map_ok b m' \<and> number_map m' = (number_map m)(i := None))
    \<and> (\<exists>m'. etchmap_add b m i (Some v)
          = (if (of_nat (string_hash b (make_etchmap_key i)) :: int32) = 0 then - 1 else 0, m') \<and> map_ok b m'
          \<and> number_map m' = (if number_map m i = None then (number_map m)(i \<mapsto> v) else number_map m))"
proof (intro conjI)
  show "\<exists>m'. etchmap_find b m i = (number_map m i, m') \<and> map_ok b m' \<and> number_map m' = number_map m"
    using findxl_spec [OF assms, of "make_etchmap_key i"]
    by (auto simp: etchmap_find_def number_map_def etch_map_of_def fun_eq_iff)
  show "\<exists>m'. etchmap_del b m i = (number_map m i, m') \<and> map_ok b m' \<and> number_map m' = (number_map m)(i := None)"
    using delxl_spec [OF assms, of "make_etchmap_key i"] number_map_upd [of _ m i None]
    by (auto simp: etchmap_del_def number_map_def)
  show "\<exists>m'. etchmap_add b m i (Some v)
      = (if (of_nat (string_hash b (make_etchmap_key i)) :: int32) = 0 then - 1 else 0, m') \<and> map_ok b m'
      \<and> number_map m' = (if number_map m i = None then (number_map m)(i \<mapsto> v) else number_map m)"
  proof -
    let ?k = "make_etchmap_key i"
    from insertxl_spec [OF assms make_etchmap_key_nonempty, of i v True] obtain m' where
      m': "etchmap_insertxl b m ?k (Some v) True = (of_nat (string_hash b ?k), m')" "map_ok b m'"
      "etch_map_of m' = (if etch_map_of m ?k = None then (etch_map_of m)(?k \<mapsto> v) else etch_map_of m)"
      by auto
    have "number_map m' = (if number_map m i = None then (number_map m)(i \<mapsto> v) else number_map m)"
      using m'(3) number_map_upd [of m' m i "Some v"] by (simp add: number_map_def fun_eq_iff split: if_splits)
    then show ?thesis using m' by (simp add: etchmap_add_def etchmap_insert_def)
  qed
qed

lemma create_map_ok: "map_ok b (jenkins_create n)"
proof -
  have "ht_items (jenkins_create n :: 'a string_map) = []" unfolding jenkins_create_def Let_def by simp
  then show ?thesis using create_str_ok [of b n] by (simp add: map_ok_def)
qed

theorem number_map_is_a_map_witness:
  "map_ok 64 (jenkins_create 16 :: nat string_map)
   \<and> (\<exists>m'. etchmap_find 64 (jenkins_create 16 :: nat string_map) 7 = (None, m') \<and> number_map m' = Map.empty)"
  using number_map_is_a_map [OF create_map_ok, of 64 16 7 "0 :: nat"] create_map_ok
  by (auto simp: number_map_def etch_map_of_def fun_eq_iff)

end
