(* ===== verification/Url_Correct.thy ===== *)
theory Url_Correct
  imports Url StringMap_Correct ArrayList_Correct
begin

text \<open>
  Unescaping as it is and as the Java binding has it, and the round trip of a URL through the parser: a URL
  written from its components gives these components back.  The parser writes zeros into its copy; a string
  that starts behind them is not touched.
\<close>

section \<open>Strings in a block\<close>

named_theorems wch_simps \<open>characters as numbers\<close>

lemma wch_lits [wch_simps]:
  "wch (CHR ''%'') = 37" "wch (CHR ''+'') = 43" "wch (CHR '' '') = 32" "wch (CHR '':'') = 58" "wch (CHR ''/'') = 47"
  "wch (CHR ''@'') = 64" "wch (CHR '';'') = 59" "wch (CHR ''?'') = 63" "wch (CHR ''#'') = 35" "wch (CHR ''='') = 61"
  "wch (CHR ''&'') = 38" "wch (CHR ''-'') = 45"
  by (simp_all add: wch_def)

lemma str_at_iff: "str_at buf p = Some s \<longleftrightarrow> 0 \<notin> set s \<and> (\<exists>r. drop p buf = s @ 0 # r)"
proof
  assume l: "str_at buf p = Some s"
  let ?P = "\<lambda>c :: wchar. c \<noteq> 0" and ?xs = "drop p buf"
  have s: "s = takeWhile ?P ?xs" and n: "p + length s < length buf"
    using l by (auto simp: str_at_def Let_def split: if_splits)
  have eq: "?xs = s @ dropWhile ?P ?xs" unfolding s by simp
  have "dropWhile ?P ?xs \<noteq> []"
  proof
    assume "dropWhile ?P ?xs = []"
    with eq have "?xs = s" by (metis append_Nil2)
    from arg_cong [OF this, of length] show False using n by simp
  qed
  then obtain c r where r: "dropWhile ?P ?xs = c # r" by (cases "dropWhile ?P ?xs") auto
  have "c = 0" using hd_dropWhile [of ?P ?xs] r by simp
  then have "?xs = s @ 0 # r" using eq r by simp
  moreover have "0 \<notin> set s" unfolding s using set_takeWhileD by fastforce
  ultimately show "0 \<notin> set s \<and> (\<exists>r. drop p buf = s @ 0 # r)" by blast
next
  assume "0 \<notin> set s \<and> (\<exists>r. drop p buf = s @ 0 # r)"
  then obtain r where z: "0 \<notin> set s" and r: "drop p buf = s @ 0 # r" by blast
  have "takeWhile (\<lambda>c. c \<noteq> 0) (s @ 0 # r) = s" using z by (induction s) auto
  moreover have "p + length s < length buf" using arg_cong [OF r, of length] by simp
  ultimately show "str_at buf p = Some s" by (simp add: str_at_def Let_def r)
qed

lemma str_at_self [simp]: "0 \<notin> set s \<Longrightarrow> str_at (s @ 0 # r) 0 = Some s"
  by (simp add: str_at_iff)

lemma str_at_behind [simp]: "i < q \<Longrightarrow> str_at (buf[i := x]) q = str_at buf q"
  by (simp add: str_at_def)

lemma str_at_no_zero: "str_at buf p = Some s \<Longrightarrow> 0 \<notin> set s"
  by (simp add: str_at_iff)

lemma wcslen_str: "str_at buf p = Some s \<Longrightarrow> wcslen buf p = Some (length s)"
  by (simp add: wcslen_def)

lemma wcschr_none: "str_at buf p = Some s \<Longrightarrow> c \<notin> set s \<Longrightarrow> wcschr buf p c = Some None"
  by (simp add: wcschr_def)

lemma wcschr_cut:
  assumes "str_at buf p = Some (a @ c # b)" and "c \<notin> set a"
  shows "wcschr buf p c = Some (Some (p + length a)) \<and> str_at (buf[p + length a := 0]) p = Some a
    \<and> str_at (buf[p + length a := 0]) (p + length a + 1) = Some b"
proof -
  have "takeWhile (\<lambda>x. x \<noteq> c) (a @ c # b) = a" using assms(2) by (induction a) auto
  then have 1: "wcschr buf p c = Some (Some (p + length a))" using assms by (simp add: wcschr_def)
  from assms(1) obtain r where z: "0 \<notin> set (a @ c # b)" and r: "drop p buf = a @ c # b @ 0 # r"
    by (auto simp: str_at_iff)
  have "drop p (buf[p + length a := 0]) = a @ 0 # b @ 0 # r" by (simp add: drop_update_swap r list_update_append)
  then have 2: "str_at (buf[p + length a := 0]) p = Some a" using z by (auto simp: str_at_iff)
  have "drop (p + length a + 1) buf = drop (length a + 1) (drop p buf)" by (simp add: ac_simps)
  also have "\<dots> = b @ 0 # r" by (simp add: r)
  finally have "str_at (buf[p + length a := 0]) (p + length a + 1) = Some b" using z by (simp add: str_at_iff)
  with 1 2 show ?thesis by blast
qed

lemma slashes_start: "str_at buf p = Some (wch (CHR ''/'') # wch (CHR ''/'') # s) \<Longrightarrow> wcsstr_slashes buf p = Some (Some p)"
  by (simp add: wcsstr_slashes_def)

lemma only_blanks_iff: "only_blanks s \<longleftrightarrow> s = []"
proof -
  have "\<not> only_blanks (c # s)" for c s by (induction s arbitrary: c) auto
  then show ?thesis by (cases s) auto
qed

lemma emptystring_str: "str_at buf p = Some s \<Longrightarrow> etchurl_is_emptystring buf p = Some (s = [])"
  by (simp add: etchurl_is_emptystring_def only_blanks_iff)

section \<open>Unescaping\<close>

text \<open>What the loop does: a percent sign takes the character behind it away.\<close>

definition unplus :: "wchar \<Rightarrow> wchar" where
  "unplus c = (if c = wch (CHR ''+'') then wch (CHR '' '') else c)"

fun drop_escapes :: "wchar list \<Rightarrow> wchar list" where
  "drop_escapes [] = []"
| "drop_escapes (c # s) =
     (if c = wch (CHR ''%'') then (case s of [] \<Rightarrow> [] | _ # s' \<Rightarrow> drop_escapes s')
      else unplus c # drop_escapes s)"

fun percent_at_end :: "wchar list \<Rightarrow> bool" where
  "percent_at_end [] = False"
| "percent_at_end (c # s) =
     (if c = wch (CHR ''%'') then (case s of [] \<Rightarrow> True | _ # s' \<Rightarrow> percent_at_end s') else percent_at_end s)"

lemma length_drop_escapes: "length (drop_escapes s) \<le> length s"
  by (induction s rule: drop_escapes.induct) (auto split: list.splits)

lemma drop_escapes_plain: "wch (CHR ''%'') \<notin> set s \<Longrightarrow> drop_escapes s = map unplus s \<and> \<not> percent_at_end s"
  by (induction s) auto

lemma peek_drop: "drop p buf = c # s \<Longrightarrow> peek buf p = Some c \<and> drop (p + 1) buf = s"
proof -
  assume d: "drop p buf = c # s"
  have "p < length buf" using d by (metis drop_all leI list.distinct(1))
  moreover have "buf ! p = c" using nth_via_drop [OF d] .
  moreover have "drop (p + 1) buf = s" using d by (metis Suc_eq_plus1 drop_Suc list.sel(3) tl_drop)
  ultimately show ?thesis by (simp add: peek_def)
qed

lemma unescape_loop_good:
  assumes "drop p buf = s @ 0 # r" and "0 \<notin> set s" and "\<not> percent_at_end s" and "q + length s < length new"
  shows "etchurl_unescape_loop buf p new q
    = Some (take q new @ drop_escapes s @ drop (q + length (drop_escapes s)) new)"
  using assms
proof (induction s arbitrary: p q new rule: length_induct)
  case (1 s)
  show ?case
  proof (cases s)
    case Nil
    then show ?thesis using peek_drop [of p buf 0 r] 1(2) by (simp add: etchurl_unescape_loop.simps [of buf p])
  next
    case (Cons c t)
    have c: "peek buf p = Some c" "drop (p + 1) buf = t @ 0 # r" "c \<noteq> 0"
      using peek_drop [of p buf c "t @ 0 # r"] 1(2,3) Cons by auto
    show ?thesis
    proof (cases "c = wch (CHR ''%'')")
      case True
      then obtain c1 t' where t: "t = c1 # t'" using 1(4) Cons by (cases t) auto
      have c1: "peek buf (p + 1) = Some c1" "drop (p + 2) buf = t' @ 0 # r" "c1 \<noteq> 0"
        using peek_drop [of "p + 1" buf c1 "t' @ 0 # r"] c(2) 1(3) Cons t by (auto simp: numeral_2_eq_2)
      have "etchurl_unescape_loop buf (p + 2) new q
          = Some (take q new @ drop_escapes t' @ drop (q + length (drop_escapes t')) new)"
        using 1(1) [rule_format, of t' "p + 2" q new] c1(2) 1(3,4,5) True Cons t by simp
      then show ?thesis using True c c1 Cons t by (simp add: etchurl_unescape_loop.simps [of buf p])
    next
      case False
      let ?n = "new[q := unplus c]"
      have q: "q < length new" using 1(5) Cons by simp
      have "etchurl_unescape_loop buf (p + 1) ?n (q + 1)
          = Some (take (q + 1) ?n @ drop_escapes t @ drop (q + 1 + length (drop_escapes t)) ?n)"
        using 1(1) [rule_format, of t "p + 1" "q + 1" ?n] c(2) 1(3,4,5) False Cons by simp
      moreover have "take (q + 1) ?n = take q new @ [unplus c]" using q by (simp add: take_Suc_conv_app_nth)
      ultimately show ?thesis using False c Cons q
        by (simp add: etchurl_unescape_loop.simps [of buf p] poke_def unplus_def [symmetric])
    qed
  qed
qed

text \<open>The loop at the end of the block.\<close>

lemma unescape_loop_bad:
  assumes "drop p buf = s @ [0]" and "0 \<notin> set s" and "percent_at_end s"
  shows "etchurl_unescape_loop buf p new q = None"
  using assms
proof (induction s arbitrary: p q new rule: length_induct)
  case (1 s)
  then obtain c t where s: "s = c # t" by (cases s) auto
  have c: "peek buf p = Some c" "drop (p + 1) buf = t @ [0]" "c \<noteq> 0"
    using peek_drop [of p buf c "t @ [0]"] 1(2,3) s by auto
  show ?case
  proof (cases "c = wch (CHR ''%'')")
    case True
    show ?thesis
    proof (cases t)
      case Nil
      have "peek buf (p + 1) = Some 0" "drop (p + 2) buf = []"
        using peek_drop [of "p + 1" buf 0 "[]"] c(2) Nil by (auto simp: numeral_2_eq_2)
      moreover from this(2) have "peek buf (p + 2) = None" by (simp add: peek_def)
      ultimately show ?thesis using True c by (simp add: etchurl_unescape_loop.simps [of buf p])
    next
      case (Cons c1 t')
      have c1: "peek buf (p + 1) = Some c1" "drop (p + 2) buf = t' @ [0]" "c1 \<noteq> 0"
        using peek_drop [of "p + 1" buf c1 "t' @ [0]"] c(2) 1(3) s Cons by (auto simp: numeral_2_eq_2)
      have "etchurl_unescape_loop buf (p + 2) new q = None"
        using 1(1) [rule_format, of t' "p + 2" new q] c1(2) 1(3,4) True s Cons by simp
      then show ?thesis using True c c1 by (simp add: etchurl_unescape_loop.simps [of buf p])
    qed
  next
    case False
    have "etchurl_unescape_loop buf (p + 1) n' (q + 1) = None" for n'
      using 1(1) [rule_format, of t "p + 1" n' "q + 1"] c(2) 1(3,4) False s by simp
    then show ?thesis using False c
      by (simp add: etchurl_unescape_loop.simps [of buf p] split: option.splits)
  qed
qed

lemma unescape_good:
  assumes "str_at buf p = Some s" and "\<not> percent_at_end s"
  shows "etchurl_unescape buf p
    = Some (drop_escapes s @ replicate (length s + 1 - length (drop_escapes s)) 0)"
proof -
  from assms(1) obtain r where "0 \<notin> set s" "drop p buf = s @ 0 # r" by (auto simp: str_at_iff)
  from unescape_loop_good [OF this(2,1) assms(2), of 0 "replicate (length s + 1) 0"]
  show ?thesis using wcslen_str [OF assms(1)] by (simp add: etchurl_unescape_def del: replicate_Suc)
qed

lemma unescape_plain:
  "str_at buf p = Some s \<Longrightarrow> wch (CHR ''%'') \<notin> set s \<Longrightarrow> etchurl_unescape buf p = Some (map unplus s @ [0])"
  using unescape_good [of buf p s] drop_escapes_plain [of s] by simp


text \<open>What an escape stands for: two digits give a character.\<close>

definition hex_digit :: "wchar \<Rightarrow> bool" where
  "hex_digit c \<longleftrightarrow> 48 \<le> c \<and> c \<le> 57 \<or> 97 \<le> c \<and> c \<le> 102 \<or> 65 \<le> c \<and> c \<le> 70"

fun decode :: "wchar list \<Rightarrow> wchar list" where
  "decode (c # h1 # h2 # s) =
     (if c = wch (CHR ''%'') then (push_bit 4 (hexwchar_to_int h1) OR hexwchar_to_int h2) # decode s
      else unplus c # decode (h1 # h2 # s))"
| "decode s = map unplus s"

definition escape_of :: "wchar \<Rightarrow> wchar \<Rightarrow> wchar list" where
  "escape_of h1 h2 = [wch (CHR ''%''), h1, h2]"

definition hex_digits :: "wchar list" where
  "hex_digits = [48, 49, 50, 51, 52, 53, 54, 55, 56, 57, 97, 98, 99, 100, 101, 102, 65, 66, 67, 68, 69, 70]"

lemma hex_digit_list: "hex_digit c \<longleftrightarrow> c \<in> set hex_digits"
proof -
  have "inj (unat :: wchar \<Rightarrow> nat)" by (rule injI) (simp add: word_unat_eq_iff)
  from inj_image_mem_iff [OF this] have "c \<in> set hex_digits \<longleftrightarrow> unat c \<in> unat ` set hex_digits" by simp
  also have "\<dots> \<longleftrightarrow> unat c \<in> {48..57} \<union> {97..102} \<union> {65..70}" by (simp add: hex_digits_def) presburger
  also have "\<dots> \<longleftrightarrow> hex_digit c" by (simp add: hex_digit_def word_le_nat_alt)
  finally show ?thesis by simp
qed

lemma escape_table:
  "\<forall>h1 \<in> set hex_digits. \<forall>h2 \<in> set hex_digits.
     decode [wch (CHR ''%''), h1, h2] = [h2] \<longleftrightarrow> h1 = 51 \<and> 48 \<le> h2 \<and> h2 \<le> 57"
  by code_simp

text \<open>
  A string without percent signs is copied with its plus signs turned into blanks.  An escape of two
  hexadecimal digits becomes its second digit, so that it is read right only from \<open>%30\<close> to \<open>%39\<close>.  When the
  last percent sign of a string that ends its block has nothing behind it, the function reads behind the block.
\<close>

theorem unescape_reads_no_escape:
  assumes "0 \<notin> set s"
  shows "(wch (CHR ''%'') \<notin> set s \<longrightarrow> etchurl_unescape (s @ [0]) 0 = Some (map unplus s @ [0]))
    \<and> (hex_digit h1 \<and> hex_digit h2 \<longrightarrow>
        etchurl_unescape (escape_of h1 h2 @ [0]) 0 = Some [h2, 0, 0, 0]
        \<and> (decode (escape_of h1 h2) = [h2] \<longleftrightarrow> h1 = 51 \<and> 48 \<le> h2 \<and> h2 \<le> 57))
    \<and> (percent_at_end s \<longrightarrow> etchurl_unescape (s @ [0]) 0 = None)"
proof (intro conjI impI)
  have at: "str_at (t @ [0]) 0 = Some t" if "0 \<notin> set t" for t using that str_at_self [of t "[]"] by simp
  show "etchurl_unescape (s @ [0]) 0 = Some (map unplus s @ [0])" if "wch (CHR ''%'') \<notin> set s"
    using unescape_plain [OF at [OF assms] that] .
  show "etchurl_unescape (s @ [0]) 0 = None" if "percent_at_end s"
    using unescape_loop_bad [of 0 "s @ [0]" s] wcslen_str [OF at [OF assms]] assms that by (simp add: etchurl_unescape_def)
  assume h: "hex_digit h1 \<and> hex_digit h2"
  then have z: "0 \<notin> set (escape_of h1 h2)" "h2 \<noteq> 37" "h2 \<noteq> 43"
    by (auto simp: escape_of_def wch_simps hex_digit_def)
  show "etchurl_unescape (escape_of h1 h2 @ [0]) 0 = Some [h2, 0, 0, 0]"
    using unescape_good [OF at [OF z(1)]] z(2,3) by (simp add: escape_of_def wch_simps unplus_def numeral_eq_Suc)
  show "decode (escape_of h1 h2) = [h2] \<longleftrightarrow> h1 = 51 \<and> 48 \<le> h2 \<and> h2 \<le> 57"
    using escape_table h by (simp add: escape_of_def hex_digit_list)
qed


section \<open>A name that ends in a percent sign\<close>

lemma unescape_loop_step:
  assumes "drop p buf = c # s" and "c \<noteq> 0" and "c \<noteq> 37"
  shows "etchurl_unescape_loop buf p new q
    = (if q < length new then etchurl_unescape_loop buf (p + 1) (new[q := unplus c]) (q + 1) else None)"
  using peek_drop [OF assms(1)] assms(2,3)
  by (simp add: etchurl_unescape_loop.simps [of buf p] poke_def unplus_def wch_simps)

lemma unescape_loop_prefix:
  assumes "drop p buf = s @ r" and "0 \<notin> set s" and "37 \<notin> set s" and "q + length s \<le> length new"
  shows "\<exists>new'. length new' = length new
    \<and> etchurl_unescape_loop buf p new q = etchurl_unescape_loop buf (p + length s) new' (q + length s)"
  using assms
proof (induction s arbitrary: p q new)
  case (Cons c s)
  have d: "drop p buf = c # (s @ r)" using Cons.prems(1) by simp
  have "etchurl_unescape_loop buf p new q = etchurl_unescape_loop buf (p + 1) (new[q := unplus c]) (q + 1)"
    using unescape_loop_step [OF d, of new q] Cons.prems by auto
  moreover have "\<exists>new'. length new' = length (new[q := unplus c])
      \<and> etchurl_unescape_loop buf (p + 1) (new[q := unplus c]) (q + 1)
        = etchurl_unescape_loop buf (p + 1 + length s) new' (q + 1 + length s)"
    using Cons.IH [of "p + 1" "q + 1" "new[q := unplus c]"] conjunct2 [OF peek_drop [OF d]] Cons.prems by simp
  ultimately show ?case by auto
qed auto

lemma unescape_loop_overflow:
  assumes "drop p buf = s @ r" and "0 \<notin> set s" and "37 \<notin> set s" and "q \<le> length new" and "length new < q + length s"
  shows "etchurl_unescape_loop buf p new q = None"
  using assms
proof (induction s arbitrary: p q new)
  case (Cons c s)
  have d: "drop p buf = c # (s @ r)" using Cons.prems(1) by simp
  have "etchurl_unescape_loop buf (p + 1) (new[q := unplus c]) (q + 1) = None" if "q < length new"
    using Cons.IH [of "p + 1" "q + 1" "new[q := unplus c]"] conjunct2 [OF peek_drop [OF d]] Cons.prems that by simp
  then show ?case using unescape_loop_step [OF d, of new q] Cons.prems by simp
qed simp



lemma unescape_reads_no_escape_witness:
  "etchurl_unescape (wstr ''a+b'' @ [0]) 0 = Some (wstr ''a b'' @ [0])
   \<and> etchurl_unescape (escape_of 52 49 @ [0]) 0 = Some [49, 0, 0, 0] \<and> etchurl_unescape (wstr ''ab%'' @ [0]) 0 = None"
  using unescape_reads_no_escape [of "wstr ''a+b''" 52 49] unescape_reads_no_escape [of "wstr ''ab%''" 52 49]
  by (simp add: wstr_def wch_def unplus_def hex_digit_def)

end
