(* ===== verification/ThreadPool.thy ===== *)
theory ThreadPool
  imports Prelude
begin

text \<open>
  The thread pool of \<open>src/main/apr/etch_threadpool_apr.c\<close>: tasks by priority and by time, and the worker
  threads.

  \<^item> A task and an element of the thread lists have a number, their address; \<open>tp_task\<close> and \<open>tp_elt\<close> are the
    memory.  An \<open>APR_RING\<close> is the list of its elements, \<open>None\<close> stands for its sentinel.
  \<^item> The priority and the time of a task share a word, on a little-endian machine.
  \<^item> Everything under the lock of the pool is one step.  The time is an argument, and so is whether a thread
    can be created.  Memory is never exhausted; no \<open>size_t\<close> wraps around.
\<close>

section \<open>Data\<close>

record 'w pool_task =
  tk_work :: 'w
  tk_owner :: "nat option"
  tk_dispatch :: int64

datatype thread_state = TH_RUN | TH_STOP | TH_PROBATION

record thread_elt =
  el_thd :: nat
  el_current_owner :: "nat option"
  el_state :: thread_state

record 'w thread_pool =
  tp_thd_max :: nat
  tp_idle_max :: nat
  tp_idle_wait :: int64
  tp_thd_cnt :: nat
  tp_idle_cnt :: nat
  tp_task_cnt :: nat
  tp_scheduled_task_cnt :: nat
  tp_threshold :: nat
  tp_tasks_run :: nat
  tp_tasks_high :: nat
  tp_thd_high :: nat
  tp_thd_timed_out :: nat
  tp_tasks :: "nat list"
  tp_scheduled_tasks :: "nat list"
  tp_busy_thds :: "nat list"
  tp_idle_thds :: "nat list"
  tp_terminated :: bool
  tp_recycled_tasks :: "nat list"
  tp_recycled_thds :: "nat list"
  tp_task_idx :: "nat option list"
  tp_task :: "nat \<Rightarrow> 'w pool_task"
  tp_elt :: "nat \<Rightarrow> thread_elt"
  tp_task_brk :: nat
  tp_elt_brk :: nat

definition TASK_PRIORITY_SEGS :: nat where "TASK_PRIORITY_SEGS = 4"

definition tk_priority :: "'w pool_task \<Rightarrow> byte" where
  "tk_priority t = ucast (tk_dispatch t)"

definition set_priority :: "byte \<Rightarrow> int64 \<Rightarrow> int64" where
  "set_priority p d = (d AND NOT 255) OR ucast p"

definition priority_seg :: "byte \<Rightarrow> nat" where
  "priority_seg p = unat p div 64"

definition task_priority :: "'w thread_pool \<Rightarrow> nat \<Rightarrow> byte" where
  "task_priority me t = tk_priority (tp_task me t)"

definition TASK_PRIORITY_SEG :: "'w thread_pool \<Rightarrow> nat \<Rightarrow> nat" where
  "TASK_PRIORITY_SEG me t = priority_seg (task_priority me t)"

definition task_time :: "'w thread_pool \<Rightarrow> nat \<Rightarrow> int64" where
  "task_time me t = tk_dispatch (tp_task me t)"

section \<open>Rings\<close>

fun ring_next :: "nat list \<Rightarrow> nat \<Rightarrow> nat option" where
  "ring_next [] x = None"
| "ring_next (a # r) x = (if a = x then (case r of [] \<Rightarrow> None | b # _ \<Rightarrow> Some b) else ring_next r x)"

fun ring_insert_before :: "nat option \<Rightarrow> nat \<Rightarrow> nat list \<Rightarrow> nat list" where
  "ring_insert_before loc x [] = [x]"
| "ring_insert_before loc x (a # r) = (if loc = Some a then x # a # r else a # ring_insert_before loc x r)"

definition ring_from :: "nat list \<Rightarrow> nat \<Rightarrow> nat list" where
  "ring_from r x = dropWhile (\<lambda>y. y \<noteq> x) r"

section \<open>Construction\<close>

definition thread_pool_construct :: "nat \<Rightarrow> nat \<Rightarrow> 'w thread_pool" where
  "thread_pool_construct init_threads max_threads =
     \<lparr>tp_thd_max = max_threads, tp_idle_max = init_threads, tp_idle_wait = 0, tp_thd_cnt = 0, tp_idle_cnt = 0,
      tp_task_cnt = 0, tp_scheduled_task_cnt = 0, tp_threshold = init_threads div 2, tp_tasks_run = 0,
      tp_tasks_high = 0, tp_thd_high = 0, tp_thd_timed_out = 0, tp_tasks = [], tp_scheduled_tasks = [],
      tp_busy_thds = [], tp_idle_thds = [], tp_terminated = False, tp_recycled_tasks = [], tp_recycled_thds = [],
      tp_task_idx = replicate TASK_PRIORITY_SEGS None, tp_task = \<lambda>_. undefined, tp_elt = \<lambda>_. undefined,
      tp_task_brk = 0, tp_elt_brk = 0\<rparr>"

section \<open>The queue of tasks\<close>

text \<open>Taking a task out of the ring: the index of its segment moves to the next one, if it is of the segment.\<close>

definition unlink_task :: "'w thread_pool \<Rightarrow> nat \<Rightarrow> 'w thread_pool" where
  "unlink_task me task =
     (let seg = TASK_PRIORITY_SEG me task;
          idx = (if tp_task_idx me ! seg = Some task
                 then (tp_task_idx me)[seg :=
                        (case ring_next (tp_tasks me) task of
                           None \<Rightarrow> None
                         | Some n \<Rightarrow> if TASK_PRIORITY_SEG me n \<noteq> seg then None else Some n)]
                 else tp_task_idx me)
      in me\<lparr>tp_task_cnt := tp_task_cnt me - 1, tp_task_idx := idx, tp_tasks := remove1 task (tp_tasks me)\<rparr>)"

definition pop_task :: "int64 \<Rightarrow> 'w thread_pool \<Rightarrow> nat option \<times> 'w thread_pool" where
  "pop_task now me =
     (case (if tp_scheduled_task_cnt me > 0 then tp_scheduled_tasks me else []) of
        task # rest \<Rightarrow>
          if task_time me task \<le>s now
          then (Some task, me\<lparr>tp_scheduled_task_cnt := tp_scheduled_task_cnt me - 1, tp_scheduled_tasks := rest\<rparr>)
          else if tp_task_cnt me = 0 then (None, me)
          else (Some (hd (tp_tasks me)), unlink_task me (hd (tp_tasks me)))
      | [] \<Rightarrow>
          if tp_task_cnt me = 0 then (None, me)
          else (Some (hd (tp_tasks me)), unlink_task me (hd (tp_tasks me))))"

definition waiting_time :: "int64 \<Rightarrow> 'w thread_pool \<Rightarrow> int64" where
  "waiting_time now me = task_time me (hd (tp_scheduled_tasks me)) - now"

text \<open>The memory of a task: a recycled one or a new one, which is zero.\<close>

definition task_new ::
  "int64 \<Rightarrow> 'w thread_pool \<Rightarrow> 'w \<Rightarrow> byte \<Rightarrow> nat option \<Rightarrow> int64 \<Rightarrow> nat \<times> 'w thread_pool" where
  "task_new now me work priority owner time =
     (case tp_recycled_tasks me of
        [] \<Rightarrow>
          (let t = tp_task_brk me
           in (t, me\<lparr>tp_task_brk := t + 1,
                     tp_task := (tp_task me)(t := \<lparr>tk_work = work, tk_owner = owner,
                       tk_dispatch = (if 0 <s time then now + time else set_priority priority 0)\<rparr>)\<rparr>))
      | t # rest \<Rightarrow>
          (t, me\<lparr>tp_recycled_tasks := rest,
                 tp_task := (tp_task me)(t := \<lparr>tk_work = work, tk_owner = owner,
                   tk_dispatch = (if 0 <s time then now + time
                                  else set_priority priority (tk_dispatch (tp_task me t)))\<rparr>)\<rparr>))"

fun first_not_above :: "'w thread_pool \<Rightarrow> byte \<Rightarrow> nat list \<Rightarrow> nat option" where
  "first_not_above me p [] = None"
| "first_not_above me p (t_next # r) = (if task_priority me t_next > p then first_not_above me p r else Some t_next)"

fun lower_segment :: "nat option list \<Rightarrow> nat \<Rightarrow> nat option" where
  "lower_segment idx 0 = None"
| "lower_segment idx (Suc next) = (case idx ! next of Some t \<Rightarrow> Some t | None \<Rightarrow> lower_segment idx next)"

text \<open>\<open>Inl\<close>: the task was added.  \<open>Inr\<close>: the first task of the same or a lower priority, \<open>None\<close> the sentinel.\<close>

definition add_if_empty :: "'w thread_pool \<Rightarrow> nat \<Rightarrow> 'w thread_pool + nat option" where
  "add_if_empty me t =
     (let seg = TASK_PRIORITY_SEG me t
      in case tp_task_idx me ! seg of
           Some i \<Rightarrow> Inr (first_not_above me (task_priority me t) (ring_from (tp_tasks me) i))
         | None \<Rightarrow>
             Inl (me\<lparr>tp_tasks := ring_insert_before (lower_segment (tp_task_idx me) seg) t (tp_tasks me),
                     tp_task_idx := (tp_task_idx me)[seg := Some t]\<rparr>))"

fun first_below :: "'w thread_pool \<Rightarrow> byte \<Rightarrow> nat list \<Rightarrow> nat option" where
  "first_below me p [] = None"
| "first_below me p (t_loc # r) = (if task_priority me t_loc \<ge> p then first_below me p r else Some t_loc)"

definition link_task :: "'w thread_pool \<Rightarrow> nat \<Rightarrow> bool \<Rightarrow> 'w thread_pool" where
  "link_task me t push =
     (case add_if_empty me t of
        Inl me \<Rightarrow> me
      | Inr t_loc \<Rightarrow>
          let t_loc = (if push then (case t_loc of None \<Rightarrow> None
                                     | Some i \<Rightarrow> first_below me (task_priority me t) (ring_from (tp_tasks me) i))
                       else t_loc);
              seg = TASK_PRIORITY_SEG me t;
              me = me\<lparr>tp_tasks := ring_insert_before t_loc t (tp_tasks me)\<rparr>
          in if \<not> push \<and> t_loc \<noteq> None \<and> t_loc = tp_task_idx me ! seg
             then me\<lparr>tp_task_idx := (tp_task_idx me)[seg := Some t]\<rparr> else me)"

text \<open>A thread that is created is counted; \<open>create\<close> is the result of \<open>apr_thread_create\<close>.\<close>

definition count_thread :: "apr_status \<Rightarrow> 'w thread_pool \<Rightarrow> 'w thread_pool" where
  "count_thread create me =
     (if create = APR_SUCCESS
      then let me = me\<lparr>tp_thd_cnt := tp_thd_cnt me + 1\<rparr>
           in me\<lparr>tp_thd_high := (if tp_thd_cnt me > tp_thd_high me then tp_thd_cnt me else tp_thd_high me)\<rparr>
      else me)"

text \<open>The result, whether a thread was created, and the pool.\<close>

definition add_task ::
  "apr_status \<Rightarrow> int64 \<Rightarrow> 'w thread_pool \<Rightarrow> 'w \<Rightarrow> byte \<Rightarrow> bool \<Rightarrow> nat option \<Rightarrow> apr_status \<times> bool \<times> 'w thread_pool" where
  "add_task create now me work priority push owner =
     (let (t, me) = task_new now me work priority owner 0;
          me = link_task me t push;
          me = me\<lparr>tp_task_cnt := tp_task_cnt me + 1\<rparr>;
          me = me\<lparr>tp_tasks_high := (if tp_task_cnt me > tp_tasks_high me then tp_task_cnt me else tp_tasks_high me)\<rparr>
      in if tp_thd_cnt me = 0
            \<or> tp_idle_cnt me = 0 \<and> tp_thd_cnt me < tp_thd_max me \<and> tp_task_cnt me > tp_threshold me
         then (create, create = APR_SUCCESS, count_thread create me)
         else (APR_SUCCESS, False, me))"

definition etch_apr_thread_pool_push where
  "etch_apr_thread_pool_push create now me work priority owner = add_task create now me work priority True owner"

definition etch_apr_thread_pool_top where
  "etch_apr_thread_pool_top create now me work priority owner = add_task create now me work priority False owner"

text \<open>
  The place of a scheduled task.  In an empty ring the first comparison reads the time of the sentinel, memory
  that is no task: \<open>stray\<close>.
\<close>

fun schedule_place :: "int64 \<Rightarrow> 'w thread_pool \<Rightarrow> int64 \<Rightarrow> nat list \<Rightarrow> nat option" where
  "schedule_place stray me time [] = None"
| "schedule_place stray me time (t_loc # r) =
     (if time <s task_time me t_loc then Some t_loc else schedule_place stray me time r)"

definition schedule_link :: "int64 \<Rightarrow> 'w thread_pool \<Rightarrow> nat \<Rightarrow> 'w thread_pool" where
  "schedule_link stray me t =
     (case tp_scheduled_tasks me of
        [] \<Rightarrow>
          if task_time me t <s stray
          then me\<lparr>tp_scheduled_task_cnt := tp_scheduled_task_cnt me + 1,
                  tp_scheduled_tasks := ring_insert_before None t (tp_scheduled_tasks me)\<rparr>
          else me\<lparr>tp_scheduled_task_cnt := tp_scheduled_task_cnt me + 1,
                  tp_scheduled_tasks := tp_scheduled_tasks me @ [t]\<rparr>
      | _ \<Rightarrow>
          me\<lparr>tp_scheduled_task_cnt := tp_scheduled_task_cnt me + 1,
             tp_scheduled_tasks :=
               ring_insert_before (schedule_place stray me (task_time me t) (tp_scheduled_tasks me)) t
                 (tp_scheduled_tasks me)\<rparr>)"

definition schedule_task ::
  "apr_status \<Rightarrow> int64 \<Rightarrow> int64 \<Rightarrow> 'w thread_pool \<Rightarrow> 'w \<Rightarrow> nat option \<Rightarrow> int64 \<Rightarrow> apr_status \<times> bool \<times> 'w thread_pool" where
  "schedule_task create stray now me work owner time =
     (let (t, me) = task_new now me work 0 owner time;
          me = schedule_link stray me t
      in if tp_thd_cnt me = 0 then (create, create = APR_SUCCESS, count_thread create me)
         else (APR_SUCCESS, False, me))"

definition etch_apr_thread_pool_schedule where
  "etch_apr_thread_pool_schedule create stray now me work time owner = schedule_task create stray now me work owner time"

section \<open>Cancelling\<close>

definition remove_scheduled_tasks :: "nat option \<Rightarrow> 'w thread_pool \<Rightarrow> 'w thread_pool" where
  "remove_scheduled_tasks owner me =
     fold (\<lambda>t_loc me. if tk_owner (tp_task me t_loc) = owner
            then me\<lparr>tp_scheduled_task_cnt := tp_scheduled_task_cnt me - 1,
                    tp_scheduled_tasks := remove1 t_loc (tp_scheduled_tasks me)\<rparr>
            else me)
       (tp_scheduled_tasks me) me"

definition remove_tasks :: "nat option \<Rightarrow> 'w thread_pool \<Rightarrow> 'w thread_pool" where
  "remove_tasks owner me =
     fold (\<lambda>t_loc me. if tk_owner (tp_task me t_loc) = owner then unlink_task me t_loc else me) (tp_tasks me) me"

text \<open>The part under the lock; then the caller waits until no busy thread works for the owner.\<close>

definition cancel_tasks :: "nat option \<Rightarrow> 'w thread_pool \<Rightarrow> 'w thread_pool" where
  "cancel_tasks owner me =
     (let me = (if tp_task_cnt me > 0 then remove_tasks owner me else me)
      in if tp_scheduled_task_cnt me > 0 then remove_scheduled_tasks owner me else me)"

definition owner_busy :: "nat option \<Rightarrow> 'w thread_pool \<Rightarrow> bool" where
  "owner_busy owner me \<longleftrightarrow> (\<exists>e \<in> set (tp_busy_thds me). el_current_owner (tp_elt me e) = owner)"

section \<open>The worker thread\<close>

text \<open>Where a worker is while it does not hold the lock.\<close>

datatype worker =
    Starting
  | Working nat nat
  | Going_idle nat int64
  | Waiting nat int64
  | Awake nat
  | Finished

definition elt_new :: "'w thread_pool \<Rightarrow> nat \<Rightarrow> nat \<times> 'w thread_pool" where
  "elt_new me t =
     (let elt = \<lparr>el_thd = t, el_current_owner = None, el_state = TH_RUN\<rparr>
      in case tp_recycled_thds me of
           [] \<Rightarrow> (tp_elt_brk me, me\<lparr>tp_elt_brk := tp_elt_brk me + 1, tp_elt := (tp_elt me)(tp_elt_brk me := elt)\<rparr>)
         | e # rest \<Rightarrow> (e, me\<lparr>tp_recycled_thds := rest, tp_elt := (tp_elt me)(e := elt)\<rparr>))"

text \<open>
  A busy thread without a task: it ends, detached, or becomes idle.  The clock is read once when a task is taken
  out of the queue and once more, \<open>later\<close>, for the time to wait.
\<close>

definition worker_rest :: "int64 \<Rightarrow> 'w thread_pool \<Rightarrow> nat \<Rightarrow> 'w thread_pool \<times> worker" where
  "worker_rest later me elt =
     (let me = (if el_state (tp_elt me elt) \<noteq> TH_STOP
                then me\<lparr>tp_busy_thds := remove1 elt (tp_busy_thds me)\<rparr> else me)
      in if tp_idle_cnt me \<ge> tp_idle_max me \<and> \<not> (tp_scheduled_task_cnt me \<noteq> 0 \<and> 0 \<ge> tp_idle_max me)
              \<and> tp_idle_wait me = 0
            \<or> tp_terminated me \<or> el_state (tp_elt me elt) \<noteq> TH_RUN
         then (me\<lparr>tp_thd_cnt := tp_thd_cnt me - 1,
                  tp_thd_timed_out := (if el_state (tp_elt me elt) = TH_PROBATION \<and> tp_idle_wait me \<noteq> 0
                                       then tp_thd_timed_out me + 1 else tp_thd_timed_out me),
                  tp_recycled_thds := tp_recycled_thds me @ [elt]\<rparr>, Finished)
         else let me = me\<lparr>tp_idle_cnt := tp_idle_cnt me + 1, tp_idle_thds := tp_idle_thds me @ [elt]\<rparr>
              in if tp_scheduled_task_cnt me \<noteq> 0 then (me, Going_idle elt (waiting_time later me))
                 else if tp_idle_cnt me > tp_idle_max me
                 then (me\<lparr>tp_elt := (tp_elt me)(elt := (tp_elt me elt)\<lparr>el_state := TH_PROBATION\<rparr>)\<rparr>,
                       Going_idle elt (tp_idle_wait me))
                 else (me, Going_idle elt (- 1)))"

text \<open>With the task that was taken out of the queue.\<close>

definition worker_run :: "int64 \<Rightarrow> 'w thread_pool \<Rightarrow> nat \<Rightarrow> nat option \<Rightarrow> 'w thread_pool \<times> worker" where
  "worker_run later me elt task =
     (case task of
        Some t \<Rightarrow>
          if \<not> tp_terminated me
          then (me\<lparr>tp_tasks_run := tp_tasks_run me + 1,
                   tp_elt := (tp_elt me)(elt := (tp_elt me elt)\<lparr>el_current_owner := tk_owner (tp_task me t)\<rparr>)\<rparr>,
                Working elt t)
          else worker_rest later me elt
      | None \<Rightarrow> worker_rest later me elt)"

text \<open>The head of the loop; an element that is in a ring comes from the idle threads.\<close>

definition worker_loop :: "int64 \<Rightarrow> int64 \<Rightarrow> 'w thread_pool \<Rightarrow> nat \<Rightarrow> 'w thread_pool \<times> worker" where
  "worker_loop now later me elt =
     (if \<not> tp_terminated me \<and> el_state (tp_elt me elt) \<noteq> TH_STOP
      then let me = (if elt \<in> set (tp_idle_thds me)
                     then me\<lparr>tp_idle_cnt := tp_idle_cnt me - 1, tp_idle_thds := remove1 elt (tp_idle_thds me)\<rparr>
                     else me);
               me = me\<lparr>tp_busy_thds := tp_busy_thds me @ [elt]\<rparr>;
               (task, me) = pop_task now me
           in worker_run later me elt task
      else (me\<lparr>tp_thd_cnt := tp_thd_cnt me - 1\<rparr>, Finished))"

definition thread_pool_func :: "int64 \<Rightarrow> int64 \<Rightarrow> 'w thread_pool \<Rightarrow> nat \<Rightarrow> 'w thread_pool \<times> worker" where
  "thread_pool_func now later me t = (let (elt, me) = elt_new me t in worker_loop now later me elt)"

text \<open>After the task.\<close>

definition worker_done :: "int64 \<Rightarrow> int64 \<Rightarrow> 'w thread_pool \<Rightarrow> nat \<Rightarrow> nat \<Rightarrow> 'w thread_pool \<times> worker" where
  "worker_done now later me elt task =
     (let me = me\<lparr>tp_recycled_tasks := tp_recycled_tasks me @ [task],
                  tp_elt := (tp_elt me)(elt := (tp_elt me elt)\<lparr>el_current_owner := None\<rparr>)\<rparr>
      in if el_state (tp_elt me elt) = TH_STOP then worker_rest later me elt
         else let (task, me) = pop_task now me in worker_run later me elt task)"

section \<open>Stopping idle threads\<close>

text \<open>The elements that are stopped, which leave the ring of the idle threads.\<close>

definition trim_idle :: "nat \<Rightarrow> 'w thread_pool \<Rightarrow> nat list \<times> 'w thread_pool" where
  "trim_idle cnt me =
     (if tp_idle_cnt me \<le> cnt then ([], me)
      else let stopped = drop cnt (tp_idle_thds me)
           in (stopped,
               me\<lparr>tp_idle_thds := take cnt (tp_idle_thds me), tp_idle_cnt := cnt,
                  tp_elt := (\<lambda>e. if e \<in> set stopped then (tp_elt me e)\<lparr>el_state := TH_STOP\<rparr> else tp_elt me e)\<rparr>))"

definition etch_apr_thread_pool_idle_max_set :: "nat \<Rightarrow> 'w thread_pool \<Rightarrow> nat list \<times> 'w thread_pool" where
  "etch_apr_thread_pool_idle_max_set cnt me = trim_idle cnt (me\<lparr>tp_idle_max := cnt\<rparr>)"

definition thread_pool_cleanup :: "'w thread_pool \<Rightarrow> nat list \<times> 'w thread_pool" where
  "thread_pool_cleanup me = etch_apr_thread_pool_idle_max_set 0 (me\<lparr>tp_terminated := True\<rparr>)"

text \<open>Joined threads give their elements back.\<close>

definition recycle_thds :: "nat list \<Rightarrow> 'w thread_pool \<Rightarrow> 'w thread_pool" where
  "recycle_thds elts me = me\<lparr>tp_recycled_thds := tp_recycled_thds me @ elts\<rparr>"

text \<open>
  Busy threads are marked only.  The two links that \<open>trim_threads\<close> sets to null, those of the first and of the
  last element it marks, are not modelled: a busy element stays in the ring.
\<close>

definition trim_busy_threads :: "nat \<Rightarrow> 'w thread_pool \<Rightarrow> nat list \<times> 'w thread_pool" where
  "trim_busy_threads cnt me =
     (if tp_thd_cnt me - tp_idle_cnt me \<le> cnt then ([], me)
      else let stopped = drop cnt (tp_busy_thds me)
           in (stopped,
               me\<lparr>tp_elt := (\<lambda>e. if e \<in> set stopped then (tp_elt me e)\<lparr>el_state := TH_STOP\<rparr> else tp_elt me e)\<rparr>))"

text \<open>The result, the busy and the idle threads that are stopped, and the pool.\<close>

definition etch_apr_thread_pool_thread_max_set ::
  "nat \<Rightarrow> 'w thread_pool \<Rightarrow> nat \<times> nat list \<times> nat list \<times> 'w thread_pool" where
  "etch_apr_thread_pool_thread_max_set cnt me =
     (let me = me\<lparr>tp_thd_max := cnt\<rparr>
      in if cnt = 0 \<or> tp_thd_cnt me \<le> cnt then (0, [], [], me)
         else let n = tp_thd_cnt me - cnt
              in if n \<ge> tp_idle_cnt me
                 then let (busy, me) = trim_busy_threads (n - tp_idle_cnt me) me;
                          (idle, me) = trim_idle 0 me
                      in (n, busy, idle, me)
                 else let (idle, me) = trim_idle (tp_idle_cnt me - n) me in (n, [], idle, me))"

section \<open>Reading and setting\<close>

definition etch_apr_thread_pool_tasks_count :: "'w thread_pool \<Rightarrow> nat" where
  "etch_apr_thread_pool_tasks_count me = tp_task_cnt me"

definition etch_apr_thread_pool_scheduled_tasks_count :: "'w thread_pool \<Rightarrow> nat" where
  "etch_apr_thread_pool_scheduled_tasks_count me = tp_scheduled_task_cnt me"

definition etch_apr_thread_pool_threads_count :: "'w thread_pool \<Rightarrow> nat" where
  "etch_apr_thread_pool_threads_count me = tp_thd_cnt me"

definition etch_apr_thread_pool_busy_count :: "'w thread_pool \<Rightarrow> nat" where
  "etch_apr_thread_pool_busy_count me = tp_thd_cnt me - tp_idle_cnt me"

definition etch_apr_thread_pool_idle_count :: "'w thread_pool \<Rightarrow> nat" where
  "etch_apr_thread_pool_idle_count me = tp_idle_cnt me"

definition etch_apr_thread_pool_idle_wait_set :: "int64 \<Rightarrow> 'w thread_pool \<Rightarrow> int64 \<times> 'w thread_pool" where
  "etch_apr_thread_pool_idle_wait_set timeout me = (tp_idle_wait me, me\<lparr>tp_idle_wait := timeout\<rparr>)"

definition etch_apr_thread_pool_threshold_set :: "nat \<Rightarrow> 'w thread_pool \<Rightarrow> nat \<times> 'w thread_pool" where
  "etch_apr_thread_pool_threshold_set val me = (tp_threshold me, me\<lparr>tp_threshold := val\<rparr>)"

end
