(* ===== verification/ThreadPool_Correct.thy ===== *)
theory ThreadPool_Correct
  imports ThreadPool
begin

text \<open>
  The queue of tasks is kept in the order of the priorities by an index with one entry per segment.  The tasks
  with a time are kept in the order of their times.
\<close>

section \<open>Rings\<close>

lemma insert_before_find:
  assumes "distinct xs"
  shows "ring_insert_before (find (\<lambda>x. \<not> P x) xs) t xs = takeWhile P xs @ t # dropWhile P xs"
  using assms
proof (induction xs)
  case (Cons a xs)
  show ?case
  proof (cases "P a")
    case True
    have "find (\<lambda>x. \<not> P x) xs \<noteq> Some a" using Cons.prems by (auto simp: find_Some_iff)
    then show ?thesis using True Cons by simp
  qed simp
qed simp

lemma insert_before_None [simp]: "ring_insert_before None t xs = xs @ [t]"
  by (induction xs) simp_all

lemma ring_next_find:
  assumes "distinct (ys @ t # zs)"
  shows "ring_next (ys @ t # zs) t = (case zs of [] \<Rightarrow> None | b # _ \<Rightarrow> Some b)"
  using assms by (induction ys) (auto split: list.splits)

lemma find_append: "find P (xs @ ys) = (case find P xs of None \<Rightarrow> find P ys | Some x \<Rightarrow> Some x)"
  by (induction xs) auto

section \<open>Priorities\<close>

lemma seg_mono: "a \<le> b \<Longrightarrow> priority_seg a \<le> priority_seg b"
  by (simp add: priority_seg_def word_le_nat_alt div_le_mono)

lemma seg_less: "priority_seg p < TASK_PRIORITY_SEGS"
proof -
  have "unat p < 256" using unsigned_less [of p] by simp
  then show ?thesis by (simp add: priority_seg_def TASK_PRIORITY_SEGS_def)
qed

lemma seg_above: "priority_seg a < priority_seg b \<Longrightarrow> a < b"
  by (metis seg_mono not_le)

text \<open>The queue by priority, with functions of the priorities and of the lists only.\<close>

definition sorted_by :: "(nat \<Rightarrow> byte) \<Rightarrow> nat list \<Rightarrow> bool" where
  "sorted_by pri xs \<longleftrightarrow> sorted_wrt (\<lambda>a b. pri b \<le> pri a) xs"

definition index_ok :: "(nat \<Rightarrow> byte) \<Rightarrow> nat list \<Rightarrow> nat option list \<Rightarrow> bool" where
  "index_ok pri xs idx \<longleftrightarrow> length idx = TASK_PRIORITY_SEGS
     \<and> (\<forall>s < TASK_PRIORITY_SEGS. idx ! s = find (\<lambda>t. priority_seg (pri t) = s) xs)"

lemma sorted_insert:
  assumes "sorted_by pri xs" and "\<And>x. x \<in> set (takeWhile P xs) \<Longrightarrow> pri t \<le> pri x"
    and "\<And>x. x \<in> set (dropWhile P xs) \<Longrightarrow> pri x \<le> pri t"
  shows "sorted_by pri (takeWhile P xs @ t # dropWhile P xs)"
proof -
  have "sorted_wrt (\<lambda>a b. pri b \<le> pri a) (takeWhile P xs @ dropWhile P xs)" using assms(1) by (simp add: sorted_by_def)
  then have "sorted_wrt (\<lambda>a b. pri b \<le> pri a) (takeWhile P xs)" "sorted_wrt (\<lambda>a b. pri b \<le> pri a) (dropWhile P xs)"
    unfolding sorted_wrt_append by blast+
  then show ?thesis using assms(2,3) by (auto simp: sorted_by_def sorted_wrt_append intro: order.trans)
qed

lemma takeWhile_set: "x \<in> set (takeWhile P xs) \<Longrightarrow> P x \<and> x \<in> set xs"
  by (induction xs) (auto split: if_splits)

lemma distinct_insert: "distinct xs \<Longrightarrow> t \<notin> set xs \<Longrightarrow> distinct (takeWhile P xs @ t # dropWhile P xs)"
  by (induction xs) (auto dest: set_takeWhileD set_dropWhileD)

lemma dropWhile_sorted:
  assumes "sorted_by pri xs" and "\<And>a b. pri b \<le> pri a \<Longrightarrow> \<not> P a \<Longrightarrow> \<not> P b"
  shows "x \<in> set (dropWhile P xs) \<Longrightarrow> \<not> P x"
  using assms(1)
proof (induction xs)
  case (Cons a xs)
  then show ?case using assms(2) by (auto simp: sorted_by_def split: if_splits)
qed simp


text \<open>The first task of a segment splits the queue.\<close>

lemma find_split:
  assumes "find P xs = Some i"
  obtains ys zs where "xs = ys @ i # zs" "\<forall>y \<in> set ys. \<not> P y" "P i"
  using assms
proof (induction xs arbitrary: thesis)
  case (Cons a xs)
  show ?case
  proof (cases "P a")
    case True
    then show ?thesis using Cons.prems(1) [of "[]" xs] Cons.prems(2) by simp
  next
    case False
    then obtain ys zs where "xs = ys @ i # zs" "\<forall>y \<in> set ys. \<not> P y" "P i" using Cons by auto
    then show ?thesis using Cons.prems(1) [of "a # ys" zs] False by simp
  qed
qed simp

lemma segment_split:
  assumes "sorted_by pri xs" and "distinct xs" and "find (\<lambda>t. priority_seg (pri t) = seg) xs = Some i"
  shows "\<exists>ys zs. xs = ys @ i # zs \<and> ring_from xs i = i # zs \<and> priority_seg (pri i) = seg
    \<and> (\<forall>y \<in> set ys. seg < priority_seg (pri y) \<and> pri i \<le> pri y) \<and> (\<forall>z \<in> set zs. pri z \<le> pri i)"
proof -
  from find_split [OF assms(3)] obtain ys zs where x: "xs = ys @ i # zs" "\<forall>y \<in> set ys. priority_seg (pri y) \<noteq> seg"
    "priority_seg (pri i) = seg" by blast
  have "\<forall>y \<in> set ys. y \<noteq> i" using assms(2) x(1) by auto
  then have "ring_from xs i = i # zs" by (simp add: x(1) ring_from_def dropWhile_append2)
  moreover have o: "\<forall>y \<in> set ys. pri i \<le> pri y" "\<forall>z \<in> set zs. pri z \<le> pri i"
    using assms(1) x(1) by (auto simp: sorted_by_def sorted_wrt_append)
  moreover have "\<forall>y \<in> set ys. seg < priority_seg (pri y)"
    using o(1) x(2,3) seg_mono by (metis le_neq_implies_less)
  ultimately show ?thesis using x by blast
qed

lemma lower_segment_find:
  assumes "index_ok pri xs idx" and "sorted_by pri xs" and "seg \<le> TASK_PRIORITY_SEGS"
  shows "lower_segment idx seg = find (\<lambda>t. priority_seg (pri t) < seg) xs"
  using assms(3)
proof (induction seg)
  case (Suc n)
  have n: "idx ! n = find (\<lambda>t. priority_seg (pri t) = n) xs" using assms(1) Suc.prems by (simp add: index_ok_def)
  show ?case
  proof (cases "idx ! n")
    case None
    then have "\<forall>t \<in> set xs. priority_seg (pri t) \<noteq> n" using n by (simp add: find_None_iff)
    then have "find (\<lambda>t. priority_seg (pri t) < Suc n) xs = find (\<lambda>t. priority_seg (pri t) < n) xs"
      by (induction xs) (auto simp: less_Suc_eq)
    then show ?thesis using None Suc by simp
  next
    case (Some i)
    then have "find (\<lambda>t. priority_seg (pri t) = n) xs = Some i" using n by simp
    from find_split [OF this] obtain ys zs where
      x: "xs = ys @ i # zs" "\<forall>y \<in> set ys. priority_seg (pri y) \<noteq> n" "priority_seg (pri i) = n" by blast
    have "\<forall>y \<in> set ys. pri i \<le> pri y" using assms(2) x(1) by (simp add: sorted_by_def sorted_wrt_append)
    then have "\<forall>y \<in> set ys. n \<le> priority_seg (pri y)" using x(3) seg_mono by blast
    then have "\<forall>y \<in> set ys. \<not> priority_seg (pri y) < Suc n" using x(2) by (auto simp: less_Suc_eq)
    then have "find (\<lambda>t. priority_seg (pri t) < Suc n) ys = None" by (simp add: find_None_iff)
    then have "find (\<lambda>t. priority_seg (pri t) < Suc n) xs = Some i" using x(1,3) by (simp add: find_append)
    then show ?thesis using Some by simp
  qed
next
  case 0
  have "find (\<lambda>t. False) xs = None" by (simp add: find_None_iff)
  then show ?case by simp
qed

lemma first_not_above_find: "first_not_above me p xs = find (\<lambda>x. \<not> p < task_priority me x) xs"
  by (induction xs) auto

lemma first_below_find: "first_below me p xs = find (\<lambda>x. \<not> p \<le> task_priority me x) xs"
  by (induction xs) auto

text \<open>Inserting into the middle changes the index of the one segment.\<close>

lemma index_insert:
  assumes "index_ok pri (ys @ zs) idx" and "priority_seg (pri t) = seg"
    and "e = (if \<exists>y \<in> set ys. priority_seg (pri y) = seg then idx ! seg else Some t)"
  shows "index_ok pri (ys @ t # zs) (idx[seg := e])"
proof -
  have l: "length idx = TASK_PRIORITY_SEGS" "seg < TASK_PRIORITY_SEGS"
    using assms(1,2) seg_less [of "pri t"] by (auto simp: index_ok_def)
  have "idx[seg := e] ! s = find (\<lambda>x. priority_seg (pri x) = s) (ys @ t # zs)" if s: "s < TASK_PRIORITY_SEGS" for s
  proof (cases "s = seg")
    case True
    show ?thesis
    proof (cases "\<exists>y \<in> set ys. priority_seg (pri y) = seg")
      case yes: True
      then obtain y where "find (\<lambda>x. priority_seg (pri x) = seg) ys = Some y"
        by (metis (mono_tags, lifting) find_None_iff not_None_eq)
      then show ?thesis using True assms l s yes by (simp add: index_ok_def find_append)
    next
      case False
      then have "find (\<lambda>x. priority_seg (pri x) = seg) ys = None" by (simp add: find_None_iff)
      then show ?thesis using True False assms l by (simp add: find_append)
    qed
  next
    case False
    then have zs: "find (\<lambda>x. priority_seg (pri x) = s) (t # zs) = find (\<lambda>x. priority_seg (pri x) = s) zs"
      using assms(2) by simp
    have "find (\<lambda>x. priority_seg (pri x) = s) (ys @ t # zs) = find (\<lambda>x. priority_seg (pri x) = s) (ys @ zs)"
      unfolding find_append zs ..
    then show ?thesis using False assms(1) s by (simp add: index_ok_def)
  qed
  then show ?thesis using l by (simp add: index_ok_def)
qed

section \<open>Adding a task\<close>

definition queue_ok :: "'w thread_pool \<Rightarrow> bool" where
  "queue_ok me \<longleftrightarrow> sorted_by (task_priority me) (tp_tasks me) \<and> distinct (tp_tasks me)
     \<and> index_ok (task_priority me) (tp_tasks me) (tp_task_idx me)"

definition insert_after :: "(nat \<Rightarrow> bool) \<Rightarrow> nat \<Rightarrow> nat list \<Rightarrow> nat list" where
  "insert_after P t xs = takeWhile P xs @ t # dropWhile P xs"

text \<open>The queue by priority: behind the tasks of the same priority, or before them.\<close>

definition by_priority :: "'w thread_pool \<Rightarrow> nat \<Rightarrow> bool \<Rightarrow> nat list \<Rightarrow> nat list" where
  "by_priority me t push xs =
     insert_after (\<lambda>x. if push then task_priority me t \<le> task_priority me x
                       else task_priority me t < task_priority me x) t xs"

text \<open>A push that does not come before the first task of its segment, as when all priorities are the same.\<close>

definition behind_first :: "'w thread_pool \<Rightarrow> nat \<Rightarrow> bool" where
  "behind_first me t \<longleftrightarrow>
     (case tp_task_idx me ! TASK_PRIORITY_SEG me t of None \<Rightarrow> True
      | Some i \<Rightarrow> task_priority me t \<le> task_priority me i)"

lemma sorted_by_priority:
  assumes "sorted_by (task_priority me) xs"
  shows "sorted_by (task_priority me) (by_priority me t push xs)"
  unfolding by_priority_def insert_after_def
proof (rule sorted_insert [OF assms])
  let ?P = "\<lambda>x. if push then task_priority me t \<le> task_priority me x else task_priority me t < task_priority me x"
  fix x
  show "x \<in> set (takeWhile ?P xs) \<Longrightarrow> task_priority me t \<le> task_priority me x"
    using takeWhile_set [of x ?P xs] by (cases push) auto
  assume "x \<in> set (dropWhile ?P xs)"
  then have "\<not> ?P x" using dropWhile_sorted [OF assms, of ?P x] by (cases push) auto
  then show "task_priority me x \<le> task_priority me t" by (cases push) auto
qed


lemma find_skip: "\<forall>y \<in> set ys. \<not> P y \<Longrightarrow> find P (ys @ zs) = find P zs"
  by (induction ys) auto

lemma link_task_spec:
  assumes ok: "queue_ok me" and t: "t \<notin> set (tp_tasks me)" and push: "push \<longrightarrow> behind_first me t"
  shows "link_task me t push = me\<lparr>tp_tasks := by_priority me t push (tp_tasks me), tp_task_idx := tp_task_idx (link_task me t push)\<rparr>
    \<and> queue_ok (link_task me t push)"
proof -
  let ?pri = "task_priority me" and ?xs = "tp_tasks me" and ?idx = "tp_task_idx me"
  let ?p = "?pri t" and ?seg = "TASK_PRIORITY_SEG me t"
  let ?P = "\<lambda>x. if push then ?p \<le> ?pri x else ?p < ?pri x"
  have q: "sorted_by ?pri ?xs" "distinct ?xs" "index_ok ?pri ?xs ?idx" using ok by (simp_all add: queue_ok_def)
  have sg: "priority_seg ?p = ?seg" "?seg < TASK_PRIORITY_SEGS" using seg_less by (simp_all add: TASK_PRIORITY_SEG_def)
  have idx: "?idx ! ?seg = find (\<lambda>x. priority_seg (?pri x) = ?seg) ?xs" "length ?idx = TASK_PRIORITY_SEGS"
    using q(3) sg(2) by (auto simp: index_ok_def)
  have place: "ring_insert_before (find (\<lambda>x. \<not> ?P x) ?xs) t ?xs = by_priority me t push ?xs"
    using insert_before_find [OF q(2), of ?P t] by (simp add: by_priority_def insert_after_def)
  have split: "?xs = takeWhile ?P ?xs @ dropWhile ?P ?xs" by simp
  have tw: "x \<in> set (takeWhile ?P ?xs) \<Longrightarrow> ?P x" for x using takeWhile_set [of x ?P ?xs] by blast
  have dw: "x \<in> set (dropWhile ?P ?xs) \<Longrightarrow> \<not> ?P x" for x using dropWhile_sorted [OF q(1), of ?P x] by (cases push) auto
  define new where "new = me\<lparr>tp_tasks := by_priority me t push ?xs, tp_task_idx := tp_task_idx (link_task me t push)\<rparr>"
  have "link_task me t push = new \<and> (\<exists>e. tp_task_idx (link_task me t push) = ?idx[?seg := e]
      \<and> e = (if \<exists>y \<in> set (takeWhile ?P ?xs). priority_seg (?pri y) = ?seg then ?idx ! ?seg else Some t))"
  proof (cases "?idx ! ?seg")
    case None
    then have none: "\<forall>x \<in> set ?xs. priority_seg (?pri x) \<noteq> ?seg" using idx(1) by (auto simp: find_None_iff)
    have "lower_segment ?idx ?seg = find (\<lambda>x. priority_seg (?pri x) < ?seg) ?xs"
      using lower_segment_find [OF q(3,1)] sg(2) by simp
    also have "\<dots> = find (\<lambda>x. \<not> ?P x) ?xs"
    proof (rule find_cong [OF refl])
      fix x assume x: "x \<in> set ?xs"
      have ne: "priority_seg (?pri x) \<noteq> ?seg" using none x by blast
      then have "?pri x \<noteq> ?p" using sg(1) by auto
      moreover have "priority_seg (?pri x) < ?seg \<longleftrightarrow> ?pri x < ?p"
        using seg_above [of "?pri x" ?p] seg_mono [of "?pri x" ?p] ne sg(1) by (auto simp: le_less)
      ultimately show "(priority_seg (?pri x) < ?seg) = (\<not> ?P x)" by (auto simp: not_le not_less le_less)
    qed
    finally have "link_task me t push = me\<lparr>tp_tasks := by_priority me t push ?xs, tp_task_idx := ?idx[?seg := Some t]\<rparr>"
      using None place by (simp add: link_task_def add_if_empty_def Let_def)
    moreover have "\<not> (\<exists>y \<in> set (takeWhile ?P ?xs). priority_seg (?pri y) = ?seg)" using none set_takeWhileD by fast
    ultimately show ?thesis by (auto simp: new_def)
  next
    case (Some i)
    then have "find (\<lambda>x. priority_seg (?pri x) = ?seg) ?xs = Some i" using idx(1) by simp
    from segment_split [OF q(1,2) this] obtain ys zs where
      x: "?xs = ys @ i # zs" "ring_from ?xs i = i # zs" "priority_seg (?pri i) = ?seg"
        "\<forall>y \<in> set ys. ?seg < priority_seg (?pri y) \<and> ?pri i \<le> ?pri y" by blast
    have above: "\<forall>y \<in> set ys. ?p < ?pri y" using x(4) seg_above [of ?p] sg(1) by simp
    have skip: "find (\<lambda>y. \<not> ?p < ?pri y) (i # zs) = find (\<lambda>y. \<not> ?p < ?pri y) ?xs"
      using find_skip [of ys "\<lambda>y. \<not> ?p < ?pri y" "i # zs"] above x(1) by auto
    have tail: "takeWhile ?P ?xs = ys @ takeWhile ?P (i # zs)" unfolding x(1) using above by (intro takeWhile_append2) auto
    have seg: "(\<exists>y \<in> set (takeWhile ?P ?xs). priority_seg (?pri y) = ?seg) \<longleftrightarrow> ?P i"
    proof (cases "?P i")
      case True
      then have "i \<in> set (takeWhile ?P ?xs)" unfolding tail by simp
      then show ?thesis using True x(3) by blast
    next
      case False
      then have "takeWhile ?P ?xs = ys" unfolding tail by simp
      then show ?thesis using False x(4) by auto
    qed
    show ?thesis
    proof (cases push)
      case False
      have loc: "find (\<lambda>x. \<not> ?P x) ?xs = find (\<lambda>y. \<not> ?p < ?pri y) (i # zs)" using False skip by simp
      have new_idx: "(find (\<lambda>y. \<not> ?p < ?pri y) (i # zs) = Some i) \<longleftrightarrow> \<not> ?P i"
        using False by (cases "?p < ?pri i") (auto simp: find_Some_iff)
      have keep: "?idx[?seg := Some i] = ?idx" using list_update_id [of ?idx ?seg] Some by simp
      show ?thesis using False Some x(2) seg new_idx place loc keep first_not_above_find [of me ?p "i # zs"]
        by (auto simp: link_task_def add_if_empty_def Let_def new_def simp del: first_not_above.simps find.simps)
    next
      case True
      have pi: "?p \<le> ?pri i" using push True Some by (simp add: behind_first_def)
      let ?loc = "find (\<lambda>y. \<not> ?p < ?pri y) (i # zs)"
      have walk: "(case ?loc of None \<Rightarrow> None | Some j \<Rightarrow> first_below me ?p (ring_from ?xs j)) = find (\<lambda>x. \<not> ?P x) ?xs"
      proof (cases ?loc)
        case None
        then have "\<forall>y \<in> set (i # zs). ?p < ?pri y" by (auto simp only: find_None_iff)
        then have "\<forall>x \<in> set ?xs. ?P x" using above True x(1) by auto
        then have "find (\<lambda>x. \<not> ?P x) ?xs = None" by (simp add: find_None_iff)
        then show ?thesis using None by simp
      next
        case (Some j)
        with skip have "find (\<lambda>y. \<not> ?p < ?pri y) ?xs = Some j" by simp
        then obtain as bs where s: "?xs = as @ j # bs" "\<forall>y \<in> set as. \<not> \<not> ?p < ?pri y" by (rule find_split)
        have "\<forall>y \<in> set as. y \<noteq> j" using q(2) s(1) by auto
        then have "ring_from ?xs j = j # bs" by (simp add: s(1) ring_from_def dropWhile_append2)
        moreover have "find (\<lambda>x. \<not> ?P x) ?xs = find (\<lambda>x. \<not> ?P x) (j # bs)"
          unfolding s(1) using True s(2) by (intro find_skip) auto
        ultimately show ?thesis using Some first_below_find [of me ?p "j # bs"] True by simp
      qed
      have "?idx[?seg := ?idx ! ?seg] = ?idx" by (rule list_update_id)
      then show ?thesis using True Some x(2) seg pi place walk first_not_above_find [of me ?p "i # zs"]
        by (simp add: link_task_def add_if_empty_def Let_def new_def del: first_not_above.simps find.simps)
    qed
  qed
  then obtain e where r: "link_task me t push = new" "tp_task_idx new = ?idx[?seg := e]"
    "e = (if \<exists>y \<in> set (takeWhile ?P ?xs). priority_seg (?pri y) = ?seg then ?idx ! ?seg else Some t)" by auto
  have pri: "task_priority new = ?pri" by (simp add: new_def task_priority_def fun_eq_iff)
  have tasks: "tp_tasks new = takeWhile ?P ?xs @ t # dropWhile ?P ?xs"
    by (simp add: new_def by_priority_def insert_after_def)
  have "index_ok ?pri (tp_tasks new) (tp_task_idx new)"
    unfolding tasks r(2) using index_insert [OF _ sg(1) r(3)] q(3) split by simp
  moreover have "distinct (takeWhile ?P ?xs @ t # dropWhile ?P ?xs)" by (rule distinct_insert [OF q(2) t])
  moreover have "sorted_by ?pri (tp_tasks new)" using sorted_by_priority [OF q(1)] by (simp add: new_def)
  ultimately have ok: "queue_ok new" by (simp add: queue_ok_def pri tasks)
  show ?thesis
  proof (rule conjI)
    show "link_task me t push = me\<lparr>tp_tasks := by_priority me t push ?xs, tp_task_idx := tp_task_idx (link_task me t push)\<rparr>"
      using r(1) unfolding new_def .
    show "queue_ok (link_task me t push)" unfolding r(1) by (rule ok)
  qed
qed


section \<open>Taking a task out\<close>

lemma unlink_task_spec:
  assumes ok: "queue_ok me" and t: "t \<in> set (tp_tasks me)"
  shows "unlink_task me t = me\<lparr>tp_tasks := remove1 t (tp_tasks me), tp_task_cnt := tp_task_cnt me - 1,
      tp_task_idx := tp_task_idx (unlink_task me t)\<rparr> \<and> queue_ok (unlink_task me t)"
proof -
  let ?pri = "task_priority me" and ?xs = "tp_tasks me" and ?idx = "tp_task_idx me" and ?seg = "TASK_PRIORITY_SEG me t"
  have q: "sorted_by ?pri ?xs" "distinct ?xs" "index_ok ?pri ?xs ?idx" using ok by (simp_all add: queue_ok_def)
  obtain ys zs where x: "?xs = ys @ t # zs" using t by (meson split_list)
  have d: "t \<notin> set ys" "t \<notin> set zs" using q(2) x by auto
  have r: "remove1 t ?xs = ys @ zs" using d(1) by (simp add: x remove1_append)
  have sg: "priority_seg (?pri t) = ?seg" "?seg < TASK_PRIORITY_SEGS" using seg_less by (simp_all add: TASK_PRIORITY_SEG_def)
  have idx: "length ?idx = TASK_PRIORITY_SEGS" "\<And>s. s < TASK_PRIORITY_SEGS \<Longrightarrow> ?idx ! s = find (\<lambda>x. priority_seg (?pri x) = s) ?xs"
    using q(3) by (auto simp: index_ok_def)
  have nx: "ring_next ?xs t = (case zs of [] \<Rightarrow> None | b # _ \<Rightarrow> Some b)" using ring_next_find q(2) unfolding x by blast
  have below: "\<forall>z \<in> set zs. priority_seg (?pri z) \<le> ?seg"
  proof
    fix z assume "z \<in> set zs"
    then have "?pri z \<le> ?pri t" using q(1) by (simp add: x sorted_by_def sorted_wrt_append)
    from seg_mono [OF this] sg(1) show "priority_seg (?pri z) \<le> ?seg" by simp
  qed
  have next_seg: "find (\<lambda>x. priority_seg (?pri x) = ?seg) zs
      = (case ring_next ?xs t of None \<Rightarrow> None | Some n \<Rightarrow> if TASK_PRIORITY_SEG me n \<noteq> ?seg then None else Some n)"
  proof (cases zs)
    case (Cons b bs)
    show ?thesis
    proof (cases "priority_seg (?pri b) = ?seg")
      case False
      have "\<forall>z \<in> set bs. ?pri z \<le> ?pri b" using q(1) by (simp add: x Cons sorted_by_def sorted_wrt_append)
      then have "\<forall>z \<in> set bs. priority_seg (?pri z) \<le> priority_seg (?pri b)" using seg_mono by blast
      moreover have "priority_seg (?pri b) < ?seg" using False below Cons by (simp add: le_neq_implies_less)
      ultimately have "\<forall>z \<in> set zs. priority_seg (?pri z) < ?seg" using Cons by (auto intro: le_less_trans)
      then have "find (\<lambda>x. priority_seg (?pri x) = ?seg) zs = None" by (auto simp: find_None_iff)
      then show ?thesis using nx Cons False by (simp add: TASK_PRIORITY_SEG_def)
    qed (use nx Cons in \<open>simp add: TASK_PRIORITY_SEG_def\<close>)
  qed (use nx in simp)
  have first: "?idx ! ?seg = Some t \<longleftrightarrow> (\<forall>y \<in> set ys. priority_seg (?pri y) \<noteq> ?seg)"
  proof (cases "find (\<lambda>x. priority_seg (?pri x) = ?seg) ys")
    case None
    then show ?thesis using idx(2) [OF sg(2)] sg(1) by (simp add: x find_append) (auto simp: find_None_iff)
  next
    case (Some y)
    then have "y \<in> set ys" "priority_seg (?pri y) = ?seg" by (auto simp: find_Some_iff)
    then show ?thesis using idx(2) [OF sg(2)] Some d(1) by (auto simp: x find_append)
  qed
  have "index_ok ?pri (ys @ zs) (tp_task_idx (unlink_task me t))"
  proof -
    have "tp_task_idx (unlink_task me t) ! s = find (\<lambda>x. priority_seg (?pri x) = s) (ys @ zs)"
      if s: "s < TASK_PRIORITY_SEGS" for s
    proof (cases "s = ?seg")
      case True
      show ?thesis
      proof (cases "?idx ! ?seg = Some t")
        case first_task: True
        then have "find (\<lambda>x. priority_seg (?pri x) = ?seg) ys = None" using first by (simp add: find_None_iff)
        then show ?thesis using True first_task next_seg sg(2) idx(1) by (simp add: unlink_task_def Let_def find_append)
      next
        case False
        then obtain y where "find (\<lambda>x. priority_seg (?pri x) = ?seg) ys = Some y"
          using first by (metis (mono_tags, lifting) find_None_iff not_None_eq)
        then show ?thesis using True False idx(2) [OF sg(2)] by (simp add: unlink_task_def Let_def x find_append)
      qed
    next
      case False
      then have zs: "find (\<lambda>x. priority_seg (?pri x) = s) (t # zs) = find (\<lambda>x. priority_seg (?pri x) = s) zs"
        using sg(1) by simp
      have "find (\<lambda>x. priority_seg (?pri x) = s) ?xs = find (\<lambda>x. priority_seg (?pri x) = s) (ys @ zs)"
        unfolding x find_append zs ..
      then show ?thesis using False idx(2) [OF s] by (simp add: unlink_task_def Let_def)
    qed
    then show ?thesis using idx(1) by (simp add: index_ok_def unlink_task_def Let_def)
  qed
  moreover have "sorted_by ?pri (ys @ zs)" using q(1) by (auto simp: x sorted_by_def sorted_wrt_append)
  moreover have "distinct (ys @ zs)" using q(2) x by simp
  moreover have "task_priority (unlink_task me t) = ?pri" by (simp add: unlink_task_def Let_def task_priority_def fun_eq_iff)
  moreover have "tp_tasks (unlink_task me t) = ys @ zs" using r by (simp add: unlink_task_def Let_def)
  ultimately show ?thesis by (simp add: queue_ok_def unlink_task_def Let_def)
qed


section \<open>The pool\<close>

text \<open>
  The counters agree with the rings, a task is in one ring at most and below the break, and the tasks with a
  time are in the order of their times.
\<close>

definition pool_ok :: "'w thread_pool \<Rightarrow> bool" where
  "pool_ok me \<longleftrightarrow> queue_ok me \<and> tp_task_cnt me = length (tp_tasks me)
     \<and> tp_scheduled_task_cnt me = length (tp_scheduled_tasks me)
     \<and> distinct (tp_tasks me @ tp_scheduled_tasks me @ tp_recycled_tasks me)
     \<and> (\<forall>t \<in> set (tp_tasks me @ tp_scheduled_tasks me @ tp_recycled_tasks me). t < tp_task_brk me)
     \<and> sorted_wrt (\<lambda>a b. task_time me a \<le>s task_time me b) (tp_scheduled_tasks me)"

text \<open>Two pools that differ in what the queue does not use.\<close>

definition same_queue :: "'w thread_pool \<Rightarrow> 'w thread_pool \<Rightarrow> bool" where
  "same_queue a b \<longleftrightarrow> tp_tasks a = tp_tasks b \<and> tp_scheduled_tasks a = tp_scheduled_tasks b
     \<and> tp_recycled_tasks a = tp_recycled_tasks b \<and> tp_task a = tp_task b \<and> tp_task_brk a = tp_task_brk b
     \<and> tp_task_idx a = tp_task_idx b \<and> tp_task_cnt a = tp_task_cnt b
     \<and> tp_scheduled_task_cnt a = tp_scheduled_task_cnt b"

lemma pool_ok_same: "same_queue a b \<Longrightarrow> pool_ok a = pool_ok b"
proof -
  assume s: "same_queue a b"
  then have "task_priority a = task_priority b" "task_time a = task_time b"
    by (simp_all add: same_queue_def task_priority_def task_time_def fun_eq_iff)
  then show ?thesis using s by (simp add: same_queue_def pool_ok_def queue_ok_def)
qed

lemma sorted_by_cong: "(\<And>x. x \<in> set xs \<Longrightarrow> f x = g x) \<Longrightarrow> sorted_by f xs = sorted_by g xs"
  by (induction xs) (auto simp: sorted_by_def)

lemma index_ok_cong:
  assumes "\<And>x. x \<in> set xs \<Longrightarrow> f x = g x"
  shows "index_ok f xs idx = index_ok g xs idx"
proof -
  have "find (\<lambda>t. priority_seg (f t) = s) xs = find (\<lambda>t. priority_seg (g t) = s) xs" for s
    using assms by (intro find_cong) auto
  then show ?thesis by (simp add: index_ok_def)
qed

lemma sorted_wrt_time_cong:
  "(\<And>x. x \<in> set xs \<Longrightarrow> f x = g x) \<Longrightarrow> sorted_wrt (\<lambda>a b. f a \<le>s f b) xs = sorted_wrt (\<lambda>a b. g a \<le>s g b) xs"
  by (induction xs) auto

text \<open>A new task is none of those that wait, and leaves them as they are.\<close>

lemma task_new_spec:
  assumes ok: "pool_ok me" and new: "task_new now me work priority owner time = (t, me')"
  shows "pool_ok me' \<and> t \<notin> set (tp_tasks me' @ tp_scheduled_tasks me' @ tp_recycled_tasks me') \<and> t < tp_task_brk me'
    \<and> tp_tasks me' = tp_tasks me \<and> tp_scheduled_tasks me' = tp_scheduled_tasks me \<and> tp_task_idx me' = tp_task_idx me
    \<and> (\<forall>x. x \<noteq> t \<longrightarrow> tp_task me' x = tp_task me x)
    \<and> tk_work (tp_task me' t) = work \<and> tk_owner (tp_task me' t) = owner
    \<and> (if 0 <s time then task_time me' t = now + time else task_priority me' t = priority)"
proof -
  have sp: "tk_priority (\<lparr>tk_work = w, tk_owner = o', tk_dispatch = set_priority p d\<rparr>) = p" for w :: 'a and o' p d
  proof -
    have m: "(255 :: int64) = mask 8" by (simp add: mask_eq_exp_minus_1)
    show ?thesis unfolding tk_priority_def set_priority_def m by (rule bit_eqI) (auto simp: bit_simps)
  qed
  define d where "d = (if 0 <s time then now + time
    else set_priority priority (case tp_recycled_tasks me of [] \<Rightarrow> 0 | u # _ \<Rightarrow> tk_dispatch (tp_task me u)))"
  define m where "m = (tp_task me)(t := \<lparr>tk_work = work, tk_owner = owner, tk_dispatch = d\<rparr>)"
  have eq: "me' = (case tp_recycled_tasks me of [] \<Rightarrow> me\<lparr>tp_task_brk := t + 1, tp_task := m\<rparr>
      | _ # rest \<Rightarrow> me\<lparr>tp_recycled_tasks := rest, tp_task := m\<rparr>)"
    "t = (case tp_recycled_tasks me of [] \<Rightarrow> tp_task_brk me | u # _ \<Rightarrow> u)"
    using new by (auto simp: task_new_def Let_def m_def d_def split: list.splits)
  have t: "t \<notin> set (tp_tasks me @ tp_scheduled_tasks me)"
    using ok eq(2) by (auto simp: pool_ok_def split: list.splits)
  have other: "tp_task me' x = tp_task me x" if "x \<noteq> t" for x using that by (simp add: eq(1) m_def split: list.splits)
  have pri: "x \<noteq> t \<Longrightarrow> task_priority me' x = task_priority me x \<and> task_time me' x = task_time me x" for x
    using other by (simp add: task_priority_def task_time_def)
  have rings: "tp_tasks me' = tp_tasks me" "tp_scheduled_tasks me' = tp_scheduled_tasks me" "tp_task_idx me' = tp_task_idx me"
    "tp_task_cnt me' = tp_task_cnt me" "tp_scheduled_task_cnt me' = tp_scheduled_task_cnt me"
    by (simp_all add: eq(1) split: list.splits)
  have at: "x \<in> set (tp_tasks me) \<Longrightarrow> task_priority me' x = task_priority me x" for x using pri [of x] t by auto
  have "queue_ok me'"
    using ok rings sorted_by_cong [of "tp_tasks me", OF at] index_ok_cong [of "tp_tasks me", OF at]
    by (simp add: pool_ok_def queue_ok_def)
  moreover have "x \<in> set (tp_scheduled_tasks me) \<Longrightarrow> task_time me' x = task_time me x" for x using pri [of x] t by auto
  then have "sorted_wrt (\<lambda>a b. task_time me' a \<le>s task_time me' b) (tp_scheduled_tasks me')"
    using ok rings sorted_wrt_time_cong [of "tp_scheduled_tasks me" "task_time me'" "task_time me"] by (simp add: pool_ok_def)
  moreover have "distinct (tp_tasks me' @ tp_scheduled_tasks me' @ tp_recycled_tasks me')
      \<and> t \<notin> set (tp_tasks me' @ tp_scheduled_tasks me' @ tp_recycled_tasks me') \<and> t < tp_task_brk me'
      \<and> (\<forall>x \<in> set (tp_tasks me' @ tp_scheduled_tasks me' @ tp_recycled_tasks me'). x < tp_task_brk me')"
    using ok eq by (cases "tp_recycled_tasks me") (auto simp: pool_ok_def intro: less_SucI)
  moreover have "tp_task me' t = \<lparr>tk_work = work, tk_owner = owner, tk_dispatch = d\<rparr>" by (simp add: eq(1) m_def split: list.splits)
  ultimately show ?thesis using ok rings other sp
    by (simp add: pool_ok_def task_time_def task_priority_def d_def)
qed


lemma count_thread_same: "same_queue (count_thread create me) me"
  by (simp add: count_thread_def Let_def same_queue_def)

lemma insert_after_set: "set (insert_after P t xs) = insert t (set xs)"
  using set_append [of "takeWhile P xs" "dropWhile P xs"] by (auto simp: insert_after_def)

lemma insert_after_length: "length (insert_after P t xs) = length xs + 1"
  using length_append [of "takeWhile P xs" "dropWhile P xs"] by (simp add: insert_after_def)

lemma insert_after_cong:
  assumes "\<And>x. x \<in> set xs \<Longrightarrow> P x = Q x"
  shows "insert_after P t xs = insert_after Q t xs"
  using assms takeWhile_cong [of xs xs P Q] dropWhile_cong [of xs xs P Q] by (simp add: insert_after_def)

text \<open>Pushing tasks of the given priorities, in their order.\<close>

definition pushes :: "byte list \<Rightarrow> nat thread_pool \<Rightarrow> nat thread_pool" where
  "pushes ps me = fold (\<lambda>p me. snd (snd (etch_apr_thread_pool_push APR_SUCCESS 0 me 0 p None))) ps me"

definition two_tasks :: "nat thread_pool" where
  "two_tasks = pushes [5, 5] (thread_pool_construct 0 1)"

lemma index_ok_map:
  "index_ok pri xs idx \<longleftrightarrow> idx = map (\<lambda>s. find (\<lambda>t. priority_seg (pri t) = s) xs) [0 ..< TASK_PRIORITY_SEGS]"
  by (auto simp: index_ok_def list_eq_iff_nth_eq)

lemma two_tasks_ok: "pool_ok two_tasks"
proof -
  let ?m = two_tasks
  have r: "tp_tasks ?m = [0, 1]" "tp_scheduled_tasks ?m = []" "tp_recycled_tasks ?m = []" "tp_task_brk ?m = 2"
    "tp_task_cnt ?m = 2" "tp_scheduled_task_cnt ?m = 0" "tp_task_idx ?m = [Some 0, None, None, None]"
    by code_simp+
  have p: "task_priority ?m 0 = 5" "task_priority ?m 1 = 5" by code_simp+
  have seg: "priority_seg 5 = 0" by code_simp
  have "[0 ..< TASK_PRIORITY_SEGS] = [0, 1, 2, 3]" by code_simp
  then show ?thesis using p by (simp add: pool_ok_def queue_ok_def index_ok_map sorted_by_def r seg less_Suc_eq)
qed

lemma push_index: "tp_task_idx two_tasks ! priority_seg 5 = Some 0
    \<and> 5 \<le> task_priority two_tasks 0"
  by code_simp

text \<open>
  C35. A task that is added is put behind the tasks of its priority (\<open>push\<close>) or before them (\<open>top\<close>), and the
  other tasks keep their order.  For a push this needs that the first task of its segment of 64 priorities has
  no lower priority.
\<close>

theorem add_task_by_priority:
  assumes "pool_ok me" and "add_task create now me work p push owner = (rv, created, me')"
    and "push \<longrightarrow> (\<forall>i. tp_task_idx me ! priority_seg p = Some i \<longrightarrow> p \<le> task_priority me i)"
  shows "pool_ok me' \<and> (\<exists>t. t \<notin> set (tp_tasks me) \<and> tk_work (tp_task me' t) = work \<and> tk_owner (tp_task me' t) = owner
    \<and> task_priority me' t = p
    \<and> tp_tasks me' = insert_after (\<lambda>x. if push then p \<le> task_priority me x else p < task_priority me x) t (tp_tasks me)
    \<and> tp_scheduled_tasks me' = tp_scheduled_tasks me)"
proof -
  obtain t m1 where n: "task_new now me work p owner 0 = (t, m1)" by fastforce
  from task_new_spec [OF assms(1) n] have new: "pool_ok m1" "t \<notin> set (tp_tasks m1)" "t \<notin> set (tp_scheduled_tasks m1)"
    "t \<notin> set (tp_recycled_tasks m1)" "t < tp_task_brk m1" "tp_tasks m1 = tp_tasks me" "tp_scheduled_tasks m1 = tp_scheduled_tasks me"
    "tp_task_idx m1 = tp_task_idx me" "\<forall>x. x \<noteq> t \<longrightarrow> tp_task m1 x = tp_task me x" "tk_work (tp_task m1 t) = work"
    "tk_owner (tp_task m1 t) = owner" "task_priority m1 t = p" by auto
  have pri: "x \<in> set (tp_tasks me) \<Longrightarrow> task_priority m1 x = task_priority me x" for x
    using new(2,6,9) by (metis task_priority_def)
  have q: "queue_ok m1" using new(1) by (simp add: pool_ok_def)
  have bf: "push \<longrightarrow> behind_first m1 t"
  proof
    assume push
    show "behind_first m1 t"
    proof (cases "tp_task_idx me ! priority_seg p")
      case (Some i)
      have "tp_task_idx m1 ! priority_seg p = find (\<lambda>x. priority_seg (task_priority m1 x) = priority_seg p) (tp_tasks m1)"
        using q seg_less [of p] by (simp add: queue_ok_def index_ok_def)
      then have "find (\<lambda>x. priority_seg (task_priority m1 x) = priority_seg p) (tp_tasks me) = Some i"
        using Some new(6,8) by simp
      then have "i \<in> set (tp_tasks me)" by (auto simp: find_Some_iff)
      then show ?thesis using Some pri assms(3) \<open>push\<close> new(8,12) by (simp add: behind_first_def TASK_PRIORITY_SEG_def)
    qed (use new(8,12) in \<open>simp add: behind_first_def TASK_PRIORITY_SEG_def\<close>)
  qed
  from link_task_spec [OF q new(2) bf] obtain idx where
    l: "link_task m1 t push = m1\<lparr>tp_tasks := by_priority m1 t push (tp_tasks m1), tp_task_idx := idx\<rparr>" "queue_ok (link_task m1 t push)"
    by blast
  let ?xs = "insert_after (\<lambda>x. if push then p \<le> task_priority me x else p < task_priority me x) t (tp_tasks me)"
  have xs: "by_priority m1 t push (tp_tasks m1) = ?xs"
    unfolding by_priority_def new(6,12) using pri by (intro insert_after_cong) simp
  define m2 where "m2 = m1\<lparr>tp_tasks := ?xs, tp_task_idx := idx, tp_task_cnt := tp_task_cnt m1 + 1\<rparr>"
  have same: "same_queue me' m2"
  proof -
    let ?m = "m2\<lparr>tp_tasks_high := (if tp_task_cnt m2 > tp_tasks_high m2 then tp_task_cnt m2 else tp_tasks_high m2)\<rparr>"
    have "tp_tasks_high m2 = tp_tasks_high m1" by (simp add: m2_def)
    then have "add_task create now me work p push owner
        = (if tp_thd_cnt ?m = 0 \<or> tp_idle_cnt ?m = 0 \<and> tp_thd_cnt ?m < tp_thd_max ?m \<and> tp_task_cnt ?m > tp_threshold ?m
           then (create, create = APR_SUCCESS, count_thread create ?m) else (APR_SUCCESS, False, ?m))"
      by (simp add: add_task_def Let_def n l(1) xs m2_def)
    then have "me' = ?m \<or> me' = count_thread create ?m" using assms(2) by (simp split: if_splits)
    moreover have "same_queue ?m m2" by (simp add: same_queue_def)
    ultimately show ?thesis using count_thread_same [of create ?m] by (auto simp: same_queue_def)
  qed
  have "queue_ok m2"
    using l(2) unfolding l(1) xs by (simp add: m2_def queue_ok_def task_priority_def [abs_def])
  then have "pool_ok m2"
    using new(1-5,6) by (auto simp: pool_ok_def m2_def insert_after_set insert_after_length queue_ok_def task_time_def [abs_def])
  then have "pool_ok me'" using pool_ok_same [OF same] by simp
  moreover have "tp_tasks me' = ?xs" "tp_scheduled_tasks me' = tp_scheduled_tasks me" "tp_task me' = tp_task m1"
    using same new(7) by (simp_all add: same_queue_def m2_def)
  ultimately show ?thesis using new by (auto simp: task_priority_def)
qed

lemma add_task_by_priority_witness:
  "pool_ok (snd (snd (add_task APR_SUCCESS 0 two_tasks 7 5 True (Some 1))))"
proof -
  let ?r = "add_task APR_SUCCESS 0 two_tasks 7 5 True (Some 1)"
  have p: "True \<longrightarrow> (\<forall>i. tp_task_idx two_tasks ! priority_seg 5 = Some i
      \<longrightarrow> 5 \<le> task_priority two_tasks i)"
    using push_index by simp
  have "?r = (fst ?r, fst (snd ?r), snd (snd ?r))" by simp
  from add_task_by_priority [OF two_tasks_ok this p] show ?thesis by blast
qed


text \<open>
  A push in front of the first task of its segment does not move the index of the segment, so that the next
  push starts its search behind the new task: with priorities 70, 100 and 110, in this order, the task with
  priority 110 runs after the one with 100, and a task of priority 200 that comes then is put behind it as well.
\<close>

theorem push_breaks_priority_order:
  "map (task_priority (pushes [70, 100, 110, 200] (thread_pool_construct 0 1)))
      (tp_tasks (pushes [70, 100, 110, 200] (thread_pool_construct 0 1))) = [100, 110, 200, 70]"
  by code_simp




section \<open>Scheduling and cancelling\<close>

lemma schedule_place_find: "schedule_place stray me time xs = find (\<lambda>x. \<not> \<not> time <s task_time me x) xs"
  by (induction xs) auto

text \<open>The memory behind the sentinel does not matter.\<close>

lemma schedule_link_spec:
  assumes "distinct (tp_scheduled_tasks me)"
  shows "schedule_link stray me t = me\<lparr>tp_scheduled_task_cnt := tp_scheduled_task_cnt me + 1,
      tp_scheduled_tasks := insert_after (\<lambda>x. \<not> task_time me t <s task_time me x) t (tp_scheduled_tasks me)\<rparr>"
  using insert_before_find [OF assms, of "\<lambda>x. \<not> task_time me t <s task_time me x" t]
    schedule_place_find [of stray me "task_time me t" "tp_scheduled_tasks me"]
  by (cases "tp_scheduled_tasks me") (simp_all add: schedule_link_def insert_after_def)

lemma sorted_times:
  assumes "sorted_wrt (\<lambda>a b. f a \<le>s f b) xs"
  shows "sorted_wrt (\<lambda>a b. f a \<le>s f b) (insert_after (\<lambda>x. \<not> f t <s f x) t xs)"
  using assms
proof (induction xs)
  case (Cons a xs)
  show ?case
  proof (cases "f t <s f a")
    case True
    then have "\<forall>x \<in> set xs. f t \<le>s f x" using Cons.prems by (auto dest: signed.less_imp_le intro: signed.order.trans)
    then show ?thesis using True Cons.prems by (simp add: insert_after_def signed.less_imp_le)
  next
    case False
    then have "f a \<le>s f t" by (simp add: signed.not_less)
    then show ?thesis using False Cons insert_after_set [of _ t xs] by (simp add: insert_after_def)
  qed
qed (simp add: insert_after_def)

text \<open>
  A scheduled task is put behind those that are due no later and before the others, whatever the memory
  behind the sentinel of an empty ring holds.
\<close>

theorem schedule_task_by_time:
  assumes "pool_ok me" and "schedule_task create stray now me work owner time = (rv, created, me')" and "0 <s time"
  shows "pool_ok me' \<and> (\<exists>t. t \<notin> set (tp_scheduled_tasks me) \<and> tk_work (tp_task me' t) = work \<and> task_time me' t = now + time
    \<and> tp_scheduled_tasks me' = insert_after (\<lambda>x. \<not> (now + time) <s task_time me x) t (tp_scheduled_tasks me)
    \<and> tp_tasks me' = tp_tasks me)"
proof -
  obtain t m1 where n: "task_new now me work 0 owner time = (t, m1)" by fastforce
  from task_new_spec [OF assms(1) n] assms(3) have new: "pool_ok m1" "t \<notin> set (tp_tasks m1)" "t \<notin> set (tp_scheduled_tasks m1)"
    "t \<notin> set (tp_recycled_tasks m1)" "t < tp_task_brk m1" "tp_tasks m1 = tp_tasks me" "tp_scheduled_tasks m1 = tp_scheduled_tasks me"
    "\<forall>x. x \<noteq> t \<longrightarrow> tp_task m1 x = tp_task me x" "tk_work (tp_task m1 t) = work" "task_time m1 t = now + time" by auto
  let ?P = "\<lambda>x. \<not> task_time m1 t <s task_time m1 x"
  have d: "distinct (tp_scheduled_tasks m1)" using new(1) by (simp add: pool_ok_def)
  let ?m = "schedule_link stray m1 t"
  note l = schedule_link_spec [OF d, of stray t]
  have "sorted_wrt (\<lambda>a b. task_time m1 a \<le>s task_time m1 b) (insert_after ?P t (tp_scheduled_tasks m1))"
    using sorted_times [of "task_time m1" "tp_scheduled_tasks m1" t] new(1) by (simp add: pool_ok_def)
  moreover have "distinct (insert_after ?P t (tp_scheduled_tasks m1))"
    unfolding insert_after_def by (rule distinct_insert [OF d new(3)])
  ultimately have m: "pool_ok ?m"
    using new(1-5) by (auto simp: l pool_ok_def queue_ok_def insert_after_set insert_after_length
        task_priority_def [abs_def] task_time_def [abs_def])
  have "me' = ?m \<or> me' = count_thread create ?m"
    using assms(2) by (auto simp: schedule_task_def n Let_def split: if_splits)
  then have same: "same_queue me' ?m" using count_thread_same [of create ?m] by (auto simp: same_queue_def)
  have x: "insert_after ?P t (tp_scheduled_tasks m1) = insert_after (\<lambda>x. \<not> (now + time) <s task_time me x) t (tp_scheduled_tasks me)"
  proof -
    have "task_time m1 x = task_time me x" if "x \<in> set (tp_scheduled_tasks me)" for x
      using that new(3,7,8) by (metis task_time_def)
    then show ?thesis unfolding new(7,10) by (intro insert_after_cong) simp
  qed
  have "tp_scheduled_tasks me' = insert_after ?P t (tp_scheduled_tasks m1)" "tp_tasks me' = tp_tasks m1" "tp_task me' = tp_task m1"
    using same l by (simp_all add: same_queue_def)
  then show ?thesis using pool_ok_same [OF same] m new x by (auto simp: task_time_def)
qed

lemma schedule_task_by_time_witness:
  "pool_ok (snd (snd (schedule_task APR_SUCCESS 0 100 two_tasks 7 None 20)))"
proof -
  let ?r = "schedule_task APR_SUCCESS 0 100 two_tasks 7 None 20"
  have "?r = (fst ?r, fst (snd ?r), snd (snd ?r))" by simp
  from schedule_task_by_time [OF two_tasks_ok this] show ?thesis by (simp add: word_sless_alt)
qed

lemma remove_fold:
  assumes "distinct xs" and "queue_ok me" and "set xs \<subseteq> set (tp_tasks me)"
  shows "\<exists>idx. fold (\<lambda>t me. if tk_owner (tp_task me t) = owner then unlink_task me t else me) xs me
      = me\<lparr>tp_tasks := filter (\<lambda>t. t \<in> set xs \<longrightarrow> tk_owner (tp_task me t) \<noteq> owner) (tp_tasks me),
           tp_task_cnt := tp_task_cnt me - length (filter (\<lambda>t. tk_owner (tp_task me t) = owner) xs), tp_task_idx := idx\<rparr>
    \<and> queue_ok (fold (\<lambda>t me. if tk_owner (tp_task me t) = owner then unlink_task me t else me) xs me)"
  using assms
proof (induction xs arbitrary: me)
  case Nil
  then show ?case by (intro exI [of _ "tp_task_idx me"]) simp
next
  case (Cons x xs)
  let ?f = "\<lambda>t me :: 'a thread_pool. if tk_owner (tp_task me t) = owner then unlink_task me t else me"
  show ?case
  proof (cases "tk_owner (tp_task me x) = owner")
    case True
    let ?m = "unlink_task me x"
    obtain idx where m: "?m = me\<lparr>tp_tasks := remove1 x (tp_tasks me), tp_task_cnt := tp_task_cnt me - 1, tp_task_idx := idx\<rparr>" "queue_ok ?m"
      using unlink_task_spec [OF Cons.prems(2), of x] Cons.prems(3) by auto
    have d: "distinct (tp_tasks me)" using Cons.prems(2) by (simp add: queue_ok_def)
    have "set xs \<subseteq> set (tp_tasks ?m)" using Cons.prems(1,3) d m(1) by auto
    from Cons.IH [OF _ m(2) this] Cons.prems(1) obtain idx2 where
      r: "fold ?f xs ?m = ?m\<lparr>tp_tasks := filter (\<lambda>t. t \<in> set xs \<longrightarrow> tk_owner (tp_task ?m t) \<noteq> owner) (tp_tasks ?m),
          tp_task_cnt := tp_task_cnt ?m - length (filter (\<lambda>t. tk_owner (tp_task ?m t) = owner) xs), tp_task_idx := idx2\<rparr>"
        "queue_ok (fold ?f xs ?m)" by auto
    have "filter (\<lambda>t. t \<in> set xs \<longrightarrow> tk_owner (tp_task me t) \<noteq> owner) (remove1 x (tp_tasks me))
        = filter (\<lambda>t. t \<in> set (x # xs) \<longrightarrow> tk_owner (tp_task me t) \<noteq> owner) (tp_tasks me)"
      using True by (auto simp: distinct_remove1_removeAll [OF d] removeAll_filter_not_eq intro: filter_cong)
    moreover have "fold ?f (x # xs) me = fold ?f xs ?m" using True by simp
    ultimately show ?thesis using r True by (intro exI [of _ idx2]) (simp add: m(1))
  next
    case False
    have "filter (\<lambda>t. t \<in> set xs \<longrightarrow> tk_owner (tp_task me t) \<noteq> owner) (tp_tasks me)
        = filter (\<lambda>t. t \<in> set (x # xs) \<longrightarrow> tk_owner (tp_task me t) \<noteq> owner) (tp_tasks me)"
      using False by (intro filter_cong) auto
    then show ?thesis using Cons.IH [of me] Cons.prems False by simp
  qed
qed

lemma remove_scheduled_fold:
  assumes "distinct xs" and "distinct (tp_scheduled_tasks me)" and "set xs \<subseteq> set (tp_scheduled_tasks me)"
  shows "fold (\<lambda>t_loc me. if tk_owner (tp_task me t_loc) = owner
            then me\<lparr>tp_scheduled_task_cnt := tp_scheduled_task_cnt me - 1,
                    tp_scheduled_tasks := remove1 t_loc (tp_scheduled_tasks me)\<rparr>
            else me) xs me
      = me\<lparr>tp_scheduled_tasks := filter (\<lambda>t. t \<in> set xs \<longrightarrow> tk_owner (tp_task me t) \<noteq> owner) (tp_scheduled_tasks me),
           tp_scheduled_task_cnt := tp_scheduled_task_cnt me - length (filter (\<lambda>t. tk_owner (tp_task me t) = owner) xs)\<rparr>"
  using assms
proof (induction xs arbitrary: me)
  case (Cons x xs)
  show ?case
  proof (cases "tk_owner (tp_task me x) = owner")
    case True
    let ?m = "me\<lparr>tp_scheduled_task_cnt := tp_scheduled_task_cnt me - 1,
                  tp_scheduled_tasks := remove1 x (tp_scheduled_tasks me)\<rparr>"
    have d: "distinct (tp_scheduled_tasks me)" by fact
    have "filter (\<lambda>t. t \<in> set xs \<longrightarrow> tk_owner (tp_task me t) \<noteq> owner) (remove1 x (tp_scheduled_tasks me))
        = filter (\<lambda>t. t \<in> set (x # xs) \<longrightarrow> tk_owner (tp_task me t) \<noteq> owner) (tp_scheduled_tasks me)"
      using True by (auto simp: distinct_remove1_removeAll [OF d] removeAll_filter_not_eq intro: filter_cong)
    moreover have "set xs \<subseteq> set (tp_scheduled_tasks ?m)" using Cons.prems by auto
    ultimately show ?thesis using Cons.IH [of ?m] Cons.prems True by simp
  next
    case False
    have "filter (\<lambda>t. t \<in> set xs \<longrightarrow> tk_owner (tp_task me t) \<noteq> owner) (tp_scheduled_tasks me)
        = filter (\<lambda>t. t \<in> set (x # xs) \<longrightarrow> tk_owner (tp_task me t) \<noteq> owner) (tp_scheduled_tasks me)"
      using False by (intro filter_cong) auto
    then show ?thesis using Cons.IH [of me] Cons.prems False by simp
  qed
qed simp

text \<open>
  Cancelling removes exactly the tasks of the owner from the queue and from the scheduled tasks, and keeps the
  order of the others.
\<close>

theorem cancel_removes_owner:
  assumes "pool_ok me"
  shows "pool_ok (cancel_tasks owner me)
    \<and> tp_tasks (cancel_tasks owner me) = filter (\<lambda>t. tk_owner (tp_task me t) \<noteq> owner) (tp_tasks me)
    \<and> tp_scheduled_tasks (cancel_tasks owner me) = filter (\<lambda>t. tk_owner (tp_task me t) \<noteq> owner) (tp_scheduled_tasks me)"
proof -
  have ok: "queue_ok me" "tp_task_cnt me = length (tp_tasks me)" "tp_scheduled_task_cnt me = length (tp_scheduled_tasks me)"
    "distinct (tp_tasks me)" "distinct (tp_scheduled_tasks me)" using assms by (simp_all add: pool_ok_def)
  let ?keep = "\<lambda>t. tk_owner (tp_task me t) \<noteq> owner"
  have cnt: "length xs - length (filter (\<lambda>t. tk_owner (tp_task me t) = owner) xs) = length (filter ?keep xs)" for xs
    using sum_length_filter_compl [of "\<lambda>t. tk_owner (tp_task me t) = owner" xs] by simp
  have all: "filter (\<lambda>t. t \<in> set xs \<longrightarrow> ?keep t) xs = filter ?keep xs" for xs by (intro filter_cong) auto
  define m1 where "m1 = (if tp_task_cnt me > 0 then remove_tasks owner me else me)"
  have m1: "\<exists>idx. m1 = me\<lparr>tp_tasks := filter ?keep (tp_tasks me), tp_task_cnt := length (filter ?keep (tp_tasks me)), tp_task_idx := idx\<rparr>
      \<and> queue_ok m1"
  proof (cases "tp_task_cnt me > 0")
    case True
    from remove_fold [OF ok(4,1) subset_refl, of owner] obtain idx where
      "remove_tasks owner me = me\<lparr>tp_tasks := filter (\<lambda>t. t \<in> set (tp_tasks me) \<longrightarrow> ?keep t) (tp_tasks me),
          tp_task_cnt := tp_task_cnt me - length (filter (\<lambda>t. tk_owner (tp_task me t) = owner) (tp_tasks me)), tp_task_idx := idx\<rparr>"
      "queue_ok (remove_tasks owner me)" by (auto simp: remove_tasks_def)
    then show ?thesis using True unfolding m1_def ok(2) cnt all by auto
  next
    case False
    then have "tp_tasks me = []" "m1 = me" using ok(2) by (simp_all add: m1_def)
    moreover from this(1) have "me = me\<lparr>tp_tasks := [], tp_task_cnt := 0, tp_task_idx := tp_task_idx me\<rparr>" using ok(2) by simp
    ultimately show ?thesis using ok(1) by (intro exI [of _ "tp_task_idx me"]) simp
  qed
  then obtain idx where m: "m1 = me\<lparr>tp_tasks := filter ?keep (tp_tasks me),
      tp_task_cnt := length (filter ?keep (tp_tasks me)), tp_task_idx := idx\<rparr>" "queue_ok m1" by blast
  define m2 where "m2 = me\<lparr>tp_tasks := filter ?keep (tp_tasks me), tp_task_cnt := length (filter ?keep (tp_tasks me)), tp_task_idx := idx,
      tp_scheduled_tasks := filter ?keep (tp_scheduled_tasks me), tp_scheduled_task_cnt := length (filter ?keep (tp_scheduled_tasks me))\<rparr>"
  have "cancel_tasks owner me = (if tp_scheduled_task_cnt m1 > 0 then remove_scheduled_tasks owner m1 else m1)"
    by (simp add: cancel_tasks_def m1_def Let_def)
  also have "\<dots> = m2"
  proof (cases "tp_scheduled_task_cnt m1 > 0")
    case True
    then show ?thesis using remove_scheduled_fold [OF ok(5), of m1 owner] ok(3,5)
      by (simp add: remove_scheduled_tasks_def m(1) m2_def all cnt)
  next
    case False
    then show ?thesis using ok(3) by (simp add: m(1) m2_def)
  qed
  finally have c: "cancel_tasks owner me = m2" .
  have "queue_ok m2" using m(2) by (simp add: m(1) m2_def queue_ok_def task_priority_def [abs_def])
  then have "pool_ok m2" using assms
    by (auto simp: pool_ok_def m2_def task_time_def [abs_def] sorted_wrt_filter)
  then show ?thesis unfolding c by (simp add: m2_def)
qed

lemma cancel_removes_owner_witness: "tp_tasks (cancel_tasks None two_tasks) = []"
proof -
  let ?m = two_tasks
  have "filter (\<lambda>t. tk_owner (tp_task ?m t) \<noteq> None) (tp_tasks ?m) = []" by code_simp
  then show ?thesis using cancel_removes_owner [OF two_tasks_ok, of None] by simp
qed

section \<open>The limit of the threads\<close>

text \<open>
  C37. Lowering the limit below the number of the threads stops the wrong number of busy threads:
  \<open>trim_busy_threads\<close> takes the number to keep and is given the number to stop.  When all threads are busy, the
  first \<open>thd_cnt - cnt\<close> of them go on and the other \<open>cnt\<close> are stopped, and the caller is told \<open>thd_cnt - cnt\<close>.
\<close>

theorem thread_max_set_keeps_the_difference:
  assumes "tp_idle_cnt me = 0" and "tp_thd_cnt me = length (tp_busy_thds me)" and "0 < cnt" and "cnt < tp_thd_cnt me"
    and "etch_apr_thread_pool_thread_max_set cnt me = (n, busy, idle, me')"
  shows "n = tp_thd_cnt me - cnt \<and> length busy = cnt \<and> idle = [] \<and> busy = drop (tp_thd_cnt me - cnt) (tp_busy_thds me)
    \<and> (\<forall>e. el_state (tp_elt me' e) = (if e \<in> set busy then TH_STOP else el_state (tp_elt me e)))"
proof -
  have "tp_thd_cnt me - cnt < tp_thd_cnt me" using assms(3,4) by simp
  then show ?thesis using assms
    by (auto simp: etch_apr_thread_pool_thread_max_set_def trim_busy_threads_def trim_idle_def Let_def)
qed

text \<open>Three busy threads, with a limit of two: two are stopped.\<close>

definition three_busy :: "nat thread_pool" where
  "three_busy = (thread_pool_construct 0 3)\<lparr>tp_thd_cnt := 3, tp_busy_thds := [0, 1, 2]\<rparr>"

lemma thread_max_set_keeps_the_difference_witness:
  "length (fst (snd (etch_apr_thread_pool_thread_max_set 2 three_busy))) = 2"
proof -
  let ?r = "etch_apr_thread_pool_thread_max_set 2 three_busy"
  have "?r = (fst ?r, fst (snd ?r), fst (snd (snd ?r)), snd (snd (snd ?r)))" by simp
  from thread_max_set_keeps_the_difference [OF _ _ _ _ this] show ?thesis
    by (simp add: three_busy_def thread_pool_construct_def)
qed

end
