(* ===== verification/ThreadPool_Threads.thy ===== *)
theory ThreadPool_Threads
  imports ThreadPool_Correct
begin

text \<open>
  The threads that use one pool, as a relation whose steps are the sections under the lock: callers that add,
  schedule and cancel tasks, and the workers.  A signal is sent after the section that adds a task, and a
  worker waits on the condition after the section in which it becomes idle.
\<close>

section \<open>The system\<close>

record 'w pool_sys =
  ps_pool :: "'w thread_pool"
  ps_worker :: "nat \<rightharpoonup> worker"
  ps_next :: nat
  ps_signals :: nat

definition spawn :: "bool \<Rightarrow> 'w pool_sys \<Rightarrow> 'w pool_sys" where
  "spawn created s =
     (if created then s\<lparr>ps_worker := (ps_worker s)(ps_next s \<mapsto> Starting), ps_next := ps_next s + 1\<rparr> else s)"

text \<open>Every thread is created; \<open>thd_cnt\<close> and \<open>thd_high\<close> count them.\<close>

definition etch_apr_thread_pool_create :: "nat \<Rightarrow> nat \<Rightarrow> 'w pool_sys" where
  "etch_apr_thread_pool_create init_threads max_threads =
     ((\<lambda>s. let s = spawn True s in s\<lparr>ps_pool := count_thread APR_SUCCESS (ps_pool s)\<rparr>) ^^ init_threads)
       \<lparr>ps_pool = thread_pool_construct init_threads max_threads, ps_worker = Map.empty, ps_next = 0, ps_signals = 0\<rparr>"

definition set_worker :: "nat \<Rightarrow> 'w thread_pool \<times> worker \<Rightarrow> 'w pool_sys \<Rightarrow> 'w pool_sys" where
  "set_worker t r s = s\<lparr>ps_pool := fst r, ps_worker := (ps_worker s)(t \<mapsto> snd r)\<rparr>"

text \<open>The calls, which also send a signal, and what the threads and the system do on their own.\<close>

inductive pool_call :: "'w pool_sys \<Rightarrow> 'w pool_sys \<Rightarrow> bool" where
  add: "add_task create now (ps_pool s) work p push owner = (rv, created, me) \<Longrightarrow>
    pool_call s (spawn created (s\<lparr>ps_pool := me, ps_signals := ps_signals s + 1\<rparr>))"
| schedule: "schedule_task create stray now (ps_pool s) work owner time = (rv, created, me) \<Longrightarrow>
    pool_call s (spawn created (s\<lparr>ps_pool := me, ps_signals := ps_signals s + 1\<rparr>))"
| cancel: "pool_call s (s\<lparr>ps_pool := cancel_tasks owner (ps_pool s)\<rparr>)"

inductive pool_run :: "'w pool_sys \<Rightarrow> 'w pool_sys \<Rightarrow> bool" where
  signal: "ps_signals s = Suc n \<Longrightarrow> ps_worker s t = Some (Waiting e w) \<Longrightarrow>
    pool_run s (s\<lparr>ps_worker := (ps_worker s)(t \<mapsto> Awake e), ps_signals := n\<rparr>)"
| signal_lost: "ps_signals s = Suc n \<Longrightarrow> \<forall>t e w. ps_worker s t \<noteq> Some (Waiting e w) \<Longrightarrow>
    pool_run s (s\<lparr>ps_signals := n\<rparr>)"
| timeout: "ps_worker s t = Some (Waiting e w) \<Longrightarrow> 0 \<le>s w \<Longrightarrow>
    pool_run s (s\<lparr>ps_worker := (ps_worker s)(t \<mapsto> Awake e)\<rparr>)"
| sleep: "ps_worker s t = Some (Going_idle e w) \<Longrightarrow>
    pool_run s (s\<lparr>ps_worker := (ps_worker s)(t \<mapsto> Waiting e w)\<rparr>)"
| start: "ps_worker s t = Some Starting \<Longrightarrow>
    pool_run s (set_worker t (thread_pool_func now later (ps_pool s) t) s)"
| wake: "ps_worker s t = Some (Awake e) \<Longrightarrow>
    pool_run s (set_worker t (worker_loop now later (ps_pool s) e) s)"
| finish: "ps_worker s t = Some (Working e k) \<Longrightarrow>
    pool_run s (set_worker t (worker_done now later (ps_pool s) e k) s)"

definition pool_step :: "'w pool_sys \<Rightarrow> 'w pool_sys \<Rightarrow> bool" where
  "pool_step s s' \<longleftrightarrow> pool_call s s' \<or> pool_run s s'"

definition pool_reachable :: "nat \<Rightarrow> nat \<Rightarrow> 'w pool_sys \<Rightarrow> bool" where
  "pool_reachable init_threads max_threads = pool_step\<^sup>*\<^sup>* (etch_apr_thread_pool_create init_threads max_threads)"

section \<open>Rings without their order\<close>

text \<open>What holds for tasks of any priorities: the index points into the queue, the rings are disjoint.\<close>

definition idx_ok :: "'w thread_pool \<Rightarrow> bool" where
  "idx_ok me \<longleftrightarrow> length (tp_task_idx me) = TASK_PRIORITY_SEGS
     \<and> (\<forall>s < TASK_PRIORITY_SEGS. \<forall>i. tp_task_idx me ! s = Some i \<longrightarrow> i \<in> set (tp_tasks me) \<and> TASK_PRIORITY_SEG me i = s)"

definition all_tasks :: "'w thread_pool \<Rightarrow> nat list" where
  "all_tasks me = tp_tasks me @ tp_scheduled_tasks me @ tp_recycled_tasks me"

definition rings_ok :: "'w thread_pool \<Rightarrow> bool" where
  "rings_ok me \<longleftrightarrow> idx_ok me \<and> tp_task_cnt me = length (tp_tasks me)
     \<and> tp_scheduled_task_cnt me = length (tp_scheduled_tasks me)
     \<and> distinct (all_tasks me) \<and> (\<forall>t \<in> set (all_tasks me). t < tp_task_brk me)"

lemma insert_before_set [simp]: "set (ring_insert_before loc t xs) = insert t (set xs)"
  by (induction xs) auto

lemma insert_before_length [simp]: "length (ring_insert_before loc t xs) = length xs + 1"
  by (induction xs) auto

lemma insert_before_distinct: "distinct xs \<Longrightarrow> t \<notin> set xs \<Longrightarrow> distinct (ring_insert_before loc t xs)"
  by (induction xs) auto

lemma ring_next_mem: "distinct xs \<Longrightarrow> ring_next xs t = Some n \<Longrightarrow> n \<in> set xs \<and> n \<noteq> t"
proof (induction xs)
  case (Cons a xs)
  then show ?case by (cases xs) (auto split: if_splits)
qed simp

lemma TASK_PRIORITY_SEG_less: "TASK_PRIORITY_SEG me t < TASK_PRIORITY_SEGS"
  by (simp add: TASK_PRIORITY_SEG_def seg_less)

lemma seg_updates [simp]:
  "TASK_PRIORITY_SEG (me\<lparr>tp_tasks := a\<rparr>) = TASK_PRIORITY_SEG me"
  "TASK_PRIORITY_SEG (me\<lparr>tp_task_idx := b\<rparr>) = TASK_PRIORITY_SEG me"
  "TASK_PRIORITY_SEG (me\<lparr>tp_task_cnt := c\<rparr>) = TASK_PRIORITY_SEG me"
  by (simp_all add: TASK_PRIORITY_SEG_def [abs_def] task_priority_def [abs_def])

lemma idx_ok_upd:
  assumes "idx_ok me" and "t \<in> xs" and "set (tp_tasks me) \<subseteq> xs" and "TASK_PRIORITY_SEG me t = seg"
    and "\<And>i. (tp_task_idx me)[seg := Some t] ! seg = Some i \<Longrightarrow> True"
  shows "length ((tp_task_idx me)[seg := Some t]) = TASK_PRIORITY_SEGS
    \<and> (\<forall>s < TASK_PRIORITY_SEGS. \<forall>i. (tp_task_idx me)[seg := Some t] ! s = Some i \<longrightarrow> i \<in> xs \<and> TASK_PRIORITY_SEG me i = s)"
proof -
  have "seg < length (tp_task_idx me)" using assms(1,4) TASK_PRIORITY_SEG_less [of me t] by (simp add: idx_ok_def)
  then show ?thesis using assms by (auto simp: idx_ok_def nth_list_update)
qed

lemma link_task_rings:
  assumes "rings_ok me" and "t \<notin> set (all_tasks me)" and "t < tp_task_brk me"
  shows "rings_ok ((link_task me t push)\<lparr>tp_task_cnt := tp_task_cnt me + 1\<rparr>)
    \<and> (\<exists>xs idx. link_task me t push = me\<lparr>tp_tasks := xs, tp_task_idx := idx\<rparr> \<and> set xs = insert t (set (tp_tasks me)))"
proof -
  let ?seg = "TASK_PRIORITY_SEG me t"
  have ok: "idx_ok me" "tp_task_cnt me = length (tp_tasks me)" "distinct (all_tasks me)" using assms(1) by (simp_all add: rings_ok_def)
  have "\<exists>loc idx. link_task me t push = me\<lparr>tp_tasks := ring_insert_before loc t (tp_tasks me), tp_task_idx := idx\<rparr>
      \<and> (idx = tp_task_idx me \<or> idx = (tp_task_idx me)[?seg := Some t])"
  proof (cases "tp_task_idx me ! ?seg")
    case None
    then show ?thesis by (auto simp: link_task_def add_if_empty_def Let_def)
  next
    case (Some i)
    define t_loc where "t_loc = first_not_above me (task_priority me t) (ring_from (tp_tasks me) i)"
    define loc where "loc = (if push then (case t_loc of None \<Rightarrow> None
      | Some i \<Rightarrow> first_below me (task_priority me t) (ring_from (tp_tasks me) i)) else t_loc)"
    let ?c = "\<not> push \<and> loc \<noteq> None \<and> loc = tp_task_idx me ! ?seg"
    have "add_if_empty me t = Inr t_loc" using Some by (simp add: add_if_empty_def t_loc_def)
    then have eq: "link_task me t push = (if ?c
        then me\<lparr>tp_tasks := ring_insert_before loc t (tp_tasks me), tp_task_idx := (tp_task_idx me)[?seg := Some t]\<rparr>
        else me\<lparr>tp_tasks := ring_insert_before loc t (tp_tasks me)\<rparr>)"
      by (auto simp: link_task_def Let_def loc_def [symmetric])
    show ?thesis
    proof (cases ?c)
      case True
      show ?thesis unfolding eq if_P [OF True] by blast
    next
      case False
      show ?thesis unfolding eq if_not_P [OF False] by (intro exI [of _ loc] exI [of _ "tp_task_idx me"]) simp
    qed
  qed
  then obtain loc idx where l: "link_task me t push = me\<lparr>tp_tasks := ring_insert_before loc t (tp_tasks me), tp_task_idx := idx\<rparr>"
    "idx = tp_task_idx me \<or> idx = (tp_task_idx me)[?seg := Some t]" by blast
  let ?m = "me\<lparr>tp_tasks := ring_insert_before loc t (tp_tasks me), tp_task_idx := idx, tp_task_cnt := tp_task_cnt me + 1\<rparr>"
  have sg: "TASK_PRIORITY_SEG ?m = TASK_PRIORITY_SEG me" by (simp add: TASK_PRIORITY_SEG_def [abs_def] task_priority_def [abs_def])
  have "idx_ok ?m" using l(2) ok(1) idx_ok_upd [OF ok(1), of t "insert t (set (tp_tasks me))"]
    by (auto simp: idx_ok_def sg)
  moreover have "distinct (all_tasks ?m)" using ok(3) assms(2) insert_before_distinct [of "tp_tasks me" t loc]
    by (auto simp: all_tasks_def)
  ultimately have "rings_ok ?m" using assms ok by (auto simp: rings_ok_def all_tasks_def)
  then show ?thesis using l(1) by auto
qed


lemma unlink_task_rings:
  assumes "rings_ok me" and "t \<in> set (tp_tasks me)"
  shows "rings_ok (unlink_task me t) \<and> (\<exists>idx. unlink_task me t
    = me\<lparr>tp_tasks := remove1 t (tp_tasks me), tp_task_cnt := tp_task_cnt me - 1, tp_task_idx := idx\<rparr>)"
proof -
  let ?seg = "TASK_PRIORITY_SEG me t" and ?m = "unlink_task me t"
  have ok: "idx_ok me" "tp_task_cnt me = length (tp_tasks me)" "distinct (all_tasks me)" using assms(1) by (simp_all add: rings_ok_def)
  have d: "distinct (tp_tasks me)" using ok(3) by (simp add: all_tasks_def)
  have sg: "TASK_PRIORITY_SEG ?m = TASK_PRIORITY_SEG me"
    by (simp add: TASK_PRIORITY_SEG_def [abs_def] task_priority_def [abs_def] unlink_task_def Let_def)
  have "i \<in> set (tp_tasks me) \<and> i \<noteq> t \<and> TASK_PRIORITY_SEG me i = s"
    if "s < TASK_PRIORITY_SEGS" "tp_task_idx ?m ! s = Some i" for s i
  proof -
    have sl: "?seg < length (tp_task_idx me)" using ok(1) TASK_PRIORITY_SEG_less [of me t] by (simp add: idx_ok_def)
    show ?thesis
    proof (cases "s = ?seg \<and> tp_task_idx me ! ?seg = Some t")
      case True
      then have "ring_next (tp_tasks me) t = Some i \<and> TASK_PRIORITY_SEG me i = ?seg"
        using that(2) sl by (auto simp: unlink_task_def Let_def split: option.splits if_splits)
      then show ?thesis using ring_next_mem [OF d] True by blast
    next
      case False
      then have "tp_task_idx me ! s = Some i" using that(2) by (auto simp: unlink_task_def Let_def split: if_splits)
      then show ?thesis using False ok(1) that(1) by (auto simp: idx_ok_def)
    qed
  qed
  moreover have "length (tp_task_idx ?m) = TASK_PRIORITY_SEGS" using ok(1) by (simp add: idx_ok_def unlink_task_def Let_def)
  moreover have t: "tp_tasks ?m = remove1 t (tp_tasks me)" by (simp add: unlink_task_def Let_def)
  ultimately have "idx_ok ?m" using d by (auto simp: idx_ok_def sg)
  then have "rings_ok ?m" using assms ok(2,3) d
    by (auto simp: rings_ok_def all_tasks_def unlink_task_def Let_def length_remove1)
  moreover have "?m = me\<lparr>tp_tasks := remove1 t (tp_tasks me), tp_task_cnt := tp_task_cnt me - 1, tp_task_idx := tp_task_idx ?m\<rparr>"
    by (simp add: unlink_task_def Let_def)
  ultimately show ?thesis by blast
qed

lemma idx_ok_cong: "tp_tasks a = tp_tasks b \<Longrightarrow> tp_task_idx a = tp_task_idx b \<Longrightarrow>
   (\<And>x. x \<in> set (tp_tasks b) \<Longrightarrow> TASK_PRIORITY_SEG a x = TASK_PRIORITY_SEG b x) \<Longrightarrow> idx_ok b \<Longrightarrow> idx_ok a"
  by (simp add: idx_ok_def)

lemma seg_cong: "tp_task a = tp_task b \<Longrightarrow> TASK_PRIORITY_SEG a = TASK_PRIORITY_SEG b"
  by (simp add: TASK_PRIORITY_SEG_def [abs_def] task_priority_def [abs_def])

lemma rings_ok_same: "same_queue a b \<Longrightarrow> rings_ok a = rings_ok b"
  using seg_cong [of a b] by (simp add: same_queue_def rings_ok_def idx_ok_def all_tasks_def)

text \<open>Taking a task out: it is in no ring afterwards.\<close>

lemma pop_task_rings:
  assumes "rings_ok me" and "pop_task now me = (r, me')"
  shows "rings_ok me' \<and> (case r of None \<Rightarrow> me' = me
    | Some t \<Rightarrow> t \<in> set (tp_tasks me @ tp_scheduled_tasks me) \<and> set (all_tasks me') = set (all_tasks me) - {t})
    \<and> tp_recycled_tasks me' = tp_recycled_tasks me \<and> tp_task_brk me' = tp_task_brk me \<and> tp_thd_cnt me' = tp_thd_cnt me
    \<and> tp_elt me' = tp_elt me"
proof -
  have ok: "tp_task_cnt me = length (tp_tasks me)" "tp_scheduled_task_cnt me = length (tp_scheduled_tasks me)"
    "distinct (all_tasks me)" using assms(1) by (simp_all add: rings_ok_def)
  consider (due) u us where "tp_scheduled_tasks me = u # us" "r = Some u"
      "me' = me\<lparr>tp_scheduled_task_cnt := length us, tp_scheduled_tasks := us\<rparr>"
    | (none) "r = None" "me' = me"
    | (first) "tp_tasks me \<noteq> []" "r = Some (hd (tp_tasks me))" "me' = unlink_task me (hd (tp_tasks me))"
    using assms(2) ok(1,2) by (auto simp: pop_task_def split: list.splits if_splits)
  then show ?thesis
  proof cases
    case due
    then have "idx_ok me'" using assms(1) seg_cong [of me' me] by (intro idx_ok_cong [of me' me]) (auto simp: rings_ok_def)
    then show ?thesis using due assms(1) ok by (auto simp: rings_ok_def all_tasks_def)
  next
    case none
    then show ?thesis using assms(1) by simp
  next
    case first
    then have h: "hd (tp_tasks me) \<in> set (tp_tasks me)" by simp
    from unlink_task_rings [OF assms(1) h] obtain idx where l: "rings_ok me'"
      "me' = me\<lparr>tp_tasks := remove1 (hd (tp_tasks me)) (tp_tasks me), tp_task_cnt := tp_task_cnt me - 1, tp_task_idx := idx\<rparr>"
      using first(3) by auto
    then show ?thesis using first(2) h ok(3) by (auto simp: all_tasks_def)
  qed
qed

lemma task_new_rings:
  assumes "rings_ok me" and "task_new now me work p owner time = (t, me')"
  shows "rings_ok me' \<and> t \<notin> set (all_tasks me') \<and> t < tp_task_brk me' \<and> tp_task_brk me \<le> tp_task_brk me'
    \<and> (t \<in> set (tp_recycled_tasks me) \<or> t = tp_task_brk me) \<and> set (all_tasks me') \<subseteq> set (all_tasks me)
    \<and> tp_thd_cnt me' = tp_thd_cnt me \<and> tp_elt me' = tp_elt me"
proof -
  have ok: "idx_ok me" "distinct (all_tasks me)" "\<forall>t \<in> set (all_tasks me). t < tp_task_brk me" using assms(1) by (simp_all add: rings_ok_def)
  have r: "tp_tasks me' = tp_tasks me" "tp_task_idx me' = tp_task_idx me" "\<forall>x. x \<noteq> t \<longrightarrow> tp_task me' x = tp_task me x"
    "t = (case tp_recycled_tasks me of [] \<Rightarrow> tp_task_brk me | u # _ \<Rightarrow> u)"
    using assms(2) by (auto simp: task_new_def Let_def split: list.splits)
  have t: "t \<notin> set (tp_tasks me)" using r(4) ok(2,3) by (auto simp: all_tasks_def split: list.splits)
  then have "x \<in> set (tp_tasks me) \<Longrightarrow> TASK_PRIORITY_SEG me' x = TASK_PRIORITY_SEG me x" for x
    using r(3) by (metis TASK_PRIORITY_SEG_def task_priority_def)
  then have "idx_ok me'" using idx_ok_cong [OF r(1,2) _ ok(1)] by blast
  moreover have "\<forall>u \<in> set (all_tasks me). u < Suc (tp_task_brk me)" using ok(3) by (simp add: less_SucI)
  ultimately show ?thesis using assms ok(2,3)
    by (cases "tp_recycled_tasks me") (auto simp: rings_ok_def all_tasks_def task_new_def Let_def)
qed

text \<open>What a step leaves in the rings, and the counters that only threads change.\<close>

definition same_limits :: "'w thread_pool \<Rightarrow> 'w thread_pool \<Rightarrow> bool" where
  "same_limits a b \<longleftrightarrow> tp_thd_max a = tp_thd_max b \<and> tp_task_brk a = tp_task_brk b"

lemma count_thread_rings [simp]:
  "rings_ok (count_thread create me) = rings_ok me" "all_tasks (count_thread create me) = all_tasks me"
  "tp_task_brk (count_thread create me) = tp_task_brk me" "tp_thd_max (count_thread create me) = tp_thd_max me"
  "tp_thd_cnt (count_thread create me) = (if create = APR_SUCCESS then tp_thd_cnt me + 1 else tp_thd_cnt me)"
  using rings_ok_same [OF count_thread_same [of create me]]
  by (simp_all add: count_thread_def all_tasks_def Let_def)

lemma high_rings [simp]:
  "rings_ok (me\<lparr>tp_tasks_high := n\<rparr>) = rings_ok me" "all_tasks (me\<lparr>tp_tasks_high := n\<rparr>) = all_tasks me"
  by (rule rings_ok_same) (simp_all add: same_queue_def all_tasks_def)

lemma add_task_rings:
  assumes "rings_ok me" and "add_task create now me work p push owner = (rv, created, me')"
  shows "rings_ok me' \<and> tp_task_brk me \<le> tp_task_brk me' \<and> tp_thd_max me' = tp_thd_max me
    \<and> set (all_tasks me') \<subseteq> insert (tp_task_brk me) (set (all_tasks me))
    \<and> tp_thd_cnt me' = (if created then tp_thd_cnt me + 1 else tp_thd_cnt me)
    \<and> (created \<longrightarrow> tp_thd_cnt me = 0 \<or> tp_thd_cnt me < tp_thd_max me)"
proof -
  obtain t m where n: "task_new now me work p owner 0 = (t, m)" by (cases "task_new now me work p owner 0")
  note tn = task_new_rings [OF assms(1) n]
  have mx: "tp_thd_max m = tp_thd_max me" using n by (auto simp: task_new_def Let_def split: list.splits)
  let ?l = "(link_task m t push)\<lparr>tp_task_cnt := tp_task_cnt m + 1\<rparr>"
  have pre: "rings_ok m" "t \<notin> set (all_tasks m)" "t < tp_task_brk m" "set (all_tasks m) \<subseteq> set (all_tasks me)"
    "t \<in> insert (tp_task_brk me) (set (all_tasks me))" "tp_task_brk me \<le> tp_task_brk m" "tp_thd_cnt m = tp_thd_cnt me"
    using tn by (simp_all add: all_tasks_def) (elim disjE conjE; simp)?
  obtain xs idx where l: "rings_ok ?l"
    "link_task m t push = m\<lparr>tp_tasks := xs, tp_task_idx := idx\<rparr>" "set xs = insert t (set (tp_tasks m))"
    using link_task_rings [OF pre(1-3), of push] by blast
  have "set (all_tasks ?l) = insert t (set (all_tasks m))" unfolding l(2) all_tasks_def by (simp add: l(3))
  then have a: "set (all_tasks ?l) \<subseteq> insert (tp_task_brk me) (set (all_tasks me))" using pre(4,5) by fast
  define h where "h = ?l\<lparr>tp_tasks_high := (if tp_task_cnt ?l > tp_tasks_high ?l then tp_task_cnt ?l else tp_tasks_high ?l)\<rparr>"
  have cnt: "tp_task_cnt (link_task m t push) = tp_task_cnt m" by (simp add: l(2))
  have h: "rings_ok h" "all_tasks h = all_tasks ?l" using l(1) by (simp_all add: h_def)
  have hs: "tp_thd_cnt h = tp_thd_cnt me" "tp_thd_max h = tp_thd_max me" "tp_task_brk h = tp_task_brk m"
    using pre(7) mx unfolding h_def l(2) by simp_all
  have "add_task create now me work p push owner =
      (if tp_thd_cnt h = 0 \<or> tp_idle_cnt h = 0 \<and> tp_thd_cnt h < tp_thd_max h \<and> tp_task_cnt h > tp_threshold h
       then (create, create = APR_SUCCESS, count_thread create h) else (APR_SUCCESS, False, h))"
    unfolding add_task_def n Let_def prod.case h_def cnt [symmetric] by (rule refl)
  then have "(me' = (if created then count_thread APR_SUCCESS h else h))
    \<and> (created \<longrightarrow> tp_thd_cnt h = 0 \<or> tp_thd_cnt h < tp_thd_max h)"
    using assms(2) by (auto simp: count_thread_def split: if_splits)
  then show ?thesis using a h hs pre(6) by (cases created) (simp_all only: if_True if_False count_thread_rings, auto)
qed

lemma scheduled_rings:
  assumes "rings_ok me" and "tp_tasks me' = tp_tasks me" and "tp_task_idx me' = tp_task_idx me" and "tp_task me' = tp_task me"
    and "tp_task_cnt me' = tp_task_cnt me" and "tp_scheduled_task_cnt me' = length (tp_scheduled_tasks me')"
    and "distinct (all_tasks me')" and "\<forall>t \<in> set (all_tasks me'). t < tp_task_brk me'"
  shows "rings_ok me'"
  using assms idx_ok_cong [of me' me] seg_cong [of me' me] by (simp add: rings_ok_def)

lemma schedule_task_rings:
  assumes "rings_ok me" and "schedule_task create stray now me work owner time = (rv, created, me')"
  shows "rings_ok me' \<and> tp_task_brk me \<le> tp_task_brk me' \<and> tp_thd_max me' = tp_thd_max me
    \<and> set (all_tasks me') \<subseteq> insert (tp_task_brk me) (set (all_tasks me))
    \<and> tp_thd_cnt me' = (if created then tp_thd_cnt me + 1 else tp_thd_cnt me)
    \<and> (created \<longrightarrow> tp_thd_cnt me = 0 \<or> tp_thd_cnt me < tp_thd_max me)"
proof -
  obtain t m where n: "task_new now me work 0 owner time = (t, m)" by (cases "task_new now me work 0 owner time")
  note tn = task_new_rings [OF assms(1) n]
  have mx: "tp_thd_max m = tp_thd_max me" using n by (auto simp: task_new_def Let_def split: list.splits)
  have pre: "rings_ok m" "t \<notin> set (all_tasks m)" "t < tp_task_brk m" "set (all_tasks m) \<subseteq> set (all_tasks me)"
    "t \<in> insert (tp_task_brk me) (set (all_tasks me))" "tp_task_brk me \<le> tp_task_brk m" "tp_thd_cnt m = tp_thd_cnt me"
    using tn by (simp_all add: all_tasks_def) (elim disjE conjE; simp)?
  have "\<exists>loc. schedule_link stray m t = m\<lparr>tp_scheduled_task_cnt := tp_scheduled_task_cnt m + 1,
      tp_scheduled_tasks := ring_insert_before loc t (tp_scheduled_tasks m)\<rparr>"
  proof (cases "tp_scheduled_tasks m")
    case Nil
    then show ?thesis by (intro exI [of _ None]) (simp add: schedule_link_def)
  next
    case (Cons u us)
    then show ?thesis
      by (intro exI [of _ "schedule_place stray m (task_time m t) (u # us)"]) (simp add: schedule_link_def del: schedule_place.simps)
  qed
  then obtain loc where l: "schedule_link stray m t = m\<lparr>tp_scheduled_task_cnt := tp_scheduled_task_cnt m + 1,
      tp_scheduled_tasks := ring_insert_before loc t (tp_scheduled_tasks m)\<rparr>" by blast
  define h where "h = schedule_link stray m t"
  have ah: "set (all_tasks h) = insert t (set (all_tasks m))" unfolding h_def l all_tasks_def by simp
  have ok: "distinct (all_tasks m)" "tp_scheduled_task_cnt m = length (tp_scheduled_tasks m)"
    "\<forall>t \<in> set (all_tasks m). t < tp_task_brk m" using pre(1) by (simp_all add: rings_ok_def)
  have dh: "distinct (all_tasks h)" using ok(1) pre(2) insert_before_distinct [of "tp_scheduled_tasks m" t loc]
    unfolding h_def l all_tasks_def by auto
  have hs: "tp_thd_cnt h = tp_thd_cnt me" "tp_thd_max h = tp_thd_max me" "tp_task_brk h = tp_task_brk m"
    using pre(7) mx unfolding h_def l by simp_all
  have rh: "rings_ok h"
  proof (rule scheduled_rings [OF pre(1)])
    show "\<forall>t \<in> set (all_tasks h). t < tp_task_brk h" using ah hs(3) ok(3) pre(3) by simp
    show "tp_scheduled_task_cnt h = length (tp_scheduled_tasks h)" unfolding h_def l by (simp add: ok(2))
  qed (use dh in \<open>simp_all add: h_def l\<close>)
  have "schedule_task create stray now me work owner time =
      (if tp_thd_cnt h = 0 then (create, create = APR_SUCCESS, count_thread create h) else (APR_SUCCESS, False, h))"
    unfolding schedule_task_def n Let_def prod.case h_def by (rule refl)
  then have "(me' = (if created then count_thread APR_SUCCESS h else h)) \<and> (created \<longrightarrow> tp_thd_cnt h = 0)"
    using assms(2) by (auto simp: count_thread_def split: if_splits)
  then show ?thesis using ah hs rh pre(4-6) by (cases created) (simp_all only: if_True if_False count_thread_rings, auto)
qed

text \<open>Cancelling.\<close>

definition fewer_tasks :: "'w thread_pool \<Rightarrow> 'w thread_pool \<Rightarrow> bool" where
  "fewer_tasks me' me \<longleftrightarrow> rings_ok me' \<and> set (all_tasks me') \<subseteq> set (all_tasks me) \<and> tp_task_brk me' = tp_task_brk me
     \<and> tp_thd_max me' = tp_thd_max me \<and> tp_thd_cnt me' = tp_thd_cnt me"

lemma fewer_tasks_refl: "rings_ok me \<Longrightarrow> fewer_tasks me me"
  by (simp add: fewer_tasks_def)

lemma fewer_tasks_trans: "fewer_tasks a b \<Longrightarrow> fewer_tasks b c \<Longrightarrow> fewer_tasks a c"
  by (auto simp: fewer_tasks_def)

lemma fewer_unlink: "rings_ok me \<Longrightarrow> t \<in> set (tp_tasks me) \<Longrightarrow> fewer_tasks (unlink_task me t) me"
  using unlink_task_rings [of me t] set_remove1_subset [of t "tp_tasks me"] by (auto simp: fewer_tasks_def all_tasks_def)

lemma fewer_remove_tasks:
  "rings_ok me \<Longrightarrow> set xs \<subseteq> set (tp_tasks me) \<Longrightarrow> distinct xs \<Longrightarrow>
   fewer_tasks (fold (\<lambda>t_loc me. if tk_owner (tp_task me t_loc) = owner then unlink_task me t_loc else me) xs me) me"
proof (induction xs arbitrary: me)
  case (Cons x xs)
  show ?case
  proof (cases "tk_owner (tp_task me x) = owner")
    case True
    have x: "x \<in> set (tp_tasks me)" using Cons.prems(2) by simp
    have "rings_ok (unlink_task me x)" and "tp_tasks (unlink_task me x) = remove1 x (tp_tasks me)"
      using unlink_task_rings [OF Cons.prems(1) x] by auto
    then have "fewer_tasks (fold (\<lambda>t_loc me. if tk_owner (tp_task me t_loc) = owner then unlink_task me t_loc else me) xs
        (unlink_task me x)) (unlink_task me x)"
      using Cons.prems Cons.IH [of "unlink_task me x"] by (auto simp: rings_ok_def all_tasks_def in_set_remove1)
    from fewer_tasks_trans [OF this fewer_unlink [OF Cons.prems(1) x]] show ?thesis using True by simp
  qed (use Cons in simp)
qed (simp add: fewer_tasks_refl)

lemma fewer_remove_scheduled:
  "rings_ok me \<Longrightarrow> set xs \<subseteq> set (tp_scheduled_tasks me) \<Longrightarrow> distinct xs \<Longrightarrow>
   fewer_tasks (fold (\<lambda>t_loc me. if tk_owner (tp_task me t_loc) = owner
     then me\<lparr>tp_scheduled_task_cnt := tp_scheduled_task_cnt me - 1,
             tp_scheduled_tasks := remove1 t_loc (tp_scheduled_tasks me)\<rparr> else me) xs me) me"
proof (induction xs arbitrary: me)
  case (Cons x xs)
  show ?case
  proof (cases "tk_owner (tp_task me x) = owner")
    case True
    let ?m = "me\<lparr>tp_scheduled_task_cnt := tp_scheduled_task_cnt me - 1,
      tp_scheduled_tasks := remove1 x (tp_scheduled_tasks me)\<rparr>"
    have x: "x \<in> set (tp_scheduled_tasks me)" using Cons.prems(2) by simp
    have ok: "distinct (all_tasks me)" "tp_scheduled_task_cnt me = length (tp_scheduled_tasks me)"
      "\<forall>t \<in> set (all_tasks me). t < tp_task_brk me" using Cons.prems(1) by (simp_all add: rings_ok_def)
    have sub: "set (all_tasks ?m) \<subseteq> set (all_tasks me)"
      using set_remove1_subset [of x "tp_scheduled_tasks me"] by (auto simp: all_tasks_def)
    have r: "rings_ok ?m"
    proof (rule scheduled_rings [OF Cons.prems(1)])
      show "distinct (all_tasks ?m)" using ok(1) by (auto simp: all_tasks_def)
    qed (use ok sub x in \<open>auto simp: length_remove1\<close>)
    have "set xs \<subseteq> set (remove1 x (tp_scheduled_tasks me))" using Cons.prems(2,3) ok(1)
      by (auto simp: all_tasks_def)
    then have "set xs \<subseteq> set (tp_scheduled_tasks ?m)" by simp
    with r Cons.prems(3) Cons.IH [of ?m] have "fewer_tasks (fold (\<lambda>t_loc me. if tk_owner (tp_task me t_loc) = owner
        then me\<lparr>tp_scheduled_task_cnt := tp_scheduled_task_cnt me - 1,
                tp_scheduled_tasks := remove1 t_loc (tp_scheduled_tasks me)\<rparr> else me) xs ?m) ?m" by simp
    from fewer_tasks_trans [OF this, of me] show ?thesis using True r sub by (simp add: fewer_tasks_def)
  qed (use Cons in simp)
qed (simp add: fewer_tasks_refl)

lemma fewer_cancel: "rings_ok me \<Longrightarrow> fewer_tasks (cancel_tasks owner me) me"
proof -
  assume r: "rings_ok me"
  define m where "m = (if tp_task_cnt me > 0 then remove_tasks owner me else me)"
  have d: "rings_ok x \<Longrightarrow> distinct (tp_tasks x) \<and> distinct (tp_scheduled_tasks x)" for x :: "'a thread_pool"
    by (simp add: rings_ok_def all_tasks_def)
  have m: "fewer_tasks m me" using r d [OF r] fewer_remove_tasks [OF r, of "tp_tasks me" owner]
    by (simp add: m_def remove_tasks_def fewer_tasks_refl)
  then have rm: "rings_ok m" by (simp add: fewer_tasks_def)
  have "fewer_tasks (cancel_tasks owner me) m" using d [OF rm] fewer_remove_scheduled [OF rm, of "tp_scheduled_tasks m" owner]
    by (simp add: cancel_tasks_def m_def [symmetric] remove_scheduled_tasks_def fewer_tasks_refl rm)
  then show ?thesis using fewer_tasks_trans m by blast
qed

section \<open>The invariant\<close>

definition held :: "worker \<Rightarrow> nat set" where
  "held w = (case w of Working e k \<Rightarrow> {k} | _ \<Rightarrow> {})"

definition live :: "'w pool_sys \<Rightarrow> nat set" where
  "live s = {t. \<exists>w. ps_worker s t = Some w \<and> w \<noteq> Finished}"

definition sys_ok :: "nat \<Rightarrow> nat \<Rightarrow> 'w pool_sys \<Rightarrow> bool" where
  "sys_ok init_threads max_threads s \<longleftrightarrow> rings_ok (ps_pool s) \<and> tp_thd_max (ps_pool s) = max_threads
     \<and> finite (live s) \<and> tp_thd_cnt (ps_pool s) = card (live s) \<and> card (live s) \<le> max init_threads (max 1 max_threads)
     \<and> (\<forall>t \<ge> ps_next s. ps_worker s t = None)
     \<and> (\<forall>t w. ps_worker s t = Some w \<longrightarrow> held w \<subseteq> {..< tp_task_brk (ps_pool s)} - set (all_tasks (ps_pool s)))
     \<and> (\<forall>t u v w. t \<noteq> u \<longrightarrow> ps_worker s t = Some v \<longrightarrow> ps_worker s u = Some w \<longrightarrow> held v \<inter> held w = {})"

lemma held_simps [simp]: "held Starting = {}" "held (Working e k) = {k}" "held (Going_idle e w) = {}"
  "held (Waiting e w) = {}" "held (Awake e) = {}" "held Finished = {}"
  by (simp_all add: held_def)

lemma sys_ok_held: "sys_ok i m s \<Longrightarrow> ps_worker s t = Some w \<Longrightarrow>
   held w \<subseteq> {..< tp_task_brk (ps_pool s)} - set (all_tasks (ps_pool s))"
  unfolding sys_ok_def by blast

text \<open>A call that adds or removes tasks, and perhaps a thread.\<close>

lemma sys_ok_call:
  assumes "sys_ok i m s" and "rings_ok me'" and "tp_task_brk (ps_pool s) \<le> tp_task_brk me'" and "tp_thd_max me' = tp_thd_max (ps_pool s)"
    and "set (all_tasks me') \<subseteq> insert (tp_task_brk (ps_pool s)) (set (all_tasks (ps_pool s)))"
    and "tp_thd_cnt me' = (if created then tp_thd_cnt (ps_pool s) + 1 else tp_thd_cnt (ps_pool s))"
    and "created \<longrightarrow> tp_thd_cnt (ps_pool s) = 0 \<or> tp_thd_cnt (ps_pool s) < tp_thd_max (ps_pool s)"
  shows "sys_ok i m (spawn created (s\<lparr>ps_pool := me', ps_signals := n\<rparr>))"
proof -
  let ?s = "spawn created (s\<lparr>ps_pool := me', ps_signals := n\<rparr>)"
  have w: "ps_worker ?s = (if created then (ps_worker s)(ps_next s \<mapsto> Starting) else ps_worker s)"
    "ps_pool ?s = me'" "ps_next ?s = (if created then ps_next s + 1 else ps_next s)"
    by (simp_all add: spawn_def)
  have new: "ps_next s \<notin> live s" and f: "finite (live s)" using assms(1) by (auto simp: sys_ok_def live_def)
  have l: "live ?s = (if created then insert (ps_next s) (live s) else live s)" using w(1) by (auto simp: live_def)
  have c: "card (live ?s) = (if created then card (live s) + 1 else card (live s))" using l new f by simp
  have h: "held v \<subseteq> {..< tp_task_brk me'} - set (all_tasks me')" if "ps_worker s t = Some v" for t v
  proof -
    have "held v \<subseteq> {..< tp_task_brk (ps_pool s)} - set (all_tasks (ps_pool s))" using assms(1) that by (simp add: sys_ok_def)
    then show ?thesis using assms(3,5) by fastforce
  qed
  have "\<forall>t v. ps_worker ?s t = Some v \<longrightarrow> held v \<subseteq> {..< tp_task_brk me'} - set (all_tasks me')"
    using h by (simp add: w(1))
  moreover have "\<forall>t u v x. t \<noteq> u \<longrightarrow> ps_worker ?s t = Some v \<longrightarrow> ps_worker ?s u = Some x \<longrightarrow> held v \<inter> held x = {}"
    using assms(1) unfolding w(1) sys_ok_def by (auto split: if_splits)
  moreover have "\<forall>t \<ge> ps_next ?s. ps_worker ?s t = None" using assms(1) by (auto simp: w sys_ok_def)
  moreover have "finite (live ?s)" using l f by simp
  moreover have "tp_thd_cnt me' = card (live ?s)" "card (live ?s) \<le> max i (max 1 m)"
    using c assms(1,6,7) by (auto simp: sys_ok_def)
  ultimately show ?thesis using assms(1,2,4) by (simp add: sys_ok_def w(2))
qed

text \<open>A step of one worker.\<close>

definition worker_moves :: "'w thread_pool \<Rightarrow> nat set \<Rightarrow> 'w thread_pool \<Rightarrow> worker \<Rightarrow> bool" where
  "worker_moves me A me' w \<longleftrightarrow> rings_ok me' \<and> tp_task_brk me' = tp_task_brk me \<and> tp_thd_max me' = tp_thd_max me
     \<and> set (all_tasks me') \<union> held w \<subseteq> A \<and> set (all_tasks me') \<inter> held w = {}
     \<and> tp_thd_cnt me' = (if w = Finished then tp_thd_cnt me - 1 else tp_thd_cnt me)"

lemma disjoint_moves:
  "H \<subseteq> {..< n} - A \<Longrightarrow> H \<inter> V = {} \<Longrightarrow> A' \<union> W \<subseteq> A \<union> V \<Longrightarrow> H \<subseteq> {..< (n::nat)} - A' \<and> H \<inter> W = {}"
  by blast

lemma sys_ok_worker:
  assumes "sys_ok i m s" and "ps_worker s t = Some v" and "v \<noteq> Finished" and "worker_moves (ps_pool s) (set (all_tasks (ps_pool s)) \<union> held v) me' w"
  shows "sys_ok i m (s\<lparr>ps_pool := me', ps_worker := (ps_worker s)(t \<mapsto> w), ps_signals := n\<rparr>)"
proof -
  let ?s = "s\<lparr>ps_pool := me', ps_worker := (ps_worker s)(t \<mapsto> w), ps_signals := n\<rparr>"
  have t: "t \<in> live s" and f: "finite (live s)" using assms(1-3) by (auto simp: sys_ok_def live_def)
  have l: "live ?s = (if w = Finished then live s - {t} else live s)" using t by (auto simp: live_def)
  have c: "card (live ?s) = (if w = Finished then card (live s) - 1 else card (live s))" using l t f by simp
  have hv: "held v \<subseteq> {..< tp_task_brk (ps_pool s)} - set (all_tasks (ps_pool s))" using assms(1,2) by (simp add: sys_ok_def)
  have r: "\<forall>k \<in> set (all_tasks (ps_pool s)). k < tp_task_brk (ps_pool s)" using assms(1) by (simp add: sys_ok_def rings_ok_def)
  have o: "held x \<subseteq> {..< tp_task_brk (ps_pool s)} - set (all_tasks (ps_pool s)) \<and> held x \<inter> held v = {}"
    if "ps_worker s u = Some x" "u \<noteq> t" for u x using assms(1,2) that by (simp add: sys_ok_def)
  have mv: "rings_ok me'" "tp_task_brk me' = tp_task_brk (ps_pool s)" "tp_thd_max me' = tp_thd_max (ps_pool s)"
    "set (all_tasks me') \<union> held w \<subseteq> set (all_tasks (ps_pool s)) \<union> held v" "set (all_tasks me') \<inter> held w = {}"
    "tp_thd_cnt me' = (if w = Finished then tp_thd_cnt (ps_pool s) - 1 else tp_thd_cnt (ps_pool s))"
    using assms(4) by (simp_all add: worker_moves_def)
  have "set (all_tasks (ps_pool s)) \<subseteq> {..< tp_task_brk (ps_pool s)}" using r by blast
  then have "held w \<subseteq> {..< tp_task_brk me'}" unfolding mv(2) using mv(4) hv by blast
  then have "held w \<subseteq> {..< tp_task_brk me'} - set (all_tasks me')" using mv(5) by blast
  moreover have o': "held x \<subseteq> {..< tp_task_brk me'} - set (all_tasks me') \<and> held x \<inter> held w = {}"
    if "ps_worker s u = Some x" "u \<noteq> t" for u x
    using o [OF that] mv(4) disjoint_moves [of "held x" "tp_task_brk (ps_pool s)"] unfolding mv(2) by blast
  ultimately have "\<forall>u x. ps_worker ?s u = Some x \<longrightarrow> held x \<subseteq> {..< tp_task_brk me'} - set (all_tasks me')" by auto
  moreover have "\<forall>u1 u2 x y. u1 \<noteq> u2 \<longrightarrow> ps_worker ?s u1 = Some x \<longrightarrow> ps_worker ?s u2 = Some y \<longrightarrow> held x \<inter> held y = {}"
  proof (intro allI impI)
    fix u1 u2 x y assume a: "u1 \<noteq> u2" "ps_worker ?s u1 = Some x" "ps_worker ?s u2 = Some y"
    consider "u1 = t" | "u2 = t" | "u1 \<noteq> t" "u2 \<noteq> t" by blast
    then show "held x \<inter> held y = {}"
    proof cases
      case 1 then show ?thesis using a o' [of u2 y] by auto
    next
      case 2 then show ?thesis using a o' [of u1 x] by auto
    next
      case 3 then show ?thesis using a assms(1) by (simp add: sys_ok_def)
    qed
  qed
  moreover have "\<forall>u \<ge> ps_next s. ((ps_worker s)(t \<mapsto> w)) u = None" using assms(1,2) by (auto simp: sys_ok_def)
  moreover have "tp_thd_cnt me' = card (live ?s)" "card (live ?s) \<le> max i (max 1 m)"
    using c mv(6) assms(1) by (auto simp: sys_ok_def)
  moreover have "finite (live ?s)" using l f by simp
  ultimately show ?thesis using assms(1) mv(1,3) by (simp add: sys_ok_def)
qed

lemma worker_rest_moves:
  assumes "rings_ok me" and "set (all_tasks me) \<subseteq> A" and "worker_rest later me elt = (me', w)"
  shows "worker_moves me A me' w"
proof -
  have "same_queue me' me \<and> tp_task_brk me' = tp_task_brk me \<and> tp_thd_max me' = tp_thd_max me \<and> held w = {}
    \<and> tp_thd_cnt me' = (if w = Finished then tp_thd_cnt me - 1 else tp_thd_cnt me)"
    using assms(3) by (auto simp: worker_rest_def Let_def same_queue_def split: if_splits)
  then show ?thesis using assms(1,2) rings_ok_same [of me' me] by (simp add: worker_moves_def same_queue_def all_tasks_def)
qed

lemma worker_run_moves:
  assumes "rings_ok me" and "set (all_tasks me) \<union> set_option task \<subseteq> A" and "set (all_tasks me) \<inter> set_option task = {}"
    and "worker_run later me elt task = (me', w)"
  shows "worker_moves me A me' w"
proof (cases "\<exists>t. task = Some t \<and> \<not> tp_terminated me")
  case True
  then obtain t where t: "task = Some t" "\<not> tp_terminated me" by blast
  then have "same_queue me' me \<and> tp_task_brk me' = tp_task_brk me \<and> tp_thd_max me' = tp_thd_max me \<and> held w = {t}
    \<and> w \<noteq> Finished \<and> tp_thd_cnt me' = tp_thd_cnt me"
    using assms(4) by (auto simp: worker_run_def same_queue_def)
  then show ?thesis using assms(1-3) t(1) rings_ok_same [of me' me] by (simp add: worker_moves_def same_queue_def all_tasks_def)
next
  case False
  then have "worker_rest later me elt = (me', w)" using assms(4) by (auto simp: worker_run_def split: option.splits if_splits)
  from worker_rest_moves [OF assms(1) _ this, of A] show ?thesis using assms(2) by simp
qed

text \<open>Taking a task and running it.\<close>

lemma worker_next_moves:
  assumes "rings_ok me" and "set (all_tasks me) \<subseteq> A"
    and "(case pop_task now me of (task, me) \<Rightarrow> worker_run later me elt task) = (me', w)"
  shows "worker_moves me A me' w"
proof -
  obtain task m where p: "pop_task now me = (task, m)" by (cases "pop_task now me")
  have mx: "tp_thd_max m = tp_thd_max me"
    using p by (auto simp: pop_task_def unlink_task_def Let_def split: list.splits if_splits)
  have q: "rings_ok m" "tp_task_brk m = tp_task_brk me" "tp_thd_cnt m = tp_thd_cnt me"
    "set (all_tasks m) \<union> set_option task \<subseteq> set (all_tasks me)" "set (all_tasks m) \<inter> set_option task = {}"
    using pop_task_rings [OF assms(1) p] by (cases task; simp add: all_tasks_def; blast)+
  have "worker_run later m elt task = (me', w)" using assms(3) p by simp
  moreover have "set (all_tasks m) \<union> set_option task \<subseteq> A" using q(4) assms(2) by blast
  ultimately have "worker_moves m A me' w" using worker_run_moves [OF q(1) _ q(5)] by blast
  then show ?thesis using q(2,3) mx by (simp add: worker_moves_def)
qed

lemma worker_loop_moves:
  assumes "rings_ok me" and "set (all_tasks me) \<subseteq> A" and "worker_loop now later me elt = (me', w)"
  shows "worker_moves me A me' w"
proof (cases "\<not> tp_terminated me \<and> el_state (tp_elt me elt) \<noteq> TH_STOP")
  case True
  define m where "m = (if elt \<in> set (tp_idle_thds me)
    then me\<lparr>tp_idle_cnt := tp_idle_cnt me - 1, tp_idle_thds := remove1 elt (tp_idle_thds me)\<rparr> else me)"
  define m' where "m' = m\<lparr>tp_busy_thds := tp_busy_thds m @ [elt]\<rparr>"
  have e: "(case pop_task now m' of (task, me) \<Rightarrow> worker_run later me elt task) = (me', w)"
    using assms(3) True by (simp add: worker_loop_def Let_def m_def m'_def split: prod.splits)
  have s: "same_queue m' me" "tp_task_brk m' = tp_task_brk me" "tp_thd_max m' = tp_thd_max me" "tp_thd_cnt m' = tp_thd_cnt me"
    by (simp_all add: m_def m'_def same_queue_def)
  have "rings_ok m'" "set (all_tasks m') \<subseteq> A" using s(1) assms(1,2) rings_ok_same [OF s(1)]
    by (simp_all add: same_queue_def all_tasks_def)
  from worker_next_moves [OF this e] show ?thesis using s(2-4) by (simp add: worker_moves_def)
next
  case False
  then have "me' = me\<lparr>tp_thd_cnt := tp_thd_cnt me - 1\<rparr>" "w = Finished" using assms(3) by (auto simp: worker_loop_def)
  then show ?thesis using assms(1,2) rings_ok_same [of me' me] by (simp add: worker_moves_def same_queue_def all_tasks_def)
qed

lemma thread_pool_func_moves:
  assumes "rings_ok me" and "thread_pool_func now later me t = (me', w)"
  shows "worker_moves me (set (all_tasks me)) me' w"
proof -
  obtain e m where n: "elt_new me t = (e, m)" by (cases "elt_new me t")
  have s: "same_queue m me" "tp_task_brk m = tp_task_brk me" "tp_thd_max m = tp_thd_max me" "tp_thd_cnt m = tp_thd_cnt me"
    using n by (auto simp: elt_new_def same_queue_def Let_def split: list.splits)
  have "rings_ok m" "set (all_tasks m) \<subseteq> set (all_tasks me)" using s(1) assms(1) rings_ok_same [OF s(1)]
    by (simp_all add: same_queue_def all_tasks_def)
  from worker_loop_moves [OF this, of now later e me' w] show ?thesis
    using assms(2) n s(2-4) by (simp add: thread_pool_func_def worker_moves_def)
qed

lemma worker_done_moves:
  assumes "rings_ok me" and "k < tp_task_brk me" and "k \<notin> set (all_tasks me)" and "worker_done now later me e k = (me', w)"
  shows "worker_moves me (set (all_tasks me) \<union> {k}) me' w"
proof -
  define m where "m = me\<lparr>tp_recycled_tasks := tp_recycled_tasks me @ [k],
    tp_elt := (tp_elt me)(e := (tp_elt me e)\<lparr>el_current_owner := None\<rparr>)\<rparr>"
  have s: "tp_task_brk m = tp_task_brk me" "tp_thd_max m = tp_thd_max me" "tp_thd_cnt m = tp_thd_cnt me"
    "set (all_tasks m) = set (all_tasks me) \<union> {k}" by (auto simp: m_def all_tasks_def)
  have r: "rings_ok m"
  proof (rule scheduled_rings [OF assms(1)])
    show "distinct (all_tasks m)" using assms(1,3) by (auto simp: rings_ok_def all_tasks_def m_def)
    show "\<forall>t \<in> set (all_tasks m). t < tp_task_brk m" using assms(1,2) s(1,4) by (auto simp: rings_ok_def)
  qed (use assms(1) in \<open>simp_all add: m_def rings_ok_def\<close>)
  have sub: "set (all_tasks m) \<subseteq> set (all_tasks me) \<union> {k}" using s(4) by simp
  have "worker_rest later m e = (me', w)
    \<or> (case pop_task now m of (task, me) \<Rightarrow> worker_run later me e task) = (me', w)"
    using assms(4) by (auto simp: worker_done_def Let_def m_def [symmetric] split: if_splits)
  then have "worker_moves m (set (all_tasks me) \<union> {k}) me' w"
    using worker_rest_moves [OF r sub] worker_next_moves [OF r sub] by blast
  then show ?thesis using s(1-3) by (simp add: worker_moves_def)
qed

lemma sys_ok_create: "sys_ok i m (etch_apr_thread_pool_create i m)"
proof -
  let ?f = "\<lambda>s. let s = spawn True s in s\<lparr>ps_pool := count_thread APR_SUCCESS (ps_pool s)\<rparr>"
  let ?z = "\<lparr>ps_pool = thread_pool_construct i m, ps_worker = Map.empty, ps_next = 0, ps_signals = 0\<rparr> :: 'a pool_sys"
  have "rings_ok (thread_pool_construct i m :: 'a thread_pool)"
    by (simp add: rings_ok_def idx_ok_def all_tasks_def thread_pool_construct_def)
  then have c: "rings_ok (ps_pool ((?f ^^ n) ?z)) \<and> tp_thd_max (ps_pool ((?f ^^ n) ?z)) = m
      \<and> tp_thd_cnt (ps_pool ((?f ^^ n) ?z)) = n \<and> ps_next ((?f ^^ n) ?z) = n
      \<and> ps_worker ((?f ^^ n) ?z) = (\<lambda>t. if t < n then Some Starting else None)" for n
    by (induction n) (auto simp: spawn_def Let_def thread_pool_construct_def)
  let ?s = "etch_apr_thread_pool_create i m :: 'a pool_sys"
  have s: "rings_ok (ps_pool ?s)" "tp_thd_max (ps_pool ?s) = m" "tp_thd_cnt (ps_pool ?s) = i" "ps_next ?s = i"
    "ps_worker ?s = (\<lambda>t. if t < i then Some Starting else None)"
    using c [of i] by (simp_all add: etch_apr_thread_pool_create_def)
  have "live ?s = {..< i}" by (auto simp: live_def s(5))
  then show ?thesis using s(1-4) by (auto simp: sys_ok_def s(5) split: if_splits)
qed

lemma sys_ok_call_step: "pool_call s s' \<Longrightarrow> sys_ok i m s \<Longrightarrow> sys_ok i m s'"
proof (induction rule: pool_call.induct)
  case (add create now s work p push owner rv created me)
  have r: "rings_ok (ps_pool s)" using add.prems by (simp add: sys_ok_def)
  show ?case using add_task_rings [OF r add.hyps] by (intro sys_ok_call [OF add.prems]) simp_all
next
  case (schedule create stray now s work owner time rv created me)
  have r: "rings_ok (ps_pool s)" using schedule.prems by (simp add: sys_ok_def)
  show ?case using schedule_task_rings [OF r schedule.hyps] by (intro sys_ok_call [OF schedule.prems]) simp_all
next
  case (cancel s owner)
  have r: "rings_ok (ps_pool s)" using cancel.prems by (simp add: sys_ok_def)
  have "sys_ok i m (spawn False (s\<lparr>ps_pool := cancel_tasks owner (ps_pool s), ps_signals := ps_signals s\<rparr>))"
    using fewer_cancel [OF r, of owner] by (intro sys_ok_call [OF cancel.prems]) (auto simp: fewer_tasks_def)
  then show ?case by (simp add: spawn_def)
qed

lemma worker_moves_stay: "rings_ok me \<Longrightarrow> held w = {} \<Longrightarrow> w \<noteq> Finished \<Longrightarrow> worker_moves me (set (all_tasks me) \<union> V) me w"
  by (auto simp: worker_moves_def)

lemma sys_ok_run_step: "pool_run s s' \<Longrightarrow> sys_ok i m s \<Longrightarrow> sys_ok i m s'"
proof (induction rule: pool_run.induct)
  case (signal s n t e w)
  have r: "rings_ok (ps_pool s)" using signal.prems by (simp add: sys_ok_def)
  show ?case using sys_ok_worker [OF signal.prems signal.hyps(2) _ worker_moves_stay [OF r, of "Awake e"], of n] by simp
next
  case (signal_lost s n)
  then show ?case by (simp add: sys_ok_def live_def)
next
  case (timeout s t e w)
  have r: "rings_ok (ps_pool s)" using timeout.prems by (simp add: sys_ok_def)
  show ?case
    using sys_ok_worker [OF timeout.prems timeout.hyps(1) _ worker_moves_stay [OF r, of "Awake e"], of "ps_signals s"] by simp
next
  case (sleep s t e w)
  have r: "rings_ok (ps_pool s)" using sleep.prems by (simp add: sys_ok_def)
  show ?case
    using sys_ok_worker [OF sleep.prems sleep.hyps(1) _ worker_moves_stay [OF r, of "Waiting e w"], of "ps_signals s"] by simp
next
  case (start s t now later)
  have r: "rings_ok (ps_pool s)" using start.prems by (simp add: sys_ok_def)
  obtain me' w where f: "thread_pool_func now later (ps_pool s) t = (me', w)" by (cases "thread_pool_func now later (ps_pool s) t")
  show ?case using sys_ok_worker [OF start.prems start.hyps, of me' w "ps_signals s"] thread_pool_func_moves [OF r f]
    by (simp add: set_worker_def f)
next
  case (wake s t e now later)
  have r: "rings_ok (ps_pool s)" using wake.prems by (simp add: sys_ok_def)
  obtain me' w where f: "worker_loop now later (ps_pool s) e = (me', w)" by (cases "worker_loop now later (ps_pool s) e")
  show ?case using sys_ok_worker [OF wake.prems wake.hyps, of me' w "ps_signals s"] worker_loop_moves [OF r order_refl f]
    by (simp add: set_worker_def f)
next
  case (finish s t e k now later)
  have r: "rings_ok (ps_pool s)" "k < tp_task_brk (ps_pool s)" "k \<notin> set (all_tasks (ps_pool s))"
    using finish.prems sys_ok_held [OF finish.prems finish.hyps] by (simp_all add: sys_ok_def)
  obtain me' w where f: "worker_done now later (ps_pool s) e k = (me', w)" by (cases "worker_done now later (ps_pool s) e k")
  show ?case using sys_ok_worker [OF finish.prems finish.hyps, of me' w "ps_signals s"] worker_done_moves [OF r f]
    by (simp add: set_worker_def f)
qed

lemma pool_reachable_ok: "pool_reachable i m s \<Longrightarrow> sys_ok i m s"
  unfolding pool_reachable_def
  by (induction rule: rtranclp_induct) (auto simp: sys_ok_create pool_step_def intro: sys_ok_call_step sys_ok_run_step)


section \<open>What the pool guarantees\<close>


text \<open>One thread, started, runs the task that was pushed.\<close>

definition one_running :: "nat pool_sys" where
  "one_running = (let s = etch_apr_thread_pool_create 1 1;
      (rv, created, me) = add_task APR_SUCCESS 0 (ps_pool s) (7 :: nat) 5 True None;
      s = spawn created (s\<lparr>ps_pool := me, ps_signals := ps_signals s + 1\<rparr>)
    in set_worker 0 (thread_pool_func 0 0 (ps_pool s) 0) s)"

lemma create_one: "etch_apr_thread_pool_create 1 m
  = \<lparr>ps_pool = (thread_pool_construct 1 m)\<lparr>tp_thd_cnt := 1, tp_thd_high := 1\<rparr>, ps_worker = [0 \<mapsto> Starting], ps_next = 1, ps_signals = 0\<rparr>"
  by (simp add: etch_apr_thread_pool_create_def spawn_def count_thread_def thread_pool_construct_def Let_def)

lemma one_running_reachable: "pool_reachable 1 1 one_running"
proof -
  let ?z = "etch_apr_thread_pool_create 1 1 :: nat pool_sys"
  obtain rv created me where a: "add_task APR_SUCCESS 0 (ps_pool ?z) (7 :: nat) 5 True None = (rv, created, me)"
    by (cases "add_task APR_SUCCESS 0 (ps_pool ?z) (7 :: nat) 5 True None")
  let ?s = "spawn created (?z\<lparr>ps_pool := me, ps_signals := ps_signals ?z + 1\<rparr>)"
  have c: "pool_step ?z ?s" unfolding pool_step_def using pool_call.add [OF a] by blast
  have "ps_worker ?z 0 = Some Starting" "ps_next ?z = 1" unfolding create_one by simp_all
  then have "ps_worker ?s 0 = Some Starting" by (simp add: spawn_def)
  then have "pool_step ?s (set_worker 0 (thread_pool_func 0 0 (ps_pool ?s) 0) ?s)" unfolding pool_step_def
    using pool_run.start [of ?s 0 0 0] by blast
  with c have "pool_step\<^sup>*\<^sup>* ?z (set_worker 0 (thread_pool_func 0 0 (ps_pool ?s) 0) ?s)" by auto
  then show ?thesis using a by (simp add: pool_reachable_def one_running_def Let_def)
qed


text \<open>The pool with one thread whose task was pushed while it was on its way to the condition.\<close>

definition idle_start :: "nat thread_pool \<times> worker" where
  "idle_start = thread_pool_func 0 0 (ps_pool (etch_apr_thread_pool_create 1 1)) 0"

definition lost_add :: "apr_status \<times> bool \<times> nat thread_pool" where
  "lost_add = add_task APR_SUCCESS 0 (fst idle_start) 7 5 True None"

definition lost_state :: "nat pool_sys" where
  "lost_state = \<lparr>ps_pool = snd (snd lost_add), ps_worker = [0 \<mapsto> Waiting 0 (- 1)], ps_next = 1, ps_signals = 0\<rparr>"

lemma lost_reachable: "pool_reachable 1 1 lost_state"
proof -
  let ?z = "etch_apr_thread_pool_create 1 1 :: nat pool_sys"
  let ?w1 = "[0 \<mapsto> Going_idle 0 (- 1)] :: nat \<rightharpoonup> worker"
  let ?s1 = "\<lparr>ps_pool = fst idle_start, ps_worker = ?w1, ps_next = 1, ps_signals = 0\<rparr>"
  let ?s2 = "\<lparr>ps_pool = snd (snd lost_add), ps_worker = ?w1, ps_next = 1, ps_signals = 1\<rparr>"
  let ?s3 = "\<lparr>ps_pool = snd (snd lost_add), ps_worker = ?w1, ps_next = 1, ps_signals = 0\<rparr>"
  have w: "snd idle_start = Going_idle 0 (- 1)" by code_simp
  have a: "\<not> fst (snd lost_add)" by code_simp
  have "ps_worker ?z 0 = Some Starting" unfolding create_one by simp
  from pool_run.start [OF this, of 0 0] have "pool_run ?z (set_worker 0 idle_start ?z)" by (simp add: idle_start_def)
  moreover have "set_worker 0 idle_start ?z = ?s1" using w unfolding create_one by (simp add: set_worker_def)
  ultimately have 1: "pool_step ?z ?s1" by (simp add: pool_step_def)
  have l: "add_task APR_SUCCESS 0 (ps_pool ?s1) 7 5 True None = (fst lost_add, fst (snd lost_add), snd (snd lost_add))"
    by (simp add: lost_add_def)
  have "pool_call ?s1 ?s2" using pool_call.add [OF l] a by (simp add: spawn_def)
  then have 2: "pool_step ?s1 ?s2" by (simp add: pool_step_def)
  have "pool_run ?s2 (?s2\<lparr>ps_signals := 0\<rparr>)" by (rule pool_run.signal_lost) simp_all
  then have 3: "pool_step ?s2 ?s3" by (simp add: pool_step_def)
  have "pool_run ?s3 (?s3\<lparr>ps_worker := (ps_worker ?s3)(0 \<mapsto> Waiting 0 (- 1))\<rparr>)" by (rule pool_run.sleep) simp
  then have "pool_step ?s3 lost_state" by (simp add: pool_step_def lost_state_def)
  with 1 2 3 have "pool_step\<^sup>*\<^sup>* ?z lost_state" by (meson converse_rtranclp_into_rtranclp rtranclp.rtrancl_refl)
  then show ?thesis by (simp add: pool_reachable_def)
qed

inductive_cases pool_run_cases: "pool_run s s'"


end
