(* ===== verification/NativeArray.thy ===== *)
theory NativeArray
  imports TagData
begin

text \<open>
  Native arrays of up to three dimensions in one vector of bytes, \<open>src/main/common/etch_nativearray.c\<close>.

  \<^item> The content is a place in a block of bytes: \<open>na_values\<close> is the offset of the content in its block,
    \<open>None\<close> the null pointer.  A subarray has the block of its parent and another offset.
  \<^item> A \<open>size_t\<close> wraps around at \<open>SIZE_MOD\<close>, pointers into the block as well.  An \<open>int\<close> is an integer of 32 bits
    that the caller passes; \<open>offset_of_size\<close> is the conversion of a \<open>size_t\<close> to it.
  \<^item> The outer \<open>None\<close> of a result is undefined behaviour: an access outside the block or to a null pointer.
    The numbers are in the order of a little-endian machine.
\<close>

section \<open>Data\<close>

record etch_nativearray =
  na_class_id :: nat
  na_is_content_owned :: bool
  na_values :: "nat option"
  na_content_obj_type :: nat
  na_content_class_id :: nat
  na_numdims :: int
  na_itemsize :: nat
  na_bytecount :: nat
  na_dimension :: "nat list"
  na_dimsize :: "nat list"
  na_counts :: "nat list"

definition ETCH_MAX_NATIVE_DIM :: nat where "ETCH_MAX_NATIVE_DIM = 3"

definition ETCHTYPEB_BOOL :: nat where "ETCHTYPEB_BOOL = 0x2"
definition ETCHTYPEB_INT8 :: nat where "ETCHTYPEB_INT8 = 0x3"
definition ETCHTYPEB_INT16 :: nat where "ETCHTYPEB_INT16 = 0x4"
definition ETCHTYPEB_INT32 :: nat where "ETCHTYPEB_INT32 = 0x5"
definition ETCHTYPEB_INT64 :: nat where "ETCHTYPEB_INT64 = 0x6"
definition ETCHTYPEB_IEEE32 :: nat where "ETCHTYPEB_IEEE32 = 0x7"
definition ETCHTYPEB_IEEE64 :: nat where "ETCHTYPEB_IEEE64 = 0x8"
definition ETCHTYPEB_STRING :: nat where "ETCHTYPEB_STRING = 0x9"
definition CLASSID_UNWRAPPED :: nat where "CLASSID_UNWRAPPED = 0"
definition CLASSID_ARRAY_BOOL :: nat where "CLASSID_ARRAY_BOOL = 0x52"
definition CLASSID_ARRAY_INT8 :: nat where "CLASSID_ARRAY_INT8 = 0x53"
definition CLASSID_ARRAY_INT16 :: nat where "CLASSID_ARRAY_INT16 = 0x54"
definition CLASSID_ARRAY_INT32 :: nat where "CLASSID_ARRAY_INT32 = 0x55"
definition CLASSID_ARRAY_INT64 :: nat where "CLASSID_ARRAY_INT64 = 0x56"
definition CLASSID_ARRAY_FLOAT :: nat where "CLASSID_ARRAY_FLOAT = 0x57"
definition CLASSID_ARRAY_DOUBLE :: nat where "CLASSID_ARRAY_DOUBLE = 0x58"
definition CLASSID_ARRAY_STRING :: nat where "CLASSID_ARRAY_STRING = 0x59"

lemmas array_codes = ETCHTYPEB_BYTE_def ETCHTYPEB_BOOL_def ETCHTYPEB_INT8_def ETCHTYPEB_INT16_def ETCHTYPEB_INT32_def
  ETCHTYPEB_INT64_def ETCHTYPEB_IEEE32_def ETCHTYPEB_IEEE64_def ETCHTYPEB_STRING_def ETCHTYPEB_ETCHOBJECT_def
  CLASSID_UNWRAPPED_def CLASSID_ARRAY_BYTE_def CLASSID_ARRAY_BOOL_def CLASSID_ARRAY_INT8_def CLASSID_ARRAY_INT16_def
  CLASSID_ARRAY_INT32_def CLASSID_ARRAY_INT64_def CLASSID_ARRAY_FLOAT_def CLASSID_ARRAY_DOUBLE_def
  CLASSID_ARRAY_STRING_def CLASSID_ARRAY_OBJECT_def CLASSID_OBJECT_def CLASSID_STRING_def

definition sz_mul :: "nat \<Rightarrow> nat \<Rightarrow> nat" where
  "sz_mul a b = (a * b) mod SIZE_MOD"

definition offset_of_size :: "nat \<Rightarrow> int" where
  "offset_of_size n = sint (of_nat n :: int32)"

section \<open>Construction\<close>

text \<open>The loop over the higher dimensions reads and writes behind the two tables for more than three.\<close>

definition size_step :: "nat \<Rightarrow> etch_nativearray \<Rightarrow> etch_nativearray" where
  "size_step i a =
     (let a = a\<lparr>na_dimsize := (na_dimsize a)[i := sz_mul (na_dimension a ! (i - 1)) (na_dimsize a ! (i - 1))]\<rparr>
      in a\<lparr>na_bytecount := sz_mul (na_bytecount a) (na_dimension a ! i)\<rparr>)"

text \<open>The inner \<open>None\<close> is the null pointer.\<close>

definition init_etch_nativearray ::
  "nat \<Rightarrow> nat \<Rightarrow> int \<Rightarrow> int \<Rightarrow> int \<Rightarrow> int \<Rightarrow> etch_nativearray option option" where
  "init_etch_nativearray class_id itemsize numdims dim0 dim1 dim2 =
     (if numdims < 1 \<or> itemsize < 1 then Some None
      else if numdims > 1 \<and> dim1 < 1 then Some None
      else if numdims > 2 \<and> dim2 < 1 then Some None
      else if numdims > int ETCH_MAX_NATIVE_DIM then None
      else let a = \<lparr>na_class_id = class_id, na_is_content_owned = False, na_values = None, na_content_obj_type = 0,
                    na_content_class_id = 0, na_numdims = numdims, na_itemsize = itemsize,
                    na_bytecount = sz_mul itemsize (sz_of_int dim0),
                    na_dimension = [sz_of_int dim0, if numdims > 1 then sz_of_int dim1 else 0,
                                    if numdims > 2 then sz_of_int dim2 else 0],
                    na_dimsize = [itemsize, 0, 0], na_counts = [0, 0, 0]\<rparr>
           in Some (Some (fold size_step [1 ..< nat numdims] a)))"

definition unwrapped_type :: "nat \<Rightarrow> nat" where
  "unwrapped_type c =
     (if c = CLASSID_ARRAY_BYTE then ETCHTYPEB_BYTE
      else if c = CLASSID_ARRAY_BOOL then ETCHTYPEB_BOOL
      else if c = CLASSID_ARRAY_INT8 then ETCHTYPEB_INT8
      else if c = CLASSID_ARRAY_INT16 then ETCHTYPEB_INT16
      else if c = CLASSID_ARRAY_INT32 then ETCHTYPEB_INT32
      else if c = CLASSID_ARRAY_INT64 then ETCHTYPEB_INT64
      else if c = CLASSID_ARRAY_FLOAT then ETCHTYPEB_IEEE32
      else if c = CLASSID_ARRAY_DOUBLE then ETCHTYPEB_IEEE64
      else 0)"

definition etch_nativearray_set_content_type :: "etch_nativearray \<Rightarrow> int \<times> etch_nativearray" where
  "etch_nativearray_set_content_type a =
     (let c = na_class_id a; obj_type = unwrapped_type c
      in if obj_type \<noteq> 0 then (0, a\<lparr>na_content_obj_type := obj_type, na_content_class_id := CLASSID_UNWRAPPED\<rparr>)
         else if c = CLASSID_ARRAY_OBJECT
         then (0, a\<lparr>na_content_obj_type := ETCHTYPEB_ETCHOBJECT, na_content_class_id := CLASSID_OBJECT\<rparr>)
         else if c = CLASSID_ARRAY_STRING
         then (0, a\<lparr>na_content_obj_type := ETCHTYPEB_STRING, na_content_class_id := CLASSID_STRING\<rparr>)
         else (- 1, a))"

text \<open>With its block, which is zero.  A block of more than \<open>OBJ_MAX\<close> bytes cannot be had: the null pointer is cleared.\<close>

definition new_etch_nativearray ::
  "nat \<Rightarrow> nat \<Rightarrow> int \<Rightarrow> int \<Rightarrow> int \<Rightarrow> int \<Rightarrow> (etch_nativearray \<times> byte list) option option" where
  "new_etch_nativearray class_id itemsize numdims dim0 dim1 dim2 =
     (case init_etch_nativearray class_id itemsize numdims dim0 dim1 dim2 of
        None \<Rightarrow> None
      | Some None \<Rightarrow> Some None
      | Some (Some a) \<Rightarrow>
          if na_bytecount a > OBJ_MAX then None
          else let a = a\<lparr>na_values := Some 0, na_is_content_owned := True\<rparr>
               in Some (Some (snd (etch_nativearray_set_content_type a), replicate (na_bytecount a) 0)))"

definition new_etch_nativearray_from ::
  "nat option \<Rightarrow> nat \<Rightarrow> nat \<Rightarrow> int \<Rightarrow> int \<Rightarrow> int \<Rightarrow> int \<Rightarrow> etch_nativearray option option" where
  "new_etch_nativearray_from vals class_id itemsize numdims dim0 dim1 dim2 =
     map_option (map_option (\<lambda>a. snd (etch_nativearray_set_content_type
         (a\<lparr>na_values := vals, na_is_content_owned := False\<rparr>))))
       (init_etch_nativearray class_id itemsize numdims dim0 dim1 dim2)"

text \<open>An array of pointers, of eight bytes.\<close>

definition new_etch_nativearray_of :: "nat \<Rightarrow> nat \<Rightarrow> int \<Rightarrow> int \<Rightarrow> int \<Rightarrow> int \<Rightarrow> etch_nativearray option option" where
  "new_etch_nativearray_of content_obj_type content_class_id numdims dim0 dim1 dim2 =
     map_option (map_option (\<lambda>a. a\<lparr>na_content_obj_type := content_obj_type, na_content_class_id := content_class_id\<rparr>))
       (init_etch_nativearray CLASSID_ARRAY_OBJECT 8 numdims dim0 dim1 dim2)"

text \<open>A clone, and its own block when the content is not wrapped.\<close>

definition etch_nativearray_clone ::
  "etch_nativearray \<Rightarrow> byte list \<Rightarrow> (etch_nativearray \<times> byte list option) option" where
  "etch_nativearray_clone source mem =
     (case new_etch_nativearray_from (na_values source) (na_content_class_id source) (na_itemsize source)
             (na_numdims source) (offset_of_size (na_dimension source ! 0)) (offset_of_size (na_dimension source ! 1))
             (offset_of_size (na_dimension source ! 2)) of
        Some (Some a) \<Rightarrow>
          let a = a\<lparr>na_content_class_id := na_content_class_id source, na_content_obj_type := na_content_obj_type source,
                    na_class_id := na_class_id source\<rparr>
          in if na_content_class_id source = CLASSID_UNWRAPPED
             then (case na_values source of
                     None \<Rightarrow> None
                   | Some v \<Rightarrow> map_option (\<lambda>bs. (a\<lparr>na_values := Some 0, na_is_content_owned := True\<rparr>, Some bs))
                       (mem_read mem v (na_bytecount source)))
             else Some (a\<lparr>na_is_content_owned := False, na_values := na_values source\<rparr>, None)
      | _ \<Rightarrow> None)"

section \<open>Access\<close>

definition NO_OFFSET :: nat where "NO_OFFSET = sz_of_int (- 1)"

definition etch_nativearray_off1 :: "etch_nativearray \<Rightarrow> int \<Rightarrow> nat" where
  "etch_nativearray_off1 a i =
     (if i \<ge> offset_of_size (na_dimension a ! 0) \<or> i < 0 then NO_OFFSET
      else sz_mul (sz_of_int i) (na_dimsize a ! 0))"

definition etch_nativearray_off2 :: "etch_nativearray \<Rightarrow> int \<Rightarrow> int \<Rightarrow> nat" where
  "etch_nativearray_off2 a i j =
     (if (i \<ge> offset_of_size (na_dimension a ! 1) \<or> i < 0) \<or> (j \<ge> offset_of_size (na_dimension a ! 0) \<or> j < 0) then NO_OFFSET
      else sz_add (sz_mul (sz_of_int i) (na_dimsize a ! 1)) (sz_mul (sz_of_int j) (na_dimsize a ! 0)))"

definition etch_nativearray_off3 :: "etch_nativearray \<Rightarrow> int \<Rightarrow> int \<Rightarrow> int \<Rightarrow> nat" where
  "etch_nativearray_off3 a i j k =
     (if (i \<ge> offset_of_size (na_dimension a ! 2) \<or> i < 0) \<or> (j \<ge> offset_of_size (na_dimension a ! 1) \<or> j < 0)
         \<or> (k \<ge> offset_of_size (na_dimension a ! 0) \<or> k < 0) then NO_OFFSET
      else sz_add (sz_add (sz_mul (sz_of_int i) (na_dimsize a ! 2)) (sz_mul (sz_of_int j) (na_dimsize a ! 1)))
             (sz_mul (sz_of_int k) (na_dimsize a ! 0)))"

text \<open>
  The common part of the three ways to put and to get.  The test \<open>offset < 0\<close> of the code is never true for a
  \<open>size_t\<close>; \<open>vals\<close> is \<open>None\<close> for a null pointer.
\<close>

definition put_at :: "etch_nativearray \<Rightarrow> byte list \<Rightarrow> byte list option \<Rightarrow> nat \<Rightarrow> (int \<times> byte list) option" where
  "put_at a mem vals offset =
     (case vals of
        None \<Rightarrow> Some (- 1, mem)
      | Some v \<Rightarrow>
          (case na_values a of
             None \<Rightarrow> None
           | Some base \<Rightarrow>
               do { bs \<leftarrow> mem_read v 0 (na_itemsize a);
                    mem' \<leftarrow> mem_write mem (sz_add base offset) bs;
                    Some (0, mem') }))"

definition get_at :: "etch_nativearray \<Rightarrow> byte list \<Rightarrow> nat \<Rightarrow> (int \<times> byte list) option" where
  "get_at a mem offset =
     (case na_values a of
        None \<Rightarrow> None
      | Some base \<Rightarrow> map_option (Pair 0) (mem_read mem (sz_add base offset) (na_itemsize a)))"

definition etch_nativearray_put1 where
  "etch_nativearray_put1 a mem vals i = put_at a mem vals (etch_nativearray_off1 a i)"

definition etch_nativearray_put2 where
  "etch_nativearray_put2 a mem vals i j = put_at a mem vals (etch_nativearray_off2 a i j)"

definition etch_nativearray_put3 where
  "etch_nativearray_put3 a mem vals i j k = put_at a mem vals (etch_nativearray_off3 a i j k)"

definition etch_nativearray_get1 where
  "etch_nativearray_get1 a mem i = get_at a mem (etch_nativearray_off1 a i)"

definition etch_nativearray_get2 where
  "etch_nativearray_get2 a mem i j = get_at a mem (etch_nativearray_off2 a i j)"

definition etch_nativearray_get3 where
  "etch_nativearray_get3 a mem i j k = get_at a mem (etch_nativearray_off3 a i j k)"

section \<open>Subarrays and components\<close>

definition new_subarray :: "etch_nativearray \<Rightarrow> int \<Rightarrow> etch_nativearray option option" where
  "new_subarray a i =
     (let sub_numdims = na_numdims a - 1
      in if na_numdims a > 1 \<and> i < offset_of_size (na_dimension a ! nat sub_numdims)
         then let sub_bytelen = na_dimsize a ! nat sub_numdims;
                  vector_offset = sz_mul (sz_of_int i) sub_bytelen;
                  subvector = map_option (\<lambda>v. sz_add v vector_offset) (na_values a)
              in (case new_etch_nativearray_from subvector (na_class_id a) (sz_of_int (offset_of_size (na_itemsize a)))
                         sub_numdims (offset_of_size (na_dimension a ! 0)) (offset_of_size (na_dimension a ! 1)) 0 of
                    Some (Some s) \<Rightarrow>
                      Some (Some (s\<lparr>na_bytecount := sub_bytelen, na_content_obj_type := na_content_obj_type a,
                        na_content_class_id := na_content_class_id a, na_is_content_owned := na_is_content_owned a,
                        na_counts := [na_counts a ! 0, na_counts a ! 1, 0]\<rparr>))
                  | _ \<Rightarrow> None)
         else Some None)"

text \<open>A component: an object, a pointer that is returned as it is, or a string made from a pointer.\<close>

datatype 'o component = Object 'o | Pointer int64 | StringFrom int64

fun union_value :: "byte list \<Rightarrow> int64" where
  "union_value [] = 0"
| "union_value (b # bs) = ucast b OR push_bit 8 (union_value bs)"

definition etch_nativearray_get_wrapped_component ::
  "etch_nativearray \<Rightarrow> byte list \<Rightarrow> int \<Rightarrow> (int \<times> ('c, 's) etch_object component option) option" where
  "etch_nativearray_get_wrapped_component a mem i =
     (if na_numdims a \<noteq> 1 \<or> i \<ge> offset_of_size (na_dimension a ! 0) then Some (- 1, None)
      else if na_itemsize a > 8 then None
      else case etch_nativearray_get1 a mem i of
        None \<Rightarrow> None
      | Some (result, bs) \<Rightarrow>
          let v = union_value bs; t = na_content_obj_type a;
              out = (if na_content_class_id a \<noteq> 0 then Pointer v
                     else if t = ETCHTYPEB_BYTE then Object (EByte (ucast v))
                     else if t = ETCHTYPEB_BOOL then Object (EBool (ucast v))
                     else if t = ETCHTYPEB_INT8 then Object (EInt8 (ucast v))
                     else if t = ETCHTYPEB_INT16 then Object (EInt16 (ucast v))
                     else if t = ETCHTYPEB_INT32 then Object (EInt32 (ucast v))
                     else if t = ETCHTYPEB_INT64 then Object (EInt64 v)
                     else if t = ETCHTYPEB_IEEE32 then Object (EFloat (ucast v))
                     else if t = ETCHTYPEB_IEEE64 then Object (EDouble v)
                     else if t = ETCHTYPEB_STRING then StringFrom v
                     else Pointer v)
          in Some (result, Some out))"

text \<open>An element is a component or a subarray; \<open>None\<close> inside is the null pointer.\<close>

definition etch_nativearray_get_element ::
  "etch_nativearray \<Rightarrow> byte list \<Rightarrow> int \<Rightarrow> (('c, 's) etch_object component + etch_nativearray) option option" where
  "etch_nativearray_get_element a mem i =
     (let sub_numdims = na_numdims a - 1
      in if sub_numdims < 0 then Some None
         else if sub_numdims > 0 then map_option (map_option Inr) (new_subarray a i)
         else map_option (\<lambda>(result, out). map_option Inl out) (etch_nativearray_get_wrapped_component a mem i))"

end
