(* ===== verification/ArrayValue.thy ===== *)
theory ArrayValue
  imports NativeArray
begin

text \<open>
  Array values, the arrays of objects of \<open>src/main/bindings/msg/etch_arrayval.c\<close>, and the conversions from and to
  the native arrays of \<open>NativeArray\<close>.

  \<^item> An array value is its header and the objects of its list; the list is the list of its entries, as
    \<open>ArrayList_Correct\<close> shows of \<open>etch_arraylist.c\<close>.  An entry is what a component of a native array is returned as,
    or an array value of one dimension less.
  \<^item> Going back to a native array the code copies the bytes behind the header of each object.  They are the bytes
    of the value of a wrapped number; those of any other object are a parameter, \<open>raw\<close>.
  \<^item> A native array has three dimensions at most, so that four levels of recursion are enough.
\<close>

section \<open>Data\<close>

record arrayval_head =
  ah_class_id :: nat
  ah_content_obj_type :: nat
  ah_content_class_id :: nat
  ah_content_item_size :: nat
  ah_dim :: int
  ah_type_code :: byte
  ah_custom_struct_type :: "int32 option"
  ah_is_array_owned :: bool
  ah_is_readonly :: bool
  ah_natarray :: "etch_nativearray option"

datatype 'o arrayval =
    Entry 'o
  | Arrayval arrayval_head "'o arrayval list"

definition CLASSID_ARRAYVALUE :: nat where "CLASSID_ARRAYVALUE = 0x31"

section \<open>Codes\<close>

definition etch_primitive_typecodes :: "byte list" where
  "etch_primitive_typecodes =
     [ETCH_XTRNL_TYPECODE_CUSTOM, ETCH_XTRNL_TYPECODE_BYTE, ETCH_XTRNL_TYPECODE_BOOLEAN_TRUE, ETCH_XTRNL_TYPECODE_BYTE,
      ETCH_XTRNL_TYPECODE_SHORT, ETCH_XTRNL_TYPECODE_INT, ETCH_XTRNL_TYPECODE_LONG, ETCH_XTRNL_TYPECODE_FLOAT,
      ETCH_XTRNL_TYPECODE_DOUBLE, ETCH_XTRNL_TYPECODE_STRING, 0]"

definition etch_arrayval_classids :: "nat list" where
  "etch_arrayval_classids =
     [CLASSID_ARRAY_OBJECT, CLASSID_ARRAY_BYTE, CLASSID_ARRAY_BOOL, CLASSID_ARRAY_BYTE, CLASSID_ARRAY_INT16,
      CLASSID_ARRAY_INT32, CLASSID_ARRAY_INT64, CLASSID_ARRAY_FLOAT, CLASSID_ARRAY_DOUBLE, CLASSID_ARRAY_STRING, 0]"

text \<open>The two loops end at the zero of their table.\<close>

fun code_loop :: "'a \<Rightarrow> 'a::zero list \<Rightarrow> 'b list \<Rightarrow> 'b \<Rightarrow> 'b" where
  "code_loop x (p # ps) (q # qs) z = (if p = 0 then z else if p = x then q else code_loop x ps qs z)"
| "code_loop x _ _ z = z"

definition etch_arraytype_to_classid :: "byte \<Rightarrow> nat" where
  "etch_arraytype_to_classid typecode = code_loop typecode etch_primitive_typecodes etch_arrayval_classids 0"

definition etch_classid_to_arraytype :: "nat \<Rightarrow> byte" where
  "etch_classid_to_arraytype class_id = code_loop class_id etch_arrayval_classids etch_primitive_typecodes 0"

definition etch_itemtype_to_arrayclass :: "nat \<Rightarrow> nat" where
  "etch_itemtype_to_arrayclass item_obj_type =
     (if item_obj_type > 0 \<and> item_obj_type \<le> ETCHTYPEB_STRING then etch_arrayval_classids ! item_obj_type
      else CLASSID_ARRAY_OBJECT)"

definition arrayvalue_get_external_typecode :: "nat \<Rightarrow> nat \<Rightarrow> byte" where
  "arrayvalue_get_external_typecode obj_type class_id =
     (if obj_type = ETCHTYPEB_PRIMITIVE
      then etch_primitive_typecodes ! (if class_id < 1 \<or> class_id > 9 then 0 else class_id)
      else if obj_type > 0 \<and> obj_type \<le> 9 then etch_primitive_typecodes ! obj_type
      else if obj_type = ETCHTYPEB_STRUCTVAL then ETCH_XTRNL_TYPECODE_CUSTOM
      else if obj_type = ETCHTYPEB_ARRAYVAL then ETCH_XTRNL_TYPECODE_ARRAY
      else if obj_type = ETCHTYPEB_NATIVEARRAY then ETCH_XTRNL_TYPECODE_ARRAY
      else ETCH_XTRNL_TYPECODE_CUSTOM)"

section \<open>Construction\<close>

definition new_arrayvalue_init :: "bool \<Rightarrow> arrayval_head" where
  "new_arrayvalue_init is_readonly =
     \<lparr>ah_class_id = CLASSID_ARRAYVALUE, ah_content_obj_type = 0, ah_content_class_id = 0, ah_content_item_size = 0,
      ah_dim = 0, ah_type_code = 0, ah_custom_struct_type = None, ah_is_array_owned = False,
      ah_is_readonly = is_readonly, ah_natarray = None\<rparr>"

definition new_arrayvalue :: "byte \<Rightarrow> int32 option \<Rightarrow> int \<Rightarrow> bool \<Rightarrow> 'o arrayval" where
  "new_arrayvalue type_code custom_struct_type dim is_readonly =
     Arrayval ((new_arrayvalue_init is_readonly)\<lparr>ah_dim := dim, ah_type_code := type_code,
       ah_class_id := etch_arraytype_to_classid type_code, ah_custom_struct_type := custom_struct_type\<rparr>) []"

definition arrayvalue_set_static_content :: "arrayval_head \<Rightarrow> bool \<Rightarrow> arrayval_head" where
  "arrayvalue_set_static_content av is_set = av\<lparr>ah_is_readonly := is_set\<rparr>"

text \<open>An entry for each item of a native array of one dimension.\<close>

definition populate_arrayvalue_from ::
  "arrayval_head \<Rightarrow> etch_nativearray \<Rightarrow> byte list \<Rightarrow> ('c, 's) etch_object component arrayval option" where
  "populate_arrayvalue_from av nat_a mem =
     (if na_numdims nat_a \<noteq> 1 then None
      else let av = av\<lparr>ah_content_obj_type := na_content_obj_type nat_a,
                      ah_content_item_size := na_itemsize nat_a mod 65536\<rparr>
           in map_option (Arrayval av)
                (those (map (\<lambda>i. case etch_nativearray_get_wrapped_component nat_a mem (int i) of
                                   Some (result, Some c) \<Rightarrow> Some (Entry c) | _ \<Rightarrow> None)
                         [0 ..< nat (offset_of_size (na_dimension nat_a ! 0))])))"

definition subarray_of :: "etch_nativearray \<Rightarrow> nat \<Rightarrow> etch_nativearray option" where
  "subarray_of natarray i =
     (let subarray_numdims = na_numdims natarray - 1;
          vector_offset = sz_mul i (na_dimsize natarray ! nat subarray_numdims)
      in case new_etch_nativearray_from (map_option (\<lambda>v. sz_add v vector_offset) (na_values natarray))
              (na_class_id natarray) (na_itemsize natarray) subarray_numdims
              (offset_of_size (na_dimension natarray ! 0)) (offset_of_size (na_dimension natarray ! 1)) 0 of
           Some (Some newarray) \<Rightarrow>
             Some (newarray\<lparr>na_content_class_id := na_content_class_id natarray,
               na_content_obj_type := na_content_obj_type natarray, na_is_content_owned := False,
               na_counts := [na_counts newarray ! 0, na_counts newarray ! 1, 0]\<rparr>)
         | _ \<Rightarrow> None)"

definition set_array_owned :: "'o arrayval \<Rightarrow> 'o arrayval" where
  "set_array_owned av = (case av of Arrayval h xs \<Rightarrow> Arrayval (h\<lparr>ah_is_array_owned := True\<rparr>) xs | Entry x \<Rightarrow> Entry x)"

text \<open>
  The outer \<open>None\<close> is undefined behaviour, the inner one the null pointer, which a row must not be.  The native
  array is no object that stands for null.
\<close>

fun arrayvalue_from ::
  "nat \<Rightarrow> etch_nativearray \<Rightarrow> byte list \<Rightarrow> byte \<Rightarrow> int32 option \<Rightarrow> bool
   \<Rightarrow> ('c, 's) etch_object component arrayval option option" where
  "arrayvalue_from 0 natarray mem type_code custom_struct_type is_readonly = Some None"
| "arrayvalue_from (Suc level) natarray mem type_code custom_struct_type is_readonly =
     (let subarray_numdims = na_numdims natarray - 1
      in if subarray_numdims < 0 \<or> subarray_numdims > 2 then Some None
         else let newav = (new_arrayvalue_init is_readonly)\<lparr>ah_is_array_owned := \<not> is_readonly, ah_type_code := type_code,
                    ah_natarray := Some natarray, ah_dim := na_numdims natarray, ah_class_id := na_class_id natarray,
                    ah_custom_struct_type := custom_struct_type\<rparr>
              in if subarray_numdims = 0
                 then map_option Some (populate_arrayvalue_from
                   (arrayvalue_set_static_content newav (na_content_class_id natarray \<noteq> CLASSID_UNWRAPPED)) natarray mem)
                 else let newav = arrayvalue_set_static_content
                            (newav\<lparr>ah_content_obj_type := ETCHTYPEB_ARRAYVAL, ah_content_item_size := 8\<rparr>) False
                      in map_option (\<lambda>rows. Some (Arrayval newav rows))
                           (those (map (\<lambda>i. case subarray_of natarray i of
                                  None \<Rightarrow> None
                                | Some newarray \<Rightarrow>
                                    (case arrayvalue_from level newarray mem type_code custom_struct_type is_readonly of
                                       Some (Some subav) \<Rightarrow> Some (set_array_owned subav)
                                     | _ \<Rightarrow> None))
                              [0 ..< nat (offset_of_size (na_dimension natarray ! nat subarray_numdims))])))"

definition new_arrayvalue_from where
  "new_arrayvalue_from natarray mem type_code custom_struct_type is_readonly =
     arrayvalue_from 4 natarray mem type_code custom_struct_type is_readonly"

section \<open>Back to a native array\<close>

fun arrayvalue_count :: "'o arrayval \<Rightarrow> nat" where
  "arrayvalue_count (Arrayval h xs) = length xs"
| "arrayvalue_count (Entry x) = 0"

fun arrayvalue_get :: "'o arrayval \<Rightarrow> nat \<Rightarrow> 'o arrayval option" where
  "arrayvalue_get (Arrayval h xs) i = (if i < length xs then Some (xs ! i) else None)"
| "arrayvalue_get (Entry x) i = None"

fun is_etch_arrayvalue :: "'o arrayval option \<Rightarrow> bool" where
  "is_etch_arrayvalue (Some (Arrayval h xs)) = True"
| "is_etch_arrayvalue _ = False"

definition item_bytes :: "nat \<Rightarrow> 'a::len word \<Rightarrow> byte list" where
  "item_bytes n w = map (\<lambda>i. ucast (drop_bit (8 * i) w)) [0 ..< n]"

text \<open>The bytes behind the header of an object.\<close>

fun wrapper_value ::
  "(('c, 's) etch_object component arrayval \<Rightarrow> byte list) \<Rightarrow> ('c, 's) etch_object component arrayval \<Rightarrow> byte list" where
  "wrapper_value raw (Entry (Object (EByte v))) = [v]"
| "wrapper_value raw (Entry (Object (EBool v))) = [v]"
| "wrapper_value raw (Entry (Object (EInt8 v))) = [v]"
| "wrapper_value raw (Entry (Object (EInt16 v))) = item_bytes 2 v"
| "wrapper_value raw (Entry (Object (EInt32 v))) = item_bytes 4 v"
| "wrapper_value raw (Entry (Object (EInt64 v))) = item_bytes 8 v"
| "wrapper_value raw (Entry (Object (EFloat v))) = item_bytes 4 v"
| "wrapper_value raw (Entry (Object (EDouble v))) = item_bytes 8 v"
| "wrapper_value raw x = raw x"

text \<open>
  The three nests of loops.  \<open>put\<close> puts an item at the subscript of its loop; the result is the number of items or
  -1, and the block.  The entries of the lists are never null.
\<close>

fun items_loop ::
  "('o arrayval \<Rightarrow> byte list) \<Rightarrow> (byte list \<Rightarrow> byte list option \<Rightarrow> nat \<Rightarrow> (int \<times> byte list) option) \<Rightarrow> nat \<Rightarrow> int
   \<Rightarrow> 'o arrayval list \<Rightarrow> byte list \<Rightarrow> (int \<times> byte list) option" where
  "items_loop bytes put i items [] mem = Some (items, mem)"
| "items_loop bytes put i items (wrapper # xs) mem =
     (case put mem (Some (bytes wrapper)) i of
        None \<Rightarrow> None
      | Some (r, mem) \<Rightarrow> if r = 0 then items_loop bytes put (i + 1) (items + 1) xs mem else Some (- 1, mem))"

fun rows_loop ::
  "(nat \<Rightarrow> int \<Rightarrow> 'o arrayval list \<Rightarrow> byte list \<Rightarrow> (int \<times> byte list) option) \<Rightarrow> nat \<Rightarrow> int \<Rightarrow> 'o arrayval list \<Rightarrow> byte list
   \<Rightarrow> (int \<times> byte list) option" where
  "rows_loop inner i items [] mem = Some (items, mem)"
| "rows_loop inner i items (Arrayval h ys # xs) mem =
     (case inner i items ys mem of
        None \<Rightarrow> None
      | Some (items, mem) \<Rightarrow> if items = - 1 then Some (- 1, mem) else rows_loop inner (i + 1) items xs mem)"
| "rows_loop inner i items (Entry x # xs) mem = Some (- 1, mem)"

definition arrayvalue1_to_nativearray where
  "arrayvalue1_to_nativearray bytes natv xs mem =
     items_loop bytes (\<lambda>mem v i. etch_nativearray_put1 natv mem v (int i)) 0 0 xs mem"

definition arrayvalue2_to_nativearray where
  "arrayvalue2_to_nativearray bytes natv xs mem =
     rows_loop (\<lambda>i items. items_loop bytes (\<lambda>mem v j. etch_nativearray_put2 natv mem v (int i) (int j)) 0 items) 0 0 xs mem"

definition arrayvalue3_to_nativearray where
  "arrayvalue3_to_nativearray bytes natv xs mem =
     rows_loop (\<lambda>i items. rows_loop (\<lambda>j items.
         items_loop bytes (\<lambda>mem v k. etch_nativearray_put3 natv mem v (int i) (int j) (int k)) 0 items) 0 items) 0 0 xs mem"

text \<open>
  The size of the native array is that of the first rows.  The result: undefined behaviour, or the returned number
  and the new native array with its block, if one was attached.  The null pointer that is returned as an \<open>int\<close> is zero.
\<close>

definition arrayvalue_to_nativearray ::
  "('o arrayval \<Rightarrow> byte list) \<Rightarrow> arrayval_head \<Rightarrow> 'o arrayval list \<Rightarrow> (int \<times> (etch_nativearray \<times> byte list) option) option" where
  "arrayvalue_to_nativearray bytes h xs =
     (let av = Arrayval h xs;
          (av0, dim1count, dim2count) =
            (if ah_dim h = 1 then (Some av, 0, 0)
             else if ah_dim h = 2
             then (if is_etch_arrayvalue (arrayvalue_get av 0) then arrayvalue_get av 0 else None, arrayvalue_count av, 0)
             else if ah_dim h = 3
             then (case arrayvalue_get av 0 of
                     Some (Arrayval h2 ys) \<Rightarrow>
                       (if is_etch_arrayvalue (arrayvalue_get (Arrayval h2 ys) 0) then arrayvalue_get (Arrayval h2 ys) 0 else None,
                        length ys, arrayvalue_count av)
                   | _ \<Rightarrow> (None, 0, arrayvalue_count av))
             else (None, 0, 0));
          (itemsize, dim0count, array_class_id) =
            (case av0 of
               Some (Arrayval h0 zs) \<Rightarrow>
                 (ah_content_item_size h0, length zs,
                  if ah_content_class_id h0 = CLASSID_UNWRAPPED then CLASSID_UNWRAPPED
                  else etch_itemtype_to_arrayclass (ah_content_obj_type h0))
             | _ \<Rightarrow> (0, 0, 0))
      in if dim0count = 0 \<or> itemsize = 0 then Some (0, None)
         else case new_etch_nativearray array_class_id itemsize (ah_dim h) (int dim0count) (int dim1count) (int dim2count) of
           None \<Rightarrow> None
         | Some None \<Rightarrow> Some (0, None)
         | Some (Some (newna, mem)) \<Rightarrow>
             map_option (\<lambda>(r, mem). (r, Some (newna, mem)))
               (if ah_dim h = 1 then arrayvalue1_to_nativearray bytes newna xs mem
                else if ah_dim h = 2 then arrayvalue2_to_nativearray bytes newna xs mem
                else if ah_dim h = 3 then arrayvalue3_to_nativearray bytes newna xs mem
                else Some (0, mem)))"

end
