(* ===== verification/NativeArray_Correct.thy ===== *)
theory NativeArray_Correct
  imports NativeArray
begin

text \<open>
  A native array is a function from its subscripts to its items, and a subarray a part of its parent.  The
  dimensions are lists, the highest order first; \<open>flat\<close> is the number of an item in the vector.
\<close>

section \<open>Subscripts\<close>

fun flat :: "nat list \<Rightarrow> int list \<Rightarrow> nat" where
  "flat (d # ds) (i # js) = nat i * prod_list ds + flat ds js"
| "flat _ _ = 0"

definition in_range :: "nat list \<Rightarrow> int list \<Rightarrow> bool" where
  "in_range ds js \<longleftrightarrow> list_all2 (\<lambda>d i. 0 \<le> i \<and> i < int d) ds js"

lemma in_range_simps [simp]:
  "in_range [] js = (js = [])" "in_range (d # ds) [] = False"
  "in_range (d # ds) (i # js) = (0 \<le> i \<and> i < int d \<and> in_range ds js)"
  by (simp_all add: in_range_def)

lemma mixed_radix_less: "i < d \<Longrightarrow> f < p \<Longrightarrow> i * p + f < d * (p::nat)"
proof -
  assume "i < d" "f < p"
  have "i * p + f < (i + 1) * p" using \<open>f < p\<close> by simp
  also have "\<dots> \<le> d * p" using \<open>i < d\<close> by (intro mult_le_mono1) simp
  finally show ?thesis .
qed

lemma mixed_radix_inj: "f < p \<Longrightarrow> g < p \<Longrightarrow> i * p + f = j * p + g \<longleftrightarrow> i = j \<and> f = (g::nat)"
proof
  assume fg: "f < p" "g < p" and e: "i * p + f = j * p + g"
  have "(i * p + f) div p = i" "(j * p + g) div p = j" using fg by simp_all
  then show "i = j \<and> f = g" using e by simp
qed simp

lemma flat_less: "in_range ds js \<Longrightarrow> flat ds js < prod_list ds"
proof (induction ds arbitrary: js)
  case Nil then show ?case by (cases js) simp_all
next
  case (Cons d ds)
  then obtain i ks where js: "js = i # ks" by (cases js) simp_all
  with Cons.prems have "nat i < d" by simp linarith
  with Cons js show ?case using mixed_radix_less [of "nat i" d "flat ds ks" "prod_list ds"] by simp
qed

lemma flat_inj: "in_range ds js \<Longrightarrow> in_range ds ks \<Longrightarrow> flat ds js = flat ds ks \<longleftrightarrow> js = ks"
proof (induction ds arbitrary: js ks)
  case (Cons d ds)
  obtain i is' j js' where [simp]: "js = i # is'" "ks = j # js'" using Cons.prems by (cases js; cases ks) simp_all
  show ?case using Cons mixed_radix_inj [of "flat ds is'" "prod_list ds" "flat ds js'" "nat i" "nat j"]
    by (auto simp: flat_less eq_nat_nat_iff)
qed simp

section \<open>Putting and getting\<close>

fun na_put :: "etch_nativearray \<Rightarrow> byte list \<Rightarrow> byte list option \<Rightarrow> int list \<Rightarrow> (int \<times> byte list) option" where
  "na_put a mem v [i] = etch_nativearray_put1 a mem v i"
| "na_put a mem v [i, j] = etch_nativearray_put2 a mem v i j"
| "na_put a mem v [i, j, k] = etch_nativearray_put3 a mem v i j k"
| "na_put a mem v _ = None"

fun na_get :: "etch_nativearray \<Rightarrow> byte list \<Rightarrow> int list \<Rightarrow> (int \<times> byte list) option" where
  "na_get a mem [i] = etch_nativearray_get1 a mem i"
| "na_get a mem [i, j] = etch_nativearray_get2 a mem i j"
| "na_get a mem [i, j, k] = etch_nativearray_get3 a mem i j k"
| "na_get a mem _ = None"

text \<open>The tables of dimensions are those of \<open>ds\<close>, and the content is in the block.\<close>

fun dim_tables :: "nat \<Rightarrow> nat list \<Rightarrow> (nat list \<times> nat list) option" where
  "dim_tables sz [d] = Some ([d, 0, 0], [sz, 0, 0])"
| "dim_tables sz [d1, d] = Some ([d, d1, 0], [sz, d * sz, 0])"
| "dim_tables sz [d2, d1, d] = Some ([d, d1, d2], [sz, d * sz, d1 * (d * sz)])"
| "dim_tables sz _ = None"

definition na_ok :: "etch_nativearray \<Rightarrow> nat list \<Rightarrow> nat \<Rightarrow> nat \<Rightarrow> nat \<Rightarrow> bool" where
  "na_ok a ds sz base n \<longleftrightarrow> dim_tables sz ds = Some (na_dimension a, na_dimsize a) \<and> na_numdims a = int (length ds)
     \<and> na_itemsize a = sz \<and> 0 < sz \<and> (\<forall>d \<in> set ds. 0 < d \<and> d < 2147483648) \<and> na_values a = Some base
     \<and> base + sz * prod_list ds \<le> n \<and> n \<le> OBJ_MAX"

lemma offset_of_size_small: "n < 2147483648 \<Longrightarrow> offset_of_size n = int n"
  by (simp add: offset_of_size_def signed_of_nat signed_take_bit_int_eq_self)

lemma sz_mul_small: "a * b \<le> OBJ_MAX \<Longrightarrow> sz_mul a b = a * b"
  using OBJ_MAX_SIZE_MOD by (simp add: sz_mul_def)

lemma sz_of_int_small: "0 \<le> i \<Longrightarrow> i < 2147483648 \<Longrightarrow> sz_of_int i = nat i"
  by (simp add: sz_of_int_def)

text \<open>The offset of an item.\<close>

lemma off1_flat:
  assumes "na_ok a [d] sz base n" and "in_range [d] [i]"
  shows "etch_nativearray_off1 a i = sz * flat [d] [i]"
proof -
  have t: "na_dimension a = [d, 0, 0]" "na_dimsize a = [sz, 0, 0]" and d: "d < 2147483648" and n: "sz * d \<le> OBJ_MAX"
    using assms(1) by (auto simp: na_ok_def)
  have i: "0 \<le> i" "i < int d" using assms(2) by simp_all
  have "nat i * sz \<le> d * sz" using i by (intro mult_le_mono1) simp
  then have "nat i * sz \<le> OBJ_MAX" using n unfolding mult.commute [of sz d] by (rule le_trans)
  then show ?thesis using t d i by (simp add: etch_nativearray_off1_def offset_of_size_small sz_of_int_small sz_mul_small)
qed

lemma off2_flat:
  assumes "na_ok a [e, d] sz base n" and "in_range [e, d] [i, j]"
  shows "etch_nativearray_off2 a i j = sz * flat [e, d] [i, j]"
proof -
  have t: "na_dimension a = [d, e, 0]" "na_dimsize a = [sz, d * sz, 0]" and d: "d < 2147483648" "e < 2147483648"
    and n: "sz * (e * d) \<le> OBJ_MAX" using assms(1) by (auto simp: na_ok_def)
  have i: "0 \<le> i" "i < int e" "0 \<le> j" "j < int d" using assms(2) by simp_all
  have "sz * flat [e, d] [i, j] \<le> sz * (e * d)" using flat_less [OF assms(2)] by (intro mult_le_mono2) simp
  then have s: "nat i * (d * sz) + nat j * sz \<le> OBJ_MAX" using n by (simp add: algebra_simps)
  then show ?thesis using t d i OBJ_MAX_SIZE_MOD [OF s]
    by (simp add: etch_nativearray_off2_def offset_of_size_small sz_of_int_small sz_mul_small sz_add_small algebra_simps)
qed

lemma off3_flat:
  assumes "na_ok a [f, e, d] sz base n" and "in_range [f, e, d] [i, j, k]"
  shows "etch_nativearray_off3 a i j k = sz * flat [f, e, d] [i, j, k]"
proof -
  have t: "na_dimension a = [d, e, f]" "na_dimsize a = [sz, d * sz, e * (d * sz)]"
    and d: "d < 2147483648" "e < 2147483648" "f < 2147483648"
    and n: "sz * (f * (e * d)) \<le> OBJ_MAX" using assms(1) by (auto simp: na_ok_def)
  have i: "0 \<le> i" "i < int f" "0 \<le> j" "j < int e" "0 \<le> k" "k < int d" using assms(2) by simp_all
  have "sz * flat [f, e, d] [i, j, k] \<le> sz * (f * (e * d))" using flat_less [OF assms(2)] by (intro mult_le_mono2) simp
  then have s: "nat i * (e * (d * sz)) + nat j * (d * sz) + nat k * sz \<le> OBJ_MAX" using n by (simp add: algebra_simps)
  then show ?thesis using t d i OBJ_MAX_SIZE_MOD [OF s]
    by (simp add: etch_nativearray_off3_def offset_of_size_small sz_of_int_small sz_mul_small sz_add_small algebra_simps)
qed

lemma dim_tables_cases:
  assumes "dim_tables sz ds = Some t"
  obtains (one) d where "ds = [d]" "fst t = [d, 0, 0]" "snd t = [sz, 0, 0]"
    | (two) e d where "ds = [e, d]" "fst t = [d, e, 0]" "snd t = [sz, d * sz, 0]"
    | (three) f e d where "ds = [f, e, d]" "fst t = [d, e, f]" "snd t = [sz, d * sz, e * (d * sz)]"
  using assms by (cases "(sz, ds)" rule: dim_tables.cases) auto

lemma na_put_flat:
  assumes "na_ok a ds sz base n" and "in_range ds js"
  shows "na_put a mem v js = put_at a mem v (sz * flat ds js) \<and> na_get a mem js = get_at a mem (sz * flat ds js)"
proof -
  have "dim_tables sz ds = Some (na_dimension a, na_dimsize a)" using assms(1) by (simp add: na_ok_def)
  then show ?thesis
  proof (cases rule: dim_tables_cases)
    case (one d)
    then obtain i where "js = [i]" using assms(2) by (cases js) auto
    then show ?thesis using one off1_flat assms
      by (simp add: etch_nativearray_put1_def etch_nativearray_get1_def del: flat.simps in_range_simps)
  next
    case (two e d)
    then obtain i j where "js = [i, j]" using assms(2) by (cases js; cases "tl js") auto
    then show ?thesis using two off2_flat assms
      by (simp add: etch_nativearray_put2_def etch_nativearray_get2_def del: flat.simps in_range_simps)
  next
    case (three f e d)
    then obtain i j k where "js = [i, j, k]" using assms(2) by (cases js; cases "tl js"; cases "tl (tl js)") auto
    then show ?thesis using three off3_flat assms
      by (simp add: etch_nativearray_put3_def etch_nativearray_get3_def del: flat.simps in_range_simps)
  qed
qed

lemma item_in_block:
  assumes "na_ok a ds sz base n" and "in_range ds js"
  shows "base + sz * flat ds js + sz \<le> n" and "sz_add base (sz * flat ds js) = base + sz * flat ds js"
proof -
  have "sz * (flat ds js + 1) \<le> sz * prod_list ds" using flat_less [OF assms(2)] by (intro mult_le_mono2) simp
  then show b: "base + sz * flat ds js + sz \<le> n" using assms(1) by (simp add: na_ok_def)
  then have "base + sz * flat ds js \<le> OBJ_MAX" using assms(1) by (simp add: na_ok_def)
  then show "sz_add base (sz * flat ds js) = base + sz * flat ds js" using OBJ_MAX_SIZE_MOD by (simp add: sz_add_small)
qed

lemma read_write_same:
  "off + length bs \<le> length m \<Longrightarrow> mem_write m off bs = Some m' \<Longrightarrow> mem_read m' off (length bs) = Some bs"
  by (auto simp: mem_write_def mem_read_def split: if_splits)

lemma read_write_other:
  assumes "mem_write m off bs = Some m'" and "o2 + n \<le> off \<or> off + length bs \<le> o2"
  shows "mem_read m' o2 n = mem_read m o2 n"
proof -
  have w: "off + length bs \<le> length m" "m' = take off m @ bs @ drop (off + length bs) m"
    using assms(1) by (auto simp: mem_write_def split: if_splits)
  have l: "length m' = length m" by (rule mem_write_length [OF assms(1)])
  have "take n (drop o2 m') = take n (drop o2 m)" using assms(2)
  proof
    assume "o2 + n \<le> off"
    then have "take (o2 + n) m' = take (o2 + n) m" using w(1) unfolding w(2) by (simp add: min_def)
    then show ?thesis by (metis add.commute take_drop)
  next
    assume a: "off + length bs \<le> o2"
    have "drop o2 m' = drop (o2 - (off + length bs)) (drop (off + length bs) m)" using a w(1) unfolding w(2) by simp
    then show ?thesis using a by simp
  qed
  then show ?thesis using l by (simp add: mem_read_def)
qed

lemma na_put_get:
  assumes "na_ok a ds sz base (length mem)" and "in_range ds js" and "length v = sz"
  shows "\<exists>mem'. na_put a mem (Some v) js = Some (0, mem') \<and> length mem' = length mem
    \<and> na_get a mem' js = Some (0, v) \<and> (\<forall>ks. in_range ds ks \<longrightarrow> ks \<noteq> js \<longrightarrow> na_get a mem' ks = na_get a mem ks)"
proof -
  note b = item_in_block [OF assms(1,2)]
  have z: "na_itemsize a = sz" "na_values a = Some base" using assms(1) by (simp_all add: na_ok_def)
  obtain mem' where w: "mem_write mem (base + sz * flat ds js) v = Some mem'" using b(1) assms(3) by (simp add: mem_write_def)
  have l: "length mem' = length mem" by (rule mem_write_length [OF w])
  then have ok: "na_ok a ds sz base (length mem')" using assms(1) by simp
  have p: "na_put a mem (Some v) js = Some (0, mem')"
    using na_put_flat [OF assms(1,2)] z b w assms(3) by (simp add: put_at_def mem_read_def)
  have g: "na_get a mem' js = Some (0, v)"
    using na_put_flat [OF ok assms(2)] z b read_write_same [OF _ w] assms(3) by (simp add: get_at_def)
  have "na_get a mem' ks = na_get a mem ks" if "in_range ds ks" "ks \<noteq> js" for ks
  proof -
    have "flat ds ks \<noteq> flat ds js" using flat_inj [OF that(1) assms(2)] that(2) by simp
    then have "flat ds ks + 1 \<le> flat ds js \<or> flat ds js + 1 \<le> flat ds ks" by linarith
    then have "sz * (flat ds ks + 1) \<le> sz * flat ds js \<or> sz * (flat ds js + 1) \<le> sz * flat ds ks"
      by (meson mult_le_mono2)
    then have "mem_read mem' (base + sz * flat ds ks) sz = mem_read mem (base + sz * flat ds ks) sz"
      using assms(3) by (intro read_write_other [OF w]) auto
    then show ?thesis using na_put_flat [OF ok that(1)] na_put_flat [OF assms(1) that(1)] z item_in_block [OF assms(1) that(1)]
      by (simp add: get_at_def)
  qed
  then show ?thesis using p l g by blast
qed

section \<open>A new array\<close>

definition dim_arg :: "nat list \<Rightarrow> nat \<Rightarrow> int" where
  "dim_arg ds j = (if j < length ds then int (rev ds ! j) else 0)"

lemma content_type_keeps:
  "na_dimension (snd (etch_nativearray_set_content_type a)) = na_dimension a"
  "na_dimsize (snd (etch_nativearray_set_content_type a)) = na_dimsize a"
  "na_numdims (snd (etch_nativearray_set_content_type a)) = na_numdims a"
  "na_itemsize (snd (etch_nativearray_set_content_type a)) = na_itemsize a"
  "na_values (snd (etch_nativearray_set_content_type a)) = na_values a"
  "na_bytecount (snd (etch_nativearray_set_content_type a)) = na_bytecount a"
  by (simp_all add: etch_nativearray_set_content_type_def Let_def)

lemma init_ok:
  assumes "1 \<le> length ds" and "length ds \<le> 3" and "\<forall>d \<in> set ds. 0 < d \<and> d < 2147483648" and "0 < sz"
    and "sz * prod_list ds \<le> OBJ_MAX"
  shows "\<exists>a. init_etch_nativearray cls sz (int (length ds)) (dim_arg ds 0) (dim_arg ds 1) (dim_arg ds 2) = Some (Some a)
    \<and> dim_tables sz ds = Some (na_dimension a, na_dimsize a) \<and> na_numdims a = int (length ds) \<and> na_itemsize a = sz
    \<and> na_bytecount a = sz * prod_list ds"
proof -
  have pos: "x \<le> x * y" if "0 < y" for x y :: nat using that by simp
  consider d where "ds = [d]" | e d where "ds = [e, d]" | f e d where "ds = [f, e, d]"
    using assms(1,2) by (cases ds; cases "tl ds"; cases "tl (tl ds)"; cases "tl (tl (tl ds))") auto
  then show ?thesis
  proof cases
    case 1
    then show ?thesis using assms(3-5)
      by (simp add: init_etch_nativearray_def ETCH_MAX_NATIVE_DIM_def dim_arg_def sz_of_int_small sz_mul_small)
  next
    case (2 e d)
    have q: "sz * d * e \<le> OBJ_MAX" using assms(5) 2 by (simp add: mult_ac)
    have "sz * d \<le> sz * d * e" using assms(3) 2 pos by simp
    with q have p': "sz * d \<le> OBJ_MAX" by (rule le_trans [rotated])
    then have p: "sz * d \<le> OBJ_MAX" "d * sz \<le> OBJ_MAX" by (simp_all add: mult.commute)
    have "[1 ..< nat 2] = [1]" by code_simp
    then show ?thesis using assms(3,4) 2 p q
      by (simp add: init_etch_nativearray_def ETCH_MAX_NATIVE_DIM_def dim_arg_def sz_of_int_small sz_mul_small
          size_step_def Let_def mult_ac)
  next
    case (3 f e d)
    have q: "sz * d * e * f \<le> OBJ_MAX" using assms(5) 3 by (simp add: mult_ac)
    have "sz * d * e \<le> sz * d * e * f" "sz * d \<le> sz * d * e" using assms(3) 3 pos by simp_all
    with q have p: "sz * d * e \<le> OBJ_MAX" "sz * d \<le> OBJ_MAX" by linarith+
    have "[1 ..< nat 3] = [1, 2]" by code_simp
    then show ?thesis using assms(3,4) 3 p q
      by (simp add: init_etch_nativearray_def ETCH_MAX_NATIVE_DIM_def dim_arg_def sz_of_int_small sz_mul_small
          size_step_def Let_def mult_ac numeral_2_eq_2)
  qed
qed

lemma new_ok:
  assumes "1 \<le> length ds" and "length ds \<le> 3" and "\<forall>d \<in> set ds. 0 < d \<and> d < 2147483648" and "0 < sz"
    and "sz * prod_list ds \<le> OBJ_MAX"
  shows "\<exists>a. new_etch_nativearray cls sz (int (length ds)) (dim_arg ds 0) (dim_arg ds 1) (dim_arg ds 2)
      = Some (Some (a, replicate (sz * prod_list ds) 0)) \<and> na_ok a ds sz 0 (sz * prod_list ds)"
proof -
  from init_ok [OF assms] obtain a where a: "init_etch_nativearray cls sz (int (length ds)) (dim_arg ds 0) (dim_arg ds 1) (dim_arg ds 2) = Some (Some a)"
    "dim_tables sz ds = Some (na_dimension a, na_dimsize a)" "na_numdims a = int (length ds)" "na_itemsize a = sz"
    "na_bytecount a = sz * prod_list ds" by blast
  let ?b = "snd (etch_nativearray_set_content_type (a\<lparr>na_values := Some 0, na_is_content_owned := True\<rparr>))"
  have "na_ok ?b ds sz 0 (sz * prod_list ds)" using a assms by (simp add: na_ok_def content_type_keeps)
  moreover have "new_etch_nativearray cls sz (int (length ds)) (dim_arg ds 0) (dim_arg ds 1) (dim_arg ds 2)
      = Some (Some (?b, replicate (sz * prod_list ds) 0))" using a assms(5) by (simp add: new_etch_nativearray_def)
  ultimately show ?thesis by blast
qed

section \<open>An array is a function\<close>

fun na_puts :: "etch_nativearray \<Rightarrow> (int list \<times> byte list) list \<Rightarrow> byte list \<Rightarrow> byte list option" where
  "na_puts a [] mem = Some mem"
| "na_puts a ((js, v) # puts) mem =
     (case na_put a mem (Some v) js of Some (r, mem) \<Rightarrow> if r = 0 then na_puts a puts mem else None | None \<Rightarrow> None)"

lemma na_puts_function:
  "na_ok a ds sz base (length mem) \<Longrightarrow> \<forall>(js, v) \<in> set puts. in_range ds js \<and> length v = sz \<Longrightarrow>
   \<forall>ks. in_range ds ks \<longrightarrow> na_get a mem ks = Some (0, f ks) \<Longrightarrow>
   \<exists>mem'. na_puts a puts mem = Some mem' \<and>
     (\<forall>ks. in_range ds ks \<longrightarrow> na_get a mem' ks = Some (0, fold (\<lambda>(js, v) f. f(js := v)) puts f ks))"
proof (induction puts arbitrary: mem f)
  case (Cons p puts)
  obtain js v where p: "p = (js, v)" by (cases p)
  have jv: "in_range ds js" "length v = sz" using Cons.prems(2) p by auto
  from na_put_get [OF Cons.prems(1) jv] obtain mem1 where m: "na_put a mem (Some v) js = Some (0, mem1)"
    "length mem1 = length mem" "na_get a mem1 js = Some (0, v)"
    "\<forall>ks. in_range ds ks \<longrightarrow> ks \<noteq> js \<longrightarrow> na_get a mem1 ks = na_get a mem ks" by blast
  have "\<forall>ks. in_range ds ks \<longrightarrow> na_get a mem1 ks = Some (0, (f(js := v)) ks)" using Cons.prems(3) m(3,4) by simp
  then have "\<exists>mem'. na_puts a puts mem1 = Some mem' \<and>
     (\<forall>ks. in_range ds ks \<longrightarrow> na_get a mem' ks = Some (0, fold (\<lambda>(js, v) f. f(js := v)) (p # puts) f ks))" unfolding p fold_simps prod.case
    using Cons.IH [of mem1 "f(js := v)"] Cons.prems(1,2) m(2) by (simp del: fun_upd_apply)
  moreover have "na_puts a (p # puts) mem = na_puts a puts mem1" using m(1) p by simp
  ultimately show ?case by (simp only:)
qed simp

text \<open>
  C38. A native array of one, two or three dimensions is a function from its subscripts to its items: it starts with
  zeros, and whatever items are put at subscripts in range, an access returns what was put there last.  The block
  has exactly the bytes that are needed and none behind it is touched.
\<close>

theorem nativearray_is_a_function:
  assumes "1 \<le> length ds" and "length ds \<le> 3" and "\<forall>d \<in> set ds. 0 < d \<and> d < 2147483648" and "0 < sz"
    and "sz * prod_list ds \<le> OBJ_MAX"
    and "\<forall>(js, v) \<in> set puts. in_range ds js \<and> length v = sz" and "in_range ds ks"
  shows "\<exists>a mem mem'. new_etch_nativearray cls sz (int (length ds)) (dim_arg ds 0) (dim_arg ds 1) (dim_arg ds 2)
      = Some (Some (a, mem)) \<and> length mem = sz * prod_list ds \<and> na_puts a puts mem = Some mem'
    \<and> na_get a mem' ks = Some (0, fold (\<lambda>(js, v) f. f(js := v)) puts (\<lambda>_. replicate sz 0) ks)"
proof -
  let ?mem = "replicate (sz * prod_list ds) 0 :: byte list"
  from new_ok [OF assms(1-5), of cls] obtain a where a: "new_etch_nativearray cls sz (int (length ds)) (dim_arg ds 0) (dim_arg ds 1)
      (dim_arg ds 2) = Some (Some (a, ?mem))" "na_ok a ds sz 0 (sz * prod_list ds)" by blast
  have z: "na_get a ?mem js = Some (0, replicate sz 0)" if "in_range ds js" for js
    using na_put_flat [OF a(2) that] item_in_block [OF a(2) that] a(2)
    by (simp add: get_at_def na_ok_def mem_read_def add.commute)
  have "na_ok a ds sz 0 (length ?mem)" using a(2) by simp
  from na_puts_function [OF this assms(6), of "\<lambda>_. replicate sz 0"] z obtain mem' where
    "na_puts a puts ?mem = Some mem'"
    "\<forall>ks. in_range ds ks \<longrightarrow> na_get a mem' ks = Some (0, fold (\<lambda>(js, v) f. f(js := v)) puts (\<lambda>_. replicate sz 0) ks)"
    by blast
  then show ?thesis using a(1) assms(7) by auto
qed

lemma nativearray_is_a_function_witness:
  "\<exists>a mem mem'. new_etch_nativearray 85 4 2 3 2 0 = Some (Some (a, mem)) \<and> na_puts a [([1, 2], [1, 2, 3, 4])] mem = Some mem'
    \<and> na_get a mem' [1, 2] = Some (0, [1, 2, 3, 4])"
  using nativearray_is_a_function [of "[2, 3]" 4 "[([1, 2], [1, 2, 3, 4])]" "[1, 2]" 85]
  by (simp add: dim_arg_def OBJ_MAX_def) blast

section \<open>Subarrays\<close>

lemma row_from:
  assumes "na_ok a (d # ds) sz base n" and "ds \<noteq> []" and "i < d"
  shows "\<exists>t. init_etch_nativearray c sz (na_numdims a - 1) (offset_of_size (na_dimension a ! 0)) (offset_of_size (na_dimension a ! 1)) 0
      = Some (Some t)
    \<and> sz_add base (sz_mul i (na_dimsize a ! nat (na_numdims a - 1))) = base + i * (sz * prod_list ds)
    \<and> na_dimsize a ! nat (na_numdims a - 1) = sz * prod_list ds
    \<and> offset_of_size (na_dimension a ! nat (na_numdims a - 1)) = int d
    \<and> (\<forall>s. na_dimension s = na_dimension t \<longrightarrow> na_dimsize s = na_dimsize t \<longrightarrow> na_numdims s = na_numdims t \<longrightarrow>
        na_itemsize s = na_itemsize t \<longrightarrow> na_values s = Some (base + i * (sz * prod_list ds)) \<longrightarrow>
        na_ok s ds sz (base + i * (sz * prod_list ds)) n)"
proof -
  let ?b = "base + i * (sz * prod_list ds)"
  have A: "dim_tables sz (d # ds) = Some (na_dimension a, na_dimsize a)" "na_numdims a = 1 + int (length ds)"
    "0 < sz" "\<forall>x \<in> set (d # ds). 0 < x \<and> x < 2147483648" "base + sz * (d * prod_list ds) \<le> n" "n \<le> OBJ_MAX"
    using assms(1) by (simp_all add: na_ok_def)
  have len: "1 \<le> length ds" "length ds \<le> 2" using assms(2) A(1)
    by (auto simp: Suc_le_eq elim!: dim_tables_cases)
  have "i + 1 \<le> d" using assms(3) by linarith
  then have "(i + 1) * (sz * prod_list ds) \<le> d * (sz * prod_list ds)" by (rule mult_le_mono1)
  then have fit: "?b + sz * prod_list ds \<le> n" using A(5) by (simp add: algebra_simps)
  have "i * (sz * prod_list ds) + base \<le> OBJ_MAX" "sz * prod_list ds \<le> OBJ_MAX" using fit A(6) by linarith+
  then have szo: "sz_add base (sz_mul i (sz * prod_list ds)) = ?b"
    by (simp add: sz_mul_small sz_add_small OBJ_MAX_SIZE_MOD add.commute)
  have sub: "na_dimsize a ! nat (na_numdims a - 1) = sz * prod_list ds" "offset_of_size (na_dimension a ! nat (na_numdims a - 1)) = int d"
    "offset_of_size (na_dimension a ! 0) = dim_arg ds 0" "length ds = 1 \<or> offset_of_size (na_dimension a ! 1) = dim_arg ds 1"
    using A(1,2,4) len by (auto simp: dim_arg_def offset_of_size_small numeral_2_eq_2 elim!: dim_tables_cases)
  have "init_etch_nativearray c sz 1 x y 0 = init_etch_nativearray c sz 1 x 0 0" for x y
    by (simp add: init_etch_nativearray_def)
  moreover have "dim_arg ds 2 = 0" "length ds = 1 \<Longrightarrow> dim_arg ds 1 = 0" using len by (simp_all add: dim_arg_def)
  ultimately have args: "init_etch_nativearray c sz (na_numdims a - 1) (offset_of_size (na_dimension a ! 0)) (offset_of_size (na_dimension a ! 1)) 0
      = init_etch_nativearray c sz (int (length ds)) (dim_arg ds 0) (dim_arg ds 1) (dim_arg ds 2)"
    using sub(3,4) A(2) by (cases "length ds = 1") simp_all
  have bound: "sz * prod_list ds \<le> OBJ_MAX" using fit A(6) by linarith
  from init_ok [OF len(1) _ _ A(3) bound, of c] len(2) A(4) obtain t where
    t: "init_etch_nativearray c sz (int (length ds)) (dim_arg ds 0) (dim_arg ds 1) (dim_arg ds 2) = Some (Some t)"
    "dim_tables sz ds = Some (na_dimension t, na_dimsize t)" "na_numdims t = int (length ds)" "na_itemsize t = sz" by auto
  have "na_ok s ds sz ?b n" if "na_dimension s = na_dimension t" "na_dimsize s = na_dimsize t" "na_numdims s = na_numdims t"
      "na_itemsize s = na_itemsize t" "na_values s = Some ?b" for s
    using t fit A(3,4,6) that by (simp add: na_ok_def)
  then show ?thesis using t(1) args szo sub(1,2) by simp
qed

lemma row_access:
  assumes "na_ok a (d # ds) sz base n" and "na_ok s ds sz (base + i * (sz * prod_list ds)) n" and "i < d" and "in_range ds js"
  shows "na_put s mem v js = na_put a mem v (int i # js) \<and> na_get s mem js = na_get a mem (int i # js)"
proof -
  have r: "in_range (d # ds) (int i # js)" using assms(3,4) by simp
  have off: "sz_add (base + i * (sz * prod_list ds)) (sz * flat ds js) = sz_add base (sz * flat (d # ds) (int i # js))"
    using item_in_block(2) [OF assms(2,4)] item_in_block(2) [OF assms(1) r] by (simp add: algebra_simps)
  have z: "na_values s = Some (base + i * (sz * prod_list ds))" "na_itemsize s = sz" "na_values a = Some base" "na_itemsize a = sz"
    using assms(1,2) by (simp_all add: na_ok_def)
  show ?thesis using na_put_flat [OF assms(2,4)] na_put_flat [OF assms(1) r] off z
    by (cases v) (simp_all add: put_at_def get_at_def del: flat.simps)
qed

text \<open>
  A subarray is a row of its parent: putting and getting through it is putting and getting at the subscripts
  that are extended by the number of the row, in the same bytes.
\<close>

theorem subarray_is_a_row:
  assumes "na_ok a (d # ds) sz base (length mem)" and "ds \<noteq> []" and "i < d" and "sz < 2147483648" and "in_range ds js"
  shows "\<exists>s. new_subarray a (int i) = Some (Some s) \<and> na_ok s ds sz (base + i * (sz * prod_list ds)) (length mem)
    \<and> na_put s mem v js = na_put a mem v (int i # js) \<and> na_get s mem js = na_get a mem (int i # js)"
proof -
  let ?b = "base + i * (sz * prod_list ds)"
  from row_from [OF assms(1-3), of "na_class_id a"] obtain t where
    t: "init_etch_nativearray (na_class_id a) sz (na_numdims a - 1) (offset_of_size (na_dimension a ! 0)) (offset_of_size (na_dimension a ! 1)) 0
      = Some (Some t)"
    and o: "sz_add base (sz_mul i (na_dimsize a ! nat (na_numdims a - 1))) = ?b"
    and d: "offset_of_size (na_dimension a ! nat (na_numdims a - 1)) = int d"
    and k: "\<And>s. na_dimension s = na_dimension t \<Longrightarrow> na_dimsize s = na_dimsize t \<Longrightarrow> na_numdims s = na_numdims t \<Longrightarrow>
        na_itemsize s = na_itemsize t \<Longrightarrow> na_values s = Some ?b \<Longrightarrow> na_ok s ds sz ?b (length mem)" by blast
  have A: "na_numdims a = 1 + int (length ds)" "na_itemsize a = sz" "na_values a = Some base" "d < 2147483648"
    using assms(1) by (simp_all add: na_ok_def)
  define s where "s = (snd (etch_nativearray_set_content_type (t\<lparr>na_values := Some ?b, na_is_content_owned := False\<rparr>)))\<lparr>
    na_bytecount := na_dimsize a ! nat (na_numdims a - 1), na_content_obj_type := na_content_obj_type a,
    na_content_class_id := na_content_class_id a, na_is_content_owned := na_is_content_owned a,
    na_counts := [na_counts a ! 0, na_counts a ! 1, 0]\<rparr>"
  have e: "new_etch_nativearray_from (Some ?b) (na_class_id a) (sz_of_int (offset_of_size sz)) (na_numdims a - 1)
      (offset_of_size (na_dimension a ! 0)) (offset_of_size (na_dimension a ! 1)) 0
    = Some (Some (snd (etch_nativearray_set_content_type (t\<lparr>na_values := Some ?b, na_is_content_owned := False\<rparr>))))"
    using t assms(4) by (simp add: new_etch_nativearray_from_def offset_of_size_small sz_of_int_small)
  have i: "sz_of_int (int i) = i" using assms(3) A(4) by (simp add: sz_of_int_def)
  have c: "na_numdims a > 1 \<and> int i < offset_of_size (na_dimension a ! nat (na_numdims a - 1))" using assms(2,3) d A(1) by simp
  have n: "new_subarray a (int i) = Some (Some s)"
    unfolding new_subarray_def Let_def if_P [OF c] A(2,3) option.map i o e by (simp add: s_def)
  have ok: "na_ok s ds sz ?b (length mem)" by (rule k) (simp_all add: s_def content_type_keeps)
  show ?thesis using n ok row_access [OF assms(1) ok assms(3,5)] by blast
qed

definition grid :: etch_nativearray where
  "grid = \<lparr>na_class_id = CLASSID_ARRAY_BYTE, na_is_content_owned = True, na_values = Some 0,
     na_content_obj_type = ETCHTYPEB_BYTE, na_content_class_id = 0, na_numdims = 2, na_itemsize = 1, na_bytecount = 4,
     na_dimension = [2, 2, 0], na_dimsize = [1, 2, 0], na_counts = [0, 0, 0]\<rparr>"

lemma grid_ok: "na_ok grid [2, 2] 1 0 (length [1, 2, 3, 4 :: byte])"
  by (simp add: na_ok_def grid_def OBJ_MAX_def)

lemma subarray_is_a_row_witness:
  "\<exists>s. new_subarray grid 1 = Some (Some s) \<and> na_get s [1, 2, 3, 4] [0] = na_get grid [1, 2, 3, 4] [1, 0]"
  using subarray_is_a_row [OF grid_ok, of 1 "[0]" None] by auto

section \<open>Subscripts out of range\<close>

lemma sz_add_NO_OFFSET: "0 < b \<Longrightarrow> b \<le> OBJ_MAX \<Longrightarrow> sz_add b NO_OFFSET = b - 1" "sz_add 0 NO_OFFSET = SIZE_MOD - 1"
proof -
  have n: "NO_OFFSET = SIZE_MOD - 1" by (simp add: NO_OFFSET_def sz_of_int_minus_one)
  have pos: "0 < SIZE_MOD" by (simp add: SIZE_MOD_def)
  show "sz_add 0 NO_OFFSET = SIZE_MOD - 1" using pos by (simp add: n sz_add_def)
  assume b: "0 < b" "b \<le> OBJ_MAX"
  then have e: "b + (SIZE_MOD - 1) = (b - 1) + SIZE_MOD" using pos by linarith
  have "b - 1 < SIZE_MOD" using OBJ_MAX_SIZE_MOD [OF b(2)] by linarith
  then have "((b - 1) + SIZE_MOD) mod SIZE_MOD = b - 1" unfolding mod_add_self2 by (rule mod_less)
  then show "sz_add b NO_OFFSET = b - 1" unfolding sz_add_def n e .
qed

text \<open>
  C40. A subscript out of range is not refused: the offset -1 is unsigned, so that its test never fails.  Putting through a
  subarray then writes the item one byte before the row, over the last byte of the row before and all but the last
  byte of its own first item, and reports success; with the whole array the write is outside the block.
\<close>

theorem bad_subscript_hits_the_byte_before:
  assumes "na_ok a [d] sz base (length mem)" and "\<not> in_range [d] [i]" and "length v = sz"
  shows "etch_nativearray_put1 a mem (Some v) i
    = (if base = 0 then None else Some (0, take (base - 1) mem @ v @ drop (base - 1 + sz) mem))"
proof -
  have A: "na_dimension a = [d, 0, 0]" "d < 2147483648" "na_itemsize a = sz" "na_values a = Some base" "base + sz * d \<le> length mem"
    "length mem \<le> OBJ_MAX" "0 < d" using assms(1) by (auto simp: na_ok_def)
  have off: "etch_nativearray_off1 a i = NO_OFFSET" using assms(2) A(1,2)
    by (auto simp: etch_nativearray_off1_def offset_of_size_small)
  have "sz \<le> sz * d" using A(7) by simp
  then have fit: "base + sz \<le> length mem" using A(5) by linarith
  show ?thesis
  proof (cases "base = 0")
    case True
    then have "mem_write mem (sz_add base NO_OFFSET) v = None" using A(6)
      by (simp add: mem_write_def sz_add_NO_OFFSET SIZE_MOD_def OBJ_MAX_def)
    then show ?thesis using True off A(3,4) assms(3) by (simp add: etch_nativearray_put1_def put_at_def mem_read_def)
  next
    case False
    then have "mem_write mem (sz_add base NO_OFFSET) v = Some (take (base - 1) mem @ v @ drop (base - 1 + sz) mem)"
      using A(6) fit assms(3) by (simp add: mem_write_def sz_add_NO_OFFSET)
    then show ?thesis using False off A(3,4) assms(3) by (simp add: etch_nativearray_put1_def put_at_def mem_read_def)
  qed
qed

definition grid_row :: etch_nativearray where
  "grid_row = grid\<lparr>na_values := Some 2, na_numdims := 1, na_dimension := [2, 0, 0], na_dimsize := [1, 0, 0]\<rparr>"

lemma bad_subscript_hits_the_byte_before_witness:
  "etch_nativearray_put1 grid_row [1, 2, 3, 4] (Some [9]) 2 = Some (0, [1, 9, 3, 4])"
proof -
  have "na_ok grid_row [2] 1 2 (length [1, 2, 3, 4 :: byte])" by (simp add: na_ok_def grid_row_def grid_def OBJ_MAX_def)
  from bad_subscript_hits_the_byte_before [OF this, of 2 "[9]"] show ?thesis by (simp add: numeral_2_eq_2)
qed

text \<open>
  The number of bytes wraps around: an array with 2 to the power of 64 bytes gets a block of no bytes, and its
  first item is outside.
\<close>

theorem nativearray_size_wraps:
  "\<exists>a. new_etch_nativearray CLASSID_ARRAY_BYTE 1 3 1073741824 1073741824 16 = Some (Some (a, []))
     \<and> etch_nativearray_get3 a [] 0 0 0 = None"
proof -
  let ?r = "new_etch_nativearray CLASSID_ARRAY_BYTE 1 3 1073741824 1073741824 16"
  have "\<exists>a. ?r = Some (Some (a, [])) \<and> etch_nativearray_get3 a [] 0 0 0 = None"
    by (simp add: new_etch_nativearray_def init_etch_nativearray_def ETCH_MAX_NATIVE_DIM_def size_step_def sz_mul_def
        sz_of_int_def SIZE_MOD_def etch_nativearray_get3_def get_at_def content_type_keeps mem_read_def upt_conv_Cons Let_def
        etch_nativearray_set_content_type_def)
  then show ?thesis .
qed

end
