(* ===== verification/ArrayValue_Correct.thy ===== *)
theory ArrayValue_Correct
  imports ArrayValue NativeArray_Correct
begin

text \<open>From a native array to an array value and back.\<close>

section \<open>Little-endian values\<close>

lemma bit_union_value:
  "bit (union_value bs) n \<longleftrightarrow> n < 64 \<and> n div 8 < length bs \<and> bit (bs ! (n div 8)) (n mod 8)"
proof (induction bs arbitrary: n)
  case (Cons b bs)
  show ?case
  proof (cases "n < 8")
    case True
    then show ?thesis by (simp add: bit_or_iff bit_push_bit_iff bit_ucast_iff)
  next
    case False
    then have d: "n div 8 = Suc ((n - 8) div 8)" "n mod 8 = (n - 8) mod 8" by (simp_all add: le_div_geq le_mod_geq)
    have "\<not> bit b n" using False bit_imp_le_length [of b n] by auto
    then show ?thesis using False Cons.IH [of "n - 8"] unfolding d
      by (auto simp: bit_or_iff bit_push_bit_iff bit_ucast_iff)
  qed
qed simp

lemma item_bytes_union:
  assumes "length bs = n" and "8 * n \<le> 64" and "8 * n \<le> LENGTH('a)"
  shows "item_bytes n (ucast (union_value bs) :: 'a::len word) = bs"
proof (rule nth_equalityI)
  show "length (item_bytes n (ucast (union_value bs) :: 'a word)) = length bs" using assms(1) by (simp add: item_bytes_def)
  fix i assume "i < length (item_bytes n (ucast (union_value bs) :: 'a word))"
  then have i: "i < n" by (simp add: item_bytes_def)
  show "item_bytes n (ucast (union_value bs) :: 'a word) ! i = bs ! i"
  proof (rule bit_word_eqI)
    fix j assume j: "j < LENGTH(8)"
    then have "8 * i + j < 8 * n" using i by simp
    moreover have "(8 * i + j) div 8 = i" "(8 * i + j) mod 8 = j" using j by simp_all
    ultimately show "bit (item_bytes n (ucast (union_value bs) :: 'a word) ! i) j = bit (bs ! i) j"
      using assms i j by (simp add: item_bytes_def bit_ucast_iff bit_drop_bit_eq bit_union_value)
  qed
qed

text \<open>The types of items whose objects hold their value, with its size.\<close>

definition plain_type :: "nat \<Rightarrow> nat \<Rightarrow> bool" where
  "plain_type t sz \<longleftrightarrow> (t, sz) \<in> {(ETCHTYPEB_BYTE, 1), (ETCHTYPEB_BOOL, 1), (ETCHTYPEB_INT8, 1), (ETCHTYPEB_INT16, 2),
     (ETCHTYPEB_INT32, 4), (ETCHTYPEB_INT64, 8), (ETCHTYPEB_IEEE32, 4), (ETCHTYPEB_IEEE64, 8)}"

lemma plain_type_size: "plain_type t sz \<Longrightarrow> 0 < sz \<and> sz \<le> 8"
  by (auto simp: plain_type_def)

lemma wrapped_component:
  assumes "plain_type (na_content_obj_type a) sz" and "na_content_class_id a = 0" and "na_itemsize a = sz" and "na_numdims a = 1"
    and "int i < offset_of_size (na_dimension a ! 0)" and "etch_nativearray_get1 a mem (int i) = Some (0, bs)" and "length bs = sz"
  shows "\<exists>c. etch_nativearray_get_wrapped_component a mem (int i) = Some (0, Some c) \<and> wrapper_value raw (Entry c) = bs"
proof -
  have w: "etch_nativearray_get_wrapped_component a mem (int i) = Some (0, Some
      (let v = union_value bs; t = na_content_obj_type a in
       if t = ETCHTYPEB_BYTE then Object (EByte (ucast v))
       else if t = ETCHTYPEB_BOOL then Object (EBool (ucast v))
       else if t = ETCHTYPEB_INT8 then Object (EInt8 (ucast v))
       else if t = ETCHTYPEB_INT16 then Object (EInt16 (ucast v))
       else if t = ETCHTYPEB_INT32 then Object (EInt32 (ucast v))
       else if t = ETCHTYPEB_INT64 then Object (EInt64 v)
       else if t = ETCHTYPEB_IEEE32 then Object (EFloat (ucast v))
       else if t = ETCHTYPEB_IEEE64 then Object (EDouble v)
       else if t = ETCHTYPEB_STRING then StringFrom v else Pointer v))"
    using assms plain_type_size [OF assms(1)] by (simp add: etch_nativearray_get_wrapped_component_def Let_def)
  have one: "[ucast (union_value bs)] = bs" if "sz = 1"
    using item_bytes_union [of bs 1, where 'a = 8] that assms(7) by (simp add: item_bytes_def)
  have eight: "item_bytes 8 (union_value bs) = bs" if "sz = 8"
    using item_bytes_union [of bs 8, where 'a = 64] that assms(7) by simp
  show ?thesis using assms(1,7) one eight item_bytes_union [of bs 2, where 'a = 16] item_bytes_union [of bs 4, where 'a = 32]
    unfolding plain_type_def w by (auto simp: array_codes)
qed

section \<open>Array values that hold an array\<close>

text \<open>\<open>f\<close> gives the item at each list of subscripts.\<close>

fun av_has ::
  "('o arrayval \<Rightarrow> byte list) \<Rightarrow> nat \<Rightarrow> nat list \<Rightarrow> (int list \<Rightarrow> byte list) \<Rightarrow> 'o arrayval \<Rightarrow> bool" where
  "av_has bytes sz [] f av = (bytes av = f [])"
| "av_has bytes sz (d # ds) f (Arrayval h xs) =
     (length xs = d \<and> ah_dim h = int (length (d # ds)) \<and> ah_content_class_id h = 0
      \<and> (ds = [] \<longrightarrow> ah_content_item_size h = sz) \<and> (\<forall>i < d. av_has bytes sz ds (\<lambda>js. f (int i # js)) (xs ! i)))"
| "av_has bytes sz (d # ds) f (Entry x) = False"

lemma those_map_Some:
  assumes "\<And>i. i < n \<Longrightarrow> \<exists>y. g i = Some y \<and> P i y"
  shows "\<exists>ys. those (map g [0 ..< n]) = Some ys \<and> length ys = n \<and> (\<forall>i < n. P i (ys ! i))"
proof -
  from assms have "\<forall>i. \<exists>y. i < n \<longrightarrow> g i = Some y \<and> P i y" by blast
  then obtain y where y: "\<And>i. i < n \<Longrightarrow> g i = Some (y i) \<and> P i (y i)" by (metis choice_iff)
  have those_Some: "those (map Some zs) = Some zs" for zs :: "'a list" by (induction zs) simp_all
  have "map g [0 ..< n] = map Some (map y [0 ..< n])" using y by simp
  then have "those (map g [0 ..< n]) = Some (map y [0 ..< n])" using those_Some by metis
  then show ?thesis using y by simp
qed

lemma av_has_owned: "av_has bytes sz (d # ds) f av \<Longrightarrow> av_has bytes sz (d # ds) f (set_array_owned av)"
  by (cases av) (simp_all add: set_array_owned_def)

lemma row_of_array:
  assumes "na_ok a (d # ds) sz base n" and "ds \<noteq> []" and "i < d"
  shows "\<exists>s. subarray_of a i = Some s \<and> na_ok s ds sz (base + i * (sz * prod_list ds)) n
    \<and> na_content_class_id s = na_content_class_id a \<and> na_content_obj_type s = na_content_obj_type a"
proof -
  let ?b = "base + i * (sz * prod_list ds)"
  from row_from [OF assms, of "na_class_id a"] obtain t where
    t: "init_etch_nativearray (na_class_id a) sz (na_numdims a - 1) (offset_of_size (na_dimension a ! 0)) (offset_of_size (na_dimension a ! 1)) 0
      = Some (Some t)"
    and o: "sz_add base (sz_mul i (na_dimsize a ! nat (na_numdims a - 1))) = ?b"
    and k: "\<And>s. na_dimension s = na_dimension t \<Longrightarrow> na_dimsize s = na_dimsize t \<Longrightarrow> na_numdims s = na_numdims t \<Longrightarrow>
        na_itemsize s = na_itemsize t \<Longrightarrow> na_values s = Some ?b \<Longrightarrow> na_ok s ds sz ?b n" by blast
  have A: "na_itemsize a = sz" "na_values a = Some base" using assms(1) by (simp_all add: na_ok_def)
  define u where "u = snd (etch_nativearray_set_content_type (t\<lparr>na_values := Some ?b, na_is_content_owned := False\<rparr>))"
  have "new_etch_nativearray_from (Some ?b) (na_class_id a) sz (na_numdims a - 1)
      (offset_of_size (na_dimension a ! 0)) (offset_of_size (na_dimension a ! 1)) 0 = Some (Some u)"
    using t by (simp add: new_etch_nativearray_from_def u_def)
  then have n: "subarray_of a i = Some (u\<lparr>na_content_class_id := na_content_class_id a,
      na_content_obj_type := na_content_obj_type a, na_is_content_owned := False,
      na_counts := [na_counts u ! 0, na_counts u ! 1, 0]\<rparr>)"
    unfolding subarray_of_def Let_def A option.map o by simp
  have "na_ok (u\<lparr>na_content_class_id := na_content_class_id a,
      na_content_obj_type := na_content_obj_type a, na_is_content_owned := False,
      na_counts := [na_counts u ! 0, na_counts u ! 1, 0]\<rparr>) ds sz ?b n"
    by (rule k) (simp_all add: u_def content_type_keeps)
  then show ?thesis using n by simp
qed

lemma get_length: "na_ok a ds sz base n \<Longrightarrow> in_range ds js \<Longrightarrow> na_get a mem js = Some (r, bs) \<Longrightarrow> length bs = sz"
  using na_put_flat [of a ds sz base n js] by (auto simp: get_at_def na_ok_def dest: mem_read_eq_Some split: option.splits)

lemma populate_has:
  assumes "na_ok a [d] sz base (length mem)" and "plain_type (na_content_obj_type a) sz" and "na_content_class_id a = 0"
    and "\<forall>js. in_range [d] js \<longrightarrow> na_get a mem js = Some (0, f js)" and "ah_content_class_id h = 0" and "ah_dim h = 1"
  shows "\<exists>av. populate_arrayvalue_from h a mem = Some av \<and> av_has (wrapper_value raw) sz [d] f av"
proof -
  have dd: "na_dimension a = [d, 0, 0]" using assms(1) by (auto simp: na_ok_def)
  then have A: "na_numdims a = 1" "na_itemsize a = sz" "na_dimension a ! 0 = d" "d < 2147483648"
    using assms(1) by (simp_all add: na_ok_def)
  have "\<exists>y. (case etch_nativearray_get_wrapped_component a mem (int i) of Some (result, Some c) \<Rightarrow> Some (Entry c) | _ \<Rightarrow> None) = Some y
      \<and> wrapper_value raw y = f [int i]" if "i < d" for i
  proof -
    have r: "in_range [d] [int i]" using that by simp
    have g: "etch_nativearray_get1 a mem (int i) = Some (0, f [int i])" using assms(4) [rule_format, OF r] by simp
    have "length (f [int i]) = sz" by (rule get_length [OF assms(1) r assms(4) [rule_format, OF r]])
    from wrapped_component [OF assms(2,3) A(2,1) _ g this, of raw] that A(3,4) show ?thesis
      by (auto simp: offset_of_size_small)
  qed
  from those_map_Some [of d _ "\<lambda>i y. wrapper_value raw y = f [int i]", OF this] obtain ys where
    ys: "those (map (\<lambda>i. case etch_nativearray_get_wrapped_component a mem (int i) of Some (result, Some c) \<Rightarrow> Some (Entry c) | _ \<Rightarrow> None) [0 ..< d]) = Some ys"
    "length ys = d" "\<forall>i < d. wrapper_value raw (ys ! i) = f [int i]" by blast
  have "sz mod 65536 = sz" using plain_type_size [OF assms(2)] by simp
  then show ?thesis using ys assms(5,6) A by (simp add: populate_arrayvalue_from_def Let_def offset_of_size_small)
qed

lemma arrayvalue_from_has:
  "na_ok a ds sz base (length mem) \<Longrightarrow> plain_type (na_content_obj_type a) sz \<Longrightarrow> na_content_class_id a = 0 \<Longrightarrow>
   \<forall>js. in_range ds js \<longrightarrow> na_get a mem js = Some (0, f js) \<Longrightarrow> length ds < level \<Longrightarrow>
   \<exists>av. arrayvalue_from level a mem tc cst ro = Some (Some av) \<and> av_has (wrapper_value raw) sz ds f av"
proof (induction level arbitrary: a ds base f)
  case (Suc level)
  obtain d ds' where ds: "ds = d # ds'" using Suc.prems(1) by (cases ds) (simp_all add: na_ok_def)
  have A: "na_numdims a = int (length ds)" "length ds \<le> 3" using Suc.prems(1)
    by (auto simp: na_ok_def elim!: dim_tables_cases)
  show ?case
  proof (cases ds')
    case Nil
    let ?h = "(new_arrayvalue_init ro)\<lparr>ah_is_array_owned := \<not> ro, ah_type_code := tc, ah_natarray := Some a, ah_dim := na_numdims a,
      ah_class_id := na_class_id a, ah_custom_struct_type := cst\<rparr>"
    let ?h' = "arrayvalue_set_static_content ?h (na_content_class_id a \<noteq> CLASSID_UNWRAPPED)"
    have "ah_content_class_id ?h' = 0" "ah_dim ?h' = 1" using A(1) ds Nil
      by (simp_all add: new_arrayvalue_init_def arrayvalue_set_static_content_def)
    from populate_has [OF Suc.prems(1) [unfolded ds Nil] Suc.prems(2,3) Suc.prems(4) [unfolded ds Nil] this, of raw] obtain av where
      "populate_arrayvalue_from ?h' a mem = Some av" "av_has (wrapper_value raw) sz [d] f av" by blast
    then show ?thesis using A(1) ds Nil by (simp add: Let_def)
  next
    case (Cons e es)
    have ok: "na_ok a (d # ds') sz base (length mem)" using Suc.prems(1) ds by simp
    have ne: "ds' \<noteq> []" using Cons by simp
    have d: "offset_of_size (na_dimension a ! nat (na_numdims a - 1)) = int d" if "0 < d"
      using row_from [OF ok ne that] by blast
    have dpos: "0 < d" using ok by (simp add: na_ok_def)
    let ?row = "\<lambda>i. case subarray_of a i of None \<Rightarrow> None | Some newarray \<Rightarrow>
        (case arrayvalue_from level newarray mem tc cst ro of Some (Some subav) \<Rightarrow> Some (set_array_owned subav) | _ \<Rightarrow> None)"
    have "\<exists>y. ?row i = Some y \<and> av_has (wrapper_value raw) sz ds' (\<lambda>js. f (int i # js)) y" if i: "i < d" for i
    proof -
      from row_of_array [OF ok ne i] obtain s where s: "subarray_of a i = Some s" "na_ok s ds' sz (base + i * (sz * prod_list ds')) (length mem)"
        "na_content_class_id s = na_content_class_id a" "na_content_obj_type s = na_content_obj_type a" by blast
      have "\<forall>js. in_range ds' js \<longrightarrow> na_get s mem js = Some (0, f (int i # js))"
        using row_access [OF ok s(2) i] Suc.prems(4) ds i by simp
      from Suc.IH [OF s(2) _ _ this] s(3,4) Suc.prems(2,3,5) ds obtain av where
        "arrayvalue_from level s mem tc cst ro = Some (Some av)" "av_has (wrapper_value raw) sz ds' (\<lambda>js. f (int i # js)) av" by auto
      then show ?thesis using s(1) av_has_owned Cons by auto
    qed
    from those_map_Some [of d ?row, OF this] obtain ys where ys: "those (map ?row [0 ..< d]) = Some ys" "length ys = d"
      "\<forall>i < d. av_has (wrapper_value raw) sz ds' (\<lambda>js. f (int i # js)) (ys ! i)" by blast
    let ?h = "arrayvalue_set_static_content ((new_arrayvalue_init ro)\<lparr>ah_is_array_owned := \<not> ro, ah_type_code := tc,
      ah_natarray := Some a, ah_dim := na_numdims a, ah_class_id := na_class_id a, ah_custom_struct_type := cst,
      ah_content_obj_type := ETCHTYPEB_ARRAYVAL, ah_content_item_size := 8\<rparr>) False"
    have "\<not> (na_numdims a - 1 < 0 \<or> na_numdims a - 1 > 2)" "na_numdims a - 1 \<noteq> 0" using A ds Cons by auto
    then have "arrayvalue_from (Suc level) a mem tc cst ro = Some (Some (Arrayval ?h ys))"
      using ys(1) d [OF dpos] by (simp add: Let_def)
    moreover have "av_has (wrapper_value raw) sz ds f (Arrayval ?h ys)" using ys(2,3) ds Cons A(1)
      by (simp add: arrayvalue_set_static_content_def new_arrayvalue_init_def)
    ultimately show ?thesis by blast
  qed
qed simp

section \<open>Filling a native array\<close>

text \<open>The effect of a loop that starts at \<open>i\<close>, under the subscripts \<open>pre\<close>, and goes over \<open>n\<close> rows or items.\<close>

definition fills ::
  "etch_nativearray \<Rightarrow> nat list \<Rightarrow> (int list \<Rightarrow> byte list) \<Rightarrow> (int list \<Rightarrow> bool) \<Rightarrow> byte list \<Rightarrow> byte list \<Rightarrow> bool" where
  "fills a ds f part mem mem' \<longleftrightarrow> length mem' = length mem
     \<and> (\<forall>js. in_range ds js \<longrightarrow> na_get a mem' js = (if part js then Some (0, f js) else na_get a mem js))"

lemma fills_refl: "fills a ds f (\<lambda>_. False) mem mem"
  by (simp add: fills_def)

lemma fills_trans: "fills a ds f p mem mem1 \<Longrightarrow> fills a ds f q mem1 mem2 \<Longrightarrow> (\<And>js. r js = (p js \<or> q js)) \<Longrightarrow> fills a ds f r mem mem2"
  by (simp add: fills_def)

definition part_of :: "int list \<Rightarrow> nat \<Rightarrow> nat \<Rightarrow> int list \<Rightarrow> bool" where
  "part_of pre i n js \<longleftrightarrow> (\<exists>k ks. k < n \<and> js = pre @ int (i + k) # ks)"

lemma part_of_0 [simp]: "part_of pre i 0 = (\<lambda>_. False)"
  by (simp add: part_of_def fun_eq_iff)

lemma part_of_Suc: "part_of pre i (Suc n) js = (part_of pre i 1 js \<or> part_of pre (Suc i) n js)"
proof
  assume "part_of pre i (Suc n) js"
  then obtain k ks where k: "k < Suc n" "js = pre @ int (i + k) # ks" by (auto simp: part_of_def)
  show "part_of pre i 1 js \<or> part_of pre (Suc i) n js"
  proof (cases k)
    case 0 then show ?thesis using k by (simp add: part_of_def)
  next
    case (Suc m) then show ?thesis using k by (auto simp: part_of_def)
  qed
next
  assume "part_of pre i 1 js \<or> part_of pre (Suc i) n js"
  then show "part_of pre i (Suc n) js"
  proof
    assume "part_of pre i 1 js" then show ?thesis by (auto simp: part_of_def)
  next
    assume "part_of pre (Suc i) n js"
    then obtain k ks where "k < n" "js = pre @ int (Suc i + k) # ks" by (auto simp: part_of_def)
    then show ?thesis by (auto simp: part_of_def intro!: exI [of _ "Suc k"])
  qed
qed

lemma items_loop_fills:
  assumes "na_ok a ds sz base n"
  shows "length mem = n \<Longrightarrow> \<forall>k < length xs. in_range ds (pre @ [int (i + k)]) \<and> bytes (xs ! k) = f (pre @ [int (i + k)])
      \<and> length (bytes (xs ! k)) = sz \<Longrightarrow>
    \<exists>mem'. items_loop bytes (\<lambda>mem v i. na_put a mem v (pre @ [int i])) i items xs mem = Some (items + int (length xs), mem')
      \<and> fills a ds f (part_of pre i (length xs)) mem mem'"
proof (induction xs arbitrary: i items mem)
  case Nil
  then show ?case by (simp add: fills_refl)
next
  case (Cons x xs)
  have pos: "0 < length (x # xs)" by simp
  have "in_range ds (pre @ [int i]) \<and> bytes x = f (pre @ [int i]) \<and> length (bytes x) = sz"
    using Cons.prems(2) [rule_format, OF pos] unfolding nth_Cons_0 add_0_right .
  then have x: "in_range ds (pre @ [int i])" "bytes x = f (pre @ [int i])" "length (bytes x) = sz" by blast+
  have ok: "na_ok a ds sz base (length mem)" using assms(1) Cons.prems(1) by simp
  from na_put_get [OF ok x(1,3)] obtain mem1 where m: "na_put a mem (Some (bytes x)) (pre @ [int i]) = Some (0, mem1)"
    "length mem1 = length mem" "na_get a mem1 (pre @ [int i]) = Some (0, bytes x)"
    "\<forall>ks. in_range ds ks \<longrightarrow> ks \<noteq> pre @ [int i] \<longrightarrow> na_get a mem1 ks = na_get a mem ks" by blast
  have len: "in_range ds js \<Longrightarrow> part_of pre i 1 js \<longleftrightarrow> js = pre @ [int i]" for js
    using x(1) by (auto simp: part_of_def in_range_def list_all2_conv_all_nth)
  have f1: "fills a ds f (part_of pre i 1) mem mem1" using m(2-4) len x(2) by (auto simp: fills_def)
  have "in_range ds (pre @ [int (Suc i + k)]) \<and> bytes (xs ! k) = f (pre @ [int (Suc i + k)]) \<and> length (bytes (xs ! k)) = sz"
    if "k < length xs" for k
  proof -
    have k: "Suc k < length (x # xs)" using that by simp
    show ?thesis using Cons.prems(2) [rule_format, OF k] unfolding nth_Cons_Suc add_Suc_right add_Suc .
  qed
  then have "\<forall>k < length xs. in_range ds (pre @ [int (Suc i + k)]) \<and> bytes (xs ! k) = f (pre @ [int (Suc i + k)]) \<and> length (bytes (xs ! k)) = sz"
    by blast
  from Cons.IH [OF _ this, of mem1 "items + 1"] m(2) Cons.prems(1) obtain mem' where
    r: "items_loop bytes (\<lambda>mem v i. na_put a mem v (pre @ [int i])) (Suc i) (items + 1) xs mem1 = Some (items + 1 + int (length xs), mem')"
    and f2: "fills a ds f (part_of pre (Suc i) (length xs)) mem1 mem'" by auto
  have "fills a ds f (part_of pre i (Suc (length xs))) mem mem'" by (rule fills_trans [OF f1 f2 part_of_Suc])
  then show ?case using m(1) r by simp
qed

lemma rows_loop_fills:
  assumes "\<And>k h ys items mem. k < length xs \<Longrightarrow> xs ! k = Arrayval h ys \<Longrightarrow> 0 \<le> items \<Longrightarrow> length mem = n \<Longrightarrow>
      \<exists>mem'. inner (i + k) items ys mem = Some (items + int c, mem') \<and> fills a ds f (part_of pre (i + k) 1) mem mem'"
    and "\<forall>x \<in> set xs. is_etch_arrayvalue (Some x)" and "0 \<le> items" and "length mem = n"
  shows "\<exists>mem'. rows_loop inner i items xs mem = Some (items + int (length xs * c), mem')
    \<and> fills a ds f (part_of pre i (length xs)) mem mem'"
  using assms
proof (induction xs arbitrary: i items mem)
  case Nil
  then show ?case by (simp add: fills_refl)
next
  case (Cons x xs)
  obtain h ys where x: "x = Arrayval h ys" using Cons.prems(2) by (cases x) auto
  from Cons.prems(1) [of 0 h ys items mem] x Cons.prems(3,4) obtain mem1 where
    m: "inner i items ys mem = Some (items + int c, mem1)" and f1: "fills a ds f (part_of pre i 1) mem mem1" by auto
  have l: "length mem1 = n" using f1 Cons.prems(4) by (simp add: fills_def)
  have "\<exists>mem'. rows_loop inner (Suc i) (items + int c) xs mem1 = Some (items + int c + int (length xs * c), mem')
      \<and> fills a ds f (part_of pre (Suc i) (length xs)) mem1 mem'"
  proof (rule Cons.IH)
    fix k h' ys' and items' :: int and mem' :: "byte list" assume "k < length xs" "xs ! k = Arrayval h' ys'" "0 \<le> items'" "length mem' = n"
    then show "\<exists>mem''. inner (Suc i + k) items' ys' mem' = Some (items' + int c, mem'') \<and> fills a ds f (part_of pre (Suc i + k) 1) mem' mem''"
      using Cons.prems(1) [of "Suc k" h' ys' items' mem'] by simp
  qed (use Cons.prems l in simp_all)
  then obtain mem' where r: "rows_loop inner (Suc i) (items + int c) xs mem1 = Some (items + int c + int (length xs * c), mem')"
    and f2: "fills a ds f (part_of pre (Suc i) (length xs)) mem1 mem'" by blast
  have "fills a ds f (part_of pre i (Suc (length xs))) mem mem'" by (rule fills_trans [OF f1 f2 part_of_Suc])
  moreover have "items + int c \<noteq> - 1" using Cons.prems(3) by linarith
  ultimately show ?case using m r x by (simp add: algebra_simps)
qed


text \<open>The three depths of arrays.\<close>

lemma av_has_Arrayval:
  assumes "av_has bytes sz (d # ds) f av"
  obtains h xs where "av = Arrayval h xs" "length xs = d" "ah_dim h = int (length (d # ds))" "ah_content_class_id h = 0"
    "ds = [] \<longrightarrow> ah_content_item_size h = sz" "\<And>i. i < d \<Longrightarrow> av_has bytes sz ds (\<lambda>js. f (int i # js)) (xs ! i)"
  using assms by (cases av) auto

lemma items_fill:
  assumes "na_ok a ds sz base n" and "length ys = d" and "\<And>k. k < d \<Longrightarrow> bytes (ys ! k) = f (pre @ [int k])"
    and "\<And>i. i < d \<Longrightarrow> in_range ds (pre @ [int i])" and "\<And>js. in_range ds js \<Longrightarrow> length (f js) = sz" and "length mem = n"
  shows "\<exists>mem'. items_loop bytes (\<lambda>mem v i. na_put a mem v (pre @ [int i])) 0 items ys mem = Some (items + int d, mem')
    \<and> fills a ds f (part_of pre 0 d) mem mem'"
  using items_loop_fills [OF assms(1,6), of ys pre 0 bytes f items] assms(2-5) by simp

lemma part_of_deeper:
  assumes "\<And>js. in_range ds js \<Longrightarrow> part_of pre i 1 js \<longleftrightarrow> part_of (pre @ [int i]) 0 d js" and "fills a ds f (part_of (pre @ [int i]) 0 d) mem mem'"
  shows "fills a ds f (part_of pre i 1) mem mem'"
  using assms by (simp add: fills_def)

lemma part_of_row:
  assumes "in_range ds js" and "length pre + 1 < length ds" and "d = ds ! (length pre + 1)"
  shows "part_of pre i 1 js \<longleftrightarrow> part_of (pre @ [int i]) 0 d js"
proof
  assume "part_of pre i 1 js"
  then obtain ks where k: "js = pre @ int i # ks" by (auto simp: part_of_def)
  have len: "length js = length ds" using assms(1) by (auto simp: in_range_def dest: list_all2_lengthD)
  then obtain j ls where l: "ks = j # ls" using k assms(2) by (cases ks) auto
  have "0 \<le> js ! (length pre + 1) \<and> js ! (length pre + 1) < int (ds ! (length pre + 1))"
    using assms(1,2) by (simp add: in_range_def list_all2_conv_all_nth)
  then have "0 \<le> j \<and> j < int d" using k l assms(3) by (simp add: nth_append)
  then show "part_of (pre @ [int i]) 0 d js" using k l
    by (auto simp: part_of_def intro!: exI [of _ "nat j"])
next
  assume "part_of (pre @ [int i]) 0 d js"
  then show "part_of pre i 1 js" by (auto simp: part_of_def)
qed

lemma part_of_all: "in_range (d # ds) js \<Longrightarrow> part_of [] 0 d js"
  by (cases js) (auto simp: part_of_def intro!: exI [of _ "nat (hd js)"])

lemma to_native_fills:
  assumes "na_ok a ds sz 0 n" and "av_has bytes sz ds f (Arrayval h xs)" and "\<And>js. in_range ds js \<Longrightarrow> length (f js) = sz"
    and "length mem = n"
  shows "\<exists>mem'. (if length ds = 1 then arrayvalue1_to_nativearray bytes a xs mem
      else if length ds = 2 then arrayvalue2_to_nativearray bytes a xs mem
      else arrayvalue3_to_nativearray bytes a xs mem) = Some (int (prod_list ds), mem')
    \<and> fills a ds f (\<lambda>_. True) mem mem'"
proof -
  have "dim_tables sz ds = Some (na_dimension a, na_dimsize a)" using assms(1) by (simp add: na_ok_def)
  then show ?thesis
  proof (cases rule: dim_tables_cases)
    case (one d)
    have "\<exists>mem'. items_loop bytes (\<lambda>mem v i. na_put a mem v ([] @ [int i])) 0 0 xs mem = Some (0 + int d, mem')
        \<and> fills a ds f (part_of [] 0 d) mem mem'"
      using assms one by (intro items_fill [OF assms(1)]) simp_all
    then show ?thesis using one part_of_all [of d "[]"] by (auto simp: arrayvalue1_to_nativearray_def fills_def)
  next
    case (two e d)
    from assms(2) two have xs: "length xs = e" "\<And>i. i < e \<Longrightarrow> av_has bytes sz [d] (\<lambda>js. f (int i # js)) (xs ! i)" by simp_all
    let ?inner = "\<lambda>i items. items_loop bytes (\<lambda>mem v j. na_put a mem v ([int i] @ [int j])) 0 items"
    have "\<exists>mem'. rows_loop ?inner 0 0 xs mem = Some (0 + int (length xs * d), mem') \<and> fills a ds f (part_of [] 0 (length xs)) mem mem'"
    proof (rule rows_loop_fills [where n = n])
      fix k h' ys and items :: int and mem :: "byte list"
      assume k: "k < length xs" "xs ! k = Arrayval h' ys" "0 \<le> items" "length mem = n"
      have "av_has bytes sz [d] (\<lambda>js. f (int k # js)) (Arrayval h' ys)" using xs(2) [of k] k xs(1) by simp
      then have "length ys = d" "\<And>j. j < d \<Longrightarrow> bytes (ys ! j) = f ([int k] @ [int j])" by simp_all
      from items_fill [where pre = "[int k]" and f = f, OF assms(1) this _ assms(3) k(4), of items] k xs(1) two obtain mem' where
        "?inner k items ys mem = Some (items + int d, mem')" "fills a ds f (part_of ([] @ [int k]) 0 d) mem mem'" by auto
      then show "\<exists>mem'. ?inner (0 + k) items ys mem = Some (items + int d, mem') \<and> fills a ds f (part_of [] (0 + k) 1) mem mem'"
        using part_of_deeper [of ds "[]" k d, OF part_of_row] two by auto
    next
      show "\<forall>x \<in> set xs. is_etch_arrayvalue (Some x)" using xs by (metis av_has_Arrayval in_set_conv_nth is_etch_arrayvalue.simps(1))
    qed (use assms(4) in simp_all)
    then show ?thesis using two part_of_all [of e "[d]"] xs(1) by (auto simp: arrayvalue2_to_nativearray_def fills_def)
  next
    case (three g e d)
    from assms(2) three have xs: "length xs = g" "\<And>i. i < g \<Longrightarrow> av_has bytes sz [e, d] (\<lambda>js. f (int i # js)) (xs ! i)" by simp_all
    let ?items = "\<lambda>i j items. items_loop bytes (\<lambda>mem v k. na_put a mem v ([int i, int j] @ [int k])) 0 items"
    let ?inner = "\<lambda>i items. rows_loop (?items i) 0 items"
    have "\<exists>mem'. rows_loop ?inner 0 0 xs mem = Some (0 + int (length xs * (e * d)), mem') \<and> fills a ds f (part_of [] 0 (length xs)) mem mem'"
    proof (rule rows_loop_fills [where n = n])
      fix i h' ys and items :: int and mem :: "byte list"
      assume i: "i < length xs" "xs ! i = Arrayval h' ys" "0 \<le> items" "length mem = n"
      have "av_has bytes sz [e, d] (\<lambda>js. f (int i # js)) (Arrayval h' ys)" using xs(2) [of i] i xs(1) by simp
      then have ys: "length ys = e" "\<And>j. j < e \<Longrightarrow> av_has bytes sz [d] (\<lambda>js. f (int i # int j # js)) (ys ! j)" by simp_all
      have "\<exists>mem'. rows_loop (?items i) 0 items ys mem = Some (items + int (length ys * d), mem')
          \<and> fills a ds f (part_of [int i] 0 (length ys)) mem mem'"
      proof (rule rows_loop_fills [where n = n])
        fix j h'' zs and items :: int and mem :: "byte list"
        assume j: "j < length ys" "ys ! j = Arrayval h'' zs" "0 \<le> items" "length mem = n"
        have "av_has bytes sz [d] (\<lambda>js. f (int i # int j # js)) (Arrayval h'' zs)" using ys(2) [of j] j ys(1) by simp
        then have "length zs = d" "\<And>k. k < d \<Longrightarrow> bytes (zs ! k) = f ([int i, int j] @ [int k])" by simp_all
        from items_fill [where pre = "[int i, int j]" and f = f, OF assms(1) this _ assms(3) j(4), of items] i(1) j(1) xs(1) ys(1) three obtain mem' where
          "?items i j items zs mem = Some (items + int d, mem')" "fills a ds f (part_of ([int i] @ [int j]) 0 d) mem mem'" by auto
        then show "\<exists>mem'. ?items i (0 + j) items zs mem = Some (items + int d, mem') \<and> fills a ds f (part_of [int i] (0 + j) 1) mem mem'"
          using part_of_deeper [of ds "[int i]" j d, OF part_of_row] three by auto
      next
        show "\<forall>x \<in> set ys. is_etch_arrayvalue (Some x)" using ys by (metis av_has_Arrayval in_set_conv_nth is_etch_arrayvalue.simps(1))
      qed (use i in simp_all)
      then obtain mem' where "rows_loop (?items i) 0 items ys mem = Some (items + int (e * d), mem')"
          "fills a ds f (part_of ([] @ [int i]) 0 e) mem mem'" using ys(1) by auto
      then show "\<exists>mem'. ?inner (0 + i) items ys mem = Some (items + int (e * d), mem') \<and> fills a ds f (part_of [] (0 + i) 1) mem mem'"
        using part_of_deeper [of ds "[]" i e, OF part_of_row] three by auto
    next
      show "\<forall>x \<in> set xs. is_etch_arrayvalue (Some x)" using xs by (metis av_has_Arrayval in_set_conv_nth is_etch_arrayvalue.simps(1))
    qed (use assms(4) in simp_all)
    then show ?thesis using three part_of_all [of g "[e, d]"] xs(1) by (auto simp: arrayvalue3_to_nativearray_def fills_def)
  qed
qed

text \<open>The size of the native array is that of the first rows, its class none.\<close>

lemma to_native_from_first_row:
  assumes "av_has bytes sz ds f (Arrayval h xs)" and "dim_tables sz ds = Some t" and "\<forall>d \<in> set ds. 0 < d" and "0 < sz"
  shows "arrayvalue_to_nativearray bytes h xs
    = (case new_etch_nativearray 0 sz (int (length ds)) (dim_arg ds 0) (dim_arg ds 1) (dim_arg ds 2) of
         None \<Rightarrow> None
       | Some None \<Rightarrow> Some (0, None)
       | Some (Some (newna, mem)) \<Rightarrow> map_option (\<lambda>(r, mem). (r, Some (newna, mem)))
           (if length ds = 1 then arrayvalue1_to_nativearray bytes newna xs mem
            else if length ds = 2 then arrayvalue2_to_nativearray bytes newna xs mem
            else arrayvalue3_to_nativearray bytes newna xs mem))"
  using assms(2)
proof (cases rule: dim_tables_cases)
  case (one d)
  have "length xs = d" "ah_dim h = 1" "ah_content_class_id h = 0" "ah_content_item_size h = sz" "0 < d" using assms(1,3) one by simp_all
  then show ?thesis using one assms(4) by (simp add: arrayvalue_to_nativearray_def Let_def dim_arg_def CLASSID_UNWRAPPED_def split: option.split)
next
  case (two e d)
  then have p: "0 < e" "0 < d" and h: "length xs = e" "ah_dim h = 2"
    and rows: "\<And>i. i < e \<Longrightarrow> av_has bytes sz [d] (\<lambda>js. f (int i # js)) (xs ! i)" using assms(1,3) by simp_all
  have r: "av_has bytes sz [d] (\<lambda>js. f (int 0 # js)) (xs ! 0)" using rows [OF p(1)] .
  from r obtain h0 zs where z: "xs ! 0 = Arrayval h0 zs" "length zs = d" "ah_content_class_id h0 = 0" "ah_content_item_size h0 = sz"
    by (rule av_has_Arrayval) simp
  then show ?thesis using two assms(4) p h
    by (simp add: arrayvalue_to_nativearray_def Let_def dim_arg_def CLASSID_UNWRAPPED_def split: option.split)
next
  case (three g e d)
  then have p: "0 < g" "0 < e" "0 < d" and h: "length xs = g" "ah_dim h = 3"
    and rows: "\<And>i. i < g \<Longrightarrow> av_has bytes sz [e, d] (\<lambda>js. f (int i # js)) (xs ! i)" using assms(1,3) by simp_all
  have r: "av_has bytes sz [e, d] (\<lambda>js. f (int 0 # js)) (xs ! 0)" using rows [OF p(1)] .
  from r obtain h1 ys where y: "xs ! 0 = Arrayval h1 ys" "length ys = e" "av_has bytes sz [d] (\<lambda>js. f (int 0 # int 0 # js)) (ys ! 0)"
  proof (rule av_has_Arrayval)
    fix h1 ys assume "xs ! 0 = Arrayval h1 ys" "length ys = e" "\<And>i. i < e \<Longrightarrow> av_has bytes sz [d] (\<lambda>js. f (int 0 # int i # js)) (ys ! i)"
    then show ?thesis using that p(2) by blast
  qed
  from y(3) obtain h0 zs where z: "ys ! 0 = Arrayval h0 zs" "length zs = d" "ah_content_class_id h0 = 0" "ah_content_item_size h0 = sz"
    by (rule av_has_Arrayval) simp
  moreover have "ys \<noteq> []" using y(2) p(2) by auto
  ultimately show ?thesis using three assms(4) p h y(1,2)
    by (simp add: arrayvalue_to_nativearray_def Let_def dim_arg_def CLASSID_UNWRAPPED_def split: option.split)
qed

lemma size_steps_keep: "na_class_id (fold size_step ks a) = na_class_id a \<and> na_content_obj_type (fold size_step ks a) = na_content_obj_type a"
  by (induction ks arbitrary: a) (simp_all add: size_step_def Let_def)

lemma new_class_0:
  assumes "new_etch_nativearray 0 sz n d0 d1 d2 = Some (Some (a, mem))"
  shows "na_class_id a = 0 \<and> na_content_obj_type a = 0"
proof -
  from assms obtain t where t: "init_etch_nativearray 0 sz n d0 d1 d2 = Some (Some t)"
    "a = snd (etch_nativearray_set_content_type (t\<lparr>na_values := Some 0, na_is_content_owned := True\<rparr>))"
    by (auto simp: new_etch_nativearray_def Let_def split: option.splits if_splits)
  have "na_class_id t = 0 \<and> na_content_obj_type t = 0" using t(1)
    by (auto simp: init_etch_nativearray_def Let_def size_steps_keep split: if_splits)
  then show ?thesis unfolding t(2) by (simp add: etch_nativearray_set_content_type_def unwrapped_type_def Let_def array_codes)
qed



end
