(* ===== verification/Cache.thy ===== *)
theory Cache
  imports StringMap
begin

text \<open>
  The global cache of \<open>src/main/common/etch_cache.c\<close>, in which the runtime keeps its virtual tables: a table of
  \<open>StringMap\<close> whose keys are the decimal strings of numbers, and the global buffer \<open>ckey\<close> in which a number is
  written.  \<open>None\<close> as a result is an access behind the buffer.  The functions with a number hold the lock and are one step.
\<close>

definition ETCH_CACHE_INITIAL_SIZE :: int where "ETCH_CACHE_INITIAL_SIZE = 32"
definition ETCH_CACHE_KEYBUFLEN :: nat where "ETCH_CACHE_KEYBUFLEN = 20"

record 'v etch_cache =
  ec_ckey :: "byte list"
  ec_realtable :: "'v string_map"

definition etch_cache_create :: "'v etch_cache" where
  "etch_cache_create = \<lparr>ec_ckey = replicate ETCH_CACHE_KEYBUFLEN 0, ec_realtable = jenkins_create ETCH_CACHE_INITIAL_SIZE\<rparr>"

text \<open>The key that is written, and its length; the bytes behind its zero stay.\<close>

definition etch_make_cache_key :: "int32 \<Rightarrow> 'v etch_cache \<Rightarrow> nat \<times> 'v etch_cache" where
  "etch_make_cache_key ikey c =
     (let s = decimal (sint ikey)
      in (length s, c\<lparr>ec_ckey := s @ 0 # drop (length s + 1) (ec_ckey c)\<rparr>))"

definition cached_key :: "'v etch_cache \<Rightarrow> nat \<Rightarrow> byte list option" where
  "cached_key c keylen = mem_read (ec_ckey c) 0 keylen"

definition etch_cache_findxl ::
  "nat \<Rightarrow> 'v etch_cache \<Rightarrow> byte list \<Rightarrow> 'v option \<times> 'v option etch_hashitem option \<times> 'v etch_cache" where
  "etch_cache_findxl ub4_bits c key =
     (case jenkins_find ub4_bits (ec_realtable c) key of (result, founditem, t) \<Rightarrow>
        let c = c\<lparr>ec_realtable := t\<rparr>
        in if result = - 1 then (None, None, c) else (Option.bind founditem hx_value, founditem, c))"

definition etch_cache_find :: "nat \<Rightarrow> 'v etch_cache \<Rightarrow> int32 \<Rightarrow> ('v option \<times> 'v etch_cache) option" where
  "etch_cache_find ub4_bits c objtype =
     (let (keylen, c) = etch_make_cache_key objtype c
      in map_option (\<lambda>key. case etch_cache_findxl ub4_bits c key of (v, _, c) \<Rightarrow> (v, c)) (cached_key c keylen))"

definition etch_cache_findx :: "nat \<Rightarrow> 'v etch_cache \<Rightarrow> byte list \<Rightarrow> 'v option \<times> 'v etch_cache" where
  "etch_cache_findx ub4_bits c key = (case etch_cache_findxl ub4_bits c key of (v, _, c) \<Rightarrow> (v, c))"

text \<open>Deleting looks for the content of the buffer, whatever key it is given.\<close>

definition etch_cache_delxl :: "nat \<Rightarrow> 'v etch_cache \<Rightarrow> byte list \<Rightarrow> nat \<Rightarrow> ('v option \<times> 'v etch_cache) option" where
  "etch_cache_delxl ub4_bits c key keylen =
     map_option (\<lambda>k. case jenkins_remove ub4_bits (ec_realtable c) k of (result, founditem, t) \<Rightarrow>
         let c = c\<lparr>ec_realtable := t\<rparr>
         in if result = - 1 then (None, c) else (Option.bind founditem hx_value, c))
       (cached_key c keylen)"

definition etch_cache_del :: "nat \<Rightarrow> 'v etch_cache \<Rightarrow> int32 \<Rightarrow> ('v option \<times> 'v etch_cache) option" where
  "etch_cache_del ub4_bits c objtype =
     (let (keylen, c) = etch_make_cache_key objtype c in etch_cache_delxl ub4_bits c (take keylen (ec_ckey c)) keylen)"

definition etch_cache_delx :: "nat \<Rightarrow> 'v etch_cache \<Rightarrow> byte list \<Rightarrow> ('v option \<times> 'v etch_cache) option" where
  "etch_cache_delx ub4_bits c key = etch_cache_delxl ub4_bits c key (length key)"

text \<open>The hash of the new entry, or of the one that is there.\<close>

definition etch_cache_insertxl ::
  "nat \<Rightarrow> 'v etch_cache \<Rightarrow> byte list \<Rightarrow> 'v option \<Rightarrow> bool \<Rightarrow> int32 \<times> 'v etch_cache" where
  "etch_cache_insertxl ub4_bits c key data is_check =
     (case (if is_check then etch_cache_findxl ub4_bits c key else (None, None, c)) of (pval, found, c) \<Rightarrow>
        let inserteditem_hash = (case found of None \<Rightarrow> 0 | Some e \<Rightarrow> hx_hash e)
        in if pval \<noteq> None then (inserteditem_hash, c)
           else case jenkins_insert ub4_bits (ec_realtable c) key data of (_, inserted, t) \<Rightarrow>
                  ((case inserted of None \<Rightarrow> inserteditem_hash | Some e \<Rightarrow> hx_hash e), c\<lparr>ec_realtable := t\<rparr>))"

definition etch_cache_insert ::
  "nat \<Rightarrow> 'v etch_cache \<Rightarrow> int32 \<Rightarrow> 'v option \<Rightarrow> bool \<Rightarrow> (int32 \<times> 'v etch_cache) option" where
  "etch_cache_insert ub4_bits c key data is_check =
     (let (keylen, c) = etch_make_cache_key key c
      in map_option (\<lambda>k. etch_cache_insertxl ub4_bits c k data is_check) (cached_key c keylen))"

definition etch_cache_insertx ::
  "nat \<Rightarrow> 'v etch_cache \<Rightarrow> byte list \<Rightarrow> 'v option \<Rightarrow> bool \<Rightarrow> int32 \<times> 'v etch_cache" where
  "etch_cache_insertx ub4_bits c key data is_check = etch_cache_insertxl ub4_bits c key data is_check"

definition etch_cache_add :: "nat \<Rightarrow> 'v etch_cache \<Rightarrow> int32 \<Rightarrow> 'v option \<Rightarrow> (int32 \<times> 'v etch_cache) option" where
  "etch_cache_add ub4_bits c objtype data = etch_cache_insert ub4_bits c objtype data True"

definition etch_cache_addx :: "nat \<Rightarrow> 'v etch_cache \<Rightarrow> byte list \<Rightarrow> 'v option \<Rightarrow> int32 \<times> 'v etch_cache" where
  "etch_cache_addx ub4_bits c key data = etch_cache_insertx ub4_bits c key data True"

definition etch_cache_count :: "'v etch_cache \<Rightarrow> nat" where
  "etch_cache_count c = jenkins_count (ec_realtable c)"

end
