(* ===== verification/Cache_Correct.thy ===== *)
theory Cache_Correct
  imports Cache StringMap_Correct
begin

text \<open>The cache is a map from numbers, from the lemmas on maps; deleting by a string is not what it says.\<close>

definition cache_ok :: "nat \<Rightarrow> 'v etch_cache \<Rightarrow> bool" where
  "cache_ok b c \<longleftrightarrow> length (ec_ckey c) = ETCH_CACHE_KEYBUFLEN \<and> map_ok b (ec_realtable c)"

definition cache_map :: "'v etch_cache \<Rightarrow> int32 \<rightharpoonup> 'v" where
  "cache_map c = number_map (ec_realtable c)"

lemma create_cache_ok: "cache_ok b etch_cache_create"
  by (simp add: cache_ok_def etch_cache_create_def create_map_ok)

text \<open>The buffer has room for every number.\<close>

lemma make_cache_key:
  assumes "cache_ok b c"
  shows "\<exists>k. etch_make_cache_key i c = (length (make_etchmap_key i), c\<lparr>ec_ckey := k\<rparr>) \<and> length k = ETCH_CACHE_KEYBUFLEN
    \<and> cached_key (c\<lparr>ec_ckey := k\<rparr>) (length (make_etchmap_key i)) = Some (make_etchmap_key i)
    \<and> take (length (make_etchmap_key i)) k = make_etchmap_key i"
proof -
  have l: "length (make_etchmap_key i) + 1 \<le> ETCH_CACHE_KEYBUFLEN" using make_etchmap_key_length [of i]
    by (simp add: ETCH_CACHE_KEYBUFLEN_def)
  let ?s = "make_etchmap_key i"
  let ?k = "?s @ 0 # drop (length ?s + 1) (ec_ckey c)"
  have "length ?k = ETCH_CACHE_KEYBUFLEN" using l assms by (simp add: cache_ok_def)
  then show ?thesis using l by (intro exI [of _ ?k])
    (simp add: etch_make_cache_key_def make_etchmap_key_def Let_def cached_key_def mem_read_def)
qed

lemma cache_findxl: "etch_cache_findxl b c k = (case etchmap_findxl b (ec_realtable c) k of (v, e, t) \<Rightarrow> (v, e, c\<lparr>ec_realtable := t\<rparr>))"
  by (simp add: etch_cache_findxl_def etchmap_findxl_def Let_def split: prod.split)

lemma cache_delxl: "cached_key c n = Some k \<Longrightarrow>
    etch_cache_delxl b c key n = Some (case etchmap_delxl b (ec_realtable c) k of (v, t) \<Rightarrow> (v, c\<lparr>ec_realtable := t\<rparr>))"
  by (simp add: etch_cache_delxl_def etchmap_delxl_def Let_def split: prod.split)

lemma cache_insertxl: "etch_cache_insertxl b c k d chk
    = (case etchmap_insertxl b (ec_realtable c) k d chk of (h, t) \<Rightarrow> (h, c\<lparr>ec_realtable := t\<rparr>))"
  by (auto simp: etch_cache_insertxl_def etchmap_insertxl_def cache_findxl Let_def split: prod.split option.split)

lemma cache_find_spec:
  assumes "cache_ok b c"
  shows "\<exists>c'. etch_cache_find b c i = Some (cache_map c i, c') \<and> cache_ok b c' \<and> cache_map c' = cache_map c"
proof -
  let ?k = "make_etchmap_key i"
  have m: "map_ok b (ec_realtable c)" using assms by (simp add: cache_ok_def)
  obtain buf where k: "etch_make_cache_key i c = (length ?k, c\<lparr>ec_ckey := buf\<rparr>)" "length buf = ETCH_CACHE_KEYBUFLEN"
    "cached_key (c\<lparr>ec_ckey := buf\<rparr>) (length ?k) = Some ?k" using make_cache_key [OF assms] by blast
  then show ?thesis using findxl_spec [OF m, of ?k]
    by (auto simp: etch_cache_find_def cache_findxl cache_ok_def cache_map_def number_map_def etch_map_of_def fun_eq_iff)
qed

text \<open>
  The cache is a finite map from numbers of 32 bits: finding gives what is bound, inserting binds a number that is not
  bound and leaves one that is, deleting unbinds, and none of them writes behind the buffer for the key.
\<close>

theorem cache_is_a_map:
  assumes "cache_ok b c"
  shows "(\<exists>c'. etch_cache_find b c i = Some (cache_map c i, c') \<and> cache_ok b c' \<and> cache_map c' = cache_map c)
    \<and> (\<exists>c'. etch_cache_del b c i = Some (cache_map c i, c') \<and> cache_ok b c' \<and> cache_map c' = (cache_map c)(i := None))
    \<and> (\<exists>h c'. etch_cache_insert b c i (Some v) chk = Some (h, c') \<and> cache_ok b c'
          \<and> cache_map c' = (if cache_map c i = None then (cache_map c)(i \<mapsto> v) else cache_map c))"
proof -
  let ?k = "make_etchmap_key i" and ?t = "ec_realtable c"
  have m: "map_ok b ?t" using assms by (simp add: cache_ok_def)
  obtain buf where k: "etch_make_cache_key i c = (length ?k, c\<lparr>ec_ckey := buf\<rparr>)" "length buf = ETCH_CACHE_KEYBUFLEN"
    "cached_key (c\<lparr>ec_ckey := buf\<rparr>) (length ?k) = Some ?k" "take (length ?k) buf = ?k"
    using make_cache_key [OF assms] by blast
  have 2: "\<exists>c'. etch_cache_del b c i = Some (cache_map c i, c') \<and> cache_ok b c' \<and> cache_map c' = (cache_map c)(i := None)"
  proof -
    obtain t where t: "etchmap_delxl b ?t ?k = (etch_map_of ?t ?k, t)" "map_ok b t" "etch_map_of t = (etch_map_of ?t)(?k := None)"
      using delxl_spec [OF m] by blast
    then have "number_map t = (number_map ?t)(i := None)" using number_map_upd [of t ?t i None] by simp
    then show ?thesis using t(1,2) k cache_delxl [OF k(3)]
      by (auto simp: etch_cache_del_def cache_ok_def cache_map_def number_map_def)
  qed
  have 3: "\<exists>h c'. etch_cache_insert b c i (Some v) chk = Some (h, c') \<and> cache_ok b c'
      \<and> cache_map c' = (if cache_map c i = None then (cache_map c)(i \<mapsto> v) else cache_map c)"
  proof -
    obtain h t where t: "etchmap_insertxl b ?t ?k (Some v) chk = (h, t)" "map_ok b t"
      "etch_map_of t = (if etch_map_of ?t ?k = None then (etch_map_of ?t)(?k \<mapsto> v) else etch_map_of ?t)"
      using insertxl_spec [OF m make_etchmap_key_nonempty, of i v chk] by blast
    have "number_map t = (if number_map ?t i = None then (number_map ?t)(i \<mapsto> v) else number_map ?t)"
      using t(3) number_map_upd [of t ?t i "Some v"] by (simp add: number_map_def fun_eq_iff split: if_splits)
    then show ?thesis using t(1,2) k by (simp add: etch_cache_insert_def cache_insertxl cache_ok_def cache_map_def)
  qed
  show ?thesis using cache_find_spec [OF assms] 2 3 by blast
qed

lemma cache_is_a_map_witness:
  "\<exists>h c'. etch_cache_insert 32 (etch_cache_create :: nat etch_cache) 5 (Some 7) False = Some (h, c') \<and> cache_ok 32 c'"
  using cache_is_a_map [OF create_cache_ok, of 32 5 7 False] by blast

text \<open>
  \<open>etch_cache_delx\<close> does not look for the string it is given: it removes what is bound to the number whose
  operation was the last one, when the strings are of the same length, and the bound string stays.
\<close>

theorem delx_removes_the_last_number:
  assumes "cache_ok b c" and "etch_cache_find b c i = Some (v, c1)" and "length key = length (make_etchmap_key i)"
    and "key \<noteq> make_etchmap_key i"
  shows "\<exists>c2. etch_cache_delx b c1 key = Some (cache_map c i, c2) \<and> cache_map c2 i = None
    \<and> etch_map_of (ec_realtable c2) key = etch_map_of (ec_realtable c) key"
proof -
  let ?k = "make_etchmap_key i" and ?t = "ec_realtable c"
  have m: "map_ok b ?t" using assms(1) by (simp add: cache_ok_def)
  obtain buf where k: "etch_make_cache_key i c = (length ?k, c\<lparr>ec_ckey := buf\<rparr>)"
    "cached_key (c\<lparr>ec_ckey := buf\<rparr>) (length ?k) = Some ?k" using make_cache_key [OF assms(1)] by blast
  obtain e t1 where f: "etchmap_findxl b ?t ?k = (etch_map_of ?t ?k, e, t1)" "map_ok b t1" "str_map t1 = str_map ?t"
    using findxl_spec [OF m] by blast
  have c1: "c1 = c\<lparr>ec_ckey := buf, ec_realtable := t1\<rparr>" using assms(2) k f(1)
    by (simp add: etch_cache_find_def cache_findxl)
  have m1: "etch_map_of t1 = etch_map_of ?t" using f(3) by (simp add: etch_map_of_def fun_eq_iff)
  have ck: "cached_key c1 (length key) = Some ?k" using k(2) assms(3) by (simp add: c1 cached_key_def)
  obtain t2 where d: "etchmap_delxl b t1 ?k = (etch_map_of t1 ?k, t2)" "etch_map_of t2 = (etch_map_of t1)(?k := None)"
    using delxl_spec [OF f(2)] by blast
  have "etch_cache_delx b c1 key = Some (etch_map_of ?t ?k, c1\<lparr>ec_realtable := t2\<rparr>)"
    using cache_delxl [OF ck, of b key] d(1) m1 by (simp add: etch_cache_delx_def c1)
  then show ?thesis using d(2) m1 assms(4) by (simp add: cache_map_def number_map_def)
qed

lemma delx_removes_the_last_number_witness:
  "\<exists>c1 c2. etch_cache_find 32 (etch_cache_create :: nat etch_cache) 5 = Some (None, c1) \<and> etch_cache_delx 32 c1 [97] = Some (None, c2)"
proof -
  let ?c = "etch_cache_create :: nat etch_cache"
  have n: "cache_map ?c 5 = None" by (simp add: cache_map_def number_map_def etch_map_of_def etch_cache_create_def)
  then obtain c1 where f: "etch_cache_find 32 ?c 5 = Some (None, c1)" using cache_find_spec [OF create_cache_ok, of 32 5] by metis
  have k: "make_etchmap_key 5 = [53]" by code_simp
  from delx_removes_the_last_number [OF create_cache_ok f, of "[97]"] n k show ?thesis using f by auto
qed

end
