(* ===== verification/Spec2Isabelle.thy ===== *)
theory Spec2Isabelle
  imports Messagizer_Correct Serialization_Correct Queue_Correct MailboxManager_Correct
    ValueFactory_Correct LinkedList_Correct UrlParse_Correct ThreadPool_Threads ArrayValue_Correct Cache_Correct
begin

text \<open>
  A model of the core of the Etch C runtime, \<open>src/binding-c/runtime/c\<close>: the path of a message from
  the caller to the socket and from the socket to the layer that dispatches it, with the functional
  correctness of every stage and of their composition.

  \<^bold>\<open>The program.\<close>  Etch connects two processes by messages.  On the way out a message goes from the
  mailbox manager to the messagizer (\<open>etch_messagizer.c\<close>), which serializes it with the binary
  tagged data output (\<open>etch_binary_tdo.c\<close>) into a flex buffer (\<open>etch_flexbuffer.c\<close>), to the
  packetizer (\<open>etch_packetizer.c\<close>), which writes a header with a signature and the length in front
  of it, and to the TCP connection (\<open>etch_tcp_connection.c\<close>), which sends it.  On the way in, the
  receive thread of the connection reads chunks of any size, the packetizer cuts packets out of
  them, the messagizer deserializes each with the binary tagged data input (\<open>etch_binary_tdi.c\<close>)
  and hands the message up.  The layers know each other through interface objects; in the model a
  layer is a function argument of the layer that calls it, and the state of the callee is threaded
  through.  Where the stack is complete the argument is the definition of the next layer.

  \<^bold>\<open>Theories.\<close>  Each component has a theory with its definitions and one, named with
  \<open>_Correct\<close>, with its lemmas and properties.

  \<^item> \<open>Prelude\<close>: the type \<open>outcome\<close> of code that may fault or not return, bytes and words.
  \<^item> \<open>FlexBuffer\<close>: \<open>etch_flexbuffer.c\<close>.  The record \<open>etch_flexbuffer\<close> has the fields of the struct; the
    allocated block is a byte list.  Sizes are 64-bit with the wrap-around written out
    (\<open>sz_add\<close>), \<open>None\<close> is an access outside the block.
  \<^item> \<open>Packetizer\<close>, \<open>TcpConnection\<close>: \<open>etch_packetizer.c\<close> and the data path of
    \<open>etch_tcp_connection.c\<close>; the socket calls of APR are parameters.
  \<^item> \<open>TagData\<close>, \<open>Validator\<close>: objects, type codes and conversions of \<open>etch_tagdata.c\<close>, the
    validators of \<open>etch_validator.c\<close>, fields, types and struct values.
  \<^item> \<open>BinaryTdo\<close>, \<open>BinaryTdi\<close>: the serializer and the deserializer.
  \<^item> \<open>WireFormat\<close>: the specification of the format, an inductive relation between validators,
    values and bytes that mentions neither buffers nor the functions of the code.
  \<^item> \<open>Messagizer\<close>: \<open>transport_message\<close> and \<open>session_packet\<close> of \<open>etch_messagizer.c\<close>.
  \<^item> \<open>WireRead\<close>, \<open>BinaryTdo_Correct\<close>, \<open>BinaryTdi_Correct\<close>, \<open>Serialization_Correct\<close>,
    \<open>Messagizer_Correct\<close>: the proofs about them.  \<open>Sample\<close> is a concrete instance of the
    parameters for the examples.
  \<^item> \<open>Queue\<close>: the ring buffer with conditions of \<open>etch_queue_apr.c\<close> and the queue \<open>etch_queue.c\<close>
    of a mailbox.  \<open>Queue_Correct\<close> has the threads that use one queue as a step relation whose
    steps are the sections under the lock.
  \<^item> \<open>HashTable\<close>: the chained table of \<open>jenkhtab.c\<close> and its interface in \<open>etch_hash.c\<close>.
  \<^item> \<open>HashFunc\<close>: the Jenkins hash \<open>mix\<close> and \<open>lookup\<close> of \<open>jenklook.c\<close>, \<open>etchhash\<close> and the hash of a
    wrapped number.
  \<^item> \<open>Mailbox\<close>: a mailbox of \<open>etch_plain_mailbox.c\<close>, the queue that holds the reply to one message, with
    its state (open, closed to delivery, closed to reading) and its notification.
  \<^item> \<open>MailboxManager\<close>: \<open>etch_plain_mailbox_manager.c\<close>, which numbers messages, registers a mailbox per
    call in a hash table of \<open>HashTable\<close> under the hash of \<open>HashFunc\<close> and routes replies; and the two
    halves of a remote call, \<open>tcpdelsvc_begincall\<close> and \<open>tcpdelsvc_endcall\<close> of \<open>etch_transport.c\<close>.
  \<^item> \<open>ArrayList\<close>: \<open>etch_arraylist.c\<close> and the lists of keys and values of a hash table.
    \<open>ListContract\<close> is the contract of a list that \<open>ArrayList_Correct\<close> shows of it.
  \<^item> \<open>Names\<close>: \<open>etch_id_name.c\<close>, the ids that go on the wire and the hashes of names.
  \<^item> \<open>ValueFactory\<close>: the types of \<open>etch_default_value_factory.c\<close>, in a hash table by name, and the
    lookup through the factories that are mixed in.  \<open>HashIteration\<close> has the lemmas on walking over a
    table that it shares with the mailbox manager.
  \<^item> \<open>LinkedList\<close>: \<open>etch_linked_list.c\<close>, nodes in a heap; \<open>LinkedList_Correct\<close> shows the contract of
    \<open>ListContract\<close> of it too.
  \<^item> \<open>StringMap\<close>: the table of \<open>jenkhtab.c\<close> with string keys and the maps of \<open>etch_map.c\<close>.
    \<open>StringMap_Correct\<close> interprets the contract of \<open>HashTable_Correct\<close> a second time.
  \<^item> \<open>Url\<close>: the parser of connection URLs, \<open>etch_url.c\<close>, on blocks of characters.  \<open>Url_Correct\<close> has
    the lemmas on strings in a block and on unescaping, \<open>UrlParse_Correct\<close> the round trip.
  \<^item> \<open>ThreadPool\<close>: the thread pool of \<open>etch_threadpool_apr.c\<close>, with its queue by priority, the scheduled tasks
    and the sections of a worker thread.  \<open>ThreadPool_Correct\<close> has what each operation does to the queue,
    \<open>ThreadPool_Threads\<close> the callers and the workers of one pool as a step relation.
  \<^item> \<open>NativeArray\<close>: \<open>etch_nativearray.c\<close>, arrays of up to three dimensions in a block of bytes.  \<open>ArrayValue\<close>: the
    arrays of objects of \<open>etch_arrayval.c\<close> and the conversions between the two.
  \<^item> \<open>Cache\<close>: \<open>etch_cache.c\<close>, the global table of virtual tables, on the maps of \<open>StringMap\<close>.
  \<^bold>\<open>What the lemmas show.\<close>

  \<^item> Buffers: an invariant kept by every call, memory safety of sequences of calls, round trips of
    every primitive in both byte orders; \<open>etch_flexbuf_skip\<close> can leave the invariant.
  \<^item> Packets: \<open>etch_pktizer_session_data\<close> refines the specification \<open>stream_packets\<close> on byte
    streams, for every way of cutting the stream into chunks; framing is inverted by it.
  \<^item> Serialization: two small calculi, \<open>reads\<close> (what an operation does to a buffer whose unread bytes
    are known) and \<open>parses\<close>/\<open>writes\<close> (it consumes or produces exactly these bytes), carry the
    proofs.  The deserializer is total and memory-safe on arbitrary bytes; the serializer writes
    the bytes of the wire format and the deserializer inverts it; conversions of numbers to their
    declared width are exact.
  \<^item> Interfaces: the locale \<open>packet_session\<close> states what the packetizer and the receive thread need
    from the layer above, a handler that looks at the unread bytes only and moves nothing but the
    cursor; it is interpreted on the messagizer.  \<open>field_codec\<close> is the contract of a primitive
    put and get, interpreted on every primitive of the flex buffer.
  \<^item> End to end: \<open>message_end_to_end\<close> composes all of it; \<open>receiver_handles_any_bytes\<close> is the
    guarantee without any assumption on the sender.
  \<^item> Queues: the locale \<open>bounded_fifo\<close> is the contract of a bounded first-in-first-out buffer,
    interpreted on the ring buffer; the invariant of all threads gives order, bounds and waiter counts.
  \<^item> Hash tables: the locale \<open>hash_map\<close> is the contract of the interface \<open>etch_hashtable\<close>,
    interpreted on the \<open>jenkins_\<close> functions; a run of operations simulates a run on a map.
  \<^item> Mailboxes: the invariant \<open>pm_inv\<close> of the manager is kept by every step of \<open>pm_step\<close>; the calls,
    replies, failures, session events and closings are described by their effect on the map \<open>pm_reg\<close>
    from hashes to mailboxes.  The theorems are for a \<open>ub4\<close> of 32 bits; where it has 64 bits no reply is
    ever found, as the theorem on the hash table shows.
  \<^item> Array lists: the locale \<open>list_object\<close> is the contract of a list object, that calls return
    what they return on the list of its entries; it is interpreted on the calls of \<open>etch_arraylist.c\<close>.
  \<^item> Value factories: a lookup is a search along the relation \<open>mixed_in\<close>; it ends for a well-founded
    relation, of which a rank is given, and runs on for ever in a cycle.
  \<^item> Strings as keys: \<open>str_ok\<close> and \<open>str_map\<close>, a second interpretation of \<open>hash_map\<close>; the maps with
    number keys follow because decimal strings differ for different numbers.
  \<^item> URLs: every step of the parser changes only the part of the copy that it reads (\<open>same_outside\<close>), so that the
    strings behind and before it are what they were.
  \<^item> Thread pool: \<open>pool_ok\<close> is a queue in the order of its priorities, kept by the operations under the conditions
    the theorems name; \<open>rings_ok\<close> is what holds of any calls, kept by every step of \<open>pool_call\<close> and \<open>pool_run\<close>, from
    which \<open>sys_ok\<close>, the invariant of the system, follows by rule induction.
  \<^item> Native arrays: \<open>na_ok\<close> relates an array to its dimensions; \<open>flat\<close> numbers the items and is injective on the
    subscripts in range, from which the laws of putting and getting follow.  \<open>fills\<close> is what a nest of loops writes.
  \<^bold>\<open>Fuel and bounds.\<close>  \<open>etch_pktizer_session_data\<close> has one unit of fuel per iteration and terminates
  with one more than the unread bytes; the receive loop needs one more than the chunks delivered.
  Deserialization needs one more than the unread bytes, because every level of nesting and every
  iteration consumes a byte; serialization needs the length of the output.  \<open>Diverges\<close> is what a
  loop that runs out of every fuel returns; where the code can hang this is proved
  (\<open>pktizer_full_savebuf_never_returns\<close>).  A buffer holds at most 4 MB (\<open>ETCH_MAX_FLEXBUFSIZE\<close>);
  an object of the C program has fewer than \<open>OBJ_MAX\<close> bytes.
  \<^item> Closing a mailbox for reading takes one message out per round: with one message at most two rounds are
    enough.  The walk over the registered mailboxes has one round per entry and one more.
  \<^item> A lookup in a value factory has one unit of fuel per call and per round of its loop; the theorem states
    that enough fuel exists.  Lookups by id walk over a table with one round per entry and one more.
  \<^item> A linked list is walked with one unit of fuel per node and one more.  The loops over the terms and the
    parameters of a URL have one round per delimiter, fewer than the block has characters.
  \<^item> A native array becomes an array value with four levels of recursion, one more than there are dimensions.
  \<^bold>\<open>Not modelled.\<close>  Memory ownership and allocation failure; threads, mutexes and condition
  variables (a call under a lock is one step); character set conversion and the hooks of the value
  factory (parameters of the serializer, collected in \<open>etch_env\<close>); the arithmetic on IEEE numbers
  (bit patterns); opening and closing of connections, the server, configuration and logging; the
  IDL compiler and the bindings to other languages.
\<close>

section \<open>From message to message\<close>


text \<open>A concrete configuration, and a session that records the messages it gets.\<close>

definition sample_vf :: "(unit, byte list) etch_vf" where
  "sample_vf = \<lparr>vf_env = sample_env, vf_types = sample_types, vf_validate_write = True,
     vf_mf_in_reply_to = sample_field 7 ''r'', vf_mf_msg = sample_field 8 ''m'',
     vf_mf_result = sample_field 9 ''x''\<rparr>"

lemma sample_end_message:
  "bintdi_end_message sample_env vw ty (sample_field 7 ''r'') msg res sample_items = sample_items"
  by (simp add: bintdi_end_message_def structvalue_get_def sample_items_def sample_field_def)

definition sample_recv ::
  "byte list list etch_tcp_connection \<Rightarrow> nat \<Rightarrow> apr_status \<times> byte list \<times> byte list list etch_tcp_connection" where
  "sample_recv c n = (case cx_socket c of [] \<Rightarrow> (APR_EOF, [], c)
     | b # bs \<Rightarrow> (APR_SUCCESS, b, c\<lparr>cx_socket := bs\<rparr>))"

lemma sample_recv_delivers:
  assumes "\<forall>c \<in> set cs. c \<noteq> [] \<and> length c \<le> n \<and> c \<noteq> ETCH_SHUTDOWNSIGNAL"
  shows "recv_delivers sample_recv n \<lparr>cx_is_started = True, cx_bufsize = n, cx_socket = cs\<rparr> cs"
  using assms by (induction cs) (auto simp: sample_recv_def)




end
